(* ===== verification/Py_Prelude.thy ===== *)
theory Py_Prelude
  imports
    Main
    "HOL-Library.AList"
    "HOL-Library.Sublist"
    "HOL-Library.Multiset"
    "HOL-Library.Char_ord"
    "HOL-Library.List_Lexorder"
begin

text \<open>
  The parts of Python that every component uses: exceptions as values, the result type,
  strings (splitting, joining, stripping, decimal numerals), slices with Python's index
  conventions, dictionaries in insertion order, and \<open>list.sort\<close> with a comparison
  function.  Every definition is executable.  The lemmas are the facts the component
  theories share.
\<close>

section \<open>Exceptions and results\<close>

text \<open>
  A raised exception is the left summand.  \<open>PyException\<close> is a bare \<open>Exception\<close> with
  its message, \<open>SystemExit\<close> is \<open>sys.exit\<close> with its status.
\<close>

datatype py_error =
    KeyError
  | IndexError
  | ValueError string
  | AttributeError
  | TypeError
  | NameError
  | UnboundLocalError
  | ZeroDivisionError
  | FileNotFoundError
  | AssertionError
  | OSError
  | WafError string
  | PyException string
  | SystemExit int

type_synonym 'a res = "py_error + 'a"

named_theorems res_simps \<open>evaluation of the result monad\<close>
named_theorems str_simps \<open>evaluation of string operations\<close>

definition res_bind :: "('e + 'a) \<Rightarrow> ('a \<Rightarrow> 'e + 'b) \<Rightarrow> 'e + 'b" where
  "res_bind m f = (case m of Inl e \<Rightarrow> Inl e | Inr x \<Rightarrow> f x)"

lemma res_bind_Inl [simp, res_simps]: "res_bind (Inl e) f = Inl e"
  by (simp add: res_bind_def)

lemma res_bind_Inr [simp, res_simps]: "res_bind (Inr x) f = f x"
  by (simp add: res_bind_def)

lemma res_bind_eq_Inr: "res_bind m f = Inr y \<longleftrightarrow> (\<exists>x. m = Inr x \<and> f x = Inr y)"
  by (cases m) auto

lemma res_bind_eq_Inl: "res_bind m f = Inl e \<longleftrightarrow> m = Inl e \<or> (\<exists>x. m = Inr x \<and> f x = Inl e)"
  by (cases m) auto

lemma res_bind_assoc: "res_bind (res_bind m f) g = res_bind m (\<lambda>x. res_bind (f x) g)"
  by (cases m) auto

text \<open>A \<open>for\<close> loop whose body may raise: the first exception ends the loop.\<close>

fun res_fold :: "('s \<Rightarrow> 'x \<Rightarrow> 'e + 's) \<Rightarrow> 'x list \<Rightarrow> 's \<Rightarrow> 'e + 's" where
  "res_fold f [] s = Inr s"
| "res_fold f (x # xs) s = res_bind (f s x) (res_fold f xs)"

fun res_map :: "('x \<Rightarrow> 'e + 'y) \<Rightarrow> 'x list \<Rightarrow> 'e + 'y list" where
  "res_map f [] = Inr []"
| "res_map f (x # xs) = res_bind (f x) (\<lambda>y. res_bind (res_map f xs) (\<lambda>ys. Inr (y # ys)))"

lemma res_fold_append: "res_fold f (xs @ ys) s = res_bind (res_fold f xs s) (res_fold f ys)"
proof (induction xs arbitrary: s)
  case (Cons x xs)
  show ?case by (cases "f s x") (simp_all add: Cons.IH)
qed simp

lemma res_fold_invariant:
  assumes "res_fold f xs s = Inr t" and "P s"
    and "\<And>s x t. P s \<Longrightarrow> x \<in> set xs \<Longrightarrow> f s x = Inr t \<Longrightarrow> P t"
  shows "P t"
  using assms
proof (induction xs arbitrary: s)
  case (Cons x xs)
  from Cons.prems(1) obtain u where u: "f s x = Inr u" "res_fold f xs u = Inr t"
    by (auto simp: res_bind_eq_Inr)
  have P: "P u" by (rule Cons.prems(3) [OF Cons.prems(2) _ u(1)]) simp
  show ?case
    by (rule Cons.IH [OF u(2) P]) (rule Cons.prems(3), simp_all)
qed simp

lemma res_fold_pure:
  assumes "\<And>s x. x \<in> set xs \<Longrightarrow> f s x = Inr (g s x)"
  shows "res_fold f xs s = Inr (foldl g s xs)"
  using assms by (induction xs arbitrary: s) auto

lemma res_map_length: "res_map f xs = Inr ys \<Longrightarrow> length ys = length xs"
  by (induction xs arbitrary: ys) (auto simp: res_bind_eq_Inr)

lemma res_map_pure:
  assumes "\<And>x. x \<in> set xs \<Longrightarrow> f x = Inr (g x)"
  shows "res_map f xs = Inr (map g xs)"
  using assms by (induction xs) auto

section \<open>Strings\<close>

abbreviation NL :: char where "NL \<equiv> CHR 0x0A"
abbreviation TAB :: char where "TAB \<equiv> CHR 0x09"
abbreviation DQ :: char where "DQ \<equiv> CHR 0x22"
abbreviation BACKSLASH :: char where "BACKSLASH \<equiv> CHR 0x5C"
abbreviation SQ :: char where "SQ \<equiv> CHR 0x27"

text \<open>\<open>str.isspace\<close> on one ASCII character.\<close>

definition is_space :: "char \<Rightarrow> bool" where
  "is_space c \<longleftrightarrow> c \<in> set [CHR '' '', CHR 0x09, CHR 0x0A, CHR 0x0B, CHR 0x0C, CHR 0x0D,
     CHR 0x1C, CHR 0x1D, CHR 0x1E, CHR 0x1F]"

definition is_digit :: "char \<Rightarrow> bool" where
  "is_digit c \<longleftrightarrow> c \<in> set ''0123456789''"

text \<open>\<open>s.strip()\<close>, \<open>s.split(c)\<close>, \<open>s.split(c, 1)\<close> and \<open>sep.join(xs)\<close>.\<close>

definition py_strip :: "string \<Rightarrow> string" where
  "py_strip s = rev (dropWhile is_space (rev (dropWhile is_space s)))"

fun py_split :: "char \<Rightarrow> string \<Rightarrow> string list" where
  "py_split c [] = [[]]"
| "py_split c (x # xs) =
     (if x = c then [] # py_split c xs
      else (case py_split c xs of [] \<Rightarrow> [[x]] | y # ys \<Rightarrow> (x # y) # ys))"

definition py_split1 :: "char \<Rightarrow> string \<Rightarrow> string list" where
  "py_split1 c s =
     (if c \<in> set s then [takeWhile (\<lambda>x. x \<noteq> c) s, tl (dropWhile (\<lambda>x. x \<noteq> c) s)] else [s])"

fun py_join :: "string \<Rightarrow> string list \<Rightarrow> string" where
  "py_join sep [] = []"
| "py_join sep [x] = x"
| "py_join sep (x # y # ys) = x @ sep @ py_join sep (y # ys)"

lemma takeWhile_absent: "c \<notin> set s \<Longrightarrow> takeWhile (\<lambda>x. x \<noteq> c) s = s"
  by (induction s) auto

lemma dropWhile_absent: "c \<notin> set s \<Longrightarrow> dropWhile (\<lambda>x. x \<noteq> c) s = []"
  by (induction s) auto

lemma dropWhile_present: "c \<in> set s \<Longrightarrow> dropWhile (\<lambda>x. x \<noteq> c) s = c # tl (dropWhile (\<lambda>x. x \<noteq> c) s)"
  by (induction s) auto

lemma py_split_not_Nil [simp]: "py_split c s \<noteq> []"
  by (induction s) (auto split: list.splits)

lemma py_join_Cons: "ys \<noteq> [] \<Longrightarrow> py_join sep (x # ys) = x @ sep @ py_join sep ys"
  by (cases ys) auto

lemma py_join_split: "py_join [c] (py_split c s) = s"
proof (induction s)
  case (Cons x xs)
  obtain y ys where ys: "py_split c xs = y # ys"
    by (cases "py_split c xs") auto
  show ?case
  proof (cases "x = c")
    case True
    with Cons ys show ?thesis by (simp add: py_join_Cons)
  next
    case False
    with Cons.IH ys show ?thesis by (cases ys) auto
  qed
qed simp

lemma py_split_no_sep: "c \<notin> set s \<Longrightarrow> py_split c s = [s]"
  by (induction s) auto

lemma py_split_append_sep: "c \<notin> set s \<Longrightarrow> py_split c (s @ c # t) = s # py_split c t"
  by (induction s) auto

lemma py_split_join:
  assumes "xs \<noteq> []" and "\<And>x. x \<in> set xs \<Longrightarrow> c \<notin> set x"
  shows "py_split c (py_join [c] xs) = xs"
  using assms
  by (induction "[c]" xs rule: py_join.induct) (auto simp: py_split_no_sep py_split_append_sep)

lemma py_split_pieces: "x \<in> set (py_split c s) \<Longrightarrow> c \<notin> set x"
  by (induction s arbitrary: x) (fastforce split: if_splits list.splits)+

lemma py_split1_join: "py_join [c] (py_split1 c s) = s"
proof (cases "c \<in> set s")
  case True
  then obtain t where t: "dropWhile (\<lambda>x. x \<noteq> c) s = c # t"
    using dropWhile_present [of c s] by metis
  have "takeWhile (\<lambda>x. x \<noteq> c) s @ c # t = s"
    using takeWhile_dropWhile_id [of "\<lambda>x. x \<noteq> c" s] t by simp
  with True t show ?thesis by (simp add: py_split1_def)
qed (simp add: py_split1_def)

lemma py_strip_empty [simp]: "py_strip [] = []"
  by (simp add: py_strip_def)

lemma py_strip_id:
  assumes "\<forall>c \<in> set s. \<not> is_space c"
  shows "py_strip s = s"
proof -
  have "dropWhile is_space t = t" if "\<forall>c \<in> set t. \<not> is_space c" for t using that by (cases t) auto
  from this [of s] this [of "rev s"] assms show ?thesis by (simp add: py_strip_def)
qed

subsection \<open>Decimal numerals\<close>

definition digit_char :: "nat \<Rightarrow> char" where
  "digit_char d = ''0123456789'' ! d"

fun show_nat :: "nat \<Rightarrow> string" where
  "show_nat n = (if n < 10 then [digit_char n] else show_nat (n div 10) @ [digit_char (n mod 10)])"

declare show_nat.simps [simp del]

definition show_int :: "int \<Rightarrow> string" where
  "show_int i = (if i < 0 then ''-'' @ show_nat (nat (- i)) else show_nat (nat i))"

definition digit_val :: "char \<Rightarrow> nat" where
  "digit_val c = length (takeWhile (\<lambda>x. x \<noteq> c) ''0123456789'')"

definition read_nat :: "string \<Rightarrow> nat" where
  "read_nat s = foldl (\<lambda>n c. 10 * n + digit_val c) 0 s"

lemma nat_less_10_cases:
  assumes "d < (10::nat)"
  obtains "d = 0" | "d = 1" | "d = 2" | "d = 3" | "d = 4" | "d = 5" | "d = 6" | "d = 7"
    | "d = 8" | "d = 9"
proof -
  from assms have "d = 0 \<or> d = 1 \<or> d = 2 \<or> d = 3 \<or> d = 4 \<or> d = 5 \<or> d = 6 \<or> d = 7 \<or> d = 8 \<or> d = 9"
    by arith
  with that show thesis by blast
qed

lemma digit_val_digit_char [simp]: "d < 10 \<Longrightarrow> digit_val (digit_char d) = d"
  by (erule nat_less_10_cases) (simp_all add: digit_val_def digit_char_def)

lemma is_digit_digit_char [simp]: "d < 10 \<Longrightarrow> is_digit (digit_char d)"
  by (simp add: is_digit_def digit_char_def nth_mem del: set_simps)

lemma read_nat_snoc: "read_nat (s @ [c]) = 10 * read_nat s + digit_val c"
  by (simp add: read_nat_def)

lemma read_show_nat [simp]: "read_nat (show_nat n) = n"
proof (induction n rule: show_nat.induct)
  case (1 n)
  show ?case
  proof (cases "n < 10")
    case True
    then show ?thesis by (simp add: show_nat.simps [of n] read_nat_def)
  next
    case False
    with 1 show ?thesis by (simp add: show_nat.simps [of n] read_nat_snoc)
  qed
qed

lemma show_nat_digits: "c \<in> set (show_nat n) \<Longrightarrow> is_digit c"
proof (induction n rule: show_nat.induct)
  case (1 n)
  then show ?case
    by (cases "n < 10") (auto simp: show_nat.simps [of n])
qed

lemma show_nat_not_Nil [simp]: "show_nat n \<noteq> []"
  by (simp add: show_nat.simps [of n])

lemma show_nat_inject [simp]: "show_nat m = show_nat n \<longleftrightarrow> m = n"
  by (metis read_show_nat)

subsection \<open>The text of a value\<close>

text \<open>The text of a string and of a list of strings under \<open>%r\<close>.\<close>

definition hex_digit :: "nat \<Rightarrow> char" where
  "hex_digit n = ''0123456789abcdef'' ! (n mod 16)"

definition repr_char :: "char \<Rightarrow> char \<Rightarrow> string" where
  "repr_char quote c =
     (let n = of_char c :: nat
      in if c = quote \<or> c = BACKSLASH then [BACKSLASH, c]
         else if c = NL then [BACKSLASH, CHR ''n'']
         else if c = TAB then [BACKSLASH, CHR ''t'']
         else if c = CHR 0x0D then [BACKSLASH, CHR ''r'']
         else if n < 32 \<or> (127 \<le> n \<and> n \<le> 160) \<or> n = 173 then [BACKSLASH, CHR ''x'', hex_digit (n div 16), hex_digit n]
         else [c])"

definition py_repr :: "string \<Rightarrow> string" where
  "py_repr s =
     (let quote = (if SQ \<in> set s \<and> DQ \<notin> set s then DQ else SQ)
      in [quote] @ concat (map (repr_char quote) s) @ [quote])"

definition py_repr_list :: "string list \<Rightarrow> string" where
  "py_repr_list xs = ''['' @ py_join '', '' (map py_repr xs) @ '']''"

section \<open>Slices and indices\<close>

text \<open>
  \<open>xs[i:j]\<close> and \<open>xs[i]\<close>: a negative index counts from the end, a slice is cut to
  the list, an index outside raises \<open>IndexError\<close>.
\<close>

definition slice_bound :: "nat \<Rightarrow> int \<Rightarrow> nat" where
  "slice_bound n i = nat (max 0 (min (int n) (if i < 0 then int n + i else i)))"

definition py_slice :: "'a list \<Rightarrow> int \<Rightarrow> int \<Rightarrow> 'a list" where
  "py_slice xs i j =
     (let a = slice_bound (length xs) i; b = slice_bound (length xs) j in take (b - a) (drop a xs))"

definition py_index :: "'a list \<Rightarrow> int \<Rightarrow> 'a res" where
  "py_index xs i =
     (if 0 \<le> i then (if nat i < length xs then Inr (xs ! nat i) else Inl IndexError)
      else if nat (- i) \<le> length xs then Inr (xs ! (length xs - nat (- i))) else Inl IndexError)"

lemma slice_bound_nat [simp]: "slice_bound n (int k) = min n k"
  by (auto simp: slice_bound_def min_def max_def)

lemma slice_bound_0 [simp]: "slice_bound n 0 = 0"
  by (simp add: slice_bound_def)

lemma py_slice_nat: "py_slice xs (int a) (int b) = take (b - a) (drop a xs)"
  by (simp add: py_slice_def Let_def min_def)

lemma py_index_nat: "i < length xs \<Longrightarrow> py_index xs (int i) = Inr (xs ! i)"
  by (simp add: py_index_def)

lemma filter_index_range:
  assumes "\<And>k. k < length xs \<Longrightarrow> P (xs ! k) \<longleftrightarrow> a \<le> k \<and> k < b"
  shows "filter P xs = take (b - a) (drop a xs)"
  using assms
proof (induction xs arbitrary: a b)
  case (Cons x xs)
  have ih: "filter P xs = take (b - 1 - (a - 1)) (drop (a - 1) xs)" if "0 < a \<or> b = 0"
  proof (rule Cons.IH)
    fix k assume "k < length xs"
    with Cons.prems [of "Suc k"] that show "P (xs ! k) \<longleftrightarrow> a - 1 \<le> k \<and> k < b - 1" by auto
  qed
  have ih0: "filter P xs = take (b - 1) xs" if "a = 0"
    using Cons.IH [of 0 "b - 1"] Cons.prems [of "Suc _"] that by fastforce
  show ?case
  proof (cases "a = 0 \<and> 0 < b")
    case True
    then have "P x" using Cons.prems [of 0] by simp
    with True ih0 show ?thesis by (cases b) auto
  next
    case False
    then have "\<not> P x" "0 < a \<or> b = 0" using Cons.prems [of 0] by auto
    with ih show ?thesis by (cases a; cases b) auto
  qed
qed simp

lemma set_py_slice_subset: "set (py_slice xs i j) \<subseteq> set xs"
  by (auto simp: py_slice_def Let_def dest: in_set_takeD in_set_dropD)

section \<open>Dictionaries\<close>

text \<open>
  A dictionary is its list of items with distinct keys, in iteration order;
  \<open>d[k] = v\<close> is \<open>AList.update\<close>, \<open>del d[k]\<close> is \<open>AList.delete\<close>, \<open>d.get(k)\<close>
  is \<open>map_of\<close>, \<open>d.keys()\<close> is \<open>map fst\<close>.
\<close>

type_synonym ('k, 'v) dict = "('k \<times> 'v) list"

definition dict_wf :: "('k, 'v) dict \<Rightarrow> bool" where
  "dict_wf d \<longleftrightarrow> distinct (map fst d)"

definition dict_get :: "('k, 'v) dict \<Rightarrow> 'k \<Rightarrow> 'v res" where
  "dict_get d k = (case map_of d k of None \<Rightarrow> Inl KeyError | Some v \<Rightarrow> Inr v)"

definition has_key :: "('k, 'v) dict \<Rightarrow> 'k \<Rightarrow> bool" where
  "has_key d k \<longleftrightarrow> map_of d k \<noteq> None"

definition dict_del :: "'k \<Rightarrow> ('k, 'v) dict \<Rightarrow> ('k, 'v) dict res" where
  "dict_del k d = (if has_key d k then Inr (AList.delete k d) else Inl KeyError)"

lemma dict_wf_Nil [simp]: "dict_wf []"
  by (simp add: dict_wf_def)

lemma dict_wf_update [simp]: "dict_wf d \<Longrightarrow> dict_wf (AList.update k v d)"
  by (simp add: dict_wf_def distinct_update)

lemma dict_wf_delete [simp]: "dict_wf d \<Longrightarrow> dict_wf (AList.delete k d)"
  by (simp add: dict_wf_def distinct_delete)

lemma map_of_update [simp]: "map_of (AList.update k v d) = (map_of d)(k \<mapsto> v)"
  by (rule update_conv')

lemma map_of_AList_delete [simp]: "map_of (AList.delete k d) = (map_of d)(k := None)"
  by (rule delete_conv')

lemma has_key_update [simp]: "has_key (AList.update k v d) x \<longleftrightarrow> x = k \<or> has_key d x"
  by (simp add: has_key_def)

lemma has_key_delete [simp]: "has_key (AList.delete k d) x \<longleftrightarrow> x \<noteq> k \<and> has_key d x"
  by (simp add: has_key_def)

lemma has_key_iff: "has_key d k \<longleftrightarrow> k \<in> fst ` set d"
  by (simp add: has_key_def map_of_eq_None_iff)

lemma update_new: "k \<notin> fst ` set d \<Longrightarrow> AList.update k v d = d @ [(k, v)]"
  by (induction d) auto

lemma length_delete_less: "has_key d k \<Longrightarrow> length (AList.delete k d) < length d"
  unfolding AList.delete_eq by (auto simp: has_key_iff intro!: length_filter_less)

section \<open>Sorting with a comparison function\<close>

text \<open>\<open>xs.sort(cmp)\<close> is stable: an element stays in front of the later ones it compares equal to.\<close>

fun insort_cmp :: "('a \<Rightarrow> 'a \<Rightarrow> int) \<Rightarrow> 'a \<Rightarrow> 'a list \<Rightarrow> 'a list" where
  "insort_cmp cmp x [] = [x]"
| "insort_cmp cmp x (y # ys) = (if cmp x y \<le> 0 then x # y # ys else y # insort_cmp cmp x ys)"

definition sort_cmp :: "('a \<Rightarrow> 'a \<Rightarrow> int) \<Rightarrow> 'a list \<Rightarrow> 'a list" where
  "sort_cmp cmp xs = foldr (insort_cmp cmp) xs []"

lemma mset_insort_cmp [simp]: "mset (insort_cmp cmp x xs) = add_mset x (mset xs)"
  by (induction xs) auto

lemma mset_sort_cmp [simp]: "mset (sort_cmp cmp xs) = mset xs"
  unfolding sort_cmp_def by (induction xs) auto

lemma set_sort_cmp [simp]: "set (sort_cmp cmp xs) = set xs"
  by (metis mset_sort_cmp set_mset_mset)

lemma length_sort_cmp [simp]: "length (sort_cmp cmp xs) = length xs"
  by (metis mset_sort_cmp size_mset)

text \<open>
  The contract of a comparison function that orders by a key: its sign is the sign of the
  difference of the keys.
\<close>

locale key_comparator =
  fixes cmp :: "'a \<Rightarrow> 'a \<Rightarrow> int" and key :: "'a \<Rightarrow> 'k::linorder"
  assumes cmp_le: "cmp x y \<le> 0 \<longleftrightarrow> key x \<le> key y"
begin

lemma insort_cmp_eq: "insort_cmp cmp x xs = insort_key key x xs"
  by (induction xs) (auto simp: cmp_le)

lemma sort_cmp_eq: "sort_cmp cmp xs = sort_key key xs"
  unfolding sort_cmp_def sort_key_def
  by (induction xs) (auto simp: insort_cmp_eq)

lemma sorted_sort_cmp: "sorted (map key (sort_cmp cmp xs))"
  by (simp add: sort_cmp_eq)

lemma stable_sort_cmp: "filter (\<lambda>x. key x = k) (sort_cmp cmp xs) = filter (\<lambda>x. key x = k) xs"
  by (simp add: sort_cmp_eq sort_key_stable)

end

section \<open>Transition systems\<close>

text \<open>
  The interface of the step relations of the development: a set of start states, a step
  relation, an invariant that the start states satisfy and that every step keeps.
\<close>

locale transition_system =
  fixes init :: "'s \<Rightarrow> bool" and step :: "'s \<Rightarrow> 's \<Rightarrow> bool" and inv :: "'s \<Rightarrow> bool"
  assumes init_inv: "init s \<Longrightarrow> inv s"
    and step_inv: "inv s \<Longrightarrow> step s t \<Longrightarrow> inv t"
begin

lemma reach_inv: "init s \<Longrightarrow> step\<^sup>*\<^sup>* s t \<Longrightarrow> inv t"
proof (rotate_tac, induction rule: rtranclp_induct)
  case base
  then show ?case by (rule init_inv)
next
  case (step t u)
  then show ?case by (blast intro: step_inv)
qed

end

text \<open>A transition system in which every step makes a natural number smaller runs down.\<close>

locale terminating_system = transition_system init step inv
  for init :: "'s \<Rightarrow> bool" and step :: "'s \<Rightarrow> 's \<Rightarrow> bool" and inv :: "'s \<Rightarrow> bool" +
  fixes weight :: "'s \<Rightarrow> nat" and final :: "'s \<Rightarrow> bool"
  assumes step_weight: "inv s \<Longrightarrow> step s t \<Longrightarrow> weight t < weight s"
    and progress: "inv s \<Longrightarrow> \<not> final s \<Longrightarrow> \<exists>t. step s t"
begin

lemma run_length: "inv s \<Longrightarrow> (step ^^ n) s t \<Longrightarrow> n + weight t \<le> weight s \<and> inv t"
proof (induction n arbitrary: t)
  case (Suc n)
  then obtain u where u: "(step ^^ n) s u" "step u t" by auto
  with Suc have "n + weight u \<le> weight s" "inv u" by auto
  with step_weight [OF _ u(2)] step_inv [OF _ u(2)] show ?case by auto
qed simp

lemma reaches_final: "inv s \<Longrightarrow> \<exists>t. step\<^sup>*\<^sup>* s t \<and> final t \<and> inv t"
proof (induction "weight s" arbitrary: s rule: less_induct)
  case less
  show ?case
  proof (cases "final s")
    case True
    with less.prems show ?thesis by blast
  next
    case False
    with progress less.prems obtain t where t: "step s t" by blast
    with step_weight step_inv less.prems have "weight t < weight s" "inv t" by auto
    with less.hyps obtain u where "step\<^sup>*\<^sup>* t u" "final u" "inv u" by blast
    with t show ?thesis by (meson converse_rtranclp_into_rtranclp)
  qed
qed

end

end
