(* ===== verification/Rad_Util.thy ===== *)
theory Rad_Util
  imports Py_Prelude Complex_Main "HOL-Library.While_Combinator"
begin

unbundle bit_operations_syntax

text \<open>
  The utility functions of \<^verbatim>\<open>bindings/python/rad_util.py\<close> (Python 2): binary numerals,
  matrices, Euclid's algorithm, permutations, quantiles, bit tricks, common prefixes and
  suffixes, rotations and command line arguments.  Python's unbounded integers are \<open>int\<close>,
  so \<open>/\<close> and \<open>%\<close> on them are \<open>div\<close> and \<open>mod\<close> (both round towards minus
  infinity).  Where the code computes with floats (quantiles, ranges, areas) the model
  computes with the exact rational.
\<close>

section \<open>Binary numerals\<close>

fun hex_digits :: "nat \<Rightarrow> string" where
  "hex_digits n =
     (if n < 16 then [''0123456789abcdef'' ! n]
      else hex_digits (n div 16) @ [''0123456789abcdef'' ! (n mod 16)])"

declare hex_digits.simps [simp del]

text \<open>The built-in \<open>hex\<close>; the suffix L of a Python 2 long, which the code deletes, is left out.\<close>

definition py_hex :: "int \<Rightarrow> string" where
  "py_hex i = (if i < 0 then ''-0x'' @ hex_digits (nat (- i)) else ''0x'' @ hex_digits (nat i))"

definition hex2bin_table :: "(char, string) dict" where
  "hex2bin_table =
     [(CHR ''0'', ''0000''), (CHR ''1'', ''0001''), (CHR ''2'', ''0010''), (CHR ''3'', ''0011''),
      (CHR ''4'', ''0100''), (CHR ''5'', ''0101''), (CHR ''6'', ''0110''), (CHR ''7'', ''0111''),
      (CHR ''8'', ''1000''), (CHR ''9'', ''1001''), (CHR ''a'', ''1010''), (CHR ''b'', ''1011''),
      (CHR ''c'', ''1100''), (CHR ''d'', ''1101''), (CHR ''e'', ''1110''), (CHR ''f'', ''1111'')]"

definition int2bin :: "int \<Rightarrow> int \<Rightarrow> string res" where
  "int2bin i n =
     res_bind (res_map (dict_get hex2bin_table) (py_slice (py_hex i) 2 (int (length (py_hex i)))))
       (\<lambda>digits.
          let result = concat digits in
          if CHR ''1'' \<in> set (py_slice result 0 (- n))
          then Inl (ValueError ''Value too large for given number of bits.'')
          else
            let result = py_slice result (- n) (int (length result)) in
            Inr (replicate (nat (n - int (length result))) (CHR ''0'') @ result))"

text \<open>The built-in \<open>int(s, 2)\<close>: blanks around, a sign and a \<open>0b\<close> prefix are accepted.\<close>

definition bits_val :: "string \<Rightarrow> int" where
  "bits_val s = foldl (\<lambda>n c. 2 * n + (if c = CHR ''1'' then 1 else 0)) 0 s"

definition bin2int :: "string \<Rightarrow> int res" where
  "bin2int s =
     (let t = py_strip s;
          neg = (t \<noteq> [] \<and> hd t = CHR ''-'');
          u = (if t \<noteq> [] \<and> (hd t = CHR ''-'' \<or> hd t = CHR ''+'') then tl t else t);
          v = (if prefix ''0b'' u \<or> prefix ''0B'' u then drop 2 u else u)
      in if v \<noteq> [] \<and> set v \<subseteq> set ''01''
         then Inr (if neg then - bits_val v else bits_val v)
         else Inl (ValueError ''invalid literal for int() with base 2''))"

definition reverse_string :: "string \<Rightarrow> string" where
  "reverse_string input_string = rev input_string"

section \<open>Matrices and polygons\<close>

text \<open>\<open>zip(*matrix)\<close> stops at the shortest row and is empty for no rows.\<close>

function zip_star :: "'a list list \<Rightarrow> 'a list list" where
  "zip_star rows = (if rows = [] \<or> [] \<in> set rows then [] else map hd rows # zip_star (map tl rows))"
  by pat_completeness auto
termination
proof (relation "measure (\<lambda>rows. length (hd rows))")
  fix rows :: "'a list list"
  assume a: "\<not> (rows = [] \<or> [] \<in> set rows)"
  then obtain r rs where r: "rows = r # rs" "r \<noteq> []" by (cases rows) auto
  then show "(map tl rows, rows) \<in> measure (\<lambda>rows. length (hd rows))" by simp
qed simp

declare zip_star.simps [simp del]

definition transpose_matrix :: "'a list list \<Rightarrow> 'a list list" where
  "transpose_matrix matrix = zip_star matrix"

text \<open>
  \<open>polygon_area\<close> for integer coordinates and an integer precision.  It writes the scaled and
  closed polygon back into the caller's list, which is the first component of the result.
\<close>

definition polygon_area :: "(int \<times> int) list \<Rightarrow> int \<Rightarrow> ((int \<times> int) list \<times> rat) res" where
  "polygon_area points_list precision =
     (let points = map (\<lambda>(x, y). (x * precision, y * precision)) points_list in
      if points = [] then Inl IndexError
      else
        let points = (if last points \<noteq> hd points then points @ [hd points] else points);
            area = foldl (\<lambda>area i.
                     let (x_i, y_i) = points ! i; (x_j, y_j) = points ! (i + 1)
                     in area + x_j * y_i - y_j * x_i) 0 [0 ..< length points - 1];
            area = \<bar>area div 2\<bar>
        in if precision = 0 then Inl ZeroDivisionError
           else Inr (points, of_int area / of_int (precision ^ 2)))"

definition pt2str :: "('a \<Rightarrow> string) \<Rightarrow> 'a \<times> 'a \<Rightarrow> string" where
  "pt2str str point = ''('' @ str (fst point) @ '', '' @ str (snd point) @ '')''"

section \<open>Euclid\<close>

text \<open>On integers the loop guard \<open>remainder and abs(remainder) > epsilon\<close> is \<open>remainder \<noteq> 0\<close>.\<close>

function gcf_loop :: "int \<Rightarrow> int \<Rightarrow> int" where
  "gcf_loop result remainder =
     (if remainder \<noteq> 0 then gcf_loop remainder (result mod remainder) else result)"
  by pat_completeness auto
termination
  by (relation "measure (\<lambda>(result, remainder). nat \<bar>remainder\<bar>)") (auto simp: abs_mod_less)

declare gcf_loop.simps [simp del]

definition gcf :: "int \<Rightarrow> int \<Rightarrow> int" where
  "gcf a b = \<bar>gcf_loop (max a b) (min a b)\<bar>"

definition lcm_int :: "int \<Rightarrow> int \<Rightarrow> int" where
  "lcm_int a b = (let denom = gcf a b in if denom = 0 then 0 else a * (b div denom))"

definition reduce_fraction :: "int \<times> int \<Rightarrow> (int \<times> int) res" where
  "reduce_fraction fraction =
     (let (numerator, denominator) = fraction;
          common_factor = \<bar>gcf numerator denominator\<bar>
      in if common_factor = 0 then Inl ZeroDivisionError
         else Inr (numerator div common_factor, denominator div common_factor))"

section \<open>Permutations\<close>

definition list_insert :: "nat \<Rightarrow> 'a \<Rightarrow> 'a list \<Rightarrow> 'a list" where
  "list_insert i x xs = take i xs @ x # drop i xs"

fun permutations :: "'a list \<Rightarrow> 'a list list" where
  "permutations input_list =
     (if length input_list > 1 then
        concat (map (\<lambda>sub_list. map (\<lambda>i. list_insert i (hd input_list) sub_list)
                       [0 ..< length input_list])
                 (permutations (tl input_list)))
      else [input_list])"

declare permutations.simps [simp del]

section \<open>Quantiles\<close>

text \<open>\<open>int(r)\<close> truncates towards zero.\<close>

definition py_int :: "rat \<Rightarrow> int" where
  "py_int r = (if r < 0 then \<lceil>r\<rceil> else \<lfloor>r\<rfloor>)"

definition quantile :: "rat list \<Rightarrow> rat \<Rightarrow> rat res" where
  "quantile l p =
     (let l_sort = sort l;
          n = int (length l);
          r = 1 + (of_int n - 1) * p;
          i = py_int r;
          f = r - of_int i
      in if i < n
         then res_bind (py_index l_sort (i - 1)) (\<lambda>a.
              res_bind (py_index l_sort i) (\<lambda>b. Inr ((1 - f) * a + f * b)))
         else py_index l_sort (i - 1))"

definition trim :: "rat list \<Rightarrow> rat list res" where
  "trim l =
     (let l_sort = sort l; index = int (length l_sort) div 2 in
      res_bind
        (if length l_sort mod 2 = 0
         then res_bind (py_index l_sort index) (\<lambda>a.
              res_bind (py_index l_sort (index - 1)) (\<lambda>b. Inr ((a + b) / 2)))
         else py_index l_sort index)
        (\<lambda>median.
           res_bind (quantile l_sort (1 / 4)) (\<lambda>q1.
           res_bind (quantile l_sort (3 / 4)) (\<lambda>q3.
             let iqr = q3 - q1; iqr_extra = iqr * (3 / 2)
             in Inr (filter (\<lambda>x. x \<ge> q1 - iqr_extra \<and> x \<le> q3 + iqr_extra) l_sort)))))"

section \<open>Sequences without duplicates, reversed dictionaries\<close>

text \<open>
  \<open>uniquify\<close>: the fast algorithm marks the items it has seen in a dictionary, the slow one
  (for items that cannot be hashed, where the dictionary raises \<open>TypeError\<close>) searches the
  result.  The order of \<open>d.keys()\<close> is up to the interpreter: \<open>key_order\<close> stands for it.
\<close>

fun uniquify_ordered :: "('a, int) dict \<Rightarrow> 'a list \<Rightarrow> 'a list" where
  "uniquify_ordered d [] = []"
| "uniquify_ordered d (x # seq) =
     (if \<not> has_key d x then x # uniquify_ordered (AList.update x 0 d) seq
      else uniquify_ordered d seq)"

fun uniquify_slow :: "'a list \<Rightarrow> 'a list \<Rightarrow> 'a list" where
  "uniquify_slow result [] = result"
| "uniquify_slow result (x # seq) =
     (if x \<notin> set result then uniquify_slow (result @ [x]) seq else uniquify_slow result seq)"

definition uniquify :: "('a list \<Rightarrow> 'a list) \<Rightarrow> bool \<Rightarrow> 'a list \<Rightarrow> bool \<Rightarrow> 'a list" where
  "uniquify key_order hashable seq preserve_order =
     (if hashable
      then if preserve_order then uniquify_ordered [] seq
           else key_order (map fst (foldl (\<lambda>d x. AList.update x (0::int) d) [] seq))
      else uniquify_slow [] seq)"

definition reverse_dict :: "('k, 'v) dict \<Rightarrow> ('v, 'k) dict" where
  "reverse_dict d = foldl (\<lambda>result (key, value). AList.update value key result) [] d"

section \<open>Bits\<close>

definition lsb :: "int \<Rightarrow> nat \<Rightarrow> int" where
  "lsb x n = x AND (2 ^ n - 1)"

definition gray_encode :: "int \<Rightarrow> int" where
  "gray_encode i = i XOR (drop_bit 1 i)"

text \<open>
  \<open>random_vec\<close>: the list \<open>rs\<close> holds the draws \<open>int((2**10) * random.random())\<close>, as many as
  the loop makes.
\<close>

definition random_vec :: "int list \<Rightarrow> nat \<Rightarrow> int option \<Rightarrow> string res" where
  "random_vec rs bits max_value =
     res_bind
       (res_fold (\<lambda>vector i. res_bind (int2bin i 10) (\<lambda>s. Inr (vector @ s)))
          (take (bits div 10 + 1) rs) [])
       (\<lambda>vector.
          res_bind
            (case max_value of
               None \<Rightarrow> Inr vector
             | Some m \<Rightarrow>
                 if m \<noteq> 0 \<and> m < 2 ^ bits - 1
                 then res_bind (bin2int vector)
                        (\<lambda>v. int2bin (v div (2 ^ bits - 1) * m) (int bits))
                 else Inr vector)
            (\<lambda>vector. Inr (py_slice vector 0 (int bits))))"

text \<open>
  \<open>binary_range\<close>: the inner loop adds one to the number in \<open>v\<close> (least significant digit
  first), \<open>toggle\<close> carrying; the outer loop stops when the carry leaves the number.
\<close>

function binary_carry :: "nat \<Rightarrow> nat \<Rightarrow> string \<Rightarrow> nat list \<Rightarrow> string \<times> nat list" where
  "binary_carry bits i v toggle =
     (if i < bits \<and> toggle ! i = 1
      then if v ! i = CHR ''0''
           then binary_carry bits (i + 1) (v[i := CHR ''1'']) (toggle[i + 1 := 0])
           else binary_carry bits (i + 1) (v[i := CHR ''0'']) (toggle[i + 1 := 1])
      else (v, toggle))"
  by pat_completeness auto
termination
  by (relation "measure (\<lambda>(bits, i, v, toggle). bits - i)") auto

declare binary_carry.simps [simp del]

definition binary_range :: "nat \<Rightarrow> string list option" where
  "binary_range bits =
     map_option (\<lambda>(l, v, toggle). l)
       (while_option (\<lambda>(l, v, toggle). toggle ! bits \<noteq> 1)
          (\<lambda>(l, v, toggle). (l @ [rev v], binary_carry bits 0 v (1 # replicate bits 0)))
          ([], replicate bits (CHR ''0''), 1 # replicate bits 0))"

definition float_range :: "rat \<Rightarrow> rat option \<Rightarrow> rat option \<Rightarrow> rat list option" where
  "float_range start stop step =
     (let (start, stop) = (case stop of None \<Rightarrow> (0, start) | Some e \<Rightarrow> (start, e));
          step = (case step of None \<Rightarrow> 1 | Some s \<Rightarrow> s)
      in map_option snd
           (while_option (\<lambda>(cur, l). cur < stop) (\<lambda>(cur, l). (cur + step, l @ [cur])) (start, [])))"

section \<open>Common prefixes and suffixes, rotations\<close>

function prefix_loop :: "'a list \<Rightarrow> 'a list \<Rightarrow> nat \<Rightarrow> 'a list \<Rightarrow> 'a list" where
  "prefix_loop s1 s2 i acc =
     (if i < min (length s1) (length s2) \<and> s1 ! i = s2 ! i
      then prefix_loop s1 s2 (i + 1) (acc @ [s1 ! i]) else acc)"
  by pat_completeness auto
termination
  by (relation "measure (\<lambda>(s1, s2, i, acc). length s1 - i)") auto

function suffix_loop :: "'a list \<Rightarrow> 'a list \<Rightarrow> nat \<Rightarrow> 'a list \<Rightarrow> 'a list" where
  "suffix_loop s1 s2 i acc =
     (if i < min (length s1) (length s2) + 1 \<and> s1 ! (length s1 - i) = s2 ! (length s2 - i)
      then suffix_loop s1 s2 (i + 1) (acc @ [s1 ! (length s1 - i)]) else acc)"
  by pat_completeness auto
termination
  by (relation "measure (\<lambda>(s1, s2, i, acc). length s1 + 1 - i)") auto

declare prefix_loop.simps [simp del] suffix_loop.simps [simp del]

definition find_common_fixes :: "string \<Rightarrow> string \<Rightarrow> string \<times> string" where
  "find_common_fixes s1 s2 = (prefix_loop s1 s2 0 [], rev (suffix_loop s1 s2 1 []))"

definition is_rotated :: "'a list \<Rightarrow> 'a list \<Rightarrow> bool res" where
  "is_rotated seq1 seq2 =
     (if length seq1 \<noteq> length seq2 then Inr False
      else
        res_bind (py_index seq2 0) (\<lambda>head_item.
          let start_indexes = filter (\<lambda>index1. seq1 ! index1 = head_item) [0 ..< length seq1];
              double_seq1 = seq1 @ seq1
          in Inr (list_ex (\<lambda>index1.
                    py_slice double_seq1 (int index1) (int (index1 + length seq1)) = seq2)
                  start_indexes)))"

section \<open>Rounding to a grid\<close>

text \<open>
  \<open>round_grid\<close> on integers.  \<open>add_one\<close> is only assigned in three branches; reading it
  otherwise raises \<open>UnboundLocalError\<close>.
\<close>

definition round_grid :: "int \<Rightarrow> int \<Rightarrow> int \<Rightarrow> int res" where
  "round_grid value grid mode =
     (if grid = 0 then Inl ZeroDivisionError
      else
        let off_grid = value mod grid;
            add_one = (if mode = 0 then Some (if 2 * off_grid \<ge> grid then 1 else 0)
                       else if mode = 1 \<and> off_grid \<noteq> 0 then Some 1
                       else if mode = -1 \<and> off_grid \<noteq> 0 then Some 0
                       else None)
        in case add_one of
             None \<Rightarrow> Inl UnboundLocalError
           | Some a \<Rightarrow> Inr ((value div grid + a) * grid))"

section \<open>Command line arguments\<close>

datatype arg_value = ArgNone | ArgStr string | ArgList "string list"

definition get_args_step ::
    "(string, arg_value) dict \<times> string list \<Rightarrow> string \<Rightarrow> (string, arg_value) dict \<times> string list" where
  "get_args_step st arg =
     (let (d, args) = st in
      if prefix ''-'' arg
      then let parts = py_split (CHR ''='') (dropWhile (\<lambda>c. c = CHR ''-'') arg)
           in if length parts = 2
              then (AList.update (parts ! 0) (ArgStr (parts ! 1)) d, args)
              else (AList.update (parts ! 0) ArgNone d, args)
      else (d, args @ [arg]))"

definition get_args :: "string list \<Rightarrow> (string, arg_value) dict" where
  "get_args argv =
     (let (d, args) = foldl get_args_step ([], []) argv
      in AList.update ''args'' (ArgList args) d)"

section \<open>Euclid and permutations: correctness\<close>

lemma abs_gcf_loop: "\<bar>gcf_loop a b\<bar> = gcd a b"
proof (induction a b rule: gcf_loop.induct)
  case (1 result remainder)
  show ?case
  proof (cases "remainder = 0")
    case True
    then show ?thesis by (simp add: gcf_loop.simps)
  next
    case False
    with 1 have "\<bar>gcf_loop result remainder\<bar> = gcd remainder (result mod remainder)"
      by (subst gcf_loop.simps) simp
    then show ?thesis by (metis gcd_red_int)
  qed
qed

lemma gcf_eq_gcd: "gcf a b = gcd a b"
  unfolding gcf_def abs_gcf_loop by (simp add: max_def min_def gcd.commute)

lemma lcm_int_abs: "\<bar>lcm_int a b\<bar> = lcm a b"
proof (cases "gcd a b = 0")
  case True
  then show ?thesis by (simp add: lcm_int_def gcf_eq_gcd)
next
  case False
  have "a * (b div gcd a b) = a * b div gcd a b"
    by (simp add: div_mult_swap)
  then show ?thesis
    using False by (simp add: lcm_int_def gcf_eq_gcd lcm_altdef_int abs_div abs_mult)
qed

text \<open>
  \<open>reduce_fraction\<close> returns the fraction in lowest terms with the same value.
\<close>
theorem reduce_fraction_correct:
  assumes "(a, b) \<noteq> (0, 0)"
  shows "\<exists>p q. reduce_fraction (a, b) = Inr (p, q) \<and> coprime p q \<and> p * b = a * q
    \<and> a = p * gcd a b \<and> b = q * gcd a b"
proof -
  have g: "gcd a b \<noteq> 0" using assms by auto
  have a: "a div gcd a b * gcd a b = a" and b: "b div gcd a b * gcd a b = b" by simp_all
  have "reduce_fraction (a, b) = Inr (a div gcd a b, b div gcd a b)"
    using g by (simp add: reduce_fraction_def gcf_eq_gcd Let_def)
  moreover have "coprime (a div gcd a b) (b div gcd a b)"
    using assms by (intro div_gcd_coprime) auto
  moreover have "a div gcd a b * b = a * (b div gcd a b)"
    by (simp add: div_mult_swap dvd_div_mult)
  ultimately show ?thesis using a b by metis
qed

theorem reduce_fraction_correct_witness: "\<exists>p q. reduce_fraction (5, 10) = Inr (p, q) \<and> coprime p q"
  using reduce_fraction_correct [of 5 10] by auto

lemma mset_list_insert [simp]: "i \<le> length xs \<Longrightarrow> mset (list_insert i x xs) = add_mset x (mset xs)"
  unfolding list_insert_def by (metis append_take_drop_id mset.simps(2) mset_append union_mset_add_mset_right)

lemma permutations_Nil [simp]: "permutations [] = [[]]"
  by (simp add: permutations.simps)

lemma permutations_Cons:
  "permutations (x # xs) =
     concat (map (\<lambda>p. map (\<lambda>i. list_insert i x p) [0 ..< Suc (length xs)]) (permutations xs))"
proof (cases "xs = []")
  case True
  then show ?thesis
    by (simp add: permutations.simps [of "[x]"] list_insert_def)
next
  case False
  then show ?thesis
    by (subst permutations.simps) (simp del: upt_Suc)
qed

lemma mset_permutations: "p \<in> set (permutations xs) \<Longrightarrow> mset p = mset xs"
proof (induction xs arbitrary: p)
  case (Cons x xs)
  then obtain q i where "q \<in> set (permutations xs)" "i < Suc (length xs)" "p = list_insert i x q"
    by (auto simp: permutations_Cons simp del: upt_Suc)
  moreover from this Cons.IH have "mset q = mset xs" by blast
  moreover from this have "length q = length xs" by (metis size_mset)
  ultimately show ?case by simp
qed simp

lemma permutations_complete: "mset p = mset xs \<Longrightarrow> p \<in> set (permutations xs)"
proof (induction xs arbitrary: p)
  case (Cons x xs)
  then have "x \<in> set p" by (metis list.set_intros(1) set_mset_mset)
  then obtain us vs where p: "p = us @ x # vs" by (auto simp: in_set_conv_decomp)
  with Cons.prems have m: "mset (us @ vs) = mset xs" by simp
  then have "us @ vs \<in> set (permutations xs)" by (rule Cons.IH)
  moreover have "p = list_insert (length us) x (us @ vs)" by (simp add: p list_insert_def)
  moreover have "length us < Suc (length xs)" using m by (metis le_add1 length_append less_Suc_eq_le size_mset)
  ultimately show ?case by (force simp: permutations_Cons simp del: upt_Suc)
qed simp

text \<open>
  \<open>permutations\<close> returns every ordering of its input and nothing else, with as many entries as
  there are orderings when the items are distinct, the factorial of the length.
\<close>
theorem permutations_correct:
  "set (permutations xs) = {p. mset p = mset xs} \<and> length (permutations xs) = fact (length xs)"
proof
  show "set (permutations xs) = {p. mset p = mset xs}"
    using mset_permutations permutations_complete by blast
  show "length (permutations xs) = fact (length xs)"
    by (induction xs) (simp_all add: permutations_Cons length_concat comp_def sum_list_triv del: upt_Suc)
qed

section \<open>Rotations, common fixes, duplicates: correctness\<close>
lemma double_slice:
  assumes "i \<le> length xs" and "length xs = n"
  shows "py_slice (xs @ xs) (int i) (int i + int n) = drop i xs @ take i xs"
  using assms py_slice_nat [of "xs @ xs" i "i + n"] by simp

lemma rotate_mod_cases:
  "(\<exists>n. ys = rotate n xs) \<longleftrightarrow> (\<exists>i<length xs. ys = drop i xs @ take i xs) \<or> xs = [] \<and> ys = []"
proof (cases "xs = []")
  case False
  have "\<exists>i<length xs. ys = drop i xs @ take i xs" if "ys = rotate n xs" for n
  proof (intro exI conjI)
    show "n mod length xs < length xs" using False by simp
    show "ys = drop (n mod length xs) xs @ take (n mod length xs) xs"
      using that by (simp add: rotate_drop_take)
  qed
  moreover have "\<exists>n. ys = rotate n xs" if "i < length xs" "ys = drop i xs @ take i xs" for i
    using that by (intro exI [of _ i]) (simp add: rotate_drop_take)
  ultimately show ?thesis using False by blast
qed simp

theorem is_rotated_correct:
  assumes "ys \<noteq> []"
  shows "is_rotated xs ys = Inr (\<exists>n. ys = rotate n xs)"
proof (cases "length xs = length ys")
  case False
  then have "\<not> (\<exists>n. ys = rotate n xs)" by auto
  with False show ?thesis by (simp add: is_rotated_def)
next
  case True
  with assms have ne: "xs \<noteq> []" by auto
  have "is_rotated xs ys =
      Inr (\<exists>i. i < length xs \<and> xs ! i = ys ! 0 \<and> drop i xs @ take i xs = ys)"
    using True assms
    by (auto simp: is_rotated_def py_index_def list_ex_iff double_slice del: iffI intro!: arg_cong [where f = Inr])
  also have "(\<exists>i. i < length xs \<and> xs ! i = ys ! 0 \<and> drop i xs @ take i xs = ys)
      \<longleftrightarrow> (\<exists>i<length xs. ys = drop i xs @ take i xs)"
    by (auto simp: nth_append)
  finally show ?thesis using rotate_mod_cases [of ys xs] ne by simp
qed

lemma is_rotated_empty: "is_rotated [] [] = Inl IndexError"
  by (simp add: is_rotated_def py_index_def)


lemma prefix_loop_eq:
  "i \<le> length s1 \<Longrightarrow> i \<le> length s2 \<Longrightarrow>
     prefix_loop s1 s2 i acc = acc @ longest_common_prefix (drop i s1) (drop i s2)"
proof (induction s1 s2 i acc rule: prefix_loop.induct)
  case (1 s1 s2 i acc)
  show ?case
  proof (cases "i < length s1 \<and> i < length s2")
    case True
    then have d: "drop i s1 = s1 ! i # drop (Suc i) s1" "drop i s2 = s2 ! i # drop (Suc i) s2"
      by (simp_all add: Cons_nth_drop_Suc)
    with True 1 show ?thesis
      by (subst prefix_loop.simps) (simp add: d)
  next
    case False
    with "1.prems" have "drop i s1 = [] \<or> drop i s2 = []" by auto
    with False show ?thesis
      by (subst prefix_loop.simps) (cases "drop i s1"; auto)
  qed
qed

lemma suffix_loop_prefix_loop:
  "suffix_loop s1 s2 (Suc j) acc = prefix_loop (rev s1) (rev s2) j acc"
proof (induction "rev s1" "rev s2" j acc rule: prefix_loop.induct)
  case (1 i acc)
  show ?case
  proof (cases "i < min (length s1) (length s2)")
    case True
    then have r: "rev s1 ! i = s1 ! (length s1 - Suc i)" "rev s2 ! i = s2 ! (length s2 - Suc i)"
      by (simp_all add: rev_nth)
    show ?thesis
      using True 1 by (subst suffix_loop.simps, subst prefix_loop.simps) (simp add: r)
  next
    case False
    then show ?thesis by (subst suffix_loop.simps, subst prefix_loop.simps) auto
  qed
qed

text \<open>
  The two scanning loops of \<open>find_common_fixes\<close> compute the longest common prefix and the
  longest common suffix.
\<close>
theorem find_common_fixes_correct:
  "find_common_fixes s1 s2 =
     (longest_common_prefix s1 s2, rev (longest_common_prefix (rev s1) (rev s2)))"
  by (simp add: find_common_fixes_def prefix_loop_eq suffix_loop_prefix_loop)

text \<open>uniquify\<close>

lemma remdups_snoc: "remdups (ys @ [x]) = filter (\<lambda>y. y \<noteq> x) (remdups ys) @ [x]"
  by (induction ys) auto

lemma uniquify_ordered_eq:
  "uniquify_ordered d seq = filter (\<lambda>x. \<not> has_key d x) (rev (remdups (rev seq)))"
proof (induction d seq rule: uniquify_ordered.induct)
  case (2 d x seq)
  then show ?case
    by (auto simp: remdups_snoc rev_filter conj_commute intro!: filter_cong)
qed simp

lemma uniquify_slow_eq:
  "uniquify_slow result seq = result @ filter (\<lambda>x. x \<notin> set result) (rev (remdups (rev seq)))"
proof (induction result seq rule: uniquify_slow.induct)
  case (2 result x seq)
  then show ?case
    by (auto simp: remdups_snoc rev_filter conj_commute intro!: filter_cong)
qed simp

lemma keys_update_fold:
  "set (map fst (foldl (\<lambda>d x. AList.update x v d) d seq)) = set (map fst d) \<union> set seq"
  by (induction seq arbitrary: d) (auto simp: dom_update)

lemma dict_wf_update_fold: "dict_wf d \<Longrightarrow> dict_wf (foldl (\<lambda>d x. AList.update x v d) d seq)"
  by (induction seq arbitrary: d) auto

text \<open>
  \<open>uniquify\<close> removes duplicates on each of its three paths; with \<open>preserve_order\<close> it keeps
  first occurrences in order, and the slow path for unhashable items gives the same list.
\<close>
theorem uniquify_correct:
  assumes "\<And>xs. mset (key_order xs) = mset xs"
  shows "distinct (uniquify key_order hashable seq preserve_order)
    \<and> set (uniquify key_order hashable seq preserve_order) = set seq
    \<and> uniquify key_order True seq True = rev (remdups (rev seq))
    \<and> uniquify key_order False seq preserve_order = uniquify key_order True seq True"
proof -
  have s: "set (key_order xs) = set xs" for xs
    by (metis assms set_mset_mset)
  have d: "distinct (key_order xs) = distinct xs" for xs
    by (metis assms mset_eq_imp_distinct_iff)
  show ?thesis
    using dict_wf_update_fold [of "[]" 0 seq] keys_update_fold [of 0 "[]" seq]
    by (auto simp: uniquify_def uniquify_ordered_eq uniquify_slow_eq has_key_def s d dict_wf_def)
qed

theorem uniquify_correct_witness:
  "distinct (uniquify rev True [3, 1, 3, 2, 1 :: int] False)
   \<and> uniquify rev True [3, 1, 3, 2, 1 :: int] True = [3, 1, 2]"
proof
  show "distinct (uniquify rev True [3, 1, 3, 2, 1 :: int] False)"
    using uniquify_correct [of rev True "[3, 1, 3, 2, 1 :: int]" False] by simp
  show "uniquify rev True [3, 1, 3, 2, 1 :: int] True = [3, 1, 2]" by code_simp
qed

lemma reverse_dict_lookup:
  "map_of (foldl (\<lambda>r (k, v). AList.update v k r) r d) x =
     (case map_of (rev (map (\<lambda>(k, v). (v, k)) d)) x of None \<Rightarrow> map_of r x | Some k \<Rightarrow> Some k)"
  by (induction d arbitrary: r) (auto simp: map_of_append map_add_def split: option.splits)

theorem reverse_dict_inverse:
  assumes "dict_wf d" and "inj_on snd (set d)"
  shows "map_of (reverse_dict d) v = Some k \<longleftrightarrow> map_of d k = Some v"
proof -
  let ?s = "map (\<lambda>(k, v). (v, k)) d"
  have m: "map fst (rev ?s) = rev (map snd d)" by (simp add: rev_map comp_def case_prod_beta)
  have dd: "distinct d" using assms(1) by (simp add: dict_wf_def distinct_map)
  then have "distinct (map fst (rev ?s))"
    using assms(2) by (simp only: m distinct_rev distinct_map)
  then have "map_of (rev ?s) v = Some k \<longleftrightarrow> (v, k) \<in> set (rev ?s)"
    by (rule map_of_eq_Some_iff)
  also have "\<dots> \<longleftrightarrow> (k, v) \<in> set d" by force
  also have "\<dots> \<longleftrightarrow> map_of d k = Some v"
    using assms(1) by (simp add: dict_wf_def map_of_eq_Some_iff)
  finally show ?thesis
    by (auto simp: reverse_dict_def reverse_dict_lookup split: option.splits)
qed

section \<open>Bits, grids and arguments: correctness\<close>

lemma lsb_eq_mod: "lsb x n = x mod 2 ^ n"
  by (simp add: lsb_def flip: take_bit_eq_mod mask_eq_exp_minus_1 take_bit_eq_mask)

lemma gray_encode_bit: "bit (gray_encode i) n \<longleftrightarrow> bit i n \<noteq> bit i (Suc n)"
  by (simp add: gray_encode_def bit_xor_iff bit_drop_bit_eq)

lemma gray_parity: "even (gray_encode i) \<longleftrightarrow> (even i \<longleftrightarrow> even (i div 2))"
  using gray_encode_bit [of i 0] by (auto simp: bit_0 bit_Suc)

lemma gray_double: "gray_encode i div 2 = gray_encode (i div 2)"
  by (rule bit_eqI) (simp flip: bit_Suc add: gray_encode_bit) 

lemma xor_div_2: "(a XOR b) div 2 = (a div 2) XOR (b div 2)" for a b :: int
  by (rule bit_eqI) (simp add: bit_xor_iff flip: bit_Suc)

text \<open>
  Consecutive codes of \<open>gray_encode\<close> differ in exactly one bit.
\<close>
theorem gray_encode_adjacent:
  assumes "0 \<le> i"
  shows "\<exists>k. gray_encode (i + 1) XOR gray_encode i = 2 ^ k"
  using assms
proof (induction "nat i" arbitrary: i rule: less_induct)
  case less
  let ?x = "gray_encode (i + 1) XOR gray_encode i"
  have d: "?x div 2 = gray_encode ((i + 1) div 2) XOR gray_encode (i div 2)"
    by (simp add: xor_div_2 gray_double)
  show ?case
  proof (cases "even i")
    case True
    then have e: "(i + 1) div 2 = i div 2" by presburger
    have "odd ?x" using True e by (simp add: even_xor_iff gray_parity)
    moreover have "?x div 2 = 0" by (simp add: d e)
    ultimately have "?x = 2 ^ 0"
      using odd_two_times_div_two_succ [of ?x] by simp
    then show ?thesis by blast
  next
    case False
    then have e: "(i + 1) div 2 = i div 2 + 1" by presburger
    have "0 < i" using False less.prems by (cases "i = 0") auto
    then have m: "nat (i div 2) < nat i" "0 \<le> i div 2" by linarith+
    then obtain k where k: "gray_encode (i div 2 + 1) XOR gray_encode (i div 2) = 2 ^ k"
      using less.hyps by blast
    have "even ?x" using False e by (auto simp: even_xor_iff gray_parity)
    moreover have "?x div 2 = 2 ^ k" by (simp add: d e k)
    ultimately have "?x = 2 ^ Suc k" by (metis dvd_mult_div_cancel power_Suc)
    then show ?thesis by blast
  qed
qed

theorem gray_encode_adjacent_witness: "\<exists>k. gray_encode 4 XOR gray_encode 3 = 2 ^ k"
  using gray_encode_adjacent [of 3] by simp

theorem round_grid_nearest:
  assumes "0 < grid"
  shows "\<exists>r. round_grid value grid 0 = Inr r \<and> grid dvd r \<and> 2 * \<bar>r - value\<bar> \<le> grid"
proof -
  have e: "value = value div grid * grid + value mod grid" by simp
  have b: "0 \<le> value mod grid" "value mod grid < grid" using assms by simp_all
  show ?thesis
  proof (cases "2 * (value mod grid) \<ge> grid")
    case True
    have "(value div grid + 1) * grid - value = grid - value mod grid"
      using e by (simp add: algebra_simps)
    moreover have "2 * \<bar>grid - value mod grid\<bar> \<le> grid" using True b by (simp add: abs_if)
    ultimately show ?thesis
      using True assms by (auto simp: round_grid_def Let_def)
  next
    case False
    have "value div grid * grid - value = - (value mod grid)"
      using e by linarith
    with False b assms show ?thesis
      by (auto simp: round_grid_def Let_def)
  qed
qed

text \<open>
  \<open>round_grid\<close> with mode 1 rounds up and with mode -1 rounds down, except that a value that is
  already on the grid leaves the result unassigned and raises \<open>UnboundLocalError\<close>.
\<close>
theorem round_grid_directed:
  assumes "0 < grid"
  shows "round_grid value grid 1 =
      (if grid dvd value then Inl UnboundLocalError else Inr ((value div grid + 1) * grid))
    \<and> round_grid value grid (-1) =
      (if grid dvd value then Inl UnboundLocalError else Inr (value div grid * grid))"
  using assms by (auto simp: round_grid_def Let_def dvd_eq_mod_eq_0)

theorem round_grid_directed_witness:
  "round_grid 7 5 1 = Inr 10 \<and> round_grid 7 5 (-1) = Inr 5 \<and> round_grid 10 5 1 = Inl UnboundLocalError"
  using round_grid_directed [of 5 7] round_grid_directed [of 5 10] by simp

lemma get_args_fold_args:
  "snd (foldl get_args_step (d, args) argv) = args @ filter (\<lambda>a. \<not> prefix ''-'' a) argv"
  by (induction argv arbitrary: d args) (auto simp: get_args_step_def Let_def)

theorem get_args_positional:
  "map_of (get_args argv) ''args'' = Some (ArgList (filter (\<lambda>a. \<not> prefix ''-'' a) argv))"
  using get_args_fold_args [of "[]" "[]" argv]
  by (auto simp: get_args_def split: prod.splits)

lemma get_args_step_other:
  assumes "py_split (CHR ''='') (dropWhile (\<lambda>c. c = CHR ''-'') arg) ! 0 \<noteq> key \<or> \<not> prefix ''-'' arg"
  shows "map_of (fst (get_args_step st arg)) key = map_of (fst st) key"
  using assms by (auto simp: get_args_step_def Let_def split: prod.splits)

section \<open>Binary numerals: correctness\<close>

text \<open>The reference: the \<open>n\<close> low digits of a number, most significant first.\<close>

fun bin_str :: "nat \<Rightarrow> int \<Rightarrow> string" where
  "bin_str 0 i = []"
| "bin_str (Suc n) i = bin_str n (i div 2) @ [if odd i then CHR ''1'' else CHR ''0'']"

lemma length_bin_str [simp]: "length (bin_str n i) = n"
  by (induction n arbitrary: i) auto

lemma set_bin_str: "set (bin_str n i) \<subseteq> set ''01''"
  by (induction n arbitrary: i) auto

lemma bits_val_snoc: "bits_val (s @ [c]) = 2 * bits_val s + (if c = CHR ''1'' then 1 else 0)"
  by (simp add: bits_val_def)

lemma bits_val_Nil [simp]: "bits_val [] = 0"
  by (simp add: bits_val_def)

lemma bits_val_append: "bits_val (s @ t) = bits_val s * 2 ^ length t + bits_val t"
proof (induction t rule: rev_induct)
  case (snoc c t)
  have "bits_val (s @ t @ [c]) = 2 * bits_val (s @ t) + (if c = CHR ''1'' then 1 else 0)"
    using bits_val_snoc [of "s @ t" c] by simp
  with snoc show ?case by (simp add: bits_val_snoc algebra_simps)
qed simp

lemma bits_val_bin_str: "bits_val (bin_str n i) = i mod 2 ^ n"
proof (induction n arbitrary: i)
  case (Suc n)
  have "i mod 2 ^ Suc n = 2 * (i div 2 mod 2 ^ n) + i mod 2"
    by (simp add: zmod_zmult2_eq mult.commute)
  with Suc show ?case by (auto simp: bits_val_snoc odd_iff_mod_2_eq_one even_iff_mod_2_eq_zero)
qed simp

lemma bits_val_bounds: "0 \<le> bits_val s \<and> bits_val s < 2 ^ length s"
  by (induction s rule: rev_induct) (auto simp: bits_val_snoc)

lemma bin_str_bits_val: "set s \<subseteq> set ''01'' \<Longrightarrow> bin_str (length s) (bits_val s) = s"
  by (induction s rule: rev_induct) (auto simp: bits_val_snoc)

lemma one_in_iff: "set s \<subseteq> set ''01'' \<Longrightarrow> CHR ''1'' \<in> set s \<longleftrightarrow> bits_val s \<noteq> 0"
proof (induction s rule: rev_induct)
  case (snoc c s)
  with bits_val_bounds [of s] show ?case by (auto simp: bits_val_snoc)
qed simp

lemma nat_less_16_cases:
  assumes "d < (16::nat)"
  shows "d = 0 \<or> d = 1 \<or> d = 2 \<or> d = 3 \<or> d = 4 \<or> d = 5 \<or> d = 6 \<or> d = 7 \<or> d = 8 \<or> d = 9
    \<or> d = 10 \<or> d = 11 \<or> d = 12 \<or> d = 13 \<or> d = 14 \<or> d = 15"
  using assms by arith

lemma hex2bin_digit:
  assumes "d < 16"
  shows "dict_get hex2bin_table (''0123456789abcdef'' ! d) = Inr (bin_str 4 (int d))"
  using nat_less_16_cases [OF assms]
  by (elim disjE; simp add: dict_get_def hex2bin_table_def numeral_eq_Suc)

lemma hex_digits_to_bits:
  "\<exists>ds. res_map (dict_get hex2bin_table) (hex_digits n) = Inr ds \<and> set (concat ds) \<subseteq> set ''01''
     \<and> bits_val (concat ds) = int n"
proof (induction n rule: hex_digits.induct)
  case (1 n)
  show ?case
  proof (cases "n < 16")
    case True
    then show ?thesis
      using set_bin_str [of 4 "int n"]
      by (subst hex_digits.simps) (simp add: hex2bin_digit bits_val_bin_str)
  next
    case False
    with 1 obtain ds where ds: "res_map (dict_get hex2bin_table) (hex_digits (n div 16)) = Inr ds"
      "set (concat ds) \<subseteq> set ''01''" "bits_val (concat ds) = int (n div 16)" by auto
    have a: "res_map f (xs @ [y]) = res_bind (res_map f xs) (\<lambda>ys. res_bind (f y) (\<lambda>z. Inr (ys @ [z])))"
      for f :: "char \<Rightarrow> string res" and xs y
      by (induction xs) (simp_all add: res_bind_assoc)
    show ?thesis
      using False ds set_bin_str [of 4 "int (n mod 16)"]
      by (subst hex_digits.simps) (simp add: a hex2bin_digit bits_val_append bits_val_bin_str zdiv_int zmod_int)
  qed
qed

theorem int2bin_correct:
  assumes "0 \<le> i" and "0 < n"
  shows "int2bin i (int n) =
    (if i < 2 ^ n then Inr (bin_str n i)
     else Inl (ValueError ''Value too large for given number of bits.''))"
proof -
  obtain ds where ds: "res_map (dict_get hex2bin_table) (hex_digits (nat i)) = Inr ds"
    "set (concat ds) \<subseteq> set ''01''" "bits_val (concat ds) = i"
    using hex_digits_to_bits [of "nat i"] assms by auto
  let ?r = "concat ds"
  let ?k = "length ?r - n"
  have h: "py_slice (py_hex i) 2 (int (length (py_hex i))) = hex_digits (nat i)"
    using assms py_slice_nat [of "py_hex i" 2 "length (py_hex i)"] by (simp add: py_hex_def)
  have lo: "py_slice ?r 0 (- int n) = take ?k ?r" and hi: "py_slice ?r (- int n) (int (length ?r)) = drop ?k ?r"
    using assms by (auto simp: py_slice_def slice_bound_def Let_def max_def nat_diff_distrib)
  have sub: "set (take ?k ?r) \<subseteq> set ''01''" "set (drop ?k ?r) \<subseteq> set ''01''"
    using ds(2) by (meson order_trans set_take_subset set_drop_subset)+
  have v: "i = bits_val (take ?k ?r) * 2 ^ length (drop ?k ?r) + bits_val (drop ?k ?r)"
    using ds(3) bits_val_append [of "take ?k ?r" "drop ?k ?r"] by simp
  have one: "CHR ''1'' \<in> set (take ?k ?r) \<longleftrightarrow> \<not> i < 2 ^ n"
  proof (cases "length ?r \<le> n")
    case True
    then have "i < 2 ^ n"
      using bits_val_bounds [of ?r] ds(3) power_increasing [OF True, of "2::int"] by linarith
    with True show ?thesis by simp
  next
    case False
    then have l: "length (drop ?k ?r) = n" by simp
    have b: "0 \<le> bits_val (take ?k ?r)" "bits_val (drop ?k ?r) < 2 ^ n" "0 \<le> bits_val (drop ?k ?r)"
      using bits_val_bounds [of "take ?k ?r"] bits_val_bounds [of "drop ?k ?r"] l by simp_all
    have "bits_val (take ?k ?r) = i div 2 ^ n"
      using v [unfolded l] b(2,3) by simp
    then show ?thesis
      unfolding one_in_iff [OF sub(1)] using assms(1) by (simp add: zdiv_eq_0_iff)
  qed
  have pad: "replicate (nat (int n - int (length (drop ?k ?r)))) (CHR ''0'') @ drop ?k ?r = bin_str n i"
    if small: "i < 2 ^ n"
  proof -
    let ?s = "replicate (nat (int n - int (length (drop ?k ?r)))) (CHR ''0'') @ drop ?k ?r"
    have z: "bits_val (replicate m (CHR ''0'')) = 0" for m
      by (induction m) (simp_all add: bits_val_snoc flip: replicate_append_same)
    have "bits_val (take ?k ?r) = 0" using one small one_in_iff [OF sub(1)] by simp
    then have "bits_val ?s = i" using v by (simp add: bits_val_append z)
    moreover have "length ?s = n" by auto
    moreover have "set ?s \<subseteq> set ''01''" using sub(2) by auto
    ultimately show ?thesis using bin_str_bits_val [of ?s] by simp
  qed
  show ?thesis
    using one pad by (simp add: int2bin_def h ds(1) lo hi Let_def)
qed

lemma bin_str_strip: "0 < n \<Longrightarrow> py_strip (bin_str n i) = bin_str n i"
proof -
  assume n: "0 < n"
  have *: "dropWhile is_space s = s" if "set s \<subseteq> set ''01''" for s
    using that by (cases s) (auto simp: is_space_def)
  show ?thesis
    using set_bin_str [of n i] by (simp add: py_strip_def *)
qed

text \<open>
  \<open>bin2int\<close> reads back the binary string that \<open>int2bin\<close> writes, for every number that fits the
  given number of bits.
\<close>
theorem bin2int_int2bin:
  assumes "0 \<le> i" and "i < 2 ^ n" and "0 < n"
  shows "res_bind (int2bin i (int n)) bin2int = Inr i"
proof -
  let ?s = "bin_str n i"
  have ne: "?s \<noteq> []" using assms(3) length_bin_str [of n i] by (metis length_0_conv less_irrefl)
  then obtain c t where ct: "?s = c # t" by (cases ?s) auto
  have c: "c = CHR ''0'' \<or> c = CHR ''1''" "set t \<subseteq> set ''01''"
    using set_bin_str [of n i] ct by auto
  have p: "\<not> prefix ''0b'' ?s" "\<not> prefix ''0B'' ?s"
    using c(2) ct by (cases t; auto)+
  have h: "hd ?s \<noteq> CHR ''-''" "hd ?s \<noteq> CHR ''+''" using ct c(1) by auto
  have "bin2int ?s = Inr (bits_val ?s)"
    unfolding bin2int_def bin_str_strip [OF assms(3)] Let_def
    using h p ne set_bin_str [of n i] by simp
  then show ?thesis
    using assms by (simp add: int2bin_correct bits_val_bin_str)
qed

theorem bin2int_int2bin_witness:
  "int2bin 10 6 = Inr ''001010'' \<and> res_bind (int2bin 10 6) bin2int = Inr 10"
  using bin2int_int2bin [of 10 6] by code_simp

section \<open>Loops over numbers, matrices, quantiles: correctness\<close>

lemma while_option_iterate:
  assumes "\<And>j. j < k \<Longrightarrow> b (s j) \<and> c (s j) = s (Suc j)" and "\<not> b (s k)"
  shows "while_option b c (s 0) = Some (s k)"
  using assms
proof (induction k arbitrary: s)
  case 0
  then show ?case by (simp add: while_option_unfold)
next
  case (Suc k)
  have "while_option b c (s (Suc 0)) = Some (s (Suc k))"
    by (rule Suc.IH [of "\<lambda>j. s (Suc j)"]) (use Suc.prems in auto)
  then show ?case
    using Suc.prems(1) [of 0] by (subst while_option_unfold) simp
qed

fun incr_bits :: "string \<Rightarrow> string" where
  "incr_bits [] = []"
| "incr_bits (c # r) = (if c = CHR ''0'' then CHR ''1'' # r else CHR ''0'' # incr_bits r)"

lemma binary_carry_incr:
  assumes "length v = bits" and "length toggle = Suc bits" and "i \<le> bits" and "toggle ! i = 1"
    and "\<And>j. i < j \<Longrightarrow> j \<le> bits \<Longrightarrow> toggle ! j = 0"
  shows "fst (binary_carry bits i v toggle) = take i v @ incr_bits (drop i v)
    \<and> (snd (binary_carry bits i v toggle) ! bits = 1 \<longleftrightarrow> CHR ''0'' \<notin> set (drop i v))"
  using assms
proof (induction bits i v toggle rule: binary_carry.induct)
  case (1 bits i v toggle)
  show ?case
  proof (cases "i < bits")
    case False
    with "1.prems" show ?thesis by (simp add: binary_carry.simps)
  next
    case True
    have d: "drop i v = v ! i # drop (Suc i) v"
      using True "1.prems"(1) by (simp add: Cons_nth_drop_Suc)
    have t: "take (Suc i) (v[i := c]) @ xs = take i v @ c # xs" for c xs
      using True "1.prems"(1) by (simp add: take_Suc_conv_app_nth)
    show ?thesis
    proof (cases "v ! i = CHR ''0''")
      case v0: True
      have "binary_carry bits i v toggle = (v[i := CHR ''1''], toggle[Suc i := 0])"
        using True v0 "1.prems"
        by (subst binary_carry.simps, simp, subst binary_carry.simps) simp
      moreover have "toggle[Suc i := 0] ! bits = 0"
        using True "1.prems" by (cases "Suc i = bits") auto
      moreover have "v[i := CHR ''1''] = take i v @ CHR ''1'' # drop (Suc i) v"
        using True "1.prems"(1) by (simp add: upd_conv_take_nth_drop)
      ultimately show ?thesis by (simp add: d v0)
    next
      case v1: False
      have e: "binary_carry bits i v toggle =
          binary_carry bits (i + 1) (v[i := CHR ''0'']) (toggle[i + 1 := 1])"
        using True v1 "1.prems" by (subst binary_carry.simps) simp
      have "fst (binary_carry bits (i + 1) (v[i := CHR ''0'']) (toggle[i + 1 := 1]))
          = take (i + 1) (v[i := CHR ''0'']) @ incr_bits (drop (i + 1) (v[i := CHR ''0'']))
        \<and> (snd (binary_carry bits (i + 1) (v[i := CHR ''0'']) (toggle[i + 1 := 1])) ! bits = 1
            \<longleftrightarrow> CHR ''0'' \<notin> set (drop (i + 1) (v[i := CHR ''0''])))"
        using True v1 "1.prems" by (intro "1.IH"(2)) auto
      then show ?thesis by (simp add: e d t v1 v1 [symmetric])
    qed
  qed
qed

lemma incr_bin_str:
  "incr_bits (rev (bin_str n i)) = rev (bin_str n (i + 1))
    \<and> (CHR ''0'' \<notin> set (bin_str n i) \<longleftrightarrow> (i + 1) mod 2 ^ n = 0)"
proof (induction n arbitrary: i)
  case (Suc n)
  show ?case
  proof (cases "even i")
    case True
    then have e: "(i + 1) div 2 = i div 2" by presburger
    have "(i + 1) mod 2 = 1" using True by presburger
    then have "odd ((i + 1) mod 2 ^ Suc n)" by (simp add: odd_iff_mod_2_eq_one mod_mod_cancel)
    then have "(i + 1) mod 2 ^ Suc n \<noteq> 0" by (metis even_zero)
    with True e show ?thesis by simp
  next
    case False
    then have e: "(i + 1) div 2 = i div 2 + 1" and m: "(i + 1) mod 2 = 0" by presburger+
    have "(i + 1) mod 2 ^ Suc n = 2 * ((i div 2 + 1) mod 2 ^ n)"
      using m e by (simp add: zmod_zmult2_eq)
    with False e Suc [of "i div 2"] show ?thesis by simp
  qed
qed simp

text \<open>
  \<open>binary_range(bits)\<close> terminates and lists the binary numerals of 0, 1, ... up to the largest
  number of that width, in order; the toggle counters implement the carry.
\<close>
theorem binary_range_correct:
  assumes "0 < bits"
  shows "binary_range bits = Some (map (\<lambda>j. bin_str bits (int j)) [0 ..< 2 ^ bits])"
proof -
  let ?tog = "\<lambda>j. if j = 0 then 1 # replicate bits 0
      else snd (binary_carry bits 0 (rev (bin_str bits (int j - 1))) (1 # replicate bits 0))"
  let ?s = "\<lambda>j. (map (\<lambda>j. bin_str bits (int j)) [0 ..< j], rev (bin_str bits (int j)), ?tog j)"
  have c: "fst (binary_carry bits 0 (rev (bin_str bits i)) (1 # replicate bits 0)) = rev (bin_str bits (i + 1))
    \<and> (snd (binary_carry bits 0 (rev (bin_str bits i)) (1 # replicate bits 0)) ! bits = 1
        \<longleftrightarrow> (i + 1) mod 2 ^ bits = 0)" for i
    using binary_carry_incr [of "rev (bin_str bits i)" bits "1 # replicate bits 0" 0] incr_bin_str [of bits i]
    by (auto simp: nth_Cons split: nat.splits)
  have z: "rev (bin_str bits 0) = replicate bits (CHR ''0'')"
    by (induction bits) (auto simp flip: replicate_append_same)
  have stop: "?tog j ! bits = 1 \<longleftrightarrow> j = 2 ^ bits" if j: "j \<le> 2 ^ bits" for j
  proof (cases "j = 0")
    case True
    with assms show ?thesis by (simp add: nth_Cons')
  next
    case False
    have "int j \<le> 2 ^ bits" using j by (metis of_nat_le_iff of_nat_numeral of_nat_power)
    then have "int j mod 2 ^ bits = 0 \<longleftrightarrow> int j = 2 ^ bits"
      using False by (cases "int j = 2 ^ bits") auto
    also have "int j = 2 ^ bits \<longleftrightarrow> j = 2 ^ bits"
      by (metis of_nat_eq_iff of_nat_numeral of_nat_power)
    finally show ?thesis using c [of "int j - 1"] False by simp
  qed
  have "while_option (\<lambda>(l, v, toggle). toggle ! bits \<noteq> 1)
      (\<lambda>(l, v, toggle). (l @ [rev v], binary_carry bits 0 v (1 # replicate bits 0))) (?s 0) = Some (?s (2 ^ bits))"
    by (rule while_option_iterate [of _ _ ?s]) (use stop c in \<open>auto simp: prod_eq_iff add.commute\<close>)
  then show ?thesis by (simp add: binary_range_def z)
qed


theorem binary_range_correct_witness:
  "binary_range 2 = Some [''00'', ''01'', ''10'', ''11'']"
proof -
  have "map (\<lambda>j. bin_str 2 (int j)) [0 ..< 2 ^ 2] = [''00'', ''01'', ''10'', ''11'']" by code_simp
  with binary_range_correct [of 2] show ?thesis by simp
qed

lemma float_range_none_default: "float_range start None step = float_range 0 (Some start) step"
  by (simp add: float_range_def)

text \<open>
  With a positive step, \<open>float_range\<close> terminates with the arithmetic progression from \<open>start\<close>
  up to, but not including, \<open>stop\<close> (over exact rationals).
\<close>
theorem float_range_correct:
  assumes "0 < step"
  shows "float_range start (Some stop) (Some step) =
    Some (map (\<lambda>k. start + of_nat k * step) [0 ..< nat \<lceil>(stop - start) / step\<rceil>])"
proof -
  let ?n = "nat \<lceil>(stop - start) / step\<rceil>"
  let ?s = "\<lambda>k. (start + of_nat k * step, map (\<lambda>k. start + of_nat k * step) [0 ..< k])"
  have b: "start + of_nat k * step < stop \<longleftrightarrow> k < ?n" for k
  proof -
    have "start + of_nat k * step < stop \<longleftrightarrow> of_int (int k) < (stop - start) / step"
      using assms by (simp add: pos_less_divide_eq algebra_simps)
    also have "\<dots> \<longleftrightarrow> k < ?n" unfolding less_ceiling_iff [symmetric] by linarith
    finally show ?thesis .
  qed
  have st: "start + of_nat k * step + step = start + of_nat (Suc k) * step" for k
    by (simp add: algebra_simps)
  have "while_option (\<lambda>(cur, l). cur < stop) (\<lambda>(cur, l). (cur + step, l @ [cur])) (?s 0) = Some (?s ?n)"
    by (rule while_option_iterate [of _ _ ?s]) (auto simp: b st simp del: of_nat_Suc)
  then show ?thesis by (simp add: float_range_def)
qed

theorem float_range_correct_witness: "float_range 1 (Some 2) (Some (1 / 2)) = Some [1, 3 / 2]"
  using float_range_correct [of "1 / 2" 1 2] by (simp add: upt_rec numeral_2_eq_2)

theorem float_range_diverges:
  assumes "step \<le> 0" and "start < stop"
  shows "float_range start (Some stop) (Some step) = None"
proof (cases "while_option (\<lambda>(cur, l). cur < stop) (\<lambda>(cur, l). (cur + step, l @ [cur])) (start, [])")
  case (Some t)
  have "fst t < stop"
    by (rule while_option_rule [where P = "\<lambda>t. fst t < stop", OF _ Some]) (use assms in auto)
  moreover have "\<not> fst t < stop" using while_option_stop [OF Some] by (auto split: prod.splits)
  ultimately show ?thesis by simp
qed (simp add: float_range_def)

lemma zip_star_rectangular:
  assumes "rows \<noteq> []" and "\<And>r. r \<in> set rows \<Longrightarrow> length r = m"
  shows "zip_star rows = map (\<lambda>j. map (\<lambda>r. r ! j) rows) [0 ..< m]"
  using assms
proof (induction m arbitrary: rows)
  case 0
  then have "[] \<in> set rows" by (cases rows) auto
  then show ?case by (simp add: zip_star.simps)
next
  case (Suc m)
  have ne: "[] \<notin> set rows" using Suc.prems(2) by fastforce
  have "zip_star (map tl rows) = map (\<lambda>j. map (\<lambda>r. r ! j) (map tl rows)) [0 ..< m]"
    using Suc.prems by (intro Suc.IH) auto
  moreover have "map hd rows = map (\<lambda>r. r ! 0) rows"
    using ne by (intro map_cong) (metis hd_conv_nth)+
  moreover have "map (\<lambda>r. r ! j) (map tl rows) = map (\<lambda>r. r ! Suc j) rows" for j
    using ne by (auto simp: nth_tl) (metis list.collapse nth_Cons_Suc)
  ultimately show ?case
    using ne Suc.prems(1) by (subst zip_star.simps) (simp add: map_upt_Suc del: upt_Suc)
qed

theorem transpose_involution:
  assumes "matrix \<noteq> []" and "0 < m" and "\<And>r. r \<in> set matrix \<Longrightarrow> length r = m"
  shows "transpose_matrix (transpose_matrix matrix) = matrix"
proof -
  let ?t = "map (\<lambda>j. map (\<lambda>r. r ! j) matrix) [0 ..< m]"
  have "zip_star ?t = map (\<lambda>i. map (\<lambda>c. c ! i) ?t) [0 ..< length matrix]"
    using assms(2) by (intro zip_star_rectangular) auto
  also have "\<dots> = matrix"
    using assms(3) by (intro nth_equalityI) (auto intro!: nth_equalityI)
  finally show ?thesis
    using assms by (simp add: transpose_matrix_def zip_star_rectangular [of matrix m])
qed

lemma py_index_sorted:
  assumes "0 \<le> i" and "i < int (length xs)"
  shows "py_index xs i = Inr (xs ! nat i)"
  using assms by (simp add: py_index_def)

text \<open>
  For a non-empty list and a fraction between 0 and 1, \<open>quantile\<close> indexes inside the sorted
  list and returns a value between the least and the greatest element.
\<close>
theorem quantile_between:
  assumes "l \<noteq> []" and "0 \<le> p" and "p \<le> 1"
  shows "\<exists>q. quantile l p = Inr q \<and> Min (set l) \<le> q \<and> q \<le> Max (set l)"
proof -
  define n where "n = int (length l)"
  define r where "r = 1 + (of_int n - 1) * p"
  define i where "i = \<lfloor>r\<rfloor>"
  define f where "f = r - of_int i"
  have n: "1 \<le> n" using assms(1) by (cases l) (auto simp: n_def)
  have r: "1 \<le> r" "r \<le> of_int n"
    using n assms(2,3) mult_left_le [of p "of_int n - 1"] by (auto simp: r_def)
  have i: "1 \<le> i" "i \<le> n" "py_int r = i" using r by (auto simp: i_def py_int_def le_floor_iff floor_le_iff)
  have f: "0 \<le> f" "f \<le> 1" by (simp_all add: f_def i_def) linarith
  have in_range: "Min (set l) \<le> sort l ! k \<and> sort l ! k \<le> Max (set l)" if "k < length l" for k
    using that nth_mem [of k "sort l"] by simp
  show ?thesis
  proof (cases "i < n")
    case True
    let ?a = "sort l ! nat (i - 1)" and ?b = "sort l ! nat i"
    have q: "quantile l p = Inr ((1 - f) * ?a + f * ?b)"
      using True i n by (simp add: quantile_def Let_def py_index_sorted flip: n_def r_def f_def)
    have ab: "Min (set l) \<le> ?a" "?a \<le> Max (set l)" "Min (set l) \<le> ?b" "?b \<le> Max (set l)"
      using in_range [of "nat (i - 1)"] in_range [of "nat i"] True i by (auto simp: n_def)
    have "(1 - f) * Min (set l) + f * Min (set l) \<le> (1 - f) * ?a + f * ?b"
      using f ab by (intro add_mono mult_left_mono) auto
    moreover have "(1 - f) * ?a + f * ?b \<le> (1 - f) * Max (set l) + f * Max (set l)"
      using f ab by (intro add_mono mult_left_mono) auto
    moreover have "(1 - f) * x + f * x = x" for x :: rat by (simp add: algebra_simps)
    ultimately show ?thesis using q by metis
  next
    case False
    then have "quantile l p = Inr (sort l ! nat (i - 1))"
      using i n by (simp add: quantile_def Let_def py_index_sorted flip: n_def r_def)
    then show ?thesis using in_range [of "nat (i - 1)"] i n by (auto simp: n_def)
  qed
qed

theorem quantile_between_witness:
  "\<exists>q. quantile [1, 2, 3, 4] (1 / 2) = Inr q \<and> 1 \<le> q \<and> q \<le> 4"
  using quantile_between [of "[1, 2, 3, 4]" "1 / 2"] by simp

end
