(* ===== verification/Topsort.thy ===== *)
theory Topsort
  imports Rad_Util
begin

text \<open>
  \<^verbatim>\<open>bindings/python/topsort.py\<close>: topological sorting of (parent, child) pairs, the
  version that groups the items by level, and the enumeration of the cycles of a graph.
  The order in which the interpreter lists the keys of a dictionary is a parameter
  \<open>key_order\<close>; the theorems hold for every order that lists each key once.
\<close>

section \<open>Sorting\<close>

datatype 'a topsort_error =
    CycleError "'a list" "('a, int) dict" "('a, 'a list) dict"
  | MissingKey 'a

text \<open>
  One turn of the loop that fills \<open>num_parents\<close> and \<open>children\<close>.  After the two tests both
  items are keys, so the increment finds a count.
\<close>

definition ensure_key :: "'a \<Rightarrow> ('a, int) dict \<Rightarrow> ('a, int) dict" where
  "ensure_key x num_parents = (if \<not> has_key num_parents x then AList.update x 0 num_parents else num_parents)"

definition add_pair ::
    "('a, int) dict \<times> ('a, 'a list) dict \<Rightarrow> 'a \<times> 'a \<Rightarrow> ('a, int) dict \<times> ('a, 'a list) dict" where
  "add_pair st pair =
     (let (num_parents, children) = st; (parent, child) = pair;
          num_parents = ensure_key child (ensure_key parent num_parents);
          num_parents = (case map_of num_parents child of
                           Some n \<Rightarrow> AList.update child (n + 1) num_parents
                         | None \<Rightarrow> num_parents);
          siblings = (case map_of children parent of Some cs \<Rightarrow> cs | None \<Rightarrow> [])
      in (num_parents, AList.update parent (siblings @ [child]) children))"

definition count_parents :: "('a \<times> 'a) list \<Rightarrow> ('a, int) dict \<times> ('a, 'a list) dict" where
  "count_parents pairlist = foldl add_pair ([], []) pairlist"

definition parentless :: "('a list \<Rightarrow> 'a list) \<Rightarrow> ('a, int) dict \<Rightarrow> 'a list" where
  "parentless key_order num_parents =
     filter (\<lambda>x. map_of num_parents x = Some 0) (key_order (map fst num_parents))"

text \<open>Knock down the parent count of each child; a count that reaches zero appends to the answer.\<close>

fun knock_down ::
    "'a list \<Rightarrow> ('a, int) dict \<Rightarrow> 'a list \<Rightarrow> 'a topsort_error + (('a, int) dict \<times> 'a list)" where
  "knock_down [] num_parents answer = Inr (num_parents, answer)"
| "knock_down (child # cs) num_parents answer =
     (case map_of num_parents child of
        None \<Rightarrow> Inl (MissingKey child)
      | Some n \<Rightarrow>
          knock_down cs (AList.update child (n - 1) num_parents)
            (if n - 1 = 0 then answer @ [child] else answer))"

lemma keys_update_member: "has_key d k \<Longrightarrow> map fst (AList.update k v d) = map fst d"
  by (induction d) (auto simp: has_key_def split: if_splits)

lemma knock_down_keys: "knock_down cs np ans = Inr (np', ans') \<Longrightarrow> map fst np' = map fst np"
  by (induction cs np ans rule: knock_down.induct)
     (auto split: option.splits simp: keys_update_member has_key_def)

lemma knock_down_length: "knock_down cs np ans = Inr (np', ans') \<Longrightarrow> length np' = length np"
  by (metis knock_down_keys length_map)

text \<open>
  \<open>for parent in answer\<close> while the loop appends to \<open>answer\<close>: the list is the part already
  visited and the part to come.
\<close>

function topsort_loop ::
    "'a list \<Rightarrow> 'a list \<Rightarrow> ('a, int) dict \<Rightarrow> ('a, 'a list) dict \<Rightarrow> 'a topsort_error + 'a list" where
  "topsort_loop visited to_come num_parents children =
     (case to_come of
        [] \<Rightarrow> if num_parents \<noteq> [] then Inl (CycleError visited num_parents children) else Inr visited
      | parent # rest \<Rightarrow>
          if \<not> has_key num_parents parent then Inl (MissingKey parent)
          else
            (case map_of children parent of
               None \<Rightarrow> topsort_loop (visited @ [parent]) rest (AList.delete parent num_parents) children
             | Some cs \<Rightarrow>
                 (case knock_down cs (AList.delete parent num_parents) rest of
                    Inl e \<Rightarrow> Inl e
                  | Inr (num_parents', rest') \<Rightarrow>
                      topsort_loop (visited @ [parent]) rest' num_parents' (AList.delete parent children))))"
  by pat_completeness auto
termination
  by (relation "measure (\<lambda>(visited, to_come, np, ch). length np)")
     (auto dest!: knock_down_length simp: length_delete_less)

declare topsort_loop.simps [simp del]

definition topsort :: "('a list \<Rightarrow> 'a list) \<Rightarrow> ('a \<times> 'a) list \<Rightarrow> 'a topsort_error + 'a list" where
  "topsort key_order pairlist =
     (let (num_parents, children) = count_parents pairlist
      in topsort_loop [] (parentless key_order num_parents) num_parents children)"

section \<open>Sorting into levels\<close>

text \<open>
  The generator: the levels it yields and how it ends, with a \<open>CycleError\<close>, with a missing
  key, or (\<open>None\<close>) with \<open>StopIteration\<close>.  Its \<open>CycleError\<close> has no answer list.
\<close>

fun take_level ::
    "'a list \<Rightarrow> ('a, int) dict \<Rightarrow> ('a, 'a list) dict
       \<Rightarrow> 'a topsort_error + (('a, int) dict \<times> ('a, 'a list) dict)" where
  "take_level [] num_parents children = Inr (num_parents, children)"
| "take_level (level_parent # ps) num_parents children =
     (if \<not> has_key num_parents level_parent then Inl (MissingKey level_parent)
      else
        (case map_of children level_parent of
           None \<Rightarrow> take_level ps (AList.delete level_parent num_parents) children
         | Some cs \<Rightarrow>
             (case knock_down cs (AList.delete level_parent num_parents) [] of
                Inl e \<Rightarrow> Inl e
              | Inr (num_parents', _) \<Rightarrow>
                  take_level ps num_parents' (AList.delete level_parent children))))"

lemma take_level_length:
  "take_level ps np ch = Inr (np', ch') \<Longrightarrow> length np' + length ps \<le> length np"
proof (induction ps np ch rule: take_level.induct)
  case (2 p ps np ch)
  then have k: "has_key np p" by (auto split: if_splits)
  then have l: "length (AList.delete p np) < length np" by (rule length_delete_less)
  show ?case
  proof (cases "map_of ch p")
    case None
    with 2 k l show ?thesis by fastforce
  next
    case (Some cs)
    with "2.prems" k obtain np1 a where kd: "knock_down cs (AList.delete p np) [] = Inr (np1, a)"
      and tl: "take_level ps np1 (AList.delete p ch) = Inr (np', ch')"
      by (auto split: sum.splits)
    with 2(2) [of cs "(np1, a)" np1 a] k Some knock_down_length [OF kd] l show ?thesis by auto
  qed
qed simp

function topsort_levels_core ::
    "('a list \<Rightarrow> 'a list) \<Rightarrow> ('a, int) dict \<Rightarrow> ('a, 'a list) dict
       \<Rightarrow> 'a list list \<times> 'a topsort_error option" where
  "topsort_levels_core key_order num_parents children =
     (let level_parents = parentless key_order num_parents in
      if level_parents = []
      then ([], if num_parents \<noteq> [] then Some (CycleError [] num_parents children) else None)
      else
        (case take_level level_parents num_parents children of
           Inl e \<Rightarrow> ([level_parents], Some e)
         | Inr (num_parents', children') \<Rightarrow>
             let (levels, end) = topsort_levels_core key_order num_parents' children'
             in (level_parents # levels, end)))"
  by pat_completeness auto
termination
proof (relation "measure (\<lambda>(ko, np, ch). length np)")
  fix key_order :: "'a list \<Rightarrow> 'a list" and np :: "('a, int) dict" and ch x y np' ch'
  assume "x = parentless key_order np" and "x \<noteq> []" and "take_level x np ch = Inr y"
    and "(np', ch') = y"
  then have a: "length np' + length x \<le> length np" and b: "0 < length x"
    using take_level_length [of x np ch np' ch'] by auto
  from a b have "length np' < length np" by linarith
  then show "((key_order, np', ch'), key_order, np, ch) \<in> measure (\<lambda>(ko, np, ch). length np)"
    by simp
qed simp

declare topsort_levels_core.simps [simp del]

definition topsort_levels ::
    "('a list \<Rightarrow> 'a list) \<Rightarrow> ('a \<times> 'a) list \<Rightarrow> 'a list list \<times> 'a topsort_error option" where
  "topsort_levels key_order pairlist =
     (let (num_parents, children) = count_parents pairlist
      in topsort_levels_core key_order num_parents children)"

definition indeg :: "('a \<times> 'a) list \<Rightarrow> 'a set \<Rightarrow> 'a \<Rightarrow> nat" where
  "indeg pairs S x = length (filter (\<lambda>(p, c). c = x \<and> p \<notin> S) pairs)"

definition kids :: "('a \<times> 'a) list \<Rightarrow> 'a \<Rightarrow> 'a list" where
  "kids pairs p = map snd (filter (\<lambda>(q, c). q = p) pairs)"

definition nodes :: "('a \<times> 'a) list \<Rightarrow> 'a set" where
  "nodes pairs = fst ` set pairs \<union> snd ` set pairs"

lemma indeg_insert:
  "p \<notin> S \<Longrightarrow> indeg pairs S x = indeg pairs (insert p S) x + count_list (kids pairs p) x"
  by (induction pairs) (auto simp: indeg_def kids_def)

lemma indeg_zero: "indeg pairs S x = 0 \<longleftrightarrow> (\<forall>p. (p, x) \<in> set pairs \<longrightarrow> p \<in> S)"
  by (auto simp: indeg_def filter_empty_conv)

lemma kids_iff: "c \<in> set (kids pairs p) \<longleftrightarrow> (p, c) \<in> set pairs"
  by (force simp: kids_def)

lemma indeg_snoc: "indeg (pairs @ [(p, c)]) {} x = indeg pairs {} x + (if x = c then 1 else 0)"
  by (simp add: indeg_def)

lemma kids_snoc: "kids (pairs @ [(p, c)]) x = kids pairs x @ (if x = p then [c] else [])"
  by (simp add: kids_def)

lemma nodes_snoc: "nodes (pairs @ [(p, c)]) = insert p (insert c (nodes pairs))"
  by (auto simp: nodes_def)

text \<open>The counts after the first loop\<close>

definition counts_ok :: "('a \<times> 'a) list \<Rightarrow> 'a set \<Rightarrow> ('a, int) dict \<Rightarrow> ('a, 'a list) dict \<Rightarrow> bool" where
  "counts_ok pairs S np ch \<longleftrightarrow>
     dict_wf np
     \<and> (\<forall>x. map_of np x = (if x \<in> nodes pairs - S then Some (int (indeg pairs S x)) else None))
     \<and> (\<forall>p. p \<notin> S \<longrightarrow> map_of ch p = (if kids pairs p = [] then None else Some (kids pairs p)))"

lemma add_pair_counts:
  assumes "counts_ok pairs {} np ch"
  shows "case add_pair (np, ch) e of (np', ch') \<Rightarrow> counts_ok (pairs @ [e]) {} np' ch'"
proof -
  obtain p c where e: "e = (p, c)" by (cases e)
  have np: "map_of np x = (if x \<in> nodes pairs then Some (int (indeg pairs {} x)) else None)"
    and ch: "map_of ch x = (if kids pairs x = [] then None else Some (kids pairs x))"
    and wf: "dict_wf np" for x
    using assms by (auto simp: counts_ok_def)
  have z: "x \<notin> nodes pairs \<Longrightarrow> indeg pairs {} x = 0" for x
    by (force simp: indeg_def nodes_def filter_empty_conv)
  show ?thesis
    using wf
    by (auto simp: counts_ok_def add_pair_def ensure_key_def Let_def e indeg_snoc kids_snoc nodes_snoc
        np ch z has_key_def)
qed

lemma count_parents_counts:
  "case count_parents pairs of (np, ch) \<Rightarrow> counts_ok pairs {} np ch"
proof (induction pairs rule: rev_induct)
  case Nil
  show ?case by (simp add: count_parents_def counts_ok_def nodes_def kids_def)
next
  case (snoc e pairs)
  obtain np ch where "count_parents pairs = (np, ch)" by (cases "count_parents pairs")
  with snoc add_pair_counts [of pairs np ch e] show ?case
    by (simp add: count_parents_def)
qed

lemma knock_down_spec:
  assumes "\<And>x. x \<in> set cs \<Longrightarrow> \<exists>n. map_of np x = Some n \<and> int (count_list cs x) \<le> n"
  shows "\<exists>np' new. knock_down cs np ans = Inr (np', ans @ new)
    \<and> (\<forall>x. map_of np' x = map_option (\<lambda>n. n - int (count_list cs x)) (map_of np x))
    \<and> distinct new \<and> (\<forall>x. x \<in> set new \<longleftrightarrow> x \<in> set cs \<and> map_of np x = Some (int (count_list cs x)))"
  using assms
proof (induction cs arbitrary: np ans)
  case Nil
  show ?case by (simp add: option.map_ident)
next
  case (Cons c cs)
  obtain n where n: "map_of np c = Some n" "int (count_list (c # cs) c) \<le> n"
    using Cons.prems [of c] by auto
  let ?np = "AList.update c (n - 1) np"
  let ?ans = "if n - 1 = 0 then ans @ [c] else ans"
  have "\<exists>m. map_of ?np x = Some m \<and> int (count_list cs x) \<le> m" if "x \<in> set cs" for x
    using Cons.prems [of x] n that by auto
  from Cons.IH [OF this, of ?ans] obtain np' new where
    kd: "knock_down cs ?np ?ans = Inr (np', ?ans @ new)"
    and np': "\<And>x. map_of np' x = map_option (\<lambda>n. n - int (count_list cs x)) (map_of ?np x)"
    and new: "distinct new" "\<And>x. x \<in> set new \<longleftrightarrow> x \<in> set cs \<and> map_of ?np x = Some (int (count_list cs x))"
    by blast
  have cnew: "c \<notin> set cs" if "n = 1"
    using that n(2) count_list_0_iff [of cs c] by simp
  let ?new = "if n - 1 = 0 then c # new else new"
  show ?case
  proof (intro exI conjI allI)
    show "knock_down (c # cs) np ans = Inr (np', ans @ ?new)"
      using kd n by simp
    show "map_of np' x = map_option (\<lambda>n. n - int (count_list (c # cs) x)) (map_of np x)" for x
      using np' n by simp
    show "distinct ?new" using new cnew by auto
    show "x \<in> set ?new \<longleftrightarrow> x \<in> set (c # cs) \<and> map_of np x = Some (int (count_list (c # cs) x))" for x
    proof (cases "x = c")
      case True
      have "x \<in> set cs \<or> count_list cs x = 0" by (simp add: count_list_0_iff)
      with True new(2) [of x] n cnew show ?thesis by auto
    next
      case False
      with new(2) [of x] n show ?thesis by auto
    qed
  qed
qed

text \<open>The invariant of the main loop\<close>

definition ordered :: "('a \<times> 'a) list \<Rightarrow> 'a list \<Rightarrow> bool" where
  "ordered pairs xs \<longleftrightarrow> (\<forall>i < length xs. \<forall>p. (p, xs ! i) \<in> set pairs \<longrightarrow> p \<in> set (take i xs))"

definition loop_inv ::
    "('a \<times> 'a) list \<Rightarrow> 'a list \<Rightarrow> 'a list \<Rightarrow> ('a, int) dict \<Rightarrow> ('a, 'a list) dict \<Rightarrow> bool" where
  "loop_inv pairs vis todo np ch \<longleftrightarrow>
     counts_ok pairs (set vis) np ch \<and> distinct (vis @ todo) \<and> set vis \<subseteq> nodes pairs
     \<and> (\<forall>x. x \<in> set todo \<longleftrightarrow> map_of np x = Some 0) \<and> ordered pairs (vis @ todo)"

lemma ordered_append:
  assumes "ordered pairs xs" and "\<And>x p. x \<in> set ys \<Longrightarrow> (p, x) \<in> set pairs \<Longrightarrow> p \<in> set xs"
  shows "ordered pairs (xs @ ys)"
  using assms unfolding ordered_def
  by (auto simp: nth_append) (metis Un_iff nth_mem add_diff_inverse_nat nat_add_left_cancel_less)

lemma loop_invD:
  assumes "loop_inv pairs vis todo np ch"
  shows "map_of np x = (if x \<in> nodes pairs - set vis then Some (int (indeg pairs (set vis) x)) else None)"
    and "x \<notin> set vis \<Longrightarrow> map_of ch x = (if kids pairs x = [] then None else Some (kids pairs x))"
    and "x \<in> set todo \<longleftrightarrow> map_of np x = Some 0"
    and "dict_wf np" and "distinct (vis @ todo)" and "set vis \<subseteq> nodes pairs"
    and "ordered pairs (vis @ todo)"
  using assms by (simp_all add: loop_inv_def counts_ok_def)

definition parents_in :: "('a \<times> 'a) list \<Rightarrow> 'a set \<Rightarrow> bool" where
  "parents_in pairs S \<longleftrightarrow> (\<forall>p x. (p, x) \<in> set pairs \<longrightarrow> x \<in> S \<longrightarrow> p \<in> S)"

lemma ordered_closed:
  assumes o: "ordered pairs (xs @ ys)"
  shows "parents_in pairs (set xs)"
  unfolding parents_in_def
proof (intro allI impI)
  fix p x assume e: "(p, x) \<in> set pairs" and "x \<in> set xs"
  then obtain i where i: "i < length xs" "xs ! i = x" by (auto simp: in_set_conv_nth)
  then have "p \<in> set (take i (xs @ ys))"
    using o e by (auto simp: ordered_def nth_append dest!: spec [of _ i])
  with i show "p \<in> set xs" by (auto dest: in_set_takeD)
qed

text \<open>
  Taking an item without parents out of the counts: \<open>S\<close> is the set of the items already
  taken, and it holds the parents of its members.
\<close>

lemma taken_item:
  assumes co: "counts_ok pairs S np ch" and p0: "map_of np p = Some 0"
    and cl: "parents_in pairs S"
  shows "p \<notin> S" and "p \<in> nodes pairs" and "(q, p) \<in> set pairs \<Longrightarrow> q \<in> S"
    and "indeg pairs S x = indeg pairs (insert p S) x + count_list (kids pairs p) x"
    and "(p, x) \<in> set pairs \<Longrightarrow> x \<in> nodes pairs - S \<and> x \<noteq> p"
proof -
  have n: "map_of np p = (if p \<in> nodes pairs - S then Some (int (indeg pairs S p)) else None)"
    using co unfolding counts_ok_def by blast
  with p0 show p: "p \<notin> S" "p \<in> nodes pairs" by (auto split: if_splits)
  have z: "indeg pairs S p = 0" using n p0 by (simp split: if_splits)
  then show "(q, p) \<in> set pairs \<Longrightarrow> q \<in> S" by (simp add: indeg_zero)
  show "indeg pairs S x = indeg pairs (insert p S) x + count_list (kids pairs p) x"
    using indeg_insert [OF p(1)] .
  show "x \<in> nodes pairs - S \<and> x \<noteq> p" if "(p, x) \<in> set pairs"
    using that cl p(1) z by (force simp: nodes_def indeg_zero parents_in_def)
qed

lemma take_leaf:
  assumes co: "counts_ok pairs S np ch" and p0: "map_of np p = Some 0"
    and cl: "parents_in pairs S"
    and no: "map_of ch p = None"
  shows "counts_ok pairs (insert p S) (AList.delete p np) ch"
proof -
  note h = taken_item [OF co p0 cl]
  have "kids pairs p = []" using no co h(1) by (auto simp: counts_ok_def split: if_splits)
  then have "indeg pairs (insert p S) x = indeg pairs S x" for x using h(4) [of x] by simp
  then show ?thesis using co by (simp add: counts_ok_def)
qed

lemma take_parent:
  assumes co: "counts_ok pairs S np ch" and p0: "map_of np p = Some 0"
    and cl: "parents_in pairs S"
    and cs: "map_of ch p = Some cs"
  obtains np' new where "knock_down cs (AList.delete p np) answer = Inr (np', answer @ new)"
    and "counts_ok pairs (insert p S) np' (AList.delete p ch)"
    and "distinct new"
    and "\<And>x. x \<in> set new \<longleftrightarrow> x \<in> set cs \<and> map_of np' x = Some 0"
    and "\<And>x. x \<in> set cs \<Longrightarrow> map_of np x \<noteq> Some 0"
    and "\<And>x. x \<notin> set cs \<Longrightarrow> x \<noteq> p \<Longrightarrow> map_of np' x = map_of np x"
    and "map_of np' p = None"
proof -
  note h = taken_item [OF co p0 cl]
  have np: "map_of np x = (if x \<in> nodes pairs - S then Some (int (indeg pairs S x)) else None)"
    and ch: "x \<notin> S \<Longrightarrow> map_of ch x = (if kids pairs x = [] then None else Some (kids pairs x))" for x
    using co unfolding counts_ok_def by blast+
  have k: "cs = kids pairs p" using cs ch [OF h(1)] by (simp split: if_splits)
  have pre: "\<exists>n. map_of (AList.delete p np) x = Some n \<and> int (count_list cs x) \<le> n" if "x \<in> set cs" for x
    using h(5) [of x] np [of x] h(4) [of x] that by (simp add: k kids_iff)
  obtain np' new where kd: "knock_down cs (AList.delete p np) answer = Inr (np', answer @ new)"
    and np': "\<And>x. map_of np' x = map_option (\<lambda>n. n - int (count_list cs x)) (map_of (AList.delete p np) x)"
    and new: "distinct new" "\<And>x. x \<in> set new \<longleftrightarrow> x \<in> set cs \<and>
      map_of (AList.delete p np) x = Some (int (count_list cs x))"
    using knock_down_spec [of cs "AList.delete p np" answer] pre by blast
  have "dict_wf np" using co by (simp add: counts_ok_def)
  then have "dict_wf np'"
    using knock_down_keys [OF kd] dict_wf_delete [of np p] by (simp add: dict_wf_def)
  then have co': "counts_ok pairs (insert p S) np' (AList.delete p ch)"
    unfolding counts_ok_def using np' np ch h(4) by (auto simp: k)
  have pos: "map_of np x \<noteq> Some 0" if x: "x \<in> set cs" for x
  proof -
    have "count_list cs x \<noteq> 0" using x by (simp add: count_list_0_iff)
    with pre [OF x] show ?thesis by (auto split: if_splits)
  qed
  have same: "map_of np' x = map_of np x" if "x \<notin> set cs" "x \<noteq> p" for x
    using that np' [of x] by (simp add: count_list_0_iff option.map_ident)
  have "x \<in> set new \<longleftrightarrow> x \<in> set cs \<and> map_of np' x = Some 0" for x
    using new(2) [of x] np' [of x] pre [of x] by auto
  moreover have "map_of np' p = None" using np' by simp
  ultimately show thesis using that kd co' new(1) pos same by blast
qed

lemma loop_inv_head:
  assumes inv: "loop_inv pairs vis (p # todo) np ch"
  shows "map_of np p = Some 0" and "counts_ok pairs (set vis) np ch"
    and "parents_in pairs (set vis)"
  using loop_invD(3) [OF inv, of p] inv ordered_closed [OF loop_invD(7) [OF inv]]
  by (auto simp: loop_inv_def)

lemma loop_inv_leaf:
  assumes inv: "loop_inv pairs vis (p # todo) np ch" and no: "map_of ch p = None"
  shows "loop_inv pairs (vis @ [p]) todo (AList.delete p np) ch"
proof -
  note h = loop_inv_head [OF inv]
  have "counts_ok pairs (insert p (set vis)) (AList.delete p np) ch"
    using h(2,1,3) no by (rule take_leaf)
  moreover have "x \<in> set todo \<longleftrightarrow> map_of (AList.delete p np) x = Some 0" for x
    using loop_invD(3) [OF inv, of x] loop_invD(5) [OF inv] by (cases "x = p") auto
  moreover have "p \<in> nodes pairs" using taken_item(2) [OF h(2,1,3)] .
  ultimately show ?thesis
    unfolding loop_inv_def using loop_invD(5,6,7) [OF inv] by auto
qed

lemma loop_inv_step:
  assumes inv: "loop_inv pairs vis (p # todo) np ch" and cs: "map_of ch p = Some cs"
  shows "\<exists>np' todo'. knock_down cs (AList.delete p np) todo = Inr (np', todo')
    \<and> loop_inv pairs (vis @ [p]) todo' np' (AList.delete p ch)"
proof -
  note h = loop_inv_head [OF inv] and d = loop_invD [OF inv]
  from take_parent [OF h(2,1,3) cs, of todo] obtain np' new where
    kd: "knock_down cs (AList.delete p np) todo = Inr (np', todo @ new)"
    and co: "counts_ok pairs (set (vis @ [p])) np' (AList.delete p ch)"
    and new: "distinct new" "\<And>x. x \<in> set new \<longleftrightarrow> x \<in> set cs \<and> map_of np' x = Some 0"
    and pos: "\<And>x. x \<in> set cs \<Longrightarrow> map_of np x \<noteq> Some 0"
    and same: "\<And>x. x \<notin> set cs \<Longrightarrow> x \<noteq> p \<Longrightarrow> map_of np' x = map_of np x"
    and gone: "map_of np' p = None" by auto
  have np': "map_of np' x = (if x \<in> nodes pairs - set (vis @ [p])
      then Some (int (indeg pairs (set (vis @ [p])) x)) else None)" for x
    using co unfolding counts_ok_def by blast
  have z: "x \<in> set (todo @ new) \<longleftrightarrow> map_of np' x = Some 0" for x
    using new(2) [of x] pos [of x] same [of x] gone d(3) [of x] d(5)
    by (cases "x = p"; cases "x \<in> set cs") auto
  have fresh: "x \<notin> set (vis @ p # todo)" if "x \<in> set new" for x
    using that new(2) [of x] pos [of x] np' [of x] d(3) [of x] by (auto split: if_splits)
  have "p' \<in> set (vis @ p # todo)" if "x \<in> set new" "(p', x) \<in> set pairs" for x p'
  proof -
    have "indeg pairs (set (vis @ [p])) x = 0"
      using new(2) [of x] that(1) np' [of x] by (simp split: if_splits)
    with that(2) have "p' \<in> set (vis @ [p])" unfolding indeg_zero by blast
    then show ?thesis by auto
  qed
  then have "ordered pairs ((vis @ p # todo) @ new)" by (rule ordered_append [OF d(7)])
  moreover have "p \<in> nodes pairs" using taken_item(2) [OF h(2,1,3)] .
  ultimately have "loop_inv pairs (vis @ [p]) (todo @ new) np' (AList.delete p ch)"
    unfolding loop_inv_def using co z d(5,6) fresh new(1) by auto
  with kd show ?thesis by blast
qed

lemma parentless_spec:
  assumes "\<And>xs. mset (key_order xs) = mset xs" and "counts_ok pairs S np ch"
  shows "distinct (parentless key_order np)"
    and "set (parentless key_order np) = {x \<in> nodes pairs - S. \<forall>p. (p, x) \<in> set pairs \<longrightarrow> p \<in> S}"
    and "x \<in> set (parentless key_order np) \<longleftrightarrow> map_of np x = Some 0"
proof -
  have s: "set (key_order xs) = set xs" and dd: "distinct (key_order xs) = distinct xs" for xs
    by (metis assms(1) set_mset_mset) (metis assms(1) mset_eq_imp_distinct_iff)
  show "distinct (parentless key_order np)"
    using assms(2) by (simp add: parentless_def dd dict_wf_def counts_ok_def)
  show m: "x \<in> set (parentless key_order np) \<longleftrightarrow> map_of np x = Some 0" for x
    by (auto simp: parentless_def s dest: map_of_SomeD intro: rev_image_eqI)
  have "map_of np x = Some 0 \<longleftrightarrow> x \<in> nodes pairs - S \<and> indeg pairs S x = 0" for x
    using assms(2) by (simp add: counts_ok_def)
  with m show "set (parentless key_order np) = {x \<in> nodes pairs - S. \<forall>p. (p, x) \<in> set pairs \<longrightarrow> p \<in> S}"
    unfolding indeg_zero by blast
qed

lemma parentless_ordered:
  assumes "\<And>xs. mset (key_order xs) = mset xs" and "counts_ok pairs (set xs) np ch"
    and "ordered pairs xs"
  shows "ordered pairs (xs @ parentless key_order np)"
  using parentless_spec(2) [OF assms(1,2)] by (intro ordered_append [OF assms(3)]) auto

lemma loop_inv_start:
  assumes "\<And>xs. mset (key_order xs) = mset xs" and "counts_ok pairs {} np ch"
  shows "loop_inv pairs [] (parentless key_order np) np ch"
  using parentless_spec [OF assms] parentless_ordered [of key_order pairs "[]" np ch, OF assms(1)] assms(2)
  by (simp add: loop_inv_def ordered_def)

text \<open>What the loop returns from a state that satisfies the invariant.\<close>

definition loop_result :: "('a \<times> 'a) list \<Rightarrow> 'a topsort_error + 'a list \<Rightarrow> bool" where
  "loop_result pairs r \<longleftrightarrow>
     (\<exists>vis np ch. loop_inv pairs vis [] np ch
        \<and> r = (if np \<noteq> [] then Inl (CycleError vis np ch) else Inr vis))"

lemma topsort_loop_result:
  "loop_inv pairs vis todo np ch \<Longrightarrow> loop_result pairs (topsort_loop vis todo np ch)"
proof (induction vis todo np ch rule: topsort_loop.induct)
  case (1 vis todo np ch)
  show ?case
  proof (cases todo)
    case Nil
    with "1.prems" show ?thesis
      by (subst topsort_loop.simps) (force simp: loop_result_def)
  next
    case (Cons p rest)
    note inv = "1.prems" [unfolded Cons]
    have k: "has_key np p" using loop_inv_head(1) [OF inv] by (simp add: has_key_def)
    show ?thesis
    proof (cases "map_of ch p")
      case None
      have "loop_result pairs (topsort_loop (vis @ [p]) rest (AList.delete p np) ch)"
        using "1.IH"(1) [OF Cons] k None loop_inv_leaf [OF inv None] by blast
      then show ?thesis
        using k None Cons by (subst topsort_loop.simps) simp
    next
      case (Some cs)
      from loop_inv_step [OF inv Some] obtain np' rest' where
        kd: "knock_down cs (AList.delete p np) rest = Inr (np', rest')"
        and inv': "loop_inv pairs (vis @ [p]) rest' np' (AList.delete p ch)" by blast
      have "loop_result pairs (topsort_loop (vis @ [p]) rest' np' (AList.delete p ch))"
        using "1.IH"(2) [OF Cons _ Some kd] k inv' by blast
      then show ?thesis
        using k Some Cons kd by (subst topsort_loop.simps) simp
    qed
  qed
qed

lemma ordered_acyclic:
  assumes "ordered pairs xs" and "nodes pairs \<subseteq> set xs" and "distinct xs"
  shows "acyclic (set pairs)"
proof -
  let ?idx = "\<lambda>y. length (takeWhile (\<lambda>x. x \<noteq> y) xs)"
  have idx: "?idx (xs ! k) = k" if "k < length xs" for k
  proof -
    have "takeWhile (\<lambda>x. x \<noteq> xs ! k) xs = take k xs"
      using that assms(3) by (intro takeWhile_eq_take_P_nth) (auto simp: nth_eq_iff_index_eq)
    with that show ?thesis by simp
  qed
  have "?idx p < ?idx c" if e: "(p, c) \<in> set pairs" for p c
  proof -
    have "c \<in> set xs" using assms(2) e by (force simp: nodes_def)
    then obtain i where i: "i < length xs" "xs ! i = c" by (auto simp: in_set_conv_nth)
    then have "p \<in> set (take i xs)" using assms(1) e by (auto simp: ordered_def)
    then obtain j where j: "j < i" "xs ! j = p" by (auto simp: in_set_conv_nth)
    then show ?thesis using idx [of i] idx [of j] i by auto
  qed
  then have "acyclic ((set pairs)\<inverse>)" by (intro acyclicI_order [where f = ?idx]) auto
  then show ?thesis by simp
qed

lemma remaining_cyclic:
  assumes "R \<noteq> {}" and "\<And>x. x \<in> R \<Longrightarrow> \<exists>p \<in> R. (p, x) \<in> set pairs"
  shows "\<not> acyclic (set pairs)"
proof
  assume "acyclic (set pairs)"
  then have "wf (set pairs)" by (intro finite_acyclic_wf) simp_all
  moreover obtain x where "x \<in> R" using assms(1) by blast
  ultimately obtain m where "m \<in> R" "\<And>y. (y, m) \<in> set pairs \<Longrightarrow> y \<notin> R"
    by (rule wfE_min) blast
  with assms(2) show False by blast
qed

lemma stuck_counts:
  assumes "counts_ok pairs S np ch" and "\<And>x. map_of np x \<noteq> Some 0" and "np \<noteq> []"
  shows "\<not> acyclic (set pairs)"
proof (rule remaining_cyclic)
  have np: "map_of np x = (if x \<in> nodes pairs - S then Some (int (indeg pairs S x)) else None)" for x
    using assms(1) unfolding counts_ok_def by blast
  show "fst ` set np \<noteq> {}" using assms(3) by simp
  fix x assume "x \<in> fst ` set np"
  then have "map_of np x \<noteq> None" by (simp add: map_of_eq_None_iff)
  then have "x \<in> nodes pairs - S" "indeg pairs S x \<noteq> 0"
    using np [of x] assms(2) [of x] by (auto split: if_splits)
  then obtain p where p: "(p, x) \<in> set pairs" "p \<notin> S" unfolding indeg_zero by blast
  then have "p \<in> nodes pairs - S" by (force simp: nodes_def)
  then have "map_of np p \<noteq> None" using np [of p] by simp
  with p(1) show "\<exists>p \<in> fst ` set np. (p, x) \<in> set pairs"
    unfolding map_of_eq_None_iff by blast
qed

lemma loop_inv_final:
  assumes inv: "loop_inv pairs vis [] np ch"
  shows "np = [] \<Longrightarrow> distinct vis \<and> set vis = nodes pairs \<and> ordered pairs vis \<and> acyclic (set pairs)"
    and "np \<noteq> [] \<Longrightarrow> \<not> acyclic (set pairs)"
proof -
  note d = loop_invD [OF inv]
  show "distinct vis \<and> set vis = nodes pairs \<and> ordered pairs vis \<and> acyclic (set pairs)" if e: "np = []"
  proof -
    have "x \<in> set vis" if "x \<in> nodes pairs" for x
      using d(1) [of x] e that by (simp split: if_splits)
    then have "nodes pairs \<subseteq> set vis" by blast
    then show ?thesis using d(5,6,7) ordered_acyclic [of pairs vis] by auto
  qed
  show "\<not> acyclic (set pairs)" if "np \<noteq> []"
    using inv d(3) that by (intro stuck_counts [of pairs "set vis" np ch]) (auto simp: loop_inv_def)
qed

lemma topsort_result:
  assumes "\<And>xs. mset (key_order xs) = mset xs"
  shows "case topsort key_order pairs of
      Inr answer \<Rightarrow> distinct answer \<and> set answer = nodes pairs \<and> ordered pairs answer \<and> acyclic (set pairs)
    | Inl (CycleError _ _ _) \<Rightarrow> \<not> acyclic (set pairs)
    | Inl (MissingKey _) \<Rightarrow> False"
proof -
  obtain np ch where np: "count_parents pairs = (np, ch)" by (cases "count_parents pairs")
  then have "counts_ok pairs {} np ch" using count_parents_counts [of pairs] by simp
  then have "loop_inv pairs [] (parentless key_order np) np ch" by (rule loop_inv_start [OF assms])
  then have "loop_result pairs (topsort key_order pairs)"
    using topsort_loop_result by (auto simp: topsort_def np)
  then obtain vis np' ch' where fin: "loop_inv pairs vis [] np' ch'"
    "topsort key_order pairs = (if np' \<noteq> [] then Inl (CycleError vis np' ch') else Inr vis)"
    by (auto simp: loop_result_def)
  with loop_inv_final [OF fin(1)] show ?thesis by auto
qed

text \<open>
  C5: whatever order the dictionary lists its keys in, a list of pairs is either sorted, and then
  the answer holds every item once with each parent before its children and the pairs have no
  cycle, or it has a cycle and \<open>CycleError\<close> is raised; no \<open>KeyError\<close> escapes.
\<close>
theorem topsort_correct:
  assumes "\<And>xs. mset (key_order xs) = mset xs"
  shows "case topsort key_order pairs of
      Inr answer \<Rightarrow> distinct answer \<and> set answer = nodes pairs \<and> ordered pairs answer \<and> acyclic (set pairs)
    | Inl (CycleError _ _ _) \<Rightarrow> \<not> acyclic (set pairs)
    | Inl (MissingKey _) \<Rightarrow> False"
  using assms by (rule topsort_result)

theorem topsort_correct_witness:
  "case topsort id [(1, 2), (3, 4), (5, 6), (1, 3), (1, 5), (1, 6), (2, 5 :: int)] of
      Inr answer \<Rightarrow> distinct answer \<and> ordered [(1, 2), (3, 4), (5, 6), (1, 3), (1, 5), (1, 6), (2, 5)] answer
    | Inl _ \<Rightarrow> False"
proof -
  have "topsort id [(1, 2), (3, 4), (5, 6), (1, 3), (1, 5), (1, 6), (2, 5 :: int)] = Inr [1, 2, 3, 5, 4, 6]"
    by code_simp
  with topsort_correct [of id "[(1, 2), (3, 4), (5, 6), (1, 3), (1, 5), (1, 6), (2, 5 :: int)]"]
  show ?thesis by simp
qed

text \<open>
  \<open>topsort\<close> returns exactly when the pairs are acyclic; in every other case it raises.
\<close>
theorem topsort_total:
  assumes "\<And>xs. mset (key_order xs) = mset xs"
  shows "(\<exists>answer. topsort key_order pairs = Inr answer) \<longleftrightarrow> acyclic (set pairs)"
  using topsort_result [OF assms, of pairs] by (auto split: sum.splits topsort_error.splits)

lemma topsort_cycle_example:
  "topsort id [(1, 2), (2, 3), (3, 2 :: int)] = Inl (CycleError [1] [(2, 1), (3, 1)] [(2, [3]), (3, [2])])"
  by code_simp

theorem topsort_total_witness: "\<not> acyclic (set [(1, 2), (2, 3), (3, 2 :: int)])"
proof -
  have "\<not> (\<exists>answer. topsort id [(1, 2), (2, 3), (3, 2 :: int)] = Inr answer)"
    by (simp add: topsort_cycle_example)
  with topsort_total [of id "[(1, 2), (2, 3), (3, 2 :: int)]"] show ?thesis by simp
qed

subsection \<open>Levels\<close>

lemma take_level_counts:
  assumes "counts_ok pairs S np ch" and "distinct ps" and "\<And>p. p \<in> set ps \<Longrightarrow> map_of np p = Some 0"
    and "parents_in pairs S"
  shows "\<exists>np' ch'. take_level ps np ch = Inr (np', ch') \<and> counts_ok pairs (S \<union> set ps) np' ch'"
  using assms
proof (induction ps arbitrary: S np ch)
  case (Cons p ps)
  have p0: "map_of np p = Some 0" using Cons.prems(3) by simp
  note prem = Cons.prems(1) p0 Cons.prems(4)
  have k: "has_key np p" using p0 by (simp add: has_key_def)
  have cl: "parents_in pairs (insert p S)"
    using taken_item(3) [OF prem] Cons.prems(4) by (auto simp: parents_in_def)
  have ih: "\<exists>np'' ch''. take_level ps np' ch' = Inr (np'', ch'') \<and> counts_ok pairs (S \<union> set (p # ps)) np'' ch''"
    if "counts_ok pairs (insert p S) np' ch'" "\<And>q. q \<in> set ps \<Longrightarrow> map_of np' q = Some 0" for np' ch'
    using Cons.IH [OF that(1) _ _ cl] that(2) Cons.prems(2) by simp
  show ?case
  proof (cases "map_of ch p")
    case None
    have "\<exists>np'' ch''. take_level ps (AList.delete p np) ch = Inr (np'', ch'')
        \<and> counts_ok pairs (S \<union> set (p # ps)) np'' ch''"
      by (rule ih [OF take_leaf [OF prem None]]) (use Cons.prems(2,3) in auto)
    with None k show ?thesis by simp
  next
    case (Some cs)
    from take_parent [OF prem Some, of "[]"] obtain np' new where
      kd: "knock_down cs (AList.delete p np) [] = Inr (np', [] @ new)"
      and co: "counts_ok pairs (insert p S) np' (AList.delete p ch)"
      and pos: "\<And>x. x \<in> set cs \<Longrightarrow> map_of np x \<noteq> Some 0"
      and same: "\<And>x. x \<notin> set cs \<Longrightarrow> x \<noteq> p \<Longrightarrow> map_of np' x = map_of np x" by metis
    have "map_of np' q = Some 0" if "q \<in> set ps" for q
      using Cons.prems(2,3) that pos [of q] same [of q] by auto
    from ih [OF co this] Some k kd show ?thesis by simp
  qed
qed simp

text \<open>
  The next level after the items \<open>S\<close>: the items not in \<open>S\<close> whose parents all are.  A list of levels
  holds each of them in turn, every item once.
\<close>

definition next_level :: "('a \<times> 'a) list \<Rightarrow> 'a set \<Rightarrow> 'a set" where
  "next_level pairs S = {x \<in> nodes pairs - S. \<forall>p. (p, x) \<in> set pairs \<longrightarrow> p \<in> S}"

fun levels_from :: "('a \<times> 'a) list \<Rightarrow> 'a set \<Rightarrow> 'a list list \<Rightarrow> bool" where
  "levels_from pairs S [] \<longleftrightarrow> True"
| "levels_from pairs S (l # ls) \<longleftrightarrow>
     l \<noteq> [] \<and> distinct l \<and> set l = next_level pairs S \<and> levels_from pairs (S \<union> set l) ls"

text \<open>
  What the generator yields from the items \<open>S\<close> on: levels after which there is no further one, and
  then its end or the error, which carries the counts and the children of the items left.
\<close>

definition levels_result ::
    "('a \<times> 'a) list \<Rightarrow> 'a set \<Rightarrow> 'a list list \<times> 'a topsort_error option \<Rightarrow> bool" where
  "levels_result pairs S r \<longleftrightarrow>
     (let seen = S \<union> set (concat (fst r)) in
      levels_from pairs S (fst r) \<and> next_level pairs seen = {}
      \<and> (case snd r of
           None \<Rightarrow> seen = nodes pairs \<and> acyclic (set pairs)
         | Some (CycleError _ np ch) \<Rightarrow>
             seen \<subset> nodes pairs \<and> \<not> acyclic (set pairs) \<and> counts_ok pairs seen np ch
         | Some (MissingKey _) \<Rightarrow> False))"

lemma levels_result_Cons:
  "levels_result pairs S (l # ls, end) \<longleftrightarrow>
     l \<noteq> [] \<and> distinct l \<and> set l = next_level pairs S \<and> levels_result pairs (S \<union> set l) (ls, end)"
  by (simp add: levels_result_def Let_def Un_assoc)

lemma next_level_none:
  assumes "counts_ok pairs S np ch" and "\<And>x. map_of np x \<noteq> Some 0"
  shows "next_level pairs S = {}"
proof -
  have "indeg pairs S x \<noteq> 0" if "x \<in> nodes pairs - S" for x
    using assms(1) assms(2) [of x] that by (auto simp: counts_ok_def)
  then show ?thesis unfolding indeg_zero by (auto simp: next_level_def)
qed

lemma levels_result_end:
  assumes co: "counts_ok pairs (set xs) np ch" and o: "ordered pairs xs" "distinct xs" "set xs \<subseteq> nodes pairs"
    and none: "\<And>x. map_of np x \<noteq> Some 0"
  shows "levels_result pairs (set xs) ([], if np \<noteq> [] then Some (CycleError [] np ch) else None)"
proof (cases "np = []")
  case True
  have "x \<in> set xs" if "x \<in> nodes pairs" for x
    using co that True unfolding counts_ok_def by (auto split: if_splits dest!: spec [of _ x])
  then have "nodes pairs = set xs" using o(3) by blast
  with ordered_acyclic [OF o(1)] o(2) True show ?thesis
    using next_level_none [OF co none] by (simp add: levels_result_def)
next
  case False
  then obtain x where "map_of np x \<noteq> None" by (cases np) force+
  with co have "x \<in> nodes pairs - set xs" by (auto simp: counts_ok_def split: if_splits)
  with o(3) have "set xs \<subset> nodes pairs" by blast
  with stuck_counts [OF co none False] next_level_none [OF co none] co False show ?thesis
    by (simp add: levels_result_def)
qed

lemma topsort_levels_core_result:
  assumes ko: "\<And>xs. mset (key_order xs) = mset xs"
  shows "counts_ok pairs (set xs) np ch \<Longrightarrow> ordered pairs xs \<Longrightarrow> distinct xs \<Longrightarrow> set xs \<subseteq> nodes pairs
    \<Longrightarrow> levels_result pairs (set xs) (topsort_levels_core key_order np ch)"
  using ko
proof (induction key_order np ch arbitrary: xs rule: topsort_levels_core.induct)
  case (1 key_order np ch)
  let ?l = "parentless key_order np"
  note co = "1.prems"(1) and ko = "1.prems"(5)
  note ps = parentless_spec [OF ko co]
  show ?case
  proof (cases "?l = []")
    case True
    then have "map_of np x \<noteq> Some 0" for x using ps(3) [of x] by simp
    then show ?thesis
      using levels_result_end [OF co "1.prems"(2,3,4)] True by (subst topsort_levels_core.simps) simp
  next
    case False
    have o: "ordered pairs (xs @ ?l)" using parentless_ordered [OF ko co "1.prems"(2)] .
    have d: "distinct (xs @ ?l)" "set (xs @ ?l) \<subseteq> nodes pairs"
      using "1.prems"(3,4) ps(1,2) by auto
    obtain np' ch' where tl: "take_level ?l np ch = Inr (np', ch')" and co': "counts_ok pairs (set (xs @ ?l)) np' ch'"
      using take_level_counts [OF co ps(1) _ ordered_closed [of pairs xs "[]"]] ps(3) "1.prems"(2) by auto
    have "levels_result pairs (set (xs @ ?l)) (topsort_levels_core key_order np' ch')"
      by (rule "1.IH" [OF refl False tl refl co' o d ko])
    moreover have "set ?l = next_level pairs (set xs)" using ps(2) by (simp add: next_level_def)
    ultimately show ?thesis
      using False ps(1) tl
      by (subst topsort_levels_core.simps) (simp add: levels_result_Cons case_prod_beta)
  qed
qed

text \<open>
  C7: \<open>topsort_levels\<close> yields exactly the levels of the graph in order: each holds, once, every
  item whose parents are all in earlier levels, and when it stops there is no further level.  If the
  pairs are acyclic the levels cover all items and the generator ends; otherwise they do not, and it
  raises \<open>CycleError\<close> after the last level, with the number of parents left and the children of
  each item left.  The order of a dictionary's keys is any order.
\<close>
theorem topsort_levels_correct:
  assumes "\<And>xs. mset (key_order xs) = mset xs"
  shows "levels_result pairs {} (topsort_levels key_order pairs)"
proof -
  obtain np ch where np: "count_parents pairs = (np, ch)" by (cases "count_parents pairs")
  then have "counts_ok pairs (set []) np ch" using count_parents_counts [of pairs] by simp
  from topsort_levels_core_result [OF assms this] show ?thesis
    by (simp add: topsort_levels_def np ordered_def)
qed

theorem topsort_levels_correct_witness:
  "levels_result [(1, 2), (2, 3), (3, 4), (4, 3 :: int)] {}
     (topsort_levels id [(1, 2), (2, 3), (3, 4), (4, 3 :: int)])
   \<and> fst (topsort_levels id [(1, 2), (2, 3), (3, 4), (4, 3 :: int)]) = [[1], [2]]"
proof
  show "levels_result [(1, 2), (2, 3), (3, 4), (4, 3 :: int)] {}
     (topsort_levels id [(1, 2), (2, 3), (3, 4), (4, 3 :: int)])"
    by (rule topsort_levels_correct) simp
  show "fst (topsort_levels id [(1, 2), (2, 3), (3, 4), (4, 3 :: int)]) = [[1], [2]]"
    by code_simp
qed

section \<open>Enumerating cycles\<close>

text \<open>
  \<open>find_cycles\<close> yields the cycles it appends to \<open>cycles\<close>, so its result is the final list.
  The rotation test of \<open>rad_util\<close> is the argument \<open>rot\<close>; the stack \<open>paths\<close> has its top at the head.
\<close>

fun seen_rotation :: "('a list \<Rightarrow> 'a list \<Rightarrow> bool res) \<Rightarrow> 'a list list \<Rightarrow> 'a list \<Rightarrow> bool res" where
  "seen_rotation rot [] cycle = Inr False"
| "seen_rotation rot (other_cycle # cycles) cycle =
     res_bind (rot other_cycle cycle) (\<lambda>dup. if dup then Inr True else seen_rotation rot cycles cycle)"

fun visit_children ::
    "('a list \<Rightarrow> 'a list \<Rightarrow> bool res) \<Rightarrow> 'a list \<Rightarrow> 'a list
       \<Rightarrow> 'a list list \<times> 'a list list \<times> 'a list \<Rightarrow> ('a list list \<times> 'a list list \<times> 'a list) res" where
  "visit_children rot path [] st = Inr st"
| "visit_children rot path (child # children) (cycles, paths, visited_nodes) =
     (if child \<in> set path then
        let cycle = dropWhile (\<lambda>x. x \<noteq> child) path
        in res_bind (seen_rotation rot cycles cycle) (\<lambda>is_dup.
             visit_children rot path children
               (if is_dup then cycles else cycles @ [cycle], paths, visited_nodes))
      else
        visit_children rot path children (cycles, (path @ [child]) # paths, List.insert child visited_nodes))"

lemma visit_children_paths:
  "visit_children rot path children (cycles, paths, visited_nodes) = Inr (cycles', paths', visited') \<Longrightarrow>
     \<exists>new. paths' = new @ paths \<and> set new \<subseteq> {path @ [c] | c. c \<in> set children \<and> c \<notin> set path}"
proof (induction children arbitrary: cycles paths visited_nodes)
  case (Cons c cs)
  show ?case
  proof (cases "c \<in> set path")
    case True
    with Cons show ?thesis by (fastforce simp: res_bind_eq_Inr Let_def)
  next
    case False
    with Cons.prems have "visit_children rot path cs (cycles, (path @ [c]) # paths, List.insert c visited_nodes)
        = Inr (cycles', paths', visited')" by simp
    from Cons.IH [OF this] obtain new where "paths' = (new @ [path @ [c]]) @ paths"
      "set new \<subseteq> {path @ [c] | c. c \<in> set cs \<and> c \<notin> set path}" by auto
    with False show ?thesis by (intro exI [of _ "new @ [path @ [c]]"]) auto
  qed
qed simp

definition child_set :: "('a, 'a list) dict \<Rightarrow> 'a set" where
  "child_set d = (\<Union>cs \<in> snd ` set d. set cs)"

lemma finite_child_set [simp]: "finite (child_set d)"
  by (auto simp: child_set_def)

lemma path_extension_less:
  assumes "c \<in> child_set d" and "c \<notin> set path"
  shows "card (child_set d - set (path @ [c])) < card (child_set d - set path)"
  using assms by (intro psubset_card_mono) auto

function search_paths ::
    "('a list \<Rightarrow> 'a list \<Rightarrow> bool res) \<Rightarrow> ('a, 'a list) dict \<Rightarrow> 'a list list
       \<Rightarrow> 'a list list \<Rightarrow> 'a list \<Rightarrow> ('a list list \<times> 'a list) res" where
  "search_paths rot parent_children [] cycles visited_nodes = Inr (cycles, visited_nodes)"
| "search_paths rot parent_children (path # paths) cycles visited_nodes =
     (case map_of parent_children (last path) of
        None \<Rightarrow> search_paths rot parent_children paths cycles visited_nodes
      | Some children \<Rightarrow>
          (case visit_children rot path children (cycles, paths, visited_nodes) of
             Inl e \<Rightarrow> Inl e
           | Inr (cycles', paths', visited') \<Rightarrow> search_paths rot parent_children paths' cycles' visited'))"
  by pat_completeness auto
termination
proof (relation "inv_image (mult less_than)
    (\<lambda>(rot, d, paths, cycles, vis). image_mset (\<lambda>p. card (child_set d - set p)) (mset paths))", goal_cases)
  case 1
  then show ?case by (simp add: wf_mult)
next
  case (2 rot d path paths cycles vis)
  have "(K, add_mset x K) \<in> mult less_than" for x :: nat and K
    using one_step_implies_mult [of "{#x#}" "{#}" less_than K] by simp
  then show ?case by simp
next
  case (3 rot d path paths cycles vis children r c' y p v')
  have "visit_children rot path children (cycles, paths, vis) = Inr (c', p, v')"
    using 3(2) unfolding 3(3,4) [symmetric] .
  from visit_children_paths [OF this] obtain new where new: "p = new @ paths"
    "set new \<subseteq> {path @ [c] | c. c \<in> set children \<and> c \<notin> set path}" by blast
  have "set children \<subseteq> child_set d"
    using 3(1) by (force simp: child_set_def dest: map_of_SomeD)
  note cs = this
  have "card (child_set d - set q) < card (child_set d - set path)" if "q \<in> set new" for q
  proof -
    from new(2) that obtain c where "q = path @ [c]" "c \<in> set children" "c \<notin> set path" by blast
    with cs path_extension_less [of c d path] show ?thesis by blast
  qed
  then show ?case
    using one_step_implies_mult [of "{#card (child_set d - set path)#}"
        "image_mset (\<lambda>p. card (child_set d - set p)) (mset new)" less_than
        "image_mset (\<lambda>p. card (child_set d - set p)) (mset paths)"]
    by (simp add: new(1) add.commute)
qed

fun find_from ::
    "('a list \<Rightarrow> 'a list \<Rightarrow> bool res) \<Rightarrow> ('a, 'a list) dict \<Rightarrow> 'a list
       \<Rightarrow> 'a list list \<Rightarrow> 'a list \<Rightarrow> ('a list list) res" where
  "find_from rot parent_children [] cycles visited_nodes = Inr cycles"
| "find_from rot parent_children (parent # parents) cycles visited_nodes =
     (if parent \<in> set visited_nodes then find_from rot parent_children parents cycles visited_nodes
      else res_bind (search_paths rot parent_children [[parent]] cycles visited_nodes)
             (\<lambda>(cycles', visited'). find_from rot parent_children parents cycles' visited'))"

definition find_cycles :: "('a, 'a list) dict \<Rightarrow> ('a list list) res" where
  "find_cycles parent_children =
     find_from is_rotated parent_children (map fst parent_children) [] []"


text \<open>
  What the enumeration promises.  A simple path runs along edges and repeats no node; a simple
  cycle is a simple path whose last node is a parent of its first.
\<close>

definition edges :: "('a, 'a list) dict \<Rightarrow> ('a \<times> 'a) set" where
  "edges d = {(p, c). \<exists>cs. map_of d p = Some cs \<and> c \<in> set cs}"

definition simple_path :: "('a, 'a list) dict \<Rightarrow> 'a list \<Rightarrow> bool" where
  "simple_path d xs \<longleftrightarrow> xs \<noteq> [] \<and> distinct xs \<and> successively (\<lambda>a b. (a, b) \<in> edges d) xs"

definition simple_cycle :: "('a, 'a list) dict \<Rightarrow> 'a list \<Rightarrow> bool" where
  "simple_cycle d xs \<longleftrightarrow> simple_path d xs \<and> (last xs, hd xs) \<in> edges d"

definition found :: "'a list list \<Rightarrow> 'a list \<Rightarrow> bool" where
  "found cycles c \<longleftrightarrow> (\<exists>c' \<in> set cycles. \<exists>n. c = rotate n c')"

definition no_rotations :: "'a list list \<Rightarrow> bool" where
  "no_rotations cycles \<longleftrightarrow> sorted_wrt (\<lambda>a b. \<forall>n. b \<noteq> rotate n a) cycles"

lemma simple_path_snoc:
  "simple_path d xs \<Longrightarrow> (last xs, c) \<in> edges d \<Longrightarrow> c \<notin> set xs \<Longrightarrow> simple_path d (xs @ [c])"
  by (simp add: simple_path_def successively_append_iff)

lemma simple_cycle_of_path:
  assumes "simple_path d xs" and "(last xs, c) \<in> edges d" and "c \<in> set xs"
  shows "simple_cycle d (dropWhile (\<lambda>x. x \<noteq> c) xs)"
proof -
  obtain as bs where xs: "xs = as @ c # bs" "c \<notin> set as"
    using split_list_first [OF assms(3)] by blast
  have "dropWhile (\<lambda>x. x \<noteq> c) (as @ c # bs) = c # bs"
    using xs(2) by (subst dropWhile_append2) auto
  with assms xs(1) show ?thesis
    by (auto simp: simple_cycle_def simple_path_def successively_append_iff)
qed

lemma found_mono: "found cycles c \<Longrightarrow> set cycles \<subseteq> set cycles' \<Longrightarrow> found cycles' c"
  by (auto simp: found_def)

text \<open>The cycles that a path gives, recorded one child after the other unless a rotation is known.\<close>

definition record_cycle :: "'a list \<Rightarrow> 'a list list \<Rightarrow> 'a \<Rightarrow> 'a list list" where
  "record_cycle path cycles c =
     (let cycle = dropWhile (\<lambda>x. x \<noteq> c) path in if found cycles cycle then cycles else cycles @ [cycle])"

lemma record_cycle_found: "found (record_cycle path cycles c) (dropWhile (\<lambda>x. x \<noteq> c) path)"
  by (auto simp: record_cycle_def Let_def found_def intro: exI [of _ 0])

lemma record_cycle_no_rotations: "no_rotations cycles \<Longrightarrow> no_rotations (record_cycle path cycles c)"
  by (auto simp: record_cycle_def Let_def no_rotations_def sorted_wrt_append found_def)

lemma record_cycle_set:
  "set cycles \<subseteq> set (record_cycle path cycles c)"
  "set (record_cycle path cycles c) \<subseteq> insert (dropWhile (\<lambda>x. x \<noteq> c) path) (set cycles)"
  by (auto simp: record_cycle_def Let_def)

lemma record_cycles_set:
  "set cycles \<subseteq> set (foldl (record_cycle path) cycles cs)"
  "set (foldl (record_cycle path) cycles cs) \<subseteq> set cycles \<union> (\<lambda>c. dropWhile (\<lambda>x. x \<noteq> c) path) ` set cs"
proof (induction cs arbitrary: cycles)
  case (Cons c cs)
  {
    case 1
    show ?case using Cons.IH(1) [of "record_cycle path cycles c"] record_cycle_set(1) [of cycles path c] by auto
  next
    case 2
    show ?case using Cons.IH(2) [of "record_cycle path cycles c"] record_cycle_set(2) [of path cycles c] by auto
  }
qed simp_all

lemma record_cycles_found:
  "c \<in> set cs \<Longrightarrow> found (foldl (record_cycle path) cycles cs) (dropWhile (\<lambda>x. x \<noteq> c) path)"
proof (induction cs arbitrary: cycles)
  case (Cons a cs)
  show ?case
  proof (cases "c = a")
    case True
    then show ?thesis
      using found_mono [OF record_cycle_found record_cycles_set(1)] by simp
  qed (use Cons in simp)
qed simp

lemma record_cycles_no_rotations:
  "no_rotations cycles \<Longrightarrow> no_rotations (foldl (record_cycle path) cycles cs)"
  by (induction cs arbitrary: cycles) (auto intro: record_cycle_no_rotations)

text \<open>The interface to \<open>rad_util\<close>: the rotation test decides rotation for a non-empty second list.\<close>

locale rotation_test =
  fixes rot :: "'a list \<Rightarrow> 'a list \<Rightarrow> bool res"
  assumes rot_iff: "ys \<noteq> [] \<Longrightarrow> rot xs ys = Inr (\<exists>n. ys = rotate n xs)"
begin

lemma seen_rotation_iff: "c \<noteq> [] \<Longrightarrow> seen_rotation rot cycles c = Inr (found cycles c)"
  by (induction cycles) (auto simp: rot_iff found_def)


lemma visit_children_eq:
  "visit_children rot path children (cycles, paths, visited) =
     Inr (foldl (record_cycle path) cycles (filter (\<lambda>c. c \<in> set path) children),
          rev (map (\<lambda>c. path @ [c]) (filter (\<lambda>c. c \<notin> set path) children)) @ paths,
          foldl (\<lambda>v c. List.insert c v) visited (filter (\<lambda>c. c \<notin> set path) children))"
proof (induction children arbitrary: cycles paths visited)
  case (Cons c cs)
  have "c \<in> set path \<Longrightarrow> dropWhile (\<lambda>x. x \<noteq> c) path \<noteq> []" by simp
  then show ?case by (auto simp: Cons.IH seen_rotation_iff record_cycle_def Let_def)
qed simp

end

lemma set_foldl_insert: "set (foldl (\<lambda>v c. List.insert c v) vs cs) = set vs \<union> set cs"
  by (induction cs arbitrary: vs) auto

text \<open>
  What a search of the paths on the stack adds: every simple path that extends one of them has
  been followed, so every cycle such a path closes is found.
\<close>

definition closes :: "('a, 'a list) dict \<Rightarrow> 'a list \<Rightarrow> 'a list \<Rightarrow> bool" where
  "closes d path c \<longleftrightarrow> (\<exists>ext v. simple_path d (path @ ext) \<and> (last (path @ ext), v) \<in> edges d
      \<and> v \<in> set (path @ ext) \<and> c = dropWhile (\<lambda>x. x \<noteq> v) (path @ ext))"

definition search_ok ::
    "('a, 'a list) dict \<Rightarrow> 'a list list \<Rightarrow> 'a list list \<Rightarrow> 'a list \<Rightarrow> 'a list list \<Rightarrow> 'a list \<Rightarrow> bool" where
  "search_ok d paths cycles visited cycles' visited' \<longleftrightarrow>
     set cycles \<subseteq> set cycles'
     \<and> (\<forall>c \<in> set cycles'. c \<in> set cycles \<or> simple_cycle d c)
     \<and> (no_rotations cycles \<longrightarrow> no_rotations cycles')
     \<and> (\<forall>path \<in> set paths. \<forall>c. closes d path c \<longrightarrow> found cycles' c)
     \<and> set visited \<subseteq> set visited'
     \<and> (\<forall>x \<in> set visited'. x \<in> set visited \<or> (\<exists>path \<in> set paths. (last path, x) \<in> (edges d)\<^sup>+))"

lemma closes_cases:
  assumes "closes d path c" and "path \<noteq> []"
  shows "(\<exists>v. (last path, v) \<in> edges d \<and> v \<in> set path \<and> c = dropWhile (\<lambda>x. x \<noteq> v) path)
    \<or> (\<exists>v. (last path, v) \<in> edges d \<and> v \<notin> set path \<and> closes d (path @ [v]) c)"
proof -
  from assms(1) obtain ext v where e: "simple_path d (path @ ext)" "(last (path @ ext), v) \<in> edges d"
    "v \<in> set (path @ ext)" "c = dropWhile (\<lambda>x. x \<noteq> v) (path @ ext)" by (auto simp: closes_def)
  show ?thesis
  proof (cases ext)
    case Nil
    with e show ?thesis by auto
  next
    case (Cons w ws)
    with e(1) assms(2) have "(last path, w) \<in> edges d" "w \<notin> set path"
      by (auto simp: simple_path_def successively_append_iff)
    moreover have "closes d (path @ [w]) c" using e Cons by (auto simp: closes_def intro!: exI [of _ ws])
    ultimately show ?thesis by blast
  qed
qed

lemma search_ok_step:
  assumes sp: "simple_path d path" and cs: "map_of d (last path) = Some cs"
    and ok: "search_ok d
      (rev (map (\<lambda>c. path @ [c]) (filter (\<lambda>c. c \<notin> set path) cs)) @ paths)
      (foldl (record_cycle path) cycles (filter (\<lambda>c. c \<in> set path) cs))
      (foldl (\<lambda>v c. List.insert c v) visited (filter (\<lambda>c. c \<notin> set path) cs)) cycles' visited'"
  shows "search_ok d (path # paths) cycles visited cycles' visited'"
  unfolding search_ok_def
proof (intro conjI ballI allI impI)
  let ?c = "foldl (record_cycle path) cycles (filter (\<lambda>c. c \<in> set path) cs)"
  have ed: "(last path, v) \<in> edges d \<longleftrightarrow> v \<in> set cs" for v using cs by (simp add: edges_def)
  have ne: "path \<noteq> []" using sp by (simp add: simple_path_def)
  note rs = record_cycles_set [where cycles = cycles and path = path and cs = "filter (\<lambda>c. c \<in> set path) cs"]
  have sub: "set ?c \<subseteq> set cycles'" using ok by (simp add: search_ok_def)
  show "set cycles \<subseteq> set cycles'" using rs(1) sub by blast
  show "c \<in> set cycles \<or> simple_cycle d c" if "c \<in> set cycles'" for c
  proof -
    have "c \<in> set ?c \<or> simple_cycle d c" using ok that by (simp add: search_ok_def)
    moreover have "simple_cycle d c" if "c \<in> set ?c" "c \<notin> set cycles"
      using rs(2) that ed simple_cycle_of_path [OF sp] by auto
    ultimately show ?thesis by blast
  qed
  show "no_rotations cycles'" if "no_rotations cycles"
    using ok record_cycles_no_rotations [OF that] by (simp add: search_ok_def)
  show "found cycles' c" if "p \<in> set (path # paths)" "closes d p c" for p c
  proof (cases "p = path")
    case True
    from closes_cases [OF _ ne] that(2) True consider
      v where "v \<in> set cs" "v \<in> set path" "c = dropWhile (\<lambda>x. x \<noteq> v) path"
    | v where "v \<in> set cs" "v \<notin> set path" "closes d (path @ [v]) c" using ed by blast
    then show ?thesis
    proof cases
      case 1
      then show ?thesis using record_cycles_found [THEN found_mono, OF _ sub] by simp
    next
      case 2
      then have "path @ [v] \<in> set (rev (map (\<lambda>c. path @ [c]) (filter (\<lambda>c. c \<notin> set path) cs)) @ paths)"
        by auto
      with 2(3) ok show ?thesis unfolding search_ok_def by blast
    qed
  next
    case False
    with that ok show ?thesis by (auto simp: search_ok_def)
  qed
  show "set visited \<subseteq> set visited'" using ok by (simp add: search_ok_def set_foldl_insert)
  show "x \<in> set visited \<or> (\<exists>p \<in> set (path # paths). (last p, x) \<in> (edges d)\<^sup>+)" if "x \<in> set visited'" for x
  proof -
    have "x \<in> set visited \<or> x \<in> set cs
        \<or> (\<exists>p \<in> set (rev (map (\<lambda>c. path @ [c]) (filter (\<lambda>c. c \<notin> set path) cs)) @ paths). (last p, x) \<in> (edges d)\<^sup>+)"
      using ok that unfolding search_ok_def set_foldl_insert by auto
    moreover have "(last path, x) \<in> (edges d)\<^sup>+" if "x \<in> set cs" for x using that ed by auto
    moreover have "(last path, x) \<in> (edges d)\<^sup>+" if "c \<in> set cs" "(c, x) \<in> (edges d)\<^sup>+" for c
      using that ed by (meson trancl_into_trancl2)
    ultimately show ?thesis by auto
  qed
qed

context rotation_test
begin

lemma search_paths_ok:
  assumes "\<forall>path \<in> set paths. simple_path d path"
  shows "\<exists>cycles' visited'. search_paths rot d paths cycles visited = Inr (cycles', visited')
    \<and> search_ok d paths cycles visited cycles' visited'"
  using assms
proof (induction r \<equiv> rot d paths cycles visited rule: search_paths.induct)
  case (1 d cycles visited)
  then show ?case by (simp add: search_ok_def)
next
  case (2 d path paths cycles visited)
  have sp: "simple_path d path" "path \<noteq> []" "\<forall>p \<in> set paths. simple_path d p"
    using "2.prems" by (auto simp: simple_path_def)
  show ?case
  proof (cases "map_of d (last path)")
    case None
    then have "\<not> closes d path c" for c
      using closes_cases [OF _ sp(2), of d c] by (auto simp: edges_def)
    with 2(1) [OF None sp(3)] None show ?thesis by (fastforce simp: search_ok_def)
  next
    case (Some cs)
    then have ed: "(last path, v) \<in> edges d \<longleftrightarrow> v \<in> set cs" for v by (simp add: edges_def)
    let ?c = "foldl (record_cycle path) cycles (filter (\<lambda>c. c \<in> set path) cs)"
    let ?p = "rev (map (\<lambda>c. path @ [c]) (filter (\<lambda>c. c \<notin> set path) cs)) @ paths"
    let ?v = "foldl (\<lambda>v c. List.insert c v) visited (filter (\<lambda>c. c \<notin> set path) cs)"
    note vc = visit_children_eq [of path cs cycles paths visited]
    have "\<forall>p \<in> set ?p. simple_path d p"
      using sp ed by (auto intro: simple_path_snoc)
    from 2(2) [OF Some vc refl refl this] obtain cycles' visited' where r:
      "search_paths rot d ?p ?c ?v = Inr (cycles', visited')" "search_ok d ?p ?c ?v cycles' visited'"
      by blast
    have "search_ok d (path # paths) cycles visited cycles' visited'"
      by (rule search_ok_step [OF sp(1) Some r(2)])
    with r(1) Some vc show ?thesis by simp
  qed
qed

end


text \<open>Every simple cycle that a root reaches is closed, up to rotation, by a simple path from that root.\<close>

lemma simple_cycle_rotate: "simple_cycle d (as @ bs) \<Longrightarrow> simple_cycle d (bs @ as)"
  by (cases "as = []"; cases "bs = []")
     (auto simp: simple_cycle_def simple_path_def successively_append_iff)

lemma simple_path_suffix: "simple_path d (as @ x # bs) \<Longrightarrow> simple_path d (x # bs)"
  by (auto simp: simple_path_def successively_append_iff)

lemma path_to_first:
  assumes "(q, x) \<in> (edges d)\<^sup>*" and "x \<in> S"
  shows "\<exists>p. simple_path d p \<and> hd p = q \<and> last p \<in> S \<and> set (butlast p) \<inter> S = {}"
  using assms
proof (induction rule: converse_rtrancl_induct)
  case base
  then show ?case by (intro exI [of _ "[x]"]) (simp add: simple_path_def)
next
  case (step q y)
  then obtain p where p: "simple_path d p" "hd p = y" "last p \<in> S" "set (butlast p) \<inter> S = {}" by blast
  have ne: "p \<noteq> []" using p(1) by (simp add: simple_path_def)
  consider "q \<in> S" | "q \<notin> S" "q \<in> set p" | "q \<notin> S" "q \<notin> set p" by blast
  then show ?case
  proof cases
    case 1
    then show ?thesis by (intro exI [of _ "[q]"]) (simp add: simple_path_def)
  next
    case 2
    then obtain as bs where s: "p = as @ q # bs" by (meson split_list)
    with p show ?thesis
      by (intro exI [of _ "q # bs"]) (auto dest: simple_path_suffix simp: butlast_append split: if_splits)
  next
    case 3
    with p ne step.hyps(1) show ?thesis
      by (intro exI [of _ "q # p"]) (auto simp: simple_path_def successively_Cons)
  qed
qed

lemma cycle_closed_from:
  assumes c: "simple_cycle d c" and r: "(q, x) \<in> (edges d)\<^sup>*" "x \<in> set c"
  shows "\<exists>c' n. closes d [q] c' \<and> c = rotate n c'"
proof -
  obtain p where p: "simple_path d p" "hd p = q" "last p \<in> set c" "set (butlast p) \<inter> set c = {}"
    using path_to_first [OF r] by blast
  let ?v = "last p"
  obtain as bs where s: "c = as @ ?v # bs" using p(3) by (meson split_list)
  let ?c = "?v # bs @ as" and ?b = "butlast p"
  have ne: "p \<noteq> []" using p(1) by (simp add: simple_path_def)
  have pe: "p = ?b @ [?v]" using ne by simp
  have sc: "simple_cycle d ?c" using simple_cycle_rotate [of d as "?v # bs"] c s by simp
  have "successively (\<lambda>a b. (a, b) \<in> edges d) (?b @ [?v])" "distinct (?b @ [?v])"
    using p(1) ne unfolding simple_path_def by simp_all
  moreover have "set ?b \<inter> set ?c = {}" using p(4) s by (metis Un_commute set_append append.assoc append_Cons)
  ultimately have sp: "simple_path d (?b @ ?c)" and nv: "?v \<notin> set ?b"
    using sc by (auto simp: simple_path_def simple_cycle_def successively_append_iff)
  have dw: "dropWhile (\<lambda>x. x \<noteq> ?v) (?b @ ?c) = ?c"
    using nv by (subst dropWhile_append2) auto
  have q: "[q] @ tl (?b @ ?c) = ?b @ ?c"
    using p(2) ne by (cases p) auto
  have e: "(last ([q] @ tl (?b @ ?c)), ?v) \<in> edges d" unfolding q using sc by (simp add: simple_cycle_def)
  have "closes d [q] ?c"
    unfolding closes_def using sp e dw unfolding q
    by (intro exI [of _ "tl (?b @ ?c)"] exI [of _ ?v]) (simp only: q, simp)
  moreover have "c = rotate (length (?v # bs)) ?c" using s rotate_append [of "?v # bs" as] by simp
  ultimately show ?thesis by blast
qed

lemma found_rotate: "found cycles c \<Longrightarrow> found cycles (rotate n c)"
  unfolding found_def by (metis rotate_rotate)

definition covered :: "('a, 'a list) dict \<Rightarrow> 'a list list \<Rightarrow> 'a \<Rightarrow> bool" where
  "covered d cycles x \<longleftrightarrow> (\<exists>q. (q, x) \<in> (edges d)\<^sup>* \<and> (\<forall>c. closes d [q] c \<longrightarrow> found cycles c))"

lemma covered_mono: "covered d cycles x \<Longrightarrow> set cycles \<subseteq> set cycles' \<Longrightarrow> covered d cycles' x"
  unfolding covered_def using found_mono by metis

lemma covered_cycle: "covered d cycles (hd c) \<Longrightarrow> simple_cycle d c \<Longrightarrow> found cycles c"
proof -
  assume "covered d cycles (hd c)" and c: "simple_cycle d c"
  then obtain q where q: "(q, hd c) \<in> (edges d)\<^sup>*" "\<And>c. closes d [q] c \<Longrightarrow> found cycles c"
    by (auto simp: covered_def)
  have "hd c \<in> set c" using c by (simp add: simple_cycle_def simple_path_def)
  from cycle_closed_from [OF c q(1) this] q(2) found_rotate show ?thesis by metis
qed

lemma search_ok_covered:
  assumes "search_ok d [[p]] cycles visited cycles' visited'" and "\<forall>x \<in> set visited. covered d cycles x"
  shows "\<forall>x \<in> insert p (set visited'). covered d cycles' x"
proof -
  have p: "(p, x) \<in> (edges d)\<^sup>* \<Longrightarrow> covered d cycles' x" for x
    using assms(1) by (auto simp: search_ok_def covered_def)
  have "covered d cycles' x" if "x \<in> set visited'" for x
  proof -
    have "x \<in> set visited \<or> (p, x) \<in> (edges d)\<^sup>+" and sub: "set cycles \<subseteq> set cycles'"
      using assms(1) that by (simp_all add: search_ok_def)
    then show ?thesis
      using p [of x] assms(2) covered_mono [OF _ sub, of d x] by (auto dest: trancl_into_rtrancl)
  qed
  with p [of p] show ?thesis by simp
qed

context rotation_test
begin

lemma find_from_ok:
  assumes "\<forall>c \<in> set cycles. simple_cycle d c" and "no_rotations cycles"
    and "\<forall>x \<in> set visited. covered d cycles x"
  shows "\<exists>cycles'. find_from rot d parents cycles visited = Inr cycles'
    \<and> set cycles \<subseteq> set cycles' \<and> (\<forall>c \<in> set cycles'. simple_cycle d c) \<and> no_rotations cycles'
    \<and> (\<forall>p \<in> set parents. covered d cycles' p)"
  using assms
proof (induction parents arbitrary: cycles visited)
  case (Cons p ps)
  show ?case
  proof (cases "p \<in> set visited")
    case True
    with Cons.IH [OF Cons.prems] Cons.prems(3) covered_mono show ?thesis
      by (smt (verit) find_from.simps(2) set_ConsD)
  next
    case False
    obtain cs vs where s: "search_paths rot d [[p]] cycles visited = Inr (cs, vs)"
      and ok: "search_ok d [[p]] cycles visited cs vs"
      using search_paths_ok [of "[[p]]" d cycles visited] by (auto simp: simple_path_def)
    have c: "\<forall>c \<in> set cs. simple_cycle d c" "no_rotations cs" "set cycles \<subseteq> set cs"
      using ok Cons.prems(1,2) by (auto simp: search_ok_def)
    note cov = search_ok_covered [OF ok Cons.prems(3)]
    from Cons.IH [OF c(1,2)] cov obtain cycles' where r: "find_from rot d ps cs vs = Inr cycles'"
      "set cs \<subseteq> set cycles'" "\<forall>c \<in> set cycles'. simple_cycle d c" "no_rotations cycles'"
      "\<forall>p \<in> set ps. covered d cycles' p" by (meson insertI2)
    have "covered d cycles' p" using cov covered_mono [OF _ r(2)] by simp
    with False s c r show ?thesis by auto
  qed
qed simp

lemma find_all:
  "\<exists>cycles. find_from rot d (map fst d) [] [] = Inr cycles
    \<and> (\<forall>c \<in> set cycles. simple_cycle d c) \<and> no_rotations cycles
    \<and> (\<forall>c. simple_cycle d c \<longrightarrow> found cycles c)"
proof -
  obtain cycles where r: "find_from rot d (map fst d) [] [] = Inr cycles"
    "\<forall>c \<in> set cycles. simple_cycle d c" "no_rotations cycles"
    "\<forall>p \<in> set (map fst d). covered d cycles p"
    using find_from_ok [of "[]" d "[]" "map fst d"] by (auto simp: no_rotations_def)
  have "found cycles c" if c: "simple_cycle d c" for c
  proof -
    have "\<exists>y. (hd c, y) \<in> edges d"
      using c by (cases c rule: list.exhaust; cases "tl c")
        (auto simp: simple_cycle_def simple_path_def successively_Cons)
    then have "hd c \<in> set (map fst d)" by (force simp: edges_def dest: map_of_SomeD)
    with r(4) have "covered d cycles (hd c)" by blast
    then show ?thesis using c by (rule covered_cycle)
  qed
  with r show ?thesis by blast
qed

end

interpretation rad_util_rotation: rotation_test is_rotated
  by unfold_locales (rule is_rotated_correct)

text \<open>
  C6: \<open>find_cycles\<close> never raises and always ends; what it yields are simple cycles of the graph,
  no two of them rotations of one another, and every simple cycle is a rotation of one of them.
\<close>
theorem find_cycles_correct:
  "\<exists>cycles. find_cycles d = Inr cycles
    \<and> (\<forall>c \<in> set cycles. simple_cycle d c) \<and> no_rotations cycles
    \<and> (\<forall>c. simple_cycle d c \<longrightarrow> found cycles c)"
  using rad_util_rotation.find_all [of d] by (auto simp: find_cycles_def)

theorem find_cycles_correct_witness:
  "\<exists>cycles. find_cycles [(1, [21, 22]), (21, [3]), (22, [3]), (3, [1, 21 :: int])] = Inr cycles
    \<and> cycles = [[1, 22, 3], [3, 21], [1, 21, 3]] \<and> no_rotations cycles"
proof -
  have "find_cycles [(1, [21, 22]), (21, [3]), (22, [3]), (3, [1, 21 :: int])]
      = Inr [[1, 22, 3], [3, 21], [1, 21, 3]]" by code_simp
  with find_cycles_correct [of "[(1, [21, 22]), (21, [3]), (22, [3]), (3, [1, 21 :: int])]"]
  show ?thesis by simp
qed

end
