(* ===== verification/Ns3_Config.thy ===== *)
theory Ns3_Config
  imports Py_Prelude
begin

text \<open>
  \<^verbatim>\<open>utils.py\<close>: reading lists and booleans out of a configuration file that is not executed
  but scanned line by line.  A file system maps a path to the lines of the file, each with its
  line end; a path that is not in the map does not exist.  \<open>eval\<close> on the text of a value is
  the argument \<open>ev\<close>.
\<close>

type_synonym file_system = "string \<Rightarrow> string list option"

section \<open>Scanning\<close>

definition strip_comment :: "string \<Rightarrow> string" where
  "strip_comment line = (if CHR ''#'' \<in> set line then hd (py_split1 (CHR ''#'') line) else line)"

text \<open>\<open>s.split('=', 1)[1].strip()\<close>.\<close>

definition assigned_text :: "string \<Rightarrow> string res" where
  "assigned_text s = res_bind (py_index (py_split1 (CHR ''='') s) 1) (\<lambda>t. Inr (py_strip t))"

text \<open>The loop of \<open>get_list_from_file\<close>; \<open>None\<close> is the end of the file without a \<open>break\<close>.\<close>

fun scan_list :: "string \<Rightarrow> string list \<Rightarrow> string \<Rightarrow> bool \<Rightarrow> string option" where
  "scan_list list_name [] list_string parsing_multiline_list = None"
| "scan_list list_name (line # file_in) list_string parsing_multiline_list =
     (let line = strip_comment line
      in if sublist list_name line \<or> parsing_multiline_list then
           (let list_string = list_string @ line
            in if CHR '']'' \<notin> set list_string
               then scan_list list_name file_in list_string True
               else Some list_string)
         else scan_list list_name file_in list_string parsing_multiline_list)"

definition get_list_from_file ::
    "file_system \<Rightarrow> (string \<Rightarrow> ('a list) res) \<Rightarrow> string \<Rightarrow> string \<Rightarrow> ('a list) res" where
  "get_list_from_file fs ev file_path list_name =
     (case fs file_path of
        None \<Rightarrow> Inr []
      | Some file_in \<Rightarrow>
          (case scan_list list_name file_in [] False of
             None \<Rightarrow> Inr []
           | Some list_string \<Rightarrow> res_bind (assigned_text list_string) ev))"

text \<open>
  \<open>bool_found\<close> is assigned only inside the test that the file exists, so a missing file ends
  in \<open>UnboundLocalError\<close> at the final test.
\<close>

fun scan_bool :: "string \<Rightarrow> string list \<Rightarrow> string option" where
  "scan_bool bool_name [] = None"
| "scan_bool bool_name (line # file_in) =
     (let line = strip_comment line
      in if sublist bool_name line then Some line else scan_bool bool_name file_in)"

definition get_bool_from_file ::
    "file_system \<Rightarrow> (string \<Rightarrow> bool res) \<Rightarrow> string \<Rightarrow> string \<Rightarrow> bool \<Rightarrow> bool res" where
  "get_bool_from_file fs ev file_path bool_name value_if_missing =
     (case fs file_path of
        None \<Rightarrow> Inl UnboundLocalError
      | Some file_in \<Rightarrow>
          (case scan_bool bool_name file_in of
             None \<Rightarrow> Inr value_if_missing
           | Some line \<Rightarrow> res_bind (assigned_text line) ev))"

text \<open>\<open>home\<close> is \<open>os.path.expanduser('~/')\<close>.\<close>

definition read_config_file ::
    "file_system \<Rightarrow> (string \<Rightarrow> (string list) res) \<Rightarrow> (string \<Rightarrow> bool res) \<Rightarrow> string
       \<Rightarrow> (bool \<times> string list \<times> bool \<times> bool) res" where
  "read_config_file fs ev_list ev_bool home =
     (let dot_ns3rc_name = ''.ns3rc'';
          dot_ns3rc_path = (if fs dot_ns3rc_name = None then home @ dot_ns3rc_name else dot_ns3rc_name)
      in if fs dot_ns3rc_path = None then Inr (False, [''all_modules''], False, False)
         else
           res_bind (get_list_from_file fs ev_list dot_ns3rc_path ''modules_enabled'') (\<lambda>modules.
             let modules_enabled = (if modules = [] then [''all_modules''] else modules)
             in res_bind (get_bool_from_file fs ev_bool dot_ns3rc_path ''examples_enabled'' False) (\<lambda>examples_enabled.
                  res_bind (get_bool_from_file fs ev_bool dot_ns3rc_path ''tests_enabled'' False) (\<lambda>tests_enabled.
                    Inr (True, modules_enabled, examples_enabled, tests_enabled)))))"

section \<open>What is found\<close>

text \<open>
  The specification of a list: the file without comments, from the first line that names the
  list, up to and including the first line with a closing bracket.
\<close>

definition list_lines :: "string \<Rightarrow> string list \<Rightarrow> string list" where
  "list_lines list_name file_in = dropWhile (\<lambda>l. \<not> sublist list_name l) (map strip_comment file_in)"

definition list_text :: "string \<Rightarrow> string list \<Rightarrow> string option" where
  "list_text list_name file_in =
     (let ls = list_lines list_name file_in; body = takeWhile (\<lambda>l. CHR '']'' \<notin> set l) ls
      in if length body < length ls then Some (concat (take (Suc (length body)) ls)) else None)"

lemma strip_comment_eq: "strip_comment line = takeWhile (\<lambda>c. c \<noteq> CHR ''#'') line"
  by (simp add: strip_comment_def py_split1_def takeWhile_absent)

lemma scan_list_in_list:
  assumes "CHR '']'' \<notin> set acc"
  shows "scan_list n ls acc True =
    (let body = takeWhile (\<lambda>l. CHR '']'' \<notin> set l) (map strip_comment ls)
     in if length body < length ls then Some (acc @ concat (take (Suc (length body)) (map strip_comment ls))) else None)"
  using assms by (induction ls arbitrary: acc) (simp_all add: Let_def)

lemma scan_list_text: "scan_list n ls [] False = list_text n ls"
proof (induction ls)
  case (Cons l ls)
  show ?case
  proof (cases "sublist n (strip_comment l)")
    case True
    then show ?thesis
      by (simp add: list_text_def list_lines_def Let_def scan_list_in_list)
  next
    case False
    then show ?thesis using Cons by (simp add: list_text_def list_lines_def Let_def)
  qed
qed (simp add: list_text_def list_lines_def)

text \<open>
  C40: \<open>get_list_from_file\<close> evaluates exactly the text between the first equals sign and the
  first closing bracket line of the commented-out-free assignment, wherever its lines are broken;
  a missing file, a missing name and an unclosed list all give the empty list.
\<close>
theorem get_list_from_file_correct:
  "get_list_from_file fs ev path list_name =
     (case Option.bind (fs path) (list_text list_name) of
        None \<Rightarrow> Inr []
      | Some t \<Rightarrow> if CHR ''='' \<in> set t
                  then ev (py_strip (tl (dropWhile (\<lambda>c. c \<noteq> CHR ''='') t))) else Inl IndexError)"
  by (simp add: get_list_from_file_def scan_list_text assigned_text_def py_split1_def py_index_def
      split: option.splits)

lemma scan_bool_eq: "scan_bool n ls = find (sublist n) (map strip_comment ls)"
  by (induction ls) (simp_all add: Let_def)

text \<open>A missing file is an error whatever the default; in a file without the name the default counts.\<close>

lemma get_bool_from_file_cases:
  "fs path = None \<Longrightarrow> get_bool_from_file fs ev path n dflt = Inl UnboundLocalError"
  "fs path = Some ls \<Longrightarrow> \<forall>l \<in> set ls. \<not> sublist n (strip_comment l) \<Longrightarrow>
     get_bool_from_file fs ev path n dflt = Inr dflt"
  by (auto simp: get_bool_from_file_def scan_bool_eq find_Some_iff split: option.splits)

lemma get_bool_no_unbound:
  assumes "fs path \<noteq> None" and "\<And>t. ev t \<noteq> Inl UnboundLocalError"
  shows "get_bool_from_file fs ev path n dflt \<noteq> Inl UnboundLocalError"
  using assms
  by (auto simp: get_bool_from_file_def assigned_text_def py_index_def res_bind_eq_Inl split: option.splits if_splits)

lemma get_list_no_unbound:
  assumes "\<And>t. ev t \<noteq> Inl UnboundLocalError"
  shows "get_list_from_file fs ev path n \<noteq> Inl UnboundLocalError"
  using assms
  by (auto simp: get_list_from_file_def assigned_text_def py_index_def res_bind_eq_Inl split: option.splits if_splits)

text \<open>
  \<open>read_config_file\<close> looks in the working directory before the home directory, never reaches
  the unassigned variable of \<open>get_bool_from_file\<close>, returns the defaults exactly when neither file
  exists, and always enables at least one module.
\<close>
theorem read_config_file_safe:
  assumes ev: "\<And>t. ev_list t \<noteq> Inl UnboundLocalError" "\<And>t. ev_bool t \<noteq> Inl UnboundLocalError"
  shows "read_config_file fs ev_list ev_bool home \<noteq> Inl UnboundLocalError
    \<and> (fs ''.ns3rc'' = None \<and> fs (home @ ''.ns3rc'') = None \<longrightarrow>
         read_config_file fs ev_list ev_bool home = Inr (False, [''all_modules''], False, False))
    \<and> (\<forall>found modules examples tests. read_config_file fs ev_list ev_bool home = Inr (found, modules, examples, tests)
         \<longrightarrow> modules \<noteq> [] \<and> (found \<longleftrightarrow> fs ''.ns3rc'' \<noteq> None \<or> fs (home @ ''.ns3rc'') \<noteq> None))"
proof (intro conjI)
  note nu = get_list_no_unbound [OF ev(1)] get_bool_no_unbound [OF _ ev(2)]
  show "read_config_file fs ev_list ev_bool home \<noteq> Inl UnboundLocalError"
    using nu by (auto simp: read_config_file_def Let_def res_bind_eq_Inl split: if_splits)
qed (auto simp: read_config_file_def Let_def res_bind_eq_Inr split: if_splits)

text \<open>A configuration file with a list over several lines and a comment inside it.\<close>

definition sample_fs :: file_system where
  "sample_fs = (\<lambda>p. if p = ''.ns3rc'' then
     Some [''# modules'' @ [NL], ''modules_enabled = [a,  # core'' @ [NL], ''b]'' @ [NL], ''examples_enabled = True'' @ [NL]]
     else None)"

definition sample_list :: "string \<Rightarrow> (string list) res" where
  "sample_list t = Inr (py_split (CHR '','') t)"

definition sample_bool :: "string \<Rightarrow> bool res" where
  "sample_bool t = Inr (t = ''True'')"

theorem read_config_file_safe_witness:
  "read_config_file sample_fs sample_list sample_bool ''/root/'' \<noteq> Inl UnboundLocalError
   \<and> read_config_file sample_fs sample_list sample_bool ''/root/'' = Inr (True, [''[a'', ''  b]''], True, False)"
proof
  show "read_config_file sample_fs sample_list sample_bool ''/root/'' \<noteq> Inl UnboundLocalError"
    using read_config_file_safe [of sample_list sample_bool sample_fs "''/root/''"]
    by (simp add: sample_list_def sample_bool_def)
  show "read_config_file sample_fs sample_list sample_bool ''/root/'' = Inr (True, [''[a'', ''  b]''], True, False)"
    by code_simp
qed

end
