(* ===== verification/Py_Path.thy ===== *)
theory Py_Path
  imports Py_Prelude
begin

text \<open>
  The parts of \<open>os.path\<close> (POSIX flavour) and \<open>fnmatch\<close> that the tools call, as executable
  functions on strings, and the facts about them that the component theories use.
\<close>

section \<open>Paths\<close>

abbreviation SLASH :: char where "SLASH \<equiv> CHR ''/''"

definition path_join :: "string \<Rightarrow> string \<Rightarrow> string" where
  "path_join a b =
     (if prefix ''/'' b then b
      else if a = [] \<or> last a = SLASH then a @ b
      else a @ ''/'' @ b)"

definition path_basename :: "string \<Rightarrow> string" where
  "path_basename p = last (py_split SLASH p)"

text \<open>One component of \<open>normpath\<close>: dots vanish, double dots cancel a component.\<close>

definition norm_step :: "bool \<Rightarrow> string list \<Rightarrow> string \<Rightarrow> string list" where
  "norm_step absolute comps part =
     (if part = [] \<or> part = ''.'' then comps
      else if part \<noteq> ''..'' \<or> (\<not> absolute \<and> comps = []) \<or> (comps \<noteq> [] \<and> last comps = ''..'')
      then comps @ [part]
      else butlast comps)"

definition path_comps :: "string \<Rightarrow> string list" where
  "path_comps p = foldl (norm_step (prefix ''/'' p)) [] (py_split SLASH p)"

text \<open>POSIX keeps exactly two leading slashes.\<close>

definition path_normpath :: "string \<Rightarrow> string" where
  "path_normpath p =
     (if p = [] then ''.''
      else let slashes = (if prefix ''//'' p \<and> \<not> prefix ''///'' p then ''//''
                          else if prefix ''/'' p then ''/'' else []);
               q = slashes @ py_join ''/'' (path_comps p)
           in if q = [] then ''.'' else q)"

definition path_abspath :: "string \<Rightarrow> string \<Rightarrow> string" where
  "path_abspath cwd p = path_normpath (if prefix ''/'' p then p else path_join cwd p)"

definition path_relpath :: "string \<Rightarrow> string \<Rightarrow> string \<Rightarrow> string" where
  "path_relpath cwd p start =
     (let start_list = filter (\<lambda>x. x \<noteq> []) (py_split SLASH (path_abspath cwd start));
          path_list = filter (\<lambda>x. x \<noteq> []) (py_split SLASH (path_abspath cwd p));
          i = length (longest_common_prefix start_list path_list);
          rel_list = replicate (length start_list - i) ''..'' @ drop i path_list
      in if rel_list = [] then ''.'' else py_join ''/'' rel_list)"

text \<open>A component list that \<open>normpath\<close> leaves alone.\<close>

definition plain_comps :: "string list \<Rightarrow> bool" where
  "plain_comps cs \<longleftrightarrow> (\<forall>c \<in> set cs. c \<noteq> [] \<and> SLASH \<notin> set c \<and> c \<noteq> ''.'' \<and> c \<noteq> ''..'')"

lemma norm_fold_plain:
  "plain_comps cs \<Longrightarrow> foldl (norm_step absolute) acc cs = acc @ cs"
  by (induction cs arbitrary: acc) (auto simp: norm_step_def plain_comps_def)

lemma path_comps_absolute:
  assumes "plain_comps cs" and "cs \<noteq> []"
  shows "path_comps (SLASH # py_join ''/'' cs) = cs"
proof -
  have "py_split SLASH (py_join [SLASH] cs) = cs"
    using assms by (intro py_split_join) (auto simp: plain_comps_def)
  then have "py_split SLASH (SLASH # py_join ''/'' cs) = [] # cs" by simp
  then show ?thesis using assms(1) by (simp add: path_comps_def norm_step_def norm_fold_plain)
qed

lemma py_join_plain_hd:
  assumes "plain_comps cs" and "cs \<noteq> []"
  shows "py_join ''/'' cs \<noteq> []" and "hd (py_join ''/'' cs) \<noteq> SLASH"
proof -
  obtain c rest where cs: "cs = c # rest" using assms(2) by (cases cs) auto
  then have c: "c \<noteq> []" "SLASH \<notin> set c" using assms(1) by (simp_all add: plain_comps_def)
  then obtain x d where x: "c = x # d" "x \<noteq> SLASH" by (cases c) auto
  show "py_join ''/'' cs \<noteq> []" using cs x by (cases rest) simp_all
  show "hd (py_join ''/'' cs) \<noteq> SLASH" using cs x by (cases rest) simp_all
qed

lemma path_abspath_absolute:
  assumes "plain_comps cs" and "cs \<noteq> []"
  shows "path_abspath cwd (SLASH # py_join ''/'' cs) = SLASH # py_join ''/'' cs"
proof -
  have "\<not> prefix ''//'' (SLASH # py_join ''/'' cs)"
    using py_join_plain_hd [OF assms] by (cases "py_join ''/'' cs") auto
  then show ?thesis
    using path_comps_absolute [OF assms] by (simp add: path_abspath_def path_normpath_def)
qed

lemma split_absolute:
  assumes "plain_comps cs" and "cs \<noteq> []"
  shows "filter (\<lambda>x. x \<noteq> []) (py_split SLASH (SLASH # py_join ''/'' cs)) = cs"
proof -
  have "py_split SLASH (py_join [SLASH] cs) = cs"
    using assms by (intro py_split_join) (auto simp: plain_comps_def)
  then show ?thesis using assms(1) by (auto simp: plain_comps_def intro!: filter_True)
qed

lemma longest_common_prefix_append: "longest_common_prefix xs (xs @ ys) = xs"
  by (induction xs) auto

text \<open>\<open>relpath\<close> of a directory below the start is the rest of the path.\<close>

lemma path_relpath_below:
  assumes "plain_comps (bs @ ds)" and "bs \<noteq> []" and "ds \<noteq> []"
  shows "path_relpath cwd (SLASH # py_join ''/'' (bs @ ds)) (SLASH # py_join ''/'' bs) = py_join ''/'' ds"
proof -
  have b: "plain_comps bs" using assms(1) by (auto simp: plain_comps_def)
  show ?thesis
    using assms(2,3) path_abspath_absolute [OF b assms(2)] path_abspath_absolute [OF assms(1)]
      split_absolute [OF b assms(2)] split_absolute [OF assms(1)]
    by (simp add: path_relpath_def Let_def longest_common_prefix_append)
qed

lemma path_join_plain:
  assumes "a \<noteq> []" and "last a \<noteq> SLASH" and "\<not> prefix ''/'' b"
  shows "path_join a b = a @ ''/'' @ b"
  using assms by (simp add: path_join_def)

lemma path_basename_no_slash: "SLASH \<notin> set (path_basename p)"
  unfolding path_basename_def by (rule py_split_pieces [of _ SLASH p]) simp

lemma py_split_append_last: "c \<notin> set t \<Longrightarrow> last (py_split c (s @ c # t)) = t"
proof (induction s)
  case (Cons a s)
  obtain y ys where ys: "py_split c (s @ c # t) = y # ys" by (cases "py_split c (s @ c # t)") auto
  have "ys \<noteq> []"
  proof
    assume "ys = []"
    then have "s @ c # t = y" using py_join_split [of c "s @ c # t"] ys by simp
    moreover have "c \<notin> set y" using py_split_pieces [of y c "s @ c # t"] ys by simp
    ultimately show False by auto
  qed
  with Cons ys show ?case by auto
qed (simp add: py_split_no_sep)

lemma path_basename_join: "SLASH \<notin> set b \<Longrightarrow> path_basename (a @ ''/'' @ b) = b"
  using py_split_append_last [of SLASH b a] by (simp add: path_basename_def)

section \<open>Shell patterns\<close>

text \<open>
  \<open>fnmatch\<close> (case is significant): a star matches any string, a question mark any character,
  a bracket a set of characters; a bracket that is not closed stands for itself.
\<close>

fun class_items :: "string \<Rightarrow> (char \<times> char) list" where
  "class_items (a # b # c # s) =
     (if b = CHR ''-'' then (a, c) # class_items s else (a, a) # class_items (b # c # s))"
| "class_items (a # s) = (a, a) # class_items s"
| "class_items [] = []"

datatype pattern_item = Star | AnyChar | Class bool "(char \<times> char) list" | Lit char

text \<open>The text between the brackets; a closing bracket in first place belongs to the set.\<close>

definition split_class :: "string \<Rightarrow> (bool \<times> string \<times> string) option" where
  "split_class s =
     (let neg = prefix ''!'' s; s1 = (if neg then tl s else s);
          first = (if prefix '']'' s1 then take 1 s1 else []); s2 = drop (length first) s1;
          body = takeWhile (\<lambda>c. c \<noteq> CHR '']'') s2
      in if length body < length s2 then Some (neg, first @ body, drop (Suc (length body)) s2) else None)"

lemma split_class_shorter: "split_class s = Some (neg, body, rest) \<Longrightarrow> length rest < length s"
  by (auto simp: split_class_def Let_def split: if_splits)

function fn_compile :: "string \<Rightarrow> pattern_item list" where
  "fn_compile [] = []"
| "fn_compile (c # s) =
     (if c = CHR ''*'' then Star # fn_compile s
      else if c = CHR ''?'' then AnyChar # fn_compile s
      else if c = CHR ''['' then
        (case split_class s of
           None \<Rightarrow> Lit c # fn_compile s
         | Some (neg, body, rest) \<Rightarrow> Class neg (class_items body) # fn_compile rest)
      else Lit c # fn_compile s)"
  by pat_completeness auto
termination
  by (relation "measure length") (auto dest: split_class_shorter)

fun item_matches :: "pattern_item \<Rightarrow> char \<Rightarrow> bool" where
  "item_matches Star c = False"
| "item_matches AnyChar c = True"
| "item_matches (Class neg items) c = (neg \<noteq> list_ex (\<lambda>(a, b). a \<le> c \<and> c \<le> b) items)"
| "item_matches (Lit a) c = (a = c)"

fun fn_match :: "pattern_item list \<Rightarrow> string \<Rightarrow> bool" where
  "fn_match [] s = (s = [])"
| "fn_match (Star # ps) [] = fn_match ps []"
| "fn_match (Star # ps) (c # s) = (fn_match ps (c # s) \<or> fn_match (Star # ps) s)"
| "fn_match (p # ps) [] = False"
| "fn_match (p # ps) (c # s) = (item_matches p c \<and> fn_match ps s)"

definition fnmatch_filter :: "string list \<Rightarrow> string \<Rightarrow> string list" where
  "fnmatch_filter names pat = filter (fn_match (fn_compile pat)) names"

lemma fn_match_star: "fn_match (Star # ps) s \<longleftrightarrow> (\<exists>a b. s = a @ b \<and> fn_match ps b)"
proof (induction s)
  case (Cons c s)
  show ?case
  proof
    assume "fn_match (Star # ps) (c # s)"
    then consider "fn_match ps (c # s)" | "fn_match (Star # ps) s" by auto
    then show "\<exists>a b. c # s = a @ b \<and> fn_match ps b"
    proof cases
      case 1
      then show ?thesis by (intro exI [of _ "[]"] exI [of _ "c # s"]) simp
    next
      case 2
      with Cons obtain a b where "s = a @ b" "fn_match ps b" by blast
      then show ?thesis by (intro exI [of _ "c # a"] exI [of _ b]) simp
    qed
  next
    assume "\<exists>a b. c # s = a @ b \<and> fn_match ps b"
    then obtain a b where ab: "c # s = a @ b" "fn_match ps b" by blast
    show "fn_match (Star # ps) (c # s)"
    proof (cases a)
      case Nil
      with ab have "fn_match ps (c # s)" by simp
      then show ?thesis by simp
    next
      case (Cons x xs)
      with ab Cons.IH show ?thesis by auto
    qed
  qed
qed simp

definition pattern_free :: "string \<Rightarrow> bool" where
  "pattern_free s \<longleftrightarrow> CHR ''*'' \<notin> set s \<and> CHR ''?'' \<notin> set s \<and> CHR ''['' \<notin> set s"

lemma fn_compile_plain: "pattern_free s \<Longrightarrow> fn_compile s = map Lit s"
  by (induction s) (auto simp: pattern_free_def)

lemma fn_match_literal: "fn_match (map Lit p) s \<longleftrightarrow> s = p"
proof (induction p arbitrary: s)
  case (Cons a p)
  then show ?case by (cases s) auto
qed simp

lemma fnmatch_filter_plain: "pattern_free p \<Longrightarrow> fnmatch_filter names p = filter (\<lambda>n. n = p) names"
  by (simp add: fnmatch_filter_def fn_compile_plain fn_match_literal cong: filter_cong)

end
