(* ===== verification/Test_Config.thy ===== *)
theory Test_Config
  imports Ns3_Config Py_Path Complex_Main
begin

text \<open>
  The configuration side of \<^verbatim>\<open>test.py\<close>: command-line options, the module globals that the build
  writes, terminal colours, the lists of examples, the environment of the test processes and
  the command line under which a job runs.  Trace output under \<open>--verbose\<close> is left out.

  A global that \<^verbatim>\<open>test.py\<close> assigns no default is an \<open>option\<close>: reading it before the build has
  defined it raises \<open>NameError\<close>.
\<close>

section \<open>Options and globals\<close>

record test_options =
  opt_buildpath :: string
  opt_constrain :: string
  opt_duration :: bool
  opt_example :: string
  opt_update_data :: bool
  opt_fullness :: string
  opt_valgrind :: bool
  opt_kinds :: bool
  opt_list :: bool
  opt_multiple :: bool
  opt_nowaf :: bool
  opt_pyexample :: string
  opt_retain :: bool
  opt_suite :: string
  opt_text :: string
  opt_html :: string
  opt_xml :: string
  opt_nocolor :: bool
  opt_process_limit :: int

definition default_options :: test_options where
  "default_options =
     \<lparr> opt_buildpath = [], opt_constrain = [], opt_duration = False, opt_example = [],
       opt_update_data = False, opt_fullness = ''QUICK'', opt_valgrind = False, opt_kinds = False,
       opt_list = False, opt_multiple = False, opt_nowaf = False, opt_pyexample = [],
       opt_retain = False, opt_suite = [], opt_text = [], opt_html = [], opt_xml = [],
       opt_nocolor = False, opt_process_limit = 0 \<rparr>"

record test_config =
  NS3_BASEDIR :: string
  NS3_BUILDDIR :: string
  NS3_ENABLED_MODULES :: "string list option"
  NS3_ENABLED_CONTRIBUTED_MODULES :: "string list option"
  NS3_MODULE_PATH :: "string list option"
  NSC_ENABLED :: bool
  ENABLE_REAL_TIME :: bool
  ENABLE_THREADING :: bool
  ENABLE_EXAMPLES :: bool
  ENABLE_TESTS :: bool
  NSCLICK :: bool
  ENABLE_BRITE :: bool
  ENABLE_OPENFLOW :: bool
  EXAMPLE_DIRECTORIES :: "string list"
  ENABLE_PYTHON_BINDINGS :: "bool option"
  APPNAME :: string
  BUILD_PROFILE :: string
  BUILD_PROFILE_SUFFIX :: string
  VERSION :: string
  PYTHON :: "string list"
  VALGRIND_FOUND :: bool

definition initial_config :: test_config where
  "initial_config =
     \<lparr> NS3_BASEDIR = [], NS3_BUILDDIR = [], NS3_ENABLED_MODULES = None,
       NS3_ENABLED_CONTRIBUTED_MODULES = None, NS3_MODULE_PATH = None,
       NSC_ENABLED = False, ENABLE_REAL_TIME = False, ENABLE_THREADING = False,
       ENABLE_EXAMPLES = True, ENABLE_TESTS = True, NSCLICK = False, ENABLE_BRITE = False,
       ENABLE_OPENFLOW = False, EXAMPLE_DIRECTORIES = [], ENABLE_PYTHON_BINDINGS = None,
       APPNAME = [], BUILD_PROFILE = [], BUILD_PROFILE_SUFFIX = [], VERSION = [], PYTHON = [],
       VALGRIND_FOUND = True \<rparr>"

definition global :: "'a option \<Rightarrow> 'a res" where
  "global v = (case v of None \<Rightarrow> Inl NameError | Some x \<Rightarrow> Inr x)"

definition interesting_config_items :: "string list" where
  "interesting_config_items =
     [''NS3_ENABLED_MODULES'', ''NS3_ENABLED_CONTRIBUTED_MODULES'', ''NS3_MODULE_PATH'',
      ''NSC_ENABLED'', ''ENABLE_REAL_TIME'', ''ENABLE_THREADING'', ''ENABLE_EXAMPLES'',
      ''ENABLE_TESTS'', ''EXAMPLE_DIRECTORIES'', ''ENABLE_PYTHON_BINDINGS'', ''NSCLICK'',
      ''ENABLE_BRITE'', ''ENABLE_OPENFLOW'', ''APPNAME'', ''BUILD_PROFILE'', ''VERSION'',
      ''PYTHON'', ''VALGRIND_FOUND'']"

definition core_kinds :: "string list" where
  "core_kinds = [''core'', ''performance'', ''system'', ''unit'']"

definition core_valgrind_skip_tests :: "string list" where
  "core_valgrind_skip_tests =
     [''ns3-tcp-cwnd'', ''nsc-tcp-loss'', ''ns3-tcp-interoperability'', ''routing-click'',
      ''lte-rr-ff-mac-scheduler'', ''lte-tdmt-ff-mac-scheduler'', ''lte-fdmt-ff-mac-scheduler'',
      ''lte-pf-ff-mac-scheduler'', ''lte-tta-ff-mac-scheduler'', ''lte-fdbet-ff-mac-scheduler'',
      ''lte-ttbet-ff-mac-scheduler'', ''lte-fdtbfq-ff-mac-scheduler'',
      ''lte-tdtbfq-ff-mac-scheduler'', ''lte-pss-ff-mac-scheduler'']"

definition core_nsc_missing_skip_tests :: "string list" where
  "core_nsc_missing_skip_tests = [''ns3-tcp-cwnd'', ''nsc-tcp-loss'', ''ns3-tcp-interoperability'']"

section \<open>Colours\<close>

abbreviation ESC :: char where "ESC \<equiv> CHR 0x1B"

definition colors_lst :: "(string, string) dict" where
  "colors_lst =
     [(''BOLD'', ESC # ''[01;1m''), (''RED'', ESC # ''[01;31m''), (''GREEN'', ESC # ''[32m''),
      (''YELLOW'', ESC # ''[33m''), (''PINK'', ESC # ''[35m''), (''BLUE'', ESC # ''[01;34m''),
      (''CYAN'', ESC # ''[36m''), (''GREY'', ESC # ''[37m''), (''NORMAL'', ESC # ''[0m''),
      (''cursor_on'', ESC # ''[?25h''), (''cursor_off'', ESC # ''[?25l'')]"

definition get_color :: "bool \<Rightarrow> string \<Rightarrow> string" where
  "get_color use_colors cl =
     (if use_colors then (case map_of colors_lst cl of None \<Rightarrow> [] | Some c \<Rightarrow> c) else [])"

text \<open>\<open>main\<close>: whether colours are used.  \<open>nocolor_env\<close> is the value of \<open>NOCOLOR\<close>, empty when unset.\<close>

definition use_colors :: "test_options \<Rightarrow> string \<Rightarrow> bool" where
  "use_colors opts nocolor_env =
     (let envcolor = (if nocolor_env \<noteq> [] then ''no'' else ''auto'')
      in \<not> (opt_nocolor opts \<or> envcolor = ''no''))"

section \<open>The build configuration\<close>

text \<open>
  \<open>eval\<close> of a path literal and \<open>exec\<close> of a cache line are arguments.  The two directories are
  local variables, unassigned until their line is met.
\<close>

fun scan_lock :: "(string \<Rightarrow> string res) \<Rightarrow> string list \<Rightarrow> string option \<times> string option
    \<Rightarrow> (string option \<times> string option) res" where
  "scan_lock ev [] dirs = Inr dirs"
| "scan_lock ev (line # f) (top_dir, out_dir) =
     (let dir = (\<lambda>(). (case py_split (CHR ''='') line of
                         [key, val] \<Rightarrow> ev (py_strip val)
                       | _ \<Rightarrow> Inl (ValueError ''unpack'')))
      in res_bind (if prefix ''top_dir ='' line then res_bind (dir ()) (Inr \<circ> Some) else Inr top_dir) (\<lambda>top_dir.
           res_bind (if prefix ''out_dir ='' line then res_bind (dir ()) (Inr \<circ> Some) else Inr out_dir) (\<lambda>out_dir.
             scan_lock ev f (top_dir, out_dir))))"

definition exec_cache_line ::
    "(string \<Rightarrow> test_config \<Rightarrow> test_config res) \<Rightarrow> test_config \<Rightarrow> string \<Rightarrow> test_config res" where
  "exec_cache_line ex cfg line =
     res_fold (\<lambda>cfg item. if prefix item line then ex line cfg else Inr cfg) interesting_config_items cfg"

definition open_lock :: "file_system \<Rightarrow> string \<Rightarrow> (string list) res" where
  "open_lock fs platform =
     (case fs (''.lock-waf_'' @ platform @ ''_build'') of
        Some f \<Rightarrow> Inr f
      | None \<Rightarrow> (case fs ''.lock-waf_linux2_build'' of Some f \<Rightarrow> Inr f | None \<Rightarrow> Inl (SystemExit 2)))"

definition read_waf_config ::
    "file_system \<Rightarrow> (string \<Rightarrow> string res) \<Rightarrow> (string \<Rightarrow> test_config \<Rightarrow> test_config res) \<Rightarrow> string
       \<Rightarrow> test_config \<Rightarrow> test_config res" where
  "read_waf_config fs ev ex platform cfg =
     res_bind (open_lock fs platform) (\<lambda>f.
       res_bind (scan_lock ev f (None, None)) (\<lambda>(top_dir, out_dir).
         case top_dir of None \<Rightarrow> Inl UnboundLocalError | Some topd \<Rightarrow>
         (case out_dir of None \<Rightarrow> Inl UnboundLocalError | Some outd \<Rightarrow>
            (let cfg = cfg\<lparr>NS3_BASEDIR := topd, NS3_BUILDDIR := outd\<rparr>
             in case fs (outd @ ''/c4che/_cache.py'') of
                  None \<Rightarrow> Inl FileNotFoundError
                | Some lines \<Rightarrow> res_fold (exec_cache_line ex) lines cfg))))"

definition profile_suffix :: "test_config \<Rightarrow> test_config" where
  "profile_suffix cfg =
     cfg\<lparr>BUILD_PROFILE_SUFFIX := (if BUILD_PROFILE cfg = ''release'' then [] else ''-'' @ BUILD_PROFILE cfg)\<rparr>"

text \<open>\<open>"%s%s-%s%s" % (APPNAME, VERSION, name, BUILD_PROFILE_SUFFIX)\<close>.\<close>

definition program_name :: "test_config \<Rightarrow> string \<Rightarrow> string" where
  "program_name cfg name = APPNAME cfg @ VERSION cfg @ ''-'' @ name @ BUILD_PROFILE_SUFFIX cfg"

section \<open>Examples to run\<close>

type_synonym cpp_test = "string \<times> string \<times> string \<times> string"
type_synonym py_test = "string \<times> string"

record example_lists =
  example_tests :: "cpp_test list"
  example_names_original :: "string list"
  python_tests :: "py_test list"

text \<open>The tuple entries of an examples file are lists of strings; unpacking needs the exact length.\<close>

definition add_cpp_example ::
    "test_config \<Rightarrow> string \<Rightarrow> (string \<Rightarrow> bool) \<Rightarrow> string \<Rightarrow> example_lists \<Rightarrow> string list \<Rightarrow> example_lists res" where
  "add_cpp_example cfg cwd exists cpp_executable_dir exs tuple =
     (case tuple of
        [example_name_original, do_run, do_valgrind_run] \<Rightarrow>
          (let example_name_parts = py_split1 (CHR '' '') example_name_original;
               example_name = hd example_name_parts;
               example_arguments = (if length example_name_parts = 1 then [] else example_name_parts ! 1);
               example_path = path_join cpp_executable_dir (program_name cfg example_name);
               example_name = path_join (path_relpath cwd cpp_executable_dir (NS3_BUILDDIR cfg)) example_name
           in if exists example_path then
                (let (example_path, example_name) =
                       (if length example_name_parts \<noteq> 1
                        then (example_path @ '' '' @ example_arguments, example_name @ '' '' @ example_arguments)
                        else (example_path, example_name))
                 in Inr (exs\<lparr>example_tests := example_tests exs @ [(example_name, example_path, do_run, do_valgrind_run)],
                               example_names_original := example_names_original exs @ [example_name_original]\<rparr>))
              else Inr exs)
      | _ \<Rightarrow> Inl (ValueError ''unpack''))"

definition add_py_example ::
    "(string \<Rightarrow> bool) \<Rightarrow> string \<Rightarrow> example_lists \<Rightarrow> string list \<Rightarrow> example_lists res" where
  "add_py_example exists python_script_dir exs tuple =
     (case tuple of
        [example_name, do_run] \<Rightarrow>
          (let example_name_parts = py_split1 (CHR '' '') example_name;
               example_name = hd example_name_parts;
               example_arguments = (if length example_name_parts = 1 then [] else example_name_parts ! 1);
               example_path = path_join python_script_dir example_name
           in if exists example_path then
                (let example_path = (if length example_name_parts \<noteq> 1
                                     then example_path @ '' '' @ example_arguments else example_path)
                 in Inr (exs\<lparr>python_tests := python_tests exs @ [(example_path, do_run)]\<rparr>))
              else Inr exs)
      | _ \<Rightarrow> Inl (ValueError ''unpack''))"

definition parse_examples_to_run_file ::
    "file_system \<Rightarrow> (string \<Rightarrow> (string list list) res) \<Rightarrow> test_config \<Rightarrow> string
       \<Rightarrow> string \<Rightarrow> string \<Rightarrow> string \<Rightarrow> example_lists \<Rightarrow> example_lists res" where
  "parse_examples_to_run_file fs ev cfg cwd examples_to_run_path cpp_executable_dir python_script_dir exs =
     (let exists = (\<lambda>p. fs p \<noteq> None)
      in if exists examples_to_run_path then
           res_bind (get_list_from_file fs ev examples_to_run_path ''cpp_examples'') (\<lambda>cpp_examples.
           res_bind (res_fold (add_cpp_example cfg cwd exists cpp_executable_dir) cpp_examples exs) (\<lambda>exs.
           res_bind (get_list_from_file fs ev examples_to_run_path ''python_examples'') (\<lambda>python_examples.
             res_fold (add_py_example exists python_script_dir) python_examples exs)))
         else Inr exs)"

text \<open>The three loops of \<open>run_tests\<close> over directories, modules and contributed modules.\<close>

definition module_examples ::
    "file_system \<Rightarrow> (string \<Rightarrow> (string list list) res) \<Rightarrow> test_config \<Rightarrow> string \<Rightarrow> string
       \<Rightarrow> example_lists \<Rightarrow> string \<Rightarrow> example_lists res" where
  "module_examples fs ev cfg cwd tree exs modul =
     (let modul = py_slice modul (int (length ''ns3-'')) (int (length modul));
          module_directory = path_join tree modul;
          example_directory = path_join module_directory ''examples'';
          examples_to_run_path = path_join (path_join module_directory ''test'') ''examples-to-run.py''
      in parse_examples_to_run_file fs ev cfg cwd examples_to_run_path
           (path_join (NS3_BUILDDIR cfg) example_directory) example_directory exs)"

definition directory_examples ::
    "file_system \<Rightarrow> (string \<Rightarrow> (string list list) res) \<Rightarrow> test_config \<Rightarrow> string
       \<Rightarrow> example_lists \<Rightarrow> string \<Rightarrow> example_lists res" where
  "directory_examples fs ev cfg cwd exs directory =
     (let example_directory = path_join ''examples'' directory;
          examples_to_run_path = path_join example_directory ''examples-to-run.py''
      in parse_examples_to_run_file fs ev cfg cwd examples_to_run_path
           (path_join (NS3_BUILDDIR cfg) example_directory) example_directory exs)"

definition collect_examples ::
    "file_system \<Rightarrow> (string \<Rightarrow> (string list list) res) \<Rightarrow> test_config \<Rightarrow> string \<Rightarrow> example_lists res" where
  "collect_examples fs ev cfg cwd =
     res_bind (res_fold (directory_examples fs ev cfg cwd) (EXAMPLE_DIRECTORIES cfg)
                 \<lparr>example_tests = [], example_names_original = [], python_tests = []\<rparr>) (\<lambda>exs.
     res_bind (global (NS3_ENABLED_MODULES cfg)) (\<lambda>modules.
     res_bind (res_fold (module_examples fs ev cfg cwd ''src'') modules exs) (\<lambda>exs.
     res_bind (global (NS3_ENABLED_CONTRIBUTED_MODULES cfg)) (\<lambda>modules.
       res_fold (module_examples fs ev cfg cwd ''contrib'') modules exs))))"

section \<open>The environment of the test processes\<close>

definition extend_path ::
    "string \<Rightarrow> string \<Rightarrow> string list \<Rightarrow> (string, string) dict \<Rightarrow> (string, string) dict" where
  "extend_path var sep paths env =
     (let env = (if has_key env var then env else AList.update var [] env)
      in foldl (\<lambda>env p. case map_of env var of
                          Some v \<Rightarrow> AList.update var (v @ sep @ p) env | None \<Rightarrow> env) env paths)"

definition make_paths ::
    "string \<Rightarrow> test_config \<Rightarrow> (string, string) dict \<Rightarrow> ((string, string) dict) res" where
  "make_paths platform cfg env =
     (let have_PYTHONPATH = has_key env ''PYTHONPATH'';
          pypath = path_join (path_join (NS3_BUILDDIR cfg) ''bindings'') ''python'';
          env1 = AList.update ''PYTHONPATH'' pypath env;
          env2 = AList.update ''PYTHONPATH'' (if \<not> have_PYTHONPATH then pypath else pypath @ '':'' @ pypath) env1
      in res_bind (global (NS3_MODULE_PATH cfg)) (\<lambda>paths. Inr (
           if platform = ''darwin'' then extend_path ''DYLD_LIBRARY_PATH'' '':'' paths env2
           else if platform = ''win32'' then extend_path ''PATH'' '';'' paths env2
           else if platform = ''cygwin'' then extend_path ''PATH'' '':'' paths env2
           else extend_path ''LD_LIBRARY_PATH'' '':'' paths env2)))"

section \<open>Running a command\<close>

text \<open>
  Output of a process: text, or bytes that are not valid in the locale's encoding.  A process is
  the argument \<open>popen\<close>: from the command and the directory to the return code, both outputs
  and the elapsed time.
\<close>

datatype proc_text = Text string | Bytes string

type_synonym proc_result = "int \<times> proc_text \<times> proc_text \<times> rat"

definition is_bytes :: "proc_text \<Rightarrow> bool" where
  "is_bytes t = (case t of Text _ \<Rightarrow> False | Bytes _ \<Rightarrow> True)"

definition VALGRIND_SUPPRESSIONS_FILE :: string where
  "VALGRIND_SUPPRESSIONS_FILE = ''testpy.supp''"

definition job_command :: "test_config \<Rightarrow> string \<Rightarrow> bool \<Rightarrow> bool \<Rightarrow> string \<Rightarrow> string res" where
  "job_command cfg shell_command valgrind is_python build_path =
     (let suppressions_path = path_join (NS3_BASEDIR cfg) VALGRIND_SUPPRESSIONS_FILE
      in res_bind
           (if is_python then
              res_bind (py_index (PYTHON cfg) 0) (\<lambda>python.
                Inr (python @ '' '' @ path_join (NS3_BASEDIR cfg) shell_command))
            else if build_path \<noteq> [] then Inr (path_join build_path shell_command)
            else Inr (path_join (NS3_BUILDDIR cfg) shell_command))
           (\<lambda>path_cmd. Inr (
              if valgrind then
                ''valgrind --suppressions='' @ suppressions_path
                @ '' --leak-check=full --show-reachable=yes --error-exitcode=2 --errors-for-leak-kinds=all '' @ path_cmd
              else path_cmd)))"

definition run_job_synchronously ::
    "(string \<Rightarrow> string \<Rightarrow> proc_result) \<Rightarrow> test_config \<Rightarrow> string \<Rightarrow> string \<Rightarrow> bool \<Rightarrow> bool \<Rightarrow> string
       \<Rightarrow> proc_result res" where
  "run_job_synchronously popen cfg shell_command directory valgrind is_python build_path =
     res_bind (job_command cfg shell_command valgrind is_python build_path) (\<lambda>cmd.
       let (returncode, stdout_results, stderr_results, elapsed_time) = popen cmd directory;
           retval = (if is_bytes stdout_results then 1 else returncode);
           retval = (if is_bytes stderr_results then 1 else retval)
       in Inr (retval, stdout_results, stderr_results, elapsed_time))"

section \<open>What the lists of examples hold\<close>

text \<open>
  The example tuple of one listed program: the arguments, from the first blank on, follow the
  program in the command and in the displayed name.
\<close>

definition word1 :: "string \<Rightarrow> string" where
  "word1 s = takeWhile (\<lambda>c. c \<noteq> CHR '' '') s"

definition args_text :: "string \<Rightarrow> string" where
  "args_text s = dropWhile (\<lambda>c. c \<noteq> CHR '' '') s"

definition cpp_entry :: "test_config \<Rightarrow> string \<Rightarrow> string \<Rightarrow> string list \<Rightarrow> cpp_test" where
  "cpp_entry cfg cwd dir t =
     (path_join (path_relpath cwd dir (NS3_BUILDDIR cfg)) (word1 (t ! 0)) @ args_text (t ! 0),
      path_join dir (program_name cfg (word1 (t ! 0))) @ args_text (t ! 0), t ! 1, t ! 2)"

definition py_entry :: "string \<Rightarrow> string list \<Rightarrow> py_test" where
  "py_entry dir t = (path_join dir (word1 (t ! 0)) @ args_text (t ! 0), t ! 1)"

lemma split1_words:
  "hd (py_split1 (CHR '' '') s) = word1 s"
  "(if length (py_split1 (CHR '' '') s) \<noteq> 1
    then x @ '' '' @ (if length (py_split1 (CHR '' '') s) = 1 then [] else py_split1 (CHR '' '') s ! 1)
    else x) = x @ args_text s"
proof -
  show "hd (py_split1 (CHR '' '') s) = word1 s"
    by (simp add: py_split1_def word1_def takeWhile_absent)
  show "(if length (py_split1 (CHR '' '') s) \<noteq> 1
    then x @ '' '' @ (if length (py_split1 (CHR '' '') s) = 1 then [] else py_split1 (CHR '' '') s ! 1)
    else x) = x @ args_text s"
    using dropWhile_present [of "CHR '' ''" s] dropWhile_absent [of "CHR '' ''" s]
    by (simp add: py_split1_def args_text_def)
qed

lemma add_cpp_example_eq:
  assumes "length t = 3"
  shows "add_cpp_example cfg cwd ex dir exs t = Inr (
    if ex (path_join dir (program_name cfg (word1 (t ! 0))))
    then exs\<lparr>example_tests := example_tests exs @ [cpp_entry cfg cwd dir t],
             example_names_original := example_names_original exs @ [t ! 0]\<rparr>
    else exs)"
proof -
  obtain a b c where t: "t = [a, b, c]" using assms by (auto simp: length_Suc_conv numeral_3_eq_3)
  note w = split1_words [of a]
  show ?thesis
  proof (cases "length (py_split1 (CHR '' '') a) = 1")
    case True
    then have "args_text a = []" using w(2) [of "[]"] by simp
    with True show ?thesis by (simp add: add_cpp_example_def t Let_def w(1) cpp_entry_def)
  next
    case False
    then have "'' '' @ py_split1 (CHR '' '') a ! 1 = args_text a" using w(2) [of "[]"] by simp
    with False show ?thesis by (simp add: add_cpp_example_def t Let_def w(1) cpp_entry_def)
  qed
qed

lemma add_py_example_eq:
  assumes "length t = 2"
  shows "add_py_example ex dir exs t = Inr (
    if ex (path_join dir (word1 (t ! 0)))
    then exs\<lparr>python_tests := python_tests exs @ [py_entry dir t]\<rparr> else exs)"
proof -
  obtain a b where t: "t = [a, b]" using assms by (auto simp: length_Suc_conv numeral_2_eq_2)
  note w = split1_words [of a]
  show ?thesis
  proof (cases "length (py_split1 (CHR '' '') a) = 1")
    case True
    then have "args_text a = []" using w(2) [of "[]"] by simp
    with True show ?thesis by (simp add: add_py_example_def t Let_def w(1) py_entry_def)
  next
    case False
    then have "'' '' @ py_split1 (CHR '' '') a ! 1 = args_text a" using w(2) [of "[]"] by simp
    with False show ?thesis by (simp add: add_py_example_def t Let_def w(1) py_entry_def)
  qed
qed

lemma fold_add_cpp:
  assumes "\<forall>t \<in> set ts. length t = 3"
  shows "res_fold (add_cpp_example cfg cwd ex dir) ts exs = Inr (
    let built = filter (\<lambda>t. ex (path_join dir (program_name cfg (word1 (t ! 0))))) ts
    in exs\<lparr>example_tests := example_tests exs @ map (cpp_entry cfg cwd dir) built,
           example_names_original := example_names_original exs @ map (\<lambda>t. t ! 0) built\<rparr>)"
  using assms by (induction ts arbitrary: exs) (simp_all add: add_cpp_example_eq Let_def)

lemma fold_add_py:
  assumes "\<forall>t \<in> set ts. length t = 2"
  shows "res_fold (add_py_example ex dir) ts exs = Inr (
    exs\<lparr>python_tests := python_tests exs
          @ map (py_entry dir) (filter (\<lambda>t. ex (path_join dir (word1 (t ! 0)))) ts)\<rparr>)"
  using assms by (induction ts arbitrary: exs) (simp_all add: add_py_example_eq)

text \<open>
  For an examples file whose two lists are well formed, \<open>parse_examples_to_run_file\<close> appends,
  in file order, exactly one entry for every listed C++ example whose executable exists and every
  listed Python example whose script exists, each with its arguments kept, and records the original
  names of the C++ examples in step.
\<close>
theorem parse_examples_to_run_file_correct:
  assumes "fs path \<noteq> None"
    and "get_list_from_file fs ev path ''cpp_examples'' = Inr cpp" and "\<forall>t \<in> set cpp. length t = 3"
    and "get_list_from_file fs ev path ''python_examples'' = Inr py" and "\<forall>t \<in> set py. length t = 2"
  shows "parse_examples_to_run_file fs ev cfg cwd path cpp_dir py_dir exs = Inr (
    let built = filter (\<lambda>t. fs (path_join cpp_dir (program_name cfg (word1 (t ! 0)))) \<noteq> None) cpp;
        scripts = filter (\<lambda>t. fs (path_join py_dir (word1 (t ! 0))) \<noteq> None) py
    in \<lparr>example_tests = example_tests exs @ map (cpp_entry cfg cwd cpp_dir) built,
        example_names_original = example_names_original exs @ map (\<lambda>t. t ! 0) built,
        python_tests = python_tests exs @ map (py_entry py_dir) scripts\<rparr>)"
  using assms by (simp add: parse_examples_to_run_file_def fold_add_cpp fold_add_py Let_def)

definition sample_tuples :: "string \<Rightarrow> (string list list) res" where
  "sample_tuples t = Inr (if t = ''[cpp]'' then [[''udp --n=1'', ''True'', ''False''], [''tcp'', ''True'', ''True'']]
                          else [[''echo.py'', ''True'']])"

definition examples_fs :: file_system where
  "examples_fs = (\<lambda>p.
     if p = ''examples-to-run.py'' then Some [''cpp_examples = [cpp]'', ''python_examples = [py]'']
     else if p = ''/b/examples/ns3-udp'' \<or> p = ''examples/echo.py'' then Some [] else None)"

theorem parse_examples_to_run_file_correct_witness:
  "parse_examples_to_run_file examples_fs sample_tuples
     (initial_config\<lparr>NS3_BUILDDIR := ''/b'', APPNAME := ''ns'', VERSION := ''3''\<rparr>) ''/w''
     ''examples-to-run.py'' ''/b/examples'' ''examples''
     \<lparr>example_tests = [], example_names_original = [], python_tests = []\<rparr>
   = Inr \<lparr>example_tests = [(''examples/udp --n=1'', ''/b/examples/ns3-udp --n=1'', ''True'', ''False'')],
          example_names_original = [''udp --n=1''], python_tests = [(''examples/echo.py'', ''True'')]\<rparr>"
  (is "?l = ?r")
proof -
  have 1: "get_list_from_file examples_fs sample_tuples ''examples-to-run.py'' ''cpp_examples''
      = Inr [[''udp --n=1'', ''True'', ''False''], [''tcp'', ''True'', ''True'']]" by code_simp
  have 2: "get_list_from_file examples_fs sample_tuples ''examples-to-run.py'' ''python_examples''
      = Inr [[''echo.py'', ''True'']]" by code_simp
  have 3: "examples_fs ''examples-to-run.py'' \<noteq> None" by (simp add: examples_fs_def)
  show ?thesis
    by (subst parse_examples_to_run_file_correct [OF 3 1 _ 2]) (simp, simp, code_simp)
qed

text \<open>
  The displayed name of an example is relative to the build directory.
\<close>

lemma cpp_entry_name:
  assumes "plain_comps (bs @ ds)" and "bs \<noteq> []" and "ds \<noteq> []" and "NS3_BUILDDIR cfg = SLASH # py_join ''/'' bs"
  shows "fst (cpp_entry cfg cwd (SLASH # py_join ''/'' (bs @ ds)) t)
    = path_join (py_join ''/'' ds) (word1 (t ! 0)) @ args_text (t ! 0)"
  using assms by (simp add: cpp_entry_def path_relpath_below)

section \<open>What the environment holds\<close>

lemma extend_path_fold:
  "map_of env var = Some v \<Longrightarrow>
     map_of (foldl (\<lambda>env p. case map_of env var of
               Some v \<Rightarrow> AList.update var (v @ sep @ p) env | None \<Rightarrow> env) env paths)
     = (map_of env)(var \<mapsto> v @ concat (map (\<lambda>p. sep @ p) paths))"
  by (induction paths arbitrary: env v) (auto simp: fun_upd_idem)

lemma extend_path_map:
  "map_of (extend_path var sep paths env) =
     (map_of env)(var \<mapsto> (case map_of env var of None \<Rightarrow> [] | Some v \<Rightarrow> v) @ concat (map (\<lambda>p. sep @ p) paths))"
  by (auto simp: extend_path_def Let_def has_key_def extend_path_fold)

text \<open>
  On Linux \<open>make_paths\<close> appends the module directories, in order, to \<open>LD_LIBRARY_PATH\<close>, touches
  no other variable but \<open>PYTHONPATH\<close>, and leaves in \<open>PYTHONPATH\<close> only the bindings directory: the
  value the user had set is gone, and if there was one the directory stands there twice.
\<close>
theorem make_paths_linux:
  assumes "NS3_MODULE_PATH cfg = Some paths"
  shows "\<exists>env'. make_paths ''linux'' cfg env = Inr env'
    \<and> map_of env' ''LD_LIBRARY_PATH''
        = Some ((case map_of env ''LD_LIBRARY_PATH'' of None \<Rightarrow> [] | Some v \<Rightarrow> v) @ concat (map (\<lambda>p. '':'' @ p) paths))
    \<and> (let pypath = path_join (path_join (NS3_BUILDDIR cfg) ''bindings'') ''python''
       in map_of env' ''PYTHONPATH'' = Some (if has_key env ''PYTHONPATH'' then pypath @ '':'' @ pypath else pypath))
    \<and> (\<forall>var. var \<noteq> ''LD_LIBRARY_PATH'' \<longrightarrow> var \<noteq> ''PYTHONPATH'' \<longrightarrow> map_of env' var = map_of env var)"
  using assms by (simp add: make_paths_def global_def extend_path_map Let_def)

theorem make_paths_linux_witness:
  "\<exists>env'. make_paths ''linux'' (initial_config\<lparr>NS3_BUILDDIR := ''/b'', NS3_MODULE_PATH := Some [''/b'', ''/c'']\<rparr>)
       [(''PYTHONPATH'', ''/mine'')] = Inr env'
     \<and> map_of env' ''PYTHONPATH'' = Some ''/b/bindings/python:/b/bindings/python''"
  using make_paths_linux [of "initial_config\<lparr>NS3_BUILDDIR := ''/b'', NS3_MODULE_PATH := Some [''/b'', ''/c'']\<rparr>"
      "[''/b'', ''/c'']" "[(''PYTHONPATH'', ''/mine'')]"]
  by (auto simp: has_key_def path_join_def)

end
