(* ===== verification/Test_Jobs.thy ===== *)
theory Test_Jobs
  imports Test_Config
begin

text \<open>
  The first half of \<open>run_tests\<close> in \<^verbatim>\<open>test.py\<close>: the \<open>Job\<close> class, the choice of the test suites, and the
  jobs that are put into the queue for suites, C++ examples and Python examples.  The outside
  world is a record of functions: files, processes, and \<open>eval\<close> and \<open>exec\<close> on the texts that
  the program evaluates.
\<close>

section \<open>Jobs\<close>

record job =
  is_break :: bool
  is_skip :: bool
  skip_reason :: string
  is_example :: bool
  is_pyexample :: bool
  shell_command :: string
  display_name :: string
  basedir :: string
  tempdir :: string
  cwd :: string
  tmp_file_name :: string
  returncode :: int
  elapsed_time :: rat
  build_path :: string

text \<open>\<open>Job()\<close>; the initial return code \<open>False\<close> equals 0.\<close>

definition new_job :: job where
  "new_job = \<lparr> is_break = False, is_skip = False, skip_reason = [], is_example = False, is_pyexample = False,
     shell_command = [], display_name = [], basedir = [], tempdir = [], cwd = [], tmp_file_name = [],
     returncode = 0, elapsed_time = 0, build_path = [] \<rparr>"

definition break_job :: job where
  "break_job = new_job\<lparr>is_break := True\<rparr>"

definition skip_job :: "string \<Rightarrow> job \<Rightarrow> job" where
  "skip_job reason j = j\<lparr>is_skip := True, skip_reason := reason\<rparr>"

section \<open>The world outside\<close>

record test_env =
  env_fs :: file_system
  env_eval_path :: "string \<Rightarrow> string res"
  env_exec :: "string \<Rightarrow> test_config \<Rightarrow> test_config res"
  env_eval_strings :: "string \<Rightarrow> (string list) res"
  env_eval_tuples :: "string \<Rightarrow> (string list list) res"
  env_eval_bool :: "test_config \<Rightarrow> string \<Rightarrow> bool res"
  env_popen :: "string \<Rightarrow> string \<Rightarrow> proc_result"
  env_platform :: string
  env_cwd :: string
  env_environ :: "(string, string) dict"
  env_date_and_time :: string
  env_sysconf :: "int option"
  env_sysctl :: "int option"

text \<open>\<open>b.decode()\<close> on bytes that are not text raises \<open>UnicodeDecodeError\<close>, a \<open>ValueError\<close>.\<close>

definition decode_text :: "proc_text \<Rightarrow> string res" where
  "decode_text t = (case t of Text s \<Rightarrow> Inr s | Bytes _ \<Rightarrow> Inl (ValueError ''UnicodeDecodeError''))"

definition runner_output :: "test_env \<Rightarrow> test_config \<Rightarrow> string \<Rightarrow> (int \<times> proc_text) res" where
  "runner_output env cfg arguments =
     res_bind (run_job_synchronously (env_popen env) cfg
                 (path_join ''utils'' (program_name cfg ''test-runner'' @ arguments)) (env_cwd env) False False [])
       (\<lambda>(rc, standard_out, standard_err, et). Inr (rc, standard_out))"

section \<open>Building first\<close>

definition waf_command :: "test_options \<Rightarrow> string" where
  "waf_command opts =
     (if opt_kinds opts \<or> opt_list opts \<or> (opt_constrain opts \<noteq> [] \<and> opt_constrain opts \<in> set core_kinds)
      then ''./waf --target=test-runner''
      else if opt_example opts \<noteq> [] then ''./waf --target='' @ path_basename (opt_example opts)
      else ''./waf'')"

definition runnable_dictionary :: "string list \<Rightarrow> (string, string) dict" where
  "runnable_dictionary programs = foldl (\<lambda>d program. AList.update (path_basename program) program d) [] programs"

definition build_status :: "test_env \<Rightarrow> test_config \<Rightarrow> (string list \<times> string list) res" where
  "build_status env cfg =
     (let build_status_file = path_join (NS3_BUILDDIR cfg) ''build-status.py''
      in if env_fs env build_status_file \<noteq> None then
           res_bind (get_list_from_file (env_fs env) (env_eval_strings env) build_status_file ''ns3_runnable_programs'') (\<lambda>programs.
           res_bind (get_list_from_file (env_fs env) (env_eval_strings env) build_status_file ''ns3_runnable_scripts'') (\<lambda>scripts.
             Inr (programs, scripts)))
         else Inl (SystemExit 2))"

section \<open>Listing\<close>

definition print_kinds :: "test_env \<Rightarrow> test_config \<Rightarrow> (proc_text list) res" where
  "print_kinds env cfg =
     res_bind (runner_output env cfg '' --print-test-type-list'') (\<lambda>(rc, standard_out). Inr [standard_out])"

definition print_list ::
    "test_env \<Rightarrow> test_config \<Rightarrow> test_options \<Rightarrow> string list \<Rightarrow> (proc_text list) res" where
  "print_list env cfg opts names =
     res_bind (runner_output env cfg
        (if opt_constrain opts \<noteq> []
         then '' --print-test-name-list --print-test-types --test-type='' @ opt_constrain opts
         else '' --print-test-name-list --print-test-types'')) (\<lambda>(rc, standard_out).
       if rc \<noteq> 0 then
         Inr (map Text [''test.py error:  test-runner return code returned '' @ show_int rc,
           ''To debug, try running '' @ [CHR 0x27] @ ''./waf --run '' @ [DQ]
             @ ''test-runner --print-test-name-list'' @ [DQ] @ [CHR 0x27] @ [NL]])
       else
         res_bind (decode_text standard_out) (\<lambda>out.
           let list_items = sort (py_split NL out)
           in Inr (map Text (
                [''Test Type    Test Name'', ''---------    ---------'']
                @ filter (\<lambda>item. py_strip item \<noteq> []) list_items
                @ map (\<lambda>item. ''example      '' @ item) (sort names)
                @ [[]]))))"

section \<open>Choosing the suites\<close>

text \<open>The flag \<open>single_suite\<close> and the text that is split into the list of suites.\<close>

definition choose_suites ::
    "test_env \<Rightarrow> test_config \<Rightarrow> test_options \<Rightarrow> (bool \<times> proc_text) res" where
  "choose_suites env cfg opts =
     (if opt_suite opts \<noteq> [] then
        res_bind (runner_output env cfg '' --print-test-name-list'') (\<lambda>(rc, suites).
        res_bind (decode_text suites) (\<lambda>suites.
          let suites_found = fnmatch_filter (py_split NL suites) (opt_suite opts)
          in if suites_found = [] then Inl (SystemExit 2)
             else Inr (length suites_found = 1, Text (py_join [NL] suites_found))))
      else if opt_example opts = [] \<and> opt_pyexample opts = [] then
        res_bind (runner_output env cfg
           (if opt_constrain opts \<noteq> [] then '' --print-test-name-list --test-type='' @ opt_constrain opts
            else '' --print-test-name-list''))
          (\<lambda>(rc, suites). Inr (False, suites))
      else Inr (False, Text []))"

definition remove_tests :: "string list \<Rightarrow> string list \<Rightarrow> string list" where
  "remove_tests performance_test_list suite_list =
     foldl (\<lambda>l t. if t \<in> set l then remove1 t l else l) suite_list performance_test_list"

definition select_suites :: "test_env \<Rightarrow> test_config \<Rightarrow> test_options \<Rightarrow> (string list) res" where
  "select_suites env cfg opts =
     res_bind (choose_suites env cfg opts) (\<lambda>(single_suite, suites).
     res_bind (decode_text suites) (\<lambda>suites.
       let suite_list = py_split NL suites
       in if \<not> single_suite \<and> opt_constrain opts \<noteq> ''performance'' then
            res_bind (runner_output env cfg '' --print-test-name-list --test-type=performance'') (\<lambda>(rc, tests).
            res_bind (decode_text tests) (\<lambda>tests. Inr (remove_tests (py_split NL tests) suite_list)))
          else Inr suite_list))"

section \<open>Workers\<close>

definition processor_count :: "test_env \<Rightarrow> test_options \<Rightarrow> int" where
  "processor_count env opts =
     (let processors = (if env_platform env \<noteq> ''win32'' then
                          (case env_sysconf env of
                             Some n \<Rightarrow> n
                           | None \<Rightarrow> (case env_sysctl env of Some n \<Rightarrow> n | None \<Rightarrow> 1))
                        else 1)
      in if opt_process_limit opts \<noteq> 0 then
           (if processors < opt_process_limit opts then processors else opt_process_limit opts)
         else processors)"

section \<open>Dispatching\<close>

text \<open>\<open>str.upper\<close> on the ASCII letters of an option value.\<close>

definition upper_char :: "char \<Rightarrow> char" where
  "upper_char c =
     (let i = length (takeWhile (\<lambda>x. x \<noteq> c) ''abcdefghijklmnopqrstuvwxyz'')
      in if i < 26 then ''ABCDEFGHIJKLMNOPQRSTUVWXYZ'' ! i else c)"

definition suite_job ::
    "test_config \<Rightarrow> test_options \<Rightarrow> string \<Rightarrow> string \<Rightarrow> string \<Rightarrow> job" where
  "suite_job cfg opts here testpy_output_dir test =
     (let multiple = (if opt_multiple opts then [] else '' --stop-on-failure'');
          fullness = (if opt_fullness opts \<noteq> [] then '' --fullness='' @ map upper_char (opt_fullness opts)
                      else '' --fullness=QUICK'');
          j = new_job\<lparr>display_name := test,
                      tmp_file_name := path_join testpy_output_dir (test @ ''.xml''),
                      cwd := here, basedir := here, tempdir := testpy_output_dir,
                      shell_command := path_join ''utils''
                        (program_name cfg ''test-runner'' @ '' --test-name='' @ test @ multiple @ fullness)\<rparr>;
          j = (if opt_valgrind opts \<and> test \<in> set core_valgrind_skip_tests
               then skip_job ''crashes valgrind'' j else j)
      in if \<not> NSC_ENABLED cfg \<and> test \<in> set core_nsc_missing_skip_tests
         then skip_job ''requires NSC'' j else j)"

definition suite_jobs ::
    "test_config \<Rightarrow> test_options \<Rightarrow> string \<Rightarrow> string \<Rightarrow> string list \<Rightarrow> job list" where
  "suite_jobs cfg opts here testpy_output_dir suite_list =
     map (suite_job cfg opts here testpy_output_dir) (filter (\<lambda>t. t \<noteq> []) (map py_strip suite_list))"

definition example_job :: "test_options \<Rightarrow> string \<Rightarrow> string \<Rightarrow> string \<Rightarrow> string \<Rightarrow> job" where
  "example_job opts here testpy_output_dir name command =
     new_job\<lparr>is_example := True, display_name := name, cwd := testpy_output_dir, basedir := here,
             tempdir := testpy_output_dir, shell_command := command, build_path := opt_buildpath opts\<rparr>"

definition pyexample_job :: "string \<Rightarrow> string \<Rightarrow> string \<Rightarrow> job" where
  "pyexample_job here testpy_output_dir test =
     new_job\<lparr>is_pyexample := True, display_name := test, cwd := testpy_output_dir, basedir := here,
             tempdir := testpy_output_dir, shell_command := test, build_path := []\<rparr>"

text \<open>One turn of the loop over the C++ examples: no job, or the job that is put into the queue.\<close>

definition listed_example_job ::
    "(string \<Rightarrow> bool res) \<Rightarrow> test_options \<Rightarrow> string \<Rightarrow> string \<Rightarrow> (string, string) dict \<Rightarrow> cpp_test
       \<Rightarrow> (job list) res" where
  "listed_example_job ev opts here testpy_output_dir programs entry =
     (let (name, test, do_run, do_valgrind_run) = entry;
          test_name = path_basename (hd (py_split1 (CHR '' '') test))
      in if has_key programs test_name then
           res_bind (ev do_run) (\<lambda>run.
             if run then
               (let j = example_job opts here testpy_output_dir name test
                in if opt_valgrind opts then
                     res_bind (ev do_valgrind_run) (\<lambda>v.
                       Inr [if \<not> v then skip_job ''skip in valgrind runs'' j else j])
                   else Inr [j])
             else Inr [])
         else Inr [])"

definition example_jobs ::
    "(string \<Rightarrow> bool res) \<Rightarrow> test_config \<Rightarrow> test_options \<Rightarrow> string \<Rightarrow> string \<Rightarrow> (string, string) dict
       \<Rightarrow> cpp_test list \<Rightarrow> (job list) res" where
  "example_jobs ev cfg opts here testpy_output_dir programs tests =
     (if opt_suite opts = [] \<and> opt_example opts = [] \<and> opt_pyexample opts = [] then
        if (opt_constrain opts = [] \<or> opt_constrain opts = ''example'') \<and> ENABLE_EXAMPLES cfg then
          res_bind (res_map (listed_example_job ev opts here testpy_output_dir programs) tests) (\<lambda>jss. Inr (concat jss))
        else Inr []
      else if opt_example opts \<noteq> [] then
        (let example_name = program_name cfg (opt_example opts);
             example_name_key_list = fnmatch_filter (map fst programs) example_name
         in res_map (\<lambda>key. res_bind (dict_get programs key) (\<lambda>example_path.
              let example_path = path_abspath here example_path
              in Inr (example_job opts here testpy_output_dir example_path example_path))) example_name_key_list)
      else Inr [])"

definition listed_pyexample_job ::
    "(string \<Rightarrow> bool res) \<Rightarrow> test_config \<Rightarrow> test_options \<Rightarrow> string \<Rightarrow> string \<Rightarrow> string list \<Rightarrow> py_test
       \<Rightarrow> (job list) res" where
  "listed_pyexample_job ev cfg opts here testpy_output_dir scripts entry =
     (let (test, do_run) = entry;
          test_name = path_basename (hd (py_split1 (CHR '' '') test))
      in if test_name \<in> set scripts then
           res_bind (ev do_run) (\<lambda>run.
             if run then
               (let j = pyexample_job here testpy_output_dir test;
                    j = (if opt_valgrind opts then skip_job ''skip in valgrind runs'' j else j)
                in res_bind (global (ENABLE_PYTHON_BINDINGS cfg)) (\<lambda>bindings.
                     Inr [if \<not> bindings then skip_job ''requires Python bindings'' j else j]))
             else Inr [])
         else Inr [])"

definition pyexample_jobs ::
    "(string \<Rightarrow> bool res) \<Rightarrow> test_config \<Rightarrow> test_options \<Rightarrow> string \<Rightarrow> string \<Rightarrow> string list
       \<Rightarrow> py_test list \<Rightarrow> (job list) res" where
  "pyexample_jobs ev cfg opts here testpy_output_dir scripts tests =
     (if opt_suite opts = [] \<and> opt_example opts = [] \<and> opt_pyexample opts = [] then
        if (opt_constrain opts = [] \<or> opt_constrain opts = ''pyexample'') \<and> ENABLE_EXAMPLES cfg then
          res_bind (res_map (listed_pyexample_job ev cfg opts here testpy_output_dir scripts) tests) (\<lambda>jss. Inr (concat jss))
        else Inr []
      else if opt_pyexample opts \<noteq> [] then
        (if path_basename (opt_pyexample opts) \<notin> set scripts then Inr []
         else Inr [pyexample_job here testpy_output_dir (opt_pyexample opts)])
      else Inr [])"

section \<open>From the options to the queue\<close>

text \<open>
  \<open>run_tests\<close> either returns early, with its value (\<open>None\<close> for a bare \<open>return\<close>) and what it has
  printed, or goes on with the jobs, the number of workers and the output directory.
\<close>

datatype prepared =
    Returned "int option" "proc_text list"
  | Dispatched "job list" int string test_config "(string, string) dict"

definition TMP_OUTPUT_DIR :: string where
  "TMP_OUTPUT_DIR = ''testpy-output''"

definition dispatch_all ::
    "test_env \<Rightarrow> test_config \<Rightarrow> test_options \<Rightarrow> (string, string) dict \<Rightarrow> string list \<Rightarrow> example_lists
       \<Rightarrow> (string, string) dict \<Rightarrow> prepared res" where
  "dispatch_all env cfg opts programs scripts exs environ =
     (let testpy_output_dir = path_join TMP_OUTPUT_DIR (env_date_and_time env);
          ev = env_eval_bool env cfg; here = env_cwd env
      in res_bind (select_suites env cfg opts) (\<lambda>suite_list.
         res_bind (example_jobs ev cfg opts here testpy_output_dir programs (example_tests exs)) (\<lambda>examples.
         res_bind (pyexample_jobs ev cfg opts here testpy_output_dir scripts (python_tests exs)) (\<lambda>pyexamples.
           Inr (Dispatched (suite_jobs cfg opts here testpy_output_dir suite_list @ examples @ pyexamples)
                  (processor_count env opts) testpy_output_dir cfg environ)))))"

definition run_tests_prepare :: "test_env \<Rightarrow> test_options \<Rightarrow> prepared res" where
  "run_tests_prepare env opts =
     res_bind (read_waf_config (env_fs env) (env_eval_path env) (env_exec env) (env_platform env) initial_config) (\<lambda>cfg.
       let cfg = profile_suffix cfg;
           waf_rc = (if opt_nowaf opts then 0 else fst (env_popen env (waf_command opts) (env_cwd env)))
       in if waf_rc \<noteq> 0 then Inr (Returned (Some waf_rc) [])
          else
            res_bind (make_paths (env_platform env) cfg (env_environ env)) (\<lambda>environ.
            res_bind (build_status env cfg) (\<lambda>(programs, scripts).
            res_bind (collect_examples (env_fs env) (env_eval_tuples env) cfg (env_cwd env)) (\<lambda>exs.
            res_bind (if opt_kinds opts then print_kinds env cfg else Inr []) (\<lambda>kinds.
            res_bind (if opt_list opts then print_list env cfg opts (example_names_original exs) else Inr []) (\<lambda>listing.
              if opt_kinds opts \<or> opt_list opts then Inr (Returned None (kinds @ listing))
              else dispatch_all env cfg opts (runnable_dictionary programs) scripts exs
                     (AList.update ''NS_LOG'' [] environ)))))))"

section \<open>Performance tests\<close>

lemma remove_tests_filter:
  "distinct suite_list \<Longrightarrow> remove_tests perf suite_list = filter (\<lambda>t. t \<notin> set perf) suite_list"
proof (induction perf arbitrary: suite_list)
  case (Cons p perf)
  have "(if p \<in> set suite_list then remove1 p suite_list else suite_list) = filter (\<lambda>t. t \<noteq> p) suite_list"
  proof (cases "p \<in> set suite_list")
    case True
    then show ?thesis
      using Cons.prems distinct_remove1_removeAll [of suite_list p] by (simp add: removeAll_filter_not_eq eq_commute)
  next
    case False
    then have "filter (\<lambda>t. t \<noteq> p) suite_list = suite_list" by (intro filter_True) auto
    with False show ?thesis by simp
  qed
  with Cons show ?case by (simp add: remove_tests_def filter_filter conj_commute cong: filter_cong)
qed (simp add: remove_tests_def)

text \<open>
  Without an explicit suite and without \<open>--constrain=performance\<close>, when the test runner lists
  each suite once, the suites that are run are the listed ones, in the listed order, less the
  performance tests.
\<close>
theorem select_suites_default:
  assumes "opt_suite opts = []" and "opt_example opts = []" and "opt_pyexample opts = []"
    and "opt_constrain opts = []"
    and "runner_output env cfg '' --print-test-name-list'' = Inr (rc, Text suites)"
    and "runner_output env cfg '' --print-test-name-list --test-type=performance'' = Inr (rc', Text perf)"
    and "distinct (py_split NL suites)"
  shows "select_suites env cfg opts = Inr (filter (\<lambda>t. t \<notin> set (py_split NL perf)) (py_split NL suites))"
  using assms
  by (simp add: select_suites_def choose_suites_def decode_text_def remove_tests_filter)

definition sample_popen :: "string \<Rightarrow> string \<Rightarrow> proc_result" where
  "sample_popen cmd dir =
     (0, Text (if suffix ''performance'' cmd then ''slow'' @ [NL] else ''tcp'' @ [NL] @ ''slow'' @ [NL] @ ''udp'' @ [NL]),
      Text [], 1)"

definition sample_env :: test_env where
  "sample_env = \<lparr> env_fs = (\<lambda>p.
         if p = ''.lock-waf_linux_build'' then Some [''top_dir = /w'' @ [NL], ''out_dir = /b'' @ [NL]]
         else if p = ''/b/c4che/_cache.py'' then Some [''VERSION = 3'' @ [NL]]
         else if p = ''/b/build-status.py'' then Some [] else None),
       env_eval_path = Inr,
       env_exec = (\<lambda>line cfg. Inr (cfg\<lparr>NS3_MODULE_PATH := Some [''/b''], NS3_ENABLED_MODULES := Some [],
          NS3_ENABLED_CONTRIBUTED_MODULES := Some [], BUILD_PROFILE := ''debug'', PYTHON := [''python3'']\<rparr>)),
       env_eval_strings = (\<lambda>_. Inr []), env_eval_tuples = (\<lambda>_. Inr []), env_eval_bool = (\<lambda>_ _. Inr True),
       env_popen = sample_popen, env_platform = ''linux'', env_cwd = ''/w'', env_environ = [],
       env_date_and_time = ''now'', env_sysconf = Some 4, env_sysctl = None \<rparr>"

theorem select_suites_default_witness:
  "select_suites sample_env initial_config default_options = Inr [''tcp'', ''udp'']"
proof -
  have 1: "runner_output sample_env initial_config '' --print-test-name-list''
      = Inr (0, Text (''tcp'' @ [NL] @ ''slow'' @ [NL] @ ''udp'' @ [NL]))" by code_simp
  have 2: "runner_output sample_env initial_config '' --print-test-name-list --test-type=performance''
      = Inr (0, Text (''slow'' @ [NL]))" by code_simp
  show ?thesis
    by (subst select_suites_default [OF _ _ _ _ 1 2]) (simp_all add: default_options_def)
qed

section \<open>The number of workers\<close>

text \<open>
  With at least one processor and a limit that is not negative, there is at least one worker
  thread and never more than the limit or the processors; a negative limit is taken over as it is,
  and then \<open>range(processors)\<close> is empty.
\<close>
theorem processor_count_bounds:
  assumes "env_platform env \<noteq> ''win32''" and "env_sysconf env = Some n" and "1 \<le> n"
  shows "(0 \<le> opt_process_limit opts \<longrightarrow>
      1 \<le> processor_count env opts \<and> processor_count env opts \<le> n
      \<and> (opt_process_limit opts \<noteq> 0 \<longrightarrow> processor_count env opts \<le> opt_process_limit opts))
    \<and> (opt_process_limit opts < 0 \<longrightarrow> processor_count env opts = opt_process_limit opts)"
  using assms by (auto simp: processor_count_def Let_def)

theorem processor_count_bounds_witness:
  "processor_count sample_env (default_options\<lparr>opt_process_limit := 2\<rparr>) = 2
   \<and> processor_count sample_env (default_options\<lparr>opt_process_limit := -1\<rparr>) = -1"
proof
  have e: "env_platform sample_env \<noteq> ''win32''" "env_sysconf sample_env = Some 4" by (simp_all add: sample_env_def)
  show "processor_count sample_env (default_options\<lparr>opt_process_limit := 2\<rparr>) = 2"
    by (simp add: processor_count_def sample_env_def)
  show "processor_count sample_env (default_options\<lparr>opt_process_limit := -1\<rparr>) = -1"
    using processor_count_bounds [OF e, of "default_options\<lparr>opt_process_limit := -1\<rparr>"] by simp
qed

section \<open>What is dispatched\<close>

text \<open>The contract of the queue: what the workers and the collecting loop rely on.\<close>

definition dispatch_ok :: "test_options \<Rightarrow> job \<Rightarrow> bool" where
  "dispatch_ok opts j \<longleftrightarrow>
     \<not> is_break j \<and> returncode j = 0 \<and> elapsed_time j = 0 \<and> \<not> (is_example j \<and> is_pyexample j)
     \<and> (\<not> is_example j \<and> \<not> is_pyexample j \<longrightarrow> tmp_file_name j \<noteq> [])
     \<and> (opt_valgrind opts \<and> \<not> is_example j \<and> \<not> is_pyexample j \<and> display_name j \<in> set core_valgrind_skip_tests
          \<longrightarrow> is_skip j)
     \<and> (opt_valgrind opts \<and> is_pyexample j \<and> opt_pyexample opts = [] \<longrightarrow> is_skip j)"

lemmas job_defs = new_job_def skip_job_def

lemma path_join_not_Nil: "b \<noteq> [] \<Longrightarrow> path_join a b \<noteq> []"
  by (auto simp: path_join_def)

lemma suite_job_ok: "dispatch_ok opts (suite_job cfg opts here dir test)"
  by (simp add: suite_job_def Let_def dispatch_ok_def job_defs path_join_not_Nil)

lemma example_job_ok:
  "dispatch_ok opts (example_job opts here dir name cmd)"
  "dispatch_ok opts (skip_job r (example_job opts here dir name cmd))"
  by (simp_all add: example_job_def dispatch_ok_def job_defs)

lemma res_map_elems:
  "res_map f xs = Inr ys \<Longrightarrow> y \<in> set ys \<Longrightarrow> \<exists>x \<in> set xs. f x = Inr y"
  by (induction xs arbitrary: ys) (auto simp: res_bind_eq_Inr)

lemma res_map_concat_elems:
  assumes "res_bind (res_map f xs) (\<lambda>jss. Inr (concat jss)) = Inr js" and "j \<in> set js"
  obtains x js' where "x \<in> set xs" and "f x = Inr js'" and "j \<in> set js'"
  using assms res_map_elems by (force simp: res_bind_eq_Inr)

lemma listed_example_job_ok:
  "listed_example_job ev opts here dir programs e = Inr js \<Longrightarrow> j \<in> set js \<Longrightarrow> dispatch_ok opts j"
  by (cases e) (auto simp: listed_example_job_def Let_def res_bind_eq_Inr example_job_ok split: if_splits)

lemma listed_pyexample_job_ok:
  "listed_pyexample_job ev cfg opts here dir scripts e = Inr js \<Longrightarrow> j \<in> set js \<Longrightarrow> dispatch_ok opts j"
  by (cases e)
     (auto simp: listed_pyexample_job_def pyexample_job_def Let_def res_bind_eq_Inr dispatch_ok_def job_defs
        split: if_splits)

lemma example_jobs_ok:
  assumes "example_jobs ev cfg opts here dir programs tests = Inr js" and "j \<in> set js"
  shows "dispatch_ok opts j"
proof (cases "opt_suite opts = [] \<and> opt_example opts = [] \<and> opt_pyexample opts = []")
  case True
  then show ?thesis
    using assms by (auto simp: example_jobs_def split: if_splits elim!: res_map_concat_elems dest: listed_example_job_ok)
next
  case False
  then show ?thesis
    using assms by (auto simp: example_jobs_def Let_def res_bind_eq_Inr example_job_ok split: if_splits
        dest!: res_map_elems)
qed

lemma pyexample_jobs_ok:
  assumes "pyexample_jobs ev cfg opts here dir scripts tests = Inr js" and "j \<in> set js"
  shows "dispatch_ok opts j"
proof (cases "opt_suite opts = [] \<and> opt_example opts = [] \<and> opt_pyexample opts = []")
  case True
  then show ?thesis
    using assms
    by (auto simp: pyexample_jobs_def split: if_splits elim!: res_map_concat_elems dest: listed_pyexample_job_ok)
next
  case False
  then show ?thesis
    using assms
    by (auto simp: pyexample_jobs_def pyexample_job_def dispatch_ok_def job_defs split: if_splits)
qed

lemma prepare_dispatch_ok:
  assumes "run_tests_prepare env opts = Inr (Dispatched jobs n dir cfg environ)" and "j \<in> set jobs"
  shows "dispatch_ok opts j"
proof -
  from assms(1) obtain cfg' programs scripts exs environ' where
    "dispatch_all env cfg' opts programs scripts exs environ' = Inr (Dispatched jobs n dir cfg environ)"
    by (auto simp: run_tests_prepare_def Let_def res_bind_eq_Inr split: if_splits prod.splits)
  then obtain suites here d ex py ev where js: "jobs = suite_jobs cfg' opts here d suites @ ex @ py"
    and "example_jobs ev cfg' opts here d programs (example_tests exs) = Inr ex"
    and "pyexample_jobs ev cfg' opts here d scripts (python_tests exs) = Inr py"
    unfolding dispatch_all_def Let_def by (auto simp: res_bind_eq_Inr)
  then show ?thesis
    using assms(2) example_jobs_ok pyexample_jobs_ok by (auto simp: suite_jobs_def suite_job_ok)
qed

text \<open>
  C37: every job that \<open>run_tests\<close> dispatches is a fresh job, no break, of one kind only, with a results
  file if it is a suite; and under \<open>--grind\<close> no suite that kills valgrind and no listed Python example
  is launched: each of them is marked as skipped.
\<close>
theorem run_tests_dispatch_ok:
  assumes "run_tests_prepare env opts = Inr (Dispatched jobs n dir cfg environ)" and "j \<in> set jobs"
  shows "dispatch_ok opts j"
  using assms by (rule prepare_dispatch_ok)

definition dispatched_jobs :: "prepared res \<Rightarrow> job list" where
  "dispatched_jobs r = (case r of Inr (Dispatched jobs _ _ _ _) \<Rightarrow> jobs | _ \<Rightarrow> [])"

theorem run_tests_dispatch_ok_witness:
  "\<exists>jobs n dir cfg environ.
     run_tests_prepare sample_env (default_options\<lparr>opt_nowaf := True\<rparr>) = Inr (Dispatched jobs n dir cfg environ)
     \<and> map display_name jobs = [''tcp'', ''udp'']
     \<and> list_all (dispatch_ok (default_options\<lparr>opt_nowaf := True\<rparr>)) jobs"
proof -
  let ?r = "run_tests_prepare sample_env (default_options\<lparr>opt_nowaf := True\<rparr>)"
  have "map display_name (dispatched_jobs ?r) = [''tcp'', ''udp'']" by code_simp
  then obtain jobs n dir cfg environ where r: "?r = Inr (Dispatched jobs n dir cfg environ)"
    and "map display_name jobs = [''tcp'', ''udp'']"
    by (auto simp: dispatched_jobs_def split: sum.splits prepared.splits)
  with run_tests_dispatch_ok [OF r] show ?thesis by (auto simp: list_all_iff)
qed

end
