(* ===== verification/Test_Pool.thy ===== *)
theory Test_Pool
  imports Test_Jobs
begin

text \<open>
  The worker threads of \<^verbatim>\<open>test.py\<close> and the main thread as one step relation.  The main thread puts
  the jobs and one break per worker into the input queue, takes as many results as it put jobs,
  and joins the threads; each worker takes jobs until it meets a break; the interrupt handler may
  set \<open>thread_exit\<close> at any moment.  Queues are unbounded FIFO lists, \<open>get\<close> on an empty queue
  blocks.
\<close>

section \<open>A worker\<close>

text \<open>What \<open>worker_thread.run\<close> does with a job that is not a break: the job it puts into the output queue.\<close>

definition worker_process ::
    "(string \<Rightarrow> string \<Rightarrow> proc_result) \<Rightarrow> test_config \<Rightarrow> test_options \<Rightarrow> bool \<Rightarrow> job \<Rightarrow> job res" where
  "worker_process popen cfg opts thread_exit job =
     (if thread_exit then Inr (job\<lparr>is_break := True\<rparr>)
      else if is_skip job then Inr job
      else
        res_bind
          (if is_example job \<or> is_pyexample job then
             run_job_synchronously popen cfg (shell_command job) (cwd job) (opt_valgrind opts)
               (is_pyexample job) (build_path job)
           else
             (let update_data = (if opt_update_data opts then ''--update-data'' else [])
              in run_job_synchronously popen cfg
                   (shell_command job @ '' --xml --tempdir='' @ tempdir job @ '' --out='' @ tmp_file_name job
                    @ '' '' @ update_data)
                   (cwd job) (opt_valgrind opts) False []))
          (\<lambda>(rc, standard_out, standard_err, et). Inr (job\<lparr>returncode := rc, elapsed_time := et\<rparr>)))"

section \<open>The pool\<close>

text \<open>
  A worker waits, holds a job, has returned, or has died of an exception.  \<open>clock\<close> counts the
  launches, so that each run of a process may have its own outcome.
\<close>

datatype worker = Waiting | Busy job | Exited | Died

record pool =
  todo :: "job list"
  input_queue :: "job list"
  output_queue :: "job list"
  workers :: "worker list"
  thread_exit :: bool
  clock :: nat
  expected :: nat
  collected :: "job list"
  joined :: bool
  pool_cfg :: test_config
  pool_opts :: test_options

definition start_pool :: "test_config \<Rightarrow> test_options \<Rightarrow> job list \<Rightarrow> int \<Rightarrow> pool" where
  "start_pool cfg opts jobs processors =
     \<lparr> todo = jobs @ replicate (nat processors) break_job, input_queue = [], output_queue = [],
       workers = replicate (nat processors) Waiting, thread_exit = False, clock = 0,
       expected = length jobs, collected = [], joined = False, pool_cfg = cfg, pool_opts = opts \<rparr>"

inductive pool_step :: "(nat \<Rightarrow> string \<Rightarrow> string \<Rightarrow> proc_result) \<Rightarrow> pool \<Rightarrow> pool \<Rightarrow> bool"
  for popen :: "nat \<Rightarrow> string \<Rightarrow> string \<Rightarrow> proc_result" where
  put: "todo s = j # js \<Longrightarrow>
     pool_step popen s (s\<lparr>todo := js, input_queue := input_queue s @ [j]\<rparr>)"
| get: "i < length (workers s) \<Longrightarrow> workers s ! i = Waiting \<Longrightarrow> input_queue s = j # q \<Longrightarrow> \<not> is_break j \<Longrightarrow>
     pool_step popen s (s\<lparr>input_queue := q, workers := (workers s)[i := Busy j]\<rparr>)"
| get_break: "i < length (workers s) \<Longrightarrow> workers s ! i = Waiting \<Longrightarrow> input_queue s = j # q \<Longrightarrow> is_break j \<Longrightarrow>
     pool_step popen s (s\<lparr>input_queue := q, workers := (workers s)[i := Exited]\<rparr>)"
| work: "i < length (workers s) \<Longrightarrow> workers s ! i = Busy j \<Longrightarrow>
     worker_process (popen (clock s)) (pool_cfg s) (pool_opts s) (thread_exit s) j = Inr j' \<Longrightarrow>
     pool_step popen s (s\<lparr>output_queue := output_queue s @ [j'], workers := (workers s)[i := Waiting],
                          clock := Suc (clock s)\<rparr>)"
| die: "i < length (workers s) \<Longrightarrow> workers s ! i = Busy j \<Longrightarrow>
     worker_process (popen (clock s)) (pool_cfg s) (pool_opts s) (thread_exit s) j = Inl e \<Longrightarrow>
     pool_step popen s (s\<lparr>workers := (workers s)[i := Died]\<rparr>)"
| signal: "\<not> thread_exit s \<Longrightarrow> pool_step popen s (s\<lparr>thread_exit := True\<rparr>)"
| collect: "todo s = [] \<Longrightarrow> expected s = Suc n \<Longrightarrow> output_queue s = j # q \<Longrightarrow>
     pool_step popen s (s\<lparr>output_queue := q, expected := n, collected := collected s @ [j]\<rparr>)"
| join: "todo s = [] \<Longrightarrow> expected s = 0 \<Longrightarrow> \<not> joined s \<Longrightarrow>
     (\<forall>w \<in> set (workers s). w = Exited \<or> w = Died) \<Longrightarrow>
     pool_step popen s (s\<lparr>joined := True\<rparr>)"

inductive_cases pool_stepE [elim]: "pool_step popen s t"

section \<open>Conservation of jobs\<close>

text \<open>A job as it was dispatched: the fields that a worker may write are reset.\<close>

definition ident :: "job \<Rightarrow> job" where
  "ident j = j\<lparr>is_break := False, returncode := 0, elapsed_time := 0\<rparr>"

definition busy_jobs :: "worker list \<Rightarrow> job list" where
  "busy_jobs ws = concat (map (\<lambda>w. case w of Busy j \<Rightarrow> [j] | _ \<Rightarrow> []) ws)"

definition real_jobs :: "job list \<Rightarrow> job list" where
  "real_jobs js = filter (\<lambda>j. \<not> is_break j) js"

definition in_flight :: "pool \<Rightarrow> job multiset" where
  "in_flight s = mset (map ident (real_jobs (input_queue s @ todo s) @ busy_jobs (workers s)
                                  @ output_queue s @ collected s))"

lemma ident_worker_process:
  "worker_process popen cfg opts x j = Inr j' \<Longrightarrow> ident j' = ident j"
  by (auto simp: worker_process_def ident_def Let_def res_bind_eq_Inr split: if_splits)

lemma mset_busy_jobs: "mset (busy_jobs ws) = sum_mset (image_mset (\<lambda>w. case w of Busy j \<Rightarrow> {#j#} | _ \<Rightarrow> {#}) (mset ws))"
  unfolding busy_jobs_def by (induction ws) (auto split: worker.splits)

lemma mset_busy_update:
  assumes "i < length ws"
  shows "mset (busy_jobs (ws[i := w])) + (case ws ! i of Busy j \<Rightarrow> {#j#} | _ \<Rightarrow> {#})
    = mset (busy_jobs ws) + (case w of Busy j \<Rightarrow> {#j#} | _ \<Rightarrow> {#})"
proof -
  let ?g = "\<lambda>w. case w of Busy j \<Rightarrow> {#j#} | _ \<Rightarrow> {#}"
  have e: "mset ws = add_mset (ws ! i) (mset ws - {#ws ! i#})" using assms by simp
  have u: "mset (ws[i := w]) = add_mset w (mset ws - {#ws ! i#})" using assms by (rule mset_update)
  show ?thesis
    unfolding mset_busy_jobs u by (subst (2) e) (simp add: add_ac)
qed

lemma length_busy_update:
  assumes "i < length ws"
  shows "length (busy_jobs (ws[i := w])) + (case ws ! i of Busy j \<Rightarrow> 1 | _ \<Rightarrow> 0)
    = length (busy_jobs ws) + (case w of Busy j \<Rightarrow> 1 | _ \<Rightarrow> 0)"
  using arg_cong [OF mset_busy_update [OF assms, of w], of size] by (simp split: worker.splits)

definition exited :: "worker list \<Rightarrow> nat" where
  "exited ws = count (mset ws) Exited"

lemma exited_update:
  assumes "i < length ws"
  shows "exited (ws[i := w]) + (if ws ! i = Exited then 1 else 0) = exited ws + (if w = Exited then 1 else 0)"
proof -
  have "ws ! i \<in># mset ws" using assms by simp
  then have "ws ! i = Exited \<Longrightarrow> 0 < count (mset ws) Exited" by (simp only: count_greater_zero_iff)
  then show ?thesis using assms by (auto simp: exited_def mset_update)
qed

lemma set_busy_update:
  "i < length ws \<Longrightarrow> set (busy_jobs (ws[i := w])) \<subseteq> set (busy_jobs ws) \<union> (case w of Busy j \<Rightarrow> {j} | _ \<Rightarrow> {})"
  by (auto simp: busy_jobs_def dest!: subsetD [OF set_update_subset_insert] split: worker.splits)

lemma busy_jobs_nth: "i < length ws \<Longrightarrow> ws ! i = Busy j \<Longrightarrow> j \<in> set (busy_jobs ws)"
  using nth_mem [of i ws] by (force simp: busy_jobs_def)

text \<open>
  The parts of the invariant: no job is lost or doubled; the queue holds real jobs before breaks, as
  many breaks as there are workers left, and no worker leaves while a real job waits; the main
  thread still expects what it has not collected; without an interrupt no job comes back as a break.
\<close>

definition jobs_inv :: "job multiset \<Rightarrow> pool \<Rightarrow> bool" where
  "jobs_inv J s \<longleftrightarrow> in_flight s = J \<and> expected s + length (collected s) = size J"

definition queue_inv :: "nat \<Rightarrow> pool \<Rightarrow> bool" where
  "queue_inv n s \<longleftrightarrow>
     length (workers s) = n
     \<and> (\<exists>rs k. input_queue s @ todo s = rs @ replicate k break_job \<and> (\<forall>j \<in> set rs. \<not> is_break j)
           \<and> k + exited (workers s) = n \<and> (exited (workers s) > 0 \<longrightarrow> rs = []))"

definition alive_inv :: "pool \<Rightarrow> bool" where
  "alive_inv s \<longleftrightarrow> Died \<notin> set (workers s) \<and> PYTHON (pool_cfg s) \<noteq> []"

definition break_inv :: "pool \<Rightarrow> bool" where
  "break_inv s \<longleftrightarrow> (\<forall>j \<in> set (busy_jobs (workers s)). \<not> is_break j)
     \<and> (\<not> thread_exit s \<longrightarrow> (\<forall>j \<in> set (output_queue s @ collected s). \<not> is_break j))"

definition joined_inv :: "pool \<Rightarrow> bool" where
  "joined_inv s \<longleftrightarrow> (joined s \<longrightarrow> todo s = [] \<and> expected s = 0 \<and> set (workers s) \<subseteq> {Exited})"

definition pool_inv :: "job multiset \<Rightarrow> nat \<Rightarrow> pool \<Rightarrow> bool" where
  "pool_inv J n s \<longleftrightarrow> 0 < n \<and> jobs_inv J s \<and> queue_inv n s \<and> alive_inv s \<and> break_inv s \<and> joined_inv s"

lemma real_jobs_simps [simp]:
  "real_jobs [] = []" "real_jobs (xs @ ys) = real_jobs xs @ real_jobs ys"
  "real_jobs (j # js) = (if is_break j then real_jobs js else j # real_jobs js)"
  by (simp_all add: real_jobs_def)

lemma worker_process_total:
  assumes "PYTHON cfg \<noteq> []"
  shows "\<exists>j'. worker_process popen cfg opts x j = Inr j'"
proof -
  have "\<exists>r. run_job_synchronously popen cfg c d v p b = Inr r" for c d v p b
    using assms by (auto simp: run_job_synchronously_def job_command_def Let_def py_index_def split: prod.splits)
  then show ?thesis
    by (auto simp: worker_process_def Let_def res_bind_def split: sum.splits prod.splits) (metis sum.distinct(1))+
qed

lemma worker_process_break:
  "worker_process popen cfg opts False j = Inr j' \<Longrightarrow> is_break j' = is_break j"
  by (auto simp: worker_process_def Let_def res_bind_eq_Inr split: if_splits)

lemma jobs_inv_step:
  assumes "jobs_inv J s" and "alive_inv s" and "pool_step popen s t"
  shows "jobs_inv J t"
  using assms(3)
proof cases
  case (put j js)
  with assms(1) show ?thesis by (auto simp: jobs_inv_def in_flight_def)
next
  case (get i j q)
  with assms(1) mset_busy_update [of i "workers s" "Busy j"] show ?thesis
    by (simp add: jobs_inv_def in_flight_def)
next
  case (get_break i j q)
  with assms(1) mset_busy_update [of i "workers s" Exited] show ?thesis
    by (simp add: jobs_inv_def in_flight_def)
next
  case (work i j j')
  have "mset (busy_jobs (workers s)) = add_mset j (mset (busy_jobs ((workers s)[i := Waiting])))"
    using work mset_busy_update [of i "workers s" Waiting] by simp
  with work(1) assms(1) ident_worker_process [OF work(4)] show ?thesis
    by (simp add: jobs_inv_def in_flight_def)
next
  case (die i j e)
  with assms(2) worker_process_total show ?thesis unfolding alive_inv_def by (metis sum.distinct(1))
next
  case signal
  with assms(1) show ?thesis by (simp add: jobs_inv_def in_flight_def)
next
  case (collect n j q)
  with assms(1) show ?thesis by (auto simp: jobs_inv_def in_flight_def)
next
  case join
  with assms(1) show ?thesis by (simp add: jobs_inv_def in_flight_def)
qed

lemma alive_inv_step:
  assumes "alive_inv s" and "pool_step popen s t"
  shows "alive_inv t"
  using assms(2)
proof cases
  case (die i j e)
  with assms(1) worker_process_total show ?thesis unfolding alive_inv_def by (metis sum.distinct(1))
qed (use assms(1) in \<open>auto simp: alive_inv_def dest!: subsetD [OF set_update_subset_insert]\<close>)

lemma break_inv_step:
  assumes "break_inv s" and "pool_step popen s t"
  shows "break_inv t"
  using assms(2)
proof cases
  case (get i j q)
  with assms(1) set_busy_update [of i "workers s" "Busy j"] show ?thesis by (auto simp: break_inv_def)
next
  case (get_break i j q)
  with assms(1) set_busy_update [of i "workers s" Exited] show ?thesis by (auto simp: break_inv_def)
next
  case (work i j j')
  then have "\<not> is_break j" using assms(1) busy_jobs_nth by (auto simp: break_inv_def)
  moreover have "\<not> thread_exit s \<Longrightarrow> is_break j' = is_break j"
    using work(4) worker_process_break by (cases "thread_exit s") auto
  ultimately show ?thesis
    using work(1,2) assms(1) set_busy_update [of i "workers s" Waiting] by (auto simp: break_inv_def)
next
  case (die i j e)
  with assms(1) set_busy_update [of i "workers s" Died] show ?thesis by (auto simp: break_inv_def)
qed (use assms(1) in \<open>auto simp: break_inv_def\<close>)

lemma joined_inv_step:
  assumes "joined_inv s" and "queue_inv n s" and "alive_inv s" and "pool_step popen s t"
  shows "joined_inv t"
  using assms(4)
proof cases
  case (get i j q)
  have "Waiting \<in> set (workers s)" using get by (metis nth_mem)
  with get assms(1) show ?thesis by (auto simp: joined_inv_def)
next
  case (get_break i j q)
  have "Waiting \<in> set (workers s)" using get_break by (metis nth_mem)
  with get_break assms(1) show ?thesis by (auto simp: joined_inv_def)
next
  case (work i j j')
  have "Busy j \<in> set (workers s)" using work by (metis nth_mem)
  with work assms(1) show ?thesis by (auto simp: joined_inv_def)
next
  case (die i j e)
  have "Busy j \<in> set (workers s)" using die by (metis nth_mem)
  with die assms(1) show ?thesis by (auto simp: joined_inv_def)
qed (use assms(1,3) in \<open>auto simp: joined_inv_def alive_inv_def\<close>)


lemma queue_head:
  assumes "j # q @ js = rs @ replicate k break_job" and "\<forall>j \<in> set rs. \<not> is_break j"
  shows "\<not> is_break j \<Longrightarrow> \<exists>rs'. rs = j # rs' \<and> q @ js = rs' @ replicate k break_job"
    and "is_break j \<Longrightarrow> rs = [] \<and> (\<exists>k'. k = Suc k' \<and> q @ js = replicate k' break_job)"
proof -
  have b: "is_break break_job" by (simp add: break_job_def)
  show "\<not> is_break j \<Longrightarrow> \<exists>rs'. rs = j # rs' \<and> q @ js = rs' @ replicate k break_job"
    using assms b by (cases rs; cases k) auto
  show "is_break j \<Longrightarrow> rs = [] \<and> (\<exists>k'. k = Suc k' \<and> q @ js = replicate k' break_job)"
    using assms by (cases rs; cases k) auto
qed

lemma queue_inv_step:
  assumes "queue_inv n s" and "alive_inv s" and "pool_step popen s t"
  shows "queue_inv n t"
proof -
  obtain rs k where q: "length (workers s) = n" "input_queue s @ todo s = rs @ replicate k break_job"
    "\<forall>j \<in> set rs. \<not> is_break j" "k + exited (workers s) = n" "exited (workers s) > 0 \<longrightarrow> rs = []"
    using assms(1) by (auto simp: queue_inv_def)
  from assms(3) show ?thesis
  proof cases
    case (get i j qs)
    obtain rs' where "rs = j # rs'" "qs @ todo s = rs' @ replicate k break_job"
      using queue_head(1) [of j qs "todo s" rs k] get q(2,3) by auto
    moreover have "exited ((workers s)[i := Busy j]) = exited (workers s)"
      using exited_update [of i "workers s" "Busy j"] get by simp
    ultimately show ?thesis using get q by (auto simp: queue_inv_def intro!: exI [of _ rs'] exI [of _ k])
  next
    case (get_break i j qs)
    obtain k' where k: "rs = []" "k = Suc k'" "qs @ todo s = replicate k' break_job"
      using queue_head(2) [of j qs "todo s" rs k] get_break q(2,3) by auto
    moreover have "exited ((workers s)[i := Exited]) = Suc (exited (workers s))"
      using exited_update [of i "workers s" Exited] get_break by simp
    ultimately show ?thesis using get_break q by (auto simp: queue_inv_def intro!: exI [of _ "[]"] exI [of _ k'])
  next
    case (work i j j')
    have "exited ((workers s)[i := Waiting]) = exited (workers s)"
      using exited_update [of i "workers s" Waiting] work by simp
    then show ?thesis using work q by (auto simp: queue_inv_def)
  next
    case (die i j e)
    with assms(2) worker_process_total show ?thesis unfolding alive_inv_def by (metis sum.distinct(1))
  qed (use q in \<open>auto simp: queue_inv_def\<close>)
qed

lemma pool_inv_step: "pool_inv J n s \<Longrightarrow> pool_step popen s t \<Longrightarrow> pool_inv J n t"
  unfolding pool_inv_def
  using jobs_inv_step queue_inv_step alive_inv_step break_inv_step joined_inv_step by blast

section \<open>Progress and termination\<close>

definition pool_weight :: "pool \<Rightarrow> nat" where
  "pool_weight s = 4 * length (todo s) + 3 * length (input_queue s) + 2 * length (busy_jobs (workers s))
     + length (output_queue s) + (if thread_exit s then 0 else 1) + (if joined s then 0 else 1)"

definition pool_final :: "pool \<Rightarrow> bool" where
  "pool_final s \<longleftrightarrow> joined s"

lemma pool_weight_step:
  assumes "pool_inv J n s" and "pool_step popen s t"
  shows "pool_weight t < pool_weight s"
  using assms(2)
proof cases
  case (get i j q)
  with length_busy_update [of i "workers s" "Busy j"] show ?thesis by (simp add: pool_weight_def)
next
  case (get_break i j q)
  with length_busy_update [of i "workers s" Exited] show ?thesis by (simp add: pool_weight_def)
next
  case (work i j j')
  with length_busy_update [of i "workers s" Waiting] show ?thesis by (simp add: pool_weight_def)
next
  case (die i j e)
  with length_busy_update [of i "workers s" Died] show ?thesis by (simp add: pool_weight_def)
qed (auto simp: pool_weight_def)

lemma exited_all: "exited ws = length ws \<longleftrightarrow> set ws \<subseteq> {Exited}"
proof (induction ws)
  case (Cons w ws)
  have "exited ws \<le> length ws" unfolding exited_def by (metis count_le_size size_mset)
  with Cons show ?case by (auto simp: exited_def)
qed (simp add: exited_def)

lemma pool_progress:
  assumes inv: "pool_inv J n s" and nf: "\<not> pool_final s"
  shows "\<exists>t. pool_step popen s t \<and> thread_exit t = thread_exit s"
proof -
  obtain rs k where q: "length (workers s) = n" "input_queue s @ todo s = rs @ replicate k break_job"
    "\<forall>j \<in> set rs. \<not> is_break j" "k + exited (workers s) = n" "exited (workers s) > 0 \<longrightarrow> rs = []"
    using inv by (auto simp: pool_inv_def queue_inv_def)
  have alive: "Died \<notin> set (workers s)" "PYTHON (pool_cfg s) \<noteq> []"
    using inv by (simp_all add: pool_inv_def alive_inv_def)
  consider (put) j js where "todo s = j # js"
    | (work) i j where "i < length (workers s)" "workers s ! i = Busy j"
    | (get) i j qs where "i < length (workers s)" "workers s ! i = Waiting" "input_queue s = j # qs"
    | (rest) "todo s = []" "\<forall>i < length (workers s). \<forall>j. workers s ! i \<noteq> Busy j"
        "input_queue s = [] \<or> Waiting \<notin> set (workers s)"
    by (metis in_set_conv_nth list.exhaust)
  then show ?thesis
  proof cases
    case put
    show ?thesis by (rule exI, rule conjI, rule pool_step.put [OF put]) simp
  next
    case work
    from worker_process_total [OF alive(2)] obtain j' where
      "worker_process (popen (clock s)) (pool_cfg s) (pool_opts s) (thread_exit s) j = Inr j'" by blast
    from pool_step.work [where popen = popen, OF work this] show ?thesis by force
  next
    case get
    show ?thesis
    proof (cases "is_break j")
      case True
      from pool_step.get_break [OF get True] show ?thesis by force
    next
      case False
      from pool_step.get [OF get False] show ?thesis by force
    qed
  next
    case rest
    have nb: "\<forall>j. Busy j \<notin> set (workers s)" using rest(2) by (metis in_set_conv_nth)
    have all: "set (workers s) \<subseteq> {Exited}"
    proof (cases "input_queue s = []")
      case True
      then have "k = 0" using q(2) rest(1) by simp
      with q(1,4) exited_all [of "workers s"] show ?thesis by simp
    next
      case False
      show ?thesis
      proof
        fix w assume "w \<in> set (workers s)"
        with False rest(3) nb alive(1) show "w \<in> {Exited}" by (cases w) auto
      qed
    qed
    then have ex: "exited (workers s) = n" using exited_all q(1) by metis
    have "0 < n" using inv by (simp add: pool_inv_def)
    with ex q have e: "input_queue s = []" by auto
    have "busy_jobs (workers s) = []" using nb by (auto simp: busy_jobs_def split: worker.splits)
    then have "size J = length (output_queue s) + length (collected s)" "expected s + length (collected s) = size J"
      using inv e rest(1) by (auto simp: pool_inv_def jobs_inv_def in_flight_def)
    then have x: "expected s = length (output_queue s)" by simp
    show ?thesis
    proof (cases "output_queue s")
      case Nil
      then have "pool_step popen s (s\<lparr>joined := True\<rparr>)"
        using x rest(1) all nf by (intro pool_step.join) (auto simp: pool_final_def)
      then show ?thesis by force
    next
      case (Cons j qs)
      with x have "expected s = Suc (length qs)" by simp
      from pool_step.collect [OF rest(1) this Cons] show ?thesis by force
    qed
  qed
qed

text \<open>The start state: at least one worker, jobs that are no breaks, a configured interpreter.\<close>

definition pool_start :: "job multiset \<Rightarrow> nat \<Rightarrow> pool \<Rightarrow> bool" where
  "pool_start J n s \<longleftrightarrow> (\<exists>cfg opts jobs. s = start_pool cfg opts jobs (int n) \<and> J = mset (map ident jobs)
     \<and> (\<forall>j \<in> set jobs. \<not> is_break j) \<and> PYTHON cfg \<noteq> [] \<and> 0 < n)"

lemma pool_start_inv: "pool_start J n s \<Longrightarrow> pool_inv J n s"
proof -
  assume "pool_start J n s"
  then obtain cfg opts jobs where s: "s = start_pool cfg opts jobs (int n)" "J = mset (map ident jobs)"
    "\<forall>j \<in> set jobs. \<not> is_break j" "PYTHON cfg \<noteq> []" "0 < n" by (auto simp: pool_start_def)
  have r: "real_jobs jobs = jobs" "real_jobs (replicate n break_job) = []"
    using s(3) by (auto simp: real_jobs_def break_job_def filter_id_conv)
  have b: "busy_jobs (replicate n Waiting) = []" by (simp add: busy_jobs_def)
  have e: "exited (replicate n Waiting) = 0" by (simp add: exited_def)
  show "pool_inv J n s"
    unfolding pool_inv_def s(1) start_pool_def
    using s(2-5) r b e
    by (auto simp: jobs_inv_def in_flight_def queue_inv_def alive_inv_def break_inv_def joined_inv_def
        intro!: exI [of _ jobs])
qed

interpretation test_pool: terminating_system "pool_start J n" "pool_step popen" "pool_inv J n" pool_weight pool_final
  for J n popen
proof
  show "pool_start J n s \<Longrightarrow> pool_inv J n s" for s by (rule pool_start_inv)
  show "pool_inv J n s \<Longrightarrow> pool_step popen s t \<Longrightarrow> pool_inv J n t" for s t by (rule pool_inv_step)
  show "pool_inv J n s \<Longrightarrow> pool_step popen s t \<Longrightarrow> pool_weight t < pool_weight s" for s t by (rule pool_weight_step)
  show "pool_inv J n s \<Longrightarrow> \<not> pool_final s \<Longrightarrow> \<exists>t. pool_step popen s t" for s using pool_progress by blast
qed

text \<open>The same system without the interrupt.\<close>

definition quiet_step :: "(nat \<Rightarrow> string \<Rightarrow> string \<Rightarrow> proc_result) \<Rightarrow> pool \<Rightarrow> pool \<Rightarrow> bool" where
  "quiet_step popen s t \<longleftrightarrow> pool_step popen s t \<and> thread_exit t = thread_exit s"

interpretation quiet_pool: terminating_system "pool_start J n" "quiet_step popen" "pool_inv J n" pool_weight pool_final
  for J n popen
proof
  show "pool_start J n s \<Longrightarrow> pool_inv J n s" for s by (rule pool_start_inv)
  show "pool_inv J n s \<Longrightarrow> quiet_step popen s t \<Longrightarrow> pool_inv J n t" for s t
    unfolding quiet_step_def by (blast intro: pool_inv_step)
  show "pool_inv J n s \<Longrightarrow> quiet_step popen s t \<Longrightarrow> pool_weight t < pool_weight s" for s t
    unfolding quiet_step_def by (blast intro: pool_weight_step)
  show "pool_inv J n s \<Longrightarrow> \<not> pool_final s \<Longrightarrow> \<exists>t. quiet_step popen s t" for s
    unfolding quiet_step_def by (rule pool_progress)
qed

lemma quiet_run:
  assumes "(quiet_step popen)\<^sup>*\<^sup>* s t"
  shows "(pool_step popen)\<^sup>*\<^sup>* s t \<and> thread_exit t = thread_exit s"
  using assms
proof (induction rule: rtranclp_induct)
  case (step t u)
  then show ?case by (auto simp: quiet_step_def intro: rtranclp.rtrancl_into_rtrancl)
qed simp

lemma quiet_run_joins:
  assumes "\<forall>j \<in> set jobs. \<not> is_break j" and "PYTHON cfg \<noteq> []" and "0 < n"
  shows "\<exists>s. (pool_step popen)\<^sup>*\<^sup>* (start_pool cfg opts jobs (int n)) s \<and> joined s \<and> \<not> thread_exit s"
proof -
  have "pool_start (mset (map ident jobs)) n (start_pool cfg opts jobs (int n))"
    using assms unfolding pool_start_def by blast
  from quiet_pool.reaches_final [OF pool_start_inv [OF this]] obtain s where
    "(quiet_step popen)\<^sup>*\<^sup>* (start_pool cfg opts jobs (int n)) s" "joined s" by (auto simp: pool_final_def)
  with quiet_run show ?thesis by (fastforce simp: start_pool_def)
qed

section \<open>Where results come from\<close>

definition fresh :: "job \<Rightarrow> bool" where
  "fresh j \<longleftrightarrow> ident j = j"

definition outcome_of :: "(nat \<Rightarrow> string \<Rightarrow> string \<Rightarrow> proc_result) \<Rightarrow> pool \<Rightarrow> job \<Rightarrow> bool" where
  "outcome_of popen s j \<longleftrightarrow>
     (\<exists>c x. worker_process (popen c) (pool_cfg s) (pool_opts s) x (ident j) = Inr j \<and> (x \<longrightarrow> thread_exit s))"

definition result_inv :: "(nat \<Rightarrow> string \<Rightarrow> string \<Rightarrow> proc_result) \<Rightarrow> pool \<Rightarrow> bool" where
  "result_inv popen s \<longleftrightarrow>
     (\<forall>j \<in> set (todo s @ input_queue s). \<not> is_break j \<longrightarrow> fresh j)
     \<and> (\<forall>j \<in> set (busy_jobs (workers s)). fresh j)
     \<and> (\<forall>j \<in> set (output_queue s @ collected s). outcome_of popen s j)"

lemma outcome_of_cong:
  "outcome_of popen s j \<Longrightarrow> pool_cfg t = pool_cfg s \<Longrightarrow> pool_opts t = pool_opts s
     \<Longrightarrow> (thread_exit s \<Longrightarrow> thread_exit t) \<Longrightarrow> outcome_of popen t j"
  by (auto simp: outcome_of_def)

lemma pool_step_const:
  "pool_step popen s t \<Longrightarrow> pool_cfg t = pool_cfg s \<and> pool_opts t = pool_opts s \<and> (thread_exit s \<longrightarrow> thread_exit t)"
  by (erule pool_step.cases) auto

lemma fresh_dispatched: "\<not> is_break j \<Longrightarrow> returncode j = 0 \<Longrightarrow> elapsed_time j = 0 \<Longrightarrow> fresh j"
  by (cases j) (simp add: fresh_def ident_def)

lemma result_inv_step:
  assumes "result_inv popen s" and "pool_step popen s t"
  shows "result_inv popen t"
proof -
  have keep: "\<forall>j \<in> set (output_queue s @ collected s). outcome_of popen t j"
    using assms(1) pool_step_const [OF assms(2)] outcome_of_cong [of popen s _ t] by (auto simp: result_inv_def)
  from assms(2) show ?thesis
  proof cases
    case (get i j q)
    with assms(1) keep set_busy_update [of i "workers s" "Busy j"] show ?thesis by (auto simp: result_inv_def)
  next
    case (get_break i j q)
    with assms(1) keep set_busy_update [of i "workers s" Exited] show ?thesis by (auto simp: result_inv_def)
  next
    case (work i j j')
    have "ident j = j" using assms(1) work busy_jobs_nth by (auto simp: result_inv_def fresh_def)
    then have "ident j' = j" using ident_worker_process [OF work(4)] by simp
    then have "outcome_of popen t j'" using work by (auto simp: outcome_of_def)
    with work(1,2) assms(1) keep set_busy_update [of i "workers s" Waiting] show ?thesis
      by (auto simp: result_inv_def)
  next
    case (die i j e)
    with assms(1) keep set_busy_update [of i "workers s" Died] show ?thesis by (auto simp: result_inv_def)
  qed (use assms(1) keep in \<open>auto simp: result_inv_def\<close>)
qed

definition result_start :: "pool \<Rightarrow> bool" where
  "result_start s \<longleftrightarrow> (\<exists>cfg opts jobs n. s = start_pool cfg opts jobs n \<and> (\<forall>j \<in> set jobs. fresh j))"

interpretation test_results: transition_system result_start "pool_step popen" "result_inv popen"
  for popen
proof
  show "result_start s \<Longrightarrow> result_inv popen s" for s
    by (auto simp: result_start_def start_pool_def result_inv_def busy_jobs_def break_job_def)
  show "result_inv popen s \<Longrightarrow> pool_step popen s t \<Longrightarrow> result_inv popen t" for s t by (rule result_inv_step)
qed

section \<open>No workers\<close>

definition stuck_inv :: "pool \<Rightarrow> bool" where
  "stuck_inv s \<longleftrightarrow> workers s = [] \<and> output_queue s = [] \<and> 0 < expected s \<and> \<not> joined s"

definition stuck_start :: "pool \<Rightarrow> bool" where
  "stuck_start s \<longleftrightarrow> (\<exists>cfg opts jobs n. s = start_pool cfg opts jobs n \<and> n \<le> 0 \<and> jobs \<noteq> [])"

interpretation no_workers: transition_system stuck_start "pool_step popen" stuck_inv
  for popen
proof
  show "stuck_start s \<Longrightarrow> stuck_inv s" for s
    by (auto simp: stuck_start_def start_pool_def stuck_inv_def)
  show "stuck_inv s \<Longrightarrow> pool_step popen s t \<Longrightarrow> stuck_inv t" for s t
    by (auto simp: stuck_inv_def)
qed

section \<open>What the pool guarantees\<close>

text \<open>A small run: two suites, one of them skipped, one worker.\<close>

definition two_jobs :: "job list" where
  "two_jobs = [new_job\<lparr>display_name := ''tcp''\<rparr>, skip_job ''requires NSC'' (new_job\<lparr>display_name := ''nsc''\<rparr>)]"

definition run_config :: test_config where
  "run_config = initial_config\<lparr>PYTHON := [''python3'']\<rparr>"

definition run_popen :: "nat \<Rightarrow> string \<Rightarrow> string \<Rightarrow> proc_result" where
  "run_popen t cmd dir = (int t, Text [], Text [], 1)"

lemma two_jobs_fresh: "\<forall>j \<in> set two_jobs. \<not> is_break j \<and> returncode j = 0 \<and> elapsed_time j = 0"
  by (simp add: two_jobs_def job_defs)

lemma two_jobs_final:
  "\<exists>s. (pool_step run_popen)\<^sup>*\<^sup>* (start_pool run_config default_options two_jobs (int 1)) s \<and> joined s"
  using quiet_run_joins [of two_jobs run_config 1 run_popen default_options] two_jobs_fresh
  by (auto simp: run_config_def)

text \<open>
  C2: whatever the interleaving of the main thread, the workers and interrupts, at every moment each
  dispatched job is in exactly one place: still to be put, in the input queue, with a worker, in the
  output queue or collected; none is lost and none is run twice.
\<close>
theorem pool_conserves_jobs:
  assumes "\<forall>j \<in> set jobs. \<not> is_break j" and "PYTHON cfg \<noteq> []" and "0 < n"
    and "(pool_step popen)\<^sup>*\<^sup>* (start_pool cfg opts jobs (int n)) s"
  shows "in_flight s = mset (map ident jobs)"
proof -
  have "pool_start (mset (map ident jobs)) n (start_pool cfg opts jobs (int n))"
    using assms(1-3) by (auto simp: pool_start_def)
  from test_pool.reach_inv [OF this assms(4)] show ?thesis by (simp add: pool_inv_def jobs_inv_def)
qed

theorem pool_conserves_jobs_witness:
  "\<exists>s. (pool_step run_popen)\<^sup>*\<^sup>* (start_pool run_config default_options two_jobs (int 1)) s
    \<and> joined s \<and> in_flight s = mset (map ident two_jobs)"
proof -
  obtain s where s: "(pool_step run_popen)\<^sup>*\<^sup>* (start_pool run_config default_options two_jobs (int 1)) s" "joined s"
    using two_jobs_final by blast
  with pool_conserves_jobs [OF _ _ _ s(1)] two_jobs_fresh show ?thesis by (auto simp: run_config_def)
qed

text \<open>
  C3: when every command that is started returns, the test run never deadlocks and always ends: a reachable state in which the main thread has not
  joined the workers has a next step, and no schedule takes more than four steps per queue entry
  and two more.
\<close>
theorem pool_terminates:
  assumes "\<forall>j \<in> set jobs. \<not> is_break j" and "PYTHON cfg \<noteq> []" and "0 < n"
    and "(pool_step popen ^^ m) (start_pool cfg opts jobs (int n)) s"
  shows "m \<le> 4 * (length jobs + n) + 2 \<and> (joined s \<or> (\<exists>t. pool_step popen s t))"
proof -
  let ?s = "start_pool cfg opts jobs (int n)"
  have "pool_start (mset (map ident jobs)) n ?s"
    using assms(1-3) by (auto simp: pool_start_def)
  then have i: "pool_inv (mset (map ident jobs)) n ?s" by (rule pool_start_inv)
  from test_pool.run_length [OF i assms(4)] have r: "m + pool_weight s \<le> pool_weight ?s"
    "pool_inv (mset (map ident jobs)) n s" by simp_all
  have "pool_weight ?s = 4 * (length jobs + n) + 2"
    by (simp add: pool_weight_def start_pool_def busy_jobs_def)
  with r(1) test_pool.progress [OF r(2)] show ?thesis by (auto simp: pool_final_def)
qed

theorem pool_terminates_witness:
  "\<exists>t. pool_step run_popen (start_pool run_config default_options two_jobs (int 1)) t"
  using pool_terminates [of two_jobs run_config 1 0 run_popen default_options
      "start_pool run_config default_options two_jobs (int 1)"] two_jobs_fresh
  by (auto simp: run_config_def start_pool_def)

lemma pool_joined:
  assumes "\<forall>j \<in> set jobs. \<not> is_break j \<and> returncode j = 0 \<and> elapsed_time j = 0"
    and "PYTHON cfg \<noteq> []" and "0 < n"
    and "(pool_step popen)\<^sup>*\<^sup>* (start_pool cfg opts jobs (int n)) s" and "joined s"
  shows "mset (map ident (collected s)) = mset jobs"
    and "set (workers s) \<subseteq> {Exited}"
    and "(\<forall>j \<in> set (collected s). \<exists>c x.
         worker_process (popen c) cfg opts x (ident j) = Inr j \<and> (x \<longrightarrow> thread_exit s))"
proof -
  let ?s = "start_pool cfg opts jobs (int n)"
  have fr: "\<forall>j \<in> set jobs. fresh j" using assms(1) fresh_dispatched by blast
  then have id: "map ident jobs = jobs" by (intro map_idI) (simp add: fresh_def)
  have "pool_start (mset (map ident jobs)) n ?s"
    using assms(1-3) by (auto simp: pool_start_def)
  from test_pool.reach_inv [OF this assms(4)] have inv: "pool_inv (mset jobs) n s" by (simp add: id)
  then have e: "expected s = 0" "set (workers s) \<subseteq> {Exited}"
    using assms(5) by (simp_all add: pool_inv_def joined_inv_def)
  then show "set (workers s) \<subseteq> {Exited}" by simp
  have f: "in_flight s = mset jobs" "length (collected s) = size (mset jobs)"
    using inv e(1) by (simp_all add: pool_inv_def jobs_inv_def)
  have sub: "mset (map ident (collected s)) \<subseteq># mset jobs"
    unfolding f(1) [symmetric] in_flight_def map_append mset_append by simp
  show "mset (map ident (collected s)) = mset jobs"
    using mset_subset_size [of "mset (map ident (collected s))" "mset jobs"] sub f(2)
    by (auto simp: subset_mset.le_less)
  have "result_start ?s" using fr unfolding result_start_def by blast
  from test_results.reach_inv [OF this assms(4)] have "\<forall>j \<in> set (collected s). outcome_of popen s j"
    by (simp add: result_inv_def)
  moreover have "pool_cfg s = cfg \<and> pool_opts s = opts"
    using assms(4)
  proof (induction rule: rtranclp_induct)
    case (step t u)
    with pool_step_const [OF step.hyps(2)] show ?case by simp
  qed (simp add: start_pool_def)
  ultimately show "\<forall>j \<in> set (collected s). \<exists>c x.
         worker_process (popen c) cfg opts x (ident j) = Inr j \<and> (x \<longrightarrow> thread_exit s)"
    by (simp add: outcome_of_def)
qed

text \<open>
  C4: when the main thread has joined the workers, every worker has left, the main thread holds each
  dispatched job exactly once, and every job it holds is what one run of that job by a worker gave:
  a break only after an interrupt, the job itself if it is skipped, and otherwise the return code and
  time of its command.
\<close>
theorem pool_result:
  assumes "\<forall>j \<in> set jobs. \<not> is_break j \<and> returncode j = 0 \<and> elapsed_time j = 0"
    and "PYTHON cfg \<noteq> []" and "0 < n"
    and "(pool_step popen)\<^sup>*\<^sup>* (start_pool cfg opts jobs (int n)) s" and "joined s"
  shows "mset (map ident (collected s)) = mset jobs
    \<and> set (workers s) \<subseteq> {Exited}
    \<and> (\<forall>j \<in> set (collected s). \<exists>c x.
         worker_process (popen c) cfg opts x (ident j) = Inr j \<and> (x \<longrightarrow> thread_exit s))"
  using pool_joined [OF assms] by simp

theorem pool_result_witness:
  "\<exists>s. (pool_step run_popen)\<^sup>*\<^sup>* (start_pool run_config default_options two_jobs (int 1)) s
    \<and> joined s \<and> mset (map ident (collected s)) = mset two_jobs"
proof -
  obtain s where s: "(pool_step run_popen)\<^sup>*\<^sup>* (start_pool run_config default_options two_jobs (int 1)) s" "joined s"
    using two_jobs_final by blast
  have p: "PYTHON run_config \<noteq> []" by (simp add: run_config_def)
  show ?thesis using pool_result [OF two_jobs_fresh p _ s] s by auto
qed

text \<open>
  With a number of worker threads that is not positive, which a negative \<open>--jobs\<close> gives, and at
  least one job the main thread waits for a result for ever: no reachable state is joined.
\<close>
theorem pool_without_workers:
  assumes "n \<le> 0" and "jobs \<noteq> []" and "(pool_step popen)\<^sup>*\<^sup>* (start_pool cfg opts jobs n) s"
  shows "\<not> joined s \<and> collected s = []"
proof -
  have "stuck_start (start_pool cfg opts jobs n)" using assms(1,2) by (auto simp: stuck_start_def)
  from no_workers.reach_inv [OF this assms(3)] have "\<not> joined s" by (simp add: stuck_inv_def)
  moreover have "collected s = []"
    using assms(3)
  proof (induction rule: rtranclp_induct)
    case (step t u)
    have "stuck_inv t"
      using no_workers.reach_inv [OF _ step.hyps(1)] assms(1,2) by (auto simp: stuck_start_def)
    with step show ?case by (auto simp: stuck_inv_def)
  qed (simp add: start_pool_def)
  ultimately show ?thesis by simp
qed

theorem pool_without_workers_witness:
  "\<not> joined (start_pool run_config default_options two_jobs (-1))"
  using pool_without_workers [of "-1" two_jobs run_popen run_config default_options
      "start_pool run_config default_options two_jobs (-1)"]
  by (simp add: two_jobs_def)

end
