(* ===== verification/Test_Report.thy ===== *)
theory Test_Report
  imports Py_Prelude
begin

text \<open>
  The report writers of \<^verbatim>\<open>test.py\<close>: from the tree of the results file to a text and an HTML file.
  The tree is what \<open>xml.etree.ElementTree\<close> parses the results file into: an element has a tag,
  attributes, a text that may be absent and children.  A file is the list of strings written to
  it, one per \<open>f.write\<close>.
\<close>

section \<open>Trees\<close>

datatype xml = Elem (xtag: string) (xattrs: "(string \<times> string) list") (xtext: "string option") (xkids: "xml list")

definition xfind :: "string \<Rightarrow> xml \<Rightarrow> xml option" where
  "xfind t e = List.find (\<lambda>k. xtag k = t) (xkids e)"

definition xfindall :: "string \<Rightarrow> xml \<Rightarrow> xml list" where
  "xfindall t e = filter (\<lambda>k. xtag k = t) (xkids e)"

text \<open>\<open>e.find(t).text\<close>: a missing child is \<open>None\<close>, which has no attribute \<open>text\<close>.\<close>

definition find_text :: "string \<Rightarrow> xml \<Rightarrow> (string option) res" where
  "find_text t e = (case xfind t e of None \<Rightarrow> Inl AttributeError | Some k \<Rightarrow> Inr (xtext k))"

text \<open>\<open>"%s"\<close> of a value that may be \<open>None\<close>.\<close>

definition pct_s :: "string option \<Rightarrow> string" where
  "pct_s v = (case v of None \<Rightarrow> ''None'' | Some s \<Rightarrow> s)"

definition quoted :: "string \<Rightarrow> string" where
  "quoted s = [DQ] @ s @ [DQ]"

type_synonym test_info = "string option \<times> string option \<times> string option \<times> string option"

definition read_test :: "xml \<Rightarrow> test_info res" where
  "read_test test =
     res_bind (find_text ''Result'' test) (\<lambda>result.
     res_bind (find_text ''Name'' test) (\<lambda>name.
       let reason = (case xfind ''Reason'' test of Some k \<Rightarrow> xtext k | None \<Rightarrow> Some []);
           time_real = (case xfind ''Time'' test of Some k \<Rightarrow> map_of (xattrs k) ''real'' | None \<Rightarrow> Some [])
       in Inr (result, name, reason, time_real)))"

definition line_nl :: "string \<Rightarrow> string" where
  "line_nl s = s @ [NL]"

section \<open>The text report\<close>

definition text_fields :: "(string \<times> string) list" where
  "text_fields =
     [(''      Message:   '', ''Message''), (''      Condition: '', ''Condition''),
      (''      Actual:    '', ''Actual''), (''      Limit:     '', ''Limit''),
      (''      File:      '', ''File''), (''      Line:      '', ''Line'')]"

definition detail_line :: "xml \<Rightarrow> string \<times> string \<Rightarrow> string res" where
  "detail_line details f =
     res_bind (find_text (snd f) details) (\<lambda>t. Inr (fst f @ pct_s t @ [NL]))"

definition details_to_text :: "xml \<Rightarrow> (string list) res" where
  "details_to_text details =
     res_bind (res_map (detail_line details) text_fields) (\<lambda>ls. Inr (line_nl ''    Details:'' # ls))"

lemma res_map_cong [fundef_cong]:
  "xs = ys \<Longrightarrow> (\<And>x. x \<in> set ys \<Longrightarrow> f x = g x) \<Longrightarrow> res_map f xs = res_map g ys"
  by (induction xs arbitrary: ys) auto

lemma size_xfindall [termination_simp]: "k \<in> set (xfindall t e) \<Longrightarrow> size k < size e"
  by (cases e) (auto simp: xfindall_def dest!: size_list_estimation' [where f = size, OF _ order.refl])

fun node_to_text :: "xml \<Rightarrow> string \<Rightarrow> (string list) res" where
  "node_to_text test test_type =
     res_bind (read_test test) (\<lambda>(result, name, reason, time_real).
       let reason = (if reason \<noteq> None \<and> reason \<noteq> Some [] then '' ('' @ pct_s reason @ '')'' else pct_s reason);
           output = pct_s result @ '': Test '' @ test_type @ '' '' @ quoted (pct_s name)
                      @ '' ('' @ pct_s time_real @ '')'' @ reason @ [NL]
       in res_bind (res_map details_to_text (xfindall ''FailureDetails'' test)) (\<lambda>ds.
          res_bind (res_map (\<lambda>child. node_to_text child ''Case'') (xfindall ''Test'' test)) (\<lambda>cs.
            Inr (output # concat ds @ concat cs))))"

declare node_to_text.simps [simp del]

definition example_to_text :: "xml \<Rightarrow> string res" where
  "example_to_text example =
     res_bind (find_text ''Result'' example) (\<lambda>result.
     res_bind (find_text ''Name'' example) (\<lambda>name.
       let time_real = (case xfind ''Time'' example of Some k \<Rightarrow> map_of (xattrs k) ''real'' | None \<Rightarrow> Some [])
       in Inr (pct_s result @ '': Example '' @ quoted (pct_s name) @ '' ('' @ pct_s time_real @ '')'' @ [NL])))"

definition translate_to_text :: "xml \<Rightarrow> (string list) res" where
  "translate_to_text et =
     res_bind (res_map (\<lambda>test. node_to_text test ''Suite'') (xfindall ''Test'' et)) (\<lambda>tests.
     res_bind (res_map example_to_text (xfindall ''Example'' et)) (\<lambda>examples.
       Inr (concat tests @ examples)))"

section \<open>The HTML report\<close>

definition td :: "string option \<Rightarrow> string" where
  "td v = ''<td>'' @ pct_s v @ ''</td>'' @ [NL]"

definition td_color :: "string \<Rightarrow> string \<Rightarrow> string option \<Rightarrow> string" where
  "td_color color close v = ''<td style='' @ quoted (''color:'' @ color) @ ''>'' @ pct_s v @ close @ [NL]"

definition h3 :: "string \<Rightarrow> string \<Rightarrow> string" where
  "h3 color body = ''<h3 style='' @ quoted (''color:'' @ color) @ ''>'' @ body @ ''</h3>'' @ [NL]"

definition suite_header :: "test_info \<Rightarrow> string" where
  "suite_header info =
     (let (result, name, reason, time) = info;
          body = pct_s result @ '': '' @ pct_s name @ '' ('' @ pct_s time @ '')''
      in if result = Some ''PASS'' then h3 ''green'' body
         else if result = Some ''SKIP'' then h3 ''#ff6600'' (body @ '' ('' @ pct_s reason @ '')'')
         else h3 ''red'' body)"

definition detail_item :: "xml \<Rightarrow> string \<times> string \<times> string \<Rightarrow> string res" where
  "detail_item details f =
     (let (label, tag, sep) = f
      in res_bind (find_text tag details) (\<lambda>t. Inr (''<b>'' @ label @ '': </b>'' @ pct_s t @ sep)))"

definition html_fields :: "(string \<times> string \<times> string) list" where
  "html_fields =
     [(''Message'', ''Message'', '', ''), (''Condition'', ''Condition'', '', ''),
      (''Actual'', ''Actual'', '', ''), (''Limit'', ''Limit'', '', ''),
      (''File'', ''File'', '', ''), (''Line'', ''Line'', [])]"

definition fail_row :: "test_info \<Rightarrow> bool \<Rightarrow> xml \<Rightarrow> (string list) res" where
  "fail_row info first_row details =
     (let (result, name, reason, time) = info
      in res_bind
           (res_map (detail_item details) html_fields)
           (\<lambda>items. Inr (
              [line_nl ''<tr>'']
              @ (if first_row then [td_color ''red'' ''</td>'' result, td name, td time]
                 else [td (Some []), td (Some []), td (Some [])])
              @ [''<td>''] @ items @ [line_nl ''</td>'']
              @ [line_nl ''</td>''])))"

fun fail_rows :: "test_info \<Rightarrow> bool \<Rightarrow> xml list \<Rightarrow> (string list) res" where
  "fail_rows info first_row [] = Inr []"
| "fail_rows info first_row (details # rest) =
     res_bind (fail_row info first_row details) (\<lambda>row.
     res_bind (fail_rows info False rest) (\<lambda>rows. Inr (row @ rows)))"

definition html_case :: "xml \<Rightarrow> (string list) res" where
  "html_case cas =
     res_bind (read_test cas) (\<lambda>(result, name, reason, time).
       if result = Some ''FAIL'' then
         fail_rows (result, name, reason, time) True (xfindall ''FailureDetails'' cas)
       else Inr [line_nl ''<tr>'', td_color ''green'' ''</td>'' result, td name, td time, td reason, line_nl ''</tr>''])"

definition html_suite :: "xml \<Rightarrow> (string list) res" where
  "html_suite suite =
     res_bind (read_test suite) (\<lambda>(result, name, reason, time).
       let header = [suite_header (result, name, reason, time),
                     line_nl (''<table border='' @ quoted ''1'' @ ''>''), line_nl ''<th> Result </th>'']
       in if result \<in> {Some ''CRASH'', Some ''SKIP'', Some ''VALGR''} then
            Inr (header @ [line_nl ''<tr>'',
                  (if result = Some ''SKIP'' then td_color ''#ff6600'' ''</td>'' result
                   else td_color ''red'' ''</td>'' result),
                  line_nl ''</tr>'', line_nl ''</table>''])
          else
            res_bind (res_map html_case (xfindall ''Test'' suite)) (\<lambda>cases.
              Inr (header @ [line_nl ''<th>Test Case Name</th>'', line_nl ''<th> Time </th>'']
                   @ (if result = Some ''FAIL'' then [line_nl ''<th>Failure Details</th>''] else [])
                   @ concat cases @ [line_nl ''</table>''])))"

definition html_example :: "xml \<Rightarrow> (string list) res" where
  "html_example example =
     res_bind (read_test example) (\<lambda>(result, name, reason, time). Inr
       [line_nl ''<tr>'',
        (if result = Some ''PASS'' then td_color ''green'' ''</td>'' result
         else if result = Some ''SKIP'' then td_color ''#ff6600'' ''</fd>'' result
         else td_color ''red'' ''</td>'' result),
        td name, td time, td reason, line_nl ''</tr>''])"

definition translate_to_html :: "xml \<Rightarrow> (string list) res" where
  "translate_to_html et =
     res_bind (res_map html_suite (xfindall ''Test'' et)) (\<lambda>suites.
     res_bind (res_map html_example (xfindall ''Example'' et)) (\<lambda>examples.
       Inr ([line_nl ''<html>'', line_nl ''<body>'', line_nl ''<center><h1>ns-3 Test Results</h1></center>'',
             line_nl ''<h2>Test Suites</h2>'']
            @ concat suites
            @ [line_nl ''<h2>Examples</h2>'', line_nl (''<table border='' @ quoted ''1'' @ ''>''),
               line_nl ''<th> Result </th>'', line_nl ''<th>Example Name</th>'',
               line_nl ''<th>Elapsed Time</th>'', line_nl ''<th>Details</th>'']
            @ concat examples
            @ [line_nl ''</table>'', line_nl ''</body>'', line_nl ''</html>''])))"

section \<open>When a report is complete\<close>

text \<open>
  A computation that fails only with \<open>AttributeError\<close>, and exactly when a condition on the tree
  does not hold.
\<close>

definition attr_iff :: "bool \<Rightarrow> 'a res \<Rightarrow> bool" where
  "attr_iff P r \<longleftrightarrow> (case r of Inr _ \<Rightarrow> P | Inl e \<Rightarrow> e = AttributeError \<and> \<not> P)"

lemma attr_iff_Inr [simp]: "attr_iff P (Inr x) \<longleftrightarrow> P"
  by (simp add: attr_iff_def)

lemma attr_iff_bind:
  "attr_iff P m \<Longrightarrow> (\<And>x. m = Inr x \<Longrightarrow> attr_iff Q (f x)) \<Longrightarrow> attr_iff (P \<and> Q) (res_bind m f)"
  by (cases m) (auto simp: attr_iff_def split: sum.splits)

lemma attr_iff_map:
  "(\<And>x. x \<in> set xs \<Longrightarrow> attr_iff (P x) (f x)) \<Longrightarrow> attr_iff (\<forall>x \<in> set xs. P x) (res_map f xs)"
proof (induction xs)
  case (Cons x xs)
  have "attr_iff (P x \<and> (\<forall>x \<in> set xs. P x) \<and> True) (res_map f (x # xs))"
    unfolding res_map.simps by (intro attr_iff_bind Cons) (use Cons.prems in simp_all)
  then show ?case by simp
qed simp

definition has_child :: "string \<Rightarrow> xml \<Rightarrow> bool" where
  "has_child t e \<longleftrightarrow> xfind t e \<noteq> None"

definition complete_info :: "xml \<Rightarrow> bool" where
  "complete_info e \<longleftrightarrow> has_child ''Result'' e \<and> has_child ''Name'' e"

definition complete_details :: "xml \<Rightarrow> bool" where
  "complete_details d \<longleftrightarrow>
     (\<forall>t \<in> set [''Message'', ''Condition'', ''Actual'', ''Limit'', ''File'', ''Line'']. has_child t d)"

fun complete_test :: "xml \<Rightarrow> bool" where
  "complete_test e \<longleftrightarrow>
     complete_info e \<and> (\<forall>d \<in> set (xfindall ''FailureDetails'' e). complete_details d)
     \<and> (\<forall>c \<in> set (xfindall ''Test'' e). complete_test c)"

declare complete_test.simps [simp del]

fun text_lines :: "xml \<Rightarrow> nat" where
  "text_lines e = 1 + 7 * length (xfindall ''FailureDetails'' e) + sum_list (map text_lines (xfindall ''Test'' e))"

declare text_lines.simps [simp del]

lemma attr_find_text: "attr_iff (has_child t e) (find_text t e)"
  by (simp add: attr_iff_def find_text_def has_child_def split: option.splits)

lemma attr_read_test: "attr_iff (complete_info e) (read_test e)"
proof -
  have "attr_iff (has_child ''Result'' e \<and> has_child ''Name'' e \<and> True) (read_test e)"
    unfolding read_test_def by (intro attr_iff_bind attr_find_text) (simp add: Let_def)
  then show ?thesis by (simp add: complete_info_def)
qed

lemma attr_detail_line: "attr_iff (has_child (snd f) d) (detail_line d f)"
proof -
  have "attr_iff (has_child (snd f) d \<and> True) (detail_line d f)"
    unfolding detail_line_def by (intro attr_iff_bind attr_find_text) simp
  then show ?thesis by simp
qed

lemma attr_details_to_text: "attr_iff (complete_details d) (details_to_text d)"
proof -
  have "attr_iff ((\<forall>f \<in> set text_fields. has_child (snd f) d) \<and> True)
      (details_to_text d)"
    unfolding details_to_text_def by (intro attr_iff_bind attr_iff_map attr_detail_line) simp
  then show ?thesis by (simp add: complete_details_def text_fields_def)
qed

lemma attr_node_to_text: "attr_iff (complete_test e) (node_to_text e ty)"
proof (induction e arbitrary: ty rule: complete_test.induct)
  case (1 e)
  have "attr_iff (complete_info e \<and> (\<forall>d \<in> set (xfindall ''FailureDetails'' e). complete_details d)
      \<and> (\<forall>c \<in> set (xfindall ''Test'' e). complete_test c) \<and> True) (node_to_text e ty)"
    unfolding node_to_text.simps [of e] case_prod_beta Let_def
    by (intro attr_iff_bind attr_iff_map attr_read_test attr_details_to_text 1) simp_all
  then show ?case by (subst complete_test.simps) simp
qed

lemma text_fields_length: "length text_fields = 6"
  by (simp add: text_fields_def)

lemma details_to_text_length: "details_to_text d = Inr ls \<Longrightarrow> length ls = 7"
  by (auto simp: details_to_text_def res_bind_eq_Inr text_fields_length dest!: res_map_length)

lemma res_map_concat_length:
  assumes "res_map f xs = Inr ys" and "\<And>x y. x \<in> set xs \<Longrightarrow> f x = Inr y \<Longrightarrow> length y = g x"
  shows "length (concat ys) = sum_list (map g xs)"
  using assms
proof (induction xs arbitrary: ys)
  case (Cons x xs)
  then obtain z zs where z: "f x = Inr z" "res_map f xs = Inr zs" "ys = z # zs"
    by (auto simp: res_bind_eq_Inr)
  have "length z = g x" using Cons.prems(2) [OF _ z(1)] by simp
  moreover have "length (concat zs) = sum_list (map g xs)"
    by (rule Cons.IH [OF z(2)]) (rule Cons.prems(2), simp_all)
  ultimately show ?case using z(3) by simp
qed simp

lemma node_to_text_length: "node_to_text e ty = Inr out \<Longrightarrow> length out = text_lines e"
proof (induction e arbitrary: ty out rule: complete_test.induct)
  case (1 e)
  from 1(2) obtain ds cs line where
    ds: "res_map details_to_text (xfindall ''FailureDetails'' e) = Inr ds" and
    cs: "res_map (\<lambda>child. node_to_text child ''Case'') (xfindall ''Test'' e) = Inr cs" and
    out: "out = line # concat ds @ concat cs"
    by (subst (asm) node_to_text.simps) (auto simp: res_bind_eq_Inr Let_def split: prod.splits)
  have "length (concat ds) = sum_list (map (\<lambda>_. 7) (xfindall ''FailureDetails'' e))"
    by (rule res_map_concat_length [OF ds]) (rule details_to_text_length)
  moreover have "length (concat cs) = sum_list (map text_lines (xfindall ''Test'' e))"
    by (rule res_map_concat_length [OF cs]) (rule 1(1))
  ultimately show ?case using out by (simp add: text_lines.simps sum_list_triv)
qed

lemma attr_example_to_text: "attr_iff (complete_info e) (example_to_text e)"
proof -
  have "attr_iff (has_child ''Result'' e \<and> has_child ''Name'' e \<and> True) (example_to_text e)"
    unfolding example_to_text_def by (intro attr_iff_bind attr_find_text) (simp add: Let_def)
  then show ?thesis by (simp add: complete_info_def)
qed

text \<open>
  \<open>translate_to_text\<close> fails only with \<open>AttributeError\<close>, exactly when some test, at any depth, or
  some example lacks its result or name or some failure lacks one of its six fields; otherwise it
  writes one line per test and per example and seven per failure.
\<close>
theorem translate_to_text_total:
  "(case translate_to_text et of
      Inr out \<Rightarrow>
        (\<forall>t \<in> set (xfindall ''Test'' et). complete_test t) \<and> (\<forall>e \<in> set (xfindall ''Example'' et). complete_info e)
        \<and> length out = sum_list (map text_lines (xfindall ''Test'' et)) + length (xfindall ''Example'' et)
    | Inl err \<Rightarrow>
        err = AttributeError
        \<and> \<not> ((\<forall>t \<in> set (xfindall ''Test'' et). complete_test t) \<and> (\<forall>e \<in> set (xfindall ''Example'' et). complete_info e)))"
proof -
  have "attr_iff ((\<forall>t \<in> set (xfindall ''Test'' et). complete_test t)
      \<and> (\<forall>e \<in> set (xfindall ''Example'' et). complete_info e) \<and> True) (translate_to_text et)"
    unfolding translate_to_text_def
    by (intro attr_iff_bind attr_iff_map attr_node_to_text attr_example_to_text) simp
  moreover have "length out = sum_list (map text_lines (xfindall ''Test'' et)) + length (xfindall ''Example'' et)"
    if "translate_to_text et = Inr out" for out
  proof -
    from that obtain ts es where
      ts: "res_map (\<lambda>test. node_to_text test ''Suite'') (xfindall ''Test'' et) = Inr ts" and
      es: "res_map example_to_text (xfindall ''Example'' et) = Inr es" and out: "out = concat ts @ es"
      by (auto simp: translate_to_text_def res_bind_eq_Inr)
    have "length (concat ts) = sum_list (map text_lines (xfindall ''Test'' et))"
      by (rule res_map_concat_length [OF ts]) (rule node_to_text_length)
    with out res_map_length [OF es] show ?thesis by simp
  qed
  ultimately show ?thesis by (auto simp: attr_iff_def split: sum.splits)
qed

definition sample_report :: xml where
  "sample_report =
     Elem ''Results'' [] None
       [Elem ''Test'' [] None [Elem ''Name'' [] (Some ''tcp'') [], Elem ''Result'' [] (Some ''PASS'') []],
        Elem ''Example'' [] None [Elem ''Name'' [] (Some ''udp'') [], Elem ''Result'' [] (Some ''PASS'') [],
          Elem ''Time'' [(''real'', ''0.5'')] None []]]"

theorem translate_to_text_total_witness:
  "\<exists>out. translate_to_text sample_report = Inr out \<and> length out = 2
    \<and> out ! 1 = ''PASS: Example '' @ quoted ''udp'' @ '' (0.5)'' @ [NL]"
proof -
  have "translate_to_text sample_report =
      Inr [''PASS: Test Suite '' @ quoted ''tcp'' @ '' ()'' @ [NL],
           ''PASS: Example '' @ quoted ''udp'' @ '' (0.5)'' @ [NL]]"
    unfolding sample_report_def
    by (simp add: translate_to_text_def xfindall_def node_to_text.simps [of "Elem _ _ _ _"]
        read_test_def find_text_def xfind_def pct_s_def example_to_text_def)
  with translate_to_text_total [of sample_report] show ?thesis by simp
qed

section \<open>Table rows of the HTML report\<close>

abbreviation tr_open :: string where "tr_open \<equiv> line_nl ''<tr>''"
abbreviation tr_close :: string where "tr_close \<equiv> line_nl ''</tr>''"

lemma line_nl_inject [simp]: "line_nl a = line_nl b \<longleftrightarrow> a = b"
  by (simp add: line_nl_def)

definition row_excess :: "string list \<Rightarrow> int" where
  "row_excess out = int (count_list out tr_open) - int (count_list out tr_close)"

lemma row_excess_simps [simp]:
  "row_excess [] = 0"
  "row_excess (s # out) = (if s = tr_open then 1 else if s = tr_close then -1 else 0) + row_excess out"
  "row_excess (xs @ ys) = row_excess xs + row_excess ys"
  by (simp_all add: row_excess_def)

lemma not_row [simp]:
  "td v \<noteq> tr_open" "td v \<noteq> tr_close"
  "td_color c cl v \<noteq> tr_open" "td_color c cl v \<noteq> tr_close"
  "h3 c b \<noteq> tr_open" "h3 c b \<noteq> tr_close"
  by (simp_all add: td_def td_color_def h3_def line_nl_def)

lemma td_start_not_row [simp]: "''<td>'' \<noteq> tr_open" "''<td>'' \<noteq> tr_close"
  by (simp_all add: line_nl_def)

lemma suite_header_not_row [simp]: "suite_header i \<noteq> tr_open" "suite_header i \<noteq> tr_close"
  by (cases i; simp add: suite_header_def Let_def)+

lemma row_excess_concat:
  assumes "res_map f xs = Inr ys" and "\<And>x y. x \<in> set xs \<Longrightarrow> f x = Inr y \<Longrightarrow> row_excess y = g x"
  shows "row_excess (concat ys) = sum_list (map g xs)"
  using assms
proof (induction xs arbitrary: ys)
  case (Cons x xs)
  then obtain z zs where z: "f x = Inr z" "res_map f xs = Inr zs" "ys = z # zs"
    by (auto simp: res_bind_eq_Inr)
  have "row_excess z = g x" using Cons.prems(2) [OF _ z(1)] by simp
  moreover have "row_excess (concat zs) = sum_list (map g xs)"
    by (rule Cons.IH [OF z(2)]) (rule Cons.prems(2), simp_all)
  ultimately show ?case using z(3) by simp
qed simp

lemma row_excess_none:
  assumes "res_map f xs = Inr ys" and "\<And>x y. f x = Inr y \<Longrightarrow> y \<noteq> tr_open \<and> y \<noteq> tr_close"
  shows "row_excess ys = 0"
  using assms by (induction xs arbitrary: ys) (fastforce simp: res_bind_eq_Inr)+

lemma detail_item_not_row: "detail_item d f = Inr s \<Longrightarrow> s \<noteq> tr_open \<and> s \<noteq> tr_close"
  by (cases f) (auto simp: detail_item_def res_bind_eq_Inr line_nl_def)

lemma fail_row_excess:
  assumes "fail_row info first d = Inr row"
  shows "row_excess row = 1"
proof -
  obtain result name reason time where i: "info = (result, name, reason, time)" by (cases info)
  from assms obtain items fields where it: "res_map (detail_item d) fields = Inr items"
    and row: "row = [tr_open]
      @ (if first then [td_color ''red'' ''</td>'' result, td name, td time]
         else [td (Some []), td (Some []), td (Some [])])
      @ [''<td>''] @ items @ [line_nl ''</td>''] @ [line_nl ''</td>'']"
    unfolding fail_row_def i Let_def prod.case res_bind_eq_Inr by blast
  have "row_excess items = 0" using it detail_item_not_row by (rule row_excess_none)
  then show ?thesis by (simp add: row)
qed

lemma fail_rows_excess: "fail_rows info first ds = Inr rows \<Longrightarrow> row_excess rows = int (length ds)"
  by (induction ds arbitrary: first rows) (auto simp: res_bind_eq_Inr dest!: fail_row_excess)

text \<open>The failure rows of a case and of a suite: those are the rows that are not closed.\<close>

definition open_rows_case :: "xml \<Rightarrow> int" where
  "open_rows_case c = (if find_text ''Result'' c = Inr (Some ''FAIL'')
     then int (length (xfindall ''FailureDetails'' c)) else 0)"

definition open_rows_suite :: "xml \<Rightarrow> int" where
  "open_rows_suite s =
     (if find_text ''Result'' s \<in> {Inr (Some ''CRASH''), Inr (Some ''SKIP''), Inr (Some ''VALGR'')} then 0
      else sum_list (map open_rows_case (xfindall ''Test'' s)))"

lemma read_test_result: "read_test e = Inr (r, n, reason, t) \<Longrightarrow> find_text ''Result'' e = Inr r"
  by (auto simp: read_test_def res_bind_eq_Inr Let_def)

lemma html_case_excess:
  assumes "html_case c = Inr out"
  shows "row_excess out = open_rows_case c"
proof -
  from assms obtain r n reason t where i: "read_test c = Inr (r, n, reason, t)"
    by (auto simp: html_case_def res_bind_eq_Inr)
  show ?thesis
  proof (cases "r = Some ''FAIL''")
    case True
    with i assms have "fail_rows (r, n, reason, t) True (xfindall ''FailureDetails'' c) = Inr out"
      by (simp add: html_case_def)
    with True fail_rows_excess read_test_result [OF i] show ?thesis by (simp add: open_rows_case_def)
  next
    case False
    with i assms read_test_result [OF i] show ?thesis
      by (simp add: html_case_def open_rows_case_def flip: append.assoc) auto
  qed
qed

lemma html_suite_excess:
  assumes "html_suite s = Inr out"
  shows "row_excess out = open_rows_suite s"
proof -
  from assms obtain r n reason t where i: "read_test s = Inr (r, n, reason, t)"
    by (auto simp: html_suite_def res_bind_eq_Inr)
  show ?thesis
  proof (cases "r \<in> {Some ''CRASH'', Some ''SKIP'', Some ''VALGR''}")
    case True
    then have "open_rows_suite s = 0"
      using read_test_result [OF i] by (auto simp: open_rows_suite_def)
    then show ?thesis using i assms True unfolding html_suite_def by (auto simp: Let_def)
  next
    case False
    then have o: "open_rows_suite s = sum_list (map open_rows_case (xfindall ''Test'' s))"
      using read_test_result [OF i] by (simp add: open_rows_suite_def)
    from False i assms obtain cases where c: "res_map html_case (xfindall ''Test'' s) = Inr cases"
      and out: "out = [suite_header (r, n, reason, t),
            line_nl (''<table border='' @ quoted ''1'' @ ''>''), line_nl ''<th> Result </th>'']
          @ [line_nl ''<th>Test Case Name</th>'', line_nl ''<th> Time </th>'']
          @ (if r = Some ''FAIL'' then [line_nl ''<th>Failure Details</th>''] else [])
          @ concat cases @ [line_nl ''</table>'']"
      unfolding html_suite_def Let_def by (auto simp: res_bind_eq_Inr)
    have "row_excess (concat cases) = open_rows_suite s"
      unfolding o by (rule row_excess_concat [OF c]) (rule html_case_excess)
    then show ?thesis by (simp add: out)
  qed
qed

lemma html_example_excess: "html_example e = Inr out \<Longrightarrow> row_excess out = 0"
  by (auto simp: html_example_def res_bind_eq_Inr)

text \<open>
  in the HTML report every table row is closed except the failure rows: the number of opened rows
  exceeds the number of closed ones by the number of failure details of failed cases.
\<close>
theorem translate_to_html_rows:
  assumes "translate_to_html et = Inr out"
  shows "int (count_list out tr_open) - int (count_list out tr_close)
    = sum_list (map open_rows_suite (xfindall ''Test'' et))"
proof -
  from assms obtain ss es where s: "res_map html_suite (xfindall ''Test'' et) = Inr ss"
    and e: "res_map html_example (xfindall ''Example'' et) = Inr es"
    and out: "out = [line_nl ''<html>'', line_nl ''<body>'', line_nl ''<center><h1>ns-3 Test Results</h1></center>'',
             line_nl ''<h2>Test Suites</h2>'']
            @ concat ss
            @ [line_nl ''<h2>Examples</h2>'', line_nl (''<table border='' @ quoted ''1'' @ ''>''),
               line_nl ''<th> Result </th>'', line_nl ''<th>Example Name</th>'',
               line_nl ''<th>Elapsed Time</th>'', line_nl ''<th>Details</th>'']
            @ concat es
            @ [line_nl ''</table>'', line_nl ''</body>'', line_nl ''</html>'']"
    unfolding translate_to_html_def res_bind_eq_Inr by blast
  have "row_excess (concat ss) = sum_list (map open_rows_suite (xfindall ''Test'' et))"
    by (rule row_excess_concat [OF s]) (rule html_suite_excess)
  moreover have "row_excess (concat es) = sum_list (map (\<lambda>_. 0) (xfindall ''Example'' et))"
    by (rule row_excess_concat [OF e]) (rule html_example_excess)
  ultimately have "row_excess out = sum_list (map open_rows_suite (xfindall ''Test'' et))"
    by (simp add: out)
  then show ?thesis by (simp add: row_excess_def)
qed

definition failing_report :: xml where
  "failing_report =
     Elem ''Results'' [] None
       [Elem ''Test'' [] None
         [Elem ''Name'' [] (Some ''tcp'') [], Elem ''Result'' [] (Some ''FAIL'') [],
          Elem ''Test'' [] None
            [Elem ''Name'' [] (Some ''case'') [], Elem ''Result'' [] (Some ''FAIL'') [],
             Elem ''FailureDetails'' [] None
               (map (\<lambda>t. Elem t [] None []) [''Message'', ''Condition'', ''Actual'', ''Limit'', ''File'', ''Line''])]]]"

lemma failing_report_html: "\<exists>out. translate_to_html failing_report = Inr out"
  by (simp add: failing_report_def translate_to_html_def xfindall_def html_suite_def html_case_def fail_row_def
      html_fields_def detail_item_def read_test_def find_text_def xfind_def)

theorem translate_to_html_rows_witness:
  "\<exists>out. translate_to_html failing_report = Inr out
    \<and> int (count_list out tr_open) - int (count_list out tr_close) = 1"
proof -
  obtain out where out: "translate_to_html failing_report = Inr out" using failing_report_html by blast
  have "sum_list (map open_rows_suite (xfindall ''Test'' failing_report)) = 1"
    by (simp add: failing_report_def xfindall_def open_rows_suite_def open_rows_case_def find_text_def xfind_def)
  with translate_to_html_rows [OF out] out show ?thesis by simp
qed

end
