(* ===== verification/Py_Float.thy ===== *)
theory Py_Float
  imports Py_Prelude Complex_Main
begin

text \<open>
  Floating-point numbers as the tools use them: finite values as exact rationals, and the infinities
  and the value that is no number, which the texts of measurements may contain.  Reading a float or an
  integer from a text follows the grammar of Python 3 (blanks around, a sign, single underscores between
  digits); a fixed number of decimals is written by rounding half to even.  The sign of a zero is not
  kept.
\<close>

section \<open>Values\<close>

datatype pyfloat = Fin rat | Infinity bool | NaN

text \<open>\<open>Infinity True\<close> is the negative one.\<close>

instantiation pyfloat :: "{plus, minus, times, uminus}"
begin

fun uminus_pyfloat :: "pyfloat \<Rightarrow> pyfloat" where
  "- Fin x = Fin (- x)"
| "- Infinity s = Infinity (\<not> s)"
| "- NaN = NaN"

fun plus_pyfloat :: "pyfloat \<Rightarrow> pyfloat \<Rightarrow> pyfloat" where
  "Fin x + Fin y = Fin (x + y)"
| "Infinity s + Fin y = Infinity s"
| "Fin x + Infinity t = Infinity t"
| "Infinity s + Infinity t = (if s = t then Infinity s else NaN)"
| "NaN + b = NaN"
| "a + NaN = NaN"

definition minus_pyfloat :: "pyfloat \<Rightarrow> pyfloat \<Rightarrow> pyfloat" where
  "minus_pyfloat a b = a + - b"

fun times_pyfloat :: "pyfloat \<Rightarrow> pyfloat \<Rightarrow> pyfloat" where
  "Fin x * Fin y = Fin (x * y)"
| "Infinity s * Fin y = (if y = 0 then NaN else Infinity (s \<noteq> (y < 0)))"
| "Fin x * Infinity t = (if x = 0 then NaN else Infinity (t \<noteq> (x < 0)))"
| "Infinity s * Infinity t = Infinity (s \<noteq> t)"
| "NaN * b = NaN"
| "a * NaN = NaN"

instance ..

end

lemma minus_Fin [simp]: "Fin x - Fin y = Fin (x - y)"
  by (simp add: minus_pyfloat_def)

text \<open>Division raises for a zero divisor, whatever is divided.\<close>

fun float_div :: "pyfloat \<Rightarrow> pyfloat \<Rightarrow> pyfloat res" where
  "float_div a (Fin y) =
     (if y = 0 then Inl ZeroDivisionError
      else Inr (case a of Fin x \<Rightarrow> Fin (x / y) | Infinity s \<Rightarrow> Infinity (s \<noteq> (y < 0)) | NaN \<Rightarrow> NaN))"
| "float_div a (Infinity t) = Inr (case a of Fin x \<Rightarrow> Fin 0 | _ \<Rightarrow> NaN)"
| "float_div a NaN = Inr NaN"

text \<open>\<open>x > 0\<close>, \<open>x == 0\<close> and the truth value of a float; a value that is no number is not zero.\<close>

definition float_pos :: "pyfloat \<Rightarrow> bool" where
  "float_pos a = (case a of Fin x \<Rightarrow> 0 < x | Infinity s \<Rightarrow> \<not> s | NaN \<Rightarrow> False)"

definition float_zero :: "pyfloat \<Rightarrow> bool" where
  "float_zero a \<longleftrightarrow> a = Fin 0"

section \<open>Reading numbers\<close>

text \<open>A run of digits with single underscores between them, and what follows it.\<close>

fun read_digitpart :: "string \<Rightarrow> string \<times> string" where
  "read_digitpart [] = ([], [])"
| "read_digitpart (c # s) =
     (if is_digit c
      then (case s of
              u # d # t \<Rightarrow> if u = CHR ''_'' \<and> is_digit d
                           then (let (ds, r) = read_digitpart (d # t) in (c # ds, r))
                           else (let (ds, r) = read_digitpart s in (c # ds, r))
            | _ \<Rightarrow> (let (ds, r) = read_digitpart s in (c # ds, r)))
      else ([], c # s))"

fun read_sign :: "string \<Rightarrow> bool \<times> string" where
  "read_sign [] = (False, [])"
| "read_sign (c # s) = (if c = CHR ''-'' then (True, s) else if c = CHR ''+'' then (False, s) else (False, c # s))"

definition int_error :: "string \<Rightarrow> py_error" where
  "int_error s = ValueError (''invalid literal for int() with base 10: '' @ py_repr s)"

definition float_error :: "string \<Rightarrow> py_error" where
  "float_error s = ValueError (''could not convert string to float: '' @ py_repr s)"

definition int_of_string :: "string \<Rightarrow> int res" where
  "int_of_string s =
     (let (neg, t) = read_sign (py_strip s); (ds, r) = read_digitpart t
      in if ds = [] \<or> r \<noteq> [] then Inl (int_error s)
         else Inr (if neg then - int (read_nat ds) else int (read_nat ds)))"

definition to_lower :: "char \<Rightarrow> char" where
  "to_lower c = (if 65 \<le> (of_char c :: nat) \<and> (of_char c :: nat) \<le> 90 then char_of ((of_char c :: nat) + 32) else c)"

text \<open>The exponent, if there is one; an exponent without digits is an error.\<close>

definition read_exponent :: "string \<Rightarrow> int option" where
  "read_exponent s = (case s of
     [] \<Rightarrow> Some 0
   | c # t \<Rightarrow>
       if to_lower c \<noteq> CHR ''e'' then None
       else (let (neg, u) = read_sign t; (ds, r) = read_digitpart u
             in if ds = [] \<or> r \<noteq> [] then None else Some (if neg then - int (read_nat ds) else int (read_nat ds))))"

definition scale10 :: "rat \<Rightarrow> int \<Rightarrow> rat" where
  "scale10 x e = (if 0 \<le> e then x * 10 ^ nat e else x / 10 ^ nat (- e))"

definition read_unsigned :: "string \<Rightarrow> pyfloat option" where
  "read_unsigned s =
     (let l = map to_lower s
      in if l = ''inf'' \<or> l = ''infinity'' then Some (Infinity False)
         else if l = ''nan'' then Some NaN
         else (let (ds, r) = read_digitpart s;
                   (fs, r') = (case r of c # t \<Rightarrow> if c = CHR ''.'' then read_digitpart t else ([], r) | [] \<Rightarrow> ([], []))
               in if ds = [] \<and> fs = [] then None
                  else map_option (\<lambda>e. Fin (scale10 (of_nat (read_nat (ds @ fs))) (e - int (length fs)))) (read_exponent r')))"

definition float_of_string :: "string \<Rightarrow> pyfloat res" where
  "float_of_string s =
     (let (neg, t) = read_sign (py_strip s)
      in case read_unsigned t of None \<Rightarrow> Inl (float_error s) | Some x \<Rightarrow> Inr (if neg then - x else x))"

section \<open>Writing numbers\<close>

text \<open>\<open>"%.nf"\<close> of an exact value: round half to even at the last decimal.\<close>

definition round_half_even :: "rat \<Rightarrow> int" where
  "round_half_even x =
     (let f = \<lfloor>x\<rfloor>; d = x - of_int f
      in if d < 1 / 2 then f else if d > 1 / 2 then f + 1 else if even f then f else f + 1)"

definition pad_left :: "nat \<Rightarrow> nat \<Rightarrow> string" where
  "pad_left w n = (let s = show_nat n in replicate (w - length s) (CHR ''0'') @ s)"

definition fmt_fixed :: "nat \<Rightarrow> rat \<Rightarrow> string" where
  "fmt_fixed d x =
     (let n = nat (round_half_even (\<bar>x\<bar> * 10 ^ d))
      in (if x < 0 then ''-'' else []) @ show_nat (n div 10 ^ d) @ (if d = 0 then [] else ''.'' @ pad_left d (n mod 10 ^ d)))"

fun fmt_float :: "nat \<Rightarrow> pyfloat \<Rightarrow> string" where
  "fmt_float d (Fin x) = fmt_fixed d x"
| "fmt_float d (Infinity s) = (if s then ''-inf'' else ''inf'')"
| "fmt_float d NaN = ''nan''"

section \<open>Reading what was written\<close>

lemma not_digit_underscore [simp]: "\<not> is_digit (CHR ''_'')" and not_digit_point [simp]: "\<not> is_digit (CHR ''.'')"
  by (simp_all add: is_digit_def)

lemma read_digitpart_step:
  assumes "is_digit c" and "read_digitpart s = (ds, r)" and "s = [] \<or> hd s \<noteq> CHR ''_''"
  shows "read_digitpart (c # s) = (c # ds, r)"
  unfolding read_digitpart.simps(2) [of c s] using assms by (auto split: list.splits simp del: read_digitpart.simps)

lemma read_digitpart_digits:
  assumes "\<forall>c \<in> set s. is_digit c" and "r = [] \<or> (\<not> is_digit (hd r) \<and> hd r \<noteq> CHR ''_'')"
  shows "read_digitpart (s @ r) = (s, r)"
  using assms(1)
proof (induction s)
  case Nil
  with assms(2) show ?case by (cases r) auto
next
  case (Cons c s)
  then have ih: "read_digitpart (s @ r) = (s, r)" and c: "is_digit c" by auto
  have "s @ r = [] \<or> hd (s @ r) \<noteq> CHR ''_''"
    using Cons.prems assms(2) by (cases s) auto
  from read_digitpart_step [OF c ih this] show ?case by simp
qed

lemma not_space_digit: "is_digit c \<Longrightarrow> \<not> is_space c"
  by (auto simp: is_digit_def is_space_def)

lemma read_sign_digit: "s \<noteq> [] \<Longrightarrow> is_digit (hd s) \<Longrightarrow> read_sign s = (False, s)"
  by (cases s) (auto simp: is_digit_def)

lemma hd_show_nat: "is_digit (hd (show_nat n))"
  using show_nat_digits [of "hd (show_nat n)" n] by simp

lemma show_int_not_space: "c \<in> set (show_int i) \<Longrightarrow> \<not> is_space c"
  by (auto simp: show_int_def is_space_def [of "CHR ''-''"] dest: show_nat_digits not_space_digit split: if_splits)

lemma read_sign_show_int: "read_sign (show_int i) = (i < 0, show_nat (nat \<bar>i\<bar>))"
  by (simp add: show_int_def read_sign_digit hd_show_nat)

lemma read_digitpart_show [simp]: "read_digitpart (show_nat n) = (show_nat n, [])"
  using read_digitpart_digits [of "show_nat n" "[]"] by (auto dest: show_nat_digits)

lemma int_of_show [simp]: "int_of_string (show_int i) = Inr i"
  by (simp add: int_of_string_def py_strip_id show_int_not_space read_sign_show_int)

lemma read_nat_append: "read_nat (s @ t) = read_nat s * 10 ^ length t + read_nat t"
proof (induction t rule: rev_induct)
  case (snoc c t)
  have "read_nat (s @ t @ [c]) = 10 * read_nat (s @ t) + digit_val c"
    using read_nat_snoc [of "s @ t" c] by simp
  also have "\<dots> = read_nat s * 10 ^ length (t @ [c]) + read_nat (t @ [c])"
    unfolding snoc.IH by (simp add: read_nat_snoc algebra_simps)
  finally show ?case .
qed (simp add: read_nat_def)

lemma read_nat_zeros: "read_nat (replicate k (CHR ''0'')) = 0"
  by (induction k) (simp_all add: read_nat_def digit_val_def)

lemma length_show_nat: "n < 10 ^ d \<Longrightarrow> 0 < d \<Longrightarrow> length (show_nat n) \<le> d"
proof (induction d arbitrary: n)
  case (Suc d)
  show ?case
  proof (cases "n < 10")
    case False
    then have "0 < d" using Suc.prems by (cases d) auto
    moreover have "n div 10 < 10 ^ d" using Suc.prems(1) by (simp add: less_mult_imp_div_less mult.commute)
    ultimately show ?thesis using Suc.IH [of "n div 10"] False by (simp add: show_nat.simps [of n])
  qed (simp add: show_nat.simps [of n])
qed simp

lemma pad_left_digits: "c \<in> set (pad_left d n) \<Longrightarrow> is_digit c"
  by (auto simp: pad_left_def Let_def is_digit_def [of "CHR ''0''"] dest: show_nat_digits)

lemma read_pad_left: "read_nat (pad_left d n) = n"
  by (simp add: pad_left_def Let_def read_nat_append read_nat_zeros)

lemma length_pad_left: "n < 10 ^ d \<Longrightarrow> 0 < d \<Longrightarrow> length (pad_left d n) = d"
  using length_show_nat [of n d] by (simp add: pad_left_def Let_def)

lemma to_lower_digit: "is_digit c \<Longrightarrow> to_lower c = c"
  by (auto simp: is_digit_def to_lower_def)

lemma read_unsigned_digit:
  assumes "s \<noteq> []" and "is_digit (hd s)"
  shows "map to_lower s \<noteq> ''inf''" "map to_lower s \<noteq> ''infinity''" "map to_lower s \<noteq> ''nan''"
  using assms by (cases s; auto simp: to_lower_digit; auto simp: is_digit_def)+

lemma read_unsigned_nat: "read_unsigned (show_nat n) = Some (Fin (of_nat n))"
  by (simp add: read_unsigned_def Let_def read_unsigned_digit hd_show_nat read_exponent_def scale10_def)

lemma read_unsigned_decimal:
  assumes "0 < d" and "b < 10 ^ d"
  shows "read_unsigned (show_nat a @ CHR ''.'' # pad_left d b) = Some (Fin (of_nat (a * 10 ^ d + b) / 10 ^ d))"
proof -
  have h: "hd (show_nat a @ CHR ''.'' # pad_left d b) = hd (show_nat a)" by simp
  have r1: "read_digitpart (show_nat a @ CHR ''.'' # pad_left d b) = (show_nat a, CHR ''.'' # pad_left d b)"
    by (rule read_digitpart_digits) (auto dest: show_nat_digits simp: is_digit_def)
  have r2: "read_digitpart (pad_left d b) = (pad_left d b, [])"
    using read_digitpart_digits [of "pad_left d b" "[]"] pad_left_digits by simp
  show ?thesis
    unfolding read_unsigned_def Let_def r1
    using assms read_unsigned_digit [of "show_nat a @ CHR ''.'' # pad_left d b"]
    by (simp add: h hd_show_nat r2 read_exponent_def scale10_def read_nat_append read_pad_left length_pad_left)
qed

lemma round_half_even_bounds: "\<bar>of_int (round_half_even x) - x\<bar> \<le> 1 / 2"
proof -
  have "0 \<le> x - of_int \<lfloor>x\<rfloor>" "x - of_int \<lfloor>x\<rfloor> < 1" by linarith+
  then show ?thesis by (auto simp: round_half_even_def Let_def)
qed

lemma round_half_even_nonneg: "0 \<le> x \<Longrightarrow> 0 \<le> round_half_even x"
  by (simp add: round_half_even_def Let_def)

text \<open>The value that a text with a fixed number of decimals stands for.\<close>

definition rounded :: "nat \<Rightarrow> rat \<Rightarrow> rat" where
  "rounded d x = (if x < 0 then - 1 else 1) * of_int (round_half_even (\<bar>x\<bar> * 10 ^ d)) / 10 ^ d"

lemma rounded_close: "\<bar>rounded d x - x\<bar> \<le> 1 / (2 * 10 ^ d)"
proof -
  let ?r = "of_int (round_half_even (\<bar>x\<bar> * 10 ^ d)) :: rat"
  have "\<bar>rounded d x - x\<bar> = \<bar>?r / 10 ^ d - \<bar>x\<bar>\<bar>" by (auto simp: rounded_def)
  also have "\<dots> = \<bar>?r - \<bar>x\<bar> * 10 ^ d\<bar> / 10 ^ d" 
  proof -
    have "?r / 10 ^ d - \<bar>x\<bar> = (?r - \<bar>x\<bar> * 10 ^ d) / 10 ^ d" by (simp add: diff_divide_distrib)
    then show ?thesis by (simp add: abs_divide)
  qed
  also have "\<dots> \<le> (1 / 2) / 10 ^ d" by (intro divide_right_mono round_half_even_bounds) simp
  finally show ?thesis by simp
qed

lemma fmt_fixed_not_space: "c \<in> set (fmt_fixed d x) \<Longrightarrow> \<not> is_space c"
  by (auto simp: fmt_fixed_def Let_def is_space_def [of "CHR ''-''"] is_space_def [of "CHR ''.''"]
      dest: show_nat_digits pad_left_digits not_space_digit split: if_splits)

lemma read_fmt_unsigned:
  fixes n d :: nat
  shows "read_unsigned (show_nat (n div 10 ^ d) @ (if d = 0 then [] else ''.'' @ pad_left d (n mod 10 ^ d)))
    = Some (Fin (of_nat n / 10 ^ d))"
proof (cases "d = 0")
  case False
  then have "read_unsigned (show_nat (n div 10 ^ d) @ CHR ''.'' # pad_left d (n mod 10 ^ d))
      = Some (Fin (of_nat (n div 10 ^ d * 10 ^ d + n mod 10 ^ d) / 10 ^ d))"
    by (intro read_unsigned_decimal) simp_all
  with False show ?thesis by (simp only: div_mult_mod_eq) simp
qed (simp add: read_unsigned_nat)

text \<open>Reading a number that was written with \<open>d\<close> decimals gives it back up to half of the last one.\<close>

lemma float_of_fixed: "float_of_string (fmt_fixed d x) = Inr (Fin (rounded d x))"
proof -
  let ?n = "nat (round_half_even (\<bar>x\<bar> * 10 ^ d))"
  define t where "t = show_nat (?n div 10 ^ d) @ (if d = 0 then [] else ''.'' @ pad_left d (?n mod 10 ^ d))"
  have f: "fmt_fixed d x = (if x < 0 then ''-'' else []) @ t" by (simp add: fmt_fixed_def Let_def t_def)
  have "read_sign t = (False, t)" by (rule read_sign_digit) (auto simp: hd_show_nat t_def)
  then have s: "read_sign (fmt_fixed d x) = (x < 0, t)" unfolding f by simp
  have u: "read_unsigned t = Some (Fin (of_nat ?n / 10 ^ d))" unfolding t_def by (rule read_fmt_unsigned)
  have n: "(of_nat ?n :: rat) = of_int (round_half_even (\<bar>x\<bar> * 10 ^ d))"
    using round_half_even_nonneg [of "\<bar>x\<bar> * 10 ^ d"] by (simp add: of_nat_nat)
  show ?thesis
    using fmt_fixed_not_space unfolding float_of_string_def
    by (simp add: py_strip_id s u n rounded_def)
qed

lemma rounded_int [simp]: "rounded 0 (of_int i) = of_int i"
  by (simp add: rounded_def round_half_even_def Let_def)

lemma float_of_show [simp]: "float_of_string (show_int i) = Inr (Fin (of_int i))"
  by (cases "i < 0") (simp_all add: float_of_string_def py_strip_id show_int_not_space read_sign_show_int read_unsigned_nat of_nat_nat)

end
