(* ===== verification/Test_Summary.thy ===== *)
theory Test_Summary
  imports Test_Pool Test_Report Py_Float
begin

text \<open>
  The second half of \<open>run_tests\<close> in \<^verbatim>\<open>test.py\<close>: the main thread takes the jobs from the output queue,
  counts them, prints a line for each, writes the results file, prints the summary and returns
  the exit code.
\<close>

section \<open>Numbers in the output\<close>

text \<open>\<open>"%.3f"\<close>, as the times are written.\<close>

definition fmt3 :: "rat \<Rightarrow> string" where
  "fmt3 x = fmt_fixed 3 x"

section \<open>One result\<close>

record summary =
  passed_tests :: int
  failed_tests :: int
  failed_testnames :: "string list"
  crashed_tests :: int
  crashed_testnames :: "string list"
  valgrind_errors :: int
  valgrind_testnames :: "string list"
  skipped_tests :: int
  skipped_testnames :: "string list"
  xml_results :: "string list"
  printed :: "string list"

definition empty_summary :: summary where
  "empty_summary =
     \<lparr> passed_tests = 0, failed_tests = 0, failed_testnames = [], crashed_tests = 0, crashed_testnames = [],
       valgrind_errors = 0, valgrind_testnames = [], skipped_tests = 0, skipped_testnames = [],
       xml_results = [''<?xml version='' @ quoted ''1.0'' @ ''?>'' @ [NL], line_nl ''<Results>''],
       printed = [] \<rparr>"

datatype status = PASS | FAIL | VALGR | CRASH | SKIP

fun status_text :: "status \<Rightarrow> string" where
  "status_text PASS = ''PASS''"
| "status_text FAIL = ''FAIL''"
| "status_text VALGR = ''VALGR''"
| "status_text CRASH = ''CRASH''"
| "status_text SKIP = ''SKIP''"

fun status_color :: "status \<Rightarrow> string" where
  "status_color PASS = ''GREEN''"
| "status_color FAIL = ''RED''"
| "status_color VALGR = ''CYAN''"
| "status_color CRASH = ''PINK''"
| "status_color SKIP = ''GREY''"

definition job_status :: "job \<Rightarrow> status" where
  "job_status j =
     (if is_skip j then SKIP
      else if returncode j = 0 then PASS
      else if returncode j = 1 then FAIL
      else if returncode j = 2 then VALGR
      else CRASH)"

definition count_status :: "summary \<Rightarrow> job \<Rightarrow> summary" where
  "count_status s j =
     (case job_status j of
        SKIP \<Rightarrow> s\<lparr>skipped_tests := skipped_tests s + 1,
                 skipped_testnames := skipped_testnames s @ [display_name j @ '' ('' @ skip_reason j @ '')'']\<rparr>
      | PASS \<Rightarrow> s\<lparr>passed_tests := passed_tests s + 1\<rparr>
      | FAIL \<Rightarrow> s\<lparr>failed_tests := failed_tests s + 1, failed_testnames := failed_testnames s @ [display_name j]\<rparr>
      | VALGR \<Rightarrow> s\<lparr>valgrind_errors := valgrind_errors s + 1,
                  valgrind_testnames := valgrind_testnames s @ [display_name j]\<rparr>
      | CRASH \<Rightarrow> s\<lparr>crashed_tests := crashed_tests s + 1,
                  crashed_testnames := crashed_testnames s @ [display_name j]\<rparr>)"

definition progress_line :: "bool \<Rightarrow> test_options \<Rightarrow> nat \<Rightarrow> summary \<Rightarrow> job \<Rightarrow> string" where
  "progress_line use_col opts total_tests s j =
     (let kind = (if is_example j \<or> is_pyexample j then ''Example'' else ''TestSuite'');
          status_print = get_color use_col (status_color (job_status j)) @ status_text (job_status j)
                         @ get_color use_col ''NORMAL''
      in ''['' @ show_int (passed_tests s + failed_tests s + skipped_tests s + crashed_tests s) @ ''/''
         @ show_nat total_tests @ ''] ''
         @ (if opt_duration opts \<or> opt_constrain opts = ''performance''
            then status_print @ '' ('' @ fmt3 (elapsed_time j) @ ''): '' @ kind @ '' '' @ display_name j
            else status_print @ '': '' @ kind @ '' '' @ display_name j))"

text \<open>
  What is appended to the results file: for an example a generated entry, for a skipped or crashed
  suite a generated entry, for any other suite the file that the suite has written.
\<close>

definition example_entry :: "job \<Rightarrow> string list" where
  "example_entry j =
     [line_nl ''<Example>'', line_nl (''  <Name>'' @ display_name j @ ''</Name>''),
      line_nl (''  <Result>'' @ status_text (job_status j) @ ''</Result>''),
      line_nl (''  <Time real='' @ quoted (fmt3 (elapsed_time j)) @ ''/>''), line_nl ''</Example>'']"

definition result_entry :: "(string \<Rightarrow> string option) \<Rightarrow> job \<Rightarrow> (string list) res" where
  "result_entry tmp j =
     (if is_example j \<or> is_pyexample j then Inr (example_entry j)
      else if is_skip j then
        Inr [line_nl ''<Test>'', line_nl (''  <Name>'' @ display_name j @ ''</Name>''),
             line_nl ''  <Result>SKIP</Result>'', line_nl (''  <Reason>'' @ skip_reason j @ ''</Reason>''),
             line_nl ''</Test>'']
      else if returncode j = 0 \<or> returncode j = 1 \<or> returncode j = 2 then
        (case tmp (tmp_file_name j) of None \<Rightarrow> Inl FileNotFoundError | Some content \<Rightarrow> Inr [content])
      else
        Inr [line_nl ''<Test>'', line_nl (''  <Name>'' @ display_name j @ ''</Name>''),
             line_nl ''  <Result>CRASH</Result>'', line_nl ''</Test>''])"

definition collect_job ::
    "(string \<Rightarrow> string option) \<Rightarrow> bool \<Rightarrow> test_options \<Rightarrow> nat \<Rightarrow> summary \<Rightarrow> job \<Rightarrow> summary res" where
  "collect_job tmp use_col opts total_tests s j =
     (if is_break j then Inr s
      else
        (let s = count_status s j;
             s = s\<lparr>printed := printed s @ [progress_line use_col opts total_tests s j]\<rparr>
         in res_bind (result_entry tmp j) (\<lambda>entry. Inr (s\<lparr>xml_results := xml_results s @ entry\<rparr>))))"

definition collect_jobs ::
    "(string \<Rightarrow> string option) \<Rightarrow> bool \<Rightarrow> test_options \<Rightarrow> nat \<Rightarrow> job list \<Rightarrow> summary res" where
  "collect_jobs tmp use_col opts total_tests jobs =
     res_fold (collect_job tmp use_col opts total_tests) jobs empty_summary"

section \<open>The summary\<close>

definition names_block :: "string \<Rightarrow> string list \<Rightarrow> string list" where
  "names_block title names =
     (if names \<noteq> [] then [title @ [NL] @ ''    '' @ py_join ([NL] @ ''    '') (sort names)] else [])"

definition summary_lines :: "nat \<Rightarrow> summary \<Rightarrow> string list" where
  "summary_lines total_tests s =
     [show_int (passed_tests s) @ '' of '' @ show_nat total_tests @ '' tests passed ('' @ show_int (passed_tests s)
        @ '' passed, '' @ show_int (skipped_tests s) @ '' skipped, '' @ show_int (failed_tests s) @ '' failed, ''
        @ show_int (crashed_tests s) @ '' crashed, '' @ show_int (valgrind_errors s) @ '' valgrind errors)'']
     @ names_block ''List of SKIPped tests:'' (skipped_testnames s)
     @ names_block ''List of FAILed tests:'' (failed_testnames s)
     @ names_block ''List of CRASHed tests:'' (crashed_testnames s)
     @ names_block ''List of VALGR failures:'' (valgrind_testnames s)"

definition note_lines :: "test_config \<Rightarrow> test_options \<Rightarrow> string list" where
  "note_lines cfg opts =
     (if \<not> ENABLE_TESTS cfg \<or> \<not> ENABLE_EXAMPLES cfg then
        [[]]
        @ (if \<not> ENABLE_TESTS cfg then
             [''***  Note: ns-3 tests are currently disabled. Enable them by adding'',
              ''***  '' @ quoted ''--enable-tests'' @ '' to ./waf configure or modifying your .ns3rc file.'', []] else [])
        @ (if \<not> ENABLE_EXAMPLES cfg then
             [''***  Note: ns-3 examples are currently disabled. Enable them by adding'',
              ''***  '' @ quoted ''--enable-examples'' @ '' to ./waf configure or modifying your .ns3rc file.'', []] else [])
      else [])
     @ (if opt_valgrind opts \<and> \<not> VALGRIND_FOUND cfg then
          [[], ''***  Note: you are trying to use valgrind, but valgrind could not be found'',
           ''***  on your machine.  All tests and examples will crash or be skipped.'', []]
        else [])"

section \<open>The end of the run\<close>

text \<open>
  Reports are written from the parsed results file; the parser is an argument.  The result is the
  exit code, the printed lines, the files written and whether the temporary directory is removed.
\<close>

record run_result =
  exit_code :: int
  stdout_lines :: "string list"
  files :: "(string \<times> string list) list"
  tmp_removed :: bool

definition write_report ::
    "(string list \<Rightarrow> xml res) \<Rightarrow> string list \<Rightarrow> string \<Rightarrow> string \<Rightarrow> (xml \<Rightarrow> (string list) res)
       \<Rightarrow> ((string \<times> string list) list) res" where
  "write_report et_parse content base ext translate =
     (if base = [] then Inr []
      else res_bind (et_parse content) (\<lambda>et. res_bind (translate et) (\<lambda>out. Inr [(base @ ext, out)])))"

definition run_tests_finish ::
    "(string list \<Rightarrow> xml res) \<Rightarrow> test_config \<Rightarrow> test_options \<Rightarrow> nat \<Rightarrow> summary \<Rightarrow> run_result res" where
  "run_tests_finish et_parse cfg opts total_tests s =
     (let content = xml_results s @ [line_nl ''</Results>'']
      in res_bind (write_report et_parse content (opt_html opts) ''.html'' translate_to_html) (\<lambda>html.
         res_bind (write_report et_parse content (opt_text opts) ''.txt'' translate_to_text) (\<lambda>txt.
           Inr \<lparr> exit_code = (if passed_tests s + skipped_tests s = int total_tests then 0 else 1),
                 stdout_lines = printed s @ summary_lines total_tests s
                   @ (if opt_html opts @ opt_text opts @ opt_xml opts \<noteq> [] then [[]] else [])
                   @ (if opt_html opts \<noteq> [] then [''Writing results to html file '' @ opt_html opts @ ''.html...done.''] else [])
                   @ (if opt_text opts \<noteq> [] then [''Writing results to text file '' @ quoted (opt_text opts @ ''.txt'') @ ''...done.''] else [])
                   @ (if opt_xml opts \<noteq> [] then [''Writing results to xml file '' @ opt_xml opts @ ''.xml...done.''] else [])
                   @ note_lines cfg opts,
                 files = html @ txt @ (if opt_xml opts \<noteq> [] then [(opt_xml opts @ ''.xml'', content)] else []),
                 tmp_removed = (\<not> opt_retain opts) \<rparr>)))"

section \<open>Counting\<close>

definition with_status :: "status \<Rightarrow> job list \<Rightarrow> job list" where
  "with_status st js = filter (\<lambda>j. \<not> is_break j \<and> job_status j = st) js"

definition skip_name :: "job \<Rightarrow> string" where
  "skip_name j = display_name j @ '' ('' @ skip_reason j @ '')''"

text \<open>The part of the summary that is printed at the end, as a function of the jobs.\<close>

definition tally :: "summary \<Rightarrow> job list \<Rightarrow> summary \<Rightarrow> bool" where
  "tally s js t \<longleftrightarrow>
     passed_tests t = passed_tests s + int (length (with_status PASS js))
     \<and> failed_tests t = failed_tests s + int (length (with_status FAIL js))
     \<and> crashed_tests t = crashed_tests s + int (length (with_status CRASH js))
     \<and> valgrind_errors t = valgrind_errors s + int (length (with_status VALGR js))
     \<and> skipped_tests t = skipped_tests s + int (length (with_status SKIP js))
     \<and> failed_testnames t = failed_testnames s @ map display_name (with_status FAIL js)
     \<and> crashed_testnames t = crashed_testnames s @ map display_name (with_status CRASH js)
     \<and> valgrind_testnames t = valgrind_testnames s @ map display_name (with_status VALGR js)
     \<and> skipped_testnames t = skipped_testnames s @ map skip_name (with_status SKIP js)"

lemma tally_append: "tally s xs t \<Longrightarrow> tally t ys u \<Longrightarrow> tally s (xs @ ys) u"
  by (simp add: tally_def with_status_def)

lemma collect_job_tally: "collect_job tmp c opts n s j = Inr t \<Longrightarrow> tally s [j] t"
  by (cases "job_status j")
     (auto simp: collect_job_def Let_def res_bind_eq_Inr count_status_def tally_def with_status_def skip_name_def
        split: if_splits)

lemma collect_fold_tally: "res_fold (collect_job tmp c opts n) js s = Inr t \<Longrightarrow> tally s js t"
proof (induction js arbitrary: s)
  case (Cons j js)
  from Cons.prems obtain u where u: "collect_job tmp c opts n s j = Inr u"
    "res_fold (collect_job tmp c opts n) js u = Inr t" by (auto simp: res_bind_eq_Inr)
  show ?case using tally_append [OF collect_job_tally [OF u(1)] Cons.IH [OF u(2)]] by simp
qed (simp add: tally_def with_status_def)

lemma collect_jobs_tally: "collect_jobs tmp c opts n js = Inr s \<Longrightarrow> tally empty_summary js s"
  unfolding collect_jobs_def by (rule collect_fold_tally)

lemma status_partition:
  "length js = length (filter is_break js) + length (with_status PASS js) + length (with_status FAIL js)
     + length (with_status CRASH js) + length (with_status VALGR js) + length (with_status SKIP js)"
proof (induction js)
  case (Cons j js)
  then show ?case by (cases "job_status j") (auto simp: with_status_def)
qed (simp add: with_status_def)

text \<open>Three results: a suite that passed, an example that failed, a skipped suite.\<close>

definition three_jobs :: "job list" where
  "three_jobs = [new_job\<lparr>tmp_file_name := ''tcp.xml''\<rparr>, new_job\<lparr>is_example := True, returncode := 1\<rparr>,
     skip_job ''requires NSC'' new_job]"

definition some_file :: "string \<Rightarrow> string option" where
  "some_file p = Some ''<Test></Test>''"

lemma three_jobs_written: "\<exists>s. collect_jobs some_file False default_options n three_jobs = Inr s"
  by (simp add: three_jobs_def collect_jobs_def collect_job_def result_entry_def some_file_def job_defs Let_def)

lemma three_jobs_finish: "\<exists>r. run_tests_finish (\<lambda>_. Inl KeyError) initial_config default_options n s = Inr r"
  by (simp add: run_tests_finish_def write_report_def default_options_def Let_def)

text \<open>
  the five counters count the collected jobs by outcome; together with the jobs that an interrupt
  turned into breaks they add up to the total.
\<close>
theorem collect_jobs_counts:
  assumes "collect_jobs tmp c opts (length jobs) jobs = Inr s"
  shows "passed_tests s = int (length (with_status PASS jobs))
    \<and> failed_tests s = int (length (with_status FAIL jobs))
    \<and> crashed_tests s = int (length (with_status CRASH jobs))
    \<and> valgrind_errors s = int (length (with_status VALGR jobs))
    \<and> skipped_tests s = int (length (with_status SKIP jobs))
    \<and> passed_tests s + failed_tests s + crashed_tests s + valgrind_errors s + skipped_tests s
        + int (length (filter is_break jobs)) = int (length jobs)"
  using collect_jobs_tally [OF assms] status_partition [of jobs] by (simp add: tally_def empty_summary_def)

theorem collect_jobs_counts_witness:
  "\<exists>s. collect_jobs some_file False default_options 3 three_jobs = Inr s
    \<and> passed_tests s = 1 \<and> failed_tests s = 1 \<and> skipped_tests s = 1"
proof -
  have n: "length three_jobs = 3" by (simp add: three_jobs_def)
  obtain s where s: "collect_jobs some_file False default_options (length three_jobs) three_jobs = Inr s"
    using three_jobs_written by blast
  have "length (with_status PASS three_jobs) = 1" "length (with_status FAIL three_jobs) = 1"
    "length (with_status SKIP three_jobs) = 1"
    by (simp_all add: three_jobs_def with_status_def job_status_def job_defs)
  with collect_jobs_counts [OF s] s show ?thesis unfolding n by simp
qed

lemma exit_iff:
  assumes "collect_jobs tmp c opts n jobs = Inr s"
  shows "passed_tests s + skipped_tests s = int (length jobs)
    \<longleftrightarrow> (\<forall>j \<in> set jobs. \<not> is_break j \<and> (is_skip j \<or> returncode j = 0))"
proof -
  let ?good = "\<lambda>j. \<not> is_break j \<and> (is_skip j \<or> returncode j = 0)"
  have "length (with_status PASS jobs) + length (with_status SKIP jobs) = length (filter ?good jobs)"
    by (induction jobs) (auto simp: with_status_def job_status_def)
  then have "passed_tests s + skipped_tests s = int (length (filter ?good jobs))"
    using collect_jobs_tally [OF assms] by (simp add: tally_def empty_summary_def flip: of_nat_add)
  moreover have "length (filter ?good jobs) = length jobs \<longleftrightarrow> (\<forall>j \<in> set jobs. ?good j)"
  proof
    assume "length (filter ?good jobs) = length jobs"
    then show "\<forall>j \<in> set jobs. ?good j" using length_filter_less [of _ jobs ?good] by fastforce
  qed (simp add: filter_True)
  ultimately show ?thesis by simp
qed

lemma finish_exit_code:
  assumes "run_tests_finish et_parse cfg opts n s = Inr r"
  shows "exit_code r = (if passed_tests s + skipped_tests s = int n then 0 else 1)"
  using assms unfolding run_tests_finish_def Let_def res_bind_eq_Inr by auto

text \<open>
  \<open>run_tests\<close> returns 0 exactly when no job came back as a break and every job was skipped or
  its command returned 0.
\<close>
theorem run_tests_exit_code:
  assumes "collect_jobs tmp c opts (length jobs) jobs = Inr s"
    and "run_tests_finish et_parse cfg opts (length jobs) s = Inr r"
  shows "exit_code r = (if \<forall>j \<in> set jobs. \<not> is_break j \<and> (is_skip j \<or> returncode j = 0) then 0 else 1)"
  unfolding finish_exit_code [OF assms(2)] exit_iff [OF assms(1)] by (rule refl)

theorem run_tests_exit_code_witness:
  "\<exists>s r. collect_jobs some_file False default_options 3 three_jobs = Inr s
    \<and> run_tests_finish (\<lambda>_. Inl KeyError) initial_config default_options 3 s = Inr r \<and> exit_code r = 1"
proof -
  have n: "length three_jobs = 3" by (simp add: three_jobs_def)
  obtain s r where s: "collect_jobs some_file False default_options (length three_jobs) three_jobs = Inr s"
    and r: "run_tests_finish (\<lambda>_. Inl KeyError) initial_config default_options (length three_jobs) s = Inr r"
    using three_jobs_written three_jobs_finish by metis
  have "\<not> (\<forall>j \<in> set three_jobs. \<not> is_break j \<and> (is_skip j \<or> returncode j = 0))"
    by (simp add: three_jobs_def job_defs)
  then have "exit_code r = 1" unfolding run_tests_exit_code [OF s r] by (rule if_not_P)
  with s r show ?thesis unfolding n by blast
qed

section \<open>The order of results\<close>

definition writable :: "(string \<Rightarrow> string option) \<Rightarrow> job \<Rightarrow> bool" where
  "writable tmp j \<longleftrightarrow> is_break j \<or> \<not> isl (result_entry tmp j)"

lemma collect_job_success: "(\<exists>t. collect_job tmp c opts n s j = Inr t) \<longleftrightarrow> writable tmp j"
  by (auto simp: collect_job_def Let_def writable_def res_bind_def isl_def split: sum.splits)

lemma collect_fold_success:
  "(\<exists>t. res_fold (collect_job tmp c opts n) js s = Inr t) \<longleftrightarrow> (\<forall>j \<in> set js. writable tmp j)"
proof (induction js arbitrary: s)
  case (Cons j js)
  then show ?case using collect_job_success [of tmp c opts n s j] by (fastforce simp: res_bind_eq_Inr)
qed simp

lemma sort_mset_cong: "mset xs = mset ys \<Longrightarrow> sort xs = sort ys"
  by (metis mset_sort properties_for_sort sorted_sort)

lemma names_block_mset: "mset xs = mset ys \<Longrightarrow> names_block title xs = names_block title ys"
  using sort_mset_cong [of xs ys] by (auto simp: names_block_def)

lemma tally_summary_lines:
  assumes "tally empty_summary js s" and "tally empty_summary js' s'" and "mset js = mset js'"
  shows "summary_lines n s = summary_lines n s'"
proof -
  have m: "mset (with_status st js) = mset (with_status st js')" for st
    using assms(3) by (simp add: with_status_def mset_filter)
  have l: "length (with_status st js) = length (with_status st js')" for st
    using m [of st] by (metis size_mset)
  have nb: "names_block title (map f (with_status st js)) = names_block title (map f (with_status st js'))"
    for title and f :: "job \<Rightarrow> string" and st
    by (rule names_block_mset) (simp add: m)
  have c: "passed_tests s = passed_tests s'" "failed_tests s = failed_tests s'" "crashed_tests s = crashed_tests s'"
    "valgrind_errors s = valgrind_errors s'" "skipped_tests s = skipped_tests s'"
    using assms(1,2) l by (simp_all add: tally_def)
  have e: "skipped_testnames s = map skip_name (with_status SKIP js)"
    "failed_testnames s = map display_name (with_status FAIL js)"
    "crashed_testnames s = map display_name (with_status CRASH js)"
    "valgrind_testnames s = map display_name (with_status VALGR js)"
    "skipped_testnames s' = map skip_name (with_status SKIP js')"
    "failed_testnames s' = map display_name (with_status FAIL js')"
    "crashed_testnames s' = map display_name (with_status CRASH js')"
    "valgrind_testnames s' = map display_name (with_status VALGR js')"
    using assms(1,2) by (simp_all add: tally_def empty_summary_def)
  show ?thesis unfolding summary_lines_def c e nb by (rule refl)
qed

text \<open>
  The final summary does not depend on the order in which the workers deliver: two orders of the
  same results are both written or both fail, and give the same summary lines and the same exit code.
\<close>
theorem collect_order_irrelevant:
  assumes "mset js = mset js'"
  shows "(case (collect_jobs tmp c opts n js, collect_jobs tmp c opts n js') of
      (Inr s, Inr s') \<Rightarrow> summary_lines n s = summary_lines n s'
        \<and> passed_tests s + skipped_tests s = passed_tests s' + skipped_tests s'
    | (Inl e, Inl e') \<Rightarrow> True
    | _ \<Rightarrow> False)"
proof -
  have "set js = set js'" using assms by (metis set_mset_mset)
  then have ok: "(\<exists>t. collect_jobs tmp c opts n js = Inr t) \<longleftrightarrow> (\<exists>t. collect_jobs tmp c opts n js' = Inr t)"
    unfolding collect_jobs_def collect_fold_success by simp
  show ?thesis
  proof (cases "collect_jobs tmp c opts n js")
    case (Inr s)
    with ok obtain s' where s': "collect_jobs tmp c opts n js' = Inr s'" by blast
    note t = collect_jobs_tally [OF Inr] collect_jobs_tally [OF s']
    have "length (with_status st js) = length (with_status st js')" for st
      using assms unfolding with_status_def by (metis mset_filter size_mset)
    with t have "passed_tests s + skipped_tests s = passed_tests s' + skipped_tests s'" by (simp add: tally_def)
    with tally_summary_lines [OF t assms] Inr s' show ?thesis by simp
  next
    case (Inl e)
    with ok obtain e' where "collect_jobs tmp c opts n js' = Inl e'"
      by (cases "collect_jobs tmp c opts n js'") auto
    with Inl show ?thesis by simp
  qed
qed

theorem collect_order_irrelevant_witness:
  "\<exists>s s'. collect_jobs some_file False default_options 3 three_jobs = Inr s
    \<and> collect_jobs some_file False default_options 3 (rev three_jobs) = Inr s'
    \<and> summary_lines 3 s = summary_lines 3 s'"
proof -
  obtain s where s: "collect_jobs some_file False default_options 3 three_jobs = Inr s"
    using three_jobs_written by blast
  with collect_order_irrelevant [where js = three_jobs and js' = "rev three_jobs" and tmp = some_file and c = False and opts = default_options and n = 3]
  show ?thesis by (auto split: sum.splits)
qed

end
