(* ===== verification/Check_Style.thy ===== *)
theory Check_Style
  imports Py_Prelude
begin

text \<open>
  \<^verbatim>\<open>utils/check-style.py\<close>: parsing a unified diff into patches, chunks and lines, dropping the
  changes that only remove trailing blanks, writing the patch back, and the driver around the
  external programs \<open>uncrustify\<close> and \<open>patch\<close>.  These two programs and \<open>difflib.unified_diff\<close>
  are arguments.  A file is the list of its lines, each with its line end.
\<close>

section \<open>The configuration of uncrustify\<close>

text \<open>Each block starts with an empty line, as the triple-quoted strings do.\<close>

definition config_text :: "string list \<Rightarrow> string" where
  "config_text ls = NL # concat (map (\<lambda>l. l @ [NL]) ls)"

definition level0_config :: string where
  "level0_config = config_text
     [''sp_func_proto_paren=Add'', ''sp_func_def_paren=Add'', ''sp_func_call_paren=Add'', 
      ''sp_after_semi_for=Ignore'', ''sp_before_sparen=Ignore'', ''sp_before_ellipsis=Remove'', 
      ''sp_type_func=Ignore'', ''sp_after_type=Ignore'', ''nl_class_leave_one_liners=True'', 
      ''nl_enum_leave_one_liners=True'', ''nl_func_leave_one_liners=True'', 
      ''nl_assign_leave_one_liners=True'', ''nl_collapse_empty_body=True'', 
      ''nl_getset_leave_one_liners=True'', ''nl_if_leave_one_liners=True'', ''nl_fdef_brace=Ignore'', 
      ''# finally, indentation configuration'', ''indent_with_tabs=0'', ''indent_namespace=false'', 
      ''indent_columns=2'', ''indent_brace=2'', ''indent_case_brace=indent_columns'', 
      ''indent_class=true'', ''indent_class_colon=True'', ''indent_switch_case=indent_columns'', 
      ''# alignment'', ''indent_align_assign=False'', ''align_left_shift=True'', 
      ''# comment reformating disabled'', ''cmt_reflow_mode=1 # do not touch comments at all'', 
      ''cmt_indent_multi=False # really, do not touch them'', 
      ''disable_processing_cmt= '' @ [DQ] @ '' *NS_CHECK_STYLE_OFF*'' @ [DQ], 
      ''enable_processing_cmt=  '' @ [DQ] @ '' *NS_CHECK_STYLE_ON*'' @ [DQ]]"

definition level1_config :: string where
  "level1_config = config_text
     [''# extra spaces here and there'', ''sp_brace_typedef=Add'', ''sp_enum_assign=Add'', 
      ''sp_before_sparen=Add'', ''sp_after_semi_for=Add'', ''sp_arith=Add'', ''sp_assign=Add'', 
      ''sp_compare=Add'', ''sp_func_class_paren=Add'', ''sp_after_type=Add'', ''sp_type_func=Add'', 
      ''sp_angle_paren=Add'']"

definition level2_config :: string where
  "level2_config = config_text
     [''nl_if_brace=Add'', ''nl_brace_else=Add'', ''nl_elseif_brace=Add'', ''nl_else_brace=Add'', 
      ''nl_while_brace=Add'', ''nl_do_brace=Add'', ''nl_for_brace=Add'', ''nl_brace_while=Add'', 
      ''nl_switch_brace=Add'', ''nl_after_case=True'', ''nl_namespace_brace=ignore'', 
      ''nl_after_brace_open=True'', ''nl_class_leave_one_liners=False'', 
      ''nl_enum_leave_one_liners=False'', ''nl_func_leave_one_liners=False'', 
      ''nl_if_leave_one_liners=False'', ''nl_class_colon=Ignore'', ''nl_before_access_spec=2'', 
      ''nl_after_access_spec=0'', ''indent_access_spec=-indent_columns'', ''nl_after_semicolon=True'', 
      ''pos_class_colon=Lead'', ''pos_class_comma=Trail'', ''indent_constr_colon=true'', 
      ''pos_bool=Lead'', ''nl_class_init_args=Add'', ''nl_template_class=Add'', 
      ''nl_class_brace=Add'', ''# does not work very well'', ''nl_func_type_name=Ignore'', 
      ''nl_func_scope_name=Ignore'', ''nl_func_type_name_class=Ignore'', 
      ''nl_func_proto_type_name=Ignore'', ''# function'' @ [CHR 0x5C] @ ''n('', 
      ''nl_func_paren=Remove'', ''nl_fdef_brace=Add'', ''nl_struct_brace=Add'', ''nl_enum_brace=Add'', 
      ''nl_union_brace=Add'', ''mod_full_brace_do=Add'', ''mod_full_brace_for=Add'', 
      ''mod_full_brace_if=Add'', ''mod_full_brace_while=Add'', ''mod_full_brace_for=Add'', 
      ''mod_remove_extra_semicolon=True'', ''# max code width'', ''#code_width=128'', 
      ''#ls_for_split_full=True'', ''#ls_func_split_full=True'', 
      ''nl_cpp_lambda_leave_one_liners=True'']"

definition uncrustify_config_file :: "int \<Rightarrow> string" where
  "uncrustify_config_file level =
     level0_config @ (if level \<ge> 1 then level1_config else []) @ (if level \<ge> 2 then level2_config else [])"

section \<open>Patches\<close>

datatype line_type = UNSET | SRC | DST | BOTH

record chunk_line =
  l_type :: line_type
  l_line :: string

record patch_chunk =
  c_lines :: "chunk_line list"
  c_src_pos :: nat
  c_dst_pos :: nat

record patch =
  p_src :: string
  p_dst :: string
  p_chunks :: "patch_chunk list"

definition is_src :: "chunk_line \<Rightarrow> bool" where
  "is_src l \<longleftrightarrow> l_type l = SRC \<or> l_type l = BOTH"

definition is_dst :: "chunk_line \<Rightarrow> bool" where
  "is_dst l \<longleftrightarrow> l_type l = DST \<or> l_type l = BOTH"

definition append_to_line :: "string \<Rightarrow> chunk_line \<Rightarrow> chunk_line" where
  "append_to_line s l = l\<lparr>l_line := l_line l @ s\<rparr>"

definition write_line :: "chunk_line \<Rightarrow> string res" where
  "write_line l =
     (case l_type l of
        SRC \<Rightarrow> Inr (''-'' @ l_line l @ [NL])
      | DST \<Rightarrow> Inr (''+'' @ l_line l @ [NL])
      | BOTH \<Rightarrow> Inr ('' '' @ l_line l @ [NL])
      | UNSET \<Rightarrow> Inl (PyException ''invalid patch''))"

definition src_len :: "patch_chunk \<Rightarrow> nat" where
  "src_len c = length (filter is_src (c_lines c))"

definition dst_len :: "patch_chunk \<Rightarrow> nat" where
  "dst_len c = length (filter is_dst (c_lines c))"

definition chunk_header :: "patch_chunk \<Rightarrow> string" where
  "chunk_header c =
     ''@@ -'' @ show_nat (c_src_pos c) @ '','' @ show_nat (src_len c) @ '' +'' @ show_nat (c_dst_pos c) @ '',''
     @ show_nat (dst_len c) @ '' @@'' @ [NL]"

definition write_chunk :: "patch_chunk \<Rightarrow> (string list) res" where
  "write_chunk c = res_bind (res_map write_line (c_lines c)) (\<lambda>ls. Inr (chunk_header c # ls))"

definition write_patch :: "patch \<Rightarrow> (string list) res" where
  "write_patch p =
     res_bind (res_map write_chunk (p_chunks p)) (\<lambda>cs.
       Inr ([''--- '' @ p_src p @ [NL], ''+++ '' @ p_dst p @ [NL]] @ concat cs))"

section \<open>Parsing a diff\<close>

text \<open>
  \<open>(.*)$\<close> on the rest of a line: everything up to the end or up to a final newline, and no
  match if a newline stands anywhere else.
\<close>

definition to_eol :: "string \<Rightarrow> string option" where
  "to_eol s =
     (let b = (if s \<noteq> [] \<and> last s = NL then butlast s else s) in if NL \<in> set b then None else Some b)"

definition match_prefix :: "string \<Rightarrow> string \<Rightarrow> string option" where
  "match_prefix pre line = (if prefix pre line then to_eol (drop (length pre) line) else None)"

definition read_digits :: "string \<Rightarrow> (nat \<times> string) option" where
  "read_digits s =
     (let d = takeWhile is_digit s in if d = [] then None else Some (read_nat d, dropWhile is_digit s))"

definition expect :: "string \<Rightarrow> string \<Rightarrow> string option" where
  "expect pre s = (if prefix pre s then Some (drop (length pre) s) else None)"

text \<open>\<open>^@@ -([0-9]+),([0-9]+) \+([0-9]+),([0-9]+) @@\<close>: groups 1 and 3.\<close>

definition match_chunk_start :: "string \<Rightarrow> (nat \<times> nat) option" where
  "match_chunk_start line =
     Option.bind (expect ''@@ -'' line) (\<lambda>s. Option.bind (read_digits s) (\<lambda>(src_pos, s).
     Option.bind (expect '','' s) (\<lambda>s. Option.bind (read_digits s) (\<lambda>(_, s).
     Option.bind (expect '' +'' s) (\<lambda>s. Option.bind (read_digits s) (\<lambda>(dst_pos, s).
     Option.bind (expect '','' s) (\<lambda>s. Option.bind (read_digits s) (\<lambda>(_, s).
     Option.bind (expect '' @@'' s) (\<lambda>_. Some (src_pos, dst_pos))))))))))"

text \<open>
  The state of the loop: \<open>current_patch\<close> is the last patch of the set, \<open>current_chunk\<close> a chunk
  of some patch, given by two indices, and unassigned before the first chunk header.
\<close>

record parse_state =
  patchset :: "patch list"
  current_chunk :: "(nat \<times> nat) option"

definition add_line :: "line_type \<Rightarrow> string \<Rightarrow> parse_state \<Rightarrow> parse_state res" where
  "add_line t text st =
     (case current_chunk st of
        None \<Rightarrow> Inl UnboundLocalError
      | Some (i, k) \<Rightarrow>
          (let p = patchset st ! i; c = p_chunks p ! k;
               c = c\<lparr>c_lines := c_lines c @ [\<lparr>l_type = t, l_line = text\<rparr>]\<rparr>
           in Inr (st\<lparr>patchset := (patchset st)[i := p\<lparr>p_chunks := (p_chunks p)[k := c]\<rparr>]\<rparr>)))"

definition parse_line :: "parse_state \<Rightarrow> string \<Rightarrow> parse_state res" where
  "parse_line st line =
     (case match_prefix ''--- '' line of
        Some g \<Rightarrow> Inr (st\<lparr>patchset := patchset st @ [\<lparr>p_src = g, p_dst = [], p_chunks = []\<rparr>]\<rparr>)
      | None \<Rightarrow>
     (case match_prefix ''+++ '' line of
        Some g \<Rightarrow>
          (if patchset st = [] then Inl AttributeError
           else Inr (st\<lparr>patchset := butlast (patchset st) @ [(last (patchset st))\<lparr>p_dst := g\<rparr>]\<rparr>))
      | None \<Rightarrow>
     (case match_chunk_start line of
        Some (src_pos, dst_pos) \<Rightarrow>
          (if patchset st = [] then Inl AttributeError
           else
             (let p = last (patchset st); c = \<lparr>c_lines = [], c_src_pos = src_pos, c_dst_pos = dst_pos\<rparr>
              in Inr (st\<lparr>patchset := butlast (patchset st) @ [p\<lparr>p_chunks := p_chunks p @ [c]\<rparr>],
                         current_chunk := Some (length (patchset st) - 1, length (p_chunks p))\<rparr>)))
      | None \<Rightarrow>
     (case match_prefix ''-'' line of
        Some g \<Rightarrow> add_line SRC g st
      | None \<Rightarrow>
     (case match_prefix ''+'' line of
        Some g \<Rightarrow> add_line DST g st
      | None \<Rightarrow>
     (case match_prefix '' '' line of
        Some g \<Rightarrow> add_line BOTH g st
      | None \<Rightarrow> Inl (PyException [])))))))"

definition parse_patchset :: "string list \<Rightarrow> (patch list) res" where
  "parse_patchset gen =
     res_bind (res_fold parse_line gen \<lparr>patchset = [], current_chunk = None\<rparr>) (\<lambda>st. Inr (patchset st))"

section \<open>Changes of trailing blanks\<close>

text \<open>
  \<open>^(.*)([ \t]+)$\<close>: the first group is greedy, so the second is one character.
\<close>

definition match_whitespace :: "string \<Rightarrow> (string \<times> string) option" where
  "match_whitespace s =
     (case to_eol s of
        None \<Rightarrow> None
      | Some b \<Rightarrow> if b \<noteq> [] \<and> (last b = CHR '' '' \<or> last b = TAB) then Some (butlast b, [last b]) else None)"

text \<open>
  \<open>src\<close> and \<open>dst\<close> hold references to the line objects of the chunk: indices into its lines.  An
  index error inside the loop ends the whole function.
\<close>

definition line_refs :: "(chunk_line \<Rightarrow> bool) \<Rightarrow> chunk_line list \<Rightarrow> nat list" where
  "line_refs sel ls = filter (\<lambda>i. sel (ls ! i)) [0 ..< length ls]"

fun whitespace_loop :: "nat list \<Rightarrow> nat list \<Rightarrow> chunk_line list \<Rightarrow> chunk_line list \<times> bool" where
  "whitespace_loop [] dst ls = (ls, True)"
| "whitespace_loop (s # src) [] ls = (ls, False)"
| "whitespace_loop (s # src) (d # dst) ls =
     (let ls' = (case match_whitespace (l_line (ls ! s)) of
                   Some (g1, g2) \<Rightarrow> if g1 = l_line (ls ! d) then ls[d := append_to_line g2 (ls ! d)] else ls
                 | None \<Rightarrow> ls)
      in whitespace_loop src dst ls')"

definition fix_chunk :: "patch_chunk \<Rightarrow> patch_chunk \<times> bool" where
  "fix_chunk c =
     (let ls = c_lines c; (ls', finished) = whitespace_loop (line_refs is_src ls) (line_refs is_dst ls) ls
      in (c\<lparr>c_lines := ls'\<rparr>, finished))"

text \<open>Process chunk after chunk and patch after patch until one of them ends early.\<close>

fun until_failure :: "('a \<Rightarrow> 'a \<times> bool) \<Rightarrow> 'a list \<Rightarrow> 'a list \<times> bool" where
  "until_failure f [] = ([], True)"
| "until_failure f (x # xs) =
     (let (x', finished) = f x
      in if finished then (let (ys, fin) = until_failure f xs in (x' # ys, fin)) else (x' # xs, False))"

definition fix_patch :: "patch \<Rightarrow> patch \<times> bool" where
  "fix_patch p = (let (cs, finished) = until_failure fix_chunk (p_chunks p) in (p\<lparr>p_chunks := cs\<rparr>, finished))"

definition remove_trailing_whitespace_changes :: "string list \<Rightarrow> (patch list) res" where
  "remove_trailing_whitespace_changes patch_generator =
     res_bind (parse_patchset patch_generator) (\<lambda>ps. Inr (fst (until_failure fix_patch ps)))"

section \<open>Indenting files\<close>

text \<open>
  The outside world: \<open>uncrustify\<close> and \<open>patch\<close> (\<open>None\<close> when the program is not installed), \<open>unified_diff\<close>,
  and the name of the temporary output file of each source.
\<close>

record style_env =
  env_uncrustify :: "string \<Rightarrow> string list \<Rightarrow> (string list) option"
  env_unified_diff :: "string list \<Rightarrow> string list \<Rightarrow> string \<Rightarrow> string \<Rightarrow> string list"
  env_patch :: "string list \<Rightarrow> string list \<Rightarrow> (string list) option"
  env_output :: "string \<Rightarrow> string"

text \<open>
  \<open>unified_diff\<close> is a generator: after \<open>tmp.writelines(diff)\<close> in the debugging branch nothing is left
  of it.  The result is the text of the final diff file; an empty file if there is no patch.
\<close>

definition final_diff :: "bool \<Rightarrow> int \<Rightarrow> string list \<Rightarrow> (string list) res" where
  "final_diff debug level diff =
     (let diff = (if debug then [] else diff)
      in if level < 3 then
           res_bind (remove_trailing_whitespace_changes diff) (\<lambda>ps.
             case ps of [] \<Rightarrow> Inr [] | p # _ \<Rightarrow> write_patch p)
         else Inr diff)"

definition indent :: "style_env \<Rightarrow> (string \<Rightarrow> string list option) \<Rightarrow> bool \<Rightarrow> int \<Rightarrow> string \<Rightarrow> (string list) res" where
  "indent env fs debug level source =
     (case fs source of
        None \<Rightarrow> Inl FileNotFoundError
      | Some content \<Rightarrow>
          (case env_uncrustify env (uncrustify_config_file level) content of
             None \<Rightarrow> Inl (PyException ''uncrustify not installed'')
           | Some formatted \<Rightarrow>
               res_bind (final_diff debug level
                           (env_unified_diff env content formatted source (env_output env source)))
                 (\<lambda>d. case env_patch env d content of None \<Rightarrow> Inl FileNotFoundError | Some output \<Rightarrow> Inr output)))"

text \<open>
  \<open>indent_files\<close>: the returned flag, the printed lines and the files afterwards.
\<close>

definition indent_files ::
    "style_env \<Rightarrow> (string \<Rightarrow> string list option) \<Rightarrow> string list \<Rightarrow> bool \<Rightarrow> bool \<Rightarrow> int \<Rightarrow> bool
       \<Rightarrow> (bool \<times> string list \<times> (string \<Rightarrow> string list option)) res" where
  "indent_files env fs files diff debug level inplace =
     res_bind (res_map (\<lambda>f. res_bind (indent env fs debug level f) (\<lambda>dst. Inr (f, dst))) files) (\<lambda>output.
       if inplace then Inr (True, [], foldl (\<lambda>fs (src, dst). fs(src \<mapsto> dst)) fs output)
       else
         (let failed = filter (\<lambda>(src, dst). fs src \<noteq> Some dst) output
          in if failed \<noteq> [] then
               Inr (False,
                 (if \<not> diff then
                    (''Found '' @ show_nat (length failed) @ '' badly indented files:'') # map (\<lambda>(src, dst). ''  '' @ src) failed
                  else
                    concat (map (\<lambda>(src, dst). env_unified_diff env (case fs src of Some s \<Rightarrow> s | None \<Rightarrow> []) dst src
                                                (env_output env src)) failed)),
                 fs)
             else Inr (True, [], fs)))"

text \<open>\<open>git_modified_files\<close> from the outputs of the two git commands.\<close>

definition git_modified_files :: "string list \<Rightarrow> string \<Rightarrow> string list" where
  "git_modified_files diff_lines root_dir =
     (let files_changed = map py_strip diff_lines;
          files_changed = filter (\<lambda>item. suffix ''.h'' item \<or> suffix ''.cc'' item) files_changed
      in map (\<lambda>filename. py_slice root_dir 0 (-1) @ ''/'' @ py_strip filename) files_changed)"

record style_options =
  so_debug :: bool
  so_level :: int
  so_git :: bool
  so_file :: string
  so_diff :: bool
  so_in_place :: bool

text \<open>The exit status and the printed lines; the handler at the end of the file turns an exception into status 1.\<close>

definition run_as_main ::
    "style_env \<Rightarrow> (string \<Rightarrow> string list option) \<Rightarrow> string list \<Rightarrow> string \<Rightarrow> style_options
       \<Rightarrow> int \<times> string list \<times> (string \<Rightarrow> string list option)" where
  "run_as_main env fs diff_lines root_dir opts =
     (let indent_all = (\<lambda>files. indent_files env fs files (so_diff opts) (so_debug opts) (so_level opts) (so_in_place opts));
          outcome = (if so_git opts then indent_all (git_modified_files diff_lines root_dir)
                     else if so_file opts \<noteq> [] then
                       (if fs (so_file opts) = None
                        then Inr (False, [''file '' @ so_file opts @ '' does not exist''], fs)
                        else indent_all [so_file opts])
                     else Inr (False, [], fs))
      in case outcome of
           Inl e \<Rightarrow> (1, [], fs)
         | Inr (style_is_correct, out, fs') \<Rightarrow> (if style_is_correct then 0 else 1, out, fs'))"

section \<open>Reading back what was written\<close>

definition wf_line :: "chunk_line \<Rightarrow> bool" where
  "wf_line l \<longleftrightarrow> l_type l \<noteq> UNSET \<and> NL \<notin> set (l_line l)
     \<and> (l_type l = SRC \<longrightarrow> \<not> prefix ''-- '' (l_line l)) \<and> (l_type l = DST \<longrightarrow> \<not> prefix ''++ '' (l_line l))"

definition wf_patch :: "patch \<Rightarrow> bool" where
  "wf_patch p \<longleftrightarrow> NL \<notin> set (p_src p) \<and> NL \<notin> set (p_dst p)
     \<and> (\<forall>c \<in> set (p_chunks p). \<forall>l \<in> set (c_lines c). wf_line l)"

lemma to_eol_line [simp]: "NL \<notin> set s \<Longrightarrow> to_eol (s @ [NL]) = Some s"
  by (simp add: to_eol_def)

lemma read_digits_show_nat:
  assumes "r = [] \<or> \<not> is_digit (hd r)"
  shows "read_digits (show_nat n @ r) = Some (n, r)"
proof -
  have d: "\<forall>c \<in> set (show_nat n). is_digit c" using show_nat_digits by blast
  have "takeWhile is_digit (show_nat n @ r) = show_nat n" "dropWhile is_digit (show_nat n @ r) = r"
    using d assms by (cases r; simp add: takeWhile_append2 dropWhile_append2)+
  then show ?thesis by (simp add: read_digits_def)
qed

lemma match_chunk_header: "match_chunk_start (chunk_header c) = Some (c_src_pos c, c_dst_pos c)"
  by (simp add: match_chunk_start_def chunk_header_def expect_def read_digits_show_nat is_digit_def)

lemma no_chunk_start:
  "x \<noteq> CHR ''@'' \<Longrightarrow> match_chunk_start (x # s) = None"
  by (simp add: match_chunk_start_def expect_def)

lemma prefix_line_iff: "NL \<notin> set pre \<Longrightarrow> prefix pre (l @ [NL]) \<longleftrightarrow> prefix pre l"
  by (auto simp: prefix_snoc)

lemma parse_written_line:
  assumes "wf_line l" and "write_line l = Inr s"
  shows "parse_line st s = add_line (l_type l) (l_line l) st"
proof (cases "l_type l")
  case SRC
  with assms have "s = ''-'' @ l_line l @ [NL]" "NL \<notin> set (l_line l)" "\<not> prefix ''-- '' (l_line l)"
    by (simp_all add: wf_line_def write_line_def)
  with SRC show ?thesis
    using prefix_line_iff [of "''-- ''" "l_line l"] by (simp add: parse_line_def match_prefix_def no_chunk_start)
next
  case DST
  with assms have "s = ''+'' @ l_line l @ [NL]" "NL \<notin> set (l_line l)" "\<not> prefix ''++ '' (l_line l)"
    by (simp_all add: wf_line_def write_line_def)
  with DST show ?thesis
    using prefix_line_iff [of "''++ ''" "l_line l"] by (simp add: parse_line_def match_prefix_def no_chunk_start)
next
  case BOTH
  with assms have "s = '' '' @ l_line l @ [NL]" "NL \<notin> set (l_line l)"
    by (simp_all add: wf_line_def write_line_def)
  with BOTH show ?thesis by (simp add: parse_line_def match_prefix_def no_chunk_start)
qed (use assms in \<open>simp add: wf_line_def\<close>)

lemma parse_header:
  "NL \<notin> set f \<Longrightarrow> parse_line st (''--- '' @ f @ [NL]) =
     Inr (st\<lparr>patchset := patchset st @ [\<lparr>p_src = f, p_dst = [], p_chunks = []\<rparr>]\<rparr>)"
  "NL \<notin> set f \<Longrightarrow> patchset st = ps @ [p] \<Longrightarrow>
     parse_line st (''+++ '' @ f @ [NL]) = Inr (st\<lparr>patchset := ps @ [p\<lparr>p_dst := f\<rparr>]\<rparr>)"
  by (simp_all add: parse_line_def match_prefix_def)

lemma parse_chunk_header:
  assumes "patchset st = ps @ [p]"
  shows "parse_line st (chunk_header c) =
    Inr (st\<lparr>patchset := ps @ [p\<lparr>p_chunks := p_chunks p @ [c\<lparr>c_lines := []\<rparr>]\<rparr>],
            current_chunk := Some (length ps, length (p_chunks p))\<rparr>)"
proof -
  have "match_prefix ''--- '' (chunk_header c) = None" "match_prefix ''+++ '' (chunk_header c) = None"
    by (simp_all add: match_prefix_def chunk_header_def)
  with assms show ?thesis by (simp add: parse_line_def match_chunk_header Let_def)
qed

lemma line_eta: "\<lparr>l_type = l_type l, l_line = l_line l\<rparr> = l"
  by (cases l) simp

lemma patch_eta: "\<lparr>p_src = p_src p, p_dst = p_dst p, p_chunks = p_chunks p\<rparr> = p"
  by (cases p) simp

text \<open>Reading the lines of a chunk into the last chunk of the last patch.\<close>

definition with_chunk :: "patch list \<Rightarrow> patch \<Rightarrow> patch_chunk \<Rightarrow> parse_state" where
  "with_chunk ps p c =
     \<lparr>patchset = ps @ [p\<lparr>p_chunks := p_chunks p @ [c]\<rparr>], current_chunk = Some (length ps, length (p_chunks p))\<rparr>"

lemma add_line_with_chunk:
  "add_line t x (with_chunk ps p c) = Inr (with_chunk ps p (c\<lparr>c_lines := c_lines c @ [\<lparr>l_type = t, l_line = x\<rparr>]\<rparr>))"
  by (simp add: add_line_def with_chunk_def Let_def)

lemma parse_lines:
  assumes "\<forall>l \<in> set ls. wf_line l" and "res_map write_line ls = Inr out"
  shows "res_fold parse_line out (with_chunk ps p c) = Inr (with_chunk ps p (c\<lparr>c_lines := c_lines c @ ls\<rparr>))"
  using assms
proof (induction ls arbitrary: out c)
  case (Cons l ls)
  then obtain s rest where s: "write_line l = Inr s" "res_map write_line ls = Inr rest" "out = s # rest"
    by (auto simp: res_bind_eq_Inr)
  have "wf_line l" using Cons.prems(1) by simp
  from parse_written_line [OF this s(1)] have step:
    "parse_line (with_chunk ps p c) s = Inr (with_chunk ps p (c\<lparr>c_lines := c_lines c @ [l]\<rparr>))"
    by (simp add: add_line_with_chunk line_eta)
  have "\<forall>l \<in> set ls. wf_line l" using Cons.prems(1) by simp
  from Cons.IH [OF this s(2), of "c\<lparr>c_lines := c_lines c @ [l]\<rparr>"] step s(3) show ?case by simp
qed simp

lemma parse_chunk:
  assumes "\<forall>l \<in> set (c_lines c). wf_line l" and "write_chunk c = Inr out" and "patchset st = ps @ [p]"
  shows "res_fold parse_line out st = Inr (with_chunk ps p c)"
proof -
  from assms(2) obtain ls where ls: "res_map write_line (c_lines c) = Inr ls" "out = chunk_header c # ls"
    by (auto simp: write_chunk_def res_bind_eq_Inr)
  have "st\<lparr>patchset := ps @ [p\<lparr>p_chunks := p_chunks p @ [c\<lparr>c_lines := []\<rparr>]\<rparr>],
      current_chunk := Some (length ps, length (p_chunks p))\<rparr> = with_chunk ps p (c\<lparr>c_lines := []\<rparr>)"
    by (simp add: with_chunk_def)
  with parse_lines [OF assms(1) ls(1), of ps p "c\<lparr>c_lines := []\<rparr>"] ls(2) parse_chunk_header [OF assms(3), of c]
  show ?thesis by simp
qed

lemma parse_chunks:
  assumes "\<forall>c \<in> set cs. \<forall>l \<in> set (c_lines c). wf_line l" and "res_map write_chunk cs = Inr out"
    and "patchset st = ps @ [p]"
  shows "\<exists>st'. res_fold parse_line (concat out) st = Inr st' \<and> patchset st' = ps @ [p\<lparr>p_chunks := p_chunks p @ cs\<rparr>]"
  using assms
proof (induction cs arbitrary: out st p)
  case (Cons c cs)
  then obtain o1 rest where s: "write_chunk c = Inr o1" "res_map write_chunk cs = Inr rest" "out = o1 # rest"
    by (auto simp: res_bind_eq_Inr)
  have "\<forall>l \<in> set (c_lines c). wf_line l" using Cons.prems(1) by simp
  note step = parse_chunk [OF this s(1) Cons.prems(3)]
  have "\<forall>c \<in> set cs. \<forall>l \<in> set (c_lines c). wf_line l" using Cons.prems(1) by simp
  from Cons.IH [OF this s(2), of "with_chunk ps p c" "p\<lparr>p_chunks := p_chunks p @ [c]\<rparr>"]
  show ?case by (auto simp: s(3) res_fold_append step with_chunk_def)
qed simp

lemma parse_patch:
  assumes "wf_patch p" and "write_patch p = Inr out"
  shows "\<exists>st'. res_fold parse_line out st = Inr st' \<and> patchset st' = patchset st @ [p]"
proof -
  from assms(2) obtain cs where cs: "res_map write_chunk (p_chunks p) = Inr cs"
    and out: "out = [''--- '' @ p_src p @ [NL], ''+++ '' @ p_dst p @ [NL]] @ concat cs"
    unfolding write_patch_def res_bind_eq_Inr by blast
  let ?p = "\<lparr>p_src = p_src p, p_dst = p_dst p, p_chunks = []\<rparr>"
  let ?st = "st\<lparr>patchset := patchset st @ [?p]\<rparr>"
  have nl: "NL \<notin> set (p_src p)" "NL \<notin> set (p_dst p)" using assms(1) by (simp_all add: wf_patch_def)
  have h: "res_fold parse_line [''--- '' @ p_src p @ [NL], ''+++ '' @ p_dst p @ [NL]] st = Inr ?st"
    using parse_header(1) [OF nl(1), of st]
      parse_header(2) [OF nl(2), of "st\<lparr>patchset := patchset st @ [\<lparr>p_src = p_src p, p_dst = [], p_chunks = []\<rparr>]\<rparr>"]
    by simp
  have "\<forall>c \<in> set (p_chunks p). \<forall>l \<in> set (c_lines c). wf_line l" using assms(1) by (simp add: wf_patch_def)
  from parse_chunks [OF this cs, of ?st "patchset st" ?p] show ?thesis
    unfolding out res_fold_append h by (simp add: patch_eta)
qed

lemma parse_patches:
  assumes "\<forall>p \<in> set ps. wf_patch p" and "res_map write_patch ps = Inr out"
  shows "\<exists>st'. res_fold parse_line (concat out) st = Inr st' \<and> patchset st' = patchset st @ ps"
  using assms
proof (induction ps arbitrary: out st)
  case (Cons p ps)
  then obtain o1 rest where s: "write_patch p = Inr o1" "res_map write_patch ps = Inr rest" "out = o1 # rest"
    by (auto simp: res_bind_eq_Inr)
  have "wf_patch p" using Cons.prems(1) by simp
  from parse_patch [OF this s(1), of st] obtain st1 where st1:
    "res_fold parse_line o1 st = Inr st1" "patchset st1 = patchset st @ [p]" by blast
  have "\<forall>p \<in> set ps. wf_patch p" using Cons.prems(1) by simp
  from Cons.IH [OF this s(2), of st1] st1 show ?case by (auto simp: s(3) res_fold_append)
qed simp

lemma write_wf: "wf_patch p \<Longrightarrow> \<exists>out. write_patch p = Inr out"
proof -
  assume wf: "wf_patch p"
  have l: "wf_line l \<Longrightarrow> \<exists>s. write_line l = Inr s" for l
    by (cases "l_type l") (auto simp: wf_line_def write_line_def)
  have m: "(\<And>x. x \<in> set xs \<Longrightarrow> \<exists>y. f x = Inr y) \<Longrightarrow> \<exists>ys. res_map f xs = Inr ys" for f :: "'x \<Rightarrow> 'y res" and xs
    by (induction xs) (fastforce simp: res_bind_eq_Inr)+
  have "\<exists>ls. res_map write_line (c_lines c) = Inr ls" if "c \<in> set (p_chunks p)" for c
    using wf that l by (intro m) (auto simp: wf_patch_def)
  then have "\<exists>out. write_chunk c = Inr out" if "c \<in> set (p_chunks p)" for c
    using that by (fastforce simp: write_chunk_def)
  then have "\<exists>cs. res_map write_chunk (p_chunks p) = Inr cs" by (intro m)
  then show ?thesis by (auto simp: write_patch_def)
qed


text \<open>
  C38: parsing what \<open>Patch.write\<close> writes gives back the patches, for any number of patches and chunks,
  provided no text contains a newline, no removed line starts with two dashes and a blank and no added
  line with two plus signs and a blank: those two read as file headers.
\<close>
theorem parse_write_roundtrip:
  assumes "\<forall>p \<in> set ps. wf_patch p"
  shows "\<exists>out. res_map write_patch ps = Inr out \<and> parse_patchset (concat out) = Inr ps"
proof -
  have "\<exists>out. res_map write_patch ps = Inr out"
    using assms write_wf by (induction ps) (fastforce simp: res_bind_eq_Inr)+
  then obtain out where out: "res_map write_patch ps = Inr out" by blast
  from parse_patches [OF assms out, of "\<lparr>patchset = [], current_chunk = None\<rparr>"] out show ?thesis
    by (auto simp: parse_patchset_def)
qed

definition sample_patch :: patch where
  "sample_patch = \<lparr>p_src = ''a.cc'', p_dst = ''b.cc'', p_chunks =
     [\<lparr>c_lines = [\<lparr>l_type = SRC, l_line = ''x ''\<rparr>, \<lparr>l_type = DST, l_line = ''x''\<rparr>, \<lparr>l_type = BOTH, l_line = ''y''\<rparr>],
       c_src_pos = 3, c_dst_pos = 12\<rparr>]\<rparr>"

theorem parse_write_roundtrip_witness:
  "\<exists>out. res_map write_patch [sample_patch, sample_patch] = Inr out
    \<and> parse_patchset (concat out) = Inr [sample_patch, sample_patch]"
  by (rule parse_write_roundtrip) (simp add: sample_patch_def wf_patch_def wf_line_def)

text \<open>A removed line that starts with two dashes and a blank is taken for the header of a new file.\<close>

lemma dashes_read_as_header:
  "parse_line st (''-'' @ ''-- x'' @ [NL]) =
     Inr (st\<lparr>patchset := patchset st @ [\<lparr>p_src = ''x'', p_dst = [], p_chunks = []\<rparr>]\<rparr>)"
  by (simp add: parse_line_def match_prefix_def to_eol_def)

text \<open>A hunk of one line, whose header has no count, is rejected.\<close>

lemma one_line_hunk_rejected:
  "parse_line st (''@@ -1 +1,2 @@'' @ [NL]) = Inl (PyException [])"
  by (simp add: parse_line_def match_prefix_def match_chunk_start_def expect_def read_digits_def is_digit_def)

section \<open>What happens to trailing blanks\<close>

definition blanks :: "string \<Rightarrow> bool" where
  "blanks w \<longleftrightarrow> set w \<subseteq> {CHR '' '', TAB}"

definition line_ext :: "chunk_line \<Rightarrow> chunk_line \<Rightarrow> bool" where
  "line_ext l l' \<longleftrightarrow> l_type l' = l_type l \<and> (\<exists>w. blanks w \<and> l_line l' = l_line l @ w)"

definition chunk_ext :: "patch_chunk \<Rightarrow> patch_chunk \<Rightarrow> bool" where
  "chunk_ext c c' \<longleftrightarrow> c_src_pos c' = c_src_pos c \<and> c_dst_pos c' = c_dst_pos c
     \<and> list_all2 line_ext (c_lines c) (c_lines c')"

definition patch_ext :: "patch \<Rightarrow> patch \<Rightarrow> bool" where
  "patch_ext p p' \<longleftrightarrow> p_src p' = p_src p \<and> p_dst p' = p_dst p \<and> list_all2 chunk_ext (p_chunks p) (p_chunks p')"

lemma line_ext_refl [simp]: "line_ext l l"
  by (auto simp: line_ext_def blanks_def intro: exI [of _ "[]"])

lemma line_ext_trans: "line_ext a b \<Longrightarrow> line_ext b c \<Longrightarrow> line_ext a c"
  by (fastforce simp: line_ext_def blanks_def)

lemma chunk_ext_refl [simp]: "chunk_ext c c"
  by (simp add: chunk_ext_def list_all2_refl)

lemma patch_ext_refl [simp]: "patch_ext p p"
  by (simp add: patch_ext_def list_all2_refl)

lemma match_whitespace_blanks: "match_whitespace s = Some (g1, g2) \<Longrightarrow> blanks g2"
  by (auto simp: match_whitespace_def blanks_def split: option.splits if_splits)

definition restore :: "chunk_line \<Rightarrow> chunk_line \<Rightarrow> chunk_line" where
  "restore s d =
     (case match_whitespace (l_line s) of
        Some (g1, g2) \<Rightarrow> if g1 = l_line d then append_to_line g2 d else d
      | None \<Rightarrow> d)"

lemma line_ext_restore: "line_ext d (restore s d)"
  by (auto simp: restore_def line_ext_def append_to_line_def blanks_def [of "[]"] intro: match_whitespace_blanks
      split: option.splits intro!: exI [of _ "[]"])

lemma whitespace_step:
  "whitespace_loop (s # src) (d # dst) ls = whitespace_loop src dst (ls[d := restore (ls ! s) (ls ! d)])"
  by (auto simp: restore_def Let_def split: option.splits)

lemma list_all2_update_ext: "list_all2 line_ext ls (ls[d := restore s (ls ! d)])"
  by (cases "d < length ls") (auto simp: list_all2_conv_all_nth nth_list_update line_ext_restore)

lemma whitespace_loop_ext: "list_all2 line_ext ls (fst (whitespace_loop src dst ls))"
proof (induction src dst ls rule: whitespace_loop.induct)
  case (3 s src d dst ls)
  have e: "whitespace_loop (s # src) (d # dst) ls = whitespace_loop src dst (ls[d := restore (ls ! s) (ls ! d)])"
    by (rule whitespace_step)
  have "list_all2 line_ext (ls[d := restore (ls ! s) (ls ! d)])
      (fst (whitespace_loop src dst (ls[d := restore (ls ! s) (ls ! d)])))"
    using 3 by (auto simp: restore_def Let_def split: option.splits if_splits)
  with list_all2_update_ext [of ls d "ls ! s"] show ?case
    unfolding e by (rule list_all2_trans [rotated]) (rule line_ext_trans)
qed (simp_all add: list_all2_refl)

lemma fix_chunk_ext: "chunk_ext c (fst (fix_chunk c))"
  using whitespace_loop_ext [of "c_lines c"]
  by (auto simp: fix_chunk_def chunk_ext_def Let_def split: prod.splits) (metis fst_conv)

lemma until_failure_ext:
  assumes "\<And>x. R x (fst (f x))" and "\<And>x. R x x"
  shows "list_all2 R xs (fst (until_failure f xs))"
proof (induction xs)
  case (Cons x xs)
  with assms(1) [of x] assms(2) show ?case
    by (auto simp: Let_def list_all2_refl split: prod.splits)
qed simp

lemma fix_patch_ext: "patch_ext p (fst (fix_patch p))"
  using until_failure_ext [of chunk_ext fix_chunk "p_chunks p"] fix_chunk_ext
  by (auto simp: fix_patch_def patch_ext_def Let_def split: prod.splits)


text \<open>
  \<open>remove_trailing_whitespace_changes\<close> keeps the files, the chunks with their positions, and the
  number and kinds of the lines of the diff; a line is changed at most by appending blanks to it.  It
  fails only where parsing fails.
\<close>
theorem remove_trailing_whitespace_shape:
  assumes "parse_patchset diff = Inr ps"
  shows "\<exists>ps'. remove_trailing_whitespace_changes diff = Inr ps' \<and> list_all2 patch_ext ps ps'"
  using assms until_failure_ext [of patch_ext fix_patch ps] fix_patch_ext
  by (simp add: remove_trailing_whitespace_changes_def)

theorem remove_trailing_whitespace_shape_witness:
  "\<exists>ps'. remove_trailing_whitespace_changes
      [''--- a'' @ [NL], ''+++ b'' @ [NL], ''@@ -1,1 +1,1 @@'' @ [NL], ''-x '' @ [NL], ''+x'' @ [NL]] = Inr ps'
    \<and> list_all2 patch_ext [\<lparr>p_src = ''a'', p_dst = ''b'', p_chunks = [\<lparr>c_lines =
         [\<lparr>l_type = SRC, l_line = ''x ''\<rparr>, \<lparr>l_type = DST, l_line = ''x''\<rparr>], c_src_pos = 1, c_dst_pos = 1\<rparr>]\<rparr>] ps'"
  by (rule remove_trailing_whitespace_shape) code_simp

text \<open>The loop on references that do not overlap: each destination is restored from its source.\<close>

lemma whitespace_loop_disjoint:
  assumes "length src = length dst" and "distinct dst" and "set src \<inter> set dst = {}"
    and "\<forall>d \<in> set dst. d < length ls"
  shows "snd (whitespace_loop src dst ls)
    \<and> length (fst (whitespace_loop src dst ls)) = length ls
    \<and> (\<forall>i < length ls. i \<notin> set dst \<longrightarrow> fst (whitespace_loop src dst ls) ! i = ls ! i)
    \<and> (\<forall>k < length dst. fst (whitespace_loop src dst ls) ! (dst ! k) = restore (ls ! (src ! k)) (ls ! (dst ! k)))"
  using assms
proof (induction src arbitrary: dst ls)
  case (Cons s src)
  then obtain d dst' where dst: "dst = d # dst'" by (cases dst) auto
  let ?ls = "ls[d := restore (ls ! s) (ls ! d)]"
  let ?r = "whitespace_loop src dst' ?ls"
  have d: "d < length ls" "d \<notin> set dst'" "s \<noteq> d" using Cons.prems dst by auto
  have ih: "snd ?r" "length (fst ?r) = length ls"
    "\<forall>i < length ls. i \<notin> set dst' \<longrightarrow> fst ?r ! i = ?ls ! i"
    "\<forall>k < length dst'. fst ?r ! (dst' ! k) = restore (?ls ! (src ! k)) (?ls ! (dst' ! k))"
    using Cons.IH [of dst' ?ls] Cons.prems dst by auto
  have k: "fst ?r ! (dst' ! k) = restore (ls ! (src ! k)) (ls ! (dst' ! k))" if "k < length dst'" for k
  proof -
    have "src ! k \<in> set src" "dst' ! k \<in> set dst'" using Cons.prems(1) dst that by simp_all
    then have "src ! k \<noteq> d" "dst' ! k \<noteq> d" using Cons.prems(3) dst d(2) by auto
    with ih(4) that show ?thesis by simp
  qed
  have e: "whitespace_loop (s # src) dst ls = ?r" unfolding dst by (rule whitespace_step)
  show ?case
    unfolding e
  proof (intro conjI allI impI)
    show "snd ?r" "length (fst ?r) = length ls" using ih(1,2) by simp_all
    show "fst ?r ! i = ls ! i" if "i < length ls" "i \<notin> set dst" for i using ih(3) that dst by auto
    show "fst ?r ! (dst ! m) = restore (ls ! ((s # src) ! m)) (ls ! (dst ! m))" if "m < length dst" for m
      using that k ih(3) d dst by (cases m) auto
  qed
qed simp

definition mk_line :: "line_type \<Rightarrow> string \<Rightarrow> chunk_line" where
  "mk_line t x = \<lparr>l_type = t, l_line = x\<rparr>"

lemma line_refs_block:
  "line_refs is_src (map (mk_line SRC) ss @ map (mk_line DST) ds) = [0 ..< length ss]"
  "line_refs is_dst (map (mk_line SRC) ss @ map (mk_line DST) ds) = [length ss ..< length ss + length ds]"
proof -
  have u: "[0 ..< length ss + length ds] = [0 ..< length ss] @ [length ss ..< length ss + length ds]"
    by (rule upt_add_eq_append) simp
  let ?ls = "map (mk_line SRC) ss @ map (mk_line DST) ds"
  have lo: "l_type (?ls ! i) = SRC" if "i < length ss" for i using that by (simp add: nth_append mk_line_def)
  have hi: "l_type (?ls ! i) = DST" if "length ss \<le> i" "i < length ss + length ds" for i
    using that by (simp add: nth_append mk_line_def)
  show "line_refs is_src ?ls = [0 ..< length ss]"
    unfolding line_refs_def length_append length_map u filter_append using lo hi
    by (auto simp: is_src_def filter_empty_conv intro!: filter_True)
  show "line_refs is_dst ?ls = [length ss ..< length ss + length ds]"
    unfolding line_refs_def length_append length_map u filter_append using lo hi
    by (auto simp: is_dst_def filter_empty_conv intro!: filter_True)
qed

lemma restore_mk_line:
  "restore (mk_line SRC s) (mk_line DST d) =
     mk_line DST (case match_whitespace s of Some (g1, g2) \<Rightarrow> if g1 = d then d @ g2 else d | None \<Rightarrow> d)"
  by (auto simp: restore_def mk_line_def append_to_line_def split: option.splits)

lemma match_whitespace_snoc:
  "NL \<notin> set d \<Longrightarrow> w = CHR '' '' \<or> w = TAB \<Longrightarrow> match_whitespace (d @ [w]) = Some (d, [w])"
  by (auto simp: match_whitespace_def to_eol_def)

lemma fix_block:
  assumes "length ss = length ds"
  shows "fst (whitespace_loop [0 ..< length ss] [length ss ..< length ss + length ds] (map (mk_line SRC) ss @ map (mk_line DST) ds))
    = map (mk_line SRC) ss @ map2 (\<lambda>s d. mk_line DST
        (case match_whitespace s of Some (g1, g2) \<Rightarrow> if g1 = d then d @ g2 else d | None \<Rightarrow> d)) ss ds"
proof -
  let ?n = "length ss"
  let ?ls = "map (mk_line SRC) ss @ map (mk_line DST) ds"
  let ?r = "fst (whitespace_loop [0 ..< ?n] [?n ..< ?n + length ds] ?ls)"
  have w: "length ?r = length ?ls"
    "\<forall>i < length ?ls. i \<notin> set [?n ..< ?n + length ds] \<longrightarrow> ?r ! i = ?ls ! i"
    "\<forall>k < length ds. ?r ! ([?n ..< ?n + length ds] ! k)
        = restore (?ls ! ([0 ..< ?n] ! k)) (?ls ! ([?n ..< ?n + length ds] ! k))"
    using whitespace_loop_disjoint [of "[0 ..< ?n]" "[?n ..< ?n + length ds]" ?ls] assms by auto
  have "?r ! i = (map (mk_line SRC) ss @ map2 (\<lambda>s d. mk_line DST
             (case match_whitespace s of Some (g1, g2) \<Rightarrow> if g1 = d then d @ g2 else d | None \<Rightarrow> d)) ss ds) ! i"
    if i: "i < length ?ls" for i
  proof (cases "i < ?n")
    case True
    with w(2) i show ?thesis by (simp add: nth_append)
  next
    case False
    define k where "k = i - ?n"
    have k: "k < length ds" "i = ?n + k" using False i by (simp_all add: k_def)
    have "?r ! i = restore (mk_line SRC (ss ! k)) (mk_line DST (ds ! k))"
      using w(3) k assms by (auto simp: nth_append)
    with k assms show ?thesis by (simp add: nth_append restore_mk_line)
  qed
  then show ?thesis using w(1) assms by (intro nth_equalityI) simp_all
qed

text \<open>
  In a chunk that replaces lines by as many others, a replacement that differs from its source only
  by one trailing blank becomes the source line, so that the change disappears; every source line and
  every other replacement stay as they are.
\<close>
theorem fix_chunk_restores:
  assumes "length ss = length ds"
  shows "fst (fix_chunk \<lparr>c_lines = map (mk_line SRC) ss @ map (mk_line DST) ds, c_src_pos = a, c_dst_pos = b\<rparr>)
    = \<lparr>c_lines = map (mk_line SRC) ss
         @ map2 (\<lambda>s d. mk_line DST
             (case match_whitespace s of Some (g1, g2) \<Rightarrow> if g1 = d then d @ g2 else d | None \<Rightarrow> d)) ss ds,
       c_src_pos = a, c_dst_pos = b\<rparr>"
  using fix_block [OF assms] by (simp add: fix_chunk_def line_refs_block Let_def case_prod_beta)

theorem fix_chunk_restores_witness:
  "fst (fix_chunk \<lparr>c_lines = map (mk_line SRC) [''x '', ''y''] @ map (mk_line DST) [''x'', ''z''], c_src_pos = 1, c_dst_pos = 1\<rparr>)
    = \<lparr>c_lines = [mk_line SRC ''x '', mk_line SRC ''y'', mk_line DST ''x '', mk_line DST ''z''], c_src_pos = 1, c_dst_pos = 1\<rparr>"
  by (subst fix_chunk_restores) (simp_all add: match_whitespace_def to_eol_def)

text \<open>
  A context line shares its object with both sides: here the chunk deletes the line \<open>foo\<close> with a trailing
  blank that stands before a line \<open>foo\<close> without one, and the context line gets the blank, so that
  the chunk no longer fits the file.
\<close>

lemma context_line_changed:
  "fst (fix_chunk \<lparr>c_lines = [mk_line SRC ''foo '', mk_line BOTH ''foo''], c_src_pos = 1, c_dst_pos = 1\<rparr>)
    = \<lparr>c_lines = [mk_line SRC ''foo '', mk_line BOTH ''foo ''], c_src_pos = 1, c_dst_pos = 1\<rparr>"
  by code_simp

section \<open>The driver\<close>

lemma final_diff_debug: "final_diff True level diff = Inr []"
  by (simp add: final_diff_def remove_trailing_whitespace_changes_def parse_patchset_def)

text \<open>
  With \<open>--debug\<close> the diff has been consumed before it is used, so the final diff is empty; if \<open>patch\<close>
  leaves a file alone on an empty diff, every file is then reported as correctly indented, whatever
  \<open>uncrustify\<close> makes of it.
\<close>
theorem indent_files_debug:
  assumes "\<And>c. env_patch env [] c = Some c"
    and "\<forall>f \<in> set files. \<exists>c. fs f = Some c \<and> env_uncrustify env (uncrustify_config_file level) c \<noteq> None"
  shows "indent_files env fs files diff True level False = Inr (True, [], fs)"
proof -
  let ?out = "map (\<lambda>f. (f, the (fs f))) files"
  have "res_map (\<lambda>f. res_bind (indent env fs True level f) (\<lambda>dst. Inr (f, dst))) files = Inr ?out"
  proof (rule res_map_pure)
    fix f assume "f \<in> set files"
    with assms(2) obtain c where "fs f = Some c" "env_uncrustify env (uncrustify_config_file level) c \<noteq> None" by blast
    with assms(1) show "res_bind (indent env fs True level f) (\<lambda>dst. Inr (f, dst)) = Inr (f, the (fs f))"
      by (auto simp: indent_def final_diff_debug)
  qed
  moreover have "filter (\<lambda>(src, dst). fs src \<noteq> Some dst) ?out = []"
    using assms(2) by (fastforce simp: filter_empty_conv)
  ultimately show ?thesis by (simp add: indent_files_def)
qed

definition tab_env :: style_env where
  "tab_env = \<lparr>env_uncrustify = (\<lambda>cfg c. Some (map (map (\<lambda>x. if x = TAB then CHR '' '' else x)) c)),
     env_unified_diff = (\<lambda>a b f t. if a = b then [] else [''--- '' @ f @ [NL]]),
     env_patch = (\<lambda>d c. Some (if d = [] then c else [])), env_output = (\<lambda>f. f @ ''.tmp'')\<rparr>"

theorem indent_files_debug_witness:
  "indent_files tab_env (\<lambda>f. Some [TAB # ''int x;'' @ [NL]]) [''a.cc''] False True 0 False
     = Inr (True, [], \<lambda>f. Some [TAB # ''int x;'' @ [NL]])"
  by (rule indent_files_debug) (simp_all add: tab_env_def)

end
