(* ===== verification/Style_Status.thy ===== *)
theory Style_Status
  imports Check_Style
begin

text \<open>
  The style checker as a whole, \<^verbatim>\<open>utils/check-style.py\<close>: from the diffs of the files to the exit status.
  A hunk of a diff that replaces lines by as many others is described by its segments; the filter of
  trailing blanks works on each pair of a line and its replacement alone.
\<close>

section \<open>Hunks that replace lines\<close>

text \<open>A context line, or lines with their replacements.\<close>

datatype segment = Keep string | Swap "(string \<times> string) list"


type_synonym hunk = "nat \<times> nat \<times> segment list"



text \<open>The replacements of a diff, and the diff with other replacements for the same lines.\<close>

fun seg_swaps :: "segment \<Rightarrow> (string \<times> string) list" where
  "seg_swaps (Keep l) = []"
| "seg_swaps (Swap ps) = ps"

definition swaps :: "hunk list \<Rightarrow> (string \<times> string) list" where
  "swaps hs = concat (map (\<lambda>(a, b, segs). concat (map seg_swaps segs)) hs)"

fun change_seg :: "(string \<Rightarrow> string \<Rightarrow> string) \<Rightarrow> segment \<Rightarrow> segment" where
  "change_seg g (Keep l) = Keep l"
| "change_seg g (Swap ps) = Swap (map (\<lambda>(s, d). (s, g s d)) ps)"

definition change_hunks :: "(string \<Rightarrow> string \<Rightarrow> string) \<Rightarrow> hunk list \<Rightarrow> hunk list" where
  "change_hunks g hs = map (\<lambda>(a, b, segs). (a, b, map (change_seg g) segs)) hs"

lemma swaps_change: "swaps (change_hunks g hs) = map (\<lambda>(s, d). (s, g s d)) (swaps hs)"
proof -
  have "seg_swaps (change_seg g x) = map (\<lambda>(s, d). (s, g s d)) (seg_swaps x)" for x by (cases x) simp_all
  then show ?thesis by (simp add: swaps_def change_hunks_def map_concat comp_def case_prod_beta)
qed

section \<open>The filter on such hunks\<close>











lemma until_failure_all: "(\<And>x. x \<in> set xs \<Longrightarrow> f x = (g x, True)) \<Longrightarrow> until_failure f xs = (map g xs, True)"
  by (induction xs) simp_all


section \<open>One file\<close>













section \<open>The exit status\<close>



section \<open>An example\<close>






end
