(* ===== verification/Py_Shlex.thy ===== *)
theory Py_Shlex
  imports Py_Prelude
begin

text \<open>
  \<open>shlex.split\<close> of the standard library in its default (POSIX) mode without comments, as the machine
  on characters that the library runs: blanks separate words, quotes and backslashes protect
  characters, and a quotation or an escape that is not finished raises \<open>ValueError\<close>.
\<close>

text \<open>
  The state of the lexer: between words, in a word, in a quotation (by its quote), after a backslash
  (inside double quotes or not).
\<close>

datatype lex_state = LexBlank | LexWord | LexQuote char | LexEscape bool


definition lex_blank :: "char \<Rightarrow> bool" where
  "lex_blank c \<longleftrightarrow> c \<in> set [CHR '' '', CHR 0x09, CHR 0x0D, CHR 0x0A]"

text \<open>The word under construction and whether a part of it was quoted.\<close>

definition lex_emit :: "string \<Rightarrow> bool \<Rightarrow> (string list) res \<Rightarrow> (string list) res" where
  "lex_emit token quoted rest = (if token \<noteq> [] \<or> quoted then res_bind rest (\<lambda>ts. Inr (token # ts)) else rest)"

fun lex :: "lex_state \<Rightarrow> string \<Rightarrow> bool \<Rightarrow> string \<Rightarrow> (string list) res" where
  "lex LexBlank token quoted [] = Inr []"
| "lex LexWord token quoted [] = lex_emit token quoted (Inr [])"
| "lex (LexQuote d) token quoted [] = Inl (ValueError ''No closing quotation'')"
| "lex (LexEscape b) token quoted [] = Inl (ValueError ''No escaped character'')"
| "lex LexBlank token quoted (c # s) =
     (if lex_blank c then lex LexBlank [] False s
      else if c = BACKSLASH then lex (LexEscape False) [] False s
      else if c = SQ \<or> c = DQ then lex (LexQuote c) [] False s
      else lex LexWord [c] False s)"
| "lex LexWord token quoted (c # s) =
     (if lex_blank c then lex_emit token quoted (lex LexBlank [] False s)
      else if c = SQ \<or> c = DQ then lex (LexQuote c) token quoted s
      else if c = BACKSLASH then lex (LexEscape False) token quoted s
      else lex LexWord (token @ [c]) quoted s)"
| "lex (LexQuote d) token quoted (c # s) =
     (if c = d then lex LexWord token True s
      else if c = BACKSLASH \<and> d = DQ then lex (LexEscape True) token True s
      else lex (LexQuote d) (token @ [c]) True s)"
| "lex (LexEscape b) token quoted (c # s) =
     (if b then lex (LexQuote DQ) (token @ (if c \<noteq> BACKSLASH \<and> c \<noteq> DQ then [BACKSLASH] else []) @ [c]) quoted s
      else lex LexWord (token @ [c]) quoted s)"

definition shlex_split :: "string \<Rightarrow> (string list) res" where
  "shlex_split s = lex LexBlank [] False s"

section \<open>Words\<close>

text \<open>A word without blanks, quotes and backslashes stands for itself.\<close>

definition plain_word :: "string \<Rightarrow> bool" where
  "plain_word w \<longleftrightarrow> w \<noteq> [] \<and> (\<forall>c \<in> set w. \<not> lex_blank c \<and> c \<noteq> SQ \<and> c \<noteq> DQ \<and> c \<noteq> BACKSLASH)"

lemma lex_plain:
  assumes "\<forall>c \<in> set w. \<not> lex_blank c \<and> c \<noteq> SQ \<and> c \<noteq> DQ \<and> c \<noteq> BACKSLASH"
  shows "lex LexWord token q (w @ s) = lex LexWord (token @ w) q s"
  using assms by (induction w arbitrary: token) auto

lemma lex_plain_word: "plain_word w \<Longrightarrow> lex LexBlank [] False (w @ s) = lex LexWord w False s"
  by (cases w) (auto simp: plain_word_def lex_plain)

theorem shlex_split_plain:
  assumes "\<forall>w \<in> set ws. plain_word w"
  shows "shlex_split (py_join '' '' ws) = Inr ws"
  using assms
proof (induction ws rule: induct_list012)
  case (2 w)
  then have "lex LexBlank [] False (w @ []) = Inr [w]"
    by (subst lex_plain_word) (auto simp: lex_emit_def plain_word_def)
  then show ?case by (simp add: shlex_split_def)
next
  case (3 w v ws)
  have "w \<noteq> []" using 3 by (simp add: plain_word_def)
  then have "lex LexBlank [] False (w @ '' '' @ py_join '' '' (v # ws)) = Inr (w # v # ws)"
    using 3 by (subst lex_plain_word) (auto simp: lex_emit_def shlex_split_def lex_blank_def)
  then show ?case by (simp add: shlex_split_def)
qed (simp add: shlex_split_def)

text \<open>Anything without a quote between single quotes is one word.\<close>

lemma lex_quoted:
  assumes "SQ \<notin> set w"
  shows "lex (LexQuote SQ) token q (w @ SQ # s) = lex LexWord (token @ w) True s"
  using assms by (induction w arbitrary: token q) auto

lemma shlex_split_quoted: "SQ \<notin> set w \<Longrightarrow> shlex_split (SQ # w @ [SQ]) = Inr [w]"
  by (simp add: shlex_split_def lex_quoted lex_emit_def lex_blank_def)

text \<open>
  The quotation of a word in the shell, as \<open>shlex.quote\<close> writes it: single quotes around it, and each
  single quote in it between double quotes.  Splitting undoes it, whatever characters the words have.
\<close>

definition sh_quote :: "string \<Rightarrow> string" where
  "sh_quote w = SQ # concat (map (\<lambda>c. if c = SQ then [SQ, DQ, SQ, DQ, SQ] else [c]) w) @ [SQ]"

lemma lex_sh_quote:
  "lex (LexQuote SQ) token q (concat (map (\<lambda>c. if c = SQ then [SQ, DQ, SQ, DQ, SQ] else [c]) w) @ SQ # s)
    = lex LexWord (token @ w) True s"
proof (induction w arbitrary: token q)
  case (Cons c w)
  show ?case using Cons [of "token @ [c]" True] by (cases "c = SQ") (simp_all add: lex_blank_def)
qed simp

lemma lex_quoted_word: "lex LexBlank [] False (sh_quote w @ s) = lex LexWord w True s"
  using lex_sh_quote [of "[]" False w s] by (simp add: sh_quote_def lex_blank_def)

lemma shlex_split_quotes: "shlex_split (py_join '' '' (map sh_quote ws)) = Inr ws"
proof (induction ws rule: induct_list012)
  case (2 w)
  show ?case using lex_quoted_word [of w "[]"] by (simp add: shlex_split_def lex_emit_def)
next
  case (3 w v ws)
  have "lex LexBlank [] False (sh_quote w @ '' '' @ py_join '' '' (map sh_quote (v # ws))) = Inr (w # v # ws)"
    using 3 unfolding lex_quoted_word by (simp add: lex_emit_def shlex_split_def lex_blank_def)
  then show ?case by (simp add: shlex_split_def)
qed (simp add: shlex_split_def)

end
