(* ===== verification/Shellcmd.thy ===== *)
theory Shellcmd
  imports Py_Shlex Py_Path
begin

text \<open>
  \<^verbatim>\<open>waf-tools/shellcmd.py\<close>: the small shell of the build.  A command line is parsed by a state
  machine on words into a list of nodes (commands, changes of directory and the operators between
  them) and then run: processes are started with their streams, environment and directory, joined by
  pipes, waited for, and the operators decide whether to go on.  Opening files and starting processes
  are arguments; a run leaves a trace of what it did in order.  The trace lines of \<open>debug\<close> are left
  out.
\<close>

section \<open>Nodes\<close>

datatype target = ToFile string | PIPE | STDOUT

record command =
  cmd_name :: string
  cmd_argv :: "string list"
  cmd_stdin :: "string option"
  cmd_stdout :: "target option"
  cmd_stderr :: "target option"
  cmd_env_vars :: "(string, string) dict option"

datatype node = Command command | Chdir "string option" | Pipe | And | Or

definition new_command :: "string \<Rightarrow> command" where
  "new_command name = \<lparr>cmd_name = name, cmd_argv = [name], cmd_stdin = None, cmd_stdout = None,
                       cmd_stderr = None, cmd_env_vars = None\<rparr>"

text \<open>\<open>get_abbreviated_command\<close>; its last branch tests for \<open>And\<close> a second time and is never taken.\<close>

fun abbreviate_node :: "node \<Rightarrow> string list" where
  "abbreviate_node (Command c) = [cmd_name c]"
| "abbreviate_node (Chdir d) = [''cd '' @ (case d of Some s \<Rightarrow> s | None \<Rightarrow> ''None'')]"
| "abbreviate_node Pipe = [''|'']"
| "abbreviate_node And = [''&&'']"
| "abbreviate_node Or = []"

definition get_abbreviated_command :: "node list \<Rightarrow> string" where
  "get_abbreviated_command nodes = py_join '' '' (concat (map abbreviate_node nodes))"

section \<open>The parser\<close>

datatype parse_phase = P_BEGIN | P_COMMAND | P_CHDIR | P_STDERR | P_STDOUT | P_STDIN

record parser =
  p_state :: parse_phase
  p_current :: "node option"
  p_nodes :: "node list"
  p_env :: "(string, string) dict"

definition init_parser :: parser where
  "init_parser = \<lparr>p_state = P_BEGIN, p_current = None, p_nodes = [], p_env = []\<rparr>"

text \<open>The pattern \<open>env_var_rx\<close>: a name, an equals sign, characters that are no blanks, and the end of the text or its last line.\<close>

definition name_char :: "char \<Rightarrow> bool" where
  "name_char c \<longleftrightarrow> c \<in> set ''abcdefghijklmnopqrstuvwxyzABCDEFGHIJKLMNOPQRSTUVWXYZ0123456789_''"

definition env_var_match :: "string \<Rightarrow> (string \<times> string) option" where
  "env_var_match token =
     (let name = takeWhile name_char token; rest = dropWhile name_char token
      in if name \<noteq> [] \<and> prefix ''='' rest then
           (let v = tl rest; v = (if v \<noteq> [] \<and> last v = NL then butlast v else v)
            in if v \<noteq> [] \<and> (\<forall>c \<in> set v. \<not> is_space c) then Some (name, v) else None)
         else None)"

definition commit_command :: "parser \<Rightarrow> parser res" where
  "commit_command p = (case p_current p of
     None \<Rightarrow> Inl AssertionError
   | Some c \<Rightarrow> Inr (p\<lparr>p_nodes := p_nodes p @ [c], p_current := None\<rparr>))"

definition end_with :: "node \<Rightarrow> parser \<Rightarrow> parser res" where
  "end_with n p = res_bind (commit_command p) (\<lambda>p. Inr (p\<lparr>p_nodes := p_nodes p @ [n], p_state := P_BEGIN\<rparr>))"

text \<open>Access to an attribute that only commands have.\<close>

definition with_command :: "parser \<Rightarrow> (command \<Rightarrow> command res) \<Rightarrow> parser res" where
  "with_command p f = (case p_current p of
     Some (Command c) \<Rightarrow> res_bind (f c) (\<lambda>c. Inr (p\<lparr>p_current := Some (Command c)\<rparr>))
   | _ \<Rightarrow> Inl AttributeError)"

definition assert :: "bool \<Rightarrow> 'a \<Rightarrow> 'a res" where
  "assert b x = (if b then Inr x else Inl AssertionError)"

definition parse_begin :: "parser \<Rightarrow> string \<Rightarrow> parser res" where
  "parse_begin p token = (case env_var_match token of
     Some (k, v) \<Rightarrow> Inr (p\<lparr>p_env := AList.update k v (p_env p)\<rparr>)
   | None \<Rightarrow>
       if p_current p \<noteq> None then Inl AssertionError
       else if token = ''cd'' then assert (p_env p = []) (p\<lparr>p_current := Some (Chdir None), p_state := P_CHDIR\<rparr>)
       else
         (let c = new_command token;
              c = (if p_env p \<noteq> [] then c\<lparr>cmd_env_vars := Some (p_env p)\<rparr> else c)
          in Inr (p\<lparr>p_current := Some (Command c), p_env := [], p_state := P_COMMAND\<rparr>)))"

definition parse_command :: "parser \<Rightarrow> string \<Rightarrow> parser res" where
  "parse_command p token =
     (if token = ''>'' then Inr (p\<lparr>p_state := P_STDOUT\<rparr>)
      else if token = ''2>'' then Inr (p\<lparr>p_state := P_STDERR\<rparr>)
      else if token = ''2>&1'' then
        with_command p (\<lambda>c. assert (cmd_stderr c = None) (c\<lparr>cmd_stderr := Some STDOUT\<rparr>))
      else if token = ''<'' then Inr (p\<lparr>p_state := P_STDIN\<rparr>)
      else if token = ''|'' then
        res_bind (with_command p (\<lambda>c. assert (cmd_stdout c = None) (c\<lparr>cmd_stdout := Some PIPE\<rparr>))) (end_with Pipe)
      else if token = ''&&'' then end_with And p
      else if token = ''||'' then end_with Or p
      else with_command p (\<lambda>c. Inr (c\<lparr>cmd_argv := cmd_argv c @ [token]\<rparr>)))"

definition parse_chdir :: "parser \<Rightarrow> string \<Rightarrow> parser res" where
  "parse_chdir p token =
     (if token = ''&&'' then end_with And p
      else (case p_current p of
        Some (Chdir d) \<Rightarrow> assert (d = None) (p\<lparr>p_current := Some (Chdir (Some token))\<rparr>)
      | _ \<Rightarrow> Inl AttributeError))"

definition to_command :: "parser \<Rightarrow> parser" where
  "to_command p = p\<lparr>p_state := P_COMMAND\<rparr>"

definition parse_token :: "parser \<Rightarrow> string \<Rightarrow> parser res" where
  "parse_token p token = (case p_state p of
     P_BEGIN \<Rightarrow> parse_begin p token
   | P_COMMAND \<Rightarrow> parse_command p token
   | P_CHDIR \<Rightarrow> parse_chdir p token
   | P_STDOUT \<Rightarrow> with_command (to_command p) (\<lambda>c. assert (cmd_stdout c = None) (c\<lparr>cmd_stdout := Some (ToFile token)\<rparr>))
   | P_STDERR \<Rightarrow> with_command (to_command p) (\<lambda>c. assert (cmd_stderr c = None) (c\<lparr>cmd_stderr := Some (ToFile token)\<rparr>))
   | P_STDIN \<Rightarrow> with_command (to_command p) (\<lambda>c. assert (cmd_stdin c = None) (c\<lparr>cmd_stdin := Some token\<rparr>)))"

definition parse_tokens :: "string list \<Rightarrow> (node list) res" where
  "parse_tokens tokens =
     res_bind (res_fold parse_token tokens init_parser) (\<lambda>p. res_bind (commit_command p) (\<lambda>p. Inr (p_nodes p)))"

text \<open>\<open>parse\<close> takes a list of words or a text.\<close>

definition parse :: "string list + string \<Rightarrow> (node list) res" where
  "parse command = (case command of Inl tokens \<Rightarrow> parse_tokens tokens | Inr s \<Rightarrow> res_bind (shlex_split s) parse_tokens)"

section \<open>Running\<close>

text \<open>
  What a process is started with.  A stream is inherited, the read end of the pipe of an earlier
  process (by its number), a new pipe, an open file, the null device, or joined with the output.
\<close>

datatype stream = Inherit | PipeOf nat | NewPipe | File string | DevNull | JoinStdout

record proc =
  pr_argv :: "string list"
  pr_stdin :: stream
  pr_stdout :: stream
  pr_stderr :: stream
  pr_env :: "(string, string) dict option"
  pr_cwd :: "string option"

datatype sh_event = Opened stream | Started nat proc | Waited nat | Closed stream | Printed string

text \<open>
  The local variables of \<open>run\<close>; \<open>rn_piped\<close> holds for each process of the current pipe its number, its
  exit code and whether its output is a pipe.  \<open>rn_retval\<close> is the variable \<open>retval\<close>, which has no value
  (\<^term>\<open>None\<close>) until it is assigned.
\<close>

record runner =
  rn_files :: "stream list"
  rn_piped :: "(nat \<times> int \<times> bool) list"
  rn_display :: "string list"
  rn_pipe :: bool
  rn_cwd :: string
  rn_started :: nat
  rn_retval :: "int option"
  rn_trace :: "sh_event list"

definition init_runner :: runner where
  "init_runner = \<lparr>rn_files = [], rn_piped = [], rn_display = [], rn_pipe = False, rn_cwd = ''.'', rn_started = 0,
                  rn_retval = None, rn_trace = []\<rparr>"

text \<open>The outside world: which files can be opened, and what starting the n-th process gives.\<close>

record world =
  w_environ :: "(string, string) dict"
  w_readable :: "string \<Rightarrow> bool"
  w_writable :: "string \<Rightarrow> bool"
  w_popen :: "nat \<Rightarrow> proc \<Rightarrow> int res"

text \<open>Steps that change the local variables and may raise.\<close>

type_synonym 'a act = "runner \<Rightarrow> runner \<times> 'a res"

definition act_bind :: "'a act \<Rightarrow> ('a \<Rightarrow> 'b act) \<Rightarrow> 'b act" where
  "act_bind m f s = (case m s of (s', Inl e) \<Rightarrow> (s', Inl e) | (s', Inr x) \<Rightarrow> f x s')"

definition act_return :: "'a \<Rightarrow> 'a act" where
  "act_return x s = (s, Inr x)"

definition log_event :: "sh_event \<Rightarrow> runner \<Rightarrow> runner" where
  "log_event e s = s\<lparr>rn_trace := rn_trace s @ [e]\<rparr>"

definition show_part :: "bool \<Rightarrow> string \<Rightarrow> runner \<Rightarrow> runner" where
  "show_part verbose t s = (if verbose then s\<lparr>rn_display := rn_display s @ [t]\<rparr> else s)"

definition remember_file :: "stream \<Rightarrow> runner \<Rightarrow> runner" where
  "remember_file f s = s\<lparr>rn_files := rn_files s @ [f]\<rparr>"

text \<open>\<open>open\<close> and \<open>_open_out_file\<close>; the null device is open all the time.\<close>

definition open_in_file :: "world \<Rightarrow> string \<Rightarrow> stream act" where
  "open_in_file w f s = (if w_readable w f then (log_event (Opened (File f)) s, Inr (File f)) else (s, Inl OSError))"

definition open_out_file :: "world \<Rightarrow> string \<Rightarrow> stream act" where
  "open_out_file w f s =
     (if f \<in> set [''NUL:'', ''/dev/null''] then (s, Inr DevNull)
      else if w_writable w f then (log_event (Opened (File f)) s, Inr (File f)) else (s, Inl OSError))"

definition choose_stdin :: "bool \<Rightarrow> world \<Rightarrow> command \<Rightarrow> stream act" where
  "choose_stdin verbose w c s =
     (if rn_pipe s then
        (case last (rn_piped s) of (i, _, piped) \<Rightarrow> (s, Inr (if piped then PipeOf i else Inherit)))
      else (case cmd_stdin c of
        None \<Rightarrow> (s, Inr Inherit)
      | Some f \<Rightarrow> act_bind (open_in_file w f)
          (\<lambda>st s. (remember_file st (show_part verbose (''< '' @ f) s), Inr st)) s))"

definition choose_stdout :: "bool \<Rightarrow> world \<Rightarrow> command \<Rightarrow> stream act" where
  "choose_stdout verbose w c s = (case cmd_stdout c of
     None \<Rightarrow> (s, Inr Inherit)
   | Some PIPE \<Rightarrow> (s, Inr NewPipe)
   | Some (ToFile f) \<Rightarrow> act_bind (open_out_file w f)
       (\<lambda>st s. (show_part verbose (''> '' @ f) (remember_file st s), Inr st)) s
   | Some STDOUT \<Rightarrow> (s, Inl TypeError))"

definition choose_stderr :: "bool \<Rightarrow> world \<Rightarrow> command \<Rightarrow> stream act" where
  "choose_stderr verbose w c s = (case cmd_stderr c of
     None \<Rightarrow> (s, Inr Inherit)
   | Some PIPE \<Rightarrow> (s, Inr NewPipe)
   | Some STDOUT \<Rightarrow> (show_part verbose ''2>&1'' s, Inr JoinStdout)
   | Some (ToFile f) \<Rightarrow> act_bind (open_out_file w f)
       (\<lambda>st s. (show_part verbose (''2> '' @ f) (remember_file st s), Inr st)) s)"

definition command_text :: "command \<Rightarrow> string" where
  "command_text c = (case cmd_env_vars c of
     Some (kv # kvs) \<Rightarrow> py_join '' '' (map (\<lambda>(k, v). k @ ''='' @ v) (kv # kvs)) @ '' '' @ py_join '' '' (cmd_argv c)
   | _ \<Rightarrow> py_join '' '' (cmd_argv c))"

definition command_env :: "world \<Rightarrow> command \<Rightarrow> (string, string) dict option" where
  "command_env w c = (case cmd_env_vars c of
     Some (kv # kvs) \<Rightarrow> Some (foldl (\<lambda>e (k, v). AList.update k v e) (w_environ w) (kv # kvs))
   | _ \<Rightarrow> None)"

definition start_command :: "bool \<Rightarrow> world \<Rightarrow> command \<Rightarrow> unit act" where
  "start_command verbose w c s =
     act_bind (choose_stdin verbose w c) (\<lambda>stdin.
     act_bind (choose_stdout verbose w c) (\<lambda>stdout.
     act_bind (choose_stderr verbose w c) (\<lambda>stderr s.
       (let p = \<lparr>pr_argv = cmd_argv c, pr_stdin = stdin, pr_stdout = stdout, pr_stderr = stderr,
                 pr_env = command_env w c, pr_cwd = (if rn_cwd s = ''.'' then None else Some (rn_cwd s))\<rparr>
        in case w_popen w (rn_started s) p of
             Inl e \<Rightarrow> (s, Inl e)
           | Inr code \<Rightarrow>
               (log_event (Started (rn_started s) p)
                  (s\<lparr>rn_piped := rn_piped s @ [(rn_started s, code, stdout = NewPipe)],
                     rn_started := rn_started s + 1\<rparr>), Inr ())))))
     (show_part verbose (command_text c) s)"

text \<open>\<open>_exec_piped_commands\<close>: wait for all, the code of the last one unless all are zero.\<close>

definition exec_piped_commands :: "int list \<Rightarrow> int res" where
  "exec_piped_commands retvals =
     (if \<exists>r \<in> set retvals. r \<noteq> 0 then py_index retvals (-1) else Inr 0)"

definition close_files :: "runner \<Rightarrow> runner" where
  "close_files s = s\<lparr>rn_trace := rn_trace s @ map Closed (filter (\<lambda>f. f \<noteq> DevNull) (rn_files s)), rn_files := []\<rparr>"

definition wait_piped :: "int act" where
  "wait_piped s =
     (let s' = s\<lparr>rn_trace := rn_trace s @ map (\<lambda>(i, _, _). Waited i) (rn_piped s)\<rparr>
      in (s', exec_piped_commands (map (\<lambda>(_, code, _). code) (rn_piped s))))"

text \<open>
  The message of a verbose run about the pipe that ended: it reads \<open>retval\<close>, and reading a local
  variable without a value raises.
\<close>

definition print_exit_code :: "bool \<Rightarrow> string \<Rightarrow> unit act" where
  "print_exit_code verbose remark s =
     (if verbose then
        (case rn_retval s of
           None \<Rightarrow> (s, Inl UnboundLocalError)
         | Some retval \<Rightarrow>
             (log_event (Printed (py_join '' '' (rn_display s) @ '': exit code '' @ show_int retval @ remark)) s, Inr ()))
      else (s, Inr ()))"

text \<open>
  After \<open>&&\<close> or \<open>||\<close> the code of the pipe is in \<open>this_retval\<close>, and the messages come after the decision.
\<close>

definition after_operator ::
    "bool \<Rightarrow> string \<Rightarrow> (int \<Rightarrow> bool) \<Rightarrow> (runner \<Rightarrow> runner \<times> int option res) \<Rightarrow> int option act" where
  "after_operator verbose op stops continue s =
     act_bind wait_piped (\<lambda>this_retval s.
       let s = close_files s
       in if stops this_retval
          then act_bind (print_exit_code verbose ('' ('' @ op @ '' is short-circuited)'')) (\<lambda>_ s. (s, Inr (Some this_retval))) s
          else act_bind (print_exit_code verbose ('' ('' @ op @ '' proceeds)''))
                 (\<lambda>_ s. continue (s\<lparr>rn_pipe := False, rn_piped := [], rn_display := []\<rparr>)) s) s"

text \<open>At the end of the line \<open>retval\<close> is assigned first, and the files are closed also when the message raises.\<close>

definition finish_run :: "bool \<Rightarrow> int option act" where
  "finish_run verbose s =
     act_bind wait_piped (\<lambda>retval s.
       (case print_exit_code verbose '''' (s\<lparr>rn_retval := Some retval\<rparr>) of
          (s, r) \<Rightarrow> (close_files s, map_sum id (\<lambda>_. Some retval) r))) s"

fun run_loop :: "bool \<Rightarrow> world \<Rightarrow> node list \<Rightarrow> int option act" where
  "run_loop verbose w [] s = (s, Inr None)"
| "run_loop verbose w (Chdir d # rest) s = (case rest of
     [] \<Rightarrow> (s, Inl IndexError)
   | op # rest' \<Rightarrow>
       if op \<noteq> And then (s, Inl AssertionError)
       else (case d of
         None \<Rightarrow> (s, Inl TypeError)
       | Some dir \<Rightarrow>
           run_loop verbose w rest'
             (show_part verbose (''cd '' @ dir @ '' &&'') (s\<lparr>rn_cwd := path_join (rn_cwd s) dir\<rparr>))))"
| "run_loop verbose w (Command c # rest) s =
     act_bind (start_command verbose w c) (\<lambda>_ s. case rest of
       [] \<Rightarrow> finish_run verbose s
     | op # rest' \<Rightarrow>
         if op = Pipe then run_loop verbose w rest' (s\<lparr>rn_pipe := True, rn_display := rn_display s @ [''|'']\<rparr>)
         else if op = Or then after_operator verbose ''||'' (\<lambda>r. r = 0) (run_loop verbose w rest') s
         else if op = And then after_operator verbose ''&&'' (\<lambda>r. r \<noteq> 0) (run_loop verbose w rest') s
         else run_loop verbose w rest' s) s"
| "run_loop verbose w (op # rest) s = (s, Inl AssertionError)"

definition run :: "bool \<Rightarrow> world \<Rightarrow> node list \<Rightarrow> runner \<times> int option res" where
  "run verbose w nodes = run_loop verbose w nodes init_runner"

section \<open>What the parser returns\<close>

text \<open>
  A command is well formed: its words start with its name, its output is no copy of itself, its error
  stream no pipe.  An operator follows what it may follow, and a command writes into a pipe exactly
  when the operator after it is one.
\<close>

definition command_ok :: "command \<Rightarrow> bool" where
  "command_ok c \<longleftrightarrow> cmd_argv c \<noteq> [] \<and> hd (cmd_argv c) = cmd_name c \<and> cmd_stdout c \<noteq> Some STDOUT
     \<and> cmd_stderr c \<noteq> Some PIPE \<and> cmd_env_vars c \<noteq> Some []"

fun fits :: "node \<Rightarrow> node \<Rightarrow> bool" where
  "fits (Command c) op \<longleftrightarrow> command_ok c \<and> op \<in> {Pipe, And, Or} \<and> (cmd_stdout c = Some PIPE \<longleftrightarrow> op = Pipe)"
| "fits (Chdir d) op \<longleftrightarrow> op = And"
| "fits _ op \<longleftrightarrow> False"

fun segments_ok :: "node list \<Rightarrow> bool" where
  "segments_ok [] \<longleftrightarrow> True"
| "segments_ok [x] \<longleftrightarrow> False"
| "segments_ok (x # op # r) \<longleftrightarrow> fits x op \<and> segments_ok r"

fun final_ok :: "node \<Rightarrow> bool" where
  "final_ok (Command c) \<longleftrightarrow> command_ok c \<and> cmd_stdout c \<noteq> Some PIPE"
| "final_ok (Chdir d) \<longleftrightarrow> True"
| "final_ok _ \<longleftrightarrow> False"

definition pipeline_ok :: "node list \<Rightarrow> bool" where
  "pipeline_ok nodes \<longleftrightarrow> nodes \<noteq> [] \<and> segments_ok (butlast nodes) \<and> final_ok (last nodes)"

lemma segments_ok_snoc: "segments_ok xs \<Longrightarrow> fits x op \<Longrightarrow> segments_ok (xs @ [x, op])"
  by (induction xs rule: segments_ok.induct) auto

fun open_command :: "node option \<Rightarrow> bool" where
  "open_command (Some (Command c)) \<longleftrightarrow> command_ok c \<and> cmd_stdout c \<noteq> Some PIPE"
| "open_command _ \<longleftrightarrow> False"

fun open_chdir :: "node option \<Rightarrow> bool" where
  "open_chdir (Some (Chdir d)) \<longleftrightarrow> True"
| "open_chdir _ \<longleftrightarrow> False"

definition parser_ok :: "parser \<Rightarrow> bool" where
  "parser_ok p \<longleftrightarrow> segments_ok (p_nodes p) \<and>
     (case p_state p of P_BEGIN \<Rightarrow> p_current p = None | P_CHDIR \<Rightarrow> open_chdir (p_current p) | _ \<Rightarrow> open_command (p_current p))"

lemma open_commandE:
  assumes "open_command x"
  obtains c where "x = Some (Command c)" and "command_ok c" and "cmd_stdout c \<noteq> Some PIPE"
  using assms by (cases x rule: open_command.cases) auto

lemma open_chdirE:
  assumes "open_chdir x"
  obtains d where "x = Some (Chdir d)"
  using assms by (cases x rule: open_chdir.cases) auto

lemma init_parser_ok: "parser_ok init_parser"
  by (simp add: parser_ok_def init_parser_def)

text \<open>One token: the invariant is kept, and the only exception is a failed assertion.\<close>

definition good :: "parser res \<Rightarrow> bool" where
  "good r \<longleftrightarrow> (case r of Inl e \<Rightarrow> e = AssertionError | Inr p \<Rightarrow> parser_ok p)"

lemma goodI [simp]: "good (Inr p) \<longleftrightarrow> parser_ok p" "good (Inl e) \<longleftrightarrow> e = AssertionError"
  by (simp_all add: good_def)

lemma end_with_good:
  assumes "segments_ok (p_nodes p)" and "p_current p = Some x" and "fits x op"
  shows "good (end_with op p)"
  using assms by (simp add: end_with_def commit_command_def parser_ok_def segments_ok_snoc)

lemma with_command_good:
  assumes "segments_ok (p_nodes p)" and "p_state p = P_COMMAND" and "open_command (p_current p)"
    and "\<And>c. command_ok c \<Longrightarrow> cmd_stdout c \<noteq> Some PIPE \<Longrightarrow> command_ok (f c) \<and> cmd_stdout (f c) \<noteq> Some PIPE"
  shows "good (with_command p (\<lambda>c. assert (b c) (f c)))"
  using assms(3)
  by (rule open_commandE) (simp add: with_command_def assert_def parser_ok_def assms)

lemma parse_begin_good: "parser_ok p \<Longrightarrow> p_state p = P_BEGIN \<Longrightarrow> good (parse_begin p t)"
  by (auto simp: parse_begin_def parser_ok_def assert_def Let_def new_command_def command_ok_def split: option.splits)

lemma parse_command_good:
  assumes "parser_ok p" and "p_state p = P_COMMAND"
  shows "good (parse_command p t)"
proof -
  from assms have s: "segments_ok (p_nodes p)" and "open_command (p_current p)" by (simp_all add: parser_ok_def)
  from this(2) obtain c where c: "p_current p = Some (Command c)" "command_ok c" "cmd_stdout c \<noteq> Some PIPE"
    by (rule open_commandE)
  have "good (with_command p (\<lambda>c. assert True (c\<lparr>cmd_argv := cmd_argv c @ [t]\<rparr>)))"
    by (rule with_command_good) (use s assms c in \<open>simp_all add: command_ok_def\<close>)
  moreover have "good (with_command p (\<lambda>c. assert (cmd_stderr c = None) (c\<lparr>cmd_stderr := Some STDOUT\<rparr>)))"
    by (rule with_command_good) (use s assms c in \<open>simp_all add: command_ok_def\<close>)
  moreover have "good (end_with And p)" "good (end_with Or p)"
    using end_with_good [OF s c(1)] c(2,3) by simp_all
  moreover have "good (res_bind (with_command p (\<lambda>c. assert (cmd_stdout c = None) (c\<lparr>cmd_stdout := Some PIPE\<rparr>))) (end_with Pipe))"
    using s c by (auto simp: with_command_def assert_def command_ok_def intro!: end_with_good)
  ultimately show ?thesis
    using assms s c by (auto simp: parse_command_def parser_ok_def assert_def)
qed

lemma parse_chdir_good: "parser_ok p \<Longrightarrow> p_state p = P_CHDIR \<Longrightarrow> good (parse_chdir p t)"
  by (auto simp: parse_chdir_def parser_ok_def assert_def elim!: open_chdirE intro: end_with_good)

lemma parse_token_good:
  assumes "parser_ok p"
  shows "good (parse_token p t)"
proof -
  have r: "segments_ok (p_nodes (to_command p))" "p_state (to_command p) = P_COMMAND" "p_current (to_command p) = p_current p"
    using assms by (simp_all add: parser_ok_def to_command_def)
  show ?thesis
  proof (cases "p_state p")
    case P_BEGIN
    with assms show ?thesis by (simp add: parse_token_def parse_begin_good)
  next
    case P_COMMAND
    with assms show ?thesis by (simp add: parse_token_def parse_command_good)
  next
    case P_CHDIR
    with assms show ?thesis by (simp add: parse_token_def parse_chdir_good)
  qed (use assms r in \<open>auto simp: parse_token_def parser_ok_def command_ok_def intro!: with_command_good\<close>)
qed

lemma parse_fold_good: "parser_ok p \<Longrightarrow> good (res_fold parse_token ts p)"
proof (induction ts arbitrary: p)
  case (Cons t ts)
  from parse_token_good [OF Cons.prems, of t] Cons.IH show ?case
    by (cases "parse_token p t") auto
qed simp

text \<open>
  C9: Parsing never raises anything but a failed assertion, and what it returns is well formed:
  commands and operators alternate, a command writes into a pipe exactly when a pipe follows, a change
  of directory is followed by \<open>&&\<close> or is the last node.
\<close>
theorem parse_tokens_type:
  "case parse_tokens ts of Inl e \<Rightarrow> e = AssertionError | Inr nodes \<Rightarrow> pipeline_ok nodes"
proof -
  have "good (res_fold parse_token ts init_parser)" by (rule parse_fold_good) (rule init_parser_ok)
  then show ?thesis
    by (cases "res_fold parse_token ts init_parser")
       (auto simp: parse_tokens_def commit_command_def parser_ok_def pipeline_ok_def
         split: option.splits parse_phase.splits elim!: open_chdirE open_commandE)
qed

section \<open>Command lines\<close>

text \<open>
  The abstract syntax of a command line: items joined by connectives, an item being changes of
  directory followed by a command.
\<close>

datatype connective = CPipe | CAnd | COr

type_synonym item = "string list \<times> command"

fun op_node :: "connective \<Rightarrow> node" where
  "op_node CPipe = Pipe" | "op_node CAnd = And" | "op_node COr = Or"

fun op_token :: "connective \<Rightarrow> string" where
  "op_token CPipe = ''|''" | "op_token CAnd = ''&&''" | "op_token COr = ''||''"

fun item_nodes :: "item \<Rightarrow> node list" where
  "item_nodes ([], c) = [Command c]"
| "item_nodes (d # ds, c) = Chdir (Some d) # And # item_nodes (ds, c)"

fun line_nodes :: "item \<Rightarrow> (connective \<times> item) list \<Rightarrow> node list" where
  "line_nodes i [] = item_nodes i"
| "line_nodes i ((k, j) # r) = item_nodes i @ op_node k # line_nodes j r"

text \<open>How a command is written: assignments, name, arguments, redirections.\<close>

definition redirections :: "command \<Rightarrow> string list" where
  "redirections c = (case cmd_stdin c of None \<Rightarrow> [] | Some f \<Rightarrow> [''<'', f])
     @ (case cmd_stdout c of Some (ToFile f) \<Rightarrow> [''>'', f] | _ \<Rightarrow> [])
     @ (case cmd_stderr c of Some (ToFile f) \<Rightarrow> [''2>'', f] | Some STDOUT \<Rightarrow> [''2>&1''] | _ \<Rightarrow> [])"

definition command_tokens :: "command \<Rightarrow> string list" where
  "command_tokens c = (case cmd_env_vars c of None \<Rightarrow> [] | Some kvs \<Rightarrow> map (\<lambda>(k, v). k @ ''='' @ v) kvs)
     @ cmd_argv c @ redirections c"

fun item_tokens :: "item \<Rightarrow> string list" where
  "item_tokens ([], c) = command_tokens c"
| "item_tokens (d # ds, c) = [''cd'', d, ''&&''] @ item_tokens (ds, c)"

fun line_tokens :: "item \<Rightarrow> (connective \<times> item) list \<Rightarrow> string list" where
  "line_tokens i [] = item_tokens i"
| "line_tokens i ((k, j) # r) = item_tokens i @ op_token k # line_tokens j r"

definition special_token :: "string \<Rightarrow> bool" where
  "special_token t \<longleftrightarrow> t \<in> set [''>'', ''2>'', ''2>&1'', ''<'', ''|'', ''&&'', ''||'']"

definition assignment_ok :: "string \<times> string \<Rightarrow> bool" where
  "assignment_ok kv = (case kv of (k, v) \<Rightarrow> k \<noteq> [] \<and> (\<forall>c \<in> set k. name_char c) \<and> v \<noteq> [] \<and> (\<forall>c \<in> set v. \<not> is_space c))"

definition written_ok :: "command \<Rightarrow> bool" where
  "written_ok c \<longleftrightarrow> command_ok c \<and> env_var_match (cmd_name c) = None \<and> cmd_name c \<noteq> ''cd''
     \<and> (\<forall>a \<in> set (tl (cmd_argv c)). \<not> special_token a)
     \<and> (case cmd_env_vars c of None \<Rightarrow> True | Some kvs \<Rightarrow> distinct (map fst kvs) \<and> list_all assignment_ok kvs)"

fun item_ok :: "item \<Rightarrow> bool" where
  "item_ok (ds, c) \<longleftrightarrow> written_ok c \<and> (\<forall>d \<in> set ds. d \<noteq> ''&&'')"

fun line_ok :: "item \<Rightarrow> (connective \<times> item) list \<Rightarrow> bool" where
  "line_ok i [] \<longleftrightarrow> item_ok i \<and> cmd_stdout (snd i) \<noteq> Some PIPE"
| "line_ok i ((k, j) # r) \<longleftrightarrow> item_ok i \<and> (cmd_stdout (snd i) = Some PIPE \<longleftrightarrow> k = CPipe) \<and> line_ok j r"

lemma assignment_read:
  assumes "assignment_ok (k, v)"
  shows "env_var_match (k @ ''='' @ v) = Some (k, v)"
proof -
  from assms have k: "k \<noteq> []" "\<forall>c \<in> set k. name_char c" and v: "v \<noteq> []" "\<forall>c \<in> set v. \<not> is_space c"
    by (auto simp: assignment_ok_def)
  have e: "\<not> name_char (CHR ''='')" by (simp add: name_char_def)
  have "takeWhile name_char (k @ ''='' @ v) = k @ takeWhile name_char (''='' @ v)"
    "dropWhile name_char (k @ ''='' @ v) = dropWhile name_char (''='' @ v)"
    using k(2) by (simp_all add: takeWhile_append2 dropWhile_append2)
  moreover have "last v \<noteq> NL" using v by (auto simp: is_space_def dest: last_in_set)
  ultimately show ?thesis using k v e by (simp add: env_var_match_def Let_def)
qed

abbreviation at_begin :: "node list \<Rightarrow> (string, string) dict \<Rightarrow> parser" where
  "at_begin ns env \<equiv> \<lparr>p_state = P_BEGIN, p_current = None, p_nodes = ns, p_env = env\<rparr>"

abbreviation in_command :: "node list \<Rightarrow> command \<Rightarrow> parser" where
  "in_command ns c \<equiv> \<lparr>p_state = P_COMMAND, p_current = Some (Command c), p_nodes = ns, p_env = []\<rparr>"

lemma read_assignments:
  assumes "list_all assignment_ok kvs" and "distinct (map fst (env @ kvs))"
  shows "res_fold parse_token (map (\<lambda>(k, v). k @ ''='' @ v) kvs) (at_begin ns env) = Inr (at_begin ns (env @ kvs))"
  using assms
proof (induction kvs arbitrary: env)
  case (Cons kv kvs)
  obtain k v where kv: "kv = (k, v)" by (cases kv)
  have "AList.update k v env = env @ [(k, v)]" using Cons.prems(2) kv by (intro update_new) auto
  moreover have "env_var_match (k @ CHR ''='' # v) = Some (k, v)" using assignment_read [of k v] Cons.prems(1) kv by simp
  ultimately have "parse_token (at_begin ns env) (k @ CHR ''='' # v) = Inr (at_begin ns (env @ [(k, v)]))"
    by (simp add: parse_token_def parse_begin_def)
  with Cons.IH [of "env @ [(k, v)]"] Cons.prems kv show ?case by simp
qed simp

lemma read_name:
  assumes "env_var_match n = None" and "n \<noteq> ''cd''"
  shows "parse_token (at_begin ns env) n
    = Inr (in_command ns ((new_command n)\<lparr>cmd_env_vars := (if env = [] then None else Some env)\<rparr>))"
  using assms by (simp add: parse_token_def parse_begin_def Let_def new_command_def)

lemma read_arguments:
  assumes "\<forall>a \<in> set as. \<not> special_token a"
  shows "res_fold parse_token as (in_command ns c) = Inr (in_command ns (c\<lparr>cmd_argv := cmd_argv c @ as\<rparr>))"
  using assms
proof (induction as arbitrary: c)
  case (Cons a as)
  then have "parse_token (in_command ns c) a = Inr (in_command ns (c\<lparr>cmd_argv := cmd_argv c @ [a]\<rparr>))"
    by (simp add: parse_token_def parse_command_def with_command_def special_token_def)
  with Cons show ?case by simp
qed simp

definition file_target :: "target option \<Rightarrow> target option" where
  "file_target t = (if t = Some PIPE then None else t)"

lemma read_redirections:
  assumes "command_ok c"
  shows "res_fold parse_token (redirections c)
      (in_command ns (c\<lparr>cmd_stdin := None, cmd_stdout := None, cmd_stderr := None\<rparr>))
    = Inr (in_command ns (c\<lparr>cmd_stdout := file_target (cmd_stdout c)\<rparr>))"
  using assms
  by (cases c) (auto simp: redirections_def command_ok_def file_target_def parse_token_def parse_command_def
      with_command_def assert_def to_command_def split: option.splits target.splits)

lemma read_command:
  assumes "written_ok c"
  shows "res_fold parse_token (command_tokens c) (at_begin ns []) = Inr (in_command ns (c\<lparr>cmd_stdout := file_target (cmd_stdout c)\<rparr>))"
proof -
  let ?env = "case cmd_env_vars c of None \<Rightarrow> [] | Some kvs \<Rightarrow> kvs"
  from assms have ok: "command_ok c" and n: "env_var_match (cmd_name c) = None" "cmd_name c \<noteq> ''cd''"
    and as: "\<forall>a \<in> set (tl (cmd_argv c)). \<not> special_token a" by (simp_all add: written_ok_def)
  have argv: "cmd_argv c = cmd_name c # tl (cmd_argv c)" using ok by (metis command_ok_def list.collapse)
  have e: "res_fold parse_token (map (\<lambda>(k, v). k @ ''='' @ v) ?env) (at_begin ns []) = Inr (at_begin ns ?env)"
    using read_assignments [of ?env "[]"] assms by (auto simp: written_ok_def split: option.splits)
  have t: "command_tokens c = map (\<lambda>(k, v). k @ ''='' @ v) ?env @ [cmd_name c] @ tl (cmd_argv c) @ redirections c"
    using argv by (auto simp: command_tokens_def split: option.splits)
  have v: "(if ?env = [] then None else Some ?env) = cmd_env_vars c"
    using ok by (auto simp: command_ok_def split: option.splits)
  have c: "(new_command (cmd_name c))\<lparr>cmd_env_vars := cmd_env_vars c, cmd_argv := [cmd_name c] @ tl (cmd_argv c)\<rparr>
      = c\<lparr>cmd_stdin := None, cmd_stdout := None, cmd_stderr := None\<rparr>"
    using argv by (cases c) (simp add: new_command_def)
  have a: "res_fold parse_token (tl (cmd_argv c)) (in_command ns ((new_command (cmd_name c))\<lparr>cmd_env_vars := cmd_env_vars c\<rparr>))
      = Inr (in_command ns (c\<lparr>cmd_stdin := None, cmd_stdout := None, cmd_stderr := None\<rparr>))"
    using read_arguments [OF as, where ns = ns and c = "(new_command (cmd_name c))\<lparr>cmd_env_vars := cmd_env_vars c\<rparr>"] c
    by (simp add: new_command_def)
  show ?thesis unfolding t
    by (simp only: res_fold_append e res_bind_Inr res_fold.simps read_name [OF n] v a read_redirections [OF ok])
qed


lemma read_item:
  assumes "item_ok (ds, c)"
  shows "\<exists>ms. item_nodes (ds, c) = ms @ [Command c] \<and>
    res_fold parse_token (item_tokens (ds, c)) (at_begin ns []) = Inr (in_command (ns @ ms) (c\<lparr>cmd_stdout := file_target (cmd_stdout c)\<rparr>))"
  using assms
proof (induction ds arbitrary: ns)
  case Nil
  then show ?case by (simp add: read_command)
next
  case (Cons d ds)
  have "res_fold parse_token [''cd'', d, ''&&''] (at_begin ns []) = Inr (at_begin (ns @ [Chdir (Some d), And]) [])"
    using Cons.prems
    by (simp add: parse_token_def parse_begin_def parse_chdir_def env_var_match_def name_char_def assert_def end_with_def
        commit_command_def)
  then have e: "res_fold parse_token (item_tokens (d # ds, c)) (at_begin ns [])
      = res_fold parse_token (item_tokens (ds, c)) (at_begin (ns @ [Chdir (Some d), And]) [])"
    unfolding item_tokens.simps(2) res_fold_append by (simp only: res_bind_Inr)
  from Cons.prems have "item_ok (ds, c)" by simp
  from Cons.IH [OF this, of "ns @ [Chdir (Some d), And]"] obtain ms where "item_nodes (ds, c) = ms @ [Command c]"
    "res_fold parse_token (item_tokens (ds, c)) (at_begin (ns @ [Chdir (Some d), And]) [])
      = Inr (in_command ((ns @ [Chdir (Some d), And]) @ ms) (c\<lparr>cmd_stdout := file_target (cmd_stdout c)\<rparr>))"
    by blast
  then show ?case unfolding e by (intro exI [of _ "[Chdir (Some d), And] @ ms"]) simp
qed

lemma read_connective:
  assumes "cmd_stdout c = Some PIPE \<longleftrightarrow> k = CPipe"
  shows "parse_token (in_command ns (c\<lparr>cmd_stdout := file_target (cmd_stdout c)\<rparr>)) (op_token k)
    = Inr (at_begin (ns @ [Command c, op_node k]) [])"
  using assms
  by (cases k; cases c) (auto simp: parse_token_def parse_command_def with_command_def assert_def file_target_def
      end_with_def commit_command_def)

lemma read_line_tokens:
  assumes "line_ok i r"
  shows "\<exists>ms c. ns @ line_nodes i r = ms @ [Command c]
    \<and> res_fold parse_token (line_tokens i r) (at_begin ns []) = Inr (in_command ms c)"
  using assms
proof (induction i r arbitrary: ns rule: line_ok.induct)
  case (1 i)
  obtain ds c where i: "i = (ds, c)" by (cases i)
  have "c\<lparr>cmd_stdout := file_target (cmd_stdout c)\<rparr> = c" using 1 i by (cases c) (simp add: file_target_def)
  moreover from 1 i obtain ms where "item_nodes (ds, c) = ms @ [Command c]"
    "res_fold parse_token (item_tokens (ds, c)) (at_begin ns []) = Inr (in_command (ns @ ms) (c\<lparr>cmd_stdout := file_target (cmd_stdout c)\<rparr>))"
    using read_item [of ds c ns] by auto
  ultimately show ?case using i by (intro exI [of _ "ns @ ms"] exI [of _ c]) simp
next
  case (2 i k j r)
  obtain ds c where i: "i = (ds, c)" by (cases i)
  from 2 i obtain ms where m: "item_nodes (ds, c) = ms @ [Command c]"
    "res_fold parse_token (item_tokens (ds, c)) (at_begin ns []) = Inr (in_command (ns @ ms) (c\<lparr>cmd_stdout := file_target (cmd_stdout c)\<rparr>))"
    using read_item [of ds c ns] by auto
  have k: "parse_token (in_command (ns @ ms) (c\<lparr>cmd_stdout := file_target (cmd_stdout c)\<rparr>)) (op_token k)
    = Inr (at_begin (ns @ ms @ [Command c, op_node k]) [])" using read_connective [of c k "ns @ ms"] 2 i by simp
  then have e: "res_fold parse_token (line_tokens i ((k, j) # r)) (at_begin ns [])
      = res_fold parse_token (line_tokens j r) (at_begin (ns @ ms @ [Command c, op_node k]) [])"
    using m(2) i by (simp add: res_fold_append)
  from "2.prems" have "line_ok j r" by simp
  from "2.IH" [OF this, of "ns @ ms @ [Command c, op_node k]"] obtain ls d
    where "(ns @ ms @ [Command c, op_node k]) @ line_nodes j r = ls @ [Command d]"
    "res_fold parse_token (line_tokens j r) (at_begin (ns @ ms @ [Command c, op_node k]) []) = Inr (in_command ls d)"
    by blast
  with i m(1) show ?case unfolding e by (intro exI [of _ ls] exI [of _ d]) simp
qed

lemma parse_line_tokens:
  assumes "line_ok i r"
  shows "parse_tokens (line_tokens i r) = Inr (line_nodes i r)"
proof -
  from read_line_tokens [OF assms, of "[]"] obtain ms c where "line_nodes i r = ms @ [Command c]"
    "res_fold parse_token (line_tokens i r) (at_begin [] []) = Inr (in_command ms c)" by auto
  then show ?thesis by (simp add: parse_tokens_def init_parser_def commit_command_def)
qed

text \<open>
  C10: Parsing inverts writing: the text of a well-formed command line, its words separated by blanks,
  is parsed into the nodes of that line.
\<close>
theorem parse_roundtrip:
  assumes "line_ok i r" and "\<forall>t \<in> set (line_tokens i r). plain_word t"
  shows "parse (Inr (py_join '' '' (line_tokens i r))) = Inr (line_nodes i r)"
  using assms by (simp add: parse_def shlex_split_plain parse_line_tokens)

section \<open>What a run does\<close>

lemma exec_piped_last: "codes \<noteq> [] \<Longrightarrow> exec_piped_commands codes = Inr (last codes)"
  by (cases codes rule: rev_cases) (auto simp: exec_piped_commands_def py_index_def nth_append)

text \<open>A world in which files open and the n-th process starts and ends with the n-th code.\<close>

definition world_ok :: "world \<Rightarrow> (nat \<Rightarrow> int) \<Rightarrow> bool" where
  "world_ok w codes \<longleftrightarrow> (\<forall>f. w_readable w f) \<and> (\<forall>f. w_writable w f) \<and> (\<forall>n p. w_popen w n p = Inr (codes n))"

text \<open>
  The abstract meaning of a line: from left to right, a pipe goes on with the next process, \<open>&&\<close> goes
  on after a zero and \<open>||\<close> after anything else; otherwise the line ends there.  The result is the code
  of the last process and the number of processes started.
\<close>

fun shell_eval :: "(nat \<Rightarrow> int) \<Rightarrow> nat \<Rightarrow> connective list \<Rightarrow> int \<times> nat" where
  "shell_eval codes n [] = (codes n, Suc n)"
| "shell_eval codes n (CPipe # r) = shell_eval codes (Suc n) r"
| "shell_eval codes n (CAnd # r) = (if codes n = 0 then shell_eval codes (Suc n) r else (codes n, Suc n))"
| "shell_eval codes n (COr # r) = (if codes n \<noteq> 0 then shell_eval codes (Suc n) r else (codes n, Suc n))"

text \<open>The words and the directory of every process of a line, in order.\<close>

definition proc_cwd :: "string \<Rightarrow> string option" where
  "proc_cwd cwd = (if cwd = ''.'' then None else Some cwd)"

fun line_procs :: "string \<Rightarrow> item \<Rightarrow> (connective \<times> item) list \<Rightarrow> (string list \<times> string option) list" where
  "line_procs cwd (ds, c) r =
     (let cwd' = foldl path_join cwd ds
      in (cmd_argv c, proc_cwd cwd') # (case r of [] \<Rightarrow> [] | (k, j) # r' \<Rightarrow> line_procs cwd' j r'))"

definition started :: "sh_event list \<Rightarrow> (string list \<times> string option) list" where
  "started tr = List.map_filter (\<lambda>e. case e of Started i p \<Rightarrow> Some (pr_argv p, pr_cwd p) | _ \<Rightarrow> None) tr"

lemma started_append [simp]: "started (a @ b) = started a @ started b"
  by (simp add: started_def map_filter_def)

lemma started_none [simp]: "\<forall>e \<in> set tr. \<forall>i p. e \<noteq> Started i p \<Longrightarrow> started tr = []"
  by (induction tr) (auto simp: started_def map_filter_def split: sh_event.splits)

lemma started_one [simp]: "started [Started i p] = [(pr_argv p, pr_cwd p)]"
  by (simp add: started_def map_filter_def)

definition printed :: "sh_event list \<Rightarrow> string list" where
  "printed tr = List.map_filter (\<lambda>e. case e of Printed t \<Rightarrow> Some t | _ \<Rightarrow> None) tr"

lemma printed_append [simp]: "printed (a @ b) = printed a @ printed b"
  by (simp add: printed_def map_filter_def)

lemma printed_Cons [simp]:
  "printed [] = []" "printed (e # tr) = (case e of Printed t \<Rightarrow> [t] | _ \<Rightarrow> []) @ printed tr"
  by (simp_all add: printed_def map_filter_def split: sh_event.splits)

lemma printed_none [simp]: "\<forall>e \<in> set tr. \<forall>t. e \<noteq> Printed t \<Longrightarrow> printed tr = []"
  by (induction tr) (auto simp: printed_def map_filter_def split: sh_event.splits)

text \<open>Opening files touches neither the processes nor the directory, and prints nothing.\<close>

definition same_procs :: "runner \<Rightarrow> runner \<Rightarrow> bool" where
  "same_procs s t \<longleftrightarrow> rn_piped t = rn_piped s \<and> rn_started t = rn_started s \<and> rn_cwd t = rn_cwd s
     \<and> rn_pipe t = rn_pipe s \<and> started (rn_trace t) = started (rn_trace s)
     \<and> rn_retval t = rn_retval s \<and> printed (rn_trace t) = printed (rn_trace s)"

lemma choose_streams:
  assumes "world_ok w codes"
  shows "\<exists>t st. choose_stdin v w c s = (t, Inr st) \<and> same_procs s t"
    and "cmd_stdout c \<noteq> Some STDOUT \<Longrightarrow> \<exists>t st. choose_stdout v w c s = (t, Inr st) \<and> same_procs s t"
    and "\<exists>t st. choose_stderr v w c s = (t, Inr st) \<and> same_procs s t"
  using assms
  by (auto simp: choose_stdin_def choose_stdout_def choose_stderr_def act_bind_def open_in_file_def open_out_file_def
      world_ok_def log_event_def show_part_def remember_file_def same_procs_def
      split: option.splits target.splits prod.splits)

lemma start_command_ok:
  assumes "world_ok w codes" and "cmd_stdout c \<noteq> Some STDOUT"
  shows "\<exists>t b. start_command v w c s = (t, Inr ()) \<and> rn_piped t = rn_piped s @ [(rn_started s, codes (rn_started s), b)]
    \<and> rn_started t = Suc (rn_started s) \<and> rn_cwd t = rn_cwd s
    \<and> started (rn_trace t) = started (rn_trace s) @ [(cmd_argv c, proc_cwd (rn_cwd s))]
    \<and> rn_retval t = rn_retval s \<and> printed (rn_trace t) = printed (rn_trace s)"
proof -
  let ?s = "show_part v (command_text c) s"
  have s: "same_procs s ?s" by (simp add: same_procs_def show_part_def)
  obtain t1 i where 1: "choose_stdin v w c ?s = (t1, Inr i)" "same_procs ?s t1" using choose_streams(1) [OF assms(1)] by blast
  obtain t2 j where 2: "choose_stdout v w c t1 = (t2, Inr j)" "same_procs t1 t2" using choose_streams(2) [OF assms] by blast
  obtain t3 k where 3: "choose_stderr v w c t2 = (t3, Inr k)" "same_procs t2 t3" using choose_streams(3) [OF assms(1)] by blast
  from s 1 2 3 assms(1) show ?thesis
    by (simp add: start_command_def act_bind_def same_procs_def world_ok_def Let_def log_event_def proc_cwd_def)
qed

lemma run_item_dirs:
  "run_loop v w (item_nodes (ds, c) @ rest) s
    = run_loop v w (Command c # rest)
        (s\<lparr>rn_cwd := foldl path_join (rn_cwd s) ds, rn_display := rn_display s @ (if v then map (\<lambda>d. ''cd '' @ d @ '' &&'') ds else [])\<rparr>)"
  by (induction ds arbitrary: s) (simp_all add: show_part_def)

lemma wait_piped_ok:
  assumes "rn_piped s \<noteq> []"
  shows "\<exists>t. wait_piped s = (t, Inr (fst (snd (last (rn_piped s))))) \<and> started (rn_trace t) = started (rn_trace s)
    \<and> rn_started t = rn_started s \<and> rn_cwd t = rn_cwd s \<and> rn_files t = rn_files s \<and> rn_display t = rn_display s
    \<and> rn_retval t = rn_retval s \<and> printed (rn_trace t) = printed (rn_trace s)"
  using assms
  by (auto simp: wait_piped_def exec_piped_last last_map case_prod_beta Let_def)

lemma shell_eval_gt: "n < snd (shell_eval codes n r)"
  by (induction codes n r rule: shell_eval.induct) auto

lemma take_step: "n < k \<Longrightarrow> take (k - n) (x # xs) = x # take (k - Suc n) xs"
  using Suc_diff_Suc [of n k] by (simp flip: Suc_diff_Suc)


text \<open>One command of a line, up to the decision of the operator after it.\<close>

lemma run_head:
  assumes "world_ok w codes" and "cmd_stdout c \<noteq> Some STDOUT"
  obtains t u f where "rn_started t = Suc (rn_started s)" and "rn_started u = Suc (rn_started s)"
    and "rn_cwd t = foldl path_join (rn_cwd s) ds" and "rn_cwd u = foldl path_join (rn_cwd s) ds"
    and "started (rn_trace t) = started (rn_trace s) @ [(cmd_argv c, proc_cwd (foldl path_join (rn_cwd s) ds))]"
    and "started (rn_trace u) = started (rn_trace s) @ [(cmd_argv c, proc_cwd (foldl path_join (rn_cwd s) ds))]"
    and "run_loop False w (line_nodes (ds, c) []) s = (f, Inr (Some (codes (rn_started s))))"
    and "\<And>k j r. run_loop False w (line_nodes (ds, c) ((k, j) # r)) s =
      (if k = CPipe then run_loop False w (line_nodes j r) t
       else if (codes (rn_started s) = 0) = (k = CAnd)
       then run_loop False w (line_nodes j r) (u\<lparr>rn_pipe := False, rn_piped := [], rn_display := []\<rparr>)
       else (u, Inr (Some (codes (rn_started s)))))"
    and "started (rn_trace f) = started (rn_trace s) @ [(cmd_argv c, proc_cwd (foldl path_join (rn_cwd s) ds))]"
proof -
  let ?s = "s\<lparr>rn_cwd := foldl path_join (rn_cwd s) ds\<rparr>" and ?n = "rn_started s"
  obtain t b where t: "start_command False w c ?s = (t, Inr ())" "rn_piped t = rn_piped s @ [(?n, codes ?n, b)]"
    "rn_started t = Suc ?n" "rn_cwd t = rn_cwd ?s"
    "started (rn_trace t) = started (rn_trace s) @ [(cmd_argv c, proc_cwd (rn_cwd ?s))]"
    using start_command_ok [OF assms, of False ?s] by auto
  obtain u where u: "wait_piped t = (u, Inr (codes ?n))" "started (rn_trace u) = started (rn_trace t)"
    "rn_started u = rn_started t" "rn_cwd u = rn_cwd t"
    using wait_piped_ok [of t] t(2) by auto
  have c: "started (rn_trace (close_files u)) = started (rn_trace u)" "rn_started (close_files u) = rn_started u"
    "rn_cwd (close_files u) = rn_cwd u"
    by (simp_all add: close_files_def)
  have e: "run_loop False w (item_nodes (ds, c) @ rest) s = run_loop False w (Command c # rest) ?s" for rest
    unfolding run_item_dirs by simp
  show thesis
  proof (rule that [of "t\<lparr>rn_pipe := True, rn_display := rn_display t @ [''|'']\<rparr>" "close_files u"
        "close_files (u\<lparr>rn_retval := Some (codes ?n)\<rparr>)"])
    show "run_loop False w (line_nodes (ds, c) []) s = (close_files (u\<lparr>rn_retval := Some (codes ?n)\<rparr>), Inr (Some (codes ?n)))"
      using e [of "[]"] t(1) u(1) by (simp add: act_bind_def finish_run_def print_exit_code_def)
    show "run_loop False w (line_nodes (ds, c) ((k, j) # r)) s =
      (if k = CPipe then run_loop False w (line_nodes j r) (t\<lparr>rn_pipe := True, rn_display := rn_display t @ [''|'']\<rparr>)
       else if (codes ?n = 0) = (k = CAnd)
       then run_loop False w (line_nodes j r) ((close_files u)\<lparr>rn_pipe := False, rn_piped := [], rn_display := []\<rparr>)
       else (close_files u, Inr (Some (codes ?n))))" for k j r
      using e [of "op_node k # line_nodes j r"] t(1) u(1)
      by (cases k) (simp_all add: act_bind_def after_operator_def print_exit_code_def Let_def)
  qed (use t u c in \<open>simp_all add: close_files_def\<close>)
qed

lemma run_line:
  assumes "world_ok w codes" and "cmd_stdout (snd i) \<noteq> Some STDOUT" and "\<forall>(k, j) \<in> set r. cmd_stdout (snd j) \<noteq> Some STDOUT"
  shows "\<exists>t. run_loop False w (line_nodes i r) s = (t, Inr (Some (fst (shell_eval codes (rn_started s) (map fst r)))))
    \<and> started (rn_trace t) = started (rn_trace s)
        @ take (snd (shell_eval codes (rn_started s) (map fst r)) - rn_started s) (line_procs (rn_cwd s) i r)"
  using assms(2,3)
proof (induction r arbitrary: i s)
  case Nil
  obtain ds c where i: "i = (ds, c)" by (cases i)
  have c: "cmd_stdout c \<noteq> Some STDOUT" using Nil i by simp
  obtain u where "started (rn_trace u) = started (rn_trace s) @ [(cmd_argv c, proc_cwd (foldl path_join (rn_cwd s) ds))]"
    "run_loop False w (line_nodes (ds, c) []) s = (u, Inr (Some (codes (rn_started s))))"
    using run_head [OF assms(1) c] by metis
  then show ?case unfolding i by (simp add: Let_def)
next
  case (Cons x r)
  obtain k j where x: "x = (k, j)" by (cases x)
  obtain ds c where i: "i = (ds, c)" by (cases i)
  have c: "cmd_stdout c \<noteq> Some STDOUT" using Cons.prems i by simp
  let ?n = "rn_started s"
  have j: "cmd_stdout (snd j) \<noteq> Some STDOUT" "\<forall>(k, j) \<in> set r. cmd_stdout (snd j) \<noteq> Some STDOUT"
    using Cons.prems x by auto
  have tk: "take (snd (shell_eval codes (Suc ?n) (map fst r)) - ?n) (y # ys)
      = y # take (snd (shell_eval codes (Suc ?n) (map fst r)) - Suc ?n) ys" for y ys
    using shell_eval_gt [of "Suc ?n" codes "map fst r"] by (intro take_step) simp
  from run_head [OF assms(1) c, of s ds] show ?case
  proof cases
    case (1 t u f)
    note ih1 = Cons.IH [OF j, of t] and ih2 = Cons.IH [OF j, of "u\<lparr>rn_pipe := False, rn_piped := [], rn_display := []\<rparr>"]
    show ?thesis unfolding x i "1"(8)
      using "1"(1-6) ih1 ih2 by (cases k) (auto simp: Let_def tk)
  qed
qed

text \<open>
  C8: Running refines the abstract meaning of the command line.  When files open and processes start,
  the result is the one the abstract evaluation gives, and the processes started are the first ones of
  the line, in order, each with its words and in its directory, as many as the evaluation says.
\<close>
theorem run_refines:
  assumes "world_ok w codes" and "cmd_stdout (snd i) \<noteq> Some STDOUT" and "\<forall>(k, j) \<in> set r. cmd_stdout (snd j) \<noteq> Some STDOUT"
    and "shell_eval codes 0 (map fst r) = (v, n)"
  shows "snd (run False w (line_nodes i r)) = Inr (Some v)
    \<and> started (rn_trace (fst (run False w (line_nodes i r)))) = take n (line_procs ''.'' i r)"
  using run_line [OF assms(1-3), of init_runner] assms(4) by (auto simp: run_def init_runner_def)

section \<open>Files\<close>

definition opened :: "sh_event list \<Rightarrow> stream list" where
  "opened tr = List.map_filter (\<lambda>e. case e of Opened f \<Rightarrow> Some f | _ \<Rightarrow> None) tr"

definition closed :: "sh_event list \<Rightarrow> stream list" where
  "closed tr = List.map_filter (\<lambda>e. case e of Closed f \<Rightarrow> Some f | _ \<Rightarrow> None) tr"

lemma opened_closed_append [simp]:
  "opened (a @ b) = opened a @ opened b" "closed (a @ b) = closed a @ closed b"
  by (simp_all add: opened_def closed_def map_filter_def)

lemma opened_closed_one [simp]:
  "opened [e] = (case e of Opened f \<Rightarrow> [f] | _ \<Rightarrow> [])" "closed [e] = (case e of Closed f \<Rightarrow> [f] | _ \<Rightarrow> [])"
  "opened [] = []" "closed [] = []"
  by (simp_all add: opened_def closed_def map_filter_def split: sh_event.splits)

lemma opened_closed_map [simp]:
  "opened (map Closed fs) = []" "closed (map Closed fs) = fs"
  "opened (map (\<lambda>(i, _, _). Waited i) ps) = []" "closed (map (\<lambda>(i, _, _). Waited i) ps) = []"
  by (auto simp: opened_def closed_def map_filter_def filter_empty_conv comp_def)

text \<open>The files opened so far are those closed again and those to be closed.\<close>

definition balanced :: "runner \<Rightarrow> bool" where
  "balanced s \<longleftrightarrow> mset (opened (rn_trace s)) = mset (closed (rn_trace s)) + mset (filter (\<lambda>f. f \<noteq> DevNull) (rn_files s))
     \<and> DevNull \<notin> set (opened (rn_trace s))"

definition settled :: "runner \<Rightarrow> bool" where
  "settled s \<longleftrightarrow> balanced s \<and> rn_files s = []"

lemma choose_balanced:
  assumes "balanced s"
  shows "choose_stdin v w c s = (t, Inr st) \<Longrightarrow> balanced t"
    and "choose_stdout v w c s = (t, Inr st) \<Longrightarrow> balanced t"
    and "choose_stderr v w c s = (t, Inr st) \<Longrightarrow> balanced t"
  using assms
  by (auto simp: choose_stdin_def choose_stdout_def choose_stderr_def act_bind_def open_in_file_def open_out_file_def
      log_event_def show_part_def remember_file_def balanced_def
      split: option.splits target.splits prod.splits if_splits)

lemma act_bind_eq_Inr: "act_bind m f s = (t, Inr y) \<longleftrightarrow> (\<exists>u x. m s = (u, Inr x) \<and> f x u = (t, Inr y))"
  by (auto simp: act_bind_def split: prod.splits sum.splits)

lemma start_balanced:
  assumes "start_command v w c s = (t, Inr ())" and "balanced s"
  shows "balanced t"
proof -
  let ?s = "show_part v (command_text c) s"
  from assms(1) obtain t1 i t2 j t3 k where 1: "choose_stdin v w c ?s = (t1, Inr i)"
    and 2: "choose_stdout v w c t1 = (t2, Inr j)" and 3: "choose_stderr v w c t2 = (t3, Inr k)"
    and t: "(let p = \<lparr>pr_argv = cmd_argv c, pr_stdin = i, pr_stdout = j, pr_stderr = k,
                 pr_env = command_env w c, pr_cwd = (if rn_cwd t3 = ''.'' then None else Some (rn_cwd t3))\<rparr>
        in case w_popen w (rn_started t3) p of
             Inl e \<Rightarrow> (t3, Inl e)
           | Inr code \<Rightarrow>
               (log_event (Started (rn_started t3) p)
                  (t3\<lparr>rn_piped := rn_piped t3 @ [(rn_started t3, code, j = NewPipe)],
                     rn_started := rn_started t3 + 1\<rparr>), Inr ())) = (t, Inr ())"
    unfolding start_command_def act_bind_eq_Inr by blast
  have "balanced ?s" using assms(2) by (simp add: show_part_def balanced_def)
  from choose_balanced(1) [OF this 1] have "balanced t1" .
  from choose_balanced(2) [OF this 2] have "balanced t2" .
  from choose_balanced(3) [OF this 3] have "balanced t3" .
  with t show ?thesis by (auto simp: Let_def log_event_def balanced_def split: sum.splits)
qed

lemma wait_balanced: "wait_piped s = (t, r) \<Longrightarrow> balanced s \<Longrightarrow> balanced t"
  by (auto simp: wait_piped_def Let_def balanced_def)

lemma close_settled: "balanced s \<Longrightarrow> settled (close_files s)"
  by (simp add: close_files_def balanced_def settled_def)

lemma print_settled: "print_exit_code v m s = (t, r) \<Longrightarrow> settled s \<Longrightarrow> settled t"
  by (auto simp: print_exit_code_def log_event_def settled_def balanced_def split: if_splits option.splits)

lemma settled_reset: "settled u \<Longrightarrow> balanced (u\<lparr>rn_pipe := False, rn_piped := [], rn_display := []\<rparr>)"
  by (simp add: settled_def balanced_def)

lemma after_operator_settled:
  assumes "after_operator v op stops continue s = (t, Inr (Some x))" and "balanced s"
    and "\<And>u. continue u = (t, Inr (Some x)) \<Longrightarrow> balanced u \<Longrightarrow> settled t"
  shows "settled t"
proof -
  let ?m = "\<lambda>r. '' ('' @ op @ (if stops r then '' is short-circuited)'' else '' proceeds)'')"
  from assms(1) obtain u r where u: "wait_piped s = (u, Inr r)"
    and b: "(if stops r then act_bind (print_exit_code v (?m r)) (\<lambda>_ s. (s, Inr (Some r))) (close_files u)
             else act_bind (print_exit_code v (?m r))
               (\<lambda>_ s. continue (s\<lparr>rn_pipe := False, rn_piped := [], rn_display := []\<rparr>)) (close_files u)) = (t, Inr (Some x))"
    unfolding after_operator_def act_bind_eq_Inr [of wait_piped] Let_def by (auto cong: if_cong)
  from b obtain f where p: "print_exit_code v (?m r) (close_files u) = (f, Inr ())"
    and c: "f = t \<or> continue (f\<lparr>rn_pipe := False, rn_piped := [], rn_display := []\<rparr>) = (t, Inr (Some x))"
    by (auto simp: act_bind_eq_Inr split: if_splits)
  have "settled f" by (rule print_settled [OF p close_settled [OF wait_balanced [OF u assms(2)]]])
  with c assms(3) settled_reset show ?thesis by blast
qed

lemma finish_settled:
  assumes "finish_run v s = (t, Inr x)" and "balanced s"
  shows "settled t"
proof -
  from assms(1) obtain u r where u: "wait_piped s = (u, Inr r)"
    and e: "(case print_exit_code v [] (u\<lparr>rn_retval := Some r\<rparr>) of
               (s, q) \<Rightarrow> (close_files s, map_sum id (\<lambda>_. Some r) q)) = (t, Inr x)"
    unfolding finish_run_def act_bind_eq_Inr by blast
  obtain f q where f: "print_exit_code v [] (u\<lparr>rn_retval := Some r\<rparr>) = (f, q)"
    by (cases "print_exit_code v [] (u\<lparr>rn_retval := Some r\<rparr>)")
  with e have t: "t = close_files f" by simp
  have "balanced (u\<lparr>rn_retval := Some r\<rparr>)" using wait_balanced [OF u assms(2)] by (simp add: balanced_def)
  with f have "balanced f" by (auto simp: print_exit_code_def log_event_def balanced_def split: if_splits)
  then show ?thesis unfolding t by (rule close_settled)
qed

lemma run_loop_settled:
  assumes "run_loop v w nodes s = (t, Inr (Some x))" and "balanced s"
  shows "settled t"
  using assms
proof (induction nodes arbitrary: s rule: length_induct)
  case (1 nodes)
  have ih: "settled t" if "run_loop v w ys u = (t, Inr (Some x))" "balanced u" "length ys < length nodes" for ys u
    using 1(1) that by blast
  note run = "1.prems"(1) and bal = "1.prems"(2)
  show ?case
  proof (cases nodes)
    case Nil
    with run show ?thesis by simp
  next
    case (Cons n rest)
    show ?thesis
    proof (cases n)
      case (Command c)
      from run obtain u where u: "start_command v w c s = (u, Inr ())" and r: "(case rest of [] \<Rightarrow> finish_run v u
          | op # rest' \<Rightarrow>
              if op = Pipe then run_loop v w rest' (u\<lparr>rn_pipe := True, rn_display := rn_display u @ [''|'']\<rparr>)
              else if op = Or then after_operator v ''||'' (\<lambda>r. r = 0) (run_loop v w rest') u
              else if op = And then after_operator v ''&&'' (\<lambda>r. r \<noteq> 0) (run_loop v w rest') u
              else run_loop v w rest' u) = (t, Inr (Some x))"
        unfolding Cons Command run_loop.simps act_bind_eq_Inr by auto
      have b: "balanced u" by (rule start_balanced [OF u bal])
      then have b': "balanced (u\<lparr>rn_pipe := True, rn_display := rn_display u @ [''|'']\<rparr>)" by (simp add: balanced_def)
      show ?thesis
      proof (cases rest)
        case Nil
        with r finish_settled [OF _ b] show ?thesis by simp
      next
        fix op rest' assume rest: "rest = op # rest'"
        have ih': "settled t" if "run_loop v w rest' z = (t, Inr (Some x))" "balanced z" for z
          by (rule ih [OF that]) (simp add: Cons rest)
        from r after_operator_settled [OF _ b ih'] ih' [OF _ b] ih' [OF _ b'] show ?thesis
          unfolding rest by (simp split: if_splits)
      qed
    next
      case (Chdir d)
      from run obtain dir rest' where "rest = And # rest'"
        "run_loop v w rest' (show_part v (''cd '' @ dir @ '' &&'') (s\<lparr>rn_cwd := path_join (rn_cwd s) dir\<rparr>)) = (t, Inr (Some x))"
        unfolding Cons Chdir by (auto split: list.splits if_splits option.splits)
      moreover have "balanced (show_part v (''cd '' @ dir @ '' &&'') (s\<lparr>rn_cwd := path_join (rn_cwd s) dir\<rparr>))"
        using bal by (simp add: balanced_def show_part_def)
      ultimately show ?thesis using ih Cons by simp
    qed (use run Cons in simp_all)
  qed
qed

text \<open>
  C11: Whatever the world does, a run that returns an exit code has closed every file it opened, once
  each; the null device is never closed.
\<close>
theorem run_closes_files:
  assumes "run v w nodes = (s, Inr (Some x))"
  shows "mset (closed (rn_trace s)) = mset (opened (rn_trace s)) \<and> DevNull \<notin> set (closed (rn_trace s))"
proof -
  have "settled s"
    by (rule run_loop_settled [OF assms [unfolded run_def]]) (simp add: balanced_def init_runner_def)
  then have m: "mset (closed (rn_trace s)) = mset (opened (rn_trace s))" and "DevNull \<notin> set (opened (rn_trace s))"
    by (simp_all add: settled_def balanced_def)
  with mset_eq_setD [OF m] show ?thesis by simp
qed

section \<open>Verbose runs\<close>

text \<open>
  A verbose run goes through the pipe at the start of the line.  If the line is no more than that pipe,
  it ends with the code of the last process and one message; otherwise it raises at the operator.
\<close>

definition pipe_length :: "(connective \<times> item) list \<Rightarrow> nat" where
  "pipe_length r = Suc (length (takeWhile (\<lambda>k. k = CPipe) (map fst r)))"

definition only_pipes :: "(connective \<times> item) list \<Rightarrow> bool" where
  "only_pipes r \<longleftrightarrow> set (map fst r) \<subseteq> {CPipe}"

definition verbose_end :: "int \<Rightarrow> bool \<Rightarrow> string list \<Rightarrow> int option res \<Rightarrow> runner \<Rightarrow> bool" where
  "verbose_end code whole before res t \<longleftrightarrow> settled t
     \<and> (if whole
        then res = Inr (Some code)
          \<and> (\<exists>d. printed (rn_trace t) = before @ [d @ '': exit code '' @ show_int code])
        else res = Inl UnboundLocalError \<and> printed (rn_trace t) = before)"

lemma finish_verbose:
  assumes "rn_piped s \<noteq> []" and "balanced s"
  obtains t res where "finish_run True s = (t, res)"
    and "verbose_end (fst (snd (last (rn_piped s)))) True (printed (rn_trace s)) res t" and "started (rn_trace t) = started (rn_trace s)"
proof -
  let ?code = "fst (snd (last (rn_piped s)))"
  from wait_piped_ok [OF assms(1)] obtain u where u: "wait_piped s = (u, Inr ?code)"
    "printed (rn_trace u) = printed (rn_trace s)" "started (rn_trace u) = started (rn_trace s)" by blast
  let ?m = "py_join '' '' (rn_display u) @ '': exit code '' @ show_int ?code"
  let ?t = "close_files (log_event (Printed ?m) (u\<lparr>rn_retval := Some ?code\<rparr>))"
  have t: "finish_run True s = (?t, Inr (Some ?code))"
    using u(1) by (simp add: finish_run_def act_bind_def print_exit_code_def)
  have "printed (rn_trace ?t) = printed (rn_trace s) @ [?m]" "started (rn_trace ?t) = started (rn_trace s)"
    using u(2,3) by (simp_all add: log_event_def close_files_def)
  with finish_settled [OF t assms(2)] t show thesis
    by (intro that [of ?t "Inr (Some ?code)"]) (auto simp: verbose_end_def)
qed

lemma operator_verbose:
  assumes "rn_piped s \<noteq> []" and "balanced s" and "rn_retval s = None"
  obtains t res where "after_operator True op stops continue s = (t, res)"
    and "verbose_end code False (printed (rn_trace s)) res t" and "started (rn_trace t) = started (rn_trace s)"
proof -
  from wait_piped_ok [OF assms(1)] obtain u code where u: "wait_piped s = (u, Inr code)" "rn_retval u = rn_retval s"
    "printed (rn_trace u) = printed (rn_trace s)" "started (rn_trace u) = started (rn_trace s)" by blast
  have "settled (close_files u)" by (rule close_settled [OF wait_balanced [OF u(1) assms(2)]])
  with u assms(3) show thesis
    by (intro that [of "close_files u" "Inl UnboundLocalError"])
       (simp_all add: after_operator_def act_bind_def print_exit_code_def close_files_def verbose_end_def Let_def)
qed

lemma run_verbose:
  assumes "world_ok w codes" and "cmd_stdout (snd i) \<noteq> Some STDOUT" and "\<forall>(k, j) \<in> set r. cmd_stdout (snd j) \<noteq> Some STDOUT"
    and "rn_retval s = None" and "balanced s"
  shows "\<exists>t res. run_loop True w (line_nodes i r) s = (t, res)
    \<and> verbose_end (codes (rn_started s + length r)) (only_pipes r) (printed (rn_trace s)) res t
    \<and> started (rn_trace t) = started (rn_trace s) @ take (pipe_length r) (line_procs (rn_cwd s) i r)"
  using assms(2-5)
proof (induction r arbitrary: i s)
  case Nil
  obtain ds c where i: "i = (ds, c)" by (cases i)
  let ?s = "s\<lparr>rn_cwd := foldl path_join (rn_cwd s) ds, rn_display := rn_display s @ map (\<lambda>d. ''cd '' @ d @ '' &&'') ds\<rparr>"
  from start_command_ok [OF assms(1), of c True ?s] Nil i obtain t b where
    t: "start_command True w c ?s = (t, Inr ())" "rn_piped t = rn_piped s @ [(rn_started s, codes (rn_started s), b)]"
    "started (rn_trace t) = started (rn_trace s) @ [(cmd_argv c, proc_cwd (rn_cwd ?s))]"
    "printed (rn_trace t) = printed (rn_trace s)" by auto
  have b: "balanced t" by (rule start_balanced [OF t(1)]) (use Nil in \<open>simp add: balanced_def\<close>)
  from finish_verbose [of t] b t(2) obtain u res where "finish_run True t = (u, res)"
    "verbose_end (codes (rn_started s)) True (printed (rn_trace t)) res u" "started (rn_trace u) = started (rn_trace t)" by auto
  with t run_item_dirs [of True w ds c "[]" s] show ?case
    by (simp add: i act_bind_def only_pipes_def pipe_length_def Let_def)
next
  case (Cons x r)
  obtain k j where x: "x = (k, j)" by (cases x)
  obtain ds c where i: "i = (ds, c)" by (cases i)
  let ?s = "s\<lparr>rn_cwd := foldl path_join (rn_cwd s) ds, rn_display := rn_display s @ map (\<lambda>d. ''cd '' @ d @ '' &&'') ds\<rparr>"
  from start_command_ok [OF assms(1), of c True ?s] Cons.prems i obtain t b where
    t: "start_command True w c ?s = (t, Inr ())" "rn_piped t = rn_piped s @ [(rn_started s, codes (rn_started s), b)]"
    "started (rn_trace t) = started (rn_trace s) @ [(cmd_argv c, proc_cwd (rn_cwd ?s))]"
    "printed (rn_trace t) = printed (rn_trace s)" "rn_retval t = None" "rn_started t = Suc (rn_started s)"
    "rn_cwd t = rn_cwd ?s" by auto
  have b: "balanced t" by (rule start_balanced [OF t(1)]) (use Cons.prems in \<open>simp add: balanced_def\<close>)
  have e: "run_loop True w (line_nodes i (x # r)) s = run_loop True w (Command c # op_node k # line_nodes j r) ?s"
    using run_item_dirs [of True w ds c "op_node k # line_nodes j r" s] x i by simp
  let ?t = "t\<lparr>rn_pipe := True, rn_display := rn_display t @ [''|'']\<rparr>"
  show ?case
  proof (cases "k = CPipe")
    case True
    have "\<exists>u res. run_loop True w (line_nodes j r) ?t = (u, res)
      \<and> verbose_end (codes (rn_started ?t + length r)) (only_pipes r) (printed (rn_trace ?t)) res u
      \<and> started (rn_trace u) = started (rn_trace ?t) @ take (pipe_length r) (line_procs (rn_cwd ?t) j r)"
      by (rule Cons.IH) (use Cons.prems x b t in \<open>auto simp: balanced_def\<close>)
    then obtain u res where "run_loop True w (line_nodes j r) ?t = (u, res)"
      "verbose_end (codes (rn_started ?t + length r)) (only_pipes r) (printed (rn_trace ?t)) res u"
      "started (rn_trace u) = started (rn_trace ?t) @ take (pipe_length r) (line_procs (rn_cwd ?t) j r)" by blast
    with t True show ?thesis unfolding e
      by (intro exI [of _ u] exI [of _ res])
         (simp add: act_bind_def only_pipes_def pipe_length_def x i Let_def)
  next
    case False
    have p: "pipe_length (x # r) = 1" "\<not> only_pipes (x # r)" using False by (simp_all add: x pipe_length_def only_pipes_def)
    have end_op: "\<exists>u res. after_operator True op stops continue t = (u, res) \<and> verbose_end code False (printed (rn_trace t)) res u
        \<and> started (rn_trace u) = started (rn_trace t)" for op stops continue code
    proof (rule operator_verbose [of t op stops continue code])
      show "rn_piped t \<noteq> []" "balanced t" "rn_retval t = None" using b t(2,5) by simp_all
    qed blast
    from False show ?thesis unfolding e
      using t p end_op [of "''&&''"] end_op [of "''||''"]
      by (cases k) (auto simp: act_bind_def i x Let_def)
  qed
qed

text \<open>
  C12: A verbose run of a line, when files open and processes start, starts exactly the processes of
  the pipe at the start of the line, each with its words and in its directory, and closes every file
  it opened.  If that pipe is the whole line, it returns the code of the last process and prints one
  message with it.  If \<open>&&\<close> or \<open>||\<close> follows, it raises \<open>UnboundLocalError\<close> there, whatever the exit
  codes, with nothing printed and no further process started: the message reads \<open>retval\<close>, which is
  assigned only at the end of a line.
\<close>
theorem run_verbose_unbound:
  assumes "world_ok w codes" and "cmd_stdout (snd i) \<noteq> Some STDOUT" and "\<forall>(k, j) \<in> set r. cmd_stdout (snd j) \<noteq> Some STDOUT"
    and "run True w (line_nodes i r) = (s, res)"
  shows "started (rn_trace s) = take (Suc (length (takeWhile (\<lambda>k. k = CPipe) (map fst r)))) (line_procs ''.'' i r)
    \<and> mset (closed (rn_trace s)) = mset (opened (rn_trace s))
    \<and> (if set (map fst r) \<subseteq> {CPipe}
       then res = Inr (Some (codes (length r)))
         \<and> (\<exists>d. printed (rn_trace s) = [d @ '': exit code '' @ show_int (codes (length r))])
       else res = Inl UnboundLocalError \<and> printed (rn_trace s) = [])"
proof -
  have b: "balanced init_runner" "rn_retval init_runner = None" by (simp_all add: balanced_def init_runner_def)
  from run_verbose [OF assms(1-3) b(2,1)] assms(4)
  have "verbose_end (codes (length r)) (only_pipes r) [] res s"
    and "started (rn_trace s) = take (pipe_length r) (line_procs ''.'' i r)"
    by (simp_all add: run_def init_runner_def started_def map_filter_def)
  then show ?thesis
    by (auto simp: verbose_end_def only_pipes_def pipe_length_def settled_def balanced_def init_runner_def)
qed

section \<open>Examples\<close>

definition sample_world :: "(nat \<Rightarrow> int) \<Rightarrow> world" where
  "sample_world codes = \<lparr>w_environ = [(''HOME'', ''/root'')], w_readable = (\<lambda>_. True), w_writable = (\<lambda>_. True),
                         w_popen = (\<lambda>n _. Inr (codes n))\<rparr>"

lemma sample_world_ok: "world_ok (sample_world codes) codes"
  by (simp add: world_ok_def sample_world_def)

definition sample_first :: item where
  "sample_first = ([''build''], (new_command ''./foo'')\<lparr>cmd_argv := [''./foo'', ''-v''], cmd_stdout := Some PIPE,
                   cmd_stderr := Some STDOUT, cmd_stdin := Some ''in.txt'', cmd_env_vars := Some [(''A'', ''1'')]\<rparr>)"

definition sample_rest :: "(connective \<times> item) list" where
  "sample_rest = [(CPipe, ([], new_command ''cat'')), (CAnd, ([], (new_command ''ls'')\<lparr>cmd_stdout := Some (ToFile ''out'')\<rparr>))]"

lemmas sample_defs = sample_first_def sample_rest_def new_command_def

lemma sample_line_ok: "line_ok sample_first sample_rest"
  by (simp add: sample_defs written_ok_def command_ok_def env_var_match_def name_char_def special_token_def assignment_ok_def
      is_space_def)

lemma sample_tokens: "line_tokens sample_first sample_rest =
    [''cd'', ''build'', ''&&'', ''A=1'', ''./foo'', ''-v'', ''<'', ''in.txt'', ''2>&1'', ''|'', ''cat'', ''&&'', ''ls'', ''>'', ''out'']"
  by (simp add: sample_defs command_tokens_def redirections_def)

theorem parse_roundtrip_witness:
  "parse (Inr ''cd build && A=1 ./foo -v < in.txt 2>&1 | cat && ls > out'') = Inr (line_nodes sample_first sample_rest)"
proof -
  have "\<forall>t \<in> set (line_tokens sample_first sample_rest). plain_word t"
    by (simp add: sample_tokens plain_word_def lex_blank_def)
  from parse_roundtrip [OF sample_line_ok this] show ?thesis by (simp add: sample_tokens)
qed

theorem run_refines_witness:
  "snd (run False (sample_world (\<lambda>n. if n = 1 then 3 else 0)) (line_nodes sample_first sample_rest)) = Inr (Some 3)"
  using run_refines [OF sample_world_ok, of sample_first sample_rest "\<lambda>n. if n = 1 then 3 else 0" 3 2]
  by (simp add: sample_defs)

theorem run_closes_files_witness:
  "let (s, r) = run False (sample_world (\<lambda>_. 0)) (line_nodes sample_first sample_rest)
   in r = Inr (Some 0) \<and> mset (closed (rn_trace s)) = mset (opened (rn_trace s))"
proof -
  have "snd (run False (sample_world (\<lambda>_. 0)) (line_nodes sample_first sample_rest)) = Inr (Some 0)"
    using run_line [OF sample_world_ok, of sample_first sample_rest "\<lambda>_. 0" init_runner]
    by (auto simp: sample_defs run_def)
  then obtain s where s: "run False (sample_world (\<lambda>_. 0)) (line_nodes sample_first sample_rest) = (s, Inr (Some 0))"
    by (metis prod.collapse)
  with run_closes_files [OF s] show ?thesis by simp
qed

theorem run_verbose_unbound_witness:
  "let (s, r) = run True (sample_world (\<lambda>_. 0)) (line_nodes sample_first sample_rest)
   in r = Inl UnboundLocalError \<and> started (rn_trace s) = [([''./foo'', ''-v''], Some ''./build''), ([''cat''], Some ''./build'')]"
proof -
  obtain s r where r: "run True (sample_world (\<lambda>_. 0)) (line_nodes sample_first sample_rest) = (s, r)"
    by (cases "run True (sample_world (\<lambda>_. 0)) (line_nodes sample_first sample_rest)")
  have "cmd_stdout (snd sample_first) \<noteq> Some STDOUT" "\<forall>(k, j) \<in> set sample_rest. cmd_stdout (snd j) \<noteq> Some STDOUT"
    by (simp_all add: sample_defs)
  from run_verbose_unbound [OF sample_world_ok this r]
  have "r = Inl UnboundLocalError \<and> started (rn_trace s) = take 2 (line_procs ''.'' sample_first sample_rest)"
    by (simp add: sample_rest_def numeral_2_eq_2)
  moreover have "take 2 (line_procs ''.'' sample_first sample_rest)
      = [([''./foo'', ''-v''], Some ''./build''), ([''cat''], Some ''./build'')]" by code_simp
  ultimately show ?thesis unfolding r by simp
qed

text \<open>In a shell \<open>true || b && c\<close> runs \<open>c\<close>; here the line ends at \<open>||\<close>.\<close>

lemma or_ends_line: "shell_eval (\<lambda>_. 0) 0 [COr, CAnd] = (0, 1)"
  by simp

text \<open>A redirection without a file is dropped without notice.\<close>

lemma missing_file_accepted: "parse_tokens [''ls'', ''>''] = Inr [Command (new_command ''ls'')]"
  by (simp add: parse_tokens_def parse_token_def parse_begin_def parse_command_def init_parser_def commit_command_def
      env_var_match_def name_char_def)

text \<open>The abbreviation of a line leaves out \<open>||\<close>.\<close>

lemma abbreviation_drops_or:
  "get_abbreviated_command [Command (new_command ''a''), Or, Command (new_command ''b'')] = ''a b''"
  by (simp add: get_abbreviated_command_def new_command_def)

end
