(* ===== verification/Waf_Command.thy ===== *)
theory Waf_Command
  imports Shellcmd
begin

text \<open>
  \<^verbatim>\<open>waf-tools/command.py\<close>: the build task that runs a command line.  Every word of the parsed line may
  refer to variables of the build; the references are replaced, then the line is run.  The Python
  expression in a reference is evaluated by \<open>eval\<close>, an argument here; files of the build are known by
  their two paths.
\<close>

section \<open>References in a word\<close>

record build_node =
  bn_srcpath :: string
  bn_bld_abspath :: string
  bn_bldpath :: string

text \<open>What evaluating a reference can give; the lists of inputs and outputs are recognised by identity.\<close>

datatype subst_value =
    VNode build_node
  | VInputs
  | VOutputs
  | VList "string list"
  | VStr string
  | VOther

definition word_char :: "char \<Rightarrow> bool" where
  "word_char c \<longleftrightarrow> name_char c"

text \<open>The function \<open>repl\<close> for a match that is a reference.\<close>

definition replace_reference ::
    "(string \<Rightarrow> subst_value res) \<Rightarrow> build_node list \<Rightarrow> build_node list \<Rightarrow> string \<Rightarrow> string \<Rightarrow> string res" where
  "replace_reference eval_in inputs outputs var code =
     res_bind (eval_in (var @ code)) (\<lambda>r. case r of
       VNode n \<Rightarrow>
         if var = ''TGT'' then Inr (bn_bld_abspath n)
         else if var = ''SRC'' then Inr (bn_srcpath n)
         else Inl (ValueError (''Bad subst variable '' @ [SQ] @ var @ [SQ]))
     | VInputs \<Rightarrow>
         (case inputs of [n] \<Rightarrow> Inr (bn_srcpath n)
          | _ \<Rightarrow> Inl (ValueError ''${SRC} requested but have multiple sources; which one?''))
     | VOutputs \<Rightarrow>
         (case outputs of [n] \<Rightarrow> Inr (bn_bld_abspath n)
          | _ \<Rightarrow> Inl (ValueError ''${TGT} requested but have multiple targets; which one?''))
     | VList l \<Rightarrow> (case l of [x] \<Rightarrow> Inr x | _ \<Rightarrow> Inl AssertionError)
     | VStr x \<Rightarrow> Inr x
     | VOther \<Rightarrow> Inl TypeError)"

text \<open>
  The pattern \<open>arg_rx\<close> after an opening brace: a longest run of word characters and then the shortest
  text up to a closing brace on the same line.
\<close>

definition match_reference :: "string \<Rightarrow> (string \<times> string \<times> string) option" where
  "match_reference s =
     (let var = takeWhile word_char s; rest = dropWhile word_char s;
          code = takeWhile (\<lambda>c. c \<noteq> CHR ''}'' \<and> c \<noteq> NL) rest; after = dropWhile (\<lambda>c. c \<noteq> CHR ''}'' \<and> c \<noteq> NL) rest
      in if var \<noteq> [] \<and> prefix ''}'' after then Some (var, code, tl after) else None)"

lemma match_reference_length:
  assumes "match_reference s = Some (v, c, r)"
  shows "length r < length s"
proof -
  let ?a = "dropWhile (\<lambda>c. c \<noteq> CHR ''}'' \<and> c \<noteq> NL) (dropWhile word_char s)"
  from assms have r: "r = tl ?a" and n: "prefix ''}'' ?a"
    unfolding match_reference_def Let_def by (simp_all split: if_split_asm)
  have "length ?a \<le> length s" by (rule order_trans [OF length_dropWhile_le length_dropWhile_le])
  moreover have "?a \<noteq> []" using n by (metis list.discI prefix_bot.extremum_uniqueI)
  then have "0 < length ?a" by (rule length_greater_0_conv [THEN iffD2])
  ultimately show ?thesis unfolding r length_tl by linarith
qed

text \<open>\<open>arg_rx.sub(repl, arg)\<close>: matches from left to right that do not overlap.\<close>

function subst_arg :: "(string \<Rightarrow> string \<Rightarrow> string res) \<Rightarrow> string \<Rightarrow> string res" where
  "subst_arg repl s = (case s of
     [] \<Rightarrow> Inr []
   | c # rest \<Rightarrow>
       if c = CHR ''$'' \<and> prefix ''$'' rest then res_bind (subst_arg repl (tl rest)) (\<lambda>t. Inr (CHR ''$'' # t))
       else if c = CHR ''$'' \<and> prefix ''{'' rest then
         (case match_reference (tl rest) of
            Some (var, code, after) \<Rightarrow>
              res_bind (repl var code) (\<lambda>x. res_bind (subst_arg repl after) (\<lambda>t. Inr (x @ t)))
          | None \<Rightarrow> res_bind (subst_arg repl rest) (\<lambda>t. Inr (c # t)))
       else res_bind (subst_arg repl rest) (\<lambda>t. Inr (c # t)))"
  by pat_completeness auto
termination
  by (relation "measure (\<lambda>(repl, s). length s)") (auto dest!: match_reference_length)

declare subst_arg.simps [simp del]

section \<open>The task\<close>

record command_task =
  ct_command :: "string list + string"
  ct_inputs :: "build_node list"
  ct_outputs :: "build_node list"

definition task_text :: "command_task \<Rightarrow> string res" where
  "task_text t =
     (let src_str = py_join '' '' (map bn_bldpath (ct_inputs t));
          tgt_str = py_join '' '' (map bn_bldpath (ct_outputs t));
          sep = (if ct_outputs t \<noteq> [] then '' -> '' else [])
      in res_bind (parse (ct_command t)) (\<lambda>nodes.
           Inr (''command ('' @ get_abbreviated_command nodes @ ''): '' @ src_str @ sep @ tgt_str)))"

definition subst_target :: "(string \<Rightarrow> string res) \<Rightarrow> target option \<Rightarrow> target option res" where
  "subst_target sub t = (case t of Some (ToFile f) \<Rightarrow> res_bind (sub f) (\<lambda>g. Inr (Some (ToFile g))) | _ \<Rightarrow> Inr t)"

definition subst_command :: "(string \<Rightarrow> string res) \<Rightarrow> command \<Rightarrow> command res" where
  "subst_command sub c =
     res_bind (case cmd_stdin c of None \<Rightarrow> Inr None | Some f \<Rightarrow> res_bind (sub f) (\<lambda>g. Inr (Some g))) (\<lambda>stdin.
     res_bind (subst_target sub (cmd_stdout c)) (\<lambda>stdout.
     res_bind (subst_target sub (cmd_stderr c)) (\<lambda>stderr.
     res_bind (res_map sub (cmd_argv c)) (\<lambda>argv.
     res_bind (case cmd_env_vars c of
                 None \<Rightarrow> Inr None
               | Some kvs \<Rightarrow> res_bind (res_map (\<lambda>(k, v). res_bind (sub v) (\<lambda>x. Inr (k, x))) kvs) (\<lambda>r. Inr (Some r))) (\<lambda>env_vars.
       Inr (c\<lparr>cmd_stdin := stdin, cmd_stdout := stdout, cmd_stderr := stderr, cmd_argv := argv,
              cmd_env_vars := env_vars\<rparr>))))))"

fun subst_node :: "(string \<Rightarrow> string res) \<Rightarrow> node \<Rightarrow> node res" where
  "subst_node sub (Command c) = res_bind (subst_command sub c) (\<lambda>c. Inr (Command c))"
| "subst_node sub (Chdir d) = (case d of None \<Rightarrow> Inl TypeError | Some s \<Rightarrow> res_bind (sub s) (\<lambda>t. Inr (Chdir (Some t))))"
| "subst_node sub n = Inr n"

text \<open>\<open>command.run\<close>; \<open>eval_in\<close> evaluates in the merged environment with \<open>SRC\<close> and \<open>TGT\<close>.\<close>

definition run_task :: "(string \<Rightarrow> subst_value res) \<Rightarrow> int \<Rightarrow> world \<Rightarrow> command_task \<Rightarrow> (runner \<times> int option res) res" where
  "run_task eval_in verbosity w t =
     res_bind (parse (ct_command t)) (\<lambda>nodes.
     res_bind (res_map (subst_node (subst_arg (replace_reference eval_in (ct_inputs t) (ct_outputs t)))) nodes) (\<lambda>nodes.
       Inr (run (verbosity > 0) w nodes)))"

section \<open>Replacing references\<close>

text \<open>A word as a sequence of literal text, doubled dollar signs and references.\<close>

datatype piece = Literal string | Dollar | Reference string string

fun piece_text :: "piece \<Rightarrow> string" where
  "piece_text (Literal s) = s"
| "piece_text Dollar = ''$$''"
| "piece_text (Reference var code) = ''${'' @ var @ code @ ''}''"

fun piece_value :: "(string \<Rightarrow> string \<Rightarrow> string res) \<Rightarrow> piece \<Rightarrow> string res" where
  "piece_value repl (Literal s) = Inr s"
| "piece_value repl Dollar = Inr ''$''"
| "piece_value repl (Reference var code) = repl var code"

fun piece_ok :: "piece \<Rightarrow> bool" where
  "piece_ok (Literal s) \<longleftrightarrow> CHR ''$'' \<notin> set s"
| "piece_ok Dollar \<longleftrightarrow> True"
| "piece_ok (Reference var code) \<longleftrightarrow> var \<noteq> [] \<and> (\<forall>c \<in> set var. word_char c)
     \<and> (code = [] \<or> \<not> word_char (hd code)) \<and> (\<forall>c \<in> set code. c \<noteq> CHR ''}'' \<and> c \<noteq> NL)"

lemma subst_arg_literal: "CHR ''$'' \<notin> set s \<Longrightarrow> subst_arg repl (s @ t) = res_bind (subst_arg repl t) (\<lambda>u. Inr (s @ u))"
proof (induction s)
  case Nil
  show ?case by (cases "subst_arg repl t") simp_all
next
  case (Cons c s)
  then have "subst_arg repl ((c # s) @ t) = res_bind (subst_arg repl (s @ t)) (\<lambda>u. Inr (c # u))"
    by (subst subst_arg.simps) auto
  with Cons show ?case by (simp add: res_bind_assoc)
qed

lemma subst_arg_dollar: "subst_arg repl (''$$'' @ t) = res_bind (subst_arg repl t) (\<lambda>u. Inr (CHR ''$'' # u))"
  by (subst subst_arg.simps) simp

lemma match_reference_written:
  assumes "piece_ok (Reference var code)"
  shows "match_reference (var @ code @ ''}'' @ t) = Some (var, code, t)"
proof -
  have b: "\<not> word_char (CHR ''}'')" by (simp add: word_char_def name_char_def)
  have "takeWhile word_char (var @ code @ ''}'' @ t) = var @ takeWhile word_char (code @ ''}'' @ t)"
    "dropWhile word_char (var @ code @ ''}'' @ t) = dropWhile word_char (code @ ''}'' @ t)"
    using assms by (simp_all add: takeWhile_append2 dropWhile_append2)
  moreover have "takeWhile word_char (code @ ''}'' @ t) = []" "dropWhile word_char (code @ ''}'' @ t) = code @ ''}'' @ t"
    using assms b by (cases code; simp)+
  moreover have "takeWhile (\<lambda>c. c \<noteq> CHR ''}'' \<and> c \<noteq> NL) (code @ ''}'' @ t) = code"
    "dropWhile (\<lambda>c. c \<noteq> CHR ''}'' \<and> c \<noteq> NL) (code @ ''}'' @ t) = ''}'' @ t"
    using assms by (simp_all add: takeWhile_append2 dropWhile_append2)
  ultimately show ?thesis using assms by (simp add: match_reference_def Let_def)
qed

lemma subst_arg_reference:
  assumes "piece_ok (Reference var code)"
  shows "subst_arg repl (''${'' @ var @ code @ ''}'' @ t) = res_bind (repl var code) (\<lambda>x. res_bind (subst_arg repl t) (\<lambda>u. Inr (x @ u)))"
  by (subst subst_arg.simps) (simp add: match_reference_written [OF assms, simplified])

lemma subst_arg_piece:
  assumes "piece_ok p"
  shows "subst_arg repl (piece_text p @ t) = res_bind (piece_value repl p) (\<lambda>x. res_bind (subst_arg repl t) (\<lambda>u. Inr (x @ u)))"
proof (cases p)
  case (Reference var code)
  with subst_arg_reference [of var code repl t] assms show ?thesis by simp
qed (use assms subst_arg_literal subst_arg_dollar [of repl t] in simp_all)

text \<open>
  C13: Replacing the references in a word gives the concatenation of the values of its pieces, in
  order; the first reference that cannot be replaced raises.
\<close>
theorem subst_arg_pieces:
  assumes "\<forall>p \<in> set ps. piece_ok p"
  shows "subst_arg repl (concat (map piece_text ps)) = res_bind (res_map (piece_value repl) ps) (\<lambda>xs. Inr (concat xs))"
  using assms
proof (induction ps)
  case Nil
  show ?case by (subst subst_arg.simps) simp
next
  case (Cons p ps)
  then show ?case by (simp add: subst_arg_piece res_bind_assoc)
qed

theorem subst_arg_pieces_witness:
  "subst_arg (\<lambda>v c. Inr (v @ c)) ''-o ${TGT[0]} $$x'' = Inr ''-o TGT[0] $x''"
  using subst_arg_pieces [of "[Literal ''-o '', Reference ''TGT'' ''[0]'', Literal '' '', Dollar, Literal ''x'']" "\<lambda>v c. Inr (v @ c)"]
  by (simp add: word_char_def name_char_def)

lemma subst_arg_plain: "CHR ''$'' \<notin> set s \<Longrightarrow> subst_arg repl s = Inr s"
  using subst_arg_literal [of s repl "[]"] by (simp add: subst_arg.simps [of _ "[]"])

section \<open>Running the task\<close>

fun node_words :: "node \<Rightarrow> string list" where
  "node_words (Command c) = cmd_argv c @ (case cmd_stdin c of Some f \<Rightarrow> [f] | None \<Rightarrow> [])
     @ (case cmd_stdout c of Some (ToFile f) \<Rightarrow> [f] | _ \<Rightarrow> []) @ (case cmd_stderr c of Some (ToFile f) \<Rightarrow> [f] | _ \<Rightarrow> [])
     @ (case cmd_env_vars c of Some kvs \<Rightarrow> map snd kvs | None \<Rightarrow> [])"
| "node_words (Chdir (Some d)) = [d]"
| "node_words _ = []"

lemma res_map_id: "\<forall>x \<in> set xs. f x = Inr x \<Longrightarrow> res_map f xs = Inr xs"
  by (induction xs) auto

lemma subst_node_id:
  assumes "\<forall>s \<in> set (node_words n). sub s = Inr s" and "n \<noteq> Chdir None"
  shows "subst_node sub n = Inr n"
proof (cases n)
  case (Command c)
  have "res_map sub (cmd_argv c) = Inr (cmd_argv c)" using assms Command by (intro res_map_id) auto
  moreover have "res_map (\<lambda>(k, v). res_bind (sub v) (\<lambda>x. Inr (k, x))) kvs = Inr kvs" if "cmd_env_vars c = Some kvs" for kvs
  proof (rule res_map_id, rule ballI)
    fix x assume x: "x \<in> set kvs"
    have "snd x \<in> set (node_words n)" using x that Command by auto
    with assms(1) show "(case x of (k, v) \<Rightarrow> res_bind (sub v) (\<lambda>x. Inr (k, x))) = Inr x" by (simp add: case_prod_beta)
  qed
  ultimately show ?thesis using assms(1) Command
    by (cases c) (auto simp: subst_command_def subst_target_def split: option.splits target.splits)
next
  case (Chdir d)
  with assms show ?thesis by (cases d) auto
qed simp_all

text \<open>A line without dollar signs is run as it is written.\<close>

lemma run_task_plain:
  assumes "parse (ct_command t) = Inr nodes" and "Chdir None \<notin> set nodes"
    and "\<forall>n \<in> set nodes. \<forall>s \<in> set (node_words n). CHR ''$'' \<notin> set s"
  shows "run_task eval_in v w t = Inr (run (v > 0) w nodes)"
proof -
  let ?sub = "subst_arg (replace_reference eval_in (ct_inputs t) (ct_outputs t))"
  have "res_map (subst_node ?sub) nodes = Inr nodes"
    using assms by (intro res_map_id) (auto intro!: subst_node_id simp: subst_arg_plain)
  then show ?thesis using assms(1) by (simp add: run_task_def)
qed

end
