(* ===== verification/Wutils.thy ===== *)
theory Wutils
  imports Py_Shlex Py_Path Rad_Util
begin

text \<open>
  \<^verbatim>\<open>wutils.py\<close>: how the build finds and runs a program: the command template, the search for a program
  among the tasks of the build, the environment of the process, the process itself under a debugger or
  valgrind or alone, and its exit code.  The build's objects are records of what the functions read of
  them; starting a process is an argument.  The platform is POSIX where the source asks for the
  exception \<open>WindowsError\<close>.
\<close>

section \<open>Text\<close>

text \<open>
  \<open>template % (arg,)\<close> for a string \<open>arg\<close>.  After the sign come flags, a width, a precision and a length
  letter, none of them required, and the conversion; \<open>%%\<close> is the sign itself.  A name in parentheses needs
  a mapping, a star a number, and so do the conversions for numbers; all of these raise \<open>TypeError\<close>.  The
  argument must be used exactly once.
\<close>

definition flag_char :: "char \<Rightarrow> bool" where
  "flag_char c \<longleftrightarrow> c \<in> set ''-+ #0''"

definition number_prefix :: "string \<Rightarrow> nat option \<times> string" where
  "number_prefix s = (let ds = takeWhile is_digit s in (if ds = [] then None else Some (read_nat ds), dropWhile is_digit s))"

definition after_length :: "string \<Rightarrow> string" where
  "after_length s = (case s of c # r \<Rightarrow> if c \<in> set ''hlL'' then r else s | [] \<Rightarrow> [])"

text \<open>Flags, width, precision, conversion and the rest of the template.\<close>

definition conversion :: "string \<Rightarrow> (string \<times> nat option \<times> nat option \<times> char \<times> string) res" where
  "conversion s =
     (if take 1 s = ''('' then Inl TypeError
      else let flags = takeWhile flag_char s; s = dropWhile flag_char s in
      if take 1 s = ''*'' then Inl TypeError
      else let (width, s) = number_prefix s; dot = (take 1 s = ''.'') in
      if dot \<and> take 1 (drop 1 s) = ''*'' then Inl TypeError
      else let (prec, s) = (if dot then let (p, r) = number_prefix (drop 1 s) in (Some (case p of None \<Rightarrow> 0 | Some n \<Rightarrow> n), r)
                            else (None, s)) in
      (case after_length s of [] \<Rightarrow> Inl (ValueError ''incomplete format'') | d # r \<Rightarrow> Inr (flags, width, prec, d, r)))"

definition pad_text :: "string \<Rightarrow> nat option \<Rightarrow> string \<Rightarrow> string" where
  "pad_text flags width t =
     (let blanks = replicate ((case width of None \<Rightarrow> 0 | Some n \<Rightarrow> n) - length t) (CHR '' '')
      in if CHR ''-'' \<in> set flags then t @ blanks else blanks @ t)"

definition convert :: "string \<Rightarrow> string \<Rightarrow> nat option \<Rightarrow> nat option \<Rightarrow> char \<Rightarrow> string res" where
  "convert arg flags width prec d =
     (if d \<in> set ''sra'' then
        (let t = (if d = CHR ''s'' then arg else py_repr arg)
         in Inr (pad_text flags width (case prec of None \<Rightarrow> t | Some n \<Rightarrow> take n t)))
      else if d = CHR ''c'' then (if length arg = 1 then Inr (pad_text flags width arg) else Inl TypeError)
      else if d \<in> set ''diouxXeEfFgG'' then Inl TypeError
      else Inl (ValueError ''unsupported format character''))"

lemma dropWhile_length: "length (dropWhile P s) \<le> length s"
  by (induction s) auto

lemma number_prefix_length: "number_prefix s = (n, r) \<Longrightarrow> length r \<le> length s"
  by (auto simp: number_prefix_def Let_def dropWhile_length)

lemma after_length_length: "length (after_length s) \<le> length s"
  by (simp add: after_length_def split: list.splits)

lemma conversion_length:
  assumes "conversion s = Inr (f, w, p, d, r)"
  shows "length r < length s"
proof -
  let ?s = "dropWhile flag_char s"
  obtain n u where u: "number_prefix ?s = (n, u)" by (cases "number_prefix ?s")
  obtain m v where v: "number_prefix (drop 1 u) = (m, v)" by (cases "number_prefix (drop 1 u)")
  from assms u v have "d # r = after_length (if take 1 u = ''.'' then v else u)"
    by (auto simp: conversion_def Let_def split: if_splits list.splits)
  then have "Suc (length r) \<le> length (if take 1 u = ''.'' then v else u)" using after_length_length by (metis length_Cons)
  also have "\<dots> \<le> length s"
    using number_prefix_length [OF u] number_prefix_length [OF v] dropWhile_length [of flag_char s] by auto
  finally show ?thesis by simp
qed

function format_loop :: "string \<Rightarrow> bool \<Rightarrow> string \<Rightarrow> string res" where
  "format_loop arg used [] = (if used then Inr [] else Inl TypeError)"
| "format_loop arg used (c # s) =
     (if c \<noteq> CHR ''%'' then res_bind (format_loop arg used s) (\<lambda>t. Inr (c # t))
      else if take 1 s = ''%'' then res_bind (format_loop arg used (drop 1 s)) (\<lambda>t. Inr (CHR ''%'' # t))
      else (case conversion s of
        Inl e \<Rightarrow> Inl e
      | Inr (flags, width, prec, d, r) \<Rightarrow>
          if used then Inl TypeError
          else res_bind (convert arg flags width prec d) (\<lambda>a. res_bind (format_loop arg True r) (\<lambda>t. Inr (a @ t)))))"
  by pat_completeness auto
termination
  by (relation "measure (\<lambda>(arg, used, s). length s)") (auto dest: conversion_length)

definition py_format1 :: "string \<Rightarrow> string \<Rightarrow> string res" where
  "py_format1 template arg = format_loop arg False template"

section \<open>The build\<close>

text \<open>The options, the environment of the build, and the tasks that it knows.\<close>

record build_options =
  bo_command_template :: "string option"
  bo_valgrind :: bool
  bo_gdb :: bool
  bo_cwd_launch :: string

record build_env =
  be_NS3_MODULE_PATH :: "string list"
  be_NS3_EXECUTABLE_PATH :: "string list"
  be_VALGRIND :: "string list"
  be_PYTHON :: "string list"

record task_gen =
  tg_is_ns3_program :: bool
  tg_abspath :: string
  tg_bld_abspath :: string
  tg_name :: string
  tg_target_abspath :: string

record build_context =
  bc_tasks :: "task_gen list"
  bc_env :: build_env
  bc_launch_dir :: string
  bc_cwd :: string
  bc_cwd_launch :: string
  bc_platform :: string
  bc_environ :: "(string, string) dict"
  bc_pymoddir :: string
  bc_pyvizdir :: string

definition get_command_template :: "build_options \<Rightarrow> string list \<Rightarrow> string" where
  "get_command_template opts arguments =
     foldl (\<lambda>cmd arg. cmd @ '' '' @ arg)
       (case bo_command_template opts of Some t \<Rightarrow> if t = [] then ''%s'' else t | None \<Rightarrow> ''%s'') arguments"

section \<open>Finding a program\<close>

definition program_names :: "build_context \<Rightarrow> string \<Rightarrow> task_gen \<Rightarrow> string list" where
  "program_names b launch_dir obj =
     [tg_name obj, path_join (path_relpath (bc_cwd b) (tg_abspath obj) launch_dir) (tg_name obj)]"

definition is_candidate :: "string \<Rightarrow> task_gen \<Rightarrow> bool" where
  "is_candidate launch_dir obj \<longleftrightarrow> tg_is_ns3_program obj
     \<and> (prefix launch_dir (tg_abspath obj) \<or> prefix launch_dir (tg_bld_abspath obj))"

definition not_found_message :: "string \<Rightarrow> string list \<Rightarrow> string" where
  "not_found_message program_name found =
     ''program '' @ [SQ] @ program_name @ [SQ] @ '' not found; available programs are: '' @ py_repr_list found"

fun find_program_loop :: "build_context \<Rightarrow> string \<Rightarrow> string \<Rightarrow> string list \<Rightarrow> task_gen list \<Rightarrow> task_gen res" where
  "find_program_loop b launch_dir program_name found [] =
     Inl (ValueError (not_found_message program_name found))"
| "find_program_loop b launch_dir program_name found (obj # objs) =
     (if \<not> is_candidate launch_dir obj then find_program_loop b launch_dir program_name found objs
      else if program_name \<in> set (program_names b launch_dir obj) then Inr obj
      else find_program_loop b launch_dir program_name (found @ program_names b launch_dir obj) objs)"

definition find_program :: "build_context \<Rightarrow> string \<Rightarrow> task_gen res" where
  "find_program b program_name =
     find_program_loop b (path_abspath (bc_cwd b) (bc_launch_dir b)) program_name [] (bc_tasks b)"

section \<open>The environment of a process\<close>

definition library_path_variable :: "string \<Rightarrow> string" where
  "library_path_variable platform =
     (if platform = ''linux2'' \<or> platform = ''linux'' then ''LD_LIBRARY_PATH''
      else if platform = ''darwin'' then ''DYLD_LIBRARY_PATH''
      else if platform = ''win32'' then ''PATH''
      else if platform = ''cygwin'' then ''PATH''
      else if prefix ''freebsd'' platform then ''LD_LIBRARY_PATH''
      else ''LD_LIBRARY_PATH'')"

definition pathsep :: "string \<Rightarrow> string" where
  "pathsep platform = (if platform = ''win32'' then '';'' else '':'')"

text \<open>One variable: put directories in front of its value, or make them its value.\<close>

definition prepend_path :: "string \<Rightarrow> string \<Rightarrow> string list \<Rightarrow> (string, string) dict \<Rightarrow> (string, string) dict" where
  "prepend_path sep var dirs env =
     (case map_of env var of
        Some old \<Rightarrow> AList.update var (py_join sep (dirs @ [old])) env
      | None \<Rightarrow> AList.update var (py_join sep dirs) env)"

definition get_proc_env :: "build_context \<Rightarrow> (string, string) dict option \<Rightarrow> (string, string) dict" where
  "get_proc_env b os_env =
     (let sep = pathsep (bc_platform b);
          proc_env = (case os_env of None \<Rightarrow> bc_environ b | Some e \<Rightarrow> foldl (\<lambda>d (k, v). AList.update k v d) (bc_environ b) e);
          proc_env = prepend_path sep (library_path_variable (bc_platform b)) (be_NS3_MODULE_PATH (bc_env b)) proc_env;
          proc_env = prepend_path sep ''PYTHONPATH'' [bc_pymoddir b, bc_pyvizdir b] proc_env
      in prepend_path sep ''PATH'' (be_NS3_EXECUTABLE_PATH (bc_env b)) proc_env)"

section \<open>Running a process\<close>

text \<open>Starting a process and waiting for it gives its exit code and what it wrote to its error stream.\<close>

type_synonym start_process = "string list \<Rightarrow> (string, string) dict \<Rightarrow> string option \<Rightarrow> (int \<times> string) res"

text \<open>The first name in the module \<open>signal\<close> that stands for the signal.\<close>

definition signal_name :: "(string \<times> int) list \<Rightarrow> int \<Rightarrow> string option" where
  "signal_name signals number =
     map_option fst (find (\<lambda>(name, val). length name > 3 \<and> take 3 name = ''SIG'' \<and> name ! 3 \<noteq> CHR ''_'' \<and> val = number) signals)"

definition signal_message :: "string list \<Rightarrow> string \<Rightarrow> string" where
  "signal_message argv signame =
     ''Command '' @ py_repr_list argv @ '' terminated with signal '' @ signame @ ''.''
     @ '' Run it under a debugger to get more information '' @ ''(./waf --run <program> --gdb'' @ [DQ] @ '').''"

definition code_message :: "string list \<Rightarrow> int \<Rightarrow> string" where
  "code_message argv retval = ''Command '' @ py_repr_list argv @ '' exited with code '' @ show_int retval"

definition check_retval :: "(string \<times> int) list \<Rightarrow> string list \<Rightarrow> int \<Rightarrow> int res" where
  "check_retval signals argv retval =
     (if retval \<noteq> 0 then
        (case (if retval < 0 then signal_name signals (- retval) else None) of
           Some signame \<Rightarrow> Inl (WafError (signal_message argv signame))
         | None \<Rightarrow> Inl (WafError (code_message argv retval)))
      else Inr retval)"

text \<open>The loop over the error text runs over its characters, not over its lines.\<close>

definition leak_seen :: "string \<Rightarrow> bool" where
  "leak_seen stderrdata \<longleftrightarrow> (\<exists>line \<in> set (map (\<lambda>c. [c]) stderrdata). sublist ''== LEAK SUMMARY'' line)"

definition valgrind_argv :: "string \<Rightarrow> string list \<Rightarrow> string list" where
  "valgrind_argv vg argv = [vg, ''--leak-check=full'', ''--show-reachable=yes'', ''--error-exitcode=1''] @ argv"

definition run_argv ::
    "(string \<times> int) list \<Rightarrow> start_process \<Rightarrow> build_context \<Rightarrow> build_options \<Rightarrow> string list \<Rightarrow> (string, string) dict option
     \<Rightarrow> string option \<Rightarrow> bool \<Rightarrow> int res" where
  "run_argv signals popen b opts argv os_env cwd force_no_valgrind =
     (let proc_env = get_proc_env b os_env; has_template = bo_command_template opts \<notin> {None, Some []}
      in if bo_valgrind opts \<and> has_template then Inl (WafError ''Options --command-template and --valgrind are conflicting'')
         else if bo_gdb opts \<and> has_template then Inl (WafError ''Options --command-template and --gdb are conflicting'')
         else if bo_gdb opts \<and> bo_valgrind opts then Inl (WafError ''Options --valgrind and --gdb are conflicting'')
         else if bo_gdb opts then res_bind (popen ([''gdb'', ''--args''] @ argv) proc_env cwd) (\<lambda>(retval, _). Inr retval)
         else if bo_valgrind opts \<and> \<not> force_no_valgrind then
           (case be_VALGRIND (bc_env b) of
              [] \<Rightarrow> Inl (WafError ''valgrind is not installed'')
            | vg # _ \<Rightarrow>
                res_bind (popen (valgrind_argv vg argv) proc_env cwd) (\<lambda>(retval, stderrdata).
                  check_retval signals (valgrind_argv vg argv) (if retval = 0 \<and> leak_seen stderrdata then 1 else retval)))
         else res_bind (popen argv proc_env cwd) (\<lambda>(retval, _). check_retval signals argv retval))"

section \<open>Running a program\<close>

text \<open>\<open>rsplit('.', 1)[0]\<close>: what stands before the last dot.\<close>

definition before_last_dot :: "string \<Rightarrow> string" where
  "before_last_dot s = (if CHR ''.'' \<in> set s then butlast (rev (dropWhile (\<lambda>c. c \<noteq> CHR ''.'') (rev s))) else s)"

definition strip_cc :: "string \<Rightarrow> string" where
  "strip_cc program_name = (if suffix ''.cc'' program_name then before_last_dot program_name else program_name)"

definition find_or_waf_error :: "build_context \<Rightarrow> string \<Rightarrow> task_gen res" where
  "find_or_waf_error b program_name = (case find_program b program_name of
     Inl (ValueError msg) \<Rightarrow> Inl (WafError msg)
   | r \<Rightarrow> r)"

definition double_backslashes :: "string \<Rightarrow> string" where
  "double_backslashes s = concat (map (\<lambda>c. if c = BACKSLASH then [BACKSLASH, BACKSLASH] else [c]) s)"

definition get_run_program :: "build_context \<Rightarrow> string \<Rightarrow> string option \<Rightarrow> (string \<times> string list) res" where
  "get_run_program b program_string command_template =
     (if command_template \<in> {None, Some ''%s''} then
        res_bind (shlex_split program_string) (\<lambda>argv.
        res_bind (py_index argv 0) (\<lambda>program_name.
        res_bind (find_or_waf_error b (strip_cc program_name)) (\<lambda>obj.
          Inr (strip_cc program_name, tg_target_abspath obj # drop 1 argv))))
      else
        (let program_name = strip_cc program_string
         in res_bind (find_or_waf_error b program_name) (\<lambda>obj.
            res_bind (py_format1 (the command_template) (tg_target_abspath obj)) (\<lambda>tmpl.
            res_bind (shlex_split (double_backslashes tmpl)) (\<lambda>execvec. Inr (program_name, execvec))))))"

abbreviation VISUALIZE :: string where
  "VISUALIZE \<equiv> ''--SimulatorImplementationType=ns3::VisualSimulatorImpl''"

definition launch_cwd :: "build_context \<Rightarrow> build_options \<Rightarrow> string" where
  "launch_cwd b opts = (if bo_cwd_launch opts \<noteq> [] then bo_cwd_launch opts else bc_cwd_launch b)"

definition run_program ::
    "(string \<times> int) list \<Rightarrow> start_process \<Rightarrow> build_context \<Rightarrow> build_options \<Rightarrow> string \<Rightarrow> string option \<Rightarrow> string option \<Rightarrow> bool \<Rightarrow> int res" where
  "run_program signals popen b opts program_string command_template cwd visualize =
     res_bind (get_run_program b program_string command_template) (\<lambda>(_, execvec).
       run_argv signals popen b opts (execvec @ (if visualize then [VISUALIZE] else [])) None
         (Some (case cwd of Some d \<Rightarrow> d | None \<Rightarrow> launch_cwd b opts)) False)"

definition run_python_program ::
    "(string \<times> int) list \<Rightarrow> start_process \<Rightarrow> build_context \<Rightarrow> build_options \<Rightarrow> string \<Rightarrow> bool \<Rightarrow> int res" where
  "run_python_program signals popen b opts program_string visualize =
     res_bind (shlex_split program_string) (\<lambda>execvec.
     res_bind (py_index (be_PYTHON (bc_env b)) 0) (\<lambda>python.
       run_argv signals popen b opts ([python] @ execvec @ (if visualize then [VISUALIZE] else [])) None
         (Some (launch_cwd b opts)) False))"

fun uniquify_loop :: "string list \<Rightarrow> string list \<Rightarrow> string list" where
  "uniquify_loop seen [] = []"
| "uniquify_loop seen (x # seq) = (if x \<notin> set seen then x # uniquify_loop (seen @ [x]) seq else uniquify_loop seen seq)"

definition uniquify_list :: "string list \<Rightarrow> string list" where
  "uniquify_list seq = uniquify_loop [] seq"

section \<open>Finding a program\<close>

lemma find_program_loop_find:
  "find_program_loop b d n found objs = (case find (\<lambda>obj. is_candidate d obj \<and> n \<in> set (program_names b d obj)) objs of
     Some obj \<Rightarrow> Inr obj
   | None \<Rightarrow> Inl (ValueError (not_found_message n (found @ concat (map (program_names b d) (filter (is_candidate d) objs))))))"
  by (induction objs arbitrary: found) (auto split: option.splits)

text \<open>
  \<open>find_program\<close> returns the first program below the launch directory that has the name, or the
  path relative to it, that was asked for; without one it raises an error that lists the names of all
  programs there, in order.
\<close>
theorem find_program_correct:
  "find_program b n = (let d = path_abspath (bc_cwd b) (bc_launch_dir b) in
     case find (\<lambda>obj. is_candidate d obj \<and> n \<in> set (program_names b d obj)) (bc_tasks b) of
       Some obj \<Rightarrow> Inr obj
     | None \<Rightarrow> Inl (ValueError (not_found_message n (concat (map (program_names b d) (filter (is_candidate d) (bc_tasks b)))))))"
  unfolding find_program_def Let_def find_program_loop_find append_Nil by (rule refl)

section \<open>The environment\<close>

lemma prepend_path_other: "k \<noteq> var \<Longrightarrow> map_of (prepend_path sep var dirs env) k = map_of env k"
  by (simp add: prepend_path_def update_conv split: option.splits)

lemma prepend_path_same:
  "map_of (prepend_path sep var dirs env) var
    = Some (py_join sep (dirs @ (case map_of env var of Some old \<Rightarrow> [old] | None \<Rightarrow> [])))"
  by (simp add: prepend_path_def update_conv split: option.splits)

lemma map_of_fold_update: "map_of (foldl (\<lambda>d (k, v). AList.update k v d) d e) = map_of d ++ map_of (rev e)"
proof (induction e rule: rev_induct)
  case (snoc x e)
  obtain k v where x: "x = (k, v)" by (cases x)
  have "(\<lambda>a. if a = k then Some v else (map_of d ++ map_of (rev e)) a)
      = map_of d ++ (\<lambda>a. if a = k then Some v else map_of (rev e) a)"
    by (simp add: map_add_def fun_eq_iff)
  with snoc x show ?case by (simp add: update_conv')
qed simp

text \<open>The environment before the paths are put in: the process's own, overridden by the caller's.\<close>

definition base_env :: "build_context \<Rightarrow> (string, string) dict option \<Rightarrow> string \<Rightarrow> string option" where
  "base_env b os_env = (case os_env of None \<Rightarrow> map_of (bc_environ b) | Some e \<Rightarrow> map_of (bc_environ b) ++ map_of (rev e))"

definition with_old :: "string list \<Rightarrow> string option \<Rightarrow> string option" where
  "with_old dirs old = Some (py_join '':'' (dirs @ (case old of Some s \<Rightarrow> [s] | None \<Rightarrow> [])))"

text \<open>
  On Linux the process finds the libraries, the Python modules and the programs of the build first
  and then what the three variables named before; every other variable is as the caller gave it, or as
  it was.
\<close>
theorem get_proc_env_linux:
  assumes "bc_platform b = ''linux''"
  shows "map_of (get_proc_env b os_env) k =
    (if k = ''LD_LIBRARY_PATH'' then with_old (be_NS3_MODULE_PATH (bc_env b)) (base_env b os_env k)
     else if k = ''PYTHONPATH'' then with_old [bc_pymoddir b, bc_pyvizdir b] (base_env b os_env k)
     else if k = ''PATH'' then with_old (be_NS3_EXECUTABLE_PATH (bc_env b)) (base_env b os_env k)
     else base_env b os_env k)"
  using assms
  by (cases os_env)
     (auto simp: get_proc_env_def Let_def prepend_path_same prepend_path_other library_path_variable_def pathsep_def
       with_old_def base_env_def map_of_fold_update)

section \<open>Running a process\<close>

lemma leak_never_seen [simp]: "\<not> leak_seen s"
  by (auto simp: leak_seen_def dest!: sublist_length_le)

lemma check_retval_eq_Inr [simp]: "check_retval signals argv v = Inr r \<longleftrightarrow> r = 0 \<and> v = 0"
  by (auto simp: check_retval_def split: option.splits)

definition conflicting :: "build_options \<Rightarrow> bool" where
  "conflicting opts \<longleftrightarrow> (bo_valgrind opts \<and> bo_command_template opts \<notin> {None, Some []})
     \<or> (bo_gdb opts \<and> bo_command_template opts \<notin> {None, Some []}) \<or> (bo_gdb opts \<and> bo_valgrind opts)"

text \<open>
  Without the debugger \<open>run_argv\<close> returns only zero, exactly when the options do not conflict and
  the process, under valgrind if asked for, ends with zero; everything else raises.  What valgrind
  writes about leaks has no influence.
\<close>
theorem run_argv_zero:
  assumes "\<not> bo_gdb opts"
  shows "run_argv signals popen b opts argv os_env cwd force = Inr r \<longleftrightarrow>
    r = 0 \<and> \<not> conflicting opts \<and>
    (if bo_valgrind opts \<and> \<not> force
     then \<exists>vg vgs err. be_VALGRIND (bc_env b) = vg # vgs
       \<and> popen (valgrind_argv vg argv) (get_proc_env b os_env) cwd = Inr (0, err)
     else \<exists>err. popen argv (get_proc_env b os_env) cwd = Inr (0, err))"
proof (cases "conflicting opts")
  case True
  with assms show ?thesis by (auto simp: run_argv_def conflicting_def Let_def)
next
  case False
  with assms show ?thesis
    by (cases "be_VALGRIND (bc_env b)") (auto simp: run_argv_def conflicting_def Let_def res_bind_eq_Inr)
qed

section \<open>Templates\<close>

definition safe_word :: "string \<Rightarrow> bool" where
  "safe_word w \<longleftrightarrow> w \<noteq> [] \<and> (\<forall>c \<in> set w. \<not> lex_blank c \<and> c \<noteq> SQ \<and> c \<noteq> DQ)"

lemma lex_doubled:
  assumes "\<forall>c \<in> set w. \<not> lex_blank c \<and> c \<noteq> SQ \<and> c \<noteq> DQ"
  shows "lex LexWord t q (double_backslashes w @ s) = lex LexWord (t @ w) q s"
  using assms
proof (induction w arbitrary: t)
  case (Cons c w)
  have b: "\<not> lex_blank BACKSLASH" by (simp add: lex_blank_def)
  from Cons b show ?case by (cases "c = BACKSLASH") (simp_all add: double_backslashes_def)
qed (simp add: double_backslashes_def)

lemma lex_doubled_word:
  assumes "safe_word w"
  shows "lex LexBlank [] False (double_backslashes w @ s) = lex LexWord w False s"
proof -
  obtain c v where w: "w = c # v" using assms by (cases w) (auto simp: safe_word_def)
  have b: "\<not> lex_blank BACKSLASH" by (simp add: lex_blank_def)
  have "lex LexWord [c] False (double_backslashes v @ s) = lex LexWord w False s"
    using assms lex_doubled [of v "[c]" False s] by (simp add: w safe_word_def)
  then show ?thesis using assms b by (cases "c = BACKSLASH") (simp_all add: w double_backslashes_def safe_word_def)
qed

lemma double_append: "double_backslashes (a @ b) = double_backslashes a @ double_backslashes b"
  by (simp add: double_backslashes_def)

text \<open>Doubling the backslashes keeps the shell lexer from dropping them.\<close>

lemma shlex_split_doubled:
  assumes "\<forall>w \<in> set ws. safe_word w"
  shows "shlex_split (double_backslashes (py_join '' '' ws)) = Inr ws"
  using assms
proof (induction ws rule: induct_list012)
  case 1
  show ?case by (simp add: shlex_split_def double_backslashes_def)
next
  case (2 w)
  then have "lex LexBlank [] False (double_backslashes w @ []) = Inr [w]"
    by (subst lex_doubled_word) (auto simp: lex_emit_def safe_word_def)
  then show ?case by (simp add: shlex_split_def)
next
  case (3 w v ws)
  have d: "double_backslashes (py_join '' '' (w # v # ws)) = double_backslashes w @ '' '' @ double_backslashes (py_join '' '' (v # ws))"
    by (simp add: double_backslashes_def)
  have "lex LexBlank [] False (double_backslashes w @ '' '' @ double_backslashes (py_join '' '' (v # ws))) = Inr (w # v # ws)"
    using 3 by (subst lex_doubled_word) (auto simp: lex_emit_def shlex_split_def lex_blank_def safe_word_def)
  then show ?case unfolding shlex_split_def d .
qed

lemma format_plain: "CHR ''%'' \<notin> set s \<Longrightarrow> format_loop arg used (s @ t) = res_bind (format_loop arg used t) (\<lambda>u. Inr (s @ u))"
  by (induction s) (auto simp: res_bind_assoc res_bind_def split: sum.splits)

lemma format_s: "format_loop arg False (''%s'' @ t) = res_bind (format_loop arg True t) (\<lambda>u. Inr (arg @ u))"
  by (simp add: conversion_def number_prefix_def after_length_def convert_def pad_text_def flag_char_def is_digit_def Let_def)

lemma foldl_words: "foldl (\<lambda>cmd arg. cmd @ '' '' @ arg) w args = py_join '' '' (w # args)"
proof (induction args arbitrary: w)
  case (Cons a args)
  have "foldl (\<lambda>cmd arg. cmd @ '' '' @ arg) w (a # args) = py_join '' '' ((w @ '' '' @ a) # args)"
    using Cons.IH [of "w @ '' '' @ a"] by simp
  then show ?case by (cases args) simp_all
qed simp

lemma py_join_append: "xs \<noteq> [] \<Longrightarrow> ys \<noteq> [] \<Longrightarrow> py_join s (xs @ ys) = py_join s xs @ s @ py_join s ys"
proof (induction xs rule: induct_list012)
  case (2 x)
  then show ?case by (cases ys) simp_all
qed simp_all

text \<open>A template of words around \<open>%s\<close>, filled in, is the same words around the argument.\<close>

definition template_word :: "string \<Rightarrow> bool" where
  "template_word w \<longleftrightarrow> safe_word w \<and> CHR ''%'' \<notin> set w"

lemma words_no_percent: "\<forall>w \<in> set ws. template_word w \<Longrightarrow> CHR ''%'' \<notin> set (py_join '' '' ws)"
  by (induction ws rule: induct_list012) (auto simp: template_word_def)

lemma format_words:
  assumes "\<forall>w \<in> set pre. template_word w" and "\<forall>w \<in> set post. template_word w"
  shows "py_format1 (py_join '' '' (pre @ ''%s'' # post)) arg = Inr (py_join '' '' (pre @ arg # post))"
proof -
  have a: "py_join '' '' (pre @ x # post)
      = (if pre = [] then [] else py_join '' '' pre @ '' '') @ x @ (if post = [] then [] else '' '' @ py_join '' '' post)" for x
    using py_join_append [of pre "x # post" "'' ''"] py_join_append [of "[x]" post "'' ''"] by (cases pre; cases post) simp_all
  let ?a = "if pre = [] then [] else py_join '' '' pre @ '' ''" and ?b = "if post = [] then [] else '' '' @ py_join '' '' post"
  have p: "CHR ''%'' \<notin> set ?a" "CHR ''%'' \<notin> set ?b" using words_no_percent [OF assms(1)] words_no_percent [OF assms(2)] by auto
  have "format_loop arg True ?b = Inr ?b" using format_plain [OF p(2), of arg True "[]"] by simp
  then have "format_loop arg False (''%s'' @ ?b) = Inr (arg @ ?b)" unfolding format_s by simp
  then show ?thesis unfolding py_format1_def a format_plain [OF p(1)] by simp
qed

lemma template_not_trivial: "py_join '' '' (pre @ ''%s'' # post) = ''%s'' \<Longrightarrow> pre = [] \<and> post = []"
proof (rule ccontr)
  assume e: "py_join '' '' (pre @ ''%s'' # post) = ''%s''" and "\<not> (pre = [] \<and> post = [])"
  then have "CHR '' '' \<in> set (py_join '' '' (pre @ ''%s'' # post))"
    using py_join_append [of pre "''%s'' # post" "'' ''"] by (cases pre; cases post) auto
  with e show False by simp
qed

text \<open>
  C36: What \<open>waf --run\<close> starts for a program \<open>n\<close> that is found, with the template that
  \<open>get_command_template\<close> makes.  Without a template of the user, a command line that quotes the program
  and its arguments as a shell does starts the program's file with exactly these arguments, whatever
  characters they have.  With a template of the user, which has \<open>%s\<close> once between other words, or with
  further arguments to \<open>get_command_template\<close>, it starts the words of the template with the file in the
  place of \<open>%s\<close> and then the arguments, backslashes included; this holds for non-empty words without
  blanks, quotes and percent signs, and a path without blanks and quotes: nothing is quoted there.
\<close>
theorem run_template_arguments:
  assumes "find_program b (strip_cc n) = Inr obj"
  shows "(bo_command_template opts = None \<or> bo_command_template opts = Some [] \<longrightarrow>
      get_run_program b (py_join '' '' (map sh_quote (n # args))) (Some (get_command_template opts []))
        = Inr (strip_cc n, tg_target_abspath obj # args))
    \<and> (bo_command_template opts = (if pre = [] \<and> post = [] then None else Some (py_join '' '' (pre @ ''%s'' # post))) \<longrightarrow>
      pre @ post @ args \<noteq> [] \<longrightarrow> (\<forall>w \<in> set (pre @ post @ args). template_word w) \<longrightarrow> safe_word (tg_target_abspath obj) \<longrightarrow>
      get_run_program b n (Some (get_command_template opts args))
        = Inr (strip_cc n, pre @ tg_target_abspath obj # post @ args))"
proof (intro conjI impI)
  assume "bo_command_template opts = None \<or> bo_command_template opts = Some []"
  then have "get_command_template opts [] = ''%s''" by (auto simp: get_command_template_def)
  then show "get_run_program b (py_join '' '' (map sh_quote (n # args))) (Some (get_command_template opts []))
      = Inr (strip_cc n, tg_target_abspath obj # args)"
    using assms by (simp add: get_run_program_def shlex_split_quotes py_index_def find_or_waf_error_def del: list.map)
next
  assume t: "bo_command_template opts = (if pre = [] \<and> post = [] then None else Some (py_join '' '' (pre @ ''%s'' # post)))"
    and ne: "pre @ post @ args \<noteq> []" and w: "\<forall>w \<in> set (pre @ post @ args). template_word w" and f: "safe_word (tg_target_abspath obj)"
  let ?t = "py_join '' '' (pre @ ''%s'' # post @ args)" and ?ws = "pre @ tg_target_abspath obj # post @ args"
  have j: "py_join '' '' (py_join '' '' (pre @ ''%s'' # post) # args) = ?t"
    using py_join_append [of "pre @ ''%s'' # post" args "'' ''"] by (cases args) simp_all
  have "py_join '' '' (pre @ ''%s'' # post) \<noteq> []"
    using py_join_append [of pre "''%s'' # post" "'' ''"] by (cases pre; cases post) auto
  then have ct: "get_command_template opts args = ?t"
    unfolding get_command_template_def foldl_words using j t by (cases "pre = [] \<and> post = []") simp_all
  have "?t \<noteq> ''%s''" using template_not_trivial [of pre "post @ args"] ne by auto
  moreover have "py_format1 ?t (tg_target_abspath obj) = Inr (py_join '' '' ?ws)" using w by (intro format_words) auto
  moreover have "shlex_split (double_backslashes (py_join '' '' ?ws)) = Inr ?ws"
    using w f by (intro shlex_split_doubled) (auto simp: template_word_def)
  ultimately show "get_run_program b n (Some (get_command_template opts args)) = Inr (strip_cc n, ?ws)"
    using assms by (simp add: get_run_program_def find_or_waf_error_def ct Let_def del: py_join.simps)
qed

lemma uniquify_loop_eq: "uniquify_loop seen seq = filter (\<lambda>x. x \<notin> set seen) (rev (remdups (rev seq)))"
proof (induction seen seq rule: uniquify_loop.induct)
  case (2 seen x seq)
  then show ?case by (auto simp: remdups_snoc rev_filter conj_commute intro!: filter_cong)
qed simp

text \<open>The two helpers of the repository that remove duplicates in order are the same function.\<close>

lemma uniquify_list_ordered: "uniquify_list seq = uniquify_ordered [] seq"
  by (simp add: uniquify_list_def uniquify_loop_eq uniquify_ordered_eq has_key_def)

section \<open>Examples\<close>

definition sample_task :: task_gen where
  "sample_task = \<lparr>tg_is_ns3_program = True, tg_abspath = ''/ns3/scratch'', tg_bld_abspath = ''/ns3/build/scratch'',
                  tg_name = ''first'', tg_target_abspath = ''/ns3/build/scratch/first''\<rparr>"

definition sample_build :: build_context where
  "sample_build = \<lparr>bc_tasks = [sample_task\<lparr>tg_is_ns3_program := False\<rparr>, sample_task],
     bc_env = \<lparr>be_NS3_MODULE_PATH = [''/ns3/build/lib''], be_NS3_EXECUTABLE_PATH = [''/ns3/build/bin''], be_VALGRIND = [''valgrind''], be_PYTHON = [''python3'']\<rparr>,
     bc_launch_dir = ''/ns3'', bc_cwd = ''/ns3'', bc_cwd_launch = ''/ns3'', bc_platform = ''linux'',
     bc_environ = [(''PATH'', ''/bin''), (''HOME'', ''/root'')], bc_pymoddir = ''/ns3/build/py'', bc_pyvizdir = ''/ns3/viz''\<rparr>"

definition sample_options :: build_options where
  "sample_options = \<lparr>bo_command_template = None, bo_valgrind = True, bo_gdb = False, bo_cwd_launch = []\<rparr>"

theorem get_proc_env_linux_witness:
  "map_of (get_proc_env sample_build None) ''PATH'' = Some ''/ns3/build/bin:/bin''
   \<and> map_of (get_proc_env sample_build (Some [(''HOME'', ''/tmp'')])) ''HOME'' = Some ''/tmp''"
  using get_proc_env_linux [of sample_build None "''PATH''"] get_proc_env_linux [of sample_build "Some [(''HOME'', ''/tmp'')]" "''HOME''"]
  by (simp add: sample_build_def with_old_def base_env_def)

theorem run_argv_zero_witness:
  "run_argv [] (\<lambda>argv env cwd. Inr (if hd argv = ''valgrind'' then 0 else 1, ''== LEAK SUMMARY'')) sample_build sample_options
     [''/ns3/build/scratch/first''] None None False = Inr 0"
  using run_argv_zero [of sample_options "[]" "\<lambda>argv env cwd. Inr (if hd argv = ''valgrind'' then 0 else 1, ''== LEAK SUMMARY'')"
      sample_build "[''/ns3/build/scratch/first'']" None None False 0]
  by (simp add: sample_build_def sample_options_def conflicting_def valgrind_argv_def)

lemma sample_found: "find_program sample_build (strip_cc ''first.cc'') = Inr sample_task"
  by (simp add: find_program_def sample_build_def sample_task_def is_candidate_def program_names_def strip_cc_def
      before_last_dot_def suffix_def path_abspath_def path_normpath_def path_comps_def norm_step_def)

theorem run_template_arguments_witness:
  "get_run_program sample_build (py_join '' '' (map sh_quote [''first.cc'', ''--name=a b'', ''100%''])) (Some (get_command_template sample_options []))
     = Inr (''first'', [''/ns3/build/scratch/first'', ''--name=a b'', ''100%''])
   \<and> get_run_program sample_build ''first.cc''
       (Some (get_command_template (sample_options\<lparr>bo_command_template := Some ''gdb --args %s --n=3''\<rparr>) []))
     = Inr (''first'', [''gdb'', ''--args'', ''/ns3/build/scratch/first'', ''--n=3''])"
proof -
  have s: "strip_cc ''first.cc'' = ''first''" "tg_target_abspath sample_task = ''/ns3/build/scratch/first''"
    by (simp_all add: strip_cc_def before_last_dot_def suffix_def sample_task_def)
  note r = run_template_arguments [OF sample_found, unfolded s]
  have "get_run_program sample_build (py_join '' '' (map sh_quote [''first.cc'', ''--name=a b'', ''100%''])) (Some (get_command_template sample_options []))
     = Inr (''first'', [''/ns3/build/scratch/first'', ''--name=a b'', ''100%''])"
    by (rule r [THEN conjunct1, THEN mp]) (simp add: sample_options_def)
  moreover have "get_run_program sample_build ''first.cc''
       (Some (get_command_template (sample_options\<lparr>bo_command_template := Some ''gdb --args %s --n=3''\<rparr>) []))
     = Inr (''first'', [''gdb'', ''--args''] @ ''/ns3/build/scratch/first'' # [''--n=3''] @ [])"
    by (rule r [THEN conjunct2, THEN mp, THEN mp, THEN mp, THEN mp]) (simp_all add: template_word_def safe_word_def lex_blank_def)
  ultimately show ?thesis by simp
qed

text \<open>An argument of \<open>get_command_template\<close> with a blank becomes two, and so does a path with one.\<close>

lemma template_argument_split:
  "get_run_program sample_build ''first'' (Some (get_command_template sample_options [''--a=b c'']))
     = Inr (''first'', [''/ns3/build/scratch/first'', ''--a=b'', ''c''])"
  by code_simp

lemma template_path_split:
  "get_run_program (sample_build\<lparr>bc_tasks := [sample_task\<lparr>tg_target_abspath := ''/my ns3/first''\<rparr>]\<rparr>) ''first'' (Some ''gdb --args %s'')
     = Inr (''first'', [''gdb'', ''--args'', ''/my'', ''ns3/first''])"
  by code_simp

end
