(* ===== verification/Versioning.thy ===== *)
theory Versioning
  imports Py_Prelude
begin

text \<open>
  \<^verbatim>\<open>waf-tools/versioning.py\<close>: the version of the build, taken from the tags of the git repository.  The
  patterns of the program are functions that take the text apart from the left, in the order in which
  the regular expressions try their choices.  Running git, storing and loading the cache file and the
  search for it are arguments; a failed command has the text of its error stream, or none when it could
  not be started.
\<close>

section \<open>Tags\<close>

type_synonym fields = "(string, string) dict"

definition digits_of :: "string \<Rightarrow> string \<times> string" where
  "digits_of s = (takeWhile is_digit s, dropWhile is_digit s)"

definition strip_prefix :: "string \<Rightarrow> string \<Rightarrow> string option" where
  "strip_prefix p s = (if take (length p) s = p then Some (drop (length p) s) else None)"

text \<open>The optional third number: one character, whatever it is, and digits.\<close>

definition match_patch :: "string \<Rightarrow> string option \<times> string" where
  "match_patch s = (case s of
     c # t \<Rightarrow> if c \<noteq> NL \<and> fst (digits_of t) \<noteq> [] then (Some (fst (digits_of t)), snd (digits_of t)) else (None, s)
   | [] \<Rightarrow> (None, []))"

text \<open>The optional release candidate: the rest of the line.\<close>

definition match_candidate :: "string \<Rightarrow> string option" where
  "match_candidate s = (case strip_prefix ''-RC'' s of
     None \<Rightarrow> None
   | Some t \<Rightarrow> (let r = takeWhile (\<lambda>c. c \<noteq> NL) t in if r = [] then None else Some (''RC'' @ r)))"

definition match_version_tag :: "string \<Rightarrow> (string \<times> string \<times> string option \<times> string option) option" where
  "match_version_tag s =
     Option.bind (strip_prefix ''ns-'' s) (\<lambda>s.
       let (major, s) = digits_of s
       in if major = [] then None
          else Option.bind (strip_prefix ''.'' s) (\<lambda>s.
            let (minor, s) = digits_of s; (patch, s) = match_patch s
            in if minor = [] then None else Some (major, minor, patch, match_candidate s)))"

definition in_quotes :: "string \<Rightarrow> string" where
  "in_quotes s = [DQ] @ s @ [DQ]"

text \<open>\<open>x or default\<close> for a group that may be absent.\<close>

definition group_or :: "string \<Rightarrow> string option \<Rightarrow> string" where
  "group_or d g = (case g of None \<Rightarrow> d | Some s \<Rightarrow> if s = [] then d else s)"

definition parse_version_tag :: "fields \<Rightarrow> string \<Rightarrow> fields \<times> bool" where
  "parse_version_tag f tag =
     (let safe_tag = py_strip tag
      in case match_version_tag safe_tag of
           None \<Rightarrow> (f, False)
         | Some (major, minor, patch, candidate) \<Rightarrow>
             (let f = AList.update ''VERSION_TAG'' (in_quotes safe_tag) f;
                  f = AList.update ''VERSION_MAJOR'' major f;
                  f = AList.update ''VERSION_MINOR'' minor f;
                  f = AList.update ''VERSION_PATCH'' (group_or ''0'' patch) f;
                  f = AList.update ''VERSION_RELEASE_CANDIDATE'' (in_quotes (group_or [] candidate)) f
              in (f, True)))"

section \<open>The closest tag\<close>

definition is_hex :: "char \<Rightarrow> bool" where
  "is_hex c \<longleftrightarrow> c \<in> set ''0123456789abcdefABCDEF''"

text \<open>The part after the tag: a distance, a hash, and a mark.\<close>

definition match_distance :: "string \<Rightarrow> (string \<times> string \<times> bool) option" where
  "match_distance s =
     Option.bind (strip_prefix ''-'' s) (\<lambda>s.
       let (distance, s) = digits_of s
       in if distance = [] then None
          else Option.bind (strip_prefix ''-g'' s) (\<lambda>s.
            let h = takeWhile is_hex s
            in if h = [] then None
               else Some (distance, ''g'' @ h, strip_prefix ''-dirty'' (dropWhile is_hex s) \<noteq> None)))"

text \<open>The tag is as long as possible, so the places where it may end are tried from the right.\<close>

fun match_describe_at :: "string \<Rightarrow> nat \<Rightarrow> (string \<times> string \<times> string \<times> bool) option" where
  "match_describe_at line 0 = None"
| "match_describe_at line (Suc i) = (case match_distance (drop (Suc i) line) of
     Some r \<Rightarrow> Some (take (Suc i) line, r)
   | None \<Rightarrow> match_describe_at line i)"

definition match_describe :: "string \<Rightarrow> (string \<times> string \<times> string \<times> bool) option" where
  "match_describe out = (let line = takeWhile (\<lambda>c. c \<noteq> NL) out in match_describe_at line (length line))"

type_synonym git = "string list \<Rightarrow> string option + string"

text \<open>
  \<open>ctx.cmd_and_log\<close> inside the \<open>try\<close>: the error text becomes the message of a new exception, and an
  error without text has no attribute to read.
\<close>

definition git_output :: "git \<Rightarrow> string list \<Rightarrow> string res" where
  "git_output git cmd = (case git cmd of
     Inl (Some err) \<Rightarrow> Inl (PyException (py_strip err))
   | Inl None \<Rightarrow> Inl AttributeError
   | Inr out \<Rightarrow> Inr out)"

definition describe_command :: "string list" where
  "describe_command = [''git'', ''describe'', ''--tags'', ''--dirty'', ''--long'']"

definition ns3_tag_command :: "string list" where
  "ns3_tag_command = [''git'', ''describe'', ''--tags'', ''--abbrev=0'', ''--match'', ''ns-3*'', ''HEAD'']"

definition tag_error :: "string \<Rightarrow> py_error" where
  "tag_error out = ValueError (''Closest tag found in git logdoes not match the expected format (tag='' @ [SQ] @ out @ [SQ] @ '')'')"

definition ns3_tag_error :: "string \<Rightarrow> py_error" where
  "ns3_tag_error tag = ValueError (''Closest ns3 tag found in git log does not match the expected format (tag='' @ [SQ] @ tag @ [SQ] @ '')'')"

definition find_closest_tag :: "git \<Rightarrow> fields \<Rightarrow> fields res" where
  "find_closest_tag git f =
     res_bind (git_output git describe_command) (\<lambda>out.
       case match_describe out of
         None \<Rightarrow> Inl (tag_error out)
       | Some (tag, distance, commit, dirty) \<Rightarrow>
           (let f = AList.update ''CLOSEST_TAG'' (in_quotes tag) f;
                f = AList.update ''VERSION_TAG_DISTANCE'' distance f;
                f = AList.update ''VERSION_COMMIT_HASH'' (in_quotes commit) f;
                f = AList.update ''VERSION_DIRTY_FLAG'' (if dirty then ''1'' else ''0'') f
            in Inr (fst (parse_version_tag f tag))))"

definition find_closest_ns3_tag :: "git \<Rightarrow> fields \<Rightarrow> fields res" where
  "find_closest_ns3_tag git f =
     res_bind (git_output git ns3_tag_command) (\<lambda>out.
       let tag = py_strip out; (f, ok) = parse_version_tag f tag
       in if ok then Inr f else Inl (ns3_tag_error tag))"

section \<open>The task\<close>

datatype env_value = EStr string | EBool bool

type_synonym env = "(string, env_value) dict"

definition merge_fields :: "env \<Rightarrow> fields \<Rightarrow> env" where
  "merge_fields env f = foldl (\<lambda>env (k, v). AList.update k (EStr v) env) env f"

text \<open>
  A run of the task: its status, the environment and the text of the cache file afterwards (none if
  there is no file), the fields handed to \<open>store\<close>, and what was written to the log.
\<close>

record version_run =
  vr_status :: int
  vr_env :: env
  vr_file :: "string option"
  vr_stored :: "fields list"
  vr_logged :: "py_error option"

text \<open>
  \<open>store\<close> of the library writes the cache file.  It is an argument: from the fields and the file before
  it gives the file afterwards and whether it raised, so it may also fail with the file half written.
\<close>

type_synonym store = "fields \<Rightarrow> string option \<Rightarrow> string option \<times> unit res"

definition run_version_info :: "git \<Rightarrow> store \<Rightarrow> env \<Rightarrow> string option \<Rightarrow> version_run" where
  "run_version_info git store env file =
     (case res_bind (find_closest_tag git []) (\<lambda>f.
           if \<not> has_key f ''VERSION_TAG'' then find_closest_ns3_tag git f else Inr f) of
        Inl e \<Rightarrow> \<lparr>vr_status = 1, vr_env = env, vr_file = file, vr_stored = [], vr_logged = Some e\<rparr>
      | Inr f \<Rightarrow> (case store f file of
          (file', Inl e) \<Rightarrow> \<lparr>vr_status = 1, vr_env = env, vr_file = file', vr_stored = [f], vr_logged = Some e\<rparr>
        | (file', Inr _) \<Rightarrow>
            \<lparr>vr_status = 0, vr_env = merge_fields env f, vr_file = file', vr_stored = [f], vr_logged = None\<rparr>))"

section \<open>Configuration\<close>

definition toplevel_command :: "string list" where
  "toplevel_command = [''git'', ''rev-parse'', ''--show-toplevel'']"

definition has_tags_command :: "string list" where
  "has_tags_command = [''git'', ''describe'', ''--tags'', ''--abbrev=0'', ''--match'', ''ns-3.[0-9]*'']"

text \<open>The stripped output of a command; every exception counts as no output.\<close>

definition quiet_output :: "git \<Rightarrow> string list \<Rightarrow> string" where
  "quiet_output git cmd = (case git cmd of Inl _ \<Rightarrow> [] | Inr out \<Rightarrow> py_strip out)"

definition check_git_repo :: "bool \<Rightarrow> git \<Rightarrow> bool" where
  "check_git_repo have_git git \<longleftrightarrow> have_git \<and> quiet_output git toplevel_command \<noteq> []"

definition check_git_repo_has_ns3_tags :: "git \<Rightarrow> bool" where
  "check_git_repo_has_ns3_tags git \<longleftrightarrow> quiet_output git has_tags_command \<noteq> []"

definition no_version_error :: py_error where
  "no_version_error = WafError ''Unable to find ns3 git repository or version.cache file containing version information''"

definition configure_version ::
    "bool \<Rightarrow> bool \<Rightarrow> git \<Rightarrow> string list \<Rightarrow> (string \<Rightarrow> fields res) \<Rightarrow> env \<Rightarrow> env res" where
  "configure_version enable_build_version have_git git cache_paths load env =
     (if \<not> enable_build_version then Inr env
      else (let has_git_repo = check_git_repo have_git git;
                has_ns3_tags = (has_git_repo \<and> check_git_repo_has_ns3_tags git);
                env = AList.update ''HAVE_GIT_REPO'' (EBool has_git_repo) env;
                env = AList.update ''HAVE_NS3_REPO'' (EBool has_ns3_tags) env
            in if has_ns3_tags then Inr env
               else (case cache_paths of
                       [] \<Rightarrow> Inl no_version_error
                     | p # _ \<Rightarrow> res_bind (load p) (\<lambda>f. Inr (merge_fields env f)))))"

section \<open>Reading tags\<close>

definition number :: "string \<Rightarrow> bool" where
  "number s \<longleftrightarrow> s \<noteq> [] \<and> list_all is_digit s"

lemma digits_of_number:
  assumes "list_all is_digit ds" and "r = [] \<or> \<not> is_digit (hd r)"
  shows "digits_of (ds @ r) = (ds, r)"
proof -
  have "takeWhile is_digit r = []" "dropWhile is_digit r = r" using assms(2) by (cases r; auto)+
  with assms(1) show ?thesis by (simp add: digits_of_def list_all_iff)
qed

lemma digits_of_numbers: "fst (digits_of s) \<noteq> [] \<Longrightarrow> number (fst (digits_of s))"
  by (auto simp: digits_of_def number_def list_all_iff dest: set_takeWhileD)

lemma strip_prefix_append [simp]: "strip_prefix p (p @ s) = Some s"
  by (simp add: strip_prefix_def)

lemma strip_prefix_Cons: "strip_prefix [c] (d # s) = (if c = d then Some s else None)"
  by (simp add: strip_prefix_def)

lemma no_digits [simp]: "\<not> is_digit (CHR ''-'')" "\<not> is_digit (CHR ''.'')" "\<not> is_digit (CHR ''R'')" "\<not> is_digit (CHR ''g'')"
    "\<not> is_digit (CHR ''d'')"
  by (simp_all add: is_digit_def)

text \<open>The text of a tag.\<close>

definition tag_rest :: "string option \<Rightarrow> string option \<Rightarrow> string" where
  "tag_rest patch candidate = (case patch of None \<Rightarrow> [] | Some p \<Rightarrow> ''.'' @ p)
     @ (case candidate of None \<Rightarrow> [] | Some r \<Rightarrow> ''-RC'' @ r)"

definition version_tag :: "string \<Rightarrow> string \<Rightarrow> string option \<Rightarrow> string option \<Rightarrow> string" where
  "version_tag major minor patch candidate = ''ns-'' @ major @ ''.'' @ minor @ tag_rest patch candidate"

definition candidate_ok :: "string option \<Rightarrow> bool" where
  "candidate_ok c = (case c of None \<Rightarrow> True | Some r \<Rightarrow> r \<noteq> [] \<and> list_all (\<lambda>c. \<not> is_space c) r)"

definition patch_ok :: "string option \<Rightarrow> bool" where
  "patch_ok p = (case p of None \<Rightarrow> True | Some s \<Rightarrow> number s)"

lemma match_candidate_text:
  assumes "candidate_ok c"
  shows "match_candidate (case c of None \<Rightarrow> [] | Some r \<Rightarrow> ''-RC'' @ r) = map_option (\<lambda>r. ''RC'' @ r) c"
proof (cases c)
  case (Some r)
  with assms have "\<forall>x \<in> set r. x \<noteq> NL" "r \<noteq> []" by (auto simp: candidate_ok_def list_all_iff is_space_def)
  then have t: "takeWhile (\<lambda>c. c \<noteq> NL) r = r" by (simp add: takeWhile_eq_all_conv)
  have "strip_prefix ''-RC'' (''-RC'' @ r) = Some r" by (rule strip_prefix_append)
  with Some \<open>r \<noteq> []\<close> show ?thesis unfolding match_candidate_def by (simp add: t Let_def del: takeWhile_eq_all_conv)
qed (simp add: match_candidate_def strip_prefix_def)

lemma tag_rest_no_digit: "tag_rest p c = [] \<or> \<not> is_digit (hd (tag_rest p c))"
  by (auto simp: tag_rest_def split: option.splits)

lemma match_patch_text:
  assumes "patch_ok p"
  shows "match_patch (tag_rest p c) = (p, case c of None \<Rightarrow> [] | Some r \<Rightarrow> ''-RC'' @ r)"
proof (cases p)
  case None
  then show ?thesis by (auto simp: tag_rest_def match_patch_def digits_of_def split: option.splits)
next
  case (Some q)
  have "digits_of (q @ (case c of None \<Rightarrow> [] | Some r \<Rightarrow> ''-RC'' @ r)) = (q, case c of None \<Rightarrow> [] | Some r \<Rightarrow> ''-RC'' @ r)"
    using assms Some by (intro digits_of_number) (auto simp: patch_ok_def number_def split: option.splits)
  with Some assms show ?thesis by (simp add: tag_rest_def match_patch_def patch_ok_def number_def)
qed

lemma match_version_text:
  assumes "number major" and "number minor" and "patch_ok patch" and "candidate_ok candidate"
  shows "match_version_tag (version_tag major minor patch candidate)
    = Some (major, minor, patch, map_option (\<lambda>r. ''RC'' @ r) candidate)"
proof -
  have d: "digits_of (major @ ''.'' @ minor @ tag_rest patch candidate) = (major, ''.'' @ minor @ tag_rest patch candidate)"
    "digits_of (minor @ tag_rest patch candidate) = (minor, tag_rest patch candidate)"
    using assms(1,2) tag_rest_no_digit by (auto intro!: digits_of_number simp: number_def)
  have s: "strip_prefix ''ns-'' (''ns-'' @ t) = Some t" "strip_prefix ''.'' (''.'' @ t) = Some t" for t
    by (rule strip_prefix_append)+
  show ?thesis
    using assms unfolding match_version_tag_def version_tag_def s
    by (simp only: Option.bind.simps d Let_def prod.case s match_patch_text match_candidate_text) (simp add: number_def append_Cons [abs_def])
qed

section \<open>Reading descriptions\<close>

fun no_dash_digit :: "string \<Rightarrow> bool" where
  "no_dash_digit (c # d # s) \<longleftrightarrow> \<not> (c = CHR ''-'' \<and> is_digit d) \<and> no_dash_digit (d # s)"
| "no_dash_digit s \<longleftrightarrow> True"

lemma no_dash_digit_drop: "no_dash_digit s \<Longrightarrow> no_dash_digit (drop k s)"
proof (induction k arbitrary: s)
  case (Suc k)
  then show ?case by (cases s rule: no_dash_digit.cases) auto
qed simp

lemma match_distance_None: "no_dash_digit s \<Longrightarrow> match_distance s = None"
  by (cases s rule: no_dash_digit.cases)
    (auto simp: match_distance_def strip_prefix_def digits_of_def Let_def)

lemma no_dash_digit_append:
  "CHR ''-'' \<notin> set s \<Longrightarrow> no_dash_digit r \<Longrightarrow> no_dash_digit (s @ r)"
proof (induction s)
  case (Cons c s)
  then show ?case by (cases "s @ r") auto
qed simp

definition describe_rest :: "string \<Rightarrow> string \<Rightarrow> bool \<Rightarrow> string" where
  "describe_rest distance commit dirty = distance @ ''-g'' @ commit @ (if dirty then ''-dirty'' else [])"

definition hash_ok :: "string \<Rightarrow> bool" where
  "hash_ok h \<longleftrightarrow> h \<noteq> [] \<and> list_all is_hex h"

lemma hex_not_dash: "is_hex c \<Longrightarrow> c \<noteq> CHR ''-''"
  by (auto simp: is_hex_def)

lemma digit_not_dash: "is_digit c \<Longrightarrow> c \<noteq> CHR ''-''"
  by (auto simp: is_digit_def)

lemma describe_rest_ok:
  assumes "number distance" and "hash_ok commit"
  shows "no_dash_digit (describe_rest distance commit dirty)"
proof -
  have "no_dash_digit (commit @ (if dirty then ''-dirty'' else []))"
    using assms(2) hex_not_dash by (intro no_dash_digit_append) (auto simp: hash_ok_def list_all_iff)
  then have "no_dash_digit (CHR ''g'' # commit @ (if dirty then ''-dirty'' else []))"
    using no_dash_digit_append [of "''g''"] by simp
  then have "no_dash_digit (''-g'' @ commit @ (if dirty then ''-dirty'' else []))" by simp
  then show ?thesis
    unfolding describe_rest_def using assms(1) digit_not_dash
    by (intro no_dash_digit_append [of distance]) (auto simp: number_def list_all_iff)
qed

lemma match_distance_text:
  assumes "number distance" and "hash_ok commit"
  shows "match_distance (CHR ''-'' # describe_rest distance commit dirty) = Some (distance, ''g'' @ commit, dirty)"
proof -
  let ?d = "if dirty then ''-dirty'' else []"
  have d: "digits_of (distance @ ''-g'' @ commit @ ?d) = (distance, ''-g'' @ commit @ ?d)"
    using assms(1) by (intro digits_of_number) (auto simp: number_def)
  have h: "takeWhile is_hex (commit @ ?d) = commit" "dropWhile is_hex (commit @ ?d) = ?d"
    using assms(2) by (auto simp: hash_ok_def list_all_iff is_hex_def [of "CHR ''-''"])
  have s: "strip_prefix ''-'' (CHR ''-'' # t) = Some t" "strip_prefix ''-g'' (''-g'' @ t) = Some t" for t
    by (simp add: strip_prefix_def, rule strip_prefix_append)
  show ?thesis
    using assms unfolding match_distance_def s describe_rest_def
    by (simp only: Option.bind.simps d Let_def prod.case s h) (simp add: number_def hash_ok_def strip_prefix_def)
qed

lemma match_describe_at_text:
  assumes "tag \<noteq> []" and "number distance" and "hash_ok commit" and "length tag \<le> i"
  shows "match_describe_at (tag @ CHR ''-'' # describe_rest distance commit dirty) i = Some (tag, distance, ''g'' @ commit, dirty)"
  using assms(4)
proof (induction i)
  case (Suc i)
  let ?s = "tag @ CHR ''-'' # describe_rest distance commit dirty"
  show ?case
  proof (cases "Suc i = length tag")
    case True
    then have "drop (Suc i) ?s = CHR ''-'' # describe_rest distance commit dirty" "take (Suc i) ?s = tag" by simp_all
    then show ?thesis by (simp add: match_distance_text [OF assms(2,3)] del: take_append drop_append)
  next
    case False
    with Suc.prems have i: "length tag \<le> i" by simp
    then have "drop (Suc i) ?s = drop (i - length tag) (describe_rest distance commit dirty)" by (simp add: Suc_diff_le)
    then have "match_distance (drop (Suc i) ?s) = None"
      by (simp only:) (intro match_distance_None no_dash_digit_drop describe_rest_ok assms)
    with Suc.IH [OF i] show ?thesis by simp
  qed
qed (use assms in simp)

lemma no_newline: "\<not> is_digit NL" "\<not> is_hex NL"
  by (simp_all add: is_digit_def is_hex_def)

lemma match_describe_text:
  assumes "tag \<noteq> []" and "NL \<notin> set tag" and "number distance" and "hash_ok commit"
  shows "match_describe (tag @ CHR ''-'' # describe_rest distance commit dirty @ [NL])
    = Some (tag, distance, ''g'' @ commit, dirty)"
proof -
  let ?s = "tag @ CHR ''-'' # describe_rest distance commit dirty"
  have "NL \<notin> set (describe_rest distance commit dirty)"
    using assms(3,4) no_newline by (auto simp: describe_rest_def number_def hash_ok_def list_all_iff)
  then have "\<forall>c \<in> set ?s. c \<noteq> NL" using assms(2) by auto
  then have "takeWhile (\<lambda>c. c \<noteq> NL) (?s @ [NL]) = ?s"
    by (subst takeWhile_append2) auto
  then show ?thesis
    using match_describe_at_text [OF assms(1,3,4), of "length ?s" dirty] by (simp add: match_describe_def)
qed

section \<open>The fields\<close>

definition field_ok :: "fields \<Rightarrow> (string \<Rightarrow> bool) \<Rightarrow> string \<Rightarrow> bool" where
  "field_ok f P k = (case map_of f k of None \<Rightarrow> False | Some v \<Rightarrow> P v)"

definition commit_ok :: "string \<Rightarrow> bool" where
  "commit_ok s \<longleftrightarrow> (\<exists>h. s = in_quotes (CHR ''g'' # h) \<and> hash_ok h)"

definition version_fields_ok :: "fields \<Rightarrow> bool" where
  "version_fields_ok f \<longleftrightarrow> field_ok f number ''VERSION_MAJOR'' \<and> field_ok f number ''VERSION_MINOR'' \<and> field_ok f number ''VERSION_PATCH''"

definition describe_fields_ok :: "fields \<Rightarrow> bool" where
  "describe_fields_ok f \<longleftrightarrow> field_ok f number ''VERSION_TAG_DISTANCE'' \<and> field_ok f commit_ok ''VERSION_COMMIT_HASH''
     \<and> field_ok f (\<lambda>v. v = ''0'' \<or> v = ''1'') ''VERSION_DIRTY_FLAG''"

lemma match_version_numbers:
  assumes "match_version_tag s = Some (major, minor, patch, c)"
  shows "number major \<and> number minor \<and> patch_ok patch"
proof -
  have p: "patch_ok (fst (match_patch t))" for t
    by (cases t) (auto simp: match_patch_def patch_ok_def digits_of_numbers)
  from assms show ?thesis
    using digits_of_numbers p
    by (auto simp: match_version_tag_def Let_def split_def Option.bind_eq_Some_conv split: if_splits)
qed

lemma group_or_number: "patch_ok p \<Longrightarrow> number (group_or ''0'' p)"
  by (auto simp: patch_ok_def group_or_def number_def is_digit_def split: option.splits)

lemma parse_version_tag_cases:
  assumes "parse_version_tag f tag = (f', ok)"
  shows "if ok then version_fields_ok f' \<and> has_key f' ''VERSION_TAG'' \<and> (describe_fields_ok f \<longrightarrow> describe_fields_ok f') \<and> (dict_wf f \<longrightarrow> dict_wf f')
     else f' = f"
proof (cases "match_version_tag (py_strip tag)")
  case None
  with assms show ?thesis by (auto simp: parse_version_tag_def Let_def)
next
  case (Some r)
  obtain major minor patch c where r: "r = (major, minor, patch, c)" by (cases r)
  from match_version_numbers [OF Some [unfolded r]] have n: "number major" "number minor" "number (group_or ''0'' patch)"
    by (simp_all add: group_or_number)
  from assms have f': "ok" "f' = AList.update ''VERSION_RELEASE_CANDIDATE'' (in_quotes (group_or [] c))
      (AList.update ''VERSION_PATCH'' (group_or ''0'' patch) (AList.update ''VERSION_MINOR'' minor
      (AList.update ''VERSION_MAJOR'' major (AList.update ''VERSION_TAG'' (in_quotes (py_strip tag)) f))))"
    by (simp_all add: parse_version_tag_def Let_def Some r)
  have "version_fields_ok f'" using n by (simp add: f'(2) version_fields_ok_def field_ok_def)
  moreover have "describe_fields_ok f \<Longrightarrow> describe_fields_ok f'" by (simp add: f'(2) describe_fields_ok_def field_ok_def)
  ultimately show ?thesis using f'(1) by (simp add: f'(2))
qed

lemma match_distance_parts:
  "match_distance s = Some (d, c, b) \<Longrightarrow> number d \<and> (\<exists>h. c = CHR ''g'' # h \<and> hash_ok h)"
  using digits_of_numbers
  by (auto simp: match_distance_def Let_def split_def Option.bind_eq_Some_conv hash_ok_def list_all_iff
      dest: set_takeWhileD split: if_splits)

lemma match_describe_parts:
  assumes "match_describe out = Some (tag, d, c, b)"
  shows "number d \<and> (\<exists>h. c = CHR ''g'' # h \<and> hash_ok h)"
proof -
  have "match_describe_at line i = Some (tag, d, c, b) \<Longrightarrow> ?thesis" for line i
    by (induction line i rule: match_describe_at.induct) (auto split: option.splits dest: match_distance_parts)
  with assms show ?thesis by (auto simp: match_describe_def Let_def)
qed

lemma find_closest_tag_ok:
  assumes "find_closest_tag git [] = Inr f"
  shows "describe_fields_ok f \<and> dict_wf f \<and> (has_key f ''VERSION_TAG'' \<longrightarrow> version_fields_ok f)"
proof -
  from assms obtain out tag d c b where "match_describe out = Some (tag, d, c, b)"
    and f: "f = fst (parse_version_tag
       [(''CLOSEST_TAG'', in_quotes tag), (''VERSION_TAG_DISTANCE'', d), (''VERSION_COMMIT_HASH'', in_quotes c),
        (''VERSION_DIRTY_FLAG'', if b then ''1'' else ''0'')] tag)" (is "_ = fst (parse_version_tag ?g _)")
    by (auto simp: find_closest_tag_def res_bind_eq_Inr Let_def split: option.splits)
  then have g: "describe_fields_ok ?g" "dict_wf ?g" "\<not> has_key ?g ''VERSION_TAG''"
    by (auto simp: describe_fields_ok_def field_ok_def commit_ok_def dict_wf_def has_key_def dest: match_describe_parts)
  obtain ok where "parse_version_tag ?g tag = (f, ok)" using f by (cases "parse_version_tag ?g tag") simp
  from parse_version_tag_cases [OF this] g show ?thesis by (auto split: if_splits)
qed

lemma find_closest_ns3_tag_ok:
  assumes "find_closest_ns3_tag git f = Inr f'" and "describe_fields_ok f" and "dict_wf f"
  shows "describe_fields_ok f' \<and> dict_wf f' \<and> version_fields_ok f'"
proof -
  from assms(1) obtain out where "parse_version_tag f (py_strip out) = (f', True)"
    unfolding find_closest_ns3_tag_def res_bind_eq_Inr Let_def by (metis (mono_tags, lifting) Inl_Inr_False Inr_inject case_prod_beta prod.collapse)
  from parse_version_tag_cases [OF this] assms(2,3) show ?thesis by simp
qed

lemma merge_fields_lookup:
  "dict_wf f \<Longrightarrow> map_of (merge_fields env f) k = (case map_of f k of None \<Rightarrow> map_of env k | Some v \<Rightarrow> Some (EStr v))"
proof (induction f arbitrary: env)
  case (Cons x f)
  obtain a v where x: "x = (a, v)" by (cases x)
  have "map_of f a = None" using Cons.prems by (simp add: x dict_wf_def map_of_eq_None_iff)
  moreover have "merge_fields env (x # f) = merge_fields (AList.update a (EStr v) env) f" by (simp add: merge_fields_def x)
  ultimately show ?case
    using Cons.IH [of "AList.update a (EStr v) env"] Cons.prems by (auto simp: x dict_wf_def split: option.splits)
qed (simp add: merge_fields_def)

lemma found_fields_ok:
  assumes "res_bind (find_closest_tag git []) (\<lambda>f.
      if \<not> has_key f ''VERSION_TAG'' then find_closest_ns3_tag git f else Inr f) = Inr g"
  shows "describe_fields_ok g \<and> dict_wf g \<and> version_fields_ok g"
proof -
  from assms obtain f where f: "find_closest_tag git [] = Inr f"
    and g: "(if \<not> has_key f ''VERSION_TAG'' then find_closest_ns3_tag git f else Inr f) = Inr g"
    by (auto simp: res_bind_eq_Inr)
  then show ?thesis using find_closest_tag_ok [OF f] find_closest_ns3_tag_ok [of git f g] by (auto split: if_splits)
qed

text \<open>
  C31: Whatever git prints, the task hands nothing to the cache file but a version whose numbers are
  numbers, with a distance, a hash and a mark, and at most once.  If it succeeds, that version was
  stored and merged into the environment, of which nothing else changes.  If it fails, the environment is
  unchanged and the reason is logged; the cache file is unchanged too, unless writing it was what failed,
  and then it is as the failed write left it.
\<close>
theorem version_run_safe:
  "let r = run_version_info git store env file
   in list_all (\<lambda>f. version_fields_ok f \<and> describe_fields_ok f) (vr_stored r)
    \<and> (if vr_status r = 0
       then \<exists>f. vr_stored r = [f] \<and> store f file = (vr_file r, Inr ())
         \<and> (\<forall>k. map_of (vr_env r) k = (case map_of f k of None \<Rightarrow> map_of env k | Some v \<Rightarrow> Some (EStr v)))
       else vr_status r = 1 \<and> vr_env r = env
         \<and> (\<exists>e. vr_logged r = Some e \<and> (case vr_stored r of
              [] \<Rightarrow> vr_file r = file
            | f # fs \<Rightarrow> fs = [] \<and> store f file = (vr_file r, Inl e))))"
proof (cases "res_bind (find_closest_tag git []) (\<lambda>f.
    if \<not> has_key f ''VERSION_TAG'' then find_closest_ns3_tag git f else Inr f)")
  case (Inl e)
  then show ?thesis by (simp add: run_version_info_def)
next
  case (Inr f)
  obtain file' q where st: "store f file = (file', q)" by (cases "store f file")
  show ?thesis using found_fields_ok [OF Inr] Inr
    by (cases q) (simp_all add: run_version_info_def st merge_fields_lookup)
qed

text \<open>
  In particular a version that cannot be found leaves the cache file of an earlier build in place.
\<close>

lemma no_tags_keeps_cache:
  "git describe_command = Inl (Some err) \<Longrightarrow> vr_file (run_version_info git store env file) = file"
  by (simp add: run_version_info_def find_closest_tag_def git_output_def)

lemma candidate_chars: "candidate_ok c \<Longrightarrow> \<forall>x \<in> set (tag_rest None c). \<not> is_space x"
  by (auto simp: candidate_ok_def tag_rest_def list_all_iff is_space_def [of "CHR ''-''"] is_space_def [of "CHR ''R''"]
      is_space_def [of "CHR ''C''"] split: option.splits)

lemma version_tag_chars:
  assumes "number major" and "number minor" and "patch_ok patch" and "candidate_ok candidate"
  shows "\<forall>x \<in> set (version_tag major minor patch candidate). \<not> is_space x"
proof -
  have d: "\<not> is_space x" if "is_digit x" for x using that by (auto simp: is_digit_def is_space_def)
  have p: "\<not> is_space (CHR ''n'')" "\<not> is_space (CHR ''s'')" "\<not> is_space (CHR ''-'')" "\<not> is_space (CHR ''.'')"
    by (simp_all add: is_space_def)
  have "set (tag_rest patch candidate) \<subseteq> (case patch of None \<Rightarrow> {} | Some q \<Rightarrow> insert (CHR ''.'') (set q)) \<union> set (tag_rest None candidate)"
    by (auto simp: tag_rest_def split: option.splits)
  then have "\<forall>x \<in> set (tag_rest patch candidate). \<not> is_space x"
    using candidate_chars [OF assms(4)] assms(3) d p by (fastforce simp: patch_ok_def number_def list_all_iff split: option.splits)
  then show ?thesis using assms(1,2) d p by (auto simp: version_tag_def number_def list_all_iff)
qed

section \<open>A release\<close>

definition release_fields :: "string \<Rightarrow> string \<Rightarrow> string option \<Rightarrow> string option \<Rightarrow> string \<Rightarrow> string \<Rightarrow> bool \<Rightarrow> fields" where
  "release_fields major minor patch candidate distance commit dirty =
     (let tag = version_tag major minor patch candidate
      in [(''CLOSEST_TAG'', in_quotes tag), (''VERSION_TAG_DISTANCE'', distance), (''VERSION_COMMIT_HASH'', in_quotes (''g'' @ commit)),
          (''VERSION_DIRTY_FLAG'', if dirty then ''1'' else ''0''), (''VERSION_TAG'', in_quotes tag),
          (''VERSION_MAJOR'', major), (''VERSION_MINOR'', minor),
          (''VERSION_PATCH'', case patch of None \<Rightarrow> ''0'' | Some p \<Rightarrow> p),
          (''VERSION_RELEASE_CANDIDATE'', in_quotes (case candidate of None \<Rightarrow> [] | Some r \<Rightarrow> ''RC'' @ r))])"

lemma parse_version_text:
  assumes "number major" and "number minor" and "patch_ok patch" and "candidate_ok candidate"
  shows "parse_version_tag
       [(''CLOSEST_TAG'', a), (''VERSION_TAG_DISTANCE'', b), (''VERSION_COMMIT_HASH'', c), (''VERSION_DIRTY_FLAG'', d)]
       (version_tag major minor patch candidate)
     = ([(''CLOSEST_TAG'', a), (''VERSION_TAG_DISTANCE'', b), (''VERSION_COMMIT_HASH'', c), (''VERSION_DIRTY_FLAG'', d),
         (''VERSION_TAG'', in_quotes (version_tag major minor patch candidate)), (''VERSION_MAJOR'', major), (''VERSION_MINOR'', minor),
         (''VERSION_PATCH'', case patch of None \<Rightarrow> ''0'' | Some p \<Rightarrow> p),
         (''VERSION_RELEASE_CANDIDATE'', in_quotes (case candidate of None \<Rightarrow> [] | Some r \<Rightarrow> ''RC'' @ r))], True)"
proof -
  have s: "py_strip (version_tag major minor patch candidate) = version_tag major minor patch candidate"
    by (rule py_strip_id) (rule version_tag_chars [OF assms])
  have p: "group_or ''0'' patch = (case patch of None \<Rightarrow> ''0'' | Some p \<Rightarrow> p)"
    using assms(3) by (auto simp: group_or_def patch_ok_def number_def split: option.splits)
  have c: "group_or [] (map_option (\<lambda>r. ''RC'' @ r) candidate) = (case candidate of None \<Rightarrow> [] | Some r \<Rightarrow> ''RC'' @ r)"
    by (simp add: group_or_def split: option.splits)
  show ?thesis
    unfolding parse_version_tag_def Let_def s match_version_text [OF assms] by (simp only: option.case prod.case p c) simp
qed

text \<open>
  C32: For a repository whose closest tag is a version, written as git writes it, the task finds
  exactly the parts of the tag, the distance, the hash and the mark, stores them in the cache file and,
  when that does not raise, merges them into the environment.
\<close>
theorem release_version:
  assumes "number major" and "number minor" and "patch_ok patch" and "candidate_ok candidate"
    and "number distance" and "hash_ok commit"
    and "git describe_command
      = Inr (version_tag major minor patch candidate @ CHR ''-'' # describe_rest distance commit dirty @ [NL])"
    and "store (release_fields major minor patch candidate distance commit dirty) file = (file', Inr ())"
  shows "run_version_info git store env file = \<lparr>vr_status = 0,
      vr_env = merge_fields env (release_fields major minor patch candidate distance commit dirty),
      vr_file = file', vr_stored = [release_fields major minor patch candidate distance commit dirty], vr_logged = None\<rparr>"
proof -
  let ?t = "version_tag major minor patch candidate"
  have "?t \<noteq> []" by (simp add: version_tag_def)
  moreover have "NL \<notin> set ?t" using version_tag_chars [OF assms(1-4)] by (auto simp: is_space_def)
  ultimately have m: "match_describe (?t @ CHR ''-'' # describe_rest distance commit dirty @ [NL]) = Some (?t, distance, ''g'' @ commit, dirty)"
    using assms(5,6) by (rule match_describe_text)
  have u: "AList.update ''VERSION_DIRTY_FLAG'' d (AList.update ''VERSION_COMMIT_HASH'' c
      (AList.update ''VERSION_TAG_DISTANCE'' b (AList.update ''CLOSEST_TAG'' a [])))
    = [(''CLOSEST_TAG'', a), (''VERSION_TAG_DISTANCE'', b), (''VERSION_COMMIT_HASH'', c), (''VERSION_DIRTY_FLAG'', d)]" for a b c d
    by simp
  have f: "find_closest_tag git [] = Inr (release_fields major minor patch candidate distance commit dirty)"
    unfolding find_closest_tag_def git_output_def assms(7) Let_def
    by (simp only: sum.case res_bind_Inr m option.case prod.case u parse_version_text [OF assms(1-4)] fst_conv release_fields_def Let_def)
  have k: "has_key (release_fields major minor patch candidate distance commit dirty) ''VERSION_TAG''"
    by (simp add: release_fields_def has_key_def Let_def)
  show ?thesis by (simp add: run_version_info_def f k assms(8))
qed

text \<open>
  Configuring fails exactly when the version is asked for, there is no repository with tags of the
  simulator, and no cache file can be loaded; when it succeeds the environment says whether there is such
  a repository, and without one it holds what the first cache file holds.
\<close>
theorem configure_version_result:
  "let b = have_git \<and> quiet_output git toplevel_command \<noteq> [] \<and> quiet_output git has_tags_command \<noteq> []
   in case configure_version True have_git git cache_paths load env of
        Inl e \<Rightarrow> \<not> b \<and> (case cache_paths of [] \<Rightarrow> e = no_version_error | p # _ \<Rightarrow> load p = Inl e)
      | Inr env' \<Rightarrow> (b \<and> map_of env' ''HAVE_NS3_REPO'' = Some (EBool True) \<and> map_of env' ''HAVE_GIT_REPO'' = Some (EBool True))
          \<or> (\<not> b \<and> (\<exists>p ps f. cache_paths = p # ps \<and> load p = Inr f \<and> (dict_wf f \<longrightarrow> (\<forall>k v. map_of f k = Some v \<longrightarrow> map_of env' k = Some (EStr v)))))"
  by (auto simp: configure_version_def check_git_repo_def check_git_repo_has_ns3_tags_def Let_def res_bind_def merge_fields_lookup
      split: sum.splits list.splits)

section \<open>Examples\<close>

definition sample_git :: git where
  "sample_git cmd = (if cmd = describe_command then Inr (''ns-3.35.1-12-gab34f-dirty'' @ [NL]) else Inl None)"

definition sample_store :: store where
  "sample_store f file = (Some (concat (map (\<lambda>(k, v). k @ '' = '' @ v @ [NL]) f)), Inr ())"

theorem release_version_witness:
  "let r = run_version_info sample_git sample_store [] None
   in vr_status r = 0 \<and> vr_file r \<noteq> None \<and> map_of (vr_env r) ''VERSION_PATCH'' = Some (EStr ''1'') \<and> map_of (vr_env r) ''VERSION_DIRTY_FLAG'' = Some (EStr ''1'')"
proof -
  have g: "sample_git describe_command
      = Inr (version_tag ''3'' ''35'' (Some ''1'') None @ CHR ''-'' # describe_rest ''12'' ''ab34f'' True @ [NL])"
    by (simp add: sample_git_def version_tag_def tag_rest_def describe_rest_def)
  have n: "number ''3''" "number ''35''" "patch_ok (Some ''1'')" "candidate_ok None" "number ''12''" "hash_ok ''ab34f''"
    by (simp_all add: number_def patch_ok_def candidate_ok_def hash_ok_def is_digit_def is_hex_def)
  show ?thesis
    unfolding release_version [where git = sample_git and store = sample_store, OF n g sample_store_def] by (simp add: release_fields_def merge_fields_def Let_def)
qed

theorem configure_version_result_witness:
  "configure_version True True sample_git [''model/version.cache''] (\<lambda>_. Inr [(''VERSION_MAJOR'', ''3'')]) [] \<noteq> Inl no_version_error"
  using configure_version_result [where have_git = True and git = sample_git and cache_paths = "[''model/version.cache'']"
      and load = "\<lambda>_. Inr [(''VERSION_MAJOR'', ''3'')]" and env = "[]"]
  by (auto simp: Let_def split: sum.splits)

text \<open>The character before the third number is not checked, so a second number after a dash is taken for it.\<close>

lemma separator_not_checked: "match_version_tag ''ns-3.30-2'' = Some (''3'', ''30'', Some ''2'', None)"
  by (simp add: match_version_tag_def strip_prefix_def digits_of_def match_patch_def match_candidate_def is_digit_def)

end
