(* ===== verification/Cflags.thy ===== *)
theory Cflags
  imports Py_Prelude
begin

text \<open>
  \<^verbatim>\<open>waf-tools/cflags.py\<close>: the compiler flags of a build profile.  Each compiler family is a class with the
  same three methods; what \<open>configure\<close> asks of them is the locale \<open>compiler_traits\<close>, interpreted on the
  three families.
\<close>

section \<open>Compilers\<close>

text \<open>The loop over the levels, which is the same in the three classes.\<close>

fun warnings_loop :: "string list list \<Rightarrow> nat list \<Rightarrow> string list" where
  "warnings_loop table [] = []"
| "warnings_loop table (l # ls) = (if l < length table then table ! l @ warnings_loop table ls else [])"

definition warnings_flags :: "string list list \<Rightarrow> int \<Rightarrow> string list" where
  "warnings_flags table level = warnings_loop table [0..<nat level]"

text \<open>A method that reaches its end returns \<open>None\<close>.\<close>

definition gcc_warnings_flags :: "int \<Rightarrow> string list" where
  "gcc_warnings_flags = warnings_flags [[''-Wall''], [''-Werror''], [''-Wextra'']]"

definition gcc_optimization_flags :: "int \<Rightarrow> string list option" where
  "gcc_optimization_flags level =
     (if level = 0 then Some [''-O0''] else if level = 1 then Some [''-O''] else if level = 2 then Some [''-O2'']
      else if level = 3 then Some [''-O3''] else None)"

definition gcc_debug_flags :: "int \<Rightarrow> (string list \<times> string list) option" where
  "gcc_debug_flags level =
     (if level = 0 then Some ([''-g0''], [''NDEBUG'']) else if level = 1 then Some ([''-g''], [])
      else if level \<ge> 2 then Some ([''-ggdb'', ''-g3''], [''_DEBUG'']) else None)"

definition icc_warnings_flags :: "int \<Rightarrow> string list" where
  "icc_warnings_flags = warnings_flags [[], [], [''-Wall'']]"

definition icc_optimization_flags :: "int \<Rightarrow> string list option" where
  "icc_optimization_flags level =
     (if level = 0 then Some [''-O0''] else if level = 1 then Some [''-O''] else if level = 2 then Some [''-O2'']
      else if level = 3 then Some [''-O3''] else None)"

definition icc_debug_flags :: "int \<Rightarrow> (string list \<times> string list) option" where
  "icc_debug_flags level =
     (if level = 0 then Some ([''-g0''], [''NDEBUG'']) else if level = 1 then Some ([''-g''], [])
      else if level \<ge> 2 then Some ([''-ggdb'', ''-g3''], [''_DEBUG'']) else None)"

definition msvc_warnings_flags :: "int \<Rightarrow> string list" where
  "msvc_warnings_flags = warnings_flags [[''/W2''], [''/WX''], [''/Wall'']]"

definition msvc_optimization_flags :: "int \<Rightarrow> string list option" where
  "msvc_optimization_flags level =
     (if level = 0 then Some [''/Od''] else if level = 1 then Some [] else if level = 2 then Some [''/O2'']
      else if level = 3 then Some [''/Ox''] else None)"

definition msvc_debug_flags :: "int \<Rightarrow> (string list \<times> string list) option" where
  "msvc_debug_flags level =
     (if level = 0 then Some ([], [''NDEBUG'']) else if level = 1 then Some ([''/ZI'', ''/RTC1''], [])
      else if level \<ge> 2 then Some ([''/ZI'', ''/RTC1''], [''_DEBUG'']) else None)"

datatype compiler = Gcc | Icc | Msvc

fun get_warnings_flags :: "compiler \<Rightarrow> int \<Rightarrow> string list" where
  "get_warnings_flags Gcc = gcc_warnings_flags"
| "get_warnings_flags Icc = icc_warnings_flags"
| "get_warnings_flags Msvc = msvc_warnings_flags"

fun get_optimization_flags :: "compiler \<Rightarrow> int \<Rightarrow> string list option" where
  "get_optimization_flags Gcc = gcc_optimization_flags"
| "get_optimization_flags Icc = icc_optimization_flags"
| "get_optimization_flags Msvc = msvc_optimization_flags"

fun get_debug_flags :: "compiler \<Rightarrow> int \<Rightarrow> (string list \<times> string list) option" where
  "get_debug_flags Gcc = gcc_debug_flags"
| "get_debug_flags Icc = icc_debug_flags"
| "get_debug_flags Msvc = msvc_debug_flags"

definition compiler_mapping :: "(string, compiler) dict" where
  "compiler_mapping =
     [(''gcc'', Gcc), (''g++'', Gcc), (''msvc'', Msvc), (''icc'', Icc), (''icpc'', Icc), (''clang'', Gcc), (''clang++'', Gcc)]"

text \<open>Optimisation, warnings and debug level of each profile.\<close>

definition profiles :: "(string, int \<times> int \<times> int) dict" where
  "profiles = [(''default'', (2, 1, 1)), (''debug'', (0, 2, 3)), (''release'', (3, 1, 0))]"

section \<open>Configuration\<close>

record flags_env =
  COMPILER_CC :: string
  COMPILER_CXX :: string
  CCFLAGS :: "string list"
  CCDEFINES :: "string list"
  CXXFLAGS :: "string list"
  CXXDEFINES :: "string list"

text \<open>An unset compiler is the empty text; \<open>None\<close> and unknown names are not in the mapping.\<close>

definition choose_compiler :: "flags_env \<Rightarrow> compiler option" where
  "choose_compiler env = (case map_of compiler_mapping (COMPILER_CC env) of
     Some c \<Rightarrow> Some c | None \<Rightarrow> map_of compiler_mapping (COMPILER_CXX env))"

definition append_flags :: "flags_env \<Rightarrow> string list \<Rightarrow> string list \<Rightarrow> flags_env" where
  "append_flags env flags defs =
     (let env = (if COMPILER_CC env \<noteq> [] \<and> CCFLAGS env = []
                 then env\<lparr>CCFLAGS := CCFLAGS env @ flags, CCDEFINES := CCDEFINES env @ defs\<rparr> else env)
      in if COMPILER_CXX env \<noteq> [] \<and> CXXFLAGS env = []
         then env\<lparr>CXXFLAGS := CXXFLAGS env @ flags, CXXDEFINES := CXXDEFINES env @ defs\<rparr> else env)"

definition no_compiler_error :: py_error where
  "no_compiler_error = WafError ''neither COMPILER_CC nor COMPILER_CXX are defined; maybe the compiler_cc or compiler_cxx tool has not been configured yet?''"

text \<open>
  The list of optimisation flags is only used when it is appended; a \<open>None\<close> there never happens for the
  profiles and is a \<open>TypeError\<close> here, as unpacking the debug flags is.
\<close>

definition configure_flags :: "string \<Rightarrow> bool \<Rightarrow> flags_env \<Rightarrow> flags_env res" where
  "configure_flags build_profile disable_werror env =
     (if COMPILER_CC env = [] \<and> COMPILER_CXX env = [] then Inl no_compiler_error
      else (case choose_compiler env of
        None \<Rightarrow> Inr env
      | Some c \<Rightarrow>
          res_bind (dict_get profiles build_profile) (\<lambda>(opt_level, warn_level, dbg_level).
            case (get_optimization_flags c opt_level, get_debug_flags c dbg_level) of
              (Some optimizations, Some (debug, debug_defs)) \<Rightarrow>
                (let warnings = get_warnings_flags c warn_level;
                     warnings = (if disable_werror then remove1 ''-Werror'' warnings else warnings)
                 in Inr (append_flags env (optimizations @ debug @ warnings) debug_defs))
            | _ \<Rightarrow> Inl TypeError)))"

section \<open>What the configuration asks of a compiler\<close>

lemma warnings_loop_eq: "warnings_loop table [k..<n] = concat (take (n - k) (drop k table))"
proof (induction "n - k" arbitrary: k)
  case (Suc m)
  then have k: "[k..<n] = k # [Suc k..<n]" by (simp add: upt_conv_Cons)
  show ?case
  proof (cases "k < length table")
    case True
    have "warnings_loop table [Suc k..<n] = concat (take (n - Suc k) (drop (Suc k) table))"
      using Suc.hyps(2) by (intro Suc.hyps(1)) simp
    moreover have "drop k table = table ! k # drop (Suc k) table" using True by (rule Cons_nth_drop_Suc [symmetric])
    moreover have "n - k = Suc (n - Suc k)" using Suc.hyps(2) by simp
    ultimately show ?thesis using True by (simp add: k)
  qed (simp add: k)
qed simp

lemma warnings_flags_eq: "warnings_flags table level = concat (take (nat level) table)"
  by (simp add: warnings_flags_def warnings_loop_eq)

locale compiler_traits =
  fixes warnings :: "int \<Rightarrow> string list"
    and optimization :: "int \<Rightarrow> string list option"
    and debug :: "int \<Rightarrow> (string list \<times> string list) option"
  assumes cumulative: "l \<le> k \<Longrightarrow> prefix (warnings l) (warnings k)"
    and optimization_total: "0 \<le> l \<Longrightarrow> l \<le> 3 \<Longrightarrow> optimization l \<noteq> None"
    and debug_total: "0 \<le> l \<Longrightarrow> debug l \<noteq> None"
    and one_werror: "distinct (warnings l)"
begin

lemma werror_removed: "''-Werror'' \<notin> set (remove1 ''-Werror'' (warnings l))"
  using one_werror [of l] by simp

lemma flags_exist:
  assumes "0 \<le> a" and "a \<le> 3" and "0 \<le> b"
  shows "\<exists>os ds defs. optimization a = Some os \<and> debug b = Some (ds, defs)"
  using optimization_total [OF assms(1,2)] debug_total [OF assms(3)] by auto

end

lemma warnings_flags_prefix: "l \<le> k \<Longrightarrow> prefix (warnings_flags table l) (warnings_flags table k)"
proof -
  assume "l \<le> k"
  then have "take (nat k) table = take (nat l) table @ take (nat k - nat l) (drop (nat l) table)"
    using take_add [of "nat l" "nat k - nat l" table] by simp
  then show ?thesis by (simp add: warnings_flags_eq)
qed

lemma warnings_flags_distinct: "distinct (concat table) \<Longrightarrow> distinct (warnings_flags table l)"
proof -
  assume "distinct (concat table)"
  moreover have "concat table = warnings_flags table l @ concat (drop (nat l) table)"
    by (simp add: warnings_flags_eq flip: concat_append)
  ultimately show ?thesis by (metis distinct_append)
qed

interpretation gcc: compiler_traits gcc_warnings_flags gcc_optimization_flags gcc_debug_flags
  by unfold_locales
    (auto simp: gcc_warnings_flags_def gcc_optimization_flags_def gcc_debug_flags_def
      intro: warnings_flags_prefix warnings_flags_distinct)

interpretation icc: compiler_traits icc_warnings_flags icc_optimization_flags icc_debug_flags
  by unfold_locales
    (auto simp: icc_warnings_flags_def icc_optimization_flags_def icc_debug_flags_def
      intro: warnings_flags_prefix warnings_flags_distinct)

interpretation msvc: compiler_traits msvc_warnings_flags msvc_optimization_flags msvc_debug_flags
  by unfold_locales
    (auto simp: msvc_warnings_flags_def msvc_optimization_flags_def msvc_debug_flags_def
      intro: warnings_flags_prefix warnings_flags_distinct)

interpretation any_compiler: compiler_traits "get_warnings_flags c" "get_optimization_flags c" "get_debug_flags c"
  using gcc.compiler_traits_axioms icc.compiler_traits_axioms msvc.compiler_traits_axioms by (cases c) simp_all

lemma profile_levels: "map_of profiles p = Some (a, w, d) \<Longrightarrow> 0 \<le> a \<and> a \<le> 3 \<and> 0 \<le> d"
  by (auto simp: profiles_def split: if_splits)

lemma no_other_werror:
  "get_optimization_flags c a = Some os \<Longrightarrow> ''-Werror'' \<notin> set os"
  "get_debug_flags c d = Some (ds, defs) \<Longrightarrow> ''-Werror'' \<notin> set ds"
  by (cases c; auto simp: gcc_optimization_flags_def icc_optimization_flags_def msvc_optimization_flags_def
      gcc_debug_flags_def icc_debug_flags_def msvc_debug_flags_def split: if_splits)+

text \<open>
  With a known compiler and a known profile the configuration succeeds.  It keeps flags that the
  user has set; otherwise both compilers, where they are set, get the same flags: those of the levels of
  the profile, without \<open>-Werror\<close> when that is disabled.
\<close>
theorem configure_flags_profile:
  assumes "choose_compiler env = Some c" and "map_of profiles p = Some (a, w, d)"
  shows "\<exists>env' os ds defs ws. configure_flags p werror env = Inr env'
    \<and> get_optimization_flags c a = Some os \<and> get_debug_flags c d = Some (ds, defs)
    \<and> ws = (if werror then remove1 ''-Werror'' (get_warnings_flags c w) else get_warnings_flags c w)
    \<and> CCFLAGS env' = (if COMPILER_CC env \<noteq> [] \<and> CCFLAGS env = [] then os @ ds @ ws else CCFLAGS env)
    \<and> CXXFLAGS env' = (if COMPILER_CXX env \<noteq> [] \<and> CXXFLAGS env = [] then os @ ds @ ws else CXXFLAGS env)
    \<and> (werror \<longrightarrow> ''-Werror'' \<notin> set (os @ ds @ ws))"
proof -
  from any_compiler.flags_exist [of a d c] profile_levels [OF assms(2)] obtain os ds defs where
    f: "get_optimization_flags c a = Some os" "get_debug_flags c d = Some (ds, defs)" by auto
  have "\<not> (COMPILER_CC env = [] \<and> COMPILER_CXX env = [])"
    using assms(1) by (auto simp: choose_compiler_def compiler_mapping_def split: option.splits)
  then show ?thesis
    using assms f any_compiler.werror_removed [of c w] no_other_werror(1) [OF f(1)]  no_other_werror(2) [OF f(2)]
    by (auto simp: configure_flags_def append_flags_def dict_get_def Let_def)
qed

text \<open>Only the spelling of gcc is removed: with Microsoft's compiler warnings stay errors.\<close>

definition msvc_env :: flags_env where
  "msvc_env = \<lparr>COMPILER_CC = [], COMPILER_CXX = ''msvc'', CCFLAGS = [], CCDEFINES = [], CXXFLAGS = [], CXXDEFINES = []\<rparr>"

lemma msvc_werror_stays: "case configure_flags ''debug'' True msvc_env of Inl e \<Rightarrow> False | Inr env \<Rightarrow> ''/WX'' \<in> set (CXXFLAGS env)"
  by code_simp

theorem configure_flags_profile_witness:
  "\<exists>env'. configure_flags ''debug'' True (msvc_env\<lparr>COMPILER_CC := ''gcc''\<rparr>) = Inr env'
     \<and> CCFLAGS env' = [''-O0'', ''-ggdb'', ''-g3'', ''-Wall''] \<and> CXXFLAGS env' = CCFLAGS env'"
proof -
  have c: "choose_compiler (msvc_env\<lparr>COMPILER_CC := ''gcc''\<rparr>) = Some Gcc" by code_simp
  have p: "map_of profiles ''debug'' = Some (0, 2, 3)" by code_simp
  have w: "remove1 ''-Werror'' (get_warnings_flags Gcc 2) = [''-Wall'']" by code_simp
  from configure_flags_profile [OF c p, of True] w show ?thesis
    by (auto simp: gcc_optimization_flags_def gcc_debug_flags_def msvc_env_def)
qed

end
