(* ===== verification/Flowmon.thy ===== *)
theory Flowmon
  imports Py_Float Test_Report
begin

text \<open>
  \<^verbatim>\<open>src/flow-monitor/examples/flowmon-parse-results.py\<close>: from the tree of a results file of the flow
  monitor to the statistics of its flows, and their listing.  The parser of XML is the library's: the
  program sees the starts and ends of the elements of a tree in document order.  A dictionary from
  identifiers to flows holds references to the flows in the list; here it holds their indices.
\<close>

section \<open>Attributes\<close>

definition attr_text :: "xml \<Rightarrow> string \<Rightarrow> string option" where
  "attr_text el k = map_of (xattrs el) k"

text \<open>\<open>int(el.get(k))\<close> and \<open>float(el.get(k))\<close>; a missing attribute is \<open>None\<close>.\<close>

definition attr_int :: "xml \<Rightarrow> string \<Rightarrow> int res" where
  "attr_int el k = (case attr_text el k of None \<Rightarrow> Inl TypeError | Some s \<Rightarrow> int_of_string s)"

definition attr_float :: "xml \<Rightarrow> string \<Rightarrow> pyfloat res" where
  "attr_float el k = (case attr_text el k of None \<Rightarrow> Inl TypeError | Some s \<Rightarrow> float_of_string s)"

definition parse_time_ns :: "string option \<Rightarrow> pyfloat res" where
  "parse_time_ns tm = (case tm of
     None \<Rightarrow> Inl AttributeError
   | Some s \<Rightarrow> if suffix ''ns'' s then float_of_string (py_slice s 0 (-2)) else Inl (ValueError s))"

text \<open>\<open>el.findall("a/b")\<close>.\<close>

definition xfindall2 :: "string \<Rightarrow> string \<Rightarrow> xml \<Rightarrow> xml list" where
  "xfindall2 a b el = concat (map (xfindall b) (xfindall a el))"

section \<open>Flows\<close>

record five_tuple =
  sourceAddress :: "string option"
  destinationAddress :: "string option"
  sourcePort :: int
  destinationPort :: int
  protocol :: int

definition new_five_tuple :: "xml \<Rightarrow> five_tuple res" where
  "new_five_tuple el =
     res_bind (attr_int el ''sourcePort'') (\<lambda>sp.
     res_bind (attr_int el ''destinationPort'') (\<lambda>dp.
     res_bind (attr_int el ''protocol'') (\<lambda>pr.
       Inr \<lparr>sourceAddress = attr_text el ''sourceAddress'', destinationAddress = attr_text el ''destinationAddress'',
            sourcePort = sp, destinationPort = dp, protocol = pr\<rparr>)))"

type_synonym histogram = "(pyfloat \<times> pyfloat \<times> int) list"

definition new_histogram :: "xml \<Rightarrow> histogram res" where
  "new_histogram el =
     res_map (\<lambda>b. res_bind (attr_float b ''start'') (\<lambda>s.
                  res_bind (attr_float b ''width'') (\<lambda>w.
                  res_bind (attr_int b ''count'') (\<lambda>c. Inr (s, w, c))))) (xfindall ''bin'' el)"

record probe_flow_stats =
  probeId :: int
  packets :: int
  bytes :: pyfloat
  delayFromFirstProbe :: pyfloat

text \<open>
  \<open>fiveTuple\<close> is assigned after the constructor, by the classifier; it is \<open>None\<close> before.  The other
  options are \<open>None\<close> in the program too.
\<close>

record flow =
  flowId :: int
  rx_duration :: pyfloat
  hopCount :: pyfloat
  delayMean :: "pyfloat option"
  packetSizeMean :: "pyfloat option"
  rxBitrate :: "pyfloat option"
  txBitrate :: "pyfloat option"
  packetLossRatio :: "pyfloat option"
  flowInterruptionsHistogram :: "histogram option"
  fiveTuple :: "five_tuple option"
  probe_stats_unsorted :: "probe_flow_stats list"

text \<open>\<open>(parse_time_ns(el.get(last)) - parse_time_ns(el.get(first))) * 1e-9\<close>.\<close>

definition duration :: "xml \<Rightarrow> string \<Rightarrow> string \<Rightarrow> pyfloat res" where
  "duration el last_key first_key =
     res_bind (parse_time_ns (attr_text el last_key)) (\<lambda>l.
     res_bind (parse_time_ns (attr_text el first_key)) (\<lambda>f. Inr ((l - f) * Fin (1 / 10 ^ 9))))"

definition hop_count :: "xml \<Rightarrow> pyfloat \<Rightarrow> pyfloat res" where
  "hop_count el rxPackets =
     (if float_zero rxPackets then Inr (Fin (-1000))
      else res_bind (attr_float el ''timesForwarded'') (\<lambda>t.
           res_bind (float_div t rxPackets) (\<lambda>q. Inr (q + Fin 1))))"

text \<open>The last two characters of the sum of delays are cut off without a look at them.\<close>

definition delay_sum :: "xml \<Rightarrow> pyfloat res" where
  "delay_sum el = (case attr_text el ''delaySum'' of None \<Rightarrow> Inl TypeError | Some s \<Rightarrow> float_of_string (py_slice s 0 (-2)))"

definition means :: "xml \<Rightarrow> pyfloat \<Rightarrow> (pyfloat option \<times> pyfloat option) res" where
  "means el rxPackets =
     (if float_zero rxPackets then Inr (None, None)
      else res_bind (delay_sum el) (\<lambda>d.
           res_bind (float_div d rxPackets) (\<lambda>q.
           res_bind (attr_float el ''rxBytes'') (\<lambda>b.
           res_bind (float_div b rxPackets) (\<lambda>s. Inr (Some (q * Fin (1 / 10 ^ 9)), Some s))))))"

definition bitrate :: "xml \<Rightarrow> string \<Rightarrow> pyfloat \<Rightarrow> (pyfloat option) res" where
  "bitrate el key dur =
     (if float_pos dur
      then res_bind (attr_float el key) (\<lambda>b. res_bind (float_div (b * Fin 8) dur) (\<lambda>r. Inr (Some r)))
      else Inr None)"

definition loss_ratio :: "pyfloat \<Rightarrow> pyfloat \<Rightarrow> (pyfloat option) res" where
  "loss_ratio lost rxPackets =
     (if float_zero rxPackets then Inr None
      else res_bind (float_div lost (rxPackets + lost)) (\<lambda>r. Inr (Some r)))"

definition new_flow :: "xml \<Rightarrow> flow res" where
  "new_flow el =
     res_bind (attr_int el ''flowId'') (\<lambda>fid.
     res_bind (attr_float el ''rxPackets'') (\<lambda>rxPackets.
     res_bind (attr_float el ''txPackets'') (\<lambda>txPackets.
     res_bind (duration el ''timeLastTxPacket'' ''timeFirstTxPacket'') (\<lambda>tx_dur.
     res_bind (duration el ''timeLastRxPacket'' ''timeFirstRxPacket'') (\<lambda>rx_dur.
     res_bind (hop_count el rxPackets) (\<lambda>hops.
     res_bind (means el rxPackets) (\<lambda>(delay, size).
     res_bind (bitrate el ''rxBytes'' rx_dur) (\<lambda>rx_rate.
     res_bind (bitrate el ''txBytes'' tx_dur) (\<lambda>tx_rate.
     res_bind (attr_float el ''lostPackets'') (\<lambda>lost.
     res_bind (loss_ratio lost rxPackets) (\<lambda>loss.
     res_bind (case xfind ''flowInterruptionsHistogram'' el of
                 None \<Rightarrow> Inr None
               | Some h \<Rightarrow> res_bind (new_histogram h) (\<lambda>h. Inr (Some h))) (\<lambda>hist.
       Inr \<lparr>flowId = fid, rx_duration = rx_dur, hopCount = hops, delayMean = delay, packetSizeMean = size,
            rxBitrate = rx_rate, txBitrate = tx_rate, packetLossRatio = loss, flowInterruptionsHistogram = hist,
            fiveTuple = None, probe_stats_unsorted = []\<rparr>))))))))))))"

section \<open>Simulations\<close>

text \<open>The flows in order and the dictionary from their identifiers to their places.\<close>

type_synonym flow_store = "flow list \<times> (int, nat) dict"

definition add_flow :: "flow_store \<Rightarrow> xml \<Rightarrow> flow_store res" where
  "add_flow st el =
     res_bind (new_flow el) (\<lambda>f. Inr (fst st @ [f], AList.update (flowId f) (length (fst st)) (snd st)))"

definition change_flow :: "flow_store \<Rightarrow> int \<Rightarrow> (flow \<Rightarrow> flow) \<Rightarrow> flow_store res" where
  "change_flow st fid f = res_bind (dict_get (snd st) fid) (\<lambda>i. Inr ((fst st)[i := f (fst st ! i)], snd st))"

text \<open>The right side of the assignment is evaluated before the flow is looked up.\<close>

definition classify_flow :: "flow_store \<Rightarrow> xml \<Rightarrow> flow_store res" where
  "classify_flow st el =
     res_bind (attr_int el ''flowId'') (\<lambda>fid.
     res_bind (new_five_tuple el) (\<lambda>t. change_flow st fid (\<lambda>f. f\<lparr>fiveTuple := Some t\<rparr>)))"

definition probe_stats :: "int \<Rightarrow> xml \<Rightarrow> (int \<times> probe_flow_stats) res" where
  "probe_stats pid el =
     res_bind (attr_int el ''flowId'') (\<lambda>fid.
     res_bind (attr_int el ''packets'') (\<lambda>n.
     res_bind (attr_float el ''bytes'') (\<lambda>b.
     res_bind (if 0 < n
               then res_bind (parse_time_ns (attr_text el ''delayFromFirstProbeSum'')) (\<lambda>d. float_div d (Fin (of_int n)))
               else Inr (Fin 0)) (\<lambda>delay.
       Inr (fid, \<lparr>probeId = pid, packets = n, bytes = b, delayFromFirstProbe = delay\<rparr>)))))"

definition add_stats :: "int \<Rightarrow> flow_store \<Rightarrow> xml \<Rightarrow> flow_store res" where
  "add_stats pid st el =
     res_bind (probe_stats pid el) (\<lambda>(fid, s).
       change_flow st fid (\<lambda>f. f\<lparr>probe_stats_unsorted := probe_stats_unsorted f @ [s]\<rparr>))"

definition add_probe :: "flow_store \<Rightarrow> xml \<Rightarrow> flow_store res" where
  "add_probe st el =
     res_bind (attr_int el ''index'') (\<lambda>pid. res_fold (add_stats pid) (xfindall ''FlowStats'' el) st)"

definition unpack_one :: "'a list \<Rightarrow> 'a res" where
  "unpack_one xs = (case xs of
     [] \<Rightarrow> Inl (ValueError ''not enough values to unpack (expected 1, got 0)'')
   | [x] \<Rightarrow> Inr x
   | _ \<Rightarrow> Inl (ValueError ''too many values to unpack (expected 1)''))"

definition simulation :: "xml \<Rightarrow> (flow list) res" where
  "simulation el =
     res_bind (unpack_one (xfindall ''Ipv4FlowClassifier'' el)) (\<lambda>cls.
     res_bind (res_fold add_flow (xfindall2 ''FlowStats'' ''Flow'' el) ([], [])) (\<lambda>st.
     res_bind (res_fold classify_flow (xfindall ''Flow'' cls) st) (\<lambda>st.
     res_bind (res_fold add_probe (xfindall2 ''FlowProbes'' ''FlowProbe'' el) st) (\<lambda>st. Inr (fst st)))))"

section \<open>The program\<close>

text \<open>The events of \<open>ElementTree.iterparse\<close>: \<open>True\<close> is the start of an element, \<open>False\<close> its end.\<close>

fun iterparse :: "xml \<Rightarrow> (bool \<times> xml) list" where
  "iterparse (Elem t as x ks) = (True, Elem t as x ks) # concat (map iterparse ks) @ [(False, Elem t as x ks)]"

record reader =
  rd_level :: int
  rd_sims :: "flow list list"
  rd_out :: string

definition read_event :: "reader \<Rightarrow> bool \<times> xml \<Rightarrow> reader \<times> unit res" where
  "read_event r e =
     (if fst e then (r\<lparr>rd_level := rd_level r + 1\<rparr>, Inr ())
      else (let r = r\<lparr>rd_level := rd_level r - 1\<rparr>
            in if rd_level r = 0 \<and> xtag (snd e) = ''FlowMonitor''
               then (case simulation (snd e) of
                       Inl err \<Rightarrow> (r, Inl err)
                     | Inr sim \<Rightarrow> (r\<lparr>rd_sims := rd_sims r @ [sim], rd_out := rd_out r @ ''.''\<rparr>, Inr ()))
               else (r, Inr ())))"

fun read_events :: "(bool \<times> xml) list \<Rightarrow> reader \<Rightarrow> reader \<times> unit res" where
  "read_events [] r = (r, Inr ())"
| "read_events (e # es) r = (case read_event r e of (r', Inl err) \<Rightarrow> (r', Inl err) | (r', Inr _) \<Rightarrow> read_events es r')"

definition protocol_names :: "(int, string) dict" where
  "protocol_names = [(6, ''TCP''), (17, ''UDP'')]"

definition value_line :: "string \<Rightarrow> rat \<Rightarrow> string \<Rightarrow> pyfloat option \<Rightarrow> string" where
  "value_line label factor unit v =
     line_nl (TAB # label @ '': '' @ (case v of None \<Rightarrow> ''None'' | Some x \<Rightarrow> fmt_float 2 (x * Fin factor) @ '' '' @ unit))"

definition flow_title :: "flow \<Rightarrow> five_tuple \<Rightarrow> string \<Rightarrow> string" where
  "flow_title f t proto =
     line_nl (''FlowID: '' @ show_int (flowId f) @ '' ('' @ proto @ '' '' @ pct_s (sourceAddress t) @ ''/'' @ show_int (sourcePort t)
       @ '' --> '' @ pct_s (destinationAddress t) @ ''/'' @ show_int (destinationPort t) @ '')'')"

definition print_flow :: "flow \<Rightarrow> string res" where
  "print_flow f = (case fiveTuple f of
     None \<Rightarrow> Inl AttributeError
   | Some t \<Rightarrow> res_bind (dict_get protocol_names (protocol t)) (\<lambda>proto.
       Inr (flow_title f t proto
         @ value_line ''TX bitrate'' (1 / 10 ^ 3) ''kbit/s'' (txBitrate f)
         @ value_line ''RX bitrate'' (1 / 10 ^ 3) ''kbit/s'' (rxBitrate f)
         @ value_line ''Mean Delay'' (10 ^ 3) ''ms'' (delayMean f)
         @ value_line ''Packet Loss Ratio'' 100 ''%'' (packetLossRatio f))))"

fun print_flows :: "flow list \<Rightarrow> string \<times> unit res" where
  "print_flows [] = ([], Inr ())"
| "print_flows (f # fs) = (case print_flow f of
     Inl e \<Rightarrow> ([], Inl e)
   | Inr s \<Rightarrow> (let (out, r) = print_flows fs in (s @ out, r)))"

text \<open>What the program writes, and how it ends.\<close>

definition flowmon_main :: "xml \<Rightarrow> string \<times> unit res" where
  "flowmon_main tree =
     (case read_events (iterparse tree) \<lparr>rd_level = 0, rd_sims = [], rd_out = ''Reading XML file  ''\<rparr> of
        (r, Inl e) \<Rightarrow> (rd_out r, Inl e)
      | (r, Inr _) \<Rightarrow> (let (out, res) = print_flows (concat (rd_sims r)) in (rd_out r @ line_nl '' done.'' @ out, res)))"

section \<open>Reading the file\<close>

lemma read_events_append:
  "read_events (xs @ ys) r = (case read_events xs r of (r', Inl e) \<Rightarrow> (r', Inl e) | (r', Inr _) \<Rightarrow> read_events ys r')"
  by (induction xs arbitrary: r) (auto split: prod.splits sum.splits)

text \<open>Elements inside the root pass without effect.\<close>

lemma read_inner: "1 \<le> rd_level r \<Longrightarrow> read_events (iterparse e) r = (r, Inr ())"
proof (induction e arbitrary: r rule: iterparse.induct)
  case (1 t as x ks)
  let ?r = "r\<lparr>rd_level := rd_level r + 1\<rparr>"
  have "read_events (concat (map iterparse ks')) ?r = (?r, Inr ())" if "set ks' \<subseteq> set ks" for ks'
    using that
  proof (induction ks')
    case (Cons k ks')
    then have "read_events (iterparse k) ?r = (?r, Inr ())" using "1.IH" [of k ?r] "1.prems" by simp
    with Cons show ?case by (simp add: read_events_append)
  qed simp
  from this [of ks] "1.prems" show ?case
    by (simp add: read_event_def read_events_append Let_def)
qed

lemma read_inner_list: "1 \<le> rd_level r \<Longrightarrow> read_events (concat (map iterparse ks)) r = (r, Inr ())"
  by (induction ks) (simp_all add: read_events_append read_inner)

lemma print_flows_ok:
  "snd (print_flows fs) = Inr () \<longleftrightarrow> (\<forall>f \<in> set fs. \<exists>t. fiveTuple f = Some t \<and> protocol t \<in> {6, 17})"
  by (induction fs)
    (auto simp: print_flow_def protocol_names_def dict_get_def split: option.splits sum.splits prod.splits if_splits)

text \<open>
  C15: The program reads one simulation if the root of the file is a \<open>FlowMonitor\<close> element and none
  otherwise; what it writes and raises is what the simulation and the printing of its flows give, in
  order, and it succeeds exactly when every flow is classified as TCP or UDP.
\<close>
theorem flowmon_main_result:
  "flowmon_main tree =
     (if xtag tree \<noteq> ''FlowMonitor'' then (''Reading XML file   done.'' @ [NL], Inr ())
      else (case simulation tree of
              Inl e \<Rightarrow> (''Reading XML file  '', Inl e)
            | Inr fs \<Rightarrow> (''Reading XML file  . done.'' @ [NL] @ fst (print_flows fs), snd (print_flows fs))))
   \<and> (snd (flowmon_main tree) = Inr () \<longleftrightarrow> xtag tree \<noteq> ''FlowMonitor''
        \<or> (\<exists>fs. simulation tree = Inr fs \<and> (\<forall>f \<in> set fs. \<exists>t. fiveTuple f = Some t \<and> protocol t \<in> {6, 17})))"
proof -
  obtain t as x ks where tree: "tree = Elem t as x ks" by (cases tree)
  have r: "flowmon_main tree =
     (if xtag tree \<noteq> ''FlowMonitor'' then (''Reading XML file   done.'' @ [NL], Inr ())
      else (case simulation tree of
              Inl e \<Rightarrow> (''Reading XML file  '', Inl e)
            | Inr fs \<Rightarrow> (''Reading XML file  . done.'' @ [NL] @ fst (print_flows fs), snd (print_flows fs))))"
    unfolding flowmon_main_def tree
    by (simp add: read_event_def read_events_append read_inner_list Let_def line_nl_def split: sum.splits prod.splits)
  then show ?thesis unfolding r by (auto simp: print_flows_ok split: sum.splits)
qed

section \<open>What a simulation holds\<close>

lemma res_fold_map:
  assumes "\<And>s x. f s x = res_bind (g x) (h s)"
  shows "res_fold f xs s = Inr t \<longleftrightarrow> (\<exists>ys. res_map g xs = Inr ys \<and> res_fold h ys s = Inr t)"
  by (induction xs arbitrary: s) (auto simp: assms res_bind_eq_Inr; blast)+

text \<open>A change of flows through the dictionary, and what it makes of the flow at one place.\<close>

definition apply_change :: "flow_store \<Rightarrow> int \<times> (flow \<Rightarrow> flow) \<Rightarrow> flow_store res" where
  "apply_change st c = change_flow st (fst c) (snd c)"

fun changed :: "(int, nat) dict \<Rightarrow> nat \<Rightarrow> (int \<times> (flow \<Rightarrow> flow)) list \<Rightarrow> flow \<Rightarrow> flow" where
  "changed m i [] x = x"
| "changed m i (c # cs) x = changed m i cs (if map_of m (fst c) = Some i then snd c x else x)"

lemma apply_change_eq:
  "apply_change (fs, m) c = Inr st \<longleftrightarrow> (\<exists>j. map_of m (fst c) = Some j \<and> st = (fs[j := snd c (fs ! j)], m))"
  by (auto simp: apply_change_def change_flow_def dict_get_def res_bind_eq_Inr split: option.splits)

lemma apply_changes:
  assumes "res_fold apply_change cs (fs, m) = Inr (fs', m')"
  shows "m' = m \<and> length fs' = length fs \<and> (\<forall>i < length fs. fs' ! i = changed m i cs (fs ! i))"
  using assms
proof (induction cs arbitrary: fs)
  case (Cons c cs)
  then obtain j where j: "map_of m (fst c) = Some j"
    and r: "res_fold apply_change cs (fs[j := snd c (fs ! j)], m) = Inr (fs', m')"
    by (auto simp: res_bind_eq_Inr apply_change_eq)
  from Cons.IH [OF r] j show ?case by (auto simp: nth_list_update)
qed simp

lemma changed_append: "changed m i (cs @ ds) x = changed m i ds (changed m i cs x)"
  by (induction cs arbitrary: x) auto

definition class_entry :: "xml \<Rightarrow> (int \<times> five_tuple) res" where
  "class_entry el = res_bind (attr_int el ''flowId'') (\<lambda>fid. res_bind (new_five_tuple el) (\<lambda>t. Inr (fid, t)))"

definition probe_entries :: "xml \<Rightarrow> ((int \<times> probe_flow_stats) list) res" where
  "probe_entries el = res_bind (attr_int el ''index'') (\<lambda>pid. res_map (probe_stats pid) (xfindall ''FlowStats'' el))"

definition set_tuple :: "int \<times> five_tuple \<Rightarrow> int \<times> (flow \<Rightarrow> flow)" where
  "set_tuple e = (fst e, \<lambda>f. f\<lparr>fiveTuple := Some (snd e)\<rparr>)"

definition append_stats :: "int \<times> probe_flow_stats \<Rightarrow> int \<times> (flow \<Rightarrow> flow)" where
  "append_stats e = (fst e, \<lambda>f. f\<lparr>probe_stats_unsorted := probe_stats_unsorted f @ [snd e]\<rparr>)"

lemma res_fold_comp: "res_fold f (map g xs) s = res_fold (\<lambda>s x. f s (g x)) xs s"
proof (induction xs arbitrary: s)
  case (Cons x xs)
  show ?case by (cases "f s (g x)") (simp_all add: Cons.IH)
qed simp

lemma classify_fold:
  "res_fold classify_flow els st = Inr st' \<longleftrightarrow>
   (\<exists>cs. res_map class_entry els = Inr cs \<and> res_fold apply_change (map set_tuple cs) st = Inr st')"
  unfolding res_fold_comp
  by (rule res_fold_map)
    (simp add: classify_flow_def class_entry_def apply_change_def set_tuple_def res_bind_assoc)

lemma stats_fold:
  "res_fold (add_stats pid) els st = Inr st' \<longleftrightarrow>
   (\<exists>ps. res_map (probe_stats pid) els = Inr ps \<and> res_fold apply_change (map append_stats ps) st = Inr st')"
  unfolding res_fold_comp
  by (rule res_fold_map) (simp add: add_stats_def apply_change_def append_stats_def split_def)

lemma probe_step:
  "add_probe st el = Inr st' \<longleftrightarrow>
   (\<exists>ps. probe_entries el = Inr ps \<and> res_fold apply_change (map append_stats ps) st = Inr st')"
  by (auto simp: add_probe_def probe_entries_def res_bind_eq_Inr stats_fold)

lemma probe_fold:
  "res_fold add_probe els st = Inr st' \<longleftrightarrow>
   (\<exists>ps. res_map probe_entries els = Inr ps \<and> res_fold apply_change (map append_stats (concat ps)) st = Inr st')"
  by (induction els arbitrary: st) (auto simp: res_bind_eq_Inr probe_step res_fold_append; blast)+

text \<open>After the first loop the dictionary leads from an identifier to the last flow that has it.\<close>

definition is_owner :: "flow list \<Rightarrow> nat \<Rightarrow> bool" where
  "is_owner fs i \<longleftrightarrow> (\<forall>j < length fs. i < j \<longrightarrow> flowId (fs ! j) \<noteq> flowId (fs ! i))"

definition store_ok :: "flow_store \<Rightarrow> bool" where
  "store_ok st \<longleftrightarrow> (\<forall>k i. map_of (snd st) k = Some i
     \<longleftrightarrow> i < length (fst st) \<and> flowId (fst st ! i) = k \<and> is_owner (fst st) i)"

lemma add_flow_eq:
  "add_flow (fs, m) el = Inr st \<longleftrightarrow>
   (\<exists>f. new_flow el = Inr f \<and> st = (fs @ [f], AList.update (flowId f) (length fs) m))"
  by (auto simp: add_flow_def res_bind_eq_Inr)

lemma add_flow_ok:
  assumes "store_ok st" and "add_flow st el = Inr st'"
  shows "store_ok st'"
proof -
  obtain fs m where st: "st = (fs, m)" by (cases st)
  obtain f where st': "st' = (fs @ [f], AList.update (flowId f) (length fs) m)"
    using assms(2) by (auto simp: st add_flow_eq)
  have o: "is_owner (fs @ [f]) i \<longleftrightarrow> is_owner fs i \<and> flowId f \<noteq> flowId (fs ! i)" if "i < length fs" for i
    using that unfolding is_owner_def by (auto simp: nth_append less_Suc_eq)
  have "is_owner (fs @ [f]) (length fs)" by (simp add: is_owner_def)
  with assms(1) o show ?thesis
    by (auto simp: st st' store_ok_def nth_append less_Suc_eq)
qed

lemma add_flow_fold:
  assumes "res_fold add_flow els ([], []) = Inr (gs, m)"
  shows "res_map new_flow els = Inr gs \<and> store_ok (gs, m)"
proof -
  have "\<exists>hs. res_map new_flow els = Inr hs \<and> gs = fs @ hs" if "res_fold add_flow els (fs, n) = Inr (gs, m)" for fs n
    using that
  proof (induction els arbitrary: fs n)
    case (Cons el els)
    then obtain f where f: "new_flow el = Inr f"
      and r: "res_fold add_flow els (fs @ [f], AList.update (flowId f) (length fs) n) = Inr (gs, m)"
      by (auto simp: add_flow_eq res_bind_eq_Inr)
    from Cons.IH [OF r] f show ?case by auto
  qed simp
  from this [OF assms] have "res_map new_flow els = Inr gs" by simp
  moreover have "store_ok (gs, m)"
    by (rule res_fold_invariant [OF assms]) (simp_all add: store_ok_def [of "([], [])"], rule add_flow_ok)
  ultimately show ?thesis by blast
qed

lemma owner_lookup:
  assumes "store_ok (gs, m)" and "i < length gs"
  shows "map_of m k = Some i \<longleftrightarrow> is_owner gs i \<and> flowId (gs ! i) = k"
  using assms by (auto simp: store_ok_def)

lemma changed_tuples:
  assumes "store_ok (gs, m)" and "i < length gs"
  shows "changed m i (map set_tuple cs) x
    = x\<lparr>fiveTuple := (case if is_owner gs i then map_of (rev cs) (flowId (gs ! i)) else None of
                        None \<Rightarrow> fiveTuple x | Some t \<Rightarrow> Some t)\<rparr>"
proof (induction cs arbitrary: x)
  case (Cons c cs)
  obtain k t where c: "c = (k, t)" by (cases c)
  have "map_of (rev (c # cs)) = (map_of [(k, t)]) ++ map_of (rev cs)" by (simp add: c)
  then show ?case
    using Cons.IH owner_lookup [OF assms, of k] by (simp add: c set_tuple_def map_add_def split: option.split)
qed simp

lemma changed_stats:
  assumes "store_ok (gs, m)" and "i < length gs"
  shows "changed m i (map append_stats ps) x
    = x\<lparr>probe_stats_unsorted := probe_stats_unsorted x
        @ (if is_owner gs i then map snd (filter (\<lambda>p. fst p = flowId (gs ! i)) ps) else [])\<rparr>"
proof (induction ps arbitrary: x)
  case (Cons p ps)
  show ?case using Cons.IH owner_lookup [OF assms, of "fst p"] by (simp add: append_stats_def)
qed simp

lemma new_flow_fresh: "new_flow el = Inr f \<Longrightarrow> fiveTuple f = None \<and> probe_stats_unsorted f = []"
  by (auto simp: new_flow_def res_bind_eq_Inr split: prod.splits)

lemma res_map_all: "res_map f xs = Inr ys \<Longrightarrow> y \<in> set ys \<Longrightarrow> \<exists>x \<in> set xs. f x = Inr y"
  by (induction xs arbitrary: ys) (auto simp: res_bind_eq_Inr)

text \<open>
  C14: A simulation lists its flows in the order of the file, each with the numbers its element gives.
  A flow that is the last one with its identifier has the addresses of the last entry of the classifier
  for this identifier and the statistics of all probes for it, in the order of the file; a flow that
  a later one repeats has neither.
\<close>
theorem simulation_flows:
  assumes "simulation el = Inr fs"
  shows "\<exists>cls gs cs ps. xfindall ''Ipv4FlowClassifier'' el = [cls]
    \<and> res_map new_flow (xfindall2 ''FlowStats'' ''Flow'' el) = Inr gs
    \<and> res_map class_entry (xfindall ''Flow'' cls) = Inr cs
    \<and> res_map probe_entries (xfindall2 ''FlowProbes'' ''FlowProbe'' el) = Inr ps
    \<and> length fs = length gs
    \<and> (\<forall>i < length gs. fs ! i = (gs ! i)
         \<lparr>fiveTuple := (if is_owner gs i then map_of (rev cs) (flowId (gs ! i)) else None),
          probe_stats_unsorted := (if is_owner gs i then map snd (filter (\<lambda>p. fst p = flowId (gs ! i)) (concat ps)) else [])\<rparr>)"
proof -
  obtain cls gs m gs' m' gs'' m'' where u: "xfindall ''Ipv4FlowClassifier'' el = [cls]"
    and g: "res_fold add_flow (xfindall2 ''FlowStats'' ''Flow'' el) ([], []) = Inr (gs, m)"
    and c: "res_fold classify_flow (xfindall ''Flow'' cls) (gs, m) = Inr (gs', m')"
    and p: "res_fold add_probe (xfindall2 ''FlowProbes'' ''FlowProbe'' el) (gs', m') = Inr (gs'', m'')" and fs: "fs = gs''"
    using assms by (auto simp: simulation_def res_bind_eq_Inr unpack_one_def split: list.splits)
  note 1 = add_flow_fold [OF g]
  from c obtain cs where cs: "res_map class_entry (xfindall ''Flow'' cls) = Inr cs"
    and c': "res_fold apply_change (map set_tuple cs) (gs, m) = Inr (gs', m')" by (auto simp: classify_fold)
  from p obtain ps where ps: "res_map probe_entries (xfindall2 ''FlowProbes'' ''FlowProbe'' el) = Inr ps"
    and p': "res_fold apply_change (map append_stats (concat ps)) (gs', m') = Inr (gs'', m'')" by (auto simp: probe_fold)
  note 2 = apply_changes [OF c'] and 3 = apply_changes [OF p']
  have "fs ! i = (gs ! i)
         \<lparr>fiveTuple := (if is_owner gs i then map_of (rev cs) (flowId (gs ! i)) else None),
          probe_stats_unsorted := (if is_owner gs i then map snd (filter (\<lambda>p. fst p = flowId (gs ! i)) (concat ps)) else [])\<rparr>"
    if i: "i < length gs" for i
  proof -
    have f: "fiveTuple (gs ! i) = None" "probe_stats_unsorted (gs ! i) = []"
      using res_map_all [of new_flow _ gs "gs ! i"] 1 i new_flow_fresh by fastforce+
    have "fs ! i = changed m i (map append_stats (concat ps)) (changed m i (map set_tuple cs) (gs ! i))"
      using 2 3 i fs by simp
    then show ?thesis
      using changed_tuples [of gs m i] changed_stats [of gs m i] 1 i f by (simp split: option.split)
  qed
  moreover have "length fs = length gs" using 2 3 fs by simp
  ultimately show ?thesis using u 1 cs ps by blast
qed

section \<open>Numbers\<close>

text \<open>
  A time that the monitor wrote with some decimals and the unit is read back, up to half of the
  last decimal, with or without a plus sign; a text with another unit raises.
\<close>
theorem parse_time_roundtrip:
  "parse_time_ns (Some (fmt_fixed d x @ ''ns'')) = Inr (Fin (rounded d x)) \<and> \<bar>rounded d x - x\<bar> \<le> 1 / (2 * 10 ^ d)
   \<and> (\<not> suffix ''ns'' s \<longrightarrow> parse_time_ns (Some s) = Inl (ValueError s))"
proof -
  have "py_slice (fmt_fixed d x @ ''ns'') 0 (-2) = fmt_fixed d x"
    by (simp add: py_slice_def slice_bound_def Let_def)
  moreover have "suffix ''ns'' (fmt_fixed d x @ ''ns'')" by (simp only: suffix_def) blast
  ultimately show ?thesis by (simp add: parse_time_ns_def float_of_fixed rounded_close)
qed

lemma new_flow_parts:
  assumes "new_flow el = Inr f"
  shows "\<exists>rxP lost. attr_float el ''rxPackets'' = Inr rxP \<and> attr_float el ''lostPackets'' = Inr lost
    \<and> hop_count el rxP = Inr (hopCount f) \<and> means el rxP = Inr (delayMean f, packetSizeMean f)
    \<and> bitrate el ''rxBytes'' (rx_duration f) = Inr (rxBitrate f) \<and> loss_ratio lost rxP = Inr (packetLossRatio f)"
  using assms by (auto simp: new_flow_def res_bind_eq_Inr)

text \<open>
  For a flow that received packets, with counters that are not negative, the hop count is at least
  one, the loss ratio lies between zero and one, and both are the quotients of the counters; the rate is
  the number of bits by the time, and absent when no time passed.
\<close>
theorem flow_numbers:
  assumes "new_flow el = Inr f"
    and "attr_float el ''rxPackets'' = Inr (Fin rx)" and "0 < rx"
    and "attr_float el ''lostPackets'' = Inr (Fin l)" and "0 \<le> l"
    and "attr_float el ''timesForwarded'' = Inr (Fin t)" and "0 \<le> t"
    and "attr_float el ''rxBytes'' = Inr (Fin b)" and "rx_duration f = Fin d"
  shows "hopCount f = Fin (t / rx + 1) \<and> 1 \<le> t / rx + 1
    \<and> packetLossRatio f = Some (Fin (l / (rx + l))) \<and> 0 \<le> l / (rx + l) \<and> l / (rx + l) < 1
    \<and> packetSizeMean f = Some (Fin (b / rx))
    \<and> rxBitrate f = (if 0 < d then Some (Fin (b * 8 / d)) else None)"
proof -
  note p = new_flow_parts [OF assms(1)]
  have nz: "rx \<noteq> 0" "rx + l \<noteq> 0" using assms(3,5) by simp_all
  have h: "hopCount f = Fin (t / rx + 1)" and k: "packetLossRatio f = Some (Fin (l / (rx + l)))"
    using p nz assms(2,4,6) by (auto simp: hop_count_def loss_ratio_def float_zero_def res_bind_eq_Inr)
  have s: "packetSizeMean f = Some (Fin (b / rx))"
    using p nz assms(2,8) by (auto simp: means_def float_zero_def res_bind_eq_Inr)
  have r: "rxBitrate f = (if 0 < d then Some (Fin (b * 8 / d)) else None)"
    using p assms(8,9) by (auto simp: bitrate_def float_pos_def res_bind_eq_Inr split: if_splits)
  show ?thesis using h k s r assms(3,5,7) by (simp add: divide_less_eq)
qed

section \<open>Examples\<close>

definition sample_flow :: xml where
  "sample_flow = Elem ''Flow''
     [(''flowId'', ''1''), (''rxPackets'', ''8''), (''txPackets'', ''10''), (''lostPackets'', ''2''), (''rxBytes'', ''40''),
      (''txBytes'', ''50''), (''timesForwarded'', ''8''), (''delaySum'', ''+16.0ns''),
      (''timeFirstTxPacket'', ''+1.0ns''), (''timeLastTxPacket'', ''+3.0ns''),
      (''timeFirstRxPacket'', ''+1.5ns''), (''timeLastRxPacket'', ''3.5e0ns'')] None []"

definition sample_class :: xml where
  "sample_class = Elem ''Flow''
     [(''flowId'', ''1''), (''sourceAddress'', ''10.1.1.1''), (''destinationAddress'', ''10.1.1.2''), (''protocol'', ''17''),
      (''sourcePort'', ''80''), (''destinationPort'', ''9'')] None []"

definition sample_probe :: xml where
  "sample_probe = Elem ''FlowProbe'' [(''index'', ''0'')] None
     [Elem ''FlowStats'' [(''flowId'', ''1''), (''packets'', ''8''), (''bytes'', ''40''), (''delayFromFirstProbeSum'', ''+8.0ns'')] None []]"

definition sample_tree :: "xml list \<Rightarrow> xml" where
  "sample_tree fs = Elem ''FlowMonitor'' [] None
     [Elem ''FlowStats'' [] None fs, Elem ''Ipv4FlowClassifier'' [] None [sample_class], Elem ''FlowProbes'' [] None [sample_probe]]"


definition printable :: "flow \<Rightarrow> bool" where
  "printable f = (case fiveTuple f of None \<Rightarrow> False | Some t \<Rightarrow> protocol t = 6 \<or> protocol t = 17)"

lemma sample_simulation: "\<exists>f. simulation (sample_tree [sample_flow]) = Inr [f] \<and> printable f"
proof -
  have "case simulation (sample_tree [sample_flow]) of Inl e \<Rightarrow> False | Inr fs \<Rightarrow> length fs = 1 \<and> list_all printable fs"
    by code_simp
  then show ?thesis by (auto simp: length_Suc_conv split: sum.splits)
qed

text \<open>When two flows have the same identifier the first one is never classified, and listing it raises.\<close>

lemma repeated_flow_raises: "snd (print_flows fs) = Inl AttributeError" if "fs = f # gs" "fiveTuple f = None"
  using that by (simp add: print_flow_def)

lemma sample_repeated:
  "case simulation (sample_tree [sample_flow, sample_flow]) of Inl e \<Rightarrow> False | Inr fs \<Rightarrow> map (\<lambda>f. fiveTuple f = None) fs = [True, False]"
  by code_simp

theorem flowmon_main_result_witness: "snd (flowmon_main (sample_tree [sample_flow])) = Inr ()"
proof -
  obtain f where "simulation (sample_tree [sample_flow]) = Inr [f]" "printable f" using sample_simulation by blast
  then have "\<exists>fs. simulation (sample_tree [sample_flow]) = Inr fs \<and> (\<forall>f \<in> set fs. \<exists>t. fiveTuple f = Some t \<and> protocol t \<in> {6, 17})"
    by (intro exI [of _ "[f]"]) (auto simp: printable_def split: option.splits)
  with flowmon_main_result [of "sample_tree [sample_flow]"] show ?thesis by blast
qed

theorem simulation_flows_witness:
  "\<exists>f gs. simulation (sample_tree [sample_flow]) = Inr [f] \<and> res_map new_flow [sample_flow] = Inr gs \<and> length gs = 1"
proof -
  obtain f where f: "simulation (sample_tree [sample_flow]) = Inr [f]" using sample_simulation by blast
  have "xfindall2 ''FlowStats'' ''Flow'' (sample_tree [sample_flow]) = [sample_flow]"
    by (simp add: xfindall2_def xfindall_def sample_tree_def sample_flow_def)
  with simulation_flows [OF f] f show ?thesis by auto
qed

theorem parse_time_roundtrip_witness:
  "parse_time_ns (Some (fmt_fixed 1 (3 / 2) @ ''ns'')) = Inr (Fin (rounded 1 (3 / 2))) \<and> parse_time_ns (Some ''15ms'') = Inl (ValueError ''15ms'')"
  using parse_time_roundtrip [of 1 "3 / 2" "''15ms''"] by (simp add: suffix_def)

lemma sample_new_flow: "\<exists>f. new_flow sample_flow = Inr f \<and> rx_duration f = Fin (2 / 10 ^ 9)"
proof -
  have "case new_flow sample_flow of Inl e \<Rightarrow> False | Inr f \<Rightarrow> rx_duration f = Fin (2 / 10 ^ 9)" by code_simp
  then show ?thesis by (auto split: sum.splits)
qed

theorem flow_numbers_witness:
  "\<exists>f. new_flow sample_flow = Inr f \<and> hopCount f = Fin 2 \<and> packetLossRatio f = Some (Fin (1 / 5))
     \<and> rxBitrate f = Some (Fin (160 * 10 ^ 9))"
proof -
  obtain f where f: "new_flow sample_flow = Inr f" "rx_duration f = Fin (2 / 10 ^ 9)" using sample_new_flow by blast
  have a: "attr_float sample_flow ''rxPackets'' = Inr (Fin 8)" "attr_float sample_flow ''lostPackets'' = Inr (Fin 2)"
    "attr_float sample_flow ''timesForwarded'' = Inr (Fin 8)" "attr_float sample_flow ''rxBytes'' = Inr (Fin 40)"
    by code_simp+
  from flow_numbers [OF f(1) a(1) _ a(2) _ a(3) _ a(4) f(2)] f(1) show ?thesis by simp
qed

end
