(* ===== verification/Grid_Timelines.thy ===== *)
theory Grid_Timelines
  imports Py_Prelude Complex_Main
begin

text \<open>
  The data model of \<^verbatim>\<open>utils/grid.py\<close>: ranges and events on time lines, their binary searches,
  sorting, bounds, colours, and the reader of the trace file.  The program depends on PyGTK and on
  \<open>list.sort\<close> with a comparison function, so it is read as Python 2: the quotient of two integers is
  rounded down.  Times are the integers that the reader of the trace file makes; the window a query asks for
  is given by exact rationals.
\<close>

section \<open>Ranges and events\<close>

record data_range =
  r_start :: int
  r_end :: int
  r_value :: string

datatype event_value = StrValue string | IntValue int

record event =
  e_at :: int
  e_value :: event_value

definition sign_cmp :: "int \<Rightarrow> int" where
  "sign_cmp diff = (if diff < 0 then -1 else if diff > 0 then 1 else 0)"

definition ranges_cmp :: "data_range \<Rightarrow> data_range \<Rightarrow> int" where
  "ranges_cmp a b = sign_cmp (r_start a - r_start b)"

definition events_cmp :: "event \<Rightarrow> event \<Rightarrow> int" where
  "events_cmp a b = sign_cmp (e_at a - e_at b)"

section \<open>A line of ranges\<close>

record timeline_range =
  tr_name :: string
  tr_ranges :: "data_range list"

function search_range_loop :: "data_range list \<Rightarrow> rat \<Rightarrow> int \<Rightarrow> int \<Rightarrow> int res" where
  "search_range_loop ranges key l u =
     (if l \<le> u then
        (let i = (l + u) div 2
         in res_bind (py_index ranges i) (\<lambda>r.
              if key \<ge> of_int (r_start r) \<and> key \<le> of_int (r_end r) then Inr i
              else if key < of_int (r_start r) then search_range_loop ranges key l (i - 1)
              else search_range_loop ranges key (i + 1) u))
      else Inr (-1))"
  by pat_completeness auto
termination
  by (relation "measure (\<lambda>(ranges, key, l, u). nat (u - l + 1))") auto

declare search_range_loop.simps [simp del]

definition search_range :: "data_range list \<Rightarrow> rat \<Rightarrow> int res" where
  "search_range ranges key = search_range_loop ranges key 0 (int (length ranges) - 1)"

definition get_ranges_bounds :: "data_range list \<Rightarrow> rat \<Rightarrow> rat \<Rightarrow> (int \<times> int) res" where
  "get_ranges_bounds ranges start end =
     res_bind (search_range ranges start) (\<lambda>s. res_bind (search_range ranges end) (\<lambda>e. Inr (
       if s = -1 \<and> e = -1 then (0, 0)
       else if s = -1 then (0, e + 1)
       else if e = -1 then (s, int (length ranges))
       else (s, e + 1))))"

definition get_ranges :: "data_range list \<Rightarrow> rat \<Rightarrow> rat \<Rightarrow> (data_range list) res" where
  "get_ranges ranges start end =
     res_bind (search_range ranges start) (\<lambda>s. res_bind (search_range ranges end) (\<lambda>e. Inr (
       if s = -1 \<and> e = -1 then []
       else if s = -1 then py_slice ranges 0 (e + 1)
       else if e = -1 then py_slice ranges s (int (length ranges))
       else py_slice ranges s (e + 1))))"

definition sort_range :: "timeline_range \<Rightarrow> timeline_range" where
  "sort_range t = t\<lparr>tr_ranges := sort_cmp ranges_cmp (tr_ranges t)\<rparr>"

definition range_bounds :: "timeline_range \<Rightarrow> int \<times> int" where
  "range_bounds t =
     (if tr_ranges t \<noteq> [] then (r_start (hd (tr_ranges t)), r_end (last (tr_ranges t))) else (0, 0))"

section \<open>A line of events\<close>

record timeline_event =
  te_name :: string
  te_events :: "event list"

function search_event_loop :: "event list \<Rightarrow> rat \<Rightarrow> int \<Rightarrow> int \<Rightarrow> int res" where
  "search_event_loop events key l u =
     (if l \<le> u then
        (let i = (l + u) div 2
         in res_bind (py_index events i) (\<lambda>ev.
              if key = of_int (e_at ev) then Inr i
              else if key < of_int (e_at ev) then search_event_loop events key l (i - 1)
              else search_event_loop events key (i + 1) u))
      else Inr l)"
  by pat_completeness auto
termination
  by (relation "measure (\<lambda>(events, key, l, u). nat (u - l + 1))") auto

declare search_event_loop.simps [simp del]

definition search_event :: "event list \<Rightarrow> rat \<Rightarrow> int res" where
  "search_event events key = search_event_loop events key 0 (int (length events) - 1)"

definition get_events_bounds :: "event list \<Rightarrow> rat \<Rightarrow> rat \<Rightarrow> (int \<times> int) res" where
  "get_events_bounds events start end =
     res_bind (search_event events start) (\<lambda>s. res_bind (search_event events end) (\<lambda>e. Inr (s, e + 1)))"

definition get_events :: "event list \<Rightarrow> rat \<Rightarrow> rat \<Rightarrow> (event list) res" where
  "get_events events start end =
     res_bind (search_event events start) (\<lambda>s. res_bind (search_event events end) (\<lambda>e.
       Inr (py_slice events s (e + 1))))"

definition sort_event :: "timeline_event \<Rightarrow> timeline_event" where
  "sort_event t = t\<lparr>te_events := sort_cmp events_cmp (te_events t)\<rparr>"

definition event_bounds :: "timeline_event \<Rightarrow> int \<times> int" where
  "event_bounds t =
     (if te_events t \<noteq> [] then (e_at (hd (te_events t)), e_at (last (te_events t))) else (0, 0))"

section \<open>Time lines\<close>

record timeline =
  tl_name :: string
  tl_ranges :: "timeline_range list"
  tl_event_str :: "timeline_event list"
  tl_event_int :: "timeline_event list"

text \<open>
  Look up an entry by name and make a new one at the end if there is none; the caller gets a
  reference and changes the entry through it, which is the argument \<open>f\<close>.
\<close>

fun get_or_add :: "('a \<Rightarrow> string) \<Rightarrow> 'a \<Rightarrow> string \<Rightarrow> ('a \<Rightarrow> 'a) \<Rightarrow> 'a list \<Rightarrow> 'a list" where
  "get_or_add nm new name f [] = [f new]"
| "get_or_add nm new name f (x # xs) = (if nm x = name then f x # xs else x # get_or_add nm new name f xs)"

definition get_range :: "string \<Rightarrow> (timeline_range \<Rightarrow> timeline_range) \<Rightarrow> timeline \<Rightarrow> timeline" where
  "get_range name f t =
     t\<lparr>tl_ranges := get_or_add tr_name \<lparr>tr_name = name, tr_ranges = []\<rparr> name f (tl_ranges t)\<rparr>"

definition get_event_str :: "string \<Rightarrow> (timeline_event \<Rightarrow> timeline_event) \<Rightarrow> timeline \<Rightarrow> timeline" where
  "get_event_str name f t =
     t\<lparr>tl_event_str := get_or_add te_name \<lparr>te_name = name, te_events = []\<rparr> name f (tl_event_str t)\<rparr>"

definition get_event_int :: "string \<Rightarrow> (timeline_event \<Rightarrow> timeline_event) \<Rightarrow> timeline \<Rightarrow> timeline" where
  "get_event_int name f t =
     t\<lparr>tl_event_int := get_or_add te_name \<lparr>te_name = name, te_events = []\<rparr> name f (tl_event_int t)\<rparr>"

definition get_timeline :: "string \<Rightarrow> (timeline \<Rightarrow> timeline) \<Rightarrow> timeline list \<Rightarrow> timeline list" where
  "get_timeline name f ts =
     get_or_add tl_name \<lparr>tl_name = name, tl_ranges = [], tl_event_str = [], tl_event_int = []\<rparr> name f ts"

definition add_range :: "data_range \<Rightarrow> timeline_range \<Rightarrow> timeline_range" where
  "add_range r t = t\<lparr>tr_ranges := tr_ranges t @ [r]\<rparr>"

definition add_event :: "event \<Rightarrow> timeline_event \<Rightarrow> timeline_event" where
  "add_event e t = t\<lparr>te_events := te_events t @ [e]\<rparr>"

definition sort_timeline :: "timeline \<Rightarrow> timeline" where
  "sort_timeline t = t\<lparr>tl_ranges := map sort_range (tl_ranges t), tl_event_int := map sort_event (tl_event_int t),
                       tl_event_str := map sort_event (tl_event_str t)\<rparr>"

definition sort_timelines :: "timeline list \<Rightarrow> timeline list" where
  "sort_timelines ts = map sort_timeline ts"

text \<open>One comparison of the running bounds with those of a part.\<close>

definition widen :: "int \<times> int \<Rightarrow> int \<times> int \<Rightarrow> int \<times> int" where
  "widen b p = (let (lo, hi) = b; (p_lo, p_hi) = p
                in (if p_lo < lo then p_lo else lo, if p_hi > hi then p_hi else hi))"

definition timeline_bounds :: "timeline \<Rightarrow> int \<times> int" where
  "timeline_bounds t =
     (let b = foldl widen (0, 0) (map range_bounds (tl_ranges t));
          b = foldl widen b (map event_bounds (tl_event_str t))
      in foldl widen b (map event_bounds (tl_event_int t)))"

definition timelines_bounds :: "timeline list \<Rightarrow> int \<times> int" where
  "timelines_bounds ts = foldl widen (0, 0) (map timeline_bounds ts)"

text \<open>The keys of the dictionary; Python 2 gives them in an order of its own, the model in that of insertion.\<close>

definition get_all_range_values :: "timeline list \<Rightarrow> string list" where
  "get_all_range_values ts =
     map fst (foldl (\<lambda>d r. AList.update (r_value r) (1 :: int) d) []
                (concat (map (\<lambda>t. concat (map tr_ranges (tl_ranges t))) ts)))"

section \<open>Colours\<close>

type_synonym color = "int \<times> int \<times> int"

text \<open>The list of default colours belongs to the class: all instances take from it.\<close>

record colors =
  c_colors :: "(string, color) dict"
  c_default :: "color list"

definition default_colors :: "color list" where
  "default_colors = [(1, 0, 0), (0, 1, 0), (0, 0, 1), (1, 1, 0), (1, 0, 1), (0, 1, 1)]"

definition add_color :: "string \<Rightarrow> color \<Rightarrow> colors \<Rightarrow> colors" where
  "add_color name c cs = cs\<lparr>c_colors := AList.update name c (c_colors cs)\<rparr>"

definition lookup_color :: "string \<Rightarrow> colors \<Rightarrow> (color option \<times> colors) res" where
  "lookup_color name cs =
     (if \<not> has_key (c_colors cs) name then
        (if c_default cs = [] then Inl IndexError
         else
           (let cs' = add_color name (last (c_default cs)) (cs\<lparr>c_default := butlast (c_default cs)\<rparr>)
            in Inr (map_of (c_colors cs') name, cs')))
      else Inr (map_of (c_colors cs) name, cs))"

text \<open>The loop of \<open>main\<close> that gives every value of a range its colour.\<close>

fun legend_colors :: "string list \<Rightarrow> colors \<Rightarrow> (color option list \<times> colors) res" where
  "legend_colors [] cs = Inr ([], cs)"
| "legend_colors (n # ns) cs =
     res_bind (lookup_color n cs) (\<lambda>(c, cs'). res_bind (legend_colors ns cs') (\<lambda>(r, cs''). Inr (c # r, cs'')))"

section \<open>The trace file\<close>

text \<open>
  The four patterns are matched at the start of the line and may be followed by anything.  A word is
  a longest run of characters that are no blanks.
\<close>

definition lit :: "string \<Rightarrow> string \<Rightarrow> string option" where
  "lit pre s = (if prefix pre s then Some (drop (length pre) s) else None)"

definition word :: "string \<Rightarrow> (string \<times> string) option" where
  "word s = (let w = takeWhile (\<lambda>c. c \<noteq> CHR '' '') s in if w = [] then None else Some (w, drop (length w) s))"

definition number :: "string \<Rightarrow> (nat \<times> string) option" where
  "number s = (let w = takeWhile is_digit s in if w = [] then None else Some (read_nat w, drop (length w) s))"

definition hex_value :: "char \<Rightarrow> nat option" where
  "hex_value c =
     (let i = length (takeWhile (\<lambda>x. x \<noteq> c) ''0123456789abcdefABCDEF'')
      in if i < 16 then Some i else if i < 22 then Some (i - 6) else None)"

definition hex2 :: "string \<Rightarrow> (int \<times> string) option" where
  "hex2 s = (case s of
     a # b # r \<Rightarrow> (case (hex_value a, hex_value b) of
                    (Some x, Some y) \<Rightarrow> Some (int (16 * x + y), r) | _ \<Rightarrow> None)
   | _ \<Rightarrow> None)"

datatype trace_line =
    RangeLine string string data_range
  | EventStrLine string string event
  | EventIntLine string string event
  | ColorLine string color

definition match_range :: "string \<Rightarrow> trace_line option" where
  "match_range line =
     Option.bind (lit ''range '' line) (\<lambda>s. Option.bind (word s) (\<lambda>(a, s).
     Option.bind (lit '' '' s) (\<lambda>s. Option.bind (word s) (\<lambda>(b, s).
     Option.bind (lit '' '' s) (\<lambda>s. Option.bind (word s) (\<lambda>(v, s).
     Option.bind (lit '' '' s) (\<lambda>s. Option.bind (number s) (\<lambda>(x, s).
     Option.bind (lit '' '' s) (\<lambda>s. Option.bind (number s) (\<lambda>(y, s).
       Some (RangeLine a b \<lparr>r_start = int x, r_end = int y, r_value = v\<rparr>)))))))))))"

definition match_event_str :: "string \<Rightarrow> trace_line option" where
  "match_event_str line =
     Option.bind (lit ''event-str '' line) (\<lambda>s. Option.bind (word s) (\<lambda>(a, s).
     Option.bind (lit '' '' s) (\<lambda>s. Option.bind (word s) (\<lambda>(b, s).
     Option.bind (lit '' '' s) (\<lambda>s. Option.bind (word s) (\<lambda>(v, s).
     Option.bind (lit '' '' s) (\<lambda>s. Option.bind (number s) (\<lambda>(x, s).
       Some (EventStrLine a b \<lparr>e_at = int x, e_value = StrValue v\<rparr>)))))))))"

definition match_event_int :: "string \<Rightarrow> trace_line option" where
  "match_event_int line =
     Option.bind (lit ''event-int '' line) (\<lambda>s. Option.bind (word s) (\<lambda>(a, s).
     Option.bind (lit '' '' s) (\<lambda>s. Option.bind (word s) (\<lambda>(b, s).
     Option.bind (lit '' '' s) (\<lambda>s. Option.bind (number s) (\<lambda>(v, s).
     Option.bind (lit '' '' s) (\<lambda>s. Option.bind (number s) (\<lambda>(x, s).
       Some (EventIntLine a b \<lparr>e_at = int x, e_value = IntValue (int v)\<rparr>)))))))))"

definition match_color :: "string \<Rightarrow> trace_line option" where
  "match_color line =
     Option.bind (lit ''color '' line) (\<lambda>s. Option.bind (word s) (\<lambda>(a, s).
     Option.bind (lit '' #'' s) (\<lambda>s. Option.bind (hex2 s) (\<lambda>(r, s). Option.bind (hex2 s) (\<lambda>(g, s).
     Option.bind (hex2 s) (\<lambda>(b, s). Some (ColorLine a (r div 255, g div 255, b div 255))))))))"

definition match_line :: "string \<Rightarrow> trace_line option" where
  "match_line line =
     (case match_range line of Some t \<Rightarrow> Some t | None \<Rightarrow>
     (case match_event_str line of Some t \<Rightarrow> Some t | None \<Rightarrow>
     (case match_event_int line of Some t \<Rightarrow> Some t | None \<Rightarrow> match_color line)))"

fun read_line :: "timeline list \<times> colors \<Rightarrow> trace_line \<Rightarrow> timeline list \<times> colors" where
  "read_line (ts, cs) (RangeLine a b r) = (get_timeline a (get_range b (add_range r)) ts, cs)"
| "read_line (ts, cs) (EventStrLine a b e) = (get_timeline a (get_event_str b (add_event e)) ts, cs)"
| "read_line (ts, cs) (EventIntLine a b e) = (get_timeline a (get_event_int b (add_event e)) ts, cs)"
| "read_line (ts, cs) (ColorLine a c) = (ts, add_color a c cs)"

definition read_lines :: "string list \<Rightarrow> timeline list \<times> colors" where
  "read_lines ls =
     foldl (\<lambda>st line. case match_line line of Some t \<Rightarrow> read_line st t | None \<Rightarrow> st)
       ([], \<lparr>c_colors = [], c_default = default_colors\<rparr>) ls"

definition read_data :: "string list \<Rightarrow> colors \<times> timeline list" where
  "read_data ls = (let (ts, cs) = read_lines ls in (cs, sort_timelines ts))"

section \<open>Sorting\<close>

lemma sign_cmp_le: "sign_cmp (a - b) \<le> 0 \<longleftrightarrow> a \<le> b"
  by (simp add: sign_cmp_def)

interpretation range_order: key_comparator ranges_cmp r_start
  by unfold_locales (simp add: ranges_cmp_def sign_cmp_le)

interpretation event_order: key_comparator events_cmp e_at
  by unfold_locales (simp add: events_cmp_def sign_cmp_le)

lemma sort_range_eq: "sort_range t = t\<lparr>tr_ranges := sort_key r_start (tr_ranges t)\<rparr>"
  by (simp add: sort_range_def range_order.sort_cmp_eq)

lemma sort_event_eq: "sort_event t = t\<lparr>te_events := sort_key e_at (te_events t)\<rparr>"
  by (simp add: sort_event_def event_order.sort_cmp_eq)

section \<open>Searching ranges\<close>

abbreviation range_lo :: "data_range \<Rightarrow> rat" where "range_lo r \<equiv> of_int (r_start r)"
abbreviation range_hi :: "data_range \<Rightarrow> rat" where "range_hi r \<equiv> of_int (r_end r)"
abbreviation ev_time :: "event \<Rightarrow> rat" where "ev_time e \<equiv> of_int (e_at e)"

definition in_range :: "rat \<Rightarrow> data_range \<Rightarrow> bool" where
  "in_range key r \<longleftrightarrow> of_int (r_start r) \<le> key \<and> key \<le> of_int (r_end r)"

definition disjoint_ranges :: "data_range list \<Rightarrow> bool" where
  "disjoint_ranges rs \<longleftrightarrow> sorted_wrt (\<lambda>a b. r_end a < r_start b) rs \<and> (\<forall>r \<in> set rs. r_start r \<le> r_end r)"

lemma disjoint_ranges_nth:
  assumes "disjoint_ranges rs" and "i < j" and "j < length rs"
  shows "r_end (rs ! i) < r_start (rs ! j)"
  using assms by (simp add: disjoint_ranges_def sorted_wrt_iff_nth_less)

lemma disjoint_ranges_self: "disjoint_ranges rs \<Longrightarrow> i < length rs \<Longrightarrow> r_start (rs ! i) \<le> r_end (rs ! i)"
  by (simp add: disjoint_ranges_def)

text \<open>What lies left of the interval of the search is over before the key, what lies right starts after it.\<close>

definition search_bracket :: "('a \<Rightarrow> bool) \<Rightarrow> ('a \<Rightarrow> bool) \<Rightarrow> 'a list \<Rightarrow> int \<Rightarrow> int \<Rightarrow> bool" where
  "search_bracket before after xs l u \<longleftrightarrow>
     0 \<le> l \<and> u < int (length xs)
     \<and> (\<forall>j < length xs. (int j < l \<longrightarrow> before (xs ! j)) \<and> (u < int j \<longrightarrow> after (xs ! j)))"

lemma search_mid:
  assumes "search_bracket P Q xs l u" and "l \<le> u"
  shows "py_index xs ((l + u) div 2) = Inr (xs ! nat ((l + u) div 2))"
    and "nat ((l + u) div 2) < length xs" and "l \<le> (l + u) div 2" and "(l + u) div 2 \<le> u" and "0 \<le> (l + u) div 2"
  using assms by (auto simp: search_bracket_def py_index_def)

lemma search_left:
  assumes "search_bracket P Q xs l u" and "l \<le> i" and "i \<le> u" and "\<And>j. nat i \<le> j \<Longrightarrow> j < length xs \<Longrightarrow> Q (xs ! j)"
  shows "search_bracket P Q xs l (i - 1)"
  using assms by (auto simp: search_bracket_def)

lemma search_right:
  assumes "search_bracket P Q xs l u" and "l \<le> i" and "i \<le> u" and "\<And>j. j \<le> nat i \<Longrightarrow> j < length xs \<Longrightarrow> P (xs ! j)"
  shows "search_bracket P Q xs (i + 1) u"
  using assms by (auto simp: search_bracket_def)

lemma search_range_loop_correct:
  assumes "disjoint_ranges rs" and "search_bracket (\<lambda>r. range_hi r < key) (\<lambda>r. key < range_lo r) rs l u"
  shows "\<exists>i. search_range_loop rs key l u = Inr i
    \<and> (if i = -1 then \<forall>r \<in> set rs. \<not> in_range key r else 0 \<le> i \<and> nat i < length rs \<and> in_range key (rs ! nat i))"
  using assms
proof (induction rs key l u rule: search_range_loop.induct)
  case (1 rs key l u)
  note dis = "1.prems"(1) and br = "1.prems"(2)
  show ?case
  proof (cases "l \<le> u")
    case False
    have "\<not> in_range key (rs ! j)" if "j < length rs" for j
      using br False that by (cases "int j < l") (auto simp: search_bracket_def in_range_def)
    with False show ?thesis by (subst search_range_loop.simps) (auto simp: in_set_conv_nth)
  next
    case True
    let ?i = "(l + u) div 2"
    note m = search_mid [OF br True]
    let ?r = "rs ! nat ?i"
    consider "in_range key ?r" | "key < range_lo ?r" | "\<not> key < range_lo ?r" "range_hi ?r < key"
      by (fastforce simp: in_range_def)
    then show ?thesis
    proof cases
      case 1
      with True m show ?thesis by (subst search_range_loop.simps) (auto simp: in_range_def Let_def)
    next
      case 2
      have "key < range_lo (rs ! j)" if "nat ?i \<le> j" "j < length rs" for j
        using 2 that disjoint_ranges_nth [OF dis, of "nat ?i" j] disjoint_ranges_self [OF dis m(2)]
        by (cases "nat ?i = j") auto
      from search_left [OF br m(3,4) this] have b: "search_bracket (\<lambda>r. range_hi r < key) (\<lambda>r. key < range_lo r) rs l (?i - 1)"
        by blast
      have n: "\<not> (range_lo ?r \<le> key \<and> key \<le> range_hi ?r)" using 2 by simp
      from 2 True m(1) n "1.IH"(1) [OF True refl n 2 dis b] show ?thesis
        by (subst search_range_loop.simps) (simp add: Let_def)
    next
      case 3
      have "range_hi (rs ! j) < key" if "j \<le> nat ?i" "j < length rs" for j
        using 3 that disjoint_ranges_nth [OF dis, of j "nat ?i"] disjoint_ranges_self [OF dis m(2)] m(2)
        by (cases "nat ?i = j") auto
      from search_right [OF br m(3,4) this] have b: "search_bracket (\<lambda>r. range_hi r < key) (\<lambda>r. key < range_lo r) rs (?i + 1) u"
        by blast
      have n: "\<not> (range_lo ?r \<le> key \<and> key \<le> range_hi ?r)" using 3 by simp
      from 3 True m(1) n "1.IH"(2) [OF True refl n 3(1) dis b] show ?thesis
        by (subst search_range_loop.simps) (simp add: Let_def)
    qed
  qed
qed

lemma search_range_cases [consumes 1, case_names gap hit]:
  assumes "disjoint_ranges rs"
  obtains (gap) "search_range rs key = Inr (-1)" "\<forall>r \<in> set rs. \<not> in_range key r"
    | (hit) i where "search_range rs key = Inr (int i)" "i < length rs" "in_range key (rs ! i)"
proof -
  have "search_bracket (\<lambda>r. range_hi r < key) (\<lambda>r. key < range_lo r) rs 0 (int (length rs) - 1)"
    by (auto simp: search_bracket_def)
  from search_range_loop_correct [OF assms this] obtain i where i: "search_range rs key = Inr i"
    "if i = -1 then \<forall>r \<in> set rs. \<not> in_range key r else 0 \<le> i \<and> nat i < length rs \<and> in_range key (rs ! nat i)"
    by (auto simp: search_range_def)
  show thesis
  proof (cases "i = -1")
    case True
    with i show thesis by (intro gap) simp_all
  next
    case False
    with i show thesis by (intro hit [of "nat i"]) simp_all
  qed
qed


definition overlaps :: "rat \<Rightarrow> rat \<Rightarrow> data_range \<Rightarrow> bool" where
  "overlaps start end r \<longleftrightarrow> range_lo r \<le> end \<and> start \<le> range_hi r"


lemma hit_start:
  assumes "disjoint_ranges rs" and "i < length rs" and "in_range key (rs ! i)" and "k < length rs"
  shows "key \<le> range_hi (rs ! k) \<longleftrightarrow> i \<le> k"
  using assms disjoint_ranges_nth [OF assms(1), of k i] disjoint_ranges_nth [OF assms(1), of i k]
    disjoint_ranges_self [OF assms(1), of k]
  by (cases "i = k"; cases "i < k") (auto simp: in_range_def)

lemma hit_end:
  assumes "disjoint_ranges rs" and "i < length rs" and "in_range key (rs ! i)" and "k < length rs"
  shows "range_lo (rs ! k) \<le> key \<longleftrightarrow> k \<le> i"
  using assms disjoint_ranges_nth [OF assms(1), of k i] disjoint_ranges_nth [OF assms(1), of i k]
    disjoint_ranges_self [OF assms(1), of k]
  by (cases "i = k"; cases "i < k") (auto simp: in_range_def)

lemma hit_in_set: "i < length rs \<Longrightarrow> in_range key (rs ! i) \<Longrightarrow> \<exists>r \<in> set rs. in_range key r"
  by (meson nth_mem)

lemma slice_filter:
  assumes "\<And>k. k < length xs \<Longrightarrow> P (xs ! k) \<longleftrightarrow> a \<le> k \<and> k < b"
  shows "py_slice xs (int a) (int b) = filter P xs"
  unfolding py_slice_nat using filter_index_range [of xs P a b] assms by simp

lemma get_ranges_eq:
  assumes "disjoint_ranges rs"
  shows "get_ranges rs start end = Inr (
     if (\<exists>r \<in> set rs. in_range start r) \<and> (\<exists>r \<in> set rs. in_range end r) then filter (overlaps start end) rs
     else if \<exists>r \<in> set rs. in_range start r then filter (\<lambda>r. start \<le> range_hi r) rs
     else if \<exists>r \<in> set rs. in_range end r then filter (\<lambda>r. range_lo r \<le> end) rs
     else [])"
proof -
  note hs = hit_start [OF assms] and he = hit_end [OF assms]
  from assms show ?thesis
  proof (cases rule: search_range_cases [where key = start])
    case gap
    note g = this
    from assms show ?thesis
    proof (cases rule: search_range_cases [where key = "end"])
      case gap
      with g show ?thesis
        by (simp add: get_ranges_def)
    next
      case (hit j)
      have "py_slice rs (int 0) (int (Suc j)) = filter (\<lambda>r. range_lo r \<le> end) rs"
        by (rule slice_filter) (auto simp: he [OF hit(2,3)])
      with g hit hit_in_set [OF hit(2,3)] show ?thesis
        by (auto simp: get_ranges_def add.commute)
    qed
  next
    case (hit i)
    note i = this
    from assms show ?thesis
    proof (cases rule: search_range_cases [where key = "end"])
      case gap
      have "py_slice rs (int i) (int (length rs)) = filter (\<lambda>r. start \<le> range_hi r) rs"
        by (rule slice_filter) (auto simp: hs [OF i(2,3)])
      with gap i hit_in_set [OF i(2,3)] show ?thesis
        by (auto simp: get_ranges_def)
    next
      case (hit j)
      have "py_slice rs (int i) (int (Suc j)) = filter (overlaps start end) rs"
        by (rule slice_filter) (auto simp: overlaps_def hs [OF i(2,3)] he [OF hit(2,3)])
      with hit i hit_in_set [OF i(2,3)] hit_in_set [OF hit(2,3)] show ?thesis
        by (auto simp: get_ranges_def add.commute)
    qed
  qed
qed

text \<open>
  On sorted ranges that do not meet, \<open>get_ranges\<close> returns exactly the ranges that overlap the
  window when both of its ends lie in some range.  When one end lies in no range the window is taken
  to reach to that end of the line, and when both ends lie in no range nothing is returned.
\<close>
theorem get_ranges_exact:
  assumes "disjoint_ranges rs"
  shows "get_ranges rs start end = Inr (
     if (\<exists>r \<in> set rs. in_range start r) \<and> (\<exists>r \<in> set rs. in_range end r) then filter (overlaps start end) rs
     else if \<exists>r \<in> set rs. in_range start r then filter (\<lambda>r. start \<le> range_hi r) rs
     else if \<exists>r \<in> set rs. in_range end r then filter (\<lambda>r. range_lo r \<le> end) rs
     else [])"
  by (rule get_ranges_eq) (rule assms)

text \<open>The query and the query for bounds agree.\<close>

lemma get_ranges_slice:
  "get_ranges rs start end = res_bind (get_ranges_bounds rs start end) (\<lambda>(lo, hi). Inr (py_slice rs lo hi))"
  by (cases "search_range rs start"; cases "search_range rs end")
     (simp_all add: get_ranges_def get_ranges_bounds_def py_slice_def Let_def)

section \<open>Searching events\<close>

lemma search_event_loop_correct:
  assumes "sorted_wrt (\<lambda>a b. ev_time a < ev_time b) es" and "l \<le> u + 1"
    and "search_bracket (\<lambda>e. ev_time e < key) (\<lambda>e. key < ev_time e) es l u"
  shows "\<exists>i. search_event_loop es key l u = Inr (int i) \<and> i \<le> length es
    \<and> (\<forall>k < length es. ev_time (es ! k) < key \<longleftrightarrow> k < i)"
  using assms
proof (induction es key l u rule: search_event_loop.induct)
  case (1 es key l u)
  note br = "1.prems"(3)
  have less: "ev_time (es ! j) < ev_time (es ! k)" if "j < k" "k < length es" for j k
    using "1.prems"(1) that by (simp add: sorted_wrt_iff_nth_less)
  show ?case
  proof (cases "l \<le> u")
    case False
    have "ev_time (es ! k) < key \<longleftrightarrow> k < nat l" if "k < length es" for k
      using br False that "1.prems"(2) by (cases "int k < l") (auto simp: search_bracket_def)
    with False "1.prems"(2) br show ?thesis
      by (subst search_event_loop.simps) (auto simp: search_bracket_def intro!: exI [of _ "nat l"])
  next
    case True
    let ?i = "(l + u) div 2"
    note m = search_mid [OF br True]
    let ?e = "es ! nat ?i"
    consider "key = ev_time ?e" | "key < ev_time ?e" | "ev_time ?e < key" by linarith
    then show ?thesis
    proof cases
      case 1
      have "ev_time (es ! k) < key \<longleftrightarrow> k < nat ?i" if "k < length es" for k
        using less [of k "nat ?i"] less [of "nat ?i" k] m(2) that 1 by (cases k "nat ?i" rule: linorder_cases) auto
      with 1 True m show ?thesis
        by (subst search_event_loop.simps) (auto simp: Let_def intro!: exI [of _ "nat ?i"])
    next
      case 2
      have "key < ev_time (es ! j)" if "nat ?i \<le> j" "j < length es" for j
        using 2 that less [of "nat ?i" j] by (cases "nat ?i = j") auto
      from search_left [OF br m(3,4) this] have b: "search_bracket (\<lambda>e. ev_time e < key) (\<lambda>e. key < ev_time e) es l (?i - 1)"
        by blast
      have n: "key \<noteq> ev_time ?e" "l \<le> ?i - 1 + 1" using 2 m(3) by simp_all
      from 2 True m(1) n "1.IH"(1) [OF True refl n(1) 2 "1.prems"(1) n(2) b] show ?thesis
        by (subst search_event_loop.simps) (simp add: Let_def)
    next
      case 3
      have "ev_time (es ! j) < key" if "j \<le> nat ?i" "j < length es" for j
        using 3 that less [of j "nat ?i"] m(2) by (cases "nat ?i = j") auto
      from search_right [OF br m(3,4) this] have b: "search_bracket (\<lambda>e. ev_time e < key) (\<lambda>e. key < ev_time e) es (?i + 1) u"
        by blast
      have n: "key \<noteq> ev_time ?e" "\<not> key < ev_time ?e" "?i + 1 \<le> u + 1" using 3 m(4) by simp_all
      from 3 True m(1) n "1.IH"(2) [OF True refl n(1,2) "1.prems"(1) n(3) b] show ?thesis
        by (subst search_event_loop.simps) (simp add: Let_def)
    qed
  qed
qed

lemma search_event_position:
  assumes "sorted_wrt (\<lambda>a b. ev_time a < ev_time b) es"
  obtains i where "search_event es key = Inr (int i)" and "i \<le> length es"
    and "\<And>k. k < length es \<Longrightarrow> ev_time (es ! k) < key \<longleftrightarrow> k < i"
proof -
  have "search_bracket (\<lambda>e. ev_time e < key) (\<lambda>e. key < ev_time e) es 0 (int (length es) - 1)"
    by (auto simp: search_bracket_def)
  from search_event_loop_correct [OF assms _ this] that show thesis by (auto simp: search_event_def)
qed

text \<open>
  On events sorted by time with no two at the same time, \<open>get_events\<close> returns the events from
  the start of the window up to but without its end, and after them the first event at or after the
  end if there is one.
\<close>
theorem get_events_exact:
  assumes "sorted_wrt (\<lambda>a b. ev_time a < ev_time b) es" and "start \<le> end"
  shows "get_events es start end =
    Inr (filter (\<lambda>e. start \<le> ev_time e \<and> ev_time e < end) es @ take 1 (filter (\<lambda>e. end \<le> ev_time e) es))"
proof -
  from assms(1) obtain i where i: "search_event es start = Inr (int i)" "i \<le> length es"
    "\<And>k. k < length es \<Longrightarrow> ev_time (es ! k) < start \<longleftrightarrow> k < i" by (rule search_event_position) blast
  from assms(1) obtain j where j: "search_event es end = Inr (int j)" "j \<le> length es"
    "\<And>k. k < length es \<Longrightarrow> ev_time (es ! k) < end \<longleftrightarrow> k < j" by (rule search_event_position) blast
  have "i \<le> j"
  proof (rule ccontr)
    assume "\<not> i \<le> j"
    with i(2) i(3) [of j] j(3) [of j] assms(2) show False by force
  qed
  have "filter (\<lambda>e. start \<le> ev_time e \<and> ev_time e < end) es = take (j - i) (drop i es)"
    by (rule filter_index_range) (use i(3) j(3) in \<open>auto simp: not_less [symmetric]\<close>)
  moreover have "filter (\<lambda>e. end \<le> ev_time e) es = drop j es"
    using filter_index_range [of es "\<lambda>e. end \<le> ev_time e" j "length es"] j(3) by (auto simp: not_less [symmetric])
  moreover have "get_events es start end = Inr (take (Suc j - i) (drop i es))"
    using i(1) j(1) py_slice_nat [of es i "Suc j"] by (simp add: get_events_def add.commute)
  moreover have "take (Suc j - i) (drop i es) = take (j - i) (drop i es) @ take 1 (drop j es)"
    using \<open>i \<le> j\<close> take_add [of "j - i" 1 "drop i es"] by (simp add: Suc_diff_le)
  ultimately show ?thesis by simp
qed

section \<open>Entries by name\<close>

text \<open>
  Ranges, events and time lines are all kept in lists that are searched by name and extended when the
  name is new.  The interface: making an entry gives it the name asked for.
\<close>

definition entry :: "('a \<Rightarrow> string) \<Rightarrow> (string \<Rightarrow> 'a) \<Rightarrow> string \<Rightarrow> 'a list \<Rightarrow> 'a" where
  "entry nm new n xs = (case find (\<lambda>x. nm x = n) xs of None \<Rightarrow> new n | Some x \<Rightarrow> x)"

lemma entry_simps [simp]:
  "entry nm new n [] = new n"
  "entry nm new n (x # xs) = (if nm x = n then x else entry nm new n xs)"
  by (simp_all add: entry_def)

locale named_entries =
  fixes nm :: "'a \<Rightarrow> string" and new :: "string \<Rightarrow> 'a"
  assumes nm_new: "nm (new n) = n"
begin

lemma entry_get_or_add:
  assumes "\<And>x. nm (f x) = nm x"
  shows "entry nm new n (get_or_add nm (new name) name f xs)
    = (if n = name then f (entry nm new n xs) else entry nm new n xs)"
  by (cases "n = name"; induction xs) (simp_all add: assms nm_new)

lemma names_get_or_add:
  assumes "\<And>x. nm (f x) = nm x"
  shows "map nm (get_or_add nm (new name) name f xs)
    = (if name \<in> nm ` set xs then map nm xs else map nm xs @ [name])"
  by (induction xs) (auto simp: assms nm_new)

lemma distinct_get_or_add:
  assumes "\<And>x. nm (f x) = nm x" and "distinct (map nm xs)"
  shows "distinct (map nm (get_or_add nm (new name) name f xs))"
  using assms by (simp add: names_get_or_add)

lemma entry_map:
  assumes "\<And>x. nm (g x) = nm x" and "g (new n) = new n"
  shows "entry nm new n (map g xs) = g (entry nm new n xs)"
  by (induction xs) (simp_all add: assms)

end

abbreviation new_range :: "string \<Rightarrow> timeline_range" where
  "new_range n \<equiv> \<lparr>tr_name = n, tr_ranges = []\<rparr>"

abbreviation new_event :: "string \<Rightarrow> timeline_event" where
  "new_event n \<equiv> \<lparr>te_name = n, te_events = []\<rparr>"

abbreviation new_timeline :: "string \<Rightarrow> timeline" where
  "new_timeline n \<equiv> \<lparr>tl_name = n, tl_ranges = [], tl_event_str = [], tl_event_int = []\<rparr>"

interpretation range_entries: named_entries tr_name new_range
  by unfold_locales simp

interpretation event_entries: named_entries te_name new_event
  by unfold_locales simp

interpretation timeline_entries: named_entries tl_name new_timeline
  by unfold_locales simp

lemma names_kept [simp]:
  "tr_name (add_range r x) = tr_name x" "te_name (add_event e y) = te_name y"
  "tl_name (get_range b f t) = tl_name t" "tl_name (get_event_str b g t) = tl_name t"
  "tl_name (get_event_int b g t) = tl_name t"
  "tr_name (sort_range x) = tr_name x" "te_name (sort_event y) = te_name y" "tl_name (sort_timeline t) = tl_name t"
  by (simp_all add: add_range_def add_event_def get_range_def get_event_str_def get_event_int_def
      sort_range_def sort_event_def sort_timeline_def)

text \<open>What a time line holds under a name.\<close>

definition ranges_of :: "timeline list \<Rightarrow> string \<Rightarrow> string \<Rightarrow> data_range list" where
  "ranges_of ts a b = tr_ranges (entry tr_name new_range b (tl_ranges (entry tl_name new_timeline a ts)))"

definition strings_of :: "timeline list \<Rightarrow> string \<Rightarrow> string \<Rightarrow> event list" where
  "strings_of ts a b = te_events (entry te_name new_event b (tl_event_str (entry tl_name new_timeline a ts)))"

definition ints_of :: "timeline list \<Rightarrow> string \<Rightarrow> string \<Rightarrow> event list" where
  "ints_of ts a b = te_events (entry te_name new_event b (tl_event_int (entry tl_name new_timeline a ts)))"

text \<open>What the trace says about a name, in the order of the file.\<close>

definition trace_lines :: "string list \<Rightarrow> trace_line list" where
  "trace_lines ls = List.map_filter match_line ls"

definition traced_ranges :: "string \<Rightarrow> string \<Rightarrow> trace_line list \<Rightarrow> data_range list" where
  "traced_ranges a b tls =
     List.map_filter (\<lambda>t. case t of RangeLine a' b' r \<Rightarrow> if a' = a \<and> b' = b then Some r else None | _ \<Rightarrow> None) tls"

definition traced_strings :: "string \<Rightarrow> string \<Rightarrow> trace_line list \<Rightarrow> event list" where
  "traced_strings a b tls =
     List.map_filter (\<lambda>t. case t of EventStrLine a' b' e \<Rightarrow> if a' = a \<and> b' = b then Some e else None | _ \<Rightarrow> None) tls"

definition traced_ints :: "string \<Rightarrow> string \<Rightarrow> trace_line list \<Rightarrow> event list" where
  "traced_ints a b tls =
     List.map_filter (\<lambda>t. case t of EventIntLine a' b' e \<Rightarrow> if a' = a \<and> b' = b then Some e else None | _ \<Rightarrow> None) tls"

lemma read_lines_fold:
  "read_lines ls = foldl read_line ([], \<lparr>c_colors = [], c_default = default_colors\<rparr>) (trace_lines ls)"
proof -
  have "foldl (\<lambda>st line. case match_line line of Some t \<Rightarrow> read_line st t | None \<Rightarrow> st) st ls
      = foldl read_line st (trace_lines ls)" for st
    by (induction ls arbitrary: st) (auto simp: trace_lines_def List.map_filter_simps split: option.splits)
  then show ?thesis by (simp add: read_lines_def)
qed

lemmas entry_rules = range_entries.entry_get_or_add event_entries.entry_get_or_add timeline_entries.entry_get_or_add

lemma read_line_entries:
  "ranges_of (fst (read_line st t)) a b = ranges_of (fst st) a b @ traced_ranges a b [t]"
  "strings_of (fst (read_line st t)) a b = strings_of (fst st) a b @ traced_strings a b [t]"
  "ints_of (fst (read_line st t)) a b = ints_of (fst st) a b @ traced_ints a b [t]"
  by (cases st; cases t; simp add: ranges_of_def strings_of_def ints_of_def traced_ranges_def traced_strings_def
      traced_ints_def get_timeline_def get_range_def get_event_str_def get_event_int_def entry_rules
      List.map_filter_simps; simp add: add_range_def add_event_def)+

lemma read_fold_entries:
  "ranges_of (fst (foldl read_line st tls)) a b = ranges_of (fst st) a b @ traced_ranges a b tls"
  "strings_of (fst (foldl read_line st tls)) a b = strings_of (fst st) a b @ traced_strings a b tls"
  "ints_of (fst (foldl read_line st tls)) a b = ints_of (fst st) a b @ traced_ints a b tls"
  by (induction tls rule: rev_induct)
     (auto simp: read_line_entries traced_ranges_def traced_strings_def traced_ints_def map_filter_def)

lemma sort_timelines_entries:
  "ranges_of (sort_timelines ts) a b = sort_key r_start (ranges_of ts a b)"
  "strings_of (sort_timelines ts) a b = sort_key e_at (strings_of ts a b)"
  "ints_of (sort_timelines ts) a b = sort_key e_at (ints_of ts a b)"
proof -
  have t: "entry tl_name new_timeline a (sort_timelines ts) = sort_timeline (entry tl_name new_timeline a ts)"
    unfolding sort_timelines_def by (rule timeline_entries.entry_map) (simp_all, simp add: sort_timeline_def)
  have r: "entry tr_name new_range b (map sort_range xs) = sort_range (entry tr_name new_range b xs)" for xs
    by (rule range_entries.entry_map) (simp_all, simp add: sort_range_eq)
  have e: "entry te_name new_event b (map sort_event xs) = sort_event (entry te_name new_event b xs)" for xs
    by (rule event_entries.entry_map) (simp_all, simp add: sort_event_eq)
  show "ranges_of (sort_timelines ts) a b = sort_key r_start (ranges_of ts a b)"
    "strings_of (sort_timelines ts) a b = sort_key e_at (strings_of ts a b)"
    "ints_of (sort_timelines ts) a b = sort_key e_at (ints_of ts a b)"
    unfolding ranges_of_def strings_of_def ints_of_def t
    by (simp_all add: sort_timeline_def r e sort_range_eq sort_event_eq)
qed

text \<open>
  C35: After \<open>read_data\<close> each time line holds under each name exactly the ranges and the string and
  integer events that the lines of the trace file give for it, sorted by time; entries at the same
  time keep the order of the file.
\<close>
theorem read_data_lines:
  "ranges_of (snd (read_data ls)) a b = sort_key r_start (traced_ranges a b (trace_lines ls))
   \<and> strings_of (snd (read_data ls)) a b = sort_key e_at (traced_strings a b (trace_lines ls))
   \<and> ints_of (snd (read_data ls)) a b = sort_key e_at (traced_ints a b (trace_lines ls))"
proof -
  have "ranges_of [] a b = []" "strings_of [] a b = []" "ints_of [] a b = []"
    by (simp_all add: ranges_of_def strings_of_def ints_of_def entry_def)
  then show ?thesis
    by (simp add: read_data_def case_prod_beta sort_timelines_entries read_lines_fold read_fold_entries)
qed

section \<open>Bounds\<close>

lemma widen_eq: "widen b p = (min (fst b) (fst p), max (snd b) (snd p))"
  by (auto simp: widen_def case_prod_beta Let_def min_def max_def)

lemma foldl_widen:
  "fst (foldl widen b ps) \<le> fst b \<and> snd b \<le> snd (foldl widen b ps)
   \<and> (\<forall>p \<in> set ps. fst (foldl widen b ps) \<le> fst p \<and> snd p \<le> snd (foldl widen b ps))"
proof (induction ps arbitrary: b)
  case (Cons p ps)
  from Cons [of "widen b p"] show ?case by (auto simp: widen_eq)
qed simp

lemma timeline_bounds_parts:
  "x \<in> set (tl_ranges t) \<Longrightarrow> fst (timeline_bounds t) \<le> fst (range_bounds x) \<and> snd (range_bounds x) \<le> snd (timeline_bounds t)"
  "y \<in> set (tl_event_str t @ tl_event_int t) \<Longrightarrow>
     fst (timeline_bounds t) \<le> fst (event_bounds y) \<and> snd (event_bounds y) \<le> snd (timeline_bounds t)"
proof -
  have "timeline_bounds t = foldl widen (0, 0)
      (map range_bounds (tl_ranges t) @ map event_bounds (tl_event_str t @ tl_event_int t))"
    by (simp add: timeline_bounds_def Let_def)
  with foldl_widen [of "(0, 0)" "map range_bounds (tl_ranges t) @ map event_bounds (tl_event_str t @ tl_event_int t)"]
  show "x \<in> set (tl_ranges t) \<Longrightarrow> fst (timeline_bounds t) \<le> fst (range_bounds x) \<and> snd (range_bounds x) \<le> snd (timeline_bounds t)"
    and "y \<in> set (tl_event_str t @ tl_event_int t) \<Longrightarrow>
      fst (timeline_bounds t) \<le> fst (event_bounds y) \<and> snd (event_bounds y) \<le> snd (timeline_bounds t)"
    by auto
qed

lemma timelines_bounds_parts:
  "t \<in> set ts \<Longrightarrow> fst (timelines_bounds ts) \<le> fst (timeline_bounds t) \<and> snd (timeline_bounds t) \<le> snd (timelines_bounds ts)"
  using foldl_widen [of "(0, 0)" "map timeline_bounds ts"] by (auto simp: timelines_bounds_def)

lemma sorted_first_last:
  assumes "sorted (map f xs)" and "x \<in> set xs"
  shows "f (hd xs) \<le> f x" and "f x \<le> f (last xs)"
proof -
  show "f (hd xs) \<le> f x" using assms by (cases xs) auto
  show "f x \<le> f (last xs)" using assms by (cases xs rule: rev_cases) (auto simp: sorted_append)
qed

lemma event_bounds_cover:
  assumes "e \<in> set (te_events (sort_event y))"
  shows "fst (event_bounds (sort_event y)) \<le> e_at e \<and> e_at e \<le> snd (event_bounds (sort_event y))"
proof -
  let ?es = "sort_key e_at (te_events y)"
  have e: "e \<in> set ?es" using assms by (simp add: sort_event_eq)
  then have "?es \<noteq> []" by (metis empty_iff list.set(1))
  with e sorted_first_last [of e_at ?es e] show ?thesis by (simp add: event_bounds_def sort_event_eq)
qed

lemma range_bounds_cover:
  assumes "r \<in> set (tr_ranges (sort_range x))"
  shows "fst (range_bounds (sort_range x)) \<le> r_start r"
    and "disjoint_ranges (tr_ranges (sort_range x)) \<Longrightarrow> r_end r \<le> snd (range_bounds (sort_range x))"
proof -
  let ?rs = "sort_key r_start (tr_ranges x)"
  have r: "r \<in> set ?rs" using assms by (simp add: sort_range_eq)
  then have ne: "?rs \<noteq> []" by (metis empty_iff list.set(1))
  with r sorted_first_last(1) [of r_start ?rs r] show "fst (range_bounds (sort_range x)) \<le> r_start r"
    by (simp add: range_bounds_def sort_range_eq)
  assume d: "disjoint_ranges (tr_ranges (sort_range x))"
  from r obtain k where k: "k < length ?rs" "?rs ! k = r" by (metis in_set_conv_nth)
  have "r_end r \<le> r_end (last ?rs)"
  proof (cases "k = length ?rs - 1")
    case True
    with k ne show ?thesis by (simp add: last_conv_nth)
  next
    case False
    with k have j: "k < length ?rs - 1" "length ?rs - 1 < length ?rs" by simp_all
    have d': "disjoint_ranges ?rs" using d by (simp add: sort_range_eq)
    from order_trans [OF less_imp_le [OF disjoint_ranges_nth [OF d' j]] disjoint_ranges_self [OF d' j(2)]]
    show ?thesis by (simp only: last_conv_nth [OF ne] k(2))
  qed
  with ne show "r_end r \<le> snd (range_bounds (sort_range x))" by (simp add: range_bounds_def sort_range_eq)
qed

text \<open>
  The upper bound is the latest of the times of all events and, for each line of ranges, of the end of
  the range that starts last; zero if there is none.
\<close>

definition shown_times :: "timeline \<Rightarrow> int set" where
  "shown_times t = (\<Union>y \<in> set (tl_event_str t @ tl_event_int t). e_at ` set (te_events y))
     \<union> (\<lambda>x. r_end (last (tr_ranges x))) ` {x \<in> set (tl_ranges t). tr_ranges x \<noteq> []}"

definition last_time :: "timeline list \<Rightarrow> int" where
  "last_time ts = Max (insert 0 (\<Union>t \<in> set ts. shown_times t))"

lemma foldl_widen_snd: "snd b \<in> S \<Longrightarrow> (\<And>p. p \<in> set ps \<Longrightarrow> snd p \<in> S) \<Longrightarrow> snd (foldl widen b ps) \<in> S"
  by (induction ps arbitrary: b) (simp_all add: widen_eq max_def)

lemma timeline_bounds_shown: "snd (timeline_bounds t) \<in> insert 0 (shown_times t)"
proof -
  let ?ps = "map range_bounds (tl_ranges t) @ map event_bounds (tl_event_str t @ tl_event_int t)"
  have t: "timeline_bounds t = foldl widen (0, 0) ?ps" by (simp add: timeline_bounds_def Let_def)
  have r: "snd (range_bounds x) \<in> insert 0 (shown_times t)" if "x \<in> set (tl_ranges t)" for x
    using that by (auto simp: range_bounds_def shown_times_def)
  have e: "snd (event_bounds y) \<in> insert 0 (shown_times t)" if "y \<in> set (tl_event_str t @ tl_event_int t)" for y
  proof (cases "te_events y = []")
    case False
    then have "e_at (last (te_events y)) \<in> e_at ` set (te_events y)" by simp
    then have "e_at (last (te_events y)) \<in> shown_times t" unfolding shown_times_def using that by blast
    then show ?thesis using False by (simp add: event_bounds_def)
  qed (simp add: event_bounds_def)
  show ?thesis unfolding t
  proof (rule foldl_widen_snd)
    fix p assume "p \<in> set ?ps"
    then consider x where "x \<in> set (tl_ranges t)" "p = range_bounds x"
      | y where "y \<in> set (tl_event_str t @ tl_event_int t)" "p = event_bounds y" by auto
    then show "snd p \<in> insert 0 (shown_times t)" using r e by cases simp_all
  qed simp
qed

lemma shown_times_le:
  assumes "z \<in> shown_times (sort_timeline t)"
  shows "z \<le> snd (timeline_bounds (sort_timeline t))"
proof -
  let ?t = "sort_timeline t"
  have "e_at e \<le> snd (timeline_bounds ?t)" if y: "y \<in> set (tl_event_str ?t @ tl_event_int ?t)" and e: "e \<in> set (te_events y)" for y e
  proof -
    from y obtain u where "y = sort_event u" by (auto simp: sort_timeline_def)
    with event_bounds_cover [of e u] timeline_bounds_parts(2) [OF y] e show ?thesis by force
  qed
  moreover have "r_end (last (tr_ranges x)) \<le> snd (timeline_bounds ?t)" if "x \<in> set (tl_ranges ?t)" "tr_ranges x \<noteq> []" for x
    using timeline_bounds_parts(1) [OF that(1)] that(2) by (simp add: range_bounds_def)
  ultimately show ?thesis using assms unfolding shown_times_def by blast
qed

lemma timelines_bounds_last: "snd (timelines_bounds (sort_timelines ts)) = last_time (sort_timelines ts)"
proof -
  let ?ts = "sort_timelines ts"
  have i: "snd (timelines_bounds ?ts) \<in> insert 0 (\<Union>t \<in> set ?ts. shown_times t)"
    unfolding timelines_bounds_def
  proof (rule foldl_widen_snd)
    fix p assume "p \<in> set (map timeline_bounds ?ts)"
    then obtain t where t: "t \<in> set ?ts" "p = timeline_bounds t" by auto
    with timeline_bounds_shown [of t] show "snd p \<in> insert 0 (\<Union>t \<in> set ?ts. shown_times t)" by auto
  qed simp
  have z: "0 \<le> snd (timelines_bounds ?ts)"
    using foldl_widen [of "(0, 0)" "map timeline_bounds ?ts"] by (simp add: timelines_bounds_def)
  have "z \<le> snd (timelines_bounds ?ts)" if "t \<in> set ?ts" "z \<in> shown_times t" for t z
  proof -
    from that(1) obtain u where "t = sort_timeline u" by (auto simp: sort_timelines_def)
    with shown_times_le [of z u] that(2) timelines_bounds_parts [OF that(1)] show ?thesis by force
  qed
  moreover have "finite (\<Union>t \<in> set ?ts. shown_times t)" by (simp add: shown_times_def)
  ultimately show ?thesis unfolding last_time_def using i z by (intro Max_eqI [symmetric]) auto
qed

text \<open>
  The bounds that \<open>main\<close> asks for after the time lines were sorted enclose every event and the
  start of every range, and also the end of every range on a line whose ranges do not meet.
\<close>
theorem timelines_bounds_cover:
  assumes "t \<in> set (sort_timelines ts)" and "timelines_bounds (sort_timelines ts) = (lo, hi)"
  shows "(\<forall>y \<in> set (tl_event_str t @ tl_event_int t). \<forall>e \<in> set (te_events y). lo \<le> e_at e \<and> e_at e \<le> hi)
    \<and> (\<forall>x \<in> set (tl_ranges t). \<forall>r \<in> set (tr_ranges x).
         lo \<le> r_start r \<and> (disjoint_ranges (tr_ranges x) \<longrightarrow> r_end r \<le> hi))"
proof -
  from assms(1) obtain u where t: "t = sort_timeline u" by (auto simp: sort_timelines_def)
  have b: "lo \<le> fst (timeline_bounds t)" "snd (timeline_bounds t) \<le> hi"
    using timelines_bounds_parts [OF assms(1)] assms(2) by auto
  have "lo \<le> e_at e \<and> e_at e \<le> hi" if y: "y \<in> set (tl_event_str t @ tl_event_int t)" and e: "e \<in> set (te_events y)" for y e
  proof -
    from y obtain z where "y = sort_event z" unfolding t by (auto simp: sort_timeline_def)
    with event_bounds_cover [of e z] timeline_bounds_parts(2) [OF y] b e show ?thesis by force
  qed
  moreover have "lo \<le> r_start r \<and> (disjoint_ranges (tr_ranges x) \<longrightarrow> r_end r \<le> hi)"
    if x: "x \<in> set (tl_ranges t)" and r: "r \<in> set (tr_ranges x)" for x r
  proof -
    from x obtain z where "x = sort_range z" unfolding t by (auto simp: sort_timeline_def)
    with range_bounds_cover [of r z] timeline_bounds_parts(1) [OF x] b r show ?thesis by force
  qed
  ultimately show ?thesis by blast
qed

text \<open>With nested ranges the upper bound is the end of the range that starts last.\<close>

lemma range_bounds_nested:
  "range_bounds (sort_range \<lparr>tr_name = ''a'', tr_ranges =
     [\<lparr>r_start = 0, r_end = 10, r_value = ''x''\<rparr>, \<lparr>r_start = 1, r_end = 2, r_value = ''y''\<rparr>]\<rparr>) = (0, 2)"
  by (simp add: range_bounds_def sort_range_eq)

section \<open>Colours of the legend\<close>

lemma lookup_color_known: "has_key (c_colors cs) n \<Longrightarrow> lookup_color n cs = Inr (map_of (c_colors cs) n, cs)"
  by (simp add: lookup_color_def)

lemma legend_colors_Cons:
  "(\<exists>r. legend_colors (n # ns) cs = Inr r) \<longleftrightarrow>
     (\<exists>c cs'. lookup_color n cs = Inr (c, cs') \<and> (\<exists>r. legend_colors ns cs' = Inr r))"
  by (auto simp: res_bind_eq_Inr)

text \<open>
  The legend can be coloured exactly when the values without a colour of their own are at most as many
  as there are default colours left; the program starts with six.
\<close>

lemma legend_colors_ok_iff:
  assumes "distinct ns"
  shows "(\<exists>r. legend_colors ns cs = Inr r) \<longleftrightarrow>
    length (filter (\<lambda>n. \<not> has_key (c_colors cs) n) ns) \<le> length (c_default cs)"
  using assms
proof (induction ns arbitrary: cs)
  case (Cons n ns)
  consider "has_key (c_colors cs) n" | "\<not> has_key (c_colors cs) n" "c_default cs = []"
    | "\<not> has_key (c_colors cs) n" "c_default cs \<noteq> []" by blast
  then show ?case
  proof cases
    case 1
    with Cons show ?thesis unfolding legend_colors_Cons by (simp add: lookup_color_def)
  next
    case 2
    then show ?thesis unfolding legend_colors_Cons by (simp add: lookup_color_def)
  next
    case 3
    let ?cs = "add_color n (last (c_default cs)) (cs\<lparr>c_default := butlast (c_default cs)\<rparr>)"
    have "has_key (c_colors ?cs) x = has_key (c_colors cs) x" if "x \<in> set ns" for x
      using Cons.prems that by (auto simp: add_color_def has_key_iff dom_update)
    then have f: "filter (\<lambda>x. \<not> has_key (c_colors ?cs) x) ns = filter (\<lambda>x. \<not> has_key (c_colors cs) x) ns"
      by (auto intro!: filter_cong)
    have "c_default ?cs = butlast (c_default cs)" by (simp add: add_color_def)
    moreover have "lookup_color n cs = Inr (map_of (c_colors ?cs) n, ?cs)"
      using 3 by (simp add: lookup_color_def Let_def)
    ultimately show ?thesis
      using Cons.IH [of ?cs] Cons.prems 3 f unfolding legend_colors_Cons by (cases "c_default cs") auto
  qed
qed simp

section \<open>Lines of the trace file\<close>

definition is_word :: "string \<Rightarrow> bool" where
  "is_word w \<longleftrightarrow> w \<noteq> [] \<and> CHR '' '' \<notin> set w"

definition no_digit :: "string \<Rightarrow> bool" where
  "no_digit s \<longleftrightarrow> (case s of [] \<Rightarrow> True | c # r \<Rightarrow> \<not> is_digit c)"

lemma lit_app [simp]: "lit p (p @ s) = Some s"
  by (simp add: lit_def)

lemma word_app [simp]: "is_word w \<Longrightarrow> word (w @ CHR '' '' # s) = Some (w, CHR '' '' # s)"
proof -
  assume w: "is_word w"
  then have "takeWhile (\<lambda>c. c \<noteq> CHR '' '') (w @ CHR '' '' # s) = w @ takeWhile (\<lambda>c. c \<noteq> CHR '' '') (CHR '' '' # s)"
    by (intro takeWhile_append2) (auto simp: is_word_def)
  with w show ?thesis by (simp add: word_def is_word_def Let_def)
qed

lemma number_app [simp]: "no_digit s \<Longrightarrow> number (show_nat n @ s) = Some (n, s)"
proof -
  assume "no_digit s"
  then have "takeWhile is_digit s = []" by (cases s) (auto simp: no_digit_def)
  moreover have "takeWhile is_digit (show_nat n @ s) = show_nat n @ takeWhile is_digit s"
    by (rule takeWhile_append2) (rule show_nat_digits)
  ultimately show ?thesis by (simp add: number_def Let_def)
qed

lemma no_digit_blank [simp]: "no_digit (CHR '' '' # s)"
  by (simp add: no_digit_def is_digit_def)

lemma lit_blank [simp]: "lit '' '' (CHR '' '' # s) = Some s"
  by (simp add: lit_def)

text \<open>A well-formed line of each kind is read back with its names, value and times, whatever follows it.\<close>

lemma match_line_written:
  assumes "is_word a" and "is_word b" and "is_word v" and "no_digit rest"
  shows "match_line (''range '' @ a @ '' '' @ b @ '' '' @ v @ '' '' @ show_nat x @ '' '' @ show_nat y @ rest)
      = Some (RangeLine a b \<lparr>r_start = int x, r_end = int y, r_value = v\<rparr>)"
    and "match_line (''event-str '' @ a @ '' '' @ b @ '' '' @ v @ '' '' @ show_nat x @ rest)
      = Some (EventStrLine a b \<lparr>e_at = int x, e_value = StrValue v\<rparr>)"
    and "match_line (''event-int '' @ a @ '' '' @ b @ '' '' @ show_nat n @ '' '' @ show_nat x @ rest)
      = Some (EventIntLine a b \<lparr>e_at = int x, e_value = IntValue (int n)\<rparr>)"
proof -
  have l: "lit ''range '' (''event-'' @ s) = None" "lit ''event-str '' (''event-int '' @ s) = None" for s
    by (simp_all add: lit_def)
  show "match_line (''range '' @ a @ '' '' @ b @ '' '' @ v @ '' '' @ show_nat x @ '' '' @ show_nat y @ rest)
      = Some (RangeLine a b \<lparr>r_start = int x, r_end = int y, r_value = v\<rparr>)"
    using assms by (simp only: match_line_def match_range_def lit_app) simp
  have "match_range (''event-str '' @ s) = None" for s
    using l(1) [of "''str '' @ s"] by (simp add: match_range_def)
  then show "match_line (''event-str '' @ a @ '' '' @ b @ '' '' @ v @ '' '' @ show_nat x @ rest)
      = Some (EventStrLine a b \<lparr>e_at = int x, e_value = StrValue v\<rparr>)"
    using assms by (simp only: match_line_def match_event_str_def lit_app) simp
  have "match_range (''event-int '' @ s) = None" "match_event_str (''event-int '' @ s) = None" for s
    using l(1) [of "''int '' @ s"] l(2) [of s] by (simp_all add: match_range_def match_event_str_def)
  then show "match_line (''event-int '' @ a @ '' '' @ b @ '' '' @ show_nat n @ '' '' @ show_nat x @ rest)
      = Some (EventIntLine a b \<lparr>e_at = int x, e_value = IntValue (int n)\<rparr>)"
    using assms by (simp only: match_line_def match_event_int_def lit_app) simp
qed

section \<open>Examples\<close>

definition sample_ranges :: "data_range list" where
  "sample_ranges = [\<lparr>r_start = 0, r_end = 2, r_value = ''a''\<rparr>, \<lparr>r_start = 4, r_end = 5, r_value = ''b''\<rparr>,
                    \<lparr>r_start = 7, r_end = 9, r_value = ''a''\<rparr>]"

definition sample_events :: "event list" where
  "sample_events = [\<lparr>e_at = 1, e_value = StrValue ''x''\<rparr>, \<lparr>e_at = 3, e_value = StrValue ''y''\<rparr>,
                    \<lparr>e_at = 6, e_value = StrValue ''z''\<rparr>]"

lemma sample_ranges_disjoint: "disjoint_ranges sample_ranges"
  by (simp add: disjoint_ranges_def sample_ranges_def)

theorem get_ranges_exact_witness:
  "get_ranges sample_ranges 1 8 = Inr sample_ranges \<and> get_ranges sample_ranges 3 6 = Inr []"
  using get_ranges_exact [OF sample_ranges_disjoint, of 1 8] get_ranges_exact [OF sample_ranges_disjoint, of 3 6]
  by (simp add: sample_ranges_def in_range_def overlaps_def)

theorem get_events_exact_witness: "get_events sample_events 1 2 = Inr (take 2 sample_events)"
  using get_events_exact [of sample_events 1 2] by (simp add: sample_events_def)

theorem timelines_bounds_cover_witness:
  "let t = \<lparr>tl_name = ''t'', tl_ranges = [\<lparr>tr_name = ''r'', tr_ranges = sample_ranges\<rparr>],
            tl_event_str = [\<lparr>te_name = ''e'', te_events = rev sample_events\<rparr>], tl_event_int = []\<rparr>
   in sort_timeline t \<in> set (sort_timelines [t]) \<and> timelines_bounds (sort_timelines [t]) = (0, 9)
      \<and> (\<forall>y \<in> set (tl_event_str (sort_timeline t)). \<forall>e \<in> set (te_events y). 0 \<le> e_at e \<and> e_at e \<le> 9)"
proof -
  let ?t = "\<lparr>tl_name = ''t'', tl_ranges = [\<lparr>tr_name = ''r'', tr_ranges = sample_ranges\<rparr>],
            tl_event_str = [\<lparr>te_name = ''e'', te_events = rev sample_events\<rparr>], tl_event_int = []\<rparr>"
  have m: "sort_timeline ?t \<in> set (sort_timelines [?t])" by (simp add: sort_timelines_def)
  have b: "timelines_bounds (sort_timelines [?t]) = (0, 9)"
    by (simp add: timelines_bounds_def sort_timelines_def timeline_bounds_def sort_timeline_def sort_range_eq
        sort_event_eq range_bounds_def event_bounds_def sample_ranges_def sample_events_def widen_def)
  from m b timelines_bounds_cover [OF m b] show ?thesis unfolding Let_def set_append by blast
qed

end
