(* ===== verification/Py_Num.thy ===== *)
theory Py_Num
  imports Py_Prelude Complex_Main
begin

text \<open>
  Numbers of Python 2 as the viewer computes with them: integers without bound and floating-point
  numbers, the latter as exact rationals.  An operation on two integers gives an integer, and the
  quotient of two integers is rounded down; as soon as one operand is a float the result is one.
  Division by zero raises in both cases.
\<close>

datatype pynum = PInt int | PFloat rat

fun val :: "pynum \<Rightarrow> rat" where
  "val (PInt i) = of_int i"
| "val (PFloat r) = r"

fun both :: "(int \<Rightarrow> int \<Rightarrow> int) \<Rightarrow> (rat \<Rightarrow> rat \<Rightarrow> rat) \<Rightarrow> pynum \<Rightarrow> pynum \<Rightarrow> pynum" where
  "both f g (PInt a) (PInt b) = PInt (f a b)"
| "both f g a b = PFloat (g (val a) (val b))"

instantiation pynum :: "{plus, minus, times, uminus}"
begin

definition plus_pynum :: "pynum \<Rightarrow> pynum \<Rightarrow> pynum" where
  "plus_pynum = both (+) (+)"

definition minus_pynum :: "pynum \<Rightarrow> pynum \<Rightarrow> pynum" where
  "minus_pynum = both (-) (-)"

definition times_pynum :: "pynum \<Rightarrow> pynum \<Rightarrow> pynum" where
  "times_pynum = both (*) (*)"

definition uminus_pynum :: "pynum \<Rightarrow> pynum" where
  "uminus_pynum a = PInt 0 - a"

instance ..

end

text \<open>Comparison is by value.\<close>

instantiation pynum :: ord
begin

definition less_eq_pynum :: "pynum \<Rightarrow> pynum \<Rightarrow> bool" where
  "less_eq_pynum a b \<longleftrightarrow> val a \<le> val b"

definition less_pynum :: "pynum \<Rightarrow> pynum \<Rightarrow> bool" where
  "less_pynum a b \<longleftrightarrow> val a < val b"

instance ..

end

definition same_value :: "pynum \<Rightarrow> pynum \<Rightarrow> bool" where
  "same_value a b \<longleftrightarrow> val a = val b"

text \<open>\<open>max(a, b)\<close> and \<open>min(a, b)\<close> keep the first of two equal numbers.\<close>

definition py_max :: "pynum \<Rightarrow> pynum \<Rightarrow> pynum" where
  "py_max a b = (if a < b then b else a)"

definition py_min :: "pynum \<Rightarrow> pynum \<Rightarrow> pynum" where
  "py_min a b = (if b < a then b else a)"

definition py_abs :: "pynum \<Rightarrow> pynum" where
  "py_abs a = (if a < PInt 0 then - a else a)"

definition py_div :: "pynum \<Rightarrow> pynum \<Rightarrow> pynum res" where
  "py_div a b = (if val b = 0 then Inl ZeroDivisionError else Inr (both (div) (/) a b))"

definition py_mod :: "pynum \<Rightarrow> pynum \<Rightarrow> pynum res" where
  "py_mod a b =
     (if val b = 0 then Inl ZeroDivisionError
      else Inr (both (mod) (\<lambda>x y. x - y * of_int \<lfloor>x / y\<rfloor>) a b))"

text \<open>Division by a constant that is not zero.\<close>

definition half :: "pynum \<Rightarrow> pynum" where
  "half a = both (div) (/) a (PInt 2)"

text \<open>\<open>int(x)\<close> rounds towards zero, \<open>float(x)\<close> keeps the value.\<close>

fun to_int :: "pynum \<Rightarrow> int" where
  "to_int (PInt i) = i"
| "to_int (PFloat r) = (if r < 0 then \<lceil>r\<rceil> else \<lfloor>r\<rfloor>)"

definition to_float :: "pynum \<Rightarrow> pynum" where
  "to_float a = PFloat (val a)"

text \<open>\<open>range(a, b, step)\<close>.\<close>

definition py_range :: "int \<Rightarrow> int \<Rightarrow> int \<Rightarrow> (int list) res" where
  "py_range a b step =
     (if step = 0 then Inl (ValueError ''range() step argument must not be zero'')
      else if step > 0 then Inr (map (\<lambda>i. a + int i * step) [0..<nat ((b - a + step - 1) div step)])
      else Inr (map (\<lambda>i. a + int i * step) [0..<nat ((a - b - step - 1) div (- step))]))"

section \<open>Values\<close>

lemma val_arith [simp]: "val (a + b) = val a + val b" "val (a - b) = val a - val b" "val (a * b) = val a * val b"
  "val (- a) = - val a"
  by (cases a; cases b; simp add: plus_pynum_def minus_pynum_def times_pynum_def uminus_pynum_def)+

lemma val_max [simp]: "val (py_max a b) = max (val a) (val b)"
  by (simp add: py_max_def less_pynum_def)

lemma val_min [simp]: "val (py_min a b) = min (val a) (val b)"
  by (simp add: py_min_def less_pynum_def)

lemma val_abs [simp]: "val (py_abs a) = \<bar>val a\<bar>"
  by (simp add: py_abs_def less_pynum_def)

lemma val_float [simp]: "val (to_float a) = val a"
  by (simp add: to_float_def)

lemma is_float_arith [simp]:
  "PFloat a + b = PFloat (a + val b)" "PFloat a - b = PFloat (a - val b)" "PFloat a * b = PFloat (a * val b)"
  "b + PFloat a = PFloat (val b + a)" "b - PFloat a = PFloat (val b - a)" "b * PFloat a = PFloat (val b * a)"
  by (cases b; simp add: plus_pynum_def minus_pynum_def times_pynum_def)+

lemma int_arith [simp]: "PInt a + PInt b = PInt (a + b)" "PInt a - PInt b = PInt (a - b)" "PInt a * PInt b = PInt (a * b)"
  by (simp_all add: plus_pynum_def minus_pynum_def times_pynum_def)

lemma py_div_zero: "val b = 0 \<Longrightarrow> py_div a b = Inl ZeroDivisionError"
  by (simp add: py_div_def)

lemma py_div_float [simp]:
  "val b \<noteq> 0 \<Longrightarrow> py_div (PFloat a) b = Inr (PFloat (a / val b))"
  "r \<noteq> 0 \<Longrightarrow> py_div c (PFloat r) = Inr (PFloat (val c / r))"
  by (cases b; simp add: py_div_def) (cases c; simp add: py_div_def)

text \<open>A quotient lies within one below the exact one.\<close>

lemma py_div_bounds:
  assumes "py_div a b = Inr q"
  shows "val q \<le> val a / val b" and "val a / val b - 1 < val q"
proof -
  from assms have q: "q = both (div) (/) a b" by (simp add: py_div_def split: if_splits)
  have "rat_of_int (x div y) \<le> rat_of_int x / rat_of_int y \<and> rat_of_int x / rat_of_int y - 1 < rat_of_int (x div y)" for x y
    using floor_correct [of "rat_of_int x / rat_of_int y"] by (simp add: floor_divide_of_int_eq)
  then show "val q \<le> val a / val b" and "val a / val b - 1 < val q"
    unfolding q by (cases a; cases b; simp)+
qed

text \<open>The remainder by a positive number and the multiple below.\<close>

lemma py_mod_pos:
  assumes "0 < val d" and "py_mod a d = Inr m"
  shows "0 \<le> val m" and "val m < val d" and "\<exists>k. val a - val m = of_int k * val d"
proof -
  have "val m = val a - val d * of_int \<lfloor>val a / val d\<rfloor>"
  proof -
    have "of_int (x mod y) = (of_int x :: rat) - of_int y * of_int \<lfloor>of_int x / of_int y :: rat\<rfloor>" for x y
      by (simp add: floor_divide_of_int_eq minus_mult_div_eq_mod [symmetric])
    then show ?thesis using assms by (cases a; cases d) (auto simp: py_mod_def)
  qed
  moreover have "of_int \<lfloor>val a / val d\<rfloor> * val d \<le> val a" using assms(1) by (simp add: pos_le_divide_eq [symmetric])
  moreover have "val a < (of_int \<lfloor>val a / val d\<rfloor> + 1) * val d" using assms(1) floor_correct [of "val a / val d"] by (simp add: pos_divide_less_eq [symmetric])
  ultimately show "0 \<le> val m" and "val m < val d" and "\<exists>k. val a - val m = of_int k * val d"
    by (auto simp: algebra_simps intro!: exI [of _ "\<lfloor>val a / val d\<rfloor>"])
qed

lemma to_int_of_int [simp]: "val a = of_int k \<Longrightarrow> to_int a = k"
  by (cases a) auto

lemma to_int_bounds: "val a - 1 < of_int (to_int a)" "of_int (to_int a) < val a + 1"
  by (cases a; simp; linarith)+

lemma to_int_floor: "to_int a = (if val a < 0 then \<lceil>val a\<rceil> else \<lfloor>val a\<rfloor>)"
  by (cases a) auto

lemma to_int_mono: "val a \<le> val b \<Longrightarrow> to_int a \<le> to_int b"
  unfolding to_int_floor by (auto intro: ceiling_mono floor_mono order_trans [of _ 0])

lemma set_py_range:
  assumes "0 < step"
  shows "\<exists>xs. py_range a b step = Inr xs \<and> (\<forall>x. x \<in> set xs \<longleftrightarrow> a \<le> x \<and> x < b \<and> step dvd x - a)"
proof -
  let ?n = "nat ((b - a + step - 1) div step)"
  have "x \<in> set (map (\<lambda>i. a + int i * step) [0..<?n]) \<longleftrightarrow> a \<le> x \<and> x < b \<and> step dvd x - a" for x
  proof
    assume "x \<in> set (map (\<lambda>i. a + int i * step) [0..<?n])"
    then obtain i where i: "x = a + int i * step" "i < ?n" unfolding set_map image_iff by fastforce
    then have "int i + 1 \<le> (b - a + step - 1) div step" by linarith
    then have "(int i + 1) * step \<le> (b - a + step - 1) div step * step" using assms by (intro mult_right_mono) simp_all
    also have "\<dots> \<le> b - a + step - 1" using pos_mod_sign [OF assms, of "b - a + step - 1"] by (simp flip: minus_mod_eq_div_mult)
    finally have "(int i + 1) * step \<le> b - a + step - 1" .
    with i assms show "a \<le> x \<and> x < b \<and> step dvd x - a" by (simp add: algebra_simps)
  next
    assume x: "a \<le> x \<and> x < b \<and> step dvd x - a"
    then obtain k where k: "x - a = step * k" by (auto simp: dvd_def)
    have k0: "0 \<le> k" using x k assms zero_le_mult_iff [of step k] by simp
    have "step * (k + 1) \<le> b - a + step - 1" using x k by (simp add: algebra_simps)
    then have "step * (k + 1) div step \<le> (b - a + step - 1) div step" using assms by (rule zdiv_mono1)
    then have "k + 1 \<le> (b - a + step - 1) div step" using assms by simp
    with k k0 show "x \<in> set (map (\<lambda>i. a + int i * step) [0..<?n])"
      by (auto simp: image_iff algebra_simps intro!: bexI [of _ "nat k"])
  qed
  then show ?thesis using assms by (simp add: py_range_def)
qed

end
