(* ===== verification/Grid_Render.thy ===== *)
theory Grid_Render
  imports Grid_Timelines Py_Num
begin

text \<open>
  The renderers of \<^verbatim>\<open>utils/grid.py\<close>: the legend, the time lines and the scales.  Drawing is the list of
  calls on the cairo context, in order.  How large a text is on the screen is cairo's business: the
  extents of a text are an argument.  Numbers are those of Python 2.
\<close>

section \<open>The drawing context\<close>

datatype draw =
    Rectangle pynum pynum pynum pynum
  | SetSourceRgb pynum pynum pynum
  | SetLineWidth pynum
  | SetOperatorSource
  | SetDash "pynum list" pynum
  | StrokePreserve
  | Stroke
  | Fill
  | MoveTo pynum pynum
  | LineTo pynum pynum
  | RelLineTo pynum pynum
  | ClosePath
  | ShowText string
  | Save
  | Restore
  | Translate pynum pynum
  | Clip
  | SetSourceSurface
  | Paint

record extents =
  x_bearing :: rat
  y_bearing :: rat
  t_width :: rat
  t_height :: rat

definition black :: draw where
  "black = SetSourceRgb (PInt 0) (PInt 0) (PInt 0)"

definition grey :: draw where
  "grey = SetSourceRgb (PFloat (9 / 10)) (PFloat (9 / 10)) (PFloat (9 / 10))"

fun color_source :: "color \<Rightarrow> draw" where
  "color_source (r, g, b) = SetSourceRgb (PInt r) (PInt g) (PInt b)"

section \<open>The legend\<close>

record top_legend =
  lg_padding :: pynum
  lg_legends :: "string list"
  lg_colors :: "color option list"
  lg_width :: pynum
  lg_height :: pynum

definition new_legend :: top_legend where
  "new_legend = \<lparr>lg_padding = PInt 10, lg_legends = [], lg_colors = [], lg_width = PInt 0, lg_height = PInt 0\<rparr>"

definition set_legends :: "string list \<Rightarrow> color option list \<Rightarrow> top_legend \<Rightarrow> top_legend" where
  "set_legends legends colors lg = lg\<lparr>lg_legends := legends, lg_colors := colors\<rparr>"

text \<open>
  The place of one entry, computed the same way by \<open>layout\<close> and by \<open>draw\<close>: the height of the line, the
  height used, the width used, and the left end of the entry.
\<close>

record legend_state =
  line_height :: pynum
  total_height :: pynum
  line_used :: pynum

definition legend_place :: "(string \<Rightarrow> extents) \<Rightarrow> pynum \<Rightarrow> pynum \<Rightarrow> legend_state \<Rightarrow> string \<Rightarrow> legend_state \<times> pynum" where
  "legend_place ext padding width st legend =
     (let item_width = padding + padding + PFloat (t_width (ext legend)) + padding;
          item_height = PFloat (t_height (ext legend)) + padding;
          lh = (if line_height st < item_height then item_height else line_height st);
          st = (if width < line_used st + item_width
                then \<lparr>line_height = lh, total_height = total_height st + lh, line_used = padding + item_width\<rparr>
                else \<lparr>line_height = lh, total_height = total_height st, line_used = line_used st + item_width\<rparr>)
      in (st, line_used st - item_width))"

definition legend_start :: "pynum \<Rightarrow> legend_state" where
  "legend_start padding = \<lparr>line_height = PInt 0, total_height = padding, line_used = padding\<rparr>"

definition legend_layout :: "(string \<Rightarrow> extents) \<Rightarrow> pynum \<Rightarrow> top_legend \<Rightarrow> top_legend" where
  "legend_layout ext width lg =
     (let st = foldl (\<lambda>st l. fst (legend_place ext (lg_padding lg) width st l)) (legend_start (lg_padding lg)) (lg_legends lg)
      in lg\<lparr>lg_width := width, lg_height := total_height st + line_height st\<rparr>)"

definition legend_entry :: "(string \<Rightarrow> extents) \<Rightarrow> pynum \<Rightarrow> color \<Rightarrow> string \<Rightarrow> legend_state \<Rightarrow> pynum \<Rightarrow> draw list" where
  "legend_entry ext padding col legend st x =
     [Rectangle x (total_height st) padding padding, black, SetLineWidth (PInt 2), StrokePreserve, color_source col, Fill,
      MoveTo (x + padding * PInt 2) (total_height st + PFloat (t_height (ext legend))), black, ShowText legend]"

fun legend_draw_loop ::
    "(string \<Rightarrow> extents) \<Rightarrow> pynum \<Rightarrow> pynum \<Rightarrow> legend_state \<Rightarrow> string list \<Rightarrow> color option list \<Rightarrow> (draw list) res" where
  "legend_draw_loop ext padding width st [] colors = Inr []"
| "legend_draw_loop ext padding width st (legend # legends) colors = (case colors of
     [] \<Rightarrow> Inl IndexError
   | None # _ \<Rightarrow> Inl AttributeError
   | Some col # colors' \<Rightarrow>
       (let (st', x) = legend_place ext padding width st legend
        in res_bind (legend_draw_loop ext padding width st' legends colors') (\<lambda>ds.
             Inr (legend_entry ext padding col legend st' x @ ds))))"

definition legend_draw :: "(string \<Rightarrow> extents) \<Rightarrow> top_legend \<Rightarrow> (draw list) res" where
  "legend_draw ext lg =
     legend_draw_loop ext (lg_padding lg) (lg_width lg) (legend_start (lg_padding lg)) (lg_legends lg) (lg_colors lg)"

section \<open>The time lines\<close>

record timelines_renderer =
  td_padding :: pynum
  td_timelines :: "timeline list"
  td_colors :: colors
  td_start :: pynum
  td_end :: pynum
  td_left_width :: pynum
  td_right_width :: pynum
  td_max_text_height :: pynum
  td_width :: pynum
  td_height :: pynum

definition set_render_range :: "pynum \<Rightarrow> pynum \<Rightarrow> timelines_renderer \<Rightarrow> timelines_renderer" where
  "set_render_range start end d = d\<lparr>td_start := start, td_end := end\<rparr>"

definition get_data_x_start :: "timelines_renderer \<Rightarrow> pynum" where
  "get_data_x_start d = half (td_padding d) + td_left_width d + td_padding d + td_right_width d + half (td_padding d)"

definition ALPHABET :: string where
  "ALPHABET = ''ABCDEFGHIJKLMNOPQRSTUVWXYZabcedefghijklmnopqrstuvwxyz0123456789''"

definition widest :: "(string \<Rightarrow> extents) \<Rightarrow> string list \<Rightarrow> pynum" where
  "widest ext names = foldl (\<lambda>w n. py_max w (PFloat (t_width (ext n)))) (PInt 0) names"

definition timelines_layout :: "(string \<Rightarrow> extents) \<Rightarrow> pynum \<Rightarrow> timelines_renderer \<Rightarrow> timelines_renderer" where
  "timelines_layout ext width d =
     (let max_text_height = PFloat (t_height (ext ALPHABET)); ts = td_timelines d; padding = td_padding d;
          left_width = widest ext (map tl_name ts);
          right_width = widest ext (concat (map (\<lambda>t. map tr_name (tl_ranges t) @ map te_name (tl_event_int t)
                                                     @ map te_name (tl_event_str t)) ts));
          left_n_lines = int (length ts);
          range_n = int (length (concat (map tl_ranges ts)));
          eventint_n = int (length (concat (map tl_event_int ts)));
          eventstr_n = int (length (concat (map tl_event_str ts)));
          left_height = PInt left_n_lines * max_text_height + PInt (left_n_lines - 1) * padding;
          right_n_lines = range_n + eventint_n + eventstr_n;
          right_height = PInt (right_n_lines - 1) * padding + PInt right_n_lines * max_text_height;
          right_data_height = PInt (eventint_n + eventstr_n) * (max_text_height + PInt 5) + PInt (range_n * 10);
          right_data_height = right_data_height + PInt (right_n_lines - 1) * padding;
          height = py_max left_height right_height;
          height = py_max height right_data_height
      in d\<lparr>td_left_width := left_width, td_right_width := right_width, td_max_text_height := max_text_height,
           td_width := width, td_height := height + padding\<rparr>)"

definition draw_line :: "pynum \<Rightarrow> pynum \<Rightarrow> pynum \<Rightarrow> pynum \<Rightarrow> draw list" where
  "draw_line x y width height =
     [MoveTo x y, RelLineTo width height, ClosePath, SetOperatorSource, SetLineWidth (PFloat 1), black, Stroke]"

text \<open>Every second row has a grey background; the counter is passed along.\<close>

definition draw_background :: "pynum \<Rightarrow> int \<Rightarrow> pynum \<Rightarrow> pynum \<Rightarrow> pynum \<Rightarrow> pynum \<Rightarrow> draw list" where
  "draw_background padding grey_background x y width height =
     (if grey_background mod 2 = 0
      then [Rectangle x (y - half padding) width (height + padding), grey, Fill] else [])"

text \<open>\<open>int(x + (t - start) * width / (end - start))\<close>\<close>

definition x_of_time :: "timelines_renderer \<Rightarrow> pynum \<Rightarrow> pynum \<Rightarrow> pynum \<Rightarrow> int res" where
  "x_of_time d x width t =
     res_bind (py_div ((t - td_start d) * width) (td_end d - td_start d)) (\<lambda>q. Inr (to_int (x + q)))"

fun value_text :: "event_value \<Rightarrow> string" where
  "value_text (StrValue s) = s"
| "value_text (IntValue i) = show_int i"

fun draw_events_loop :: "timelines_renderer \<Rightarrow> pynum \<Rightarrow> pynum \<Rightarrow> pynum \<Rightarrow> int \<Rightarrow> event list \<Rightarrow> (draw list) res" where
  "draw_events_loop d x y width last_x_drawn [] = Inr []"
| "draw_events_loop d x y width last_x_drawn (ev # evs) =
     res_bind (x_of_time d x width (PInt (e_at ev))) (\<lambda>real_x.
       if real_x > last_x_drawn + 2 then
         res_bind (draw_events_loop d x y width real_x evs) (\<lambda>ds.
           Inr ([Rectangle (PInt real_x) y (PInt 1) (PInt 1), SetSourceRgb (PInt 1) (PInt 0) (PInt 0), Stroke,
                 MoveTo (PInt real_x) (y + td_max_text_height d), black, ShowText (value_text (e_value ev))] @ ds))
       else draw_events_loop d x y width last_x_drawn evs)"

definition draw_events ::
    "timelines_renderer \<Rightarrow> int \<Rightarrow> event list \<Rightarrow> pynum \<Rightarrow> pynum \<Rightarrow> pynum \<Rightarrow> pynum \<Rightarrow> (draw list) res" where
  "draw_events d grey_background events x y width height =
     res_bind (get_events_bounds events (val (td_start d)) (val (td_end d))) (\<lambda>(lo, hi).
     res_bind (draw_events_loop d x y width (to_int x) (py_slice events lo hi)) (\<lambda>ds.
       Inr (draw_background (td_padding d) grey_background x y width height @ ds)))"

fun draw_ranges_loop ::
    "timelines_renderer \<Rightarrow> pynum \<Rightarrow> pynum \<Rightarrow> pynum \<Rightarrow> int \<Rightarrow> colors \<Rightarrow> data_range list \<Rightarrow> (draw list \<times> colors) res" where
  "draw_ranges_loop d x y width last_x_drawn cs [] = Inr ([], cs)"
| "draw_ranges_loop d x y width last_x_drawn cs (r # rs) =
     res_bind (x_of_time d x width (py_max (PInt (r_start r)) (td_start d))) (\<lambda>x_start.
     res_bind (x_of_time d x width (py_min (PInt (r_end r)) (td_end d))) (\<lambda>x_end.
       if x_end > last_x_drawn then
         res_bind (lookup_color (r_value r) cs) (\<lambda>(col, cs). case col of
           None \<Rightarrow> Inl AttributeError
         | Some c \<Rightarrow>
             res_bind (draw_ranges_loop d x y width x_end cs rs) (\<lambda>(ds, cs).
               Inr ([Rectangle (PInt x_start) y (PInt (x_end - x_start)) (PInt 10), black, StrokePreserve,
                     color_source c, Fill] @ ds, cs)))
       else draw_ranges_loop d x y width last_x_drawn cs rs))"

definition draw_ranges ::
    "timelines_renderer \<Rightarrow> int \<Rightarrow> colors \<Rightarrow> data_range list \<Rightarrow> pynum \<Rightarrow> pynum \<Rightarrow> pynum \<Rightarrow> pynum \<Rightarrow> (draw list \<times> colors) res" where
  "draw_ranges d grey_background cs ranges x y width height =
     res_bind (get_ranges_bounds ranges (val (td_start d)) (val (td_end d))) (\<lambda>(lo, hi).
     res_bind (draw_ranges_loop d x y width (to_int (x - PInt 1)) cs (py_slice ranges lo hi)) (\<lambda>(ds, cs).
       Inr (draw_background (td_padding d) grey_background x y width height @ ds, cs)))"

text \<open>The state of \<open>draw\<close> while it goes through the rows.\<close>

record draw_state =
  ds_y :: pynum
  ds_grey :: int
  ds_colors :: colors
  ds_draw :: "draw list"

definition draw_name :: "(string \<Rightarrow> extents) \<Rightarrow> timelines_renderer \<Rightarrow> pynum \<Rightarrow> pynum \<Rightarrow> string \<Rightarrow> draw list" where
  "draw_name ext d x cur_y name =
     [MoveTo x (cur_y + td_max_text_height d - (PFloat (t_height (ext name)) + PFloat (y_bearing (ext name)))), ShowText name]"

definition right_x_start :: "timelines_renderer \<Rightarrow> pynum" where
  "right_x_start d = half (td_padding d) + td_left_width d + td_padding d"

definition data_x_start :: "timelines_renderer \<Rightarrow> pynum" where
  "data_x_start d = right_x_start d + td_right_width d + half (td_padding d)"

text \<open>The line below a row.\<close>

definition row_line :: "timelines_renderer \<Rightarrow> pynum \<Rightarrow> draw list" where
  "row_line d cur_y =
     draw_line (right_x_start d - half (td_padding d)) (cur_y - half (td_padding d)) (td_right_width d + td_padding d) (PInt 0)"

definition draw_event_row :: "(string \<Rightarrow> extents) \<Rightarrow> timelines_renderer \<Rightarrow> draw_state \<Rightarrow> timeline_event \<Rightarrow> draw_state res" where
  "draw_event_row ext d st te =
     res_bind (draw_events d (ds_grey st) (te_events te) (data_x_start d) (ds_y st) (td_width d - data_x_start d)
                 (td_max_text_height d + PInt 5)) (\<lambda>ds.
       let cur_y = ds_y st + (td_max_text_height d + PInt 5 + td_padding d)
       in Inr (st\<lparr>ds_draw := ds_draw st @ draw_name ext d (right_x_start d) (ds_y st) (te_name te) @ ds @ row_line d cur_y,
                  ds_y := cur_y, ds_grey := ds_grey st + 1\<rparr>))"

definition draw_range_row :: "(string \<Rightarrow> extents) \<Rightarrow> timelines_renderer \<Rightarrow> draw_state \<Rightarrow> timeline_range \<Rightarrow> draw_state res" where
  "draw_range_row ext d st tr =
     res_bind (draw_ranges d (ds_grey st) (ds_colors st) (tr_ranges tr) (data_x_start d) (ds_y st) (td_width d - data_x_start d)
                 (PInt 10)) (\<lambda>(ds, cs).
       let cur_y = ds_y st + (td_max_text_height d + td_padding d)
       in Inr (st\<lparr>ds_draw := ds_draw st @ draw_name ext d (right_x_start d) (ds_y st) (tr_name tr) @ ds @ row_line d cur_y,
                  ds_y := cur_y, ds_grey := ds_grey st + 1, ds_colors := cs\<rparr>))"

definition draw_timeline :: "(string \<Rightarrow> extents) \<Rightarrow> timelines_renderer \<Rightarrow> draw_state \<Rightarrow> timeline \<Rightarrow> draw_state res" where
  "draw_timeline ext d st t =
     (let st = st\<lparr>ds_draw := ds_draw st @ draw_name ext d (half (td_padding d)) (ds_y st) (tl_name t)\<rparr>
      in res_bind (res_fold (draw_event_row ext d) (tl_event_int t) st) (\<lambda>st.
         res_bind (res_fold (draw_event_row ext d) (tl_event_str t) st) (\<lambda>st.
         res_bind (res_fold (draw_range_row ext d) (tl_ranges t) st) (\<lambda>st.
           Inr (st\<lparr>ds_draw := ds_draw st @ draw_line (PInt 0) (ds_y st - half (td_padding d)) (td_width d) (PInt 0)\<rparr>)))))"

definition timelines_draw :: "(string \<Rightarrow> extents) \<Rightarrow> timelines_renderer \<Rightarrow> (draw list \<times> colors) res" where
  "timelines_draw ext d =
     res_bind (res_fold (draw_timeline ext d) (td_timelines d)
                 \<lparr>ds_y = half (td_padding d), ds_grey = 1, ds_colors = td_colors d,
                  ds_draw = draw_line (PInt 0) (PInt 0) (td_width d) (PInt 0)\<rparr>) (\<lambda>st.
       let bot_y = ds_y st - half (td_padding d); left_x_end = half (td_padding d) + td_left_width d;
           right_x_end = right_x_start d + td_right_width d
       in Inr (ds_draw st @ draw_line (left_x_end + half (td_padding d)) (PInt 0) (PInt 0) bot_y
                 @ draw_line (right_x_end + half (td_padding d)) (PInt 0) (PInt 0) bot_y, ds_colors st))"

section \<open>The scale\<close>

record scale =
  sc_top :: bool
  sc_lo :: pynum
  sc_hi :: pynum
  sc_delta :: int
  sc_width :: pynum
  sc_height :: pynum

definition set_bounds :: "pynum \<Rightarrow> pynum \<Rightarrow> scale \<Rightarrow> scale" where
  "set_bounds lo hi sc = sc\<lparr>sc_lo := lo, sc_hi := hi\<rparr>"

definition get_position :: "scale \<Rightarrow> pynum \<Rightarrow> pynum res" where
  "get_position sc x = py_div ((x - sc_lo sc) * sc_width sc) (sc_hi sc - sc_lo sc)"

text \<open>The loop that multiplies \<open>closest\<close> by ten; its value is always a power of ten.\<close>

function closest_loop :: "nat \<Rightarrow> rat \<Rightarrow> nat" where
  "closest_loop k data_delta = (if 10 ^ Suc k < data_delta then closest_loop (Suc k) data_delta else k)"
  by pat_completeness auto
termination
proof (relation "measure (\<lambda>(k, d). nat \<lceil>d\<rceil> - 10 ^ k)", goal_cases)
  case (2 k d)
  then have "10 ^ Suc k < \<lceil>d\<rceil>" by (metis less_ceiling_iff of_int_numeral of_int_power)
  then have "10 ^ Suc k < nat \<lceil>d\<rceil>" by (simp add: nat_less_eq_zless zless_nat_eq_int_zless)
  moreover have "(10 :: nat) ^ k < 10 ^ Suc k" by simp
  ultimately have "nat \<lceil>d\<rceil> - 10 ^ Suc k < nat \<lceil>d\<rceil> - 10 ^ k" 
    using diff_less_mono2 less_trans by blast
  then show ?case by simp
qed simp

declare closest_loop.simps [simp del]

definition scale_delta :: "pynum \<Rightarrow> int" where
  "scale_delta data_delta =
     (let closest = 10 ^ closest_loop 0 (val data_delta); q = both (div) (/) data_delta (PInt closest)
      in if val q = 0 then closest else if val q = 1 then closest div 10 else closest)"

text \<open>The first and the last multiple of the step inside the bounds.\<close>

definition scale_ends :: "scale \<Rightarrow> int \<Rightarrow> (pynum \<times> pynum) res" where
  "scale_ends sc delta =
     res_bind (py_mod (sc_lo sc) (PInt delta)) (\<lambda>m. let start = sc_lo sc - m + PInt delta in
     res_bind (py_mod (sc_hi sc) (PInt delta)) (\<lambda>n. Inr (start, sc_hi sc - n)))"

definition scale_layout :: "(string \<Rightarrow> extents) \<Rightarrow> pynum \<Rightarrow> scale \<Rightarrow> scale res" where
  "scale_layout ext width sc =
     (let delta = scale_delta (sc_hi sc - sc_lo sc)
      in res_bind (scale_ends sc delta) (\<lambda>_.
           Inr (sc\<lparr>sc_delta := delta, sc_width := width, sc_height := PFloat (t_height (ext ALPHABET)) + PInt 10\<rparr>)))"

definition tick_mark :: "pynum \<Rightarrow> int \<Rightarrow> draw list" where
  "tick_mark real_x y = [MoveTo real_x (PInt 0), LineTo real_x (PInt y), ClosePath, Stroke]"

definition draw_tick :: "(string \<Rightarrow> extents) \<Rightarrow> scale \<Rightarrow> int \<Rightarrow> (draw list) res" where
  "draw_tick ext sc x =
     (let s = (if sc_top sc then -1 else 1); e = ext (show_int x);
          text_delta = (if sc_top sc then PFloat (t_height e + y_bearing e) else PFloat (- y_bearing e))
      in res_bind (get_position sc (PInt x)) (\<lambda>real_x.
           Inr (tick_mark real_x (5 * s)
             @ [MoveTo (real_x - PFloat (t_width e / 2)) ((PInt 10 + text_delta) * PInt s), ShowText (show_int x)])))"

definition draw_subtick :: "scale \<Rightarrow> int \<Rightarrow> (draw list) res" where
  "draw_subtick sc x =
     res_bind (get_position sc (PInt x)) (\<lambda>real_x. Inr (tick_mark real_x (3 * (if sc_top sc then -1 else 1))))"

definition scale_ticks :: "scale \<Rightarrow> int \<Rightarrow> (int list) res" where
  "scale_ticks sc delta =
     res_bind (scale_ends sc delta) (\<lambda>(start, end). py_range (to_int start) (to_int (end + PInt delta)) delta)"

definition scale_draw :: "(string \<Rightarrow> extents) \<Rightarrow> scale \<Rightarrow> (draw list) res" where
  "scale_draw ext sc =
     res_bind (scale_ticks sc (sc_delta sc)) (\<lambda>ticks.
     res_bind (res_map (draw_tick ext sc) ticks) (\<lambda>marks.
       let sub = sc_delta sc div 10
       in res_bind (if sub > 0 then res_bind (scale_ticks sc sub) (res_map (draw_subtick sc)) else Inr []) (\<lambda>submarks.
            Inr ([black, SetLineWidth (PFloat 1)] @ concat marks @ concat submarks))))"

section \<open>The step of a scale\<close>

lemma closest_loop_bounds:
  assumes "k = 0 \<or> 10 ^ k < d"
  shows "(closest_loop k d = 0 \<or> 10 ^ closest_loop k d < d) \<and> d \<le> 10 ^ Suc (closest_loop k d)"
  using assms
proof (induction k d rule: closest_loop.induct)
  case (1 k d)
  show ?case
  proof (cases "10 ^ Suc k < d")
    case True
    have "closest_loop k d = closest_loop (Suc k) d" using True by (subst closest_loop.simps) (rule if_P)
    with "1.IH" [OF True] True show ?thesis by metis
  next
    case False
    then have "closest_loop k d = k" by (subst closest_loop.simps) (rule if_not_P)
    with False "1.prems" show ?thesis by simp
  qed
qed

text \<open>The step is a power of ten, except that it is zero for bounds whose distance is one.\<close>

lemma scale_delta_cases:
  "if val d = 1 then scale_delta d = 0 else \<exists>k. scale_delta d = 10 ^ k"
proof -
  let ?k = "closest_loop 0 (val d)" and ?q = "both (div) (/) d (PInt (10 ^ closest_loop 0 (val d)))"
  have k: "?k = 0 \<or> 10 ^ ?k < val d" using closest_loop_bounds [of 0 "val d"] by simp
  show ?thesis
  proof (cases "?k = 0")
    case True
    then have q: "val ?q = val d" by (cases d) simp_all
    have "scale_delta d = (if val d = 0 then 1 else if val d = 1 then 0 else 1)"
      unfolding scale_delta_def Let_def q by (simp only: True power_0) simp
    then show ?thesis by (auto intro: exI [of _ 0])
  next
    case False
    then obtain j where j: "?k = Suc j" by (cases ?k) auto
    have "(1 :: rat) \<le> 10 ^ ?k" by simp
    also have "\<dots> < val d" using k False by simp
    finally have "val d \<noteq> 1" by simp
    moreover have "(10 :: int) ^ ?k div 10 = 10 ^ j" by (simp add: j)
    ultimately show ?thesis unfolding scale_delta_def Let_def by auto
  qed
qed

lemma py_mod_total: "0 < d \<Longrightarrow> \<exists>m. py_mod a (PInt d) = Inr m"
  by (simp add: py_mod_def)

lemma scale_layout_ok:
  "if val (sc_hi sc) - val (sc_lo sc) = 1 then scale_layout ext width sc = Inl ZeroDivisionError
   else \<exists>sc' k. scale_layout ext width sc = Inr sc' \<and> sc_delta sc' = 10 ^ k \<and> sc_width sc' = width
     \<and> sc_lo sc' = sc_lo sc \<and> sc_hi sc' = sc_hi sc"
proof (cases "val (sc_hi sc) - val (sc_lo sc) = 1")
  case True
  then have "scale_delta (sc_hi sc - sc_lo sc) = 0" using scale_delta_cases [of "sc_hi sc - sc_lo sc"] by simp
  then show ?thesis using True by (simp add: scale_layout_def scale_ends_def py_mod_def)
next
  case False
  then obtain k where k: "scale_delta (sc_hi sc - sc_lo sc) = 10 ^ k"
    using scale_delta_cases [of "sc_hi sc - sc_lo sc"] by auto
  have "(0 :: int) < 10 ^ k" by simp
  from py_mod_total [OF this] obtain m n where "py_mod (sc_lo sc) (PInt (10 ^ k)) = Inr m" "py_mod (sc_hi sc) (PInt (10 ^ k)) = Inr n"
    by metis
  then show ?thesis using False by (simp add: scale_layout_def scale_ends_def k Let_def)
qed

text \<open>
  Laying out a scale fails exactly when its bounds are one apart, by a division by zero; otherwise
  the distance of two ticks is a power of ten.
\<close>
theorem scale_layout_result:
  "if val (sc_hi sc) - val (sc_lo sc) = 1 then scale_layout ext width sc = Inl ZeroDivisionError
   else \<exists>sc' k. scale_layout ext width sc = Inr sc' \<and> sc_delta sc' = 10 ^ k \<and> sc_width sc' = width
     \<and> sc_lo sc' = sc_lo sc \<and> sc_hi sc' = sc_hi sc"
  by (rule scale_layout_ok)

section \<open>Ticks\<close>

lemma multiple_below:
  assumes "0 < d" and "py_mod a (PInt d) = Inr m"
  obtains k where "val a - val m = of_int (k * d)" and "of_int (k * d) \<le> val a" and "val a < of_int ((k + 1) * d)"
  using py_mod_pos [of "PInt d" a m] assms by (force simp: algebra_simps)

text \<open>
  The ticks of a scale are exactly the multiples of the step above its lower bound and not above
  its upper bound.
\<close>
theorem scale_ticks_exact:
  assumes "0 < delta"
  shows "\<exists>ticks. scale_ticks sc delta = Inr ticks
    \<and> (\<forall>x. x \<in> set ticks \<longleftrightarrow> val (sc_lo sc) < of_int x \<and> of_int x \<le> val (sc_hi sc) \<and> delta dvd x)"
proof -
  from py_mod_total [OF assms] obtain m n where m: "py_mod (sc_lo sc) (PInt delta) = Inr m" and n: "py_mod (sc_hi sc) (PInt delta) = Inr n"
    by metis
  from multiple_below [OF assms m] obtain k where k: "val (sc_lo sc) - val m = of_int (k * delta)"
    "of_int (k * delta) \<le> val (sc_lo sc)" "val (sc_lo sc) < of_int ((k + 1) * delta)" by metis
  from multiple_below [OF assms n] obtain l where l: "val (sc_hi sc) - val n = of_int (l * delta)"
    "of_int (l * delta) \<le> val (sc_hi sc)" "val (sc_hi sc) < of_int ((l + 1) * delta)" by metis
  have s: "to_int (sc_lo sc - m + PInt delta) = (k + 1) * delta" using k(1) by (intro to_int_of_int) (simp add: algebra_simps)
  have e: "to_int (sc_hi sc - n + PInt delta) = (l + 1) * delta" using l(1) by (intro to_int_of_int) (simp add: algebra_simps)
  obtain xs where xs: "py_range ((k + 1) * delta) ((l + 1) * delta) delta = Inr xs"
    "\<And>x. x \<in> set xs \<longleftrightarrow> (k + 1) * delta \<le> x \<and> x < (l + 1) * delta \<and> delta dvd x - (k + 1) * delta"
    using set_py_range [OF assms] by metis
  have "x \<in> set xs \<longleftrightarrow> val (sc_lo sc) < of_int x \<and> of_int x \<le> val (sc_hi sc) \<and> delta dvd x" for x
  proof (cases "delta dvd x")
    case True
    then obtain j where j: "x = j * delta" by (auto simp: dvd_def mult.commute)
    have d: "delta dvd x - (k + 1) * delta" unfolding j by (simp flip: left_diff_distrib)
    have "(k + 1) * delta \<le> x \<longleftrightarrow> val (sc_lo sc) < of_int x"
    proof -
      have "(k + 1) * delta \<le> x \<longleftrightarrow> k * delta < x" unfolding j using assms by (simp add: add1_zle_eq)
      then show ?thesis using k(2,3) by (metis le_less_trans less_le_trans not_le of_int_le_iff of_int_less_iff order.strict_trans2)
    qed
    moreover have "x < (l + 1) * delta \<longleftrightarrow> of_int x \<le> val (sc_hi sc)"
    proof -
      have "x < (l + 1) * delta \<longleftrightarrow> x \<le> l * delta" unfolding j using assms by (simp add: zless_add1_eq order.order_iff_strict disj_commute)
      then show ?thesis using l(2,3) by (metis le_less_trans less_le_trans not_le of_int_le_iff of_int_less_iff order_trans)
    qed
    ultimately show ?thesis using xs(2) d True by blast
  next
    case False
    then have "\<not> delta dvd x - (k + 1) * delta" by (metis dvd_diff_commute dvd_triv_right dvd_add_right_iff diff_add_cancel add.commute)
    with xs(2) False show ?thesis by blast
  qed
  then show ?thesis using xs(1) by (simp add: scale_ticks_def scale_ends_def m n s e Let_def)
qed

section \<open>Ranges stay in their window\<close>

definition window_ok :: "timelines_renderer \<Rightarrow> pynum \<Rightarrow> bool" where
  "window_ok d width \<longleftrightarrow> val (td_start d) < val (td_end d) \<and> 0 \<le> val width"

definition shown :: "timelines_renderer \<Rightarrow> pynum \<Rightarrow> bool" where
  "shown d t \<longleftrightarrow> val (td_start d) \<le> val t \<and> val t \<le> val (td_end d)"

lemma x_of_time_window:
  assumes "window_ok d width" and "shown d t"
  obtains n where "x_of_time d x width t = Inr n" and "to_int x \<le> n" and "n \<le> to_int (x + width)"
proof -
  let ?a = "(t - td_start d) * width" and ?b = "td_end d - td_start d"
  have b: "0 < val ?b" using assms(1) by (simp add: window_ok_def)
  then obtain q where q: "py_div ?a ?b = Inr q" by (auto simp: py_div_def)
  have a: "0 \<le> val ?a" using assms by (simp add: window_ok_def shown_def)
  have "val ?a \<le> val width * val ?b"
    using assms by (simp add: window_ok_def shown_def mult.commute mult_left_mono)
  then have up: "val ?a / val ?b \<le> val width" using b by (simp add: pos_divide_le_eq)
  have lo: "0 \<le> val ?a / val ?b" using a b by simp
  have "val q \<le> val width" using py_div_bounds(1) [OF q] up by linarith
  moreover have "0 \<le> val q"
    using q a b by (cases ?a; cases ?b) (auto simp: py_div_def pos_imp_zdiv_nonneg_iff)
  ultimately have "to_int x \<le> to_int (x + q)" "to_int (x + q) \<le> to_int (x + width)" by (auto intro!: to_int_mono)
  with that [of "to_int (x + q)"] q show thesis by (simp add: x_of_time_def)
qed

text \<open>Later times lie further right, as long as the quotients are of one kind.\<close>

lemma x_of_time_mono:
  assumes "window_ok d width" and "val t \<le> val u" and "x_of_time d x width t = Inr m" and "x_of_time d x width u = Inr n"
    and "(\<exists>a b. t = PInt a \<and> u = PInt b) \<or> (\<exists>r. td_start d = PFloat r) \<or> (\<exists>r. td_end d = PFloat r)"
  shows "m \<le> n"
proof -
  let ?b = "td_end d - td_start d"
  have b: "0 < val ?b" using assms(1) by (simp add: window_ok_def)
  from assms(3,4) b obtain p q where p: "p = both (div) (/) ((t - td_start d) * width) ?b" "m = to_int (x + p)"
    and q: "q = both (div) (/) ((u - td_start d) * width) ?b" "n = to_int (x + q)"
    by (auto simp: x_of_time_def py_div_def)
  have le: "val ((t - td_start d) * width) \<le> val ((u - td_start d) * width)"
    using assms(1,2) by (simp add: window_ok_def mult_right_mono)
  have "val p \<le> val q"
  proof (cases "\<exists>s e w. td_start d = PInt s \<and> td_end d = PInt e \<and> width = PInt w")
    case True
    then obtain s e w a c where i: "td_start d = PInt s" "td_end d = PInt e" "width = PInt w" "t = PInt a" "u = PInt c"
      using assms(5) by auto
    have "(a - s) * w \<le> (c - s) * w" using le i by (simp flip: of_int_diff of_int_mult)
    then have "(a - s) * w div (e - s) \<le> (c - s) * w div (e - s)" using b i by (intro zdiv_mono1) simp_all
    then show ?thesis using i p(1) q(1) by simp
  next
    case False
    have "val p = val ((t - td_start d) * width) / val ?b" "val q = val ((u - td_start d) * width) / val ?b"
      unfolding p(1) q(1)
      using False by (cases "td_start d"; cases "td_end d"; cases width; cases t; cases u; simp)+
    then show ?thesis using le b by (simp add: divide_right_mono)
  qed
  then show ?thesis unfolding p(2) q(2) by (intro to_int_mono) simp
qed

text \<open>A rectangle between two columns.\<close>

fun in_columns :: "int \<Rightarrow> int \<Rightarrow> draw \<Rightarrow> bool" where
  "in_columns l r (Rectangle x y w h) \<longleftrightarrow> of_int l \<le> val x \<and> 0 \<le> val w \<and> val x + val w \<le> of_int r"
| "in_columns l r _ \<longleftrightarrow> True"

lemma within_color [simp]: "in_columns l r (color_source c)" "in_columns l r black" "in_columns l r grey"
  by (cases c; simp add: black_def grey_def)+

lemma shown_ends:
  assumes "window_ok d width" and "r_start r \<le> r_end r" and "overlaps (val (td_start d)) (val (td_end d)) r"
  shows "shown d (py_max (PInt (r_start r)) (td_start d))" and "shown d (py_min (PInt (r_end r)) (td_end d))"
    and "val (py_max (PInt (r_start r)) (td_start d)) \<le> val (py_min (PInt (r_end r)) (td_end d))"
  using assms by (auto simp: shown_def window_ok_def overlaps_def max_def min_def)

lemma ends_kind:
  "(\<exists>a b. py_max (PInt i) (td_start d) = PInt a \<and> py_min (PInt j) (td_end d) = PInt b)
   \<or> (\<exists>r. td_start d = PFloat r) \<or> (\<exists>r. td_end d = PFloat r)"
  by (cases "td_start d"; cases "td_end d") (auto simp: py_max_def py_min_def)

lemma draw_ranges_loop_within:
  assumes "window_ok d width" and "\<forall>r \<in> set rs. r_start r \<le> r_end r \<and> overlaps (val (td_start d)) (val (td_end d)) r"
    and "draw_ranges_loop d x y width lx cs rs = Inr (ds, cs')" and "c \<in> set ds"
  shows "in_columns (to_int x) (to_int (x + width)) c"
  using assms(2-)
proof (induction rs arbitrary: lx cs ds)
  case (Cons r rs)
  note e = shown_ends [OF assms(1), of r]
  from Cons.prems(1) have ok: "r_start r \<le> r_end r" "overlaps (val (td_start d)) (val (td_end d)) r" by simp_all
  from x_of_time_window [OF assms(1) e(1) [OF ok], of x] obtain m where
    m: "x_of_time d x width (py_max (PInt (r_start r)) (td_start d)) = Inr m" "to_int x \<le> m" by metis
  from x_of_time_window [OF assms(1) e(2) [OF ok], of x] obtain n where
    n: "x_of_time d x width (py_min (PInt (r_end r)) (td_end d)) = Inr n" "n \<le> to_int (x + width)" by metis
  have mn: "m \<le> n" by (rule x_of_time_mono [OF assms(1) e(3) [OF ok] m(1) n(1) ends_kind])
  have ih: "in_columns (to_int x) (to_int (x + width)) c"
    if "draw_ranges_loop d x y width l c' rs = Inr (ds', cs')" "c \<in> set ds'" for l c' ds'
    by (rule Cons.IH [OF _ that]) (use Cons.prems(1) in simp)
  show ?case
  proof (cases "n > lx")
    case False
    with Cons.prems(2,3) m(1) n(1) ih show ?thesis by simp
  next
    case True
    with Cons.prems(2) m(1) n(1) obtain k c2 ds2 where ds: "draw_ranges_loop d x y width n c2 rs = Inr (ds2, cs')"
      "ds = [Rectangle (PInt m) y (PInt (n - m)) (PInt 10), black, StrokePreserve, color_source k, Fill] @ ds2"
      by (auto simp: res_bind_eq_Inr split: option.splits)
    with Cons.prems(3) ih [OF ds(1)] m(2) n(2) mn show ?thesis by auto
  qed
qed simp

text \<open>
  On a line of ranges that do not meet, with a window whose ends both lie in a range, every
  rectangle that is drawn for a range lies in the data area and has no negative width, whether the
  program computes with integers or with floats.
\<close>
theorem draw_ranges_inside:
  assumes "disjoint_ranges rs" and "window_ok d width"
    and "\<exists>r \<in> set rs. in_range (val (td_start d)) r" and "\<exists>r \<in> set rs. in_range (val (td_end d)) r"
    and "draw_ranges d g cs rs x y width height = Inr (ds, cs')"
  shows "\<exists>ds'. ds = draw_background (td_padding d) g x y width height @ ds'
    \<and> (\<forall>c \<in> set ds'. in_columns (to_int x) (to_int (x + width)) c)"
proof -
  from assms(5) obtain lo hi ds' where b: "get_ranges_bounds rs (val (td_start d)) (val (td_end d)) = Inr (lo, hi)"
    and l: "draw_ranges_loop d x y width (to_int (x - PInt 1)) cs (py_slice rs lo hi) = Inr (ds', cs')"
    and ds: "ds = draw_background (td_padding d) g x y width height @ ds'"
    by (auto simp: draw_ranges_def res_bind_eq_Inr)
  have "py_slice rs lo hi = filter (overlaps (val (td_start d)) (val (td_end d))) rs"
    using get_ranges_slice [of rs "val (td_start d)" "val (td_end d)"] get_ranges_eq [OF assms(1), of "val (td_start d)" "val (td_end d)"]
      b assms(3,4) by simp
  then have "\<forall>r \<in> set (py_slice rs lo hi). r_start r \<le> r_end r \<and> overlaps (val (td_start d)) (val (td_end d)) r"
    using assms(1) by (auto simp: disjoint_ranges_def)
  from draw_ranges_loop_within [OF assms(2) this l] ds show ?thesis by blast
qed

section \<open>The legend fits\<close>

text \<open>Where the entries go.\<close>

fun legend_places :: "(string \<Rightarrow> extents) \<Rightarrow> pynum \<Rightarrow> pynum \<Rightarrow> legend_state \<Rightarrow> string list \<Rightarrow> (string \<times> legend_state \<times> pynum) list" where
  "legend_places ext padding width st [] = []"
| "legend_places ext padding width st (l # ls) =
     (let (st', x) = legend_place ext padding width st l in (l, st', x) # legend_places ext padding width st' ls)"

lemma legend_draw_places:
  "length ls \<le> length cs \<Longrightarrow> legend_draw_loop ext padding width st ls (map Some cs) =
     Inr (concat (map2 (\<lambda>(l, st, x) c. legend_entry ext padding c l st x) (legend_places ext padding width st ls) cs))"
proof (induction ls arbitrary: st cs)
  case (Cons l ls)
  then obtain c cs' where cs: "cs = c # cs'" by (cases cs) auto
  obtain st' x where p: "legend_place ext padding width st l = (st', x)" by (cases "legend_place ext padding width st l")
  have "legend_draw_loop ext padding width st' ls (map Some cs') =
     Inr (concat (map2 (\<lambda>(l, st, x) c. legend_entry ext padding c l st x) (legend_places ext padding width st' ls) cs'))"
    by (rule Cons.IH) (use Cons.prems cs in simp)
  then show ?case by (simp add: cs p)
qed simp

definition state_ok :: "legend_state \<Rightarrow> bool" where
  "state_ok st \<longleftrightarrow> 0 \<le> val (line_height st)"

definition extents_ok :: "(string \<Rightarrow> extents) \<Rightarrow> bool" where
  "extents_ok ext \<longleftrightarrow> (\<forall>l. 0 \<le> t_width (ext l) \<and> 0 \<le> t_height (ext l))"

lemma legend_place_ok:
  assumes "extents_ok ext" and "0 \<le> val padding" and "state_ok st" and "legend_place ext padding width st l = (st', x)"
  shows "state_ok st'" and "val (line_height st) \<le> val (line_height st')" and "val (total_height st) \<le> val (total_height st')"
    and "t_height (ext l) + val padding \<le> val (line_height st')"
    and "val x = val padding \<or> val x + 3 * val padding + t_width (ext l) \<le> val width"
    and "val padding \<le> val (line_used st) \<Longrightarrow> val padding \<le> val x \<and> val padding \<le> val (line_used st')"
proof -
  have e: "0 \<le> t_width (ext l)" "0 \<le> t_height (ext l)" using assms(1) by (simp_all add: extents_ok_def)
  show "state_ok st'" "val (line_height st) \<le> val (line_height st')" "val (total_height st) \<le> val (total_height st')"
    "t_height (ext l) + val padding \<le> val (line_height st')"
    "val x = val padding \<or> val x + 3 * val padding + t_width (ext l) \<le> val width"
    "val padding \<le> val (line_used st) \<Longrightarrow> val padding \<le> val x \<and> val padding \<le> val (line_used st')"
    using e assms(2-4) by (auto simp: legend_place_def Let_def state_ok_def less_pynum_def split: if_splits)
qed

definition legend_end :: "(string \<Rightarrow> extents) \<Rightarrow> pynum \<Rightarrow> pynum \<Rightarrow> legend_state \<Rightarrow> string list \<Rightarrow> legend_state" where
  "legend_end ext padding width st ls = foldl (\<lambda>st l. fst (legend_place ext padding width st l)) st ls"

lemma legend_end_mono:
  assumes "extents_ok ext" and "0 \<le> val padding" and "state_ok st"
  shows "val (line_height st) \<le> val (line_height (legend_end ext padding width st ls))
    \<and> val (total_height st) \<le> val (total_height (legend_end ext padding width st ls))"
  using assms(3)
proof (induction ls arbitrary: st)
  case (Cons l ls)
  obtain st' x where p: "legend_place ext padding width st l = (st', x)" by (cases "legend_place ext padding width st l")
  note ok = legend_place_ok [OF assms(1,2) Cons.prems p]
  from Cons.IH [OF ok(1)] ok(2,3) p show ?case by (simp add: legend_end_def)
qed (simp add: legend_end_def)

lemma legend_places_fit:
  assumes "extents_ok ext" and "0 \<le> val padding" and "state_ok st" and "val padding \<le> val (line_used st)"
    and "(l, st', x) \<in> set (legend_places ext padding width st ls)"
  shows "val padding \<le> val x \<and> (val x = val padding \<or> val x + 3 * val padding + t_width (ext l) \<le> val width)
    \<and> val (total_height st') + t_height (ext l) + val padding
        \<le> val (total_height (legend_end ext padding width st ls)) + val (line_height (legend_end ext padding width st ls))"
  using assms(3-)
proof (induction ls arbitrary: st)
  case (Cons m ls)
  obtain st1 x1 where p: "legend_place ext padding width st m = (st1, x1)" by (cases "legend_place ext padding width st m")
  note ok = legend_place_ok [OF assms(1,2) Cons.prems(1) p]
  have e: "legend_end ext padding width st (m # ls) = legend_end ext padding width st1 ls" by (simp add: legend_end_def p)
  from Cons.prems(3) p consider "(l, st', x) = (m, st1, x1)" | "(l, st', x) \<in> set (legend_places ext padding width st1 ls)"
    by auto
  then show ?case
  proof cases
    case 1
    with ok(4,5) ok(6) [OF Cons.prems(2)] legend_end_mono [OF assms(1,2) ok(1), of width ls] show ?thesis unfolding e by auto
  next
    case 2
    from Cons.IH [OF ok(1) _ 2] ok(6) [OF Cons.prems(2)] show ?thesis unfolding e by simp
  qed
qed simp

text \<open>
  Drawing the legend agrees with its layout: with a colour for every entry, the entries are drawn
  one after the other at places that lie within the height the layout reserved and right of the left
  margin, and within the width unless an entry is alone on its line.
\<close>
theorem legend_fits:
  assumes "extents_ok ext" and "0 \<le> val (lg_padding lg)" and "lg_colors lg = map Some cs" and "length cs = length (lg_legends lg)"
  shows "\<exists>ps. legend_draw ext (legend_layout ext width lg)
        = Inr (concat (map2 (\<lambda>(l, st, x) c. legend_entry ext (lg_padding lg) c l st x) ps cs))
      \<and> map fst ps = lg_legends lg
      \<and> (\<forall>(l, st, x) \<in> set ps. val (lg_padding lg) \<le> val x
           \<and> (val x = val (lg_padding lg) \<or> val x + 3 * val (lg_padding lg) + t_width (ext l) \<le> val width)
           \<and> val (total_height st) + t_height (ext l) + val (lg_padding lg) \<le> val (lg_height (legend_layout ext width lg)))"
proof -
  let ?p = "lg_padding lg" and ?ls = "lg_legends lg"
  let ?ps = "legend_places ext ?p width (legend_start ?p) ?ls"
  have "state_ok (legend_start ?p)" "val ?p \<le> val (line_used (legend_start ?p))"
    by (simp_all add: state_ok_def legend_start_def)
  note fit = legend_places_fit [OF assms(1,2) this]
  have h: "lg_height (legend_layout ext width lg)
      = total_height (legend_end ext ?p width (legend_start ?p) ?ls) + line_height (legend_end ext ?p width (legend_start ?p) ?ls)"
    by (simp add: legend_layout_def Let_def legend_end_def)
  have m: "map fst (legend_places ext q w st ls) = ls" for q w st ls
    by (induction ls arbitrary: st) (auto simp: Let_def case_prod_beta)
  have d: "legend_draw ext (legend_layout ext width lg)
      = Inr (concat (map2 (\<lambda>(l, st, x) c. legend_entry ext ?p c l st x) ?ps cs))"
    using legend_draw_places [of ?ls cs ext ?p width "legend_start ?p"] assms(3,4)
    by (simp add: legend_draw_def legend_layout_def Let_def)
  show ?thesis
  proof (intro exI [of _ ?ps] conjI d m)
    show "\<forall>(l, st, x) \<in> set ?ps. val ?p \<le> val x \<and> (val x = val ?p \<or> val x + 3 * val ?p + t_width (ext l) \<le> val width)
        \<and> val (total_height st) + t_height (ext l) + val ?p \<le> val (lg_height (legend_layout ext width lg))"
      unfolding h val_arith using fit by fast
  qed
qed

section \<open>Examples\<close>

definition sample_scale :: scale where
  "sample_scale = \<lparr>sc_top = True, sc_lo = PFloat (1 / 2), sc_hi = PInt 40, sc_delta = 10, sc_width = PInt 100, sc_height = PInt 20\<rparr>"

theorem scale_ticks_exact_witness:
  "\<exists>ticks. scale_ticks sample_scale 10 = Inr ticks \<and> 40 \<in> set ticks \<and> 0 \<notin> set ticks"
  using scale_ticks_exact [of 10 sample_scale] by (auto simp: sample_scale_def)

definition sample_renderer :: timelines_renderer where
  "sample_renderer = \<lparr>td_padding = PInt 10, td_timelines = [], td_colors = \<lparr>c_colors = [], c_default = default_colors\<rparr>,
     td_start = PInt 1, td_end = PInt 8, td_left_width = PInt 0, td_right_width = PInt 0, td_max_text_height = PInt 8,
     td_width = PInt 100, td_height = PInt 50\<rparr>"

lemma sample_search: "search_range sample_ranges 1 = Inr 0" "search_range sample_ranges 8 = Inr 2"
  by (simp_all add: search_range_def search_range_loop.simps sample_ranges_def py_index_def)

theorem draw_ranges_inside_witness:
  "case draw_ranges sample_renderer 0 (td_colors sample_renderer) sample_ranges (PInt 20) (PInt 5) (PInt 70) (PInt 10) of
     Inl e \<Rightarrow> False
   | Inr (ds, cs') \<Rightarrow> \<exists>ds'. ds = draw_background (PInt 10) 0 (PInt 20) (PInt 5) (PInt 70) (PInt 10) @ ds'
       \<and> (\<forall>c \<in> set ds'. in_columns 20 90 c)"
proof -
  have "\<exists>r. draw_ranges sample_renderer 0 (td_colors sample_renderer) sample_ranges (PInt 20) (PInt 5) (PInt 70) (PInt 10) = Inr r"
    using sample_search
    by (simp add: draw_ranges_def get_ranges_bounds_def sample_renderer_def py_slice_def slice_bound_def sample_ranges_def x_of_time_def py_div_def
        py_max_def py_min_def less_pynum_def lookup_color_def has_key_def add_color_def default_colors_def)
  then obtain ds cs' where d: "draw_ranges sample_renderer 0 (td_colors sample_renderer) sample_ranges (PInt 20) (PInt 5) (PInt 70) (PInt 10)
      = Inr (ds, cs')" by auto
  have w: "window_ok sample_renderer (PInt 70)" by (simp add: window_ok_def sample_renderer_def)
  have "\<exists>r \<in> set sample_ranges. in_range (val (td_start sample_renderer)) r"
    "\<exists>r \<in> set sample_ranges. in_range (val (td_end sample_renderer)) r"
    by (simp_all add: sample_ranges_def in_range_def sample_renderer_def)
  from draw_ranges_inside [OF sample_ranges_disjoint w this d] d show ?thesis by (simp add: sample_renderer_def)
qed

definition sample_extents :: "string \<Rightarrow> extents" where
  "sample_extents s = \<lparr>x_bearing = 0, y_bearing = -6, t_width = 7 * of_nat (length s), t_height = 8\<rparr>"

definition sample_legend :: top_legend where
  "sample_legend = set_legends [''tx'', ''rx''] [Some (1, 0, 0), Some (0, 1, 0)] new_legend"

theorem legend_fits_witness:
  "\<exists>ps. legend_draw sample_extents (legend_layout sample_extents (PInt 60) sample_legend)
      = Inr (concat (map2 (\<lambda>(l, st, x) c. legend_entry sample_extents (PInt 10) c l st x) ps [(1, 0, 0), (0, 1, 0)]))
    \<and> map fst ps = [''tx'', ''rx'']"
  using legend_fits [of sample_extents sample_legend "[(1, 0, 0), (0, 1, 0)]" "PInt 60"]
  by (auto simp: extents_ok_def sample_extents_def sample_legend_def set_legends_def new_legend_def)

end
