(* ===== verification/Grid_View.thy ===== *)
theory Grid_View
  imports Grid_Render
begin

text \<open>
  The view of \<^verbatim>\<open>utils/grid.py\<close>: the whole picture with its selected range, and the GTK widget that
  reacts to the mouse, the zoom buttons, resizing and repainting.  An attribute that the program has
  not assigned yet is \<open>None\<close> and reading it raises.  A handler returns the changed state also when it
  raises, because the main loop of GTK goes on after an exception.
\<close>

section \<open>The picture\<close>

record graphic =
  gr_start :: pynum
  gr_end :: pynum
  gr_mid :: scale
  gr_bot :: scale
  gr_width :: pynum
  gr_height :: pynum
  gr_legend :: top_legend
  gr_data :: timelines_renderer
  gr_r_start :: pynum
  gr_r_end :: pynum

definition new_scale :: scale where
  "new_scale = \<lparr>sc_top = False, sc_lo = PInt 0, sc_hi = PInt 0, sc_delta = 1, sc_width = PInt 0, sc_height = PInt 0\<rparr>"

text \<open>
  The constructor with \<open>set_top_legend\<close> and \<open>set_data\<close>; the selected range is assigned by \<open>set_range\<close>,
  which \<open>main\<close> calls before anything reads it.
\<close>

definition new_graphic :: "pynum \<Rightarrow> pynum \<Rightarrow> top_legend \<Rightarrow> timelines_renderer \<Rightarrow> graphic" where
  "new_graphic start end lg d =
     \<lparr>gr_start = to_float start, gr_end = to_float end, gr_mid = new_scale\<lparr>sc_top := True\<rparr>,
      gr_bot = set_bounds start end new_scale, gr_width = PInt 1, gr_height = PInt 1, gr_legend = lg, gr_data = d,
      gr_r_start = to_float start, gr_r_end = to_float end\<rparr>"

definition get_data_rectangle :: "graphic \<Rightarrow> pynum \<times> pynum \<times> pynum \<times> pynum" where
  "get_data_rectangle g =
     (let x_start = get_data_x_start (gr_data g)
      in (x_start, lg_height (gr_legend g), gr_width g - x_start, td_height (gr_data g)))"

definition scale_data :: "graphic \<Rightarrow> pynum \<Rightarrow> pynum res" where
  "scale_data g x =
     res_bind (py_div x (gr_width g - get_data_x_start (gr_data g))) (\<lambda>q. Inr (q * (gr_r_end g - gr_r_start g)))"

definition get_selection_rectangle :: "graphic \<Rightarrow> (pynum \<times> pynum \<times> pynum \<times> pynum) res" where
  "get_selection_rectangle g =
     (let y_start = lg_height (gr_legend g) + td_height (gr_data g) + sc_height (gr_mid g) + PInt 20;
          y_height = sc_height (gr_bot g) + PInt 20
      in res_bind (get_position (gr_bot g) (gr_r_start g)) (\<lambda>x_start.
         res_bind (get_position (gr_bot g) (gr_r_end g)) (\<lambda>x_end.
           Inr (x_start, y_start, x_end - x_start, y_height))))"

definition scale_selection :: "graphic \<Rightarrow> pynum \<Rightarrow> pynum res" where
  "scale_selection g x = res_bind (py_div x (gr_width g)) (\<lambda>q. Inr (q * (gr_end g - gr_start g)))"

definition graphic_layout :: "(string \<Rightarrow> extents) \<Rightarrow> pynum \<Rightarrow> pynum \<Rightarrow> graphic \<Rightarrow> graphic \<times> unit res" where
  "graphic_layout ext width height g =
     (let g = g\<lparr>gr_width := width, gr_height := height, gr_legend := legend_layout ext width (gr_legend g),
                gr_data := timelines_layout ext width (gr_data g)\<rparr>
      in case scale_layout ext (width - get_data_x_start (gr_data g)) (gr_mid g) of
           Inl e \<Rightarrow> (g, Inl e)
         | Inr mid \<Rightarrow>
             (let g = g\<lparr>gr_mid := mid\<rparr>
              in case scale_layout ext width (gr_bot g) of
                   Inl e \<Rightarrow> (g, Inl e)
                 | Inr lower \<Rightarrow> (g\<lparr>gr_bot := lower\<rparr>, Inr ())))"

definition set_range :: "(string \<Rightarrow> extents) \<Rightarrow> pynum \<Rightarrow> pynum \<Rightarrow> graphic \<Rightarrow> graphic \<times> unit res" where
  "set_range ext start end g =
     (let s = py_min start end; e = py_max start end;
          start = py_max (gr_start g) s; end = py_min (gr_end g) e;
          g = g\<lparr>gr_r_start := start, gr_r_end := end, gr_data := set_render_range start end (gr_data g),
                gr_mid := set_bounds start end (gr_mid g)\<rparr>
      in graphic_layout ext (gr_width g) (gr_height g) g)"

section \<open>Drawing the picture\<close>

definition thick_black :: "draw list" where
  "thick_black = [SetLineWidth (PInt 2), black, Stroke]"

definition fill_shape :: "draw list" where
  "fill_shape = [black, SetLineWidth (PInt 1), StrokePreserve, grey, Fill]"

text \<open>The lines between the data and the lower scale.\<close>

definition draw_separators :: "graphic \<Rightarrow> pynum \<Rightarrow> draw list" where
  "draw_separators g height_used =
     [MoveTo (get_data_x_start (gr_data g)) height_used, RelLineTo (PInt 0) (- sc_height (gr_mid g)), ClosePath,
      black, SetLineWidth (PInt 2), Stroke,
      MoveTo (PInt 0) height_used, LineTo (gr_width g) height_used, ClosePath] @ thick_black"

text \<open>The shapes that connect the two scales.\<close>

definition draw_connections :: "graphic \<Rightarrow> pynum \<Rightarrow> pynum \<Rightarrow> pynum \<Rightarrow> draw list" where
  "draw_connections g height_used select_start select_end =
     [MoveTo (PInt 0) height_used, LineTo (get_data_x_start (gr_data g)) height_used, LineTo select_start (height_used + PInt 20),
      LineTo (PInt 0) (height_used + PInt 20), LineTo (PInt 0) height_used] @ fill_shape
     @ [MoveTo (gr_width g) height_used, LineTo (gr_width g) (height_used + PInt 20), LineTo select_end (height_used + PInt 20),
        LineTo (gr_width g) height_used] @ fill_shape"

definition draw_selection :: "graphic \<Rightarrow> pynum \<Rightarrow> pynum \<Rightarrow> pynum \<Rightarrow> draw list" where
  "draw_selection g height_used unused_start unused_end =
     (let unused_height = sc_height (gr_bot g) + PInt 20
      in [Rectangle (PInt 0) height_used unused_start unused_height,
          Rectangle unused_end height_used (gr_width g - unused_end) unused_height, grey, Fill,
          MoveTo unused_end height_used, LineTo (gr_width g) height_used, LineTo (gr_width g) (height_used + unused_height),
          LineTo (PInt 0) (height_used + unused_height), LineTo (PInt 0) height_used, LineTo unused_start height_used, ClosePath]
         @ thick_black
         @ [MoveTo unused_start height_used, LineTo unused_end height_used, ClosePath, SetLineWidth (PInt 1), grey, Stroke,
            Save, MoveTo (py_max unused_start (PInt 2)) height_used, RelLineTo (PInt 0) unused_height,
            MoveTo (py_min unused_end (gr_width g - PInt 2)) height_used, RelLineTo (PInt 0) unused_height,
            SetDash [PInt 5] (PInt 0), black, SetLineWidth (PInt 1), Stroke, Restore])"

definition graphic_draw :: "(string \<Rightarrow> extents) \<Rightarrow> graphic \<Rightarrow> (draw list \<times> graphic) res" where
  "graphic_draw ext g =
     (let h = lg_height (gr_legend g); height_used = h + td_height (gr_data g) + sc_height (gr_mid g)
      in res_bind (legend_draw ext (gr_legend g)) (\<lambda>legend.
         res_bind (timelines_draw ext (gr_data g)) (\<lambda>(data, cs).
         res_bind (scale_draw ext (gr_mid g)) (\<lambda>mid.
         res_bind (get_position (gr_bot g) (gr_r_start g)) (\<lambda>select_start.
         res_bind (get_position (gr_bot g) (gr_r_end g)) (\<lambda>select_end.
         res_bind (scale_draw ext (gr_bot g)) (\<lambda>lower.
           Inr ([Save, SetSourceRgb (PInt 1) (PInt 1) (PInt 1), SetOperatorSource,
                 Rectangle (PInt 0) (PInt 0) (gr_width g) (gr_height g), Fill]
                @ [Save] @ legend @ [Restore]
                @ [MoveTo (PInt 0) h, LineTo (gr_width g) h, ClosePath] @ thick_black
                @ [Save, Translate (PInt 0) h] @ data @ [Restore]
                @ [Save, Translate (get_data_x_start (gr_data g)) (h + td_height (gr_data g) + sc_height (gr_mid g))] @ mid @ [Restore]
                @ draw_separators g height_used
                @ draw_connections g height_used select_start select_end
                @ draw_selection g (height_used + PInt 20) select_start select_end
                @ [Save, Translate (PInt 0) (height_used + PInt 20)] @ lower @ [Restore],
                g\<lparr>gr_data := (gr_data g)\<lparr>td_colors := cs\<rparr>\<rparr>))))))))"

section \<open>The widget\<close>

datatype cursor = DoubleArrow | Fleur | NoCursor

datatype effect =
    QueueDraw
  | QueueDrawArea int int int int
  | SetCursor cursor
  | WritePng string "draw list"
  | Painted "draw list"

record view =
  v_graphic :: graphic
  v_left :: bool
  v_right :: bool
  v_both :: bool
  v_top :: bool
  v_redraw :: bool
  v_left_cur :: "pynum option"
  v_right_cur :: "pynum option"
  v_both_start :: "pynum option"
  v_both_cur :: "pynum option"
  v_top_start :: "pynum option"
  v_top_cur :: "pynum option"
  v_width :: "pynum option"
  v_height :: "pynum option"
  v_buffer :: "draw list option"
  v_effects :: "effect list"

definition new_view :: "graphic \<Rightarrow> view" where
  "new_view g = \<lparr>v_graphic = g, v_left = False, v_right = False, v_both = False, v_top = False, v_redraw = True,
     v_left_cur = None, v_right_cur = None, v_both_start = None, v_both_cur = None, v_top_start = None, v_top_cur = None,
     v_width = None, v_height = None, v_buffer = None, v_effects = []\<rparr>"

text \<open>Steps on the state of the widget that may raise.\<close>

type_synonym 'a handler = "view \<Rightarrow> view \<times> 'a res"

definition h_return :: "'a \<Rightarrow> 'a handler" where
  "h_return x v = (v, Inr x)"

definition h_bind :: "'a handler \<Rightarrow> ('a \<Rightarrow> 'b handler) \<Rightarrow> 'b handler" where
  "h_bind m f v = (case m v of (v', Inl e) \<Rightarrow> (v', Inl e) | (v', Inr x) \<Rightarrow> f x v')"

definition h_get :: "(view \<Rightarrow> 'a res) \<Rightarrow> 'a handler" where
  "h_get f v = (v, f v)"

definition h_update :: "(view \<Rightarrow> view) \<Rightarrow> unit handler" where
  "h_update f v = (f v, Inr ())"

definition attr :: "'a option \<Rightarrow> 'a res" where
  "attr a = (case a of None \<Rightarrow> Inl AttributeError | Some x \<Rightarrow> Inr x)"

definition h_effect :: "effect \<Rightarrow> unit handler" where
  "h_effect e = h_update (\<lambda>v. v\<lparr>v_effects := v_effects v @ [e]\<rparr>)"

definition h_set_range :: "(string \<Rightarrow> extents) \<Rightarrow> pynum \<Rightarrow> pynum \<Rightarrow> unit handler" where
  "h_set_range ext start end v =
     (let (g, r) = set_range ext start end (v_graphic v) in (v\<lparr>v_graphic := g\<rparr>, r))"

text \<open>The common end of a handler that changed the range.\<close>

definition redraw_all :: "unit handler" where
  "redraw_all = h_bind (h_update (\<lambda>v. v\<lparr>v_redraw := True\<rparr>)) (\<lambda>_. h_effect QueueDraw)"

definition selection :: "(pynum \<times> pynum \<times> pynum \<times> pynum) handler" where
  "selection = h_get (\<lambda>v. get_selection_rectangle (v_graphic v))"

definition set_smaller_zoom :: "(string \<Rightarrow> extents) \<Rightarrow> unit handler" where
  "set_smaller_zoom ext v =
     (let start = gr_r_start (v_graphic v); end = gr_r_end (v_graphic v)
      in h_bind (h_set_range ext start (start + (end - start) * PInt 2)) (\<lambda>_. redraw_all) v)"

definition set_bigger_zoom :: "(string \<Rightarrow> extents) \<Rightarrow> unit handler" where
  "set_bigger_zoom ext v =
     (let start = gr_r_start (v_graphic v); end = gr_r_end (v_graphic v)
      in h_bind (h_set_range ext start (start + half (end - start))) (\<lambda>_. redraw_all) v)"

text \<open>\<open>output_png\<close> draws into the buffer of the widget and writes the other, empty surface.\<close>

definition output_png :: "(string \<Rightarrow> extents) \<Rightarrow> string \<Rightarrow> unit handler" where
  "output_png ext filename =
     h_bind (h_get (\<lambda>v. attr (v_buffer v))) (\<lambda>buffer.
     h_bind (h_get (\<lambda>v. graphic_draw ext (v_graphic v))) (\<lambda>(ds, g).
     h_bind (h_update (\<lambda>v. v\<lparr>v_graphic := g, v_buffer := Some (buffer @ ds)\<rparr>)) (\<lambda>_.
       h_effect (WritePng filename []))))"

definition button_press :: "pynum \<Rightarrow> pynum \<Rightarrow> bool handler" where
  "button_press ex ey =
     h_bind selection (\<lambda>(x, y, width, height) v.
       let (d_x, d_y, d_width, d_height) = get_data_rectangle (v_graphic v);
           in_selection = (y < ey \<and> ey < y + height)
       in if in_selection \<and> py_abs (ex - x) < PInt 5 then (v\<lparr>v_left := True\<rparr>, Inr True)
          else if in_selection \<and> py_abs (ex - (x + width)) < PInt 5 then (v\<lparr>v_right := True\<rparr>, Inr True)
          else if in_selection \<and> x < ex \<and> ex < x + width
          then (v\<lparr>v_both := True, v_both_start := Some ex, v_both_cur := Some ex\<rparr>, Inr True)
          else if d_y < ey \<and> ey < d_y + d_height \<and> d_x < ex \<and> ex < d_x + d_width
          then (v\<lparr>v_top := True, v_top_start := Some ex, v_top_cur := Some ex\<rparr>, Inr True)
          else (v, Inr False))"

definition button_release :: "(string \<Rightarrow> extents) \<Rightarrow> bool handler" where
  "button_release ext v =
     (if v_left v then
        h_bind (h_get (\<lambda>v. attr (v_left_cur v))) (\<lambda>cur.
        h_bind (h_get (\<lambda>v. scale_selection (v_graphic v) cur)) (\<lambda>left v.
          h_bind (h_set_range ext left (gr_r_end (v_graphic v))) (\<lambda>_. h_bind redraw_all (\<lambda>_. h_return True)) v))
        (v\<lparr>v_left := False\<rparr>)
      else if v_right v then
        h_bind (h_get (\<lambda>v. attr (v_right_cur v))) (\<lambda>cur.
        h_bind (h_get (\<lambda>v. scale_selection (v_graphic v) cur)) (\<lambda>right v.
          h_bind (h_set_range ext (gr_r_start (v_graphic v)) right) (\<lambda>_. h_bind redraw_all (\<lambda>_. h_return True)) v))
        (v\<lparr>v_right := False\<rparr>)
      else if v_both v then
        h_bind (h_get (\<lambda>v. attr (v_both_cur v))) (\<lambda>cur.
        h_bind (h_get (\<lambda>v. attr (v_both_start v))) (\<lambda>start.
        h_bind (h_get (\<lambda>v. scale_selection (v_graphic v) (cur - start))) (\<lambda>delta v.
          h_bind (h_set_range ext (gr_r_start (v_graphic v) + delta) (gr_r_end (v_graphic v) + delta))
            (\<lambda>_. h_bind redraw_all (\<lambda>_. h_return True)) v)))
        (v\<lparr>v_both := False\<rparr>)
      else (v\<lparr>v_top := False\<rparr>, Inr False))"

definition redraw_selection :: "pynum \<Rightarrow> pynum \<Rightarrow> bool handler" where
  "redraw_selection y height =
     h_bind (h_get (\<lambda>v. attr (v_width v))) (\<lambda>w.
     h_bind (h_effect (QueueDrawArea 0 (to_int y) (to_int w) (to_int height))) (\<lambda>_. h_return True))"

definition set_cursor :: "cursor \<Rightarrow> bool \<Rightarrow> bool handler" where
  "set_cursor c r = h_bind (h_effect (SetCursor c)) (\<lambda>_. h_return r)"

text \<open>
  The branch for the right handle assigns the width to the flag instead of to the position; a flag is
  true when its number is not zero.
\<close>

definition motion_notify :: "(string \<Rightarrow> extents) \<Rightarrow> pynum \<Rightarrow> pynum \<Rightarrow> bool handler" where
  "motion_notify ext ex ey =
     h_bind selection (\<lambda>(x, y, width, height) v.
       if v_left v then
         h_bind (h_update (\<lambda>v. v\<lparr>v_left_cur := Some (if ex \<le> PInt 0 then PInt 0 else if x + width \<le> ex then x + width else ex)\<rparr>))
           (\<lambda>_. redraw_selection y height) v
       else if v_right v then
         h_bind (h_get (\<lambda>v. attr (v_width v))) (\<lambda>w.
         h_bind (h_update (\<lambda>v. if w \<le> ex then v\<lparr>v_right := (val w \<noteq> 0)\<rparr>
                               else v\<lparr>v_right_cur := Some (if ex < x then x else ex)\<rparr>)) (\<lambda>_.
           redraw_selection y height)) v
       else if v_both v then
         h_bind (h_get (\<lambda>v. attr (v_width v))) (\<lambda>w.
         h_bind (h_get (\<lambda>v. attr (v_both_start v))) (\<lambda>start.
           let cur_e = w - (x + width - start); cur_s = start - x
           in h_bind (h_update (\<lambda>v. v\<lparr>v_both_cur := Some (if ex < cur_s then cur_s else if cur_e < ex then cur_e else ex)\<rparr>)) (\<lambda>_.
                redraw_selection y height))) v
       else if v_top v then
         h_bind (h_update (\<lambda>v. v\<lparr>v_top_cur := Some ex\<rparr>)) (\<lambda>_.
         h_bind (h_get (\<lambda>v. attr (v_top_start v))) (\<lambda>start.
         h_bind (h_get (\<lambda>v. scale_data (v_graphic v) (start - ex))) (\<lambda>delta v.
           h_bind (h_set_range ext (gr_r_start (v_graphic v) + delta) (gr_r_end (v_graphic v) + delta)) (\<lambda>_.
           h_bind (h_update (\<lambda>v. v\<lparr>v_redraw := True, v_top_start := Some ex\<rparr>)) (\<lambda>_.
           h_bind (h_effect QueueDraw) (\<lambda>_. h_return True))) v))) v
       else
         (let (d_x, d_y, d_width, d_height) = get_data_rectangle (v_graphic v); in_selection = (y < ey \<and> ey < y + height)
          in if in_selection \<and> (py_abs (ex - x) < PInt 5 \<or> py_abs (ex - (x + width)) < PInt 5) then set_cursor DoubleArrow True v
             else if in_selection \<and> x < ex \<and> ex < x + width then set_cursor Fleur True v
             else if d_y < ey \<and> ey < d_y + d_height \<and> d_x < ex \<and> ex < d_x + d_width then set_cursor Fleur True v
             else set_cursor NoCursor False v))"

definition size_allocate :: "(string \<Rightarrow> extents) \<Rightarrow> int \<Rightarrow> int \<Rightarrow> unit handler" where
  "size_allocate ext w h =
     h_bind (h_update (\<lambda>v. v\<lparr>v_width := Some (PInt w), v_height := Some (PInt h)\<rparr>)) (\<lambda>_.
     h_bind (\<lambda>v. let (g, r) = graphic_layout ext (PInt w) (PInt h) (v_graphic v) in (v\<lparr>v_graphic := g\<rparr>, r)) (\<lambda>_. redraw_all))"

text \<open>The handles that are being moved, drawn on top of the buffer.\<close>

definition handle_line :: "pynum \<Rightarrow> pynum \<Rightarrow> pynum \<Rightarrow> draw list" where
  "handle_line x y height = [MoveTo x y, RelLineTo (PInt 0) height, ClosePath]"

definition left_line :: "view \<Rightarrow> pynum \<Rightarrow> pynum \<Rightarrow> (draw list) res" where
  "left_line v y height =
     (if v_left v then res_bind (attr (v_left_cur v)) (\<lambda>cur.
        Inr (handle_line (py_max cur (PInt 2)) y height @ [SetLineWidth (PInt 1), black, Stroke])) else Inr [])"

definition right_line :: "view \<Rightarrow> pynum \<Rightarrow> pynum \<Rightarrow> (draw list) res" where
  "right_line v y height =
     (if v_right v then res_bind (attr (v_right_cur v)) (\<lambda>cur. res_bind (attr (v_width v)) (\<lambda>w.
        Inr (handle_line (py_min cur (w - PInt 2)) y height @ [SetLineWidth (PInt 1), black, Stroke]))) else Inr [])"

definition both_lines :: "view \<Rightarrow> pynum \<Rightarrow> pynum \<Rightarrow> pynum \<Rightarrow> pynum \<Rightarrow> (draw list) res" where
  "both_lines v x y width height =
     (if v_both v then res_bind (attr (v_both_cur v)) (\<lambda>cur. res_bind (attr (v_both_start v)) (\<lambda>start.
        let delta_x = cur - start
        in Inr (handle_line (x + delta_x) y height @ handle_line (x + width + delta_x) y height
             @ [black, SetLineWidth (PInt 1), Stroke]))) else Inr [])"

definition paint :: "(view \<Rightarrow> (draw list) res) \<Rightarrow> unit handler" where
  "paint f = h_bind (h_get f) (\<lambda>ds. h_effect (Painted ds))"

text \<open>
  A full redraw starts with an empty buffer.  A drawing that raises leaves the buffer empty here and the
  colours as they were; the program keeps what was drawn and looked up before the exception.
\<close>

definition refresh_buffer :: "(string \<Rightarrow> extents) \<Rightarrow> unit handler" where
  "refresh_buffer ext v =
     (if v_redraw v
      then h_bind (h_update (\<lambda>v. v\<lparr>v_buffer := Some []\<rparr>)) (\<lambda>_.
           h_bind (h_get (\<lambda>v. graphic_draw ext (v_graphic v))) (\<lambda>(ds, g).
             h_update (\<lambda>v. v\<lparr>v_graphic := g, v_buffer := Some ds, v_redraw := False\<rparr>))) v
      else (v, Inr ()))"

definition expose :: "(string \<Rightarrow> extents) \<Rightarrow> int \<Rightarrow> int \<Rightarrow> int \<Rightarrow> int \<Rightarrow> bool handler" where
  "expose ext a_x a_y a_width a_height =
     h_bind (refresh_buffer ext) (\<lambda>_.
     h_bind (h_get (\<lambda>v. attr (v_buffer v))) (\<lambda>_.
     h_bind (paint (\<lambda>_. Inr [Rectangle (PInt a_x) (PInt a_y) (PInt a_width) (PInt a_height), Clip, SetSourceSurface, Paint])) (\<lambda>_.
     h_bind selection (\<lambda>(x, y, width, height).
     h_bind (paint (\<lambda>v. left_line v y height)) (\<lambda>_.
     h_bind (paint (\<lambda>v. right_line v y height)) (\<lambda>_.
     h_bind (paint (\<lambda>v. both_lines v x y width height)) (\<lambda>_. h_return False)))))))"

section \<open>Events\<close>

datatype gtk_event =
    Press pynum pynum
  | Release
  | Motion pynum pynum
  | Allocate int int
  | Expose int int int int
  | ZoomOut
  | ZoomIn
  | OutputPng string

definition ignore :: "'a handler \<Rightarrow> unit handler" where
  "ignore m = h_bind m (\<lambda>_. h_return ())"

fun handle_event :: "(string \<Rightarrow> extents) \<Rightarrow> gtk_event \<Rightarrow> unit handler" where
  "handle_event ext (Press x y) = ignore (button_press x y)"
| "handle_event ext Release = ignore (button_release ext)"
| "handle_event ext (Motion x y) = ignore (motion_notify ext x y)"
| "handle_event ext (Allocate w h) = size_allocate ext w h"
| "handle_event ext (Expose a b c d) = ignore (expose ext a b c d)"
| "handle_event ext ZoomOut = set_smaller_zoom ext"
| "handle_event ext ZoomIn = set_bigger_zoom ext"
| "handle_event ext (OutputPng f) = output_png ext f"

inductive view_step :: "(string \<Rightarrow> extents) \<Rightarrow> view \<Rightarrow> view \<Rightarrow> bool" for ext where
  "handle_event ext e v = (v', r) \<Longrightarrow> view_step ext v v'"

section \<open>The selected range\<close>

lemma layout_range [simp]:
  "gr_r_start (fst (graphic_layout ext w h g)) = gr_r_start g" "gr_r_end (fst (graphic_layout ext w h g)) = gr_r_end g"
  "gr_start (fst (graphic_layout ext w h g)) = gr_start g" "gr_end (fst (graphic_layout ext w h g)) = gr_end g"
  by (simp_all add: graphic_layout_def Let_def split: sum.splits)

lemma set_range_range [simp]:
  "gr_r_start (fst (set_range ext s e g)) = py_max (gr_start g) (py_min s e)"
  "gr_r_end (fst (set_range ext s e g)) = py_min (gr_end g) (py_max s e)"
  "gr_start (fst (set_range ext s e g)) = gr_start g" "gr_end (fst (set_range ext s e g)) = gr_end g"
  by (simp_all add: set_range_def Let_def)

lemma graphic_draw_range:
  assumes "graphic_draw ext g = Inr (ds, g')"
  shows "gr_r_start g' = gr_r_start g" "gr_r_end g' = gr_r_end g" "gr_start g' = gr_start g" "gr_end g' = gr_end g"
  using assms by (auto simp: graphic_draw_def Let_def res_bind_eq_Inr)

text \<open>The selected range starts and ends within the bounds of the picture, which never change.\<close>

definition range_inside :: "pynum \<Rightarrow> pynum \<Rightarrow> graphic \<Rightarrow> bool" where
  "range_inside s e g \<longleftrightarrow> gr_start g = s \<and> gr_end g = e \<and> val s \<le> val (gr_r_start g) \<and> val (gr_r_end g) \<le> val e"

text \<open>
  A step keeps a property of the picture: the rules go through a handler call by call.
\<close>

definition keeps :: "(graphic \<Rightarrow> bool) \<Rightarrow> 'a handler \<Rightarrow> bool" where
  "keeps P m \<longleftrightarrow> (\<forall>v. P (v_graphic v) \<longrightarrow> P (v_graphic (fst (m v))))"

lemma keepsD: "keeps P m \<Longrightarrow> P (v_graphic v) \<Longrightarrow> P (v_graphic (fst (m v)))"
  by (simp add: keeps_def)

lemma keeps_bind:
  assumes "keeps P m" and "\<And>x. keeps P (f x)"
  shows "keeps P (h_bind m f)"
  unfolding keeps_def
proof (intro allI impI)
  fix v :: view assume P: "P (v_graphic v)"
  obtain v' r where m: "m v = (v', r)" by (cases "m v")
  have P': "P (v_graphic v')" using keepsD [OF assms(1) P] m by simp
  show "P (v_graphic (fst (h_bind m f v)))"
    using m P' keepsD [OF assms(2) P'] by (cases r) (simp_all add: h_bind_def)
qed

lemma keeps_simple:
  "keeps P (h_return x)" "keeps P (h_get f)" "keeps P (h_effect e)"
  by (simp_all add: keeps_def h_return_def h_get_def h_effect_def h_update_def)

lemma keeps_update: "(\<And>v. v_graphic (f v) = v_graphic v) \<Longrightarrow> keeps P (h_update f)"
  by (simp add: keeps_def h_update_def)

lemma keeps_at: "(\<And>v. keeps P (\<lambda>u. m v u)) \<Longrightarrow> keeps P (\<lambda>v. m v v)"
  by (simp add: keeps_def)

lemma keeps_moved: "keeps P m \<Longrightarrow> (\<And>v. v_graphic (f v) = v_graphic v) \<Longrightarrow> keeps P (\<lambda>v. m (f v))"
  by (simp add: keeps_def)

lemma keeps_if: "keeps P m \<Longrightarrow> keeps P n \<Longrightarrow> keeps P (\<lambda>v. if b v then m v else n v)"
  by (simp add: keeps_def)

lemma keeps_pair: "(\<And>v. v_graphic (f v) = v_graphic v) \<Longrightarrow> keeps P (\<lambda>v. (f v, r v))"
  by (simp add: keeps_def)

lemma keeps_set_range: "keeps (range_inside s e) (h_set_range ext a b)"
  by (auto simp: keeps_def h_set_range_def range_inside_def case_prod_beta Let_def)

lemmas keeps_rules = keeps_bind keeps_simple keeps_update keeps_set_range keeps_pair

lemma keeps_redraw: "keeps P redraw_all"
  unfolding redraw_all_def by (intro keeps_rules) simp

lemma keeps_press: "keeps P (button_press x y)"
  unfolding button_press_def selection_def
  by (intro keeps_rules) (auto simp: keeps_def Let_def split: prod.splits)

lemma keeps_layout: "keeps (range_inside s e) (size_allocate ext w h)"
  unfolding size_allocate_def
  by (intro keeps_rules keeps_redraw) (auto simp: keeps_def range_inside_def case_prod_beta Let_def)

lemma keeps_drawn:
  assumes "graphic_draw ext g = Inr (ds, g')" and "range_inside s e g"
  shows "range_inside s e g'"
  using assms(2) graphic_draw_range [OF assms(1)] by (simp add: range_inside_def)

lemma keeps_drawing:
  assumes "\<And>ds g v. range_inside s e g \<Longrightarrow> range_inside s e (v_graphic (fst (k (ds, g) v)))"
  shows "keeps (range_inside s e) (h_bind (h_get (\<lambda>v. graphic_draw ext (v_graphic v))) k)"
  unfolding keeps_def h_bind_def h_get_def
  using assms by (auto split: sum.splits dest: keeps_drawn)

lemma keeps_png: "keeps (range_inside s e) (output_png ext f)"
  unfolding output_png_def
  by (intro keeps_bind keeps_simple keeps_drawing) (simp add: h_bind_def h_update_def h_effect_def)

lemma keeps_paint: "keeps P (paint f)"
  unfolding paint_def by (intro keeps_rules)

lemma keeps_refresh: "keeps (range_inside s e) (refresh_buffer ext)"
proof -
  have "keeps (range_inside s e) (h_bind (h_update (\<lambda>v. v\<lparr>v_buffer := Some []\<rparr>)) (\<lambda>_.
      h_bind (h_get (\<lambda>v. graphic_draw ext (v_graphic v))) (\<lambda>(ds, g).
        h_update (\<lambda>v. v\<lparr>v_graphic := g, v_buffer := Some ds, v_redraw := False\<rparr>))))"
    by (intro keeps_bind keeps_update keeps_drawing) (simp_all add: h_update_def)
  then show ?thesis by (auto simp: keeps_def refresh_buffer_def)
qed

lemma keeps_split: "(\<And>a b c d. keeps P (f a b c d)) \<Longrightarrow> keeps P (case x of (a, b, c, d) \<Rightarrow> f a b c d)"
  by (cases x) simp

lemma keeps_expose: "keeps (range_inside s e) (expose ext a b c d)"
  unfolding expose_def selection_def
  by (intro keeps_bind keeps_refresh keeps_simple keeps_paint keeps_split)

lemma keeps_zoom: "keeps (range_inside s e) (set_smaller_zoom ext)" "keeps (range_inside s e) (set_bigger_zoom ext)"
proof -
  have "keeps (range_inside s e) (h_bind (h_set_range ext a b) (\<lambda>_. redraw_all))" for a b
    by (intro keeps_rules keeps_redraw)
  then show "keeps (range_inside s e) (set_smaller_zoom ext)" "keeps (range_inside s e) (set_bigger_zoom ext)"
    by (simp_all add: keeps_def set_smaller_zoom_def set_bigger_zoom_def Let_def)
qed

lemma keeps_new_range:
  "keeps (range_inside s e) (\<lambda>v. h_bind (h_set_range ext (a v) (b v)) (\<lambda>_. h_bind redraw_all (\<lambda>_. h_return r)) v)"
proof -
  have "keeps (range_inside s e) (h_bind (h_set_range ext x y) (\<lambda>_. h_bind redraw_all (\<lambda>_. h_return r)))" for x y
    by (intro keeps_rules keeps_redraw)
  then show ?thesis by (simp add: keeps_def)
qed

lemma keeps_release: "keeps (range_inside s e) (button_release ext)"
proof -
  have l: "keeps (range_inside s e) (h_bind (h_get (\<lambda>v. attr (v_left_cur v))) (\<lambda>cur.
        h_bind (h_get (\<lambda>v. scale_selection (v_graphic v) cur)) (\<lambda>left v.
          h_bind (h_set_range ext left (gr_r_end (v_graphic v))) (\<lambda>_. h_bind redraw_all (\<lambda>_. h_return True)) v)))"
    by (intro keeps_bind keeps_simple keeps_new_range)
  have r: "keeps (range_inside s e) (h_bind (h_get (\<lambda>v. attr (v_right_cur v))) (\<lambda>cur.
        h_bind (h_get (\<lambda>v. scale_selection (v_graphic v) cur)) (\<lambda>right v.
          h_bind (h_set_range ext (gr_r_start (v_graphic v)) right) (\<lambda>_. h_bind redraw_all (\<lambda>_. h_return True)) v)))"
    by (intro keeps_bind keeps_simple keeps_new_range)
  have b: "keeps (range_inside s e) (h_bind (h_get (\<lambda>v. attr (v_both_cur v))) (\<lambda>cur.
        h_bind (h_get (\<lambda>v. attr (v_both_start v))) (\<lambda>start.
        h_bind (h_get (\<lambda>v. scale_selection (v_graphic v) (cur - start))) (\<lambda>delta v.
          h_bind (h_set_range ext (gr_r_start (v_graphic v) + delta) (gr_r_end (v_graphic v) + delta))
            (\<lambda>_. h_bind redraw_all (\<lambda>_. h_return True)) v))))"
    by (intro keeps_bind keeps_simple keeps_new_range)
  show ?thesis
    unfolding button_release_def
    by (intro keeps_if keeps_moved [OF l] keeps_moved [OF r] keeps_moved [OF b] keeps_pair) simp_all
qed

lemma keeps_redraw_selection: "keeps P (redraw_selection y h)" "keeps P (set_cursor c r)"
  unfolding redraw_selection_def set_cursor_def by (intro keeps_rules)+

lemma keeps_pan:
  "keeps (range_inside s e) (\<lambda>v. h_bind (h_set_range ext (a v) (b v)) (\<lambda>_.
     h_bind (h_update (\<lambda>v. v\<lparr>v_redraw := True, v_top_start := Some x\<rparr>)) (\<lambda>_. h_bind (h_effect QueueDraw) (\<lambda>_. h_return True))) v)"
proof -
  have "keeps (range_inside s e) (h_bind (h_set_range ext p q) (\<lambda>_.
     h_bind (h_update (\<lambda>v. v\<lparr>v_redraw := True, v_top_start := Some x\<rparr>)) (\<lambda>_. h_bind (h_effect QueueDraw) (\<lambda>_. h_return True))))" for p q
    by (intro keeps_rules) simp
  then show ?thesis by (simp add: keeps_def)
qed

lemma keeps_motion: "keeps (range_inside s e) (motion_notify ext ex ey)"
  unfolding motion_notify_def selection_def Let_def
  by (intro keeps_bind keeps_simple keeps_split keeps_if keeps_update keeps_redraw_selection keeps_pan)
     (auto simp: keeps_def set_cursor_def h_bind_def h_effect_def h_update_def h_return_def split: prod.splits)

lemma handle_event_keeps: "keeps (range_inside s e) (handle_event ext ev)"
  by (cases ev) (auto simp: ignore_def intro!: keeps_bind keeps_simple keeps_press keeps_release keeps_motion keeps_layout
      keeps_expose keeps_zoom keeps_png)

interpretation view_range: transition_system "\<lambda>v. range_inside s e (v_graphic v)" "view_step ext" "\<lambda>v. range_inside s e (v_graphic v)"
proof unfold_locales
  show "range_inside s e (v_graphic u)" if "range_inside s e (v_graphic v)" "view_step ext v u" for v u
    using that keepsD [OF handle_event_keeps that(1)] by (auto simp: view_step.simps) (metis fst_conv)
qed

text \<open>
  C34: Whatever the user does, and also after an exception, the selected range does not begin before
  the lower bound of the picture that \<open>main\<close> computed and does not end after its upper bound.
\<close>
theorem view_range_inside:
  assumes "(view_step ext)\<^sup>*\<^sup>* (new_view (fst (set_range ext a b (new_graphic lo hi lg d)))) v"
  shows "val lo \<le> val (gr_r_start (v_graphic v)) \<and> val (gr_r_end (v_graphic v)) \<le> val hi"
proof -
  have "range_inside (to_float lo) (to_float hi) (v_graphic (new_view (fst (set_range ext a b (new_graphic lo hi lg d)))))"
    by (simp add: range_inside_def new_view_def) (simp add: new_graphic_def)
  from view_range.reach_inv [OF this assms] show ?thesis by (simp add: range_inside_def)
qed

section \<open>Order of the range\<close>

definition range_ordered :: "graphic \<Rightarrow> bool" where
  "range_ordered g \<longleftrightarrow> val (gr_start g) \<le> val (gr_r_start g) \<and> val (gr_r_start g) \<le> val (gr_r_end g)
     \<and> val (gr_r_end g) \<le> val (gr_end g)"

text \<open>A requested range that meets the bounds gives a range in order; one that misses them does not.\<close>

lemma set_range_ordered:
  assumes "val (gr_start g) \<le> val (gr_end g)" and "val (py_min a b) \<le> val (gr_end g)" and "val (gr_start g) \<le> val (py_max a b)"
  shows "range_ordered (fst (set_range ext a b g))"
  using assms by (simp add: range_ordered_def)

lemma set_range_disorder:
  assumes "val (py_max a b) < val (gr_start g)" and "val (gr_start g) \<le> val (gr_end g)"
  shows "val (gr_r_end (fst (set_range ext a b g))) < val (gr_r_start (fst (set_range ext a b g)))"
  using assms by auto

lemma set_range_one_kept:
  assumes "range_ordered g" and "c \<in> {gr_r_start g, gr_r_end g}"
  shows "range_ordered (fst (set_range ext a c g))" and "range_ordered (fst (set_range ext c a g))"
  using assms by (auto simp: range_ordered_def)

lemma h_bind_graphic:
  "v_graphic (fst (h_bind m (\<lambda>_. redraw_all) v)) = v_graphic (fst (m v))"
  "v_graphic (fst (h_bind m (\<lambda>_. h_bind redraw_all (\<lambda>_. h_return r)) v)) = v_graphic (fst (m v))"
  by (simp_all add: h_bind_def redraw_all_def h_update_def h_effect_def h_return_def split: prod.splits sum.splits)

lemma h_set_range_graphic: "v_graphic (fst (h_set_range ext a b v)) = fst (set_range ext a b (v_graphic v))"
  by (simp add: h_set_range_def case_prod_beta)

text \<open>
  The zoom buttons and dragging one end of the selection keep the range in order, start before
  end, inside the bounds, also when the handler raises.  (Panning does not; see below.)
\<close>
theorem zoom_and_drag_ordered:
  assumes "range_ordered (v_graphic v)"
  shows "range_ordered (v_graphic (fst (set_smaller_zoom ext v)))
    \<and> range_ordered (v_graphic (fst (set_bigger_zoom ext v)))
    \<and> (v_left v \<or> v_right v \<longrightarrow> range_ordered (v_graphic (fst (button_release ext v))))"
proof -
  note k = set_range_one_kept [OF assms]
  have z: "range_ordered (v_graphic (fst (set_smaller_zoom ext v)))" "range_ordered (v_graphic (fst (set_bigger_zoom ext v)))"
    by (simp_all add: set_smaller_zoom_def set_bigger_zoom_def Let_def h_bind_graphic h_set_range_graphic k)
  have l: "range_ordered (v_graphic (fst (button_release ext v)))" if "v_left v"
    using that assms k
    by (cases "v_left_cur v"; cases "scale_selection (v_graphic v) (the (v_left_cur v))")
       (simp_all add: button_release_def h_bind_def [of "h_get f" for f] h_get_def attr_def h_bind_graphic h_set_range_graphic)
  have r: "range_ordered (v_graphic (fst (button_release ext v)))" if "v_right v" "\<not> v_left v"
    using that assms k
    by (cases "v_right_cur v"; cases "scale_selection (v_graphic v) (the (v_right_cur v))")
       (simp_all add: button_release_def h_bind_def [of "h_get f" for f] h_get_def attr_def h_bind_graphic h_set_range_graphic)
  from z l r show ?thesis by blast
qed

section \<open>Dragging\<close>

text \<open>
  Pressing the button on a handle and releasing it without having moved the mouse before raises
  \<open>AttributeError\<close>: the position is only assigned by a motion.
\<close>
theorem click_on_handle_raises:
  assumes "get_selection_rectangle (v_graphic v) = Inr (x, y, width, height)" and "v_left_cur v = None"
    and "y < ey" and "ey < y + height" and "py_abs (ex - x) < PInt 5"
  shows "snd (button_press ex ey v) = Inr True
    \<and> snd (button_release ext (fst (button_press ex ey v))) = Inl AttributeError"
proof -
  have p: "button_press ex ey v = (v\<lparr>v_left := True\<rparr>, Inr True)"
    using assms by (simp add: button_press_def selection_def h_bind_def h_get_def Let_def case_prod_beta)
  show ?thesis unfolding p by (simp add: button_release_def h_bind_def h_get_def attr_def assms(2))
qed

text \<open>
  Dragging the left end of the selection to a place inside it and releasing it there makes the
  range start at the time of that place and leaves its end.
\<close>
theorem drag_left_end:
  assumes "get_selection_rectangle (v_graphic v) = Inr (x, y, width, height)"
    and "v_left v" and "v_width v = Some w" and "0 < val ex" and "val ex < val (x + width)"
    and "0 < val (gr_width (v_graphic v))" and "val (gr_start (v_graphic v)) = 0" and "gr_end (v_graphic v) = PFloat e"
    and "ex = PFloat p" and "p / val (gr_width (v_graphic v)) * e \<le> val (gr_r_end (v_graphic v))"
    and "range_ordered (v_graphic v)"
  shows "let v' = fst (button_release ext (fst (motion_notify ext ex ey v)))
         in val (gr_r_start (v_graphic v')) = p / val (gr_width (v_graphic v)) * e
            \<and> val (gr_r_end (v_graphic v')) = val (gr_r_end (v_graphic v)) \<and> \<not> v_left v'"
proof -
  let ?u = "v\<lparr>v_left_cur := Some ex, v_effects := v_effects v @ [QueueDrawArea 0 (to_int y) (to_int w) (to_int height)]\<rparr>"
  have c: "(if ex \<le> PInt 0 then PInt 0 else if x + width \<le> ex then x + width else ex) = ex"
    using assms(4,5) by (simp add: less_eq_pynum_def)
  have m: "fst (motion_notify ext ex ey v) = ?u"
    using assms(1-3) c
    by (simp add: motion_notify_def selection_def h_bind_def h_get_def h_update_def redraw_selection_def attr_def h_effect_def h_return_def)
  have s: "scale_selection (v_graphic v) ex = Inr (PFloat (p / val (gr_width (v_graphic v)) * e))"
    using assms(6-9) by (simp add: scale_selection_def)
  have e: "0 \<le> e" using assms(7,8,11) by (simp add: range_ordered_def)
  have "0 \<le> p / val (gr_width (v_graphic v)) * e" using assms(4,6,9) e by simp
  moreover have g: "v_graphic (fst (button_release ext ?u))
      = fst (set_range ext (PFloat (p / val (gr_width (v_graphic v)) * e)) (gr_r_end (v_graphic v)) (v_graphic v))"
    using assms(2) s
    by (simp add: button_release_def h_bind_def [of "h_get f" for f] h_get_def attr_def h_bind_graphic h_set_range_graphic)
  moreover have "\<not> v_left (fst (button_release ext ?u))"
    using assms(2) s
    by (simp add: button_release_def h_bind_def h_get_def attr_def h_set_range_def redraw_all_def h_update_def h_effect_def
        h_return_def split: prod.splits sum.splits)
  ultimately show ?thesis unfolding m Let_def using assms(7,8,10,11) by (simp add: range_ordered_def)
qed


section \<open>Examples\<close>

definition sample_graphic :: graphic where
  "sample_graphic = (new_graphic (PInt 0) (PInt 10) sample_legend sample_renderer)
     \<lparr>gr_width := PInt 100, gr_bot := new_scale\<lparr>sc_hi := PInt 10, sc_width := PInt 100, sc_height := PInt 20\<rparr>,
      gr_r_start := PFloat 2, gr_r_end := PFloat 6\<rparr>"

lemma sample_selection: "get_selection_rectangle sample_graphic = Inr (PFloat 20, PInt 70, PFloat 40, PInt 40)"
  by (simp add: get_selection_rectangle_def get_position_def sample_graphic_def new_graphic_def new_scale_def sample_legend_def
      set_legends_def new_legend_def sample_renderer_def)

lemma sample_graphic_ordered: "range_ordered sample_graphic"
  by (simp add: range_ordered_def sample_graphic_def new_graphic_def)

theorem zoom_and_drag_ordered_witness:
  "range_ordered (v_graphic (fst (set_smaller_zoom sample_extents (new_view sample_graphic))))"
  using zoom_and_drag_ordered [of "new_view sample_graphic" sample_extents] sample_graphic_ordered by (simp add: new_view_def)

theorem click_on_handle_raises_witness:
  "snd (button_release sample_extents (fst (button_press (PFloat 21) (PFloat 80) (new_view sample_graphic)))) = Inl AttributeError"
  using click_on_handle_raises [of "new_view sample_graphic" "PFloat 20" "PInt 70" "PFloat 40" "PInt 40" "PFloat 80" "PFloat 21" sample_extents]
    sample_selection
  by (simp add: new_view_def less_pynum_def)

lemma sample_graphic_fields:
  "gr_width sample_graphic = PInt 100" "gr_start sample_graphic = PFloat 0" "gr_end sample_graphic = PFloat 10"
  "gr_r_end sample_graphic = PFloat 6"
  by (simp_all add: sample_graphic_def new_graphic_def to_float_def)

theorem drag_left_end_witness:
  "let v = (new_view sample_graphic)\<lparr>v_left := True, v_width := Some (PInt 100)\<rparr>;
       v' = fst (button_release sample_extents (fst (motion_notify sample_extents (PFloat 50) (PFloat 80) v)))
   in val (gr_r_start (v_graphic v')) = 5 \<and> val (gr_r_end (v_graphic v')) = 6"
proof -
  let ?v = "(new_view sample_graphic)\<lparr>v_left := True, v_width := Some (PInt 100)\<rparr>"
  have g: "v_graphic ?v = sample_graphic" "v_left ?v" "v_width ?v = Some (PInt 100)" by (simp_all add: new_view_def)
  show ?thesis
    using drag_left_end [of ?v "PFloat 20" "PInt 70" "PFloat 40" "PInt 40" "PInt 100" "PFloat 50" 10 50 sample_extents "PFloat 80"]
    unfolding g Let_def by (simp add: sample_selection sample_graphic_ordered sample_graphic_fields)
qed

theorem view_range_inside_witness:
  "val (gr_r_end (v_graphic (fst (handle_event sample_extents ZoomOut
     (new_view (fst (set_range sample_extents (PInt 2) (PInt 30) (new_graphic (PInt 0) (PInt 10) sample_legend sample_renderer)))))))) \<le> 10"
proof -
  let ?v = "new_view (fst (set_range sample_extents (PInt 2) (PInt 30) (new_graphic (PInt 0) (PInt 10) sample_legend sample_renderer)))"
  have "view_step sample_extents ?v (fst (handle_event sample_extents ZoomOut ?v))"
    by (rule view_step.intros [where e = ZoomOut and r = "snd (handle_event sample_extents ZoomOut ?v)"]) simp
  then have "(view_step sample_extents)\<^sup>*\<^sup>* ?v (fst (handle_event sample_extents ZoomOut ?v))" by (rule r_into_rtranclp)
  from view_range_inside [OF this] show ?thesis by simp
qed

text \<open>Panning the data by more than what lies left of the window turns the range around.\<close>

lemma pan_turns_range:
  "let g = fst (set_range sample_extents (gr_r_start sample_graphic + PFloat (-7)) (gr_r_end sample_graphic + PFloat (-7)) sample_graphic)
   in val (gr_r_end g) < val (gr_r_start g)"
  by (simp add: Let_def) (simp add: sample_graphic_def new_graphic_def)

section \<open>The program\<close>

text \<open>
  \<open>main\<close> up to the main loop of GTK: read the trace, colour the legend, select a tenth of the time in
  the middle.  The bounds are integers, so the quotients are rounded down.
\<close>

definition grid_main :: "(string \<Rightarrow> extents) \<Rightarrow> string list \<Rightarrow> (view \<times> unit res) res" where
  "grid_main ext ls =
     (let (cs, ts) = read_data ls; (lower_bound, upper_bound) = timelines_bounds ts;
          range_values = get_all_range_values ts
      in res_bind (legend_colors range_values cs) (\<lambda>(range_colors, cs).
           let lg = set_legends range_values range_colors new_legend;
               data = \<lparr>td_padding = PInt 10, td_timelines = ts, td_colors = cs, td_start = PInt 0, td_end = PInt 0,
                       td_left_width = PInt 0, td_right_width = PInt 0, td_max_text_height = PInt 0, td_width = PInt 0,
                       td_height = PInt 0\<rparr>;
               range_mid = (upper_bound - lower_bound) div 2;
               range_width = (upper_bound - lower_bound) div 10;
               range_lo = range_mid - range_width div 2;
               range_hi = range_mid + range_width div 2;
               (g, r) = set_range ext (PInt range_lo) (PInt range_hi) (new_graphic (PInt lower_bound) (PInt upper_bound) lg data)
           in Inr (new_view g, r)))"

text \<open>Times read from a trace are not negative, so the picture starts at zero.\<close>

definition nonneg_ranges :: "timeline_range \<Rightarrow> bool" where
  "nonneg_ranges x \<longleftrightarrow> (\<forall>r \<in> set (tr_ranges x). 0 \<le> r_start r)"

definition nonneg_events :: "timeline_event \<Rightarrow> bool" where
  "nonneg_events y \<longleftrightarrow> (\<forall>e \<in> set (te_events y). 0 \<le> e_at e)"

definition nonneg_timeline :: "timeline \<Rightarrow> bool" where
  "nonneg_timeline t \<longleftrightarrow> (\<forall>x \<in> set (tl_ranges t). nonneg_ranges x)
     \<and> (\<forall>y \<in> set (tl_event_str t). nonneg_events y) \<and> (\<forall>y \<in> set (tl_event_int t). nonneg_events y)"

lemma get_or_add_all:
  assumes "\<forall>x \<in> set xs. P x" and "P new" and "\<And>x. P x \<Longrightarrow> P (f x)"
  shows "\<forall>x \<in> set (get_or_add nm new name f xs). P x"
  using assms by (induction xs) auto

fun nonneg_line :: "trace_line \<Rightarrow> bool" where
  "nonneg_line (RangeLine a b r) \<longleftrightarrow> 0 \<le> r_start r"
| "nonneg_line (EventStrLine a b e) \<longleftrightarrow> 0 \<le> e_at e"
| "nonneg_line (EventIntLine a b e) \<longleftrightarrow> 0 \<le> e_at e"
| "nonneg_line (ColorLine a c) \<longleftrightarrow> True"

lemma match_kind_nonneg:
  "match_range l = Some t \<Longrightarrow> nonneg_line t" "match_event_str l = Some t \<Longrightarrow> nonneg_line t"
  "match_event_int l = Some t \<Longrightarrow> nonneg_line t" "match_color l = Some t \<Longrightarrow> nonneg_line t"
  unfolding match_range_def match_event_str_def match_event_int_def match_color_def Option.bind_eq_Some_conv
  by (clarsimp simp: Option.bind_eq_Some_conv)+

lemma match_line_nonneg: "match_line l = Some t \<Longrightarrow> nonneg_line t"
  unfolding match_line_def by (auto split: option.splits dest: match_kind_nonneg)

lemma add_nonneg:
  "nonneg_ranges x \<Longrightarrow> 0 \<le> r_start r \<Longrightarrow> nonneg_ranges (add_range r x)" "nonneg_ranges (new_range b)"
  "nonneg_events y \<Longrightarrow> 0 \<le> e_at e \<Longrightarrow> nonneg_events (add_event e y)" "nonneg_events (new_event b)"
  by (auto simp: nonneg_ranges_def nonneg_events_def add_range_def add_event_def)

lemma get_nonneg:
  assumes "nonneg_timeline t"
  shows "0 \<le> r_start r \<Longrightarrow> nonneg_timeline (get_range b (add_range r) t)"
    and "0 \<le> e_at e \<Longrightarrow> nonneg_timeline (get_event_str b (add_event e) t)"
    and "0 \<le> e_at e \<Longrightarrow> nonneg_timeline (get_event_int b (add_event e) t)"
proof -
  note t = assms [unfolded nonneg_timeline_def]
  show "nonneg_timeline (get_range b (add_range r) t)" if "0 \<le> r_start r"
    using t get_or_add_all [of "tl_ranges t" nonneg_ranges "new_range b" "add_range r" tr_name b] that add_nonneg
    by (simp add: nonneg_timeline_def get_range_def)
  show "nonneg_timeline (get_event_str b (add_event e) t)" if "0 \<le> e_at e"
    using t get_or_add_all [of "tl_event_str t" nonneg_events "new_event b" "add_event e" te_name b] that add_nonneg
    by (simp add: nonneg_timeline_def get_event_str_def)
  show "nonneg_timeline (get_event_int b (add_event e) t)" if "0 \<le> e_at e"
    using t get_or_add_all [of "tl_event_int t" nonneg_events "new_event b" "add_event e" te_name b] that add_nonneg
    by (simp add: nonneg_timeline_def get_event_int_def)
qed

lemma read_line_nonneg:
  assumes "\<forall>t \<in> set (fst st). nonneg_timeline t" and "nonneg_line l"
  shows "\<forall>t \<in> set (fst (read_line st l)). nonneg_timeline t"
proof -
  obtain ts cs where st: "st = (ts, cs)" by (cases st)
  have n: "nonneg_timeline (new_timeline a)" for a by (simp add: nonneg_timeline_def)
  have g: "\<forall>t \<in> set (get_timeline a f ts). nonneg_timeline t" if "\<And>t. nonneg_timeline t \<Longrightarrow> nonneg_timeline (f t)" for a f
    unfolding get_timeline_def by (rule get_or_add_all) (use assms(1) st n that in simp_all)
  show ?thesis
  proof (cases l)
    case (RangeLine a b r)
    with assms(2) st g [of "get_range b (add_range r)" a] get_nonneg(1) show ?thesis by simp
  next
    case (EventStrLine a b ev)
    with assms(2) st g [of "get_event_str b (add_event ev)" a] get_nonneg(2) show ?thesis by simp
  next
    case (EventIntLine a b ev)
    with assms(2) st g [of "get_event_int b (add_event ev)" a] get_nonneg(3) show ?thesis by simp
  qed (use assms(1) st in simp)
qed

lemma read_lines_nonneg: "\<forall>t \<in> set (fst (read_lines ls)). nonneg_timeline t"
proof -
  have f: "\<forall>t \<in> set (fst (foldl read_line st ts)). nonneg_timeline t"
    if "\<forall>t \<in> set (fst st). nonneg_timeline t" "\<forall>l \<in> set ts. nonneg_line l" for st ts
    using that
  proof (induction ts arbitrary: st)
    case (Cons l ts)
    from Cons.prems have "\<forall>t \<in> set (fst (read_line st l)). nonneg_timeline t" by (intro read_line_nonneg) simp_all
    from Cons.IH [OF this] Cons.prems show ?case by simp
  qed simp
  have "\<forall>l \<in> set (trace_lines ls). nonneg_line l"
    by (auto simp: trace_lines_def map_filter_def dest: match_line_nonneg)
  then show ?thesis unfolding read_lines_fold by (intro f) simp_all
qed

lemma foldl_widen_zero:
  assumes "fst b = 0" and "0 \<le> snd b" and "\<forall>p \<in> set ps. 0 \<le> fst p"
  shows "fst (foldl widen b ps) = 0 \<and> 0 \<le> snd (foldl widen b ps)"
  using assms
proof (induction ps arbitrary: b)
  case (Cons p ps)
  have "fst (widen b p) = 0" "0 \<le> snd (widen b p)" using Cons.prems by (auto simp: widen_eq)
  from Cons.IH [OF this] Cons.prems show ?case by simp
qed simp

lemma part_bounds_nonneg:
  "nonneg_ranges x \<Longrightarrow> 0 \<le> fst (range_bounds x)" "nonneg_events y \<Longrightarrow> 0 \<le> fst (event_bounds y)"
  by (auto simp: range_bounds_def event_bounds_def nonneg_ranges_def nonneg_events_def)

lemma timelines_bounds_zero:
  assumes "\<forall>t \<in> set ts. nonneg_timeline t"
  shows "fst (timelines_bounds ts) = 0 \<and> 0 \<le> snd (timelines_bounds ts)"
proof -
  have "fst (timeline_bounds t) = 0" if "nonneg_timeline t" for t
  proof -
    have e: "timeline_bounds t = foldl widen (0, 0)
        (map range_bounds (tl_ranges t) @ map event_bounds (tl_event_str t @ tl_event_int t))"
      by (simp add: timeline_bounds_def Let_def)
    have "\<forall>p \<in> set (map range_bounds (tl_ranges t) @ map event_bounds (tl_event_str t @ tl_event_int t)). 0 \<le> fst p"
      using that by (auto simp: nonneg_timeline_def part_bounds_nonneg)
    from foldl_widen_zero [OF _ _ this, of "(0, 0)"] show ?thesis unfolding e by simp
  qed
  then have "\<forall>p \<in> set (map timeline_bounds ts). 0 \<le> fst p" using assms by simp
  from foldl_widen_zero [OF _ _ this, of "(0, 0)"] show ?thesis by (simp add: timelines_bounds_def)
qed

lemma sort_nonneg: "nonneg_timeline t \<Longrightarrow> nonneg_timeline (sort_timeline t)"
  by (simp add: nonneg_timeline_def nonneg_ranges_def nonneg_events_def sort_timeline_def sort_range_eq sort_event_eq)

lemma read_data_bounds_zero: "fst (timelines_bounds (snd (read_data ls))) = 0 \<and> 0 \<le> snd (timelines_bounds (snd (read_data ls)))"
  by (rule timelines_bounds_zero)
     (use read_lines_nonneg [of ls] in \<open>auto simp: read_data_def sort_timelines_def sort_nonneg split: prod.splits\<close>)

text \<open>Reading takes no colour from the defaults.\<close>

lemma read_line_default: "c_default (snd (read_line st l)) = c_default (snd st)"
  by (cases st; cases l) (simp_all add: add_color_def)

lemma read_data_default: "c_default (fst (read_data ls)) = default_colors"
proof -
  have "c_default (snd (foldl read_line st ts)) = c_default (snd st)" for st ts
    by (induction ts arbitrary: st) (simp_all add: read_line_default)
  then show ?thesis by (simp add: read_data_def case_prod_beta read_lines_fold)
qed

lemma legend_colors_error: "legend_colors ns cs = Inl e \<Longrightarrow> e = IndexError"
  by (induction ns arbitrary: cs e)
     (auto simp: res_bind_eq_Inl lookup_color_def Let_def split: if_splits prod.splits)

lemma range_values_distinct: "distinct (get_all_range_values ts)"
proof -
  have "distinct (map fst (foldl (\<lambda>d r. AList.update (r_value r) (1 :: int) d) d rs))" if "distinct (map fst d)"
    for d and rs :: "data_range list"
    using that by (induction rs arbitrary: d) (simp_all add: distinct_update)
  from this [of "[]"] show ?thesis by (simp add: get_all_range_values_def)
qed

text \<open>When the two scales can be laid out.\<close>

lemma scale_layout_cases:
  "scale_layout ext w sc = Inl ZeroDivisionError \<and> val (sc_hi sc) - val (sc_lo sc) = 1
   \<or> val (sc_hi sc) - val (sc_lo sc) \<noteq> 1 \<and> (\<exists>sc'. scale_layout ext w sc = Inr sc')"
  using scale_layout_ok [of sc ext w] by (auto split: if_splits)


lemma set_range_result:
  "snd (set_range ext a b g) =
    (if val (gr_r_end (fst (set_range ext a b g))) - val (gr_r_start (fst (set_range ext a b g))) = 1
        \<or> val (sc_hi (gr_bot g)) - val (sc_lo (gr_bot g)) = 1
     then Inl ZeroDivisionError else Inr ())"
proof -
  let ?s = "py_max (gr_start g) (py_min a b)" and ?e = "py_min (gr_end g) (py_max a b)"
  let ?g = "g\<lparr>gr_r_start := ?s, gr_r_end := ?e, gr_data := set_render_range ?s ?e (gr_data g), gr_mid := set_bounds ?s ?e (gr_mid g)\<rparr>"
  let ?w = "gr_width g - get_data_x_start (timelines_layout ext (gr_width g) (gr_data ?g))"
  have m: "sc_hi (set_bounds ?s ?e (gr_mid g)) = ?e" "sc_lo (set_bounds ?s ?e (gr_mid g)) = ?s" by (simp_all add: set_bounds_def)
  have r: "gr_r_end (fst (set_range ext a b g)) = ?e" "gr_r_start (fst (set_range ext a b g)) = ?s" by simp_all
  have e: "snd (set_range ext a b g) = (case scale_layout ext ?w (set_bounds ?s ?e (gr_mid g)) of Inl e \<Rightarrow> Inl e
      | Inr mid \<Rightarrow> (case scale_layout ext (gr_width g) (gr_bot g) of Inl e \<Rightarrow> Inl e | Inr lower \<Rightarrow> Inr ()))"
    by (simp add: set_range_def graphic_layout_def Let_def split: sum.splits)
  show ?thesis unfolding e r
    using scale_layout_cases [of ext ?w "set_bounds ?s ?e (gr_mid g)"] scale_layout_cases [of ext "gr_width g" "gr_bot g"]
    unfolding m by (elim disjE conjE exE) simp_all
qed

lemma tenth_in_middle:
  assumes "0 \<le> (hi :: int)"
  shows "0 \<le> hi div 10 div 2 \<and> hi div 10 div 2 \<le> hi div 2 \<and> hi div 2 + hi div 10 div 2 \<le> hi"
proof -
  define t m w where "t = hi div 10" and "m = hi div 2" and "w = t div 2"
  have "10 * t \<le> hi" "0 \<le> t" "2 * m \<le> hi" "hi \<le> 2 * m + 1" "2 * w \<le> t" "0 \<le> w"
    using assms by (simp_all add: t_def m_def w_def)
  then have "w \<le> m" "m + w \<le> hi" by linarith+
  with \<open>0 \<le> w\<close> show ?thesis by (simp add: t_def m_def w_def)
qed

lemma even_not_one: "rat_of_int (m + k) - rat_of_int (m - k) \<noteq> 1"
proof
  assume "rat_of_int (m + k) - rat_of_int (m - k) = 1"
  then have "rat_of_int (2 * k) = rat_of_int 1" by simp
  then have "2 * k = 1" by (simp only: of_int_eq_iff)
  then show False by presburger
qed

text \<open>The range that \<open>main\<close> selects at the start: the middle tenth of the picture.\<close>

lemma initial_range:
  fixes hi :: int
  assumes "0 \<le> hi"
  defines "m \<equiv> hi div 2" and "w \<equiv> hi div 10 div 2"
  assumes r: "r = set_range ext (PInt (m - w)) (PInt (m + w)) (new_graphic (PInt 0) (PInt hi) lg d)"
  shows "snd r = (if hi = 1 then Inl ZeroDivisionError else Inr ())"
    and "val (gr_start (fst r)) = 0" and "val (gr_end (fst r)) = of_int hi"
    and "val (gr_r_start (fst r)) = of_int (m - w)" and "val (gr_r_end (fst r)) = of_int (m + w)"
    and "range_ordered (fst r)"
proof -
  let ?g = "new_graphic (PInt 0) (PInt hi) lg d"
  have mw: "0 \<le> w" "w \<le> m" "m + w \<le> hi" using tenth_in_middle [OF assms(1)] by (simp_all add: m_def w_def)
  have e: "gr_start ?g = PFloat 0" "gr_end ?g = PFloat (of_int hi)" by (simp_all add: new_graphic_def to_float_def)
  have "(0 :: rat) \<le> of_int (m - w)" "(of_int (m + w) :: rat) \<le> of_int hi" "(of_int (m - w) :: rat) \<le> of_int (m + w)"
    using mw by (simp_all only: of_int_0_le_iff of_int_le_iff)
  then show s: "val (gr_r_start (fst r)) = of_int (m - w)" "val (gr_r_end (fst r)) = of_int (m + w)"
    unfolding r set_range_range e val_max val_min val.simps by (simp_all only: min_absorb1 max_absorb2 min_absorb2)
  show "snd r = (if hi = 1 then Inl ZeroDivisionError else Inr ())"
    unfolding r set_range_result s [unfolded r] using even_not_one [of m w]
    by (simp add: new_graphic_def set_bounds_def del: of_int_add of_int_diff)
  show b: "val (gr_start (fst r)) = 0" "val (gr_end (fst r)) = of_int hi"
    unfolding r set_range_range(3,4) e val.simps by (rule refl)+
  show "range_ordered (fst r)"
    unfolding range_ordered_def s b using mw by (simp only: of_int_0_le_iff of_int_le_iff) simp
qed

text \<open>
  C33: The viewer on any trace file.  It fails to colour the legend exactly when more than six values of
  ranges have no colour in the file, and then with \<open>IndexError\<close>.  Otherwise its picture reaches from zero
  to \<open>hi\<close>, the latest of the times of all events and of the ends of those ranges that start last on their
  line (a longer range that starts earlier does not count), and the selected range is the middle tenth of
  it, in order and inside.  The layout fails exactly when \<open>hi\<close> is one, with \<open>ZeroDivisionError\<close>.
\<close>
theorem grid_main_result:
  "let (cs, ts) = read_data ls; hi = last_time ts
   in if length (filter (\<lambda>n. \<not> has_key (c_colors cs) n) (get_all_range_values ts)) > 6
      then grid_main ext ls = Inl IndexError
      else \<exists>v. grid_main ext ls = Inr (v, if hi = 1 then Inl ZeroDivisionError else Inr ())
        \<and> val (gr_start (v_graphic v)) = 0 \<and> val (gr_end (v_graphic v)) = of_int hi
        \<and> val (gr_r_start (v_graphic v)) = of_int (hi div 2 - hi div 10 div 2)
        \<and> val (gr_r_end (v_graphic v)) = of_int (hi div 2 + hi div 10 div 2)
        \<and> range_ordered (v_graphic v)"
proof -
  obtain cs ts where rd: "read_data ls = (cs, ts)" by (cases "read_data ls")
  obtain lo hi where b: "timelines_bounds ts = (lo, hi)" by (cases "timelines_bounds ts")
  have lo: "lo = 0" "0 \<le> hi" using read_data_bounds_zero [of ls] rd b by simp_all
  have hi: "last_time ts = hi"
    using timelines_bounds_last [of "fst (read_lines ls)"] rd b by (simp add: read_data_def case_prod_beta)
  have d: "c_default cs = default_colors" using read_data_default [of ls] rd by simp
  let ?ns = "get_all_range_values ts"
  have ok: "(\<exists>r. legend_colors ?ns cs = Inr r) \<longleftrightarrow> length (filter (\<lambda>n. \<not> has_key (c_colors cs) n) ?ns) \<le> 6"
    using legend_colors_ok_iff [OF range_values_distinct, of ts cs] unfolding d
    by (simp add: default_colors_def eval_nat_numeral)
  show ?thesis
  proof (cases "legend_colors ?ns cs")
    case (Inl e)
    with ok legend_colors_error [OF Inl] show ?thesis by (simp add: rd grid_main_def b hi)
  next
    case (Inr p)
    obtain rc cs' where p: "p = (rc, cs')" by (cases p)
    let ?lg = "set_legends ?ns rc new_legend"
    let ?d = "\<lparr>td_padding = PInt 10, td_timelines = ts, td_colors = cs', td_start = PInt 0, td_end = PInt 0,
       td_left_width = PInt 0, td_right_width = PInt 0, td_max_text_height = PInt 0, td_width = PInt 0, td_height = PInt 0\<rparr>"
    let ?m = "hi div 2" and ?w = "hi div 10 div 2"
    let ?r = "set_range ext (PInt (?m - ?w)) (PInt (?m + ?w)) (new_graphic (PInt 0) (PInt hi) ?lg ?d)"
    have main: "grid_main ext ls = Inr (new_view (fst ?r), snd ?r)"
      using Inr p by (simp add: grid_main_def rd b lo case_prod_beta Let_def)
    note r = initial_range [OF lo(2) refl, of ext ?lg ?d]
    have v: "v_graphic (new_view (fst ?r)) = fst ?r" unfolding new_view_def by (rule view.select_convs)
    have "\<exists>v. grid_main ext ls = Inr (v, if hi = 1 then Inl ZeroDivisionError else Inr ())
        \<and> val (gr_start (v_graphic v)) = 0 \<and> val (gr_end (v_graphic v)) = of_int hi
        \<and> val (gr_r_start (v_graphic v)) = of_int (?m - ?w) \<and> val (gr_r_end (v_graphic v)) = of_int (?m + ?w)
        \<and> range_ordered (v_graphic v)"
      by (intro exI [of _ "new_view (fst ?r)"] conjI; simp only: v r main)
    moreover have "\<not> 6 < length (filter (\<lambda>n. \<not> has_key (c_colors cs) n) ?ns)" using ok Inr by force
    ultimately show ?thesis unfolding rd prod.case Let_def hi by (simp only: if_False)
  qed
qed

end
