(* ===== verification/Module_Templates.thy ===== *)
theory Module_Templates
  imports Py_Path
begin

text \<open>
  \<^verbatim>\<open>utils/create-module.py\<close>, first part: the templates of the files of a new module, and \<open>str.format\<close> on
  them.  A template is the list of its lines.  Of the format language the replacement fields with and
  without the conversion \<open>!r\<close> and the doubled braces are modelled; the templates use nothing else.
\<close>

section \<open>Formats\<close>

datatype segment = Lit char | Field string bool

text \<open>
  \<open>Field name repr\<close> is a replacement field.  The states of the parser: in the text, after an opening
  brace, in a name, after the mark of a conversion, after the conversion, after a closing brace.
\<close>

datatype fmt_state = InText | Opened | InName string | Bang string | Converted string | Closing

definition format_error :: py_error where
  "format_error = ValueError ''Single brace encountered in format string''"

definition emit :: "segment \<Rightarrow> (segment list) res \<Rightarrow> (segment list) res" where
  "emit x m = res_bind m (\<lambda>r. Inr (x # r))"

fun parse_format :: "fmt_state \<Rightarrow> string \<Rightarrow> (segment list) res" where
  "parse_format st [] = (if st = InText then Inr [] else Inl format_error)"
| "parse_format InText (c # s) =
     (if c = CHR ''{'' then parse_format Opened s
      else if c = CHR ''}'' then parse_format Closing s
      else emit (Lit c) (parse_format InText s))"
| "parse_format Closing (c # s) =
     (if c = CHR ''}'' then emit (Lit c) (parse_format InText s) else Inl format_error)"
| "parse_format Opened (c # s) =
     (if c = CHR ''{'' then emit (Lit c) (parse_format InText s)
      else if c = CHR ''}'' then emit (Field [] False) (parse_format InText s)
      else if c = CHR ''!'' then parse_format (Bang []) s
      else parse_format (InName [c]) s)"
| "parse_format (InName n) (c # s) =
     (if c = CHR ''}'' then emit (Field n False) (parse_format InText s)
      else if c = CHR ''!'' then parse_format (Bang n) s
      else parse_format (InName (n @ [c])) s)"
| "parse_format (Bang n) (c # s) = (if c = CHR ''r'' then parse_format (Converted n) s else Inl format_error)"
| "parse_format (Converted n) (c # s) =
     (if c = CHR ''}'' then emit (Field n True) (parse_format InText s) else Inl format_error)"

fun render :: "(string, string) dict \<Rightarrow> segment list \<Rightarrow> string res" where
  "render kwargs [] = Inr []"
| "render kwargs (Lit c # r) = res_bind (render kwargs r) (\<lambda>t. Inr (c # t))"
| "render kwargs (Field name conv # r) =
     res_bind (dict_get kwargs name) (\<lambda>v. res_bind (render kwargs r) (\<lambda>t. Inr ((if conv then py_repr v else v) @ t)))"

text \<open>\<open>template.format(**kwargs)\<close>.\<close>

definition py_format :: "string \<Rightarrow> (string, string) dict \<Rightarrow> string res" where
  "py_format template kwargs = res_bind (parse_format InText template) (render kwargs)"

section \<open>Templates\<close>

definition template :: "string list \<Rightarrow> string" where
  "template ls = concat (map (\<lambda>l. l @ [NL]) ls)"

definition WSCRIPT_TEMPLATE :: "string list" where
  \<open>WSCRIPT_TEMPLATE =
     [''# -*- Mode: python; py-indent-offset: 4; indent-tabs-mode: nil; coding: utf-8; -*-'',
      [],
      ''# def options(opt):'',
      ''#     pass'',
      [],
      ''# def configure(conf):'',
      ''#     conf.check_nonfatal(header_name='stdint.h', define_name='HAVE_STDINT_H')'',
      [],
      ''def build(bld):'',
      ''    module = bld.create_ns3_module({MODULE!r}, ['core'])'',
      ''    module.source = ['',
      ''        'model/{MODULE}.cc','',
      ''        'helper/{MODULE}-helper.cc','',
      ''        ]'',
      [],
      ''    module_test = bld.create_ns3_module_test_library('{MODULE}')'',
      ''    module_test.source = ['',
      ''        'test/{MODULE}-test-suite.cc','',
      ''        ]'',
      ''    # Tests encapsulating example programs should be listed here'',
      ''    if (bld.env['ENABLE_EXAMPLES']):'',
      ''        module_test.source.extend(['',
      ''        #    'test/{MODULE}-examples-test-suite.cc','',
      ''             ])'',
      [],
      ''    headers = bld(features='ns3header')'',
      ''    headers.module = {MODULE!r}'',
      ''    headers.source = ['',
      ''        'model/{MODULE}.h','',
      ''        'helper/{MODULE}-helper.h','',
      ''        ]'',
      [],
      ''    if bld.env.ENABLE_EXAMPLES:'',
      ''        bld.recurse('examples')'',
      [],
      ''    # bld.ns3_python_bindings()'',
      []]\<close>

definition MODEL_CC_TEMPLATE :: "string list" where
  \<open>MODEL_CC_TEMPLATE =
     [''/* -*- Mode:C++; c-file-style:"gnu"; indent-tabs-mode:nil; -*- */'',
      [],
      ''#include "{MODULE}.h"'',
      [],
      ''namespace ns3 {{'',
      [],
      ''/* ... */'',
      [],
      [],
      ''}}'',
      []]\<close>

definition MODEL_H_TEMPLATE :: "string list" where
  \<open>MODEL_H_TEMPLATE =
     [''/* -*- Mode:C++; c-file-style:"gnu"; indent-tabs-mode:nil; -*- */'',
      ''#ifndef {INCLUDE_GUARD}'',
      ''#define {INCLUDE_GUARD}'',
      [],
      ''namespace ns3 {{'',
      [],
      ''/* ... */'',
      [],
      ''}}'',
      [],
      ''#endif /* {INCLUDE_GUARD} */'',
      []]\<close>

definition HELPER_CC_TEMPLATE :: "string list" where
  \<open>HELPER_CC_TEMPLATE =
     [''/* -*- Mode:C++; c-file-style:"gnu"; indent-tabs-mode:nil; -*- */'',
      [],
      ''#include "{MODULE}-helper.h"'',
      [],
      ''namespace ns3 {{'',
      [],
      ''/* ... */'',
      [],
      [],
      ''}}'',
      []]\<close>

definition HELPER_H_TEMPLATE :: "string list" where
  \<open>HELPER_H_TEMPLATE =
     [''/* -*- Mode:C++; c-file-style:"gnu"; indent-tabs-mode:nil; -*- */'',
      ''#ifndef {INCLUDE_GUARD}'',
      ''#define {INCLUDE_GUARD}'',
      [],
      ''#include "ns3/{MODULE}.h"'',
      [],
      ''namespace ns3 {{'',
      [],
      ''/* ... */'',
      [],
      ''}}'',
      [],
      ''#endif /* {INCLUDE_GUARD} */'',
      []]\<close>

definition EXAMPLES_WSCRIPT_TEMPLATE :: "string list" where
  \<open>EXAMPLES_WSCRIPT_TEMPLATE =
     [''# -*- Mode: python; py-indent-offset: 4; indent-tabs-mode: nil; coding: utf-8; -*-'',
      [],
      ''def build(bld):'',
      ''    obj = bld.create_ns3_program('{MODULE}-example', [{MODULE!r}])'',
      ''    obj.source = '{MODULE}-example.cc'' @ [SQ],
      []]\<close>

definition EXAMPLE_CC_TEMPLATE :: "string list" where
  \<open>EXAMPLE_CC_TEMPLATE =
     [''/* -*- Mode:C++; c-file-style:"gnu"; indent-tabs-mode:nil; -*- */'',
      [],
      ''#include "ns3/core-module.h"'',
      ''#include "ns3/{MODULE}-helper.h"'',
      [],
      ''using namespace ns3;'',
      [],
      [],
      ''int '',
      ''main (int argc, char *argv[])'',
      ''{{'',
      ''  bool verbose = true;'',
      [],
      ''  CommandLine cmd (__FILE__);'',
      ''  cmd.AddValue ("verbose", "Tell application to log if true", verbose);'',
      [],
      ''  cmd.Parse (argc,argv);'',
      [],
      ''  /* ... */'',
      [],
      ''  Simulator::Run ();'',
      ''  Simulator::Destroy ();'',
      ''  return 0;'',
      ''}}'',
      [],
      []]\<close>

definition TEST_CC_TEMPLATE :: "string list" where
  \<open>TEST_CC_TEMPLATE =
     [''/* -*- Mode:C++; c-file-style:"gnu"; indent-tabs-mode:nil; -*- */'',
      [],
      ''// Include a header file from your module to test.'',
      ''#include "ns3/{MODULE}.h"'',
      [],
      ''// An essential include is test.h'',
      ''#include "ns3/test.h"'',
      [],
      ''// Do not put your test classes in namespace ns3.  You may find it useful'',
      ''// to use the using directive to access the ns3 namespace directly'',
      ''using namespace ns3;'',
      [],
      ''// This is an example TestCase.'',
      ''class {CAPITALIZED}TestCase1 : public TestCase'',
      ''{{'',
      ''public:'',
      ''  {CAPITALIZED}TestCase1 ();'',
      ''  virtual ~{CAPITALIZED}TestCase1 ();'',
      [],
      ''private:'',
      ''  virtual void DoRun (void);'',
      ''}};'',
      [],
      ''// Add some help text to this case to describe what it is intended to test'',
      ''{CAPITALIZED}TestCase1::{CAPITALIZED}TestCase1 ()'',
      ''  : TestCase ("{CAPITALIZED} test case (does nothing)")'',
      ''{{'',
      ''}}'',
      [],
      ''// This destructor does nothing but we include it as a reminder that'',
      ''// the test case should clean up after itself'',
      ''{CAPITALIZED}TestCase1::~{CAPITALIZED}TestCase1 ()'',
      ''{{'',
      ''}}'',
      [],
      ''//'',
      ''// This method is the pure virtual method from class TestCase that every'',
      ''// TestCase must implement'',
      ''//'',
      ''void'',
      ''{CAPITALIZED}TestCase1::DoRun (void)'',
      ''{{'',
      ''  // A wide variety of test macros are available in src/core/test.h'',
      ''  NS_TEST_ASSERT_MSG_EQ (true, true, "true doesn't equal true for some reason");'',
      ''  // Use this one for floating point comparisons'',
      ''  NS_TEST_ASSERT_MSG_EQ_TOL (0.01, 0.01, 0.001, "Numbers are not equal within tolerance");'',
      ''}}'',
      [],
      ''// The TestSuite class names the TestSuite, identifies what type of TestSuite,'',
      ''// and enables the TestCases to be run.  Typically, only the constructor for'',
      ''// this class must be defined'',
      ''//'',
      ''class {CAPITALIZED}TestSuite : public TestSuite'',
      ''{{'',
      ''public:'',
      ''  {CAPITALIZED}TestSuite ();'',
      ''}};'',
      [],
      ''{CAPITALIZED}TestSuite::{CAPITALIZED}TestSuite ()'',
      ''  : TestSuite ("{MODULE}", UNIT)'',
      ''{{'',
      ''  // TestDuration for TestCase can be QUICK, EXTENSIVE or TAKES_FOREVER'',
      ''  AddTestCase (new {CAPITALIZED}TestCase1, TestCase::QUICK);'',
      ''}}'',
      [],
      ''// Do not forget to allocate an instance of this TestSuite'',
      ''static {CAPITALIZED}TestSuite s{COMPOUND}TestSuite;'',
      []]\<close>

definition DOC_RST_TEMPLATE :: "string list" where
  \<open>DOC_RST_TEMPLATE =
     [''Example Module Documentation'',
      ''----------------------------'',
      [],
      ''.. include:: replace.txt'',
      ''.. highlight:: cpp'',
      [],
      ''.. heading hierarchy:'',
      ''   ------------- Chapter'',
      ''   ************* Section (#.#)'',
      ''   ============= Subsection (#.#.#)'',
      ''   ############# Paragraph (no number)'',
      [],
      ''This is a suggested outline for adding new module documentation to |ns3|.'',
      ''See ``src/click/doc/click.rst`` for an example.'',
      [],
      ''The introductory paragraph is for describing what this code is trying to'',
      ''model.'',
      [],
      ''For consistency (italicized formatting), please use |ns3| to refer to'',
      ''ns-3 in the documentation (and likewise, |ns2| for ns-2).  These macros'',
      ''are defined in the file ``replace.txt``.'',
      [],
      ''Model Description'',
      ''*****************'',
      [],
      ''The source code for the new module lives in the directory ``{MODULE_DIR}``.'',
      [],
      ''Add here a basic description of what is being modeled.'',
      [],
      ''Design'',
      ''======'',
      [],
      ''Briefly describe the software design of the model and how it fits into '',
      ''the existing ns-3 architecture. '',
      [],
      ''Scope and Limitations'',
      ''====================='',
      [],
      ''What can the model do?  What can it not do?  Please use this section to'',
      ''describe the scope and limitations of the model.'',
      [],
      ''References'',
      ''=========='',
      [],
      ''Add academic citations here, such as if you published a paper on this'',
      ''model, or if readers should read a particular specification or other work.'',
      [],
      ''Usage'',
      ''*****'',
      [],
      ''This section is principally concerned with the usage of your model, using'',
      ''the public API.  Focus first on most common usage patterns, then go'',
      ''into more advanced topics.'',
      [],
      ''Building New Module'',
      ''==================='',
      [],
      ''Include this subsection only if there are special build instructions or'',
      ''platform limitations.'',
      [],
      ''Helpers'',
      ''======='',
      [],
      ''What helper API will users typically use?  Describe it here.'',
      [],
      ''Attributes'',
      ''=========='',
      [],
      ''What classes hold attributes, and what are the key ones worth mentioning?'',
      [],
      ''Output'',
      ''======'',
      [],
      ''What kind of data does the model generate?  What are the key trace'',
      ''sources?   What kind of logging output can be enabled?'',
      [],
      ''Advanced Usage'',
      ''=============='',
      [],
      ''Go into further details (such as using the API outside of the helpers)'',
      ''in additional sections, as needed.'',
      [],
      ''Examples'',
      ''========'',
      [],
      ''What examples using this new code are available?  Describe them here.'',
      [],
      ''Troubleshooting'',
      ''==============='',
      [],
      ''Add any tips for avoiding pitfalls, etc.'',
      [],
      ''Validation'',
      ''**********'',
      [],
      ''Describe how the model has been tested/validated.  What tests run in the'',
      ''test suite?  How much API and code is covered by the tests?  Again, '',
      ''references to outside published work may help here.'']\<close>


section \<open>Fields\<close>

fun field_in :: "string list \<Rightarrow> segment \<Rightarrow> bool" where
  "field_in ks (Lit c) \<longleftrightarrow> True"
| "field_in ks (Field n r) \<longleftrightarrow> n \<in> set ks"

definition fields_in :: "string list \<Rightarrow> string \<Rightarrow> bool" where
  "fields_in ks t = (case parse_format InText t of Inl e \<Rightarrow> False | Inr segs \<Rightarrow> list_all (field_in ks) segs)"

text \<open>A text that is a format on its own is one in front of any other.\<close>

lemma emit_eq_Inr: "emit x m = Inr r \<longleftrightarrow> (\<exists>r'. m = Inr r' \<and> r = x # r')"
  by (auto simp: emit_def res_bind_eq_Inr)

lemma emit_bind: "emit x (res_bind m (\<lambda>r. Inr (a @ r))) = res_bind m (\<lambda>r. Inr ((x # a) @ r))"
  by (simp add: emit_def res_bind_assoc)

lemma parse_format_append:
  "parse_format st s = Inr r \<Longrightarrow> parse_format st (s @ t) = res_bind (parse_format InText t) (\<lambda>r'. Inr (r @ r'))"
proof (induction st s arbitrary: r rule: parse_format.induct)
  case (1 st)
  then show ?case by (cases "parse_format InText t") (auto split: if_splits)
qed (auto simp: emit_eq_Inr emit_bind split: if_splits)

lemma fields_in_append: "fields_in ks s \<Longrightarrow> fields_in ks t \<Longrightarrow> fields_in ks (s @ t)"
  by (auto simp: fields_in_def parse_format_append split: sum.splits)

lemma fields_in_line: "fields_in ks s \<Longrightarrow> fields_in ks (s @ [NL])"
  by (rule fields_in_append) (simp_all add: fields_in_def emit_def)

lemma fields_in_template: "list_all (fields_in ks) ls \<Longrightarrow> fields_in ks (template ls)"
proof (induction ls)
  case Nil
  show ?case by (simp add: template_def fields_in_def)
next
  case (Cons l ls)
  then have "fields_in ks ((l @ [NL]) @ template ls)" by (intro fields_in_append fields_in_line) simp_all
  then show ?case by (simp add: template_def)
qed

lemma render_total:
  "list_all (field_in (map fst kwargs)) segs \<Longrightarrow> \<exists>t. render kwargs segs = Inr t"
proof (induction segs)
  case (Cons x segs)
  then obtain t where t: "render kwargs segs = Inr t" by auto
  show ?case
  proof (cases x)
    case (Field n c)
    with Cons.prems have "map_of kwargs n \<noteq> None" by (auto simp: map_of_eq_None_iff)
    then obtain v where "dict_get kwargs n = Inr v" by (auto simp: dict_get_def)
    with t Field show ?thesis by simp
  qed (use t in simp)
qed simp

lemma py_format_total: "fields_in (map fst kwargs) t \<Longrightarrow> \<exists>r. py_format t kwargs = Inr r"
  by (auto simp: py_format_def fields_in_def render_total split: sum.splits)

text \<open>Each template needs only the fields that the program gives it.\<close>

lemma wscript_fields: "fields_in [''MODULE''] (template WSCRIPT_TEMPLATE)"
  by (rule fields_in_template) code_simp

lemma model_cc_fields: "fields_in [''MODULE''] (template MODEL_CC_TEMPLATE)"
  by (rule fields_in_template) code_simp

lemma model_h_fields: "fields_in [''MODULE'', ''INCLUDE_GUARD''] (template MODEL_H_TEMPLATE)"
  by (rule fields_in_template) code_simp

lemma helper_cc_fields: "fields_in [''MODULE''] (template HELPER_CC_TEMPLATE)"
  by (rule fields_in_template) code_simp

lemma helper_h_fields: "fields_in [''MODULE'', ''INCLUDE_GUARD''] (template HELPER_H_TEMPLATE)"
  by (rule fields_in_template) code_simp

lemma examples_wscript_fields: "fields_in [''MODULE''] (template EXAMPLES_WSCRIPT_TEMPLATE)"
  by (rule fields_in_template) code_simp

lemma example_cc_fields: "fields_in [''MODULE''] (template EXAMPLE_CC_TEMPLATE)"
  by (rule fields_in_template) code_simp

lemma test_cc_fields: "fields_in [''MODULE'', ''CAPITALIZED'', ''COMPOUND''] (template TEST_CC_TEMPLATE)"
  by (rule fields_in_template) code_simp

lemma doc_rst_fields: "fields_in [''MODULE'', ''MODULE_DIR''] (template DOC_RST_TEMPLATE)"
  by (rule fields_in_template) code_simp

lemmas template_fields = wscript_fields model_cc_fields model_h_fields helper_cc_fields helper_h_fields examples_wscript_fields example_cc_fields test_cc_fields doc_rst_fields

end
