(* ===== verification/Create_Module.thy ===== *)
theory Create_Module
  imports Module_Templates
begin

text \<open>
  \<^verbatim>\<open>utils/create-module.py\<close>, second part: checking the names of new modules and creating their files.  The
  file system is a map from absolute paths, as lists of components, to directories and files.  Every call
  of the operating system that changes it may fail: the world says for each call, by its number,
  whether it does.  A directory tree that cannot be removed is left as it is.
\<close>

section \<open>The world\<close>

type_synonym path = "string list"

datatype fs_entry = Dir | File string

text \<open>What is printed: on the output, on the error output, and on the latter with the text of an exception.\<close>

datatype message = Out string | Err string | ErrException string py_error string

record fs_state =
  fs_map :: "path \<Rightarrow> fs_entry option"
  fs_calls :: nat
  fs_fails :: "nat \<Rightarrow> bool"
  fs_messages :: "message list"
  fs_cwd :: path

type_synonym 'a io = "fs_state \<Rightarrow> fs_state \<times> 'a res"

definition io_return :: "'a \<Rightarrow> 'a io" where
  "io_return x w = (w, Inr x)"

definition io_bind :: "'a io \<Rightarrow> ('a \<Rightarrow> 'b io) \<Rightarrow> 'b io" where
  "io_bind m f w = (case m w of (w', Inl e) \<Rightarrow> (w', Inl e) | (w', Inr x) \<Rightarrow> f x w')"

definition io_raise :: "py_error \<Rightarrow> 'a io" where
  "io_raise e w = (w, Inl e)"

definition io_lift :: "'a res \<Rightarrow> 'a io" where
  "io_lift r w = (w, r)"

text \<open>A call that changes the file system, unless it fails.\<close>

definition sys_call :: "(fs_state \<Rightarrow> (path \<Rightarrow> fs_entry option) option) \<Rightarrow> unit io" where
  "sys_call f w =
     (let w' = w\<lparr>fs_calls := fs_calls w + 1\<rparr>
      in if fs_fails w (fs_calls w) then (w', Inl OSError)
         else (case f w of None \<Rightarrow> (w', Inl OSError) | Some fs \<Rightarrow> (w'\<lparr>fs_map := fs\<rparr>, Inr ())))"

definition path_exists :: "path \<Rightarrow> fs_state \<Rightarrow> bool" where
  "path_exists p w \<longleftrightarrow> fs_map w p \<noteq> None"

definition is_dir :: "path \<Rightarrow> fs_state \<Rightarrow> bool" where
  "is_dir p w \<longleftrightarrow> fs_map w p = Some Dir"

definition mkdir :: "path \<Rightarrow> unit io" where
  "mkdir p = sys_call (\<lambda>w. if fs_map w p = None \<and> is_dir (butlast p) w then Some ((fs_map w)(p \<mapsto> Dir)) else None)"

text \<open>\<open>p.mkdir(parents=True)\<close>: the missing directories above it are created first, from the top.\<close>

fun mkdirs :: "path list \<Rightarrow> unit io" where
  "mkdirs [] w = (w, Inr ())"
| "mkdirs (p # ps) w = (if is_dir p w then mkdirs ps w else io_bind (mkdir p) (\<lambda>_. mkdirs ps) w)"

definition mkdir_parents :: "path \<Rightarrow> unit io" where
  "mkdir_parents p = io_bind (mkdirs (map (\<lambda>n. take n p) [0..<length p])) (\<lambda>_. mkdir p)"

text \<open>Opening a file for writing makes it empty.\<close>

definition open_wt :: "path \<Rightarrow> unit io" where
  "open_wt p = sys_call (\<lambda>w. if fs_map w p \<noteq> Some Dir \<and> is_dir (butlast p) w then Some ((fs_map w)(p \<mapsto> File [])) else None)"

definition write_text :: "path \<Rightarrow> string \<Rightarrow> unit io" where
  "write_text p s = sys_call (\<lambda>w. case fs_map w p of Some (File _) \<Rightarrow> Some ((fs_map w)(p \<mapsto> File s)) | _ \<Rightarrow> None)"

definition rmtree :: "path \<Rightarrow> unit io" where
  "rmtree p = sys_call (\<lambda>w. Some (\<lambda>q. if prefix p q then None else fs_map w q))"

definition print_message :: "message \<Rightarrow> unit io" where
  "print_message m w = (w\<lparr>fs_messages := fs_messages w @ [m]\<rparr>, Inr ())"

section \<open>Files of a module\<close>

definition create_file :: "path \<Rightarrow> string list \<Rightarrow> (string, string) dict \<Rightarrow> unit io" where
  "create_file p t kwargs =
     io_bind (open_wt p) (\<lambda>_.
     io_bind (io_lift (py_format (template t) kwargs)) (\<lambda>s. write_text p s))"

text \<open>\<open>path.with_suffix(suffix)\<close>: an extension that is there already is replaced.\<close>

definition with_suffix :: "string \<Rightarrow> string \<Rightarrow> string" where
  "with_suffix name suff =
     (let ext = takeWhile (\<lambda>c. c \<noteq> CHR ''.'') (rev name); stem = drop (length ext + 1) (rev name)
      in if CHR ''.'' \<in> set name \<and> ext \<noteq> [] \<and> stem \<noteq> [] then rev stem @ suff else name @ suff)"

definition upper_char :: "char \<Rightarrow> char" where
  "upper_char c = (if 97 \<le> (of_char c :: nat) \<and> (of_char c :: nat) \<le> 122 then char_of ((of_char c :: nat) - 32) else c)"

definition lower_char :: "char \<Rightarrow> char" where
  "lower_char c = (if 65 \<le> (of_char c :: nat) \<and> (of_char c :: nat) \<le> 90 then char_of ((of_char c :: nat) + 32) else c)"

definition capitalize :: "string \<Rightarrow> string" where
  "capitalize s = (case s of [] \<Rightarrow> [] | c # t \<Rightarrow> upper_char c # map lower_char t)"

definition include_guard :: "string \<Rightarrow> string \<Rightarrow> string" where
  "include_guard modname rest = map upper_char (map (\<lambda>c. if c = CHR ''-'' then CHR ''_'' else c) modname) @ rest"

definition make_wscript :: "path \<Rightarrow> string \<Rightarrow> bool io" where
  "make_wscript moduledir modname =
     io_bind (create_file (moduledir @ [''wscript'']) WSCRIPT_TEMPLATE [(''MODULE'', modname)]) (\<lambda>_. io_return True)"

definition make_model :: "path \<Rightarrow> string \<Rightarrow> bool io" where
  "make_model moduledir modname =
     (let modelpath = moduledir @ [''model'']
      in io_bind (mkdir_parents modelpath) (\<lambda>_.
         io_bind (create_file (modelpath @ [with_suffix modname ''.cc'']) MODEL_CC_TEMPLATE [(''MODULE'', modname)]) (\<lambda>_.
         io_bind (create_file (modelpath @ [with_suffix modname ''.h'']) MODEL_H_TEMPLATE
                    [(''MODULE'', modname), (''INCLUDE_GUARD'', include_guard modname ''_H'')]) (\<lambda>_. io_return True))))"

definition compound :: "string list \<Rightarrow> string" where
  "compound parts = concat (map (\<lambda>(i, p). if i > 0 then capitalize p else p) (enumerate 0 parts))"

definition make_test :: "path \<Rightarrow> string \<Rightarrow> bool io" where
  "make_test moduledir modname =
     (let testpath = moduledir @ [''test'']; name_parts = py_split (CHR ''-'') modname
      in io_bind (mkdir_parents testpath) (\<lambda>_.
         io_bind (create_file (testpath @ [with_suffix (modname @ ''-test-suite'') ''.cc'']) TEST_CC_TEMPLATE
                    [(''MODULE'', modname), (''CAPITALIZED'', concat (map capitalize name_parts)), (''COMPOUND'', compound name_parts)])
           (\<lambda>_. io_return True)))"

definition make_helper :: "path \<Rightarrow> string \<Rightarrow> bool io" where
  "make_helper moduledir modname =
     (let helperpath = moduledir @ [''helper'']
      in io_bind (mkdir_parents helperpath) (\<lambda>_.
         io_bind (create_file (helperpath @ [with_suffix (modname @ ''-helper'') ''.cc'']) HELPER_CC_TEMPLATE [(''MODULE'', modname)]) (\<lambda>_.
         io_bind (create_file (helperpath @ [with_suffix (modname @ ''-helper'') ''.h'']) HELPER_H_TEMPLATE
                    [(''MODULE'', modname), (''INCLUDE_GUARD'', include_guard modname ''_HELPER_H'')]) (\<lambda>_. io_return True))))"

definition make_examples :: "path \<Rightarrow> string \<Rightarrow> bool io" where
  "make_examples moduledir modname =
     (let examplespath = moduledir @ [''examples'']
      in io_bind (mkdir_parents examplespath) (\<lambda>_.
         io_bind (create_file (examplespath @ [''wscript'']) EXAMPLES_WSCRIPT_TEMPLATE [(''MODULE'', modname)]) (\<lambda>_.
         io_bind (create_file (examplespath @ [with_suffix (modname @ ''-example'') ''.cc'']) EXAMPLE_CC_TEMPLATE [(''MODULE'', modname)])
           (\<lambda>_. io_return True))))"

definition path_text :: "path \<Rightarrow> string" where
  "path_text p = SLASH # py_join ''/'' p"

definition relative_path :: "fs_state \<Rightarrow> path \<Rightarrow> string" where
  "relative_path w p = path_relpath (path_text (fs_cwd w)) (path_text p) (path_text (fs_cwd w))"

definition make_doc :: "path \<Rightarrow> string \<Rightarrow> bool io" where
  "make_doc moduledir modname w =
     (let docpath = moduledir @ [''doc'']
      in io_bind (mkdir_parents docpath) (\<lambda>_.
         io_bind (create_file (docpath @ [modname @ ''.rst'']) DOC_RST_TEMPLATE
                    [(''MODULE'', modname), (''MODULE_DIR'', relative_path w moduledir)]) (\<lambda>_. io_return True)) w)"

section \<open>A module\<close>

definition make_functions :: "(path \<Rightarrow> string \<Rightarrow> bool io) list" where
  "make_functions = [make_wscript, make_model, make_test, make_helper, make_examples, make_doc]"

text \<open>\<open>all(func(modulepath, modname) for func in functions)\<close>.\<close>

fun all_succeed :: "(bool io) list \<Rightarrow> bool io" where
  "all_succeed [] = io_return True"
| "all_succeed (f # fs) = io_bind f (\<lambda>b. if b then all_succeed fs else io_return False)"

definition generate :: "path \<Rightarrow> string \<Rightarrow> unit io" where
  "generate modulepath modname =
     io_bind (mkdir_parents modulepath) (\<lambda>_.
     io_bind (all_succeed (map (\<lambda>f. f modulepath modname) make_functions)) (\<lambda>success.
       if success then io_return () else io_raise (ValueError ''Generating module artifacts failed'')))"

text \<open>The handler of the exception.\<close>

definition give_up :: "path \<Rightarrow> string \<Rightarrow> py_error \<Rightarrow> bool io" where
  "give_up modulepath modname e w =
     io_bind (if path_exists modulepath w then rmtree modulepath else io_return ()) (\<lambda>_.
     io_bind (print_message (ErrException (''Creating module '' @ py_repr modname @ '' failed: '') e [])) (\<lambda>_. io_return False)) w"

definition make_module :: "path \<Rightarrow> string \<Rightarrow> bool io" where
  "make_module modpath modname w =
     (let modulepath = modpath @ [modname]
      in if path_exists modulepath w
         then io_bind (print_message (Err (''Module '' @ py_repr modname @ '' already exists''))) (\<lambda>_. io_return False) w
         else io_bind (print_message (Out (''Creating module '' @ path_text modulepath))) (\<lambda>_ w.
                case generate modulepath modname w of
                  (w', Inl e) \<Rightarrow> give_up modulepath modname e w'
                | (w', Inr _) \<Rightarrow> (w', Inr True)) w)"

section \<open>The program\<close>

definition module_char :: "char \<Rightarrow> bool" where
  "module_char c \<longleftrightarrow> c = CHR ''_'' \<or> c \<in> set ''abcdefghijklmnopqrstuvwxyzABCDEFGHIJKLMNOPQRSTUVWXYZ0123456789''"

text \<open>The pattern ends with a dollar sign, which also matches before a final line end.\<close>

definition allowed :: "string \<Rightarrow> bool" where
  "allowed s = (let t = (if s \<noteq> [] \<and> last s = NL then butlast s else s)
                in t \<noteq> [] \<and> list_all (\<lambda>c. module_char c \<or> c = CHR ''-'') t)"

text \<open>\<open>Path(s).parts\<close> of a relative path.\<close>

definition path_parts :: "string \<Rightarrow> string list" where
  "path_parts s = filter (\<lambda>c. c \<noteq> [] \<and> c \<noteq> ''.'') (py_split SLASH s)"

definition strip_slashes :: "string \<Rightarrow> string" where
  "strip_slashes s = rev (dropWhile (\<lambda>c. c = SLASH) (rev (dropWhile (\<lambda>c. c = SLASH) s)))"

text \<open>\<open>parser.error\<close> prints its message and exits with status 2.\<close>

definition parser_error :: "string \<Rightarrow> 'a io" where
  "parser_error m = io_bind (print_message (Err m)) (\<lambda>_. io_raise (SystemExit 2))"

definition missing_directory :: "path \<Rightarrow> string" where
  "missing_directory p = ''Cannot find the directory '' @ [SQ] @ path_text p @ [SQ] @ ''.'' @ [NL]
     @ ''Please run this script from the top level of the ns3 directory''"

fun check_directories :: "path list \<Rightarrow> unit io" where
  "check_directories [] w = (w, Inr ())"
| "check_directories (p # ps) w = (if is_dir p w then check_directories ps w else parser_error (missing_directory p) w)"

text \<open>A path with exactly two leading slashes has a root of its own.\<close>

definition project_parts :: "string \<Rightarrow> (string list) io" where
  "project_parts project =
     (if prefix ''//'' project \<and> \<not> prefix ''///'' project then io_raise (ValueError ''path is not in the subpath of /'')
      else if list_all allowed (path_parts project) then io_return (path_parts project)
      else parser_error ''Project path may only contain the characters [a-zA-Z0-9_-].'')"

text \<open>One name: \<open>None\<close> when it is skipped, else the directory of the module and its name.\<close>

definition choose_module :: "path \<Rightarrow> bool \<Rightarrow> path option \<Rightarrow> string \<Rightarrow> ((path \<times> string) option) io" where
  "choose_module base project project_path name =
     (let name = strip_slashes name; parts = path_parts name
      in if name = [] then io_return None
         else if length parts > 2
         then io_bind (print_message (Out (''Skipping '' @ name @ '': module name can not be a path''))) (\<lambda>_. io_return None)
         else io_bind (io_lift (py_index parts 0)) (\<lambda>first.
              io_bind (if first = ''src''
                       then if project
                            then parser_error (name @ '': Cannot specify src/ in a module name when --project option is used'')
                            else io_return (base @ [''src''], tl parts)
                       else if first = ''contrib'' then io_return (base @ [''contrib''], tl parts)
                       else io_return (base @ [''contrib''], parts)) (\<lambda>(modpath, parts).
                let modpath = (case project_path of Some p \<Rightarrow> base @ [''contrib''] @ p | None \<Rightarrow> modpath)
                in io_bind (io_lift (py_index parts 0)) (\<lambda>modname.
                   if \<not> allowed modname
                   then io_bind (print_message (Out (''Skipping '' @ modname
                          @ '': module name may only contain the characters [a-zA-Z0-9_-]''))) (\<lambda>_. io_return None)
                   else io_return (Some (modpath, modname))))))"

fun choose_modules :: "path \<Rightarrow> bool \<Rightarrow> path option \<Rightarrow> string list \<Rightarrow> ((path \<times> string) list) io" where
  "choose_modules base project project_path [] = io_return []"
| "choose_modules base project project_path (n # ns) =
     io_bind (choose_module base project project_path n) (\<lambda>m.
     io_bind (choose_modules base project project_path ns) (\<lambda>ms.
       io_return (case m of None \<Rightarrow> ms | Some x \<Rightarrow> x # ms)))"

definition report_modules :: "bool \<Rightarrow> unit io" where
  "report_modules b =
     (if b then io_bind (print_message (Out [])) (\<lambda>_.
                io_bind (print_message (Out ''Successfully created new modules'')) (\<lambda>_.
                print_message (Out ''Run './waf configure' to include them in the build'')))
      else io_return ())"

definition create_main :: "string \<Rightarrow> string list \<Rightarrow> int io" where
  "create_main project modnames w =
     (let base_path = fs_cwd w
      in io_bind (check_directories [base_path @ [''src''], base_path @ [''contrib'']]) (\<lambda>_.
         io_bind (if project \<noteq> [] then io_bind (project_parts project) (\<lambda>p. io_return (Some p)) else io_return None) (\<lambda>project_path.
         io_bind (choose_modules base_path (project \<noteq> []) project_path modnames) (\<lambda>modules.
         io_bind (all_succeed (map (\<lambda>(p, n). make_module p n) modules)) (\<lambda>b.
         io_bind (report_modules b) (\<lambda>_. io_return 0))))) w)"

text \<open>The last lines of the file: an exception is reported and gives the status 1; \<open>sys.exit\<close> passes.\<close>

definition create_status :: "string \<Rightarrow> string list \<Rightarrow> fs_state \<Rightarrow> fs_state \<times> int" where
  "create_status project modnames w = (case create_main project modnames w of
     (w', Inr n) \<Rightarrow> (w', n)
   | (w', Inl (SystemExit n)) \<Rightarrow> (w', n)
   | (w', Inl e) \<Rightarrow> (w'\<lparr>fs_messages := fs_messages w' @ [ErrException (''Exception: '' @ [SQ]) e [SQ]]\<rparr>, 1))"

section \<open>What creating files can change\<close>

definition fs_wf :: "fs_state \<Rightarrow> bool" where
  "fs_wf w \<longleftrightarrow> (\<forall>p. fs_map w p \<noteq> None \<and> p \<noteq> [] \<longrightarrow> fs_map w (butlast p) = Some Dir)"

text \<open>Below \<open>m\<close> everything may change; above it directories may appear; the rest stays.\<close>

definition grows :: "path \<Rightarrow> fs_state \<Rightarrow> fs_state \<Rightarrow> bool" where
  "grows m w w' \<longleftrightarrow> (\<forall>q. fs_map w' q = fs_map w q \<or> prefix m q
     \<or> (strict_prefix q m \<and> fs_map w q = None \<and> fs_map w' q = Some Dir))"

definition safe_io :: "path \<Rightarrow> 'a io \<Rightarrow> bool" where
  "safe_io m f \<longleftrightarrow> (\<forall>w. grows m w (fst (f w)) \<and> (fs_wf w \<longrightarrow> fs_wf (fst (f w))))"

lemma grows_refl [simp]: "grows m w w"
  by (simp add: grows_def)

lemma grows_trans: "grows m w w' \<Longrightarrow> grows m w' w'' \<Longrightarrow> grows m w w''"
  unfolding grows_def by (metis option.distinct(1))

lemma safe_return: "safe_io m (io_return x)" and safe_raise: "safe_io m (io_raise e)" and safe_lift: "safe_io m (io_lift r)"
  by (simp_all add: safe_io_def io_return_def io_raise_def io_lift_def)

lemma safe_bind:
  assumes "safe_io m f" and "\<And>x. safe_io m (g x)"
  shows "safe_io m (io_bind f g)"
  unfolding safe_io_def
proof (intro allI)
  fix w
  show "grows m w (fst (io_bind f g w)) \<and> (fs_wf w \<longrightarrow> fs_wf (fst (io_bind f g w)))"
    using assms grows_trans [of m w "fst (f w)"]
    by (auto simp: safe_io_def io_bind_def split: prod.splits sum.splits)
qed

lemma fs_wf_update:
  assumes "fs_wf w" and "is_dir (butlast p) w" and "fs_map w p \<noteq> Some Dir"
  shows "fs_wf (w\<lparr>fs_calls := n, fs_map := (fs_map w)(p \<mapsto> e)\<rparr>)"
proof -
  have "fs_map w q = None" if "q \<noteq> []" "butlast q = p" for q
    using assms(1,3) that by (auto simp: fs_wf_def)
  then show ?thesis using assms(1,2) by (auto simp: fs_wf_def is_dir_def)
qed

lemma fs_wf_calls [simp]: "fs_wf (w\<lparr>fs_calls := n\<rparr>) = fs_wf w" "grows m w (w\<lparr>fs_calls := n\<rparr>)"
  by (simp_all add: fs_wf_def grows_def)

lemma safe_mkdir:
  assumes "prefix m p \<or> strict_prefix p m"
  shows "safe_io m (mkdir p)"
  using assms fs_wf_update
  by (auto simp: safe_io_def mkdir_def sys_call_def Let_def split: option.splits if_splits) (auto simp: grows_def)

lemma safe_mkdirs: "\<forall>p \<in> set ps. prefix m p \<or> strict_prefix p m \<Longrightarrow> safe_io m (mkdirs ps)"
proof (induction ps)
  case (Cons p ps)
  then have "safe_io m (io_bind (mkdir p) (\<lambda>_. mkdirs ps))" "safe_io m (mkdirs ps)" by (auto intro: safe_bind safe_mkdir)
  then show ?case by (auto simp: safe_io_def)
qed (simp add: safe_io_def)

lemma safe_mkdir_parents: "safe_io m (mkdir_parents (m @ r))"
proof -
  have p: "prefix m (take n (m @ r)) \<or> strict_prefix (take n (m @ r)) m" for n
    by (cases "n \<le> length m") (auto simp: strict_prefix_def take_is_prefix)
  show ?thesis unfolding mkdir_parents_def
    by (intro safe_bind safe_mkdirs safe_mkdir ballI) (use p in \<open>auto simp del: take_append\<close>)
qed

lemma fs_wf_rewrite:
  assumes "fs_wf w" and "fs_map w p = Some (File x)"
  shows "fs_wf (w\<lparr>fs_calls := n, fs_map := (fs_map w)(p \<mapsto> File s)\<rparr>)"
proof -
  have "butlast q \<noteq> p" if "fs_map w q \<noteq> None" "q \<noteq> []" for q using assms that by (auto simp: fs_wf_def)
  then show ?thesis using assms by (auto simp: fs_wf_def)
qed

lemma safe_open: "prefix m p \<Longrightarrow> safe_io m (open_wt p)"
  using fs_wf_update
  by (auto simp: safe_io_def open_wt_def sys_call_def Let_def split: option.splits if_splits) (auto simp: grows_def)

lemma safe_write: "prefix m p \<Longrightarrow> safe_io m (write_text p s)"
  using fs_wf_rewrite
  by (auto simp: safe_io_def write_text_def sys_call_def Let_def split: option.splits if_splits fs_entry.splits) (auto simp: grows_def)

lemma safe_create_file: "prefix m p \<Longrightarrow> safe_io m (create_file p t kwargs)"
  unfolding create_file_def by (intro safe_bind safe_open safe_write safe_lift)

lemmas safe_rules = safe_bind safe_return safe_raise safe_lift safe_mkdir_parents safe_create_file

lemma safe_make:
  "safe_io m (make_wscript m n)" "safe_io m (make_model m n)" "safe_io m (make_test m n)" "safe_io m (make_helper m n)"
  "safe_io m (make_examples m n)" "safe_io m (make_doc m n)"
proof -
  show "safe_io m (make_doc m n)"
    unfolding safe_io_def make_doc_def Let_def
  proof (intro allI)
    fix w
    have "safe_io m (io_bind (mkdir_parents (m @ [''doc''])) (\<lambda>_. io_bind (create_file ((m @ [''doc'']) @ [n @ ''.rst'']) DOC_RST_TEMPLATE
        [(''MODULE'', n), (''MODULE_DIR'', relative_path w m)]) (\<lambda>_. io_return True)))" (is "safe_io m ?f")
      by (intro safe_rules) simp
    then show "grows m w (fst (?f w)) \<and> (fs_wf w \<longrightarrow> fs_wf (fst (?f w)))" by (simp add: safe_io_def)
  qed
qed (simp_all add: make_wscript_def make_model_def make_test_def make_helper_def make_examples_def Let_def safe_rules del: append_assoc)

lemma safe_all: "list_all (safe_io m) fs \<Longrightarrow> safe_io m (all_succeed fs)"
  by (induction fs) (auto intro!: safe_rules)

lemma safe_generate: "safe_io m (generate m n)"
proof -
  have "safe_io m (mkdir_parents m)" using safe_mkdir_parents [of m "[]"] by simp
  then show ?thesis unfolding generate_def make_functions_def by (auto intro!: safe_rules safe_all safe_make)
qed

section \<open>The files of a finished module\<close>

type_synonym planned_file = "path \<times> string list \<times> (string, string) dict"

definition files_ok :: "planned_file list \<Rightarrow> fs_state \<Rightarrow> bool" where
  "files_ok A w \<longleftrightarrow> (\<forall>(p, t, kwargs) \<in> set A. \<exists>s. py_format (template t) kwargs = Inr s \<and> fs_map w p = Some (File s))"

text \<open>An action keeps the files that are not among some paths, and the current directory.\<close>

definition leaves :: "path \<Rightarrow> path list \<Rightarrow> 'a io \<Rightarrow> bool" where
  "leaves c ps f \<longleftrightarrow> (\<forall>w. fs_cwd w = c \<longrightarrow> fs_cwd (fst (f w)) = c
     \<and> (\<forall>q s. q \<notin> set ps \<and> fs_map w q = Some (File s) \<longrightarrow> fs_map (fst (f w)) q = Some (File s)))"

definition produces :: "path \<Rightarrow> ('a \<Rightarrow> bool) \<Rightarrow> planned_file list \<Rightarrow> 'a io \<Rightarrow> bool" where
  "produces c P A f \<longleftrightarrow> leaves c (map fst A) f
     \<and> (\<forall>w. fs_cwd w = c \<longrightarrow> (case f w of (w', Inr x) \<Rightarrow> P x \<longrightarrow> files_ok A w' | _ \<Rightarrow> True))"

abbreviation always :: "'a \<Rightarrow> bool" where
  "always \<equiv> \<lambda>_. True"

lemma leaves_bind:
  assumes "leaves c ps f" and "\<And>x. leaves c qs (g x)"
  shows "leaves c (ps @ qs) (io_bind f g)"
  unfolding leaves_def
proof (intro allI impI)
  fix w :: fs_state assume w: "fs_cwd w = c"
  obtain w' r where f: "f w = (w', r)" by (cases "f w")
  have 1: "fs_cwd w' = c" "\<And>q s. q \<notin> set ps \<Longrightarrow> fs_map w q = Some (File s) \<Longrightarrow> fs_map w' q = Some (File s)"
    using assms(1) w f by (auto simp: leaves_def)
  show "fs_cwd (fst (io_bind f g w)) = c \<and> (\<forall>q s. q \<notin> set (ps @ qs) \<and> fs_map w q = Some (File s)
      \<longrightarrow> fs_map (fst (io_bind f g w)) q = Some (File s))"
  proof (cases r)
    case (Inr x)
    then show ?thesis using 1 assms(2) [of x] f by (auto simp: io_bind_def leaves_def)
  qed (use 1 f in \<open>auto simp: io_bind_def\<close>)
qed

lemma files_ok_kept:
  assumes "files_ok A w" and "leaves c ps f" and "fs_cwd w = c" and "set (map fst A) \<inter> set ps = {}"
  shows "files_ok A (fst (f w))"
  using assms unfolding files_ok_def leaves_def by (fastforce split: prod.splits)

lemma files_ok_append [simp]: "files_ok (A @ B) w \<longleftrightarrow> files_ok A w \<and> files_ok B w"
  unfolding files_ok_def set_append ball_Un ..

lemma produces_bind:
  assumes "produces c P A f" and "\<And>x. produces c Q B (g x)" and "\<And>x. P x"
    and "set (map fst A) \<inter> set (map fst B) = {}"
  shows "produces c Q (A @ B) (io_bind f g)"
  unfolding produces_def
proof (intro conjI allI impI)
  show "leaves c (map fst (A @ B)) (io_bind f g)"
    using leaves_bind [of c "map fst A" f "map fst B" g] assms(1,2) by (simp add: produces_def)
  fix w :: fs_state assume w: "fs_cwd w = c"
  obtain w' r where f: "f w = (w', r)" by (cases "f w")
  have c': "fs_cwd w' = c" using assms(1) w f by (auto simp: produces_def leaves_def)
  show "case io_bind f g w of (w', Inl b) \<Rightarrow> True | (w', Inr x) \<Rightarrow> Q x \<longrightarrow> files_ok (A @ B) w'"
  proof (cases r)
    case (Inr x)
    have "files_ok A w'" using assms(1,3) w f Inr by (auto simp: produces_def split: prod.splits)
    then have "files_ok A (fst (g x w'))"
      using assms(2,4) c' by (intro files_ok_kept [where ps = "map fst B"]) (auto simp: produces_def)
    then show ?thesis using assms(2) [of x] c' f Inr by (auto simp: io_bind_def produces_def split: prod.splits sum.splits)
  qed (simp add: f io_bind_def)
qed

lemma produces_None:
  assumes "\<And>w. fs_cwd (fst (f w)) = fs_cwd w" and "\<And>w q s. fs_map w q = Some (File s) \<Longrightarrow> fs_map (fst (f w)) q = Some (File s)"
  shows "produces c P [] f"
  using assms by (auto simp: produces_def leaves_def files_ok_def split: prod.splits sum.splits)

lemma produces_return: "produces c P [] (io_return x)"
  by (rule produces_None) (simp_all add: io_return_def)

lemma mkdir_keeps:
  "fs_cwd (fst (mkdir p w)) = fs_cwd w" "fs_map w q = Some (File s) \<Longrightarrow> fs_map (fst (mkdir p w)) q = Some (File s)"
  by (auto simp: mkdir_def sys_call_def Let_def split: option.splits if_splits)

lemma mkdirs_keeps:
  "fs_cwd (fst (mkdirs ps w)) = fs_cwd w \<and> (fs_map w q = Some (File s) \<longrightarrow> fs_map (fst (mkdirs ps w)) q = Some (File s))"
proof (induction ps w rule: mkdirs.induct)
  case (2 p ps w)
  then show ?case
    using mkdir_keeps [where p = p and w = w] by (auto simp: io_bind_def split: prod.splits sum.splits)
qed simp

lemma produces_mkdir: "produces c P [] (mkdir_parents p)"
  by (rule produces_None)
    (use mkdirs_keeps mkdir_keeps in \<open>auto simp: mkdir_parents_def io_bind_def split: prod.splits sum.splits\<close>; metis fst_conv)+

lemma produces_create_file: "produces c P [(p, t, kwargs)] (create_file p t kwargs)"
  unfolding produces_def
  by (auto simp: leaves_def files_ok_def create_file_def io_bind_def io_lift_def open_wt_def write_text_def sys_call_def Let_def
      split: prod.splits sum.splits if_splits option.splits fs_entry.splits)

definition wscript_files :: "path \<Rightarrow> string \<Rightarrow> planned_file list" where
  "wscript_files m n = [(m @ [''wscript''], WSCRIPT_TEMPLATE, [(''MODULE'', n)])]"

definition model_files :: "path \<Rightarrow> string \<Rightarrow> planned_file list" where
  "model_files m n =
     [(m @ [''model'', with_suffix n ''.cc''], MODEL_CC_TEMPLATE, [(''MODULE'', n)]),
      (m @ [''model'', with_suffix n ''.h''], MODEL_H_TEMPLATE, [(''MODULE'', n), (''INCLUDE_GUARD'', include_guard n ''_H'')])]"

definition test_files :: "path \<Rightarrow> string \<Rightarrow> planned_file list" where
  "test_files m n =
     [(m @ [''test'', with_suffix (n @ ''-test-suite'') ''.cc''], TEST_CC_TEMPLATE,
       [(''MODULE'', n), (''CAPITALIZED'', concat (map capitalize (py_split (CHR ''-'') n))), (''COMPOUND'', compound (py_split (CHR ''-'') n))])]"

definition helper_files :: "path \<Rightarrow> string \<Rightarrow> planned_file list" where
  "helper_files m n =
     [(m @ [''helper'', with_suffix (n @ ''-helper'') ''.cc''], HELPER_CC_TEMPLATE, [(''MODULE'', n)]),
      (m @ [''helper'', with_suffix (n @ ''-helper'') ''.h''], HELPER_H_TEMPLATE,
       [(''MODULE'', n), (''INCLUDE_GUARD'', include_guard n ''_HELPER_H'')])]"

definition example_files :: "path \<Rightarrow> string \<Rightarrow> planned_file list" where
  "example_files m n =
     [(m @ [''examples'', ''wscript''], EXAMPLES_WSCRIPT_TEMPLATE, [(''MODULE'', n)]),
      (m @ [''examples'', with_suffix (n @ ''-example'') ''.cc''], EXAMPLE_CC_TEMPLATE, [(''MODULE'', n)])]"

definition doc_files :: "string \<Rightarrow> path \<Rightarrow> string \<Rightarrow> planned_file list" where
  "doc_files rel m n = [(m @ [''doc'', n @ ''.rst''], DOC_RST_TEMPLATE, [(''MODULE'', n), (''MODULE_DIR'', rel)])]"

lemma with_suffix_inject [simp]: "with_suffix n a = with_suffix n b \<longleftrightarrow> a = b"
  by (simp add: with_suffix_def Let_def)

lemma with_suffix_not [simp]: "with_suffix n ''.cc'' \<noteq> ''wscript''" "''wscript'' \<noteq> with_suffix n ''.cc''"
proof -
  have l: "last (with_suffix n ''.cc'') = CHR ''c''" by (simp add: with_suffix_def Let_def)
  show a: "with_suffix n ''.cc'' \<noteq> ''wscript''"
  proof
    assume "with_suffix n ''.cc'' = ''wscript''"
    with l show False by simp
  qed
  then show "''wscript'' \<noteq> with_suffix n ''.cc''" by metis
qed

text \<open>One file after another, the last with the result.\<close>

lemma produces_one:
  assumes "produces c P B g" and "p \<notin> set (map fst B)"
  shows "produces c P ((p, t, kwargs) # B) (io_bind (create_file p t kwargs) (\<lambda>_. g))"
  using produces_bind [where P = always, OF produces_create_file, of c P B "\<lambda>_. g"] assms by auto

lemma produces_in_dir:
  assumes "produces c P B g"
  shows "produces c P B (io_bind (mkdir_parents p) (\<lambda>_. g))"
  using produces_bind [where P = always, OF produces_mkdir, of c P B "\<lambda>_. g"] assms by auto

lemmas produces_rules = produces_in_dir produces_one produces_return

lemma produces_make:
  "produces c P (wscript_files m n) (make_wscript m n)"
  "produces c P (model_files m n) (make_model m n)"
  "produces c P (test_files m n) (make_test m n)"
  "produces c P (helper_files m n) (make_helper m n)"
  "produces c P (example_files m n) (make_examples m n)"
  unfolding make_wscript_def make_model_def make_test_def make_helper_def make_examples_def Let_def
    wscript_files_def model_files_def test_files_def helper_files_def example_files_def append_assoc append.simps
  by (intro produces_rules; simp)+

definition relative_to :: "path \<Rightarrow> path \<Rightarrow> string" where
  "relative_to c p = path_relpath (path_text c) (path_text p) (path_text c)"

lemma produces_make_doc: "produces c P (doc_files (relative_to c m) m n) (make_doc m n)"
proof -
  let ?f = "io_bind (mkdir_parents (m @ [''doc''])) (\<lambda>_. io_bind (create_file ((m @ [''doc'']) @ [n @ ''.rst'']) DOC_RST_TEMPLATE
        [(''MODULE'', n), (''MODULE_DIR'', relative_to c m)]) (\<lambda>_. io_return True))"
  have "produces c P (doc_files (relative_to c m) m n) ?f"
    unfolding doc_files_def append_assoc append.simps by (intro produces_rules) simp
  moreover have "make_doc m n w = ?f w" if "fs_cwd w = c" for w
    using that by (simp add: make_doc_def relative_path_def relative_to_def)
  ultimately show ?thesis by (simp add: produces_def leaves_def)
qed

lemma produces_all:
  assumes "produces c (\<lambda>b. b) A f" and "produces c (\<lambda>b. b) B (all_succeed fs)"
    and "set (map fst A) \<inter> set (map fst B) = {}"
  shows "produces c (\<lambda>b. b) (A @ B) (all_succeed (f # fs))"
proof -
  let ?g = "\<lambda>b. if b then all_succeed fs else io_return False"
  have l: "leaves c (map fst (A @ B)) (all_succeed (f # fs))"
  proof -
    have "leaves c (map fst B) (?g b)" for b
      using assms(2) produces_return [of c "\<lambda>b. b" False] by (auto simp: produces_def leaves_def)
    with leaves_bind [of c "map fst A" f "map fst B" ?g] assms(1) show ?thesis by (simp add: produces_def)
  qed
  have "case all_succeed (f # fs) w of (w', Inl e) \<Rightarrow> True | (w', Inr b) \<Rightarrow> b \<longrightarrow> files_ok (A @ B) w'" if w: "fs_cwd w = c" for w
  proof (cases "f w")
    case (Pair w' r)
    have c': "fs_cwd w' = c" using assms(1) w Pair by (auto simp: produces_def leaves_def)
    have A: "files_ok A w'" if "r = Inr True" using assms(1) w Pair that by (auto simp: produces_def)
    have "files_ok A (fst (all_succeed fs w'))" if "r = Inr True"
      using A [OF that] assms(2,3) c' by (intro files_ok_kept [where ps = "map fst B"]) (auto simp: produces_def)
    then show ?thesis
      using assms(2) c' Pair by (cases r) (auto simp: io_bind_def io_return_def produces_def split: prod.splits sum.splits)
  qed
  with l show ?thesis by (simp add: produces_def del: all_succeed.simps)
qed

definition module_files :: "string \<Rightarrow> path \<Rightarrow> string \<Rightarrow> planned_file list" where
  "module_files rel m n = wscript_files m n @ model_files m n @ test_files m n @ helper_files m n @ example_files m n @ doc_files rel m n"

lemmas file_lists = wscript_files_def model_files_def test_files_def helper_files_def example_files_def doc_files_def

lemma produces_module:
  "produces c (\<lambda>b. b) (module_files (relative_to c m) m n) (all_succeed (map (\<lambda>f. f m n) make_functions))"
proof -
  have e: "produces c (\<lambda>b. b) [] (all_succeed [])" by (simp add: produces_return)
  have d: "produces c (\<lambda>b. b) (doc_files (relative_to c m) m n @ []) (all_succeed [make_doc m n])"
    by (intro produces_all e produces_make_doc) simp
  show ?thesis
    unfolding module_files_def make_functions_def list.map
    by (intro produces_all produces_make d [unfolded append_Nil2]) (simp_all add: file_lists)
qed

lemma generate_files:
  assumes "generate m n w = (w', Inr ())"
  shows "files_ok (module_files (relative_to (fs_cwd w) m) m n) w'"
proof -
  obtain w1 where m: "mkdir_parents m w = (w1, Inr ())"
    using assms by (auto simp: generate_def io_bind_def split: prod.splits sum.splits)
  have "fs_cwd w1 = fs_cwd w"
    using produces_mkdir [of "fs_cwd w" always m] m by (auto simp: produces_def leaves_def)
  moreover have "all_succeed (map (\<lambda>f. f m n) make_functions) w1 = (w', Inr True)"
    using assms m by (auto simp: generate_def io_bind_def io_return_def io_raise_def split: prod.splits sum.splits if_splits)
  ultimately show ?thesis
    using produces_module [of "fs_cwd w" m n] unfolding produces_def by (auto split: prod.splits)
qed

lemma fs_wf_below:
  assumes "fs_wf w" and "fs_map w m = None" and "prefix m q"
  shows "fs_map w q = None"
proof -
  from assms(3) obtain r where q: "q = m @ r" by (auto simp: prefix_def)
  show ?thesis
    unfolding q
  proof (induction r rule: rev_induct)
    case (snoc x r)
    then show ?case using assms(1) by (auto simp: fs_wf_def butlast_append dest!: spec [of _ "m @ r @ [x]"])
  qed (simp add: assms(2))
qed



section \<open>Without failures\<close>

definition quiet :: "fs_state \<Rightarrow> bool" where
  "quiet w \<longleftrightarrow> fs_wf w \<and> (\<forall>k. \<not> fs_fails w k)"

text \<open>The directory is there and some names in it are free; a directory in it holds only files.\<close>

definition free_in :: "path \<Rightarrow> string list \<Rightarrow> fs_state \<Rightarrow> bool" where
  "free_in m D w \<longleftrightarrow> quiet w \<and> is_dir m w \<and> (\<forall>d \<in> set D. fs_map w (m @ [d]) = None)"

definition only_files :: "path \<Rightarrow> string \<Rightarrow> fs_state \<Rightarrow> bool" where
  "only_files m x w \<longleftrightarrow> is_dir (m @ [x]) w \<and> (\<forall>f. fs_map w (m @ [x, f]) \<noteq> Some Dir)"

lemma dirs_above:
  assumes "fs_wf w" and "fs_map w q \<noteq> None" and "strict_prefix p q"
  shows "is_dir p w"
proof -
  obtain r where r: "q = p @ r" "r \<noteq> []" using assms(3) by (auto simp: strict_prefix_def prefix_def)
  have "fs_map w (p @ r) \<noteq> None \<Longrightarrow> r \<noteq> [] \<Longrightarrow> is_dir p w"
  proof (induction r rule: rev_induct)
    case (snoc x r)
    then have "fs_map w (p @ r) = Some Dir" using assms(1) by (auto simp: fs_wf_def butlast_append dest!: spec [of _ "p @ r @ [x]"])
    then show ?case using snoc.IH by (cases "r = []") (auto simp: is_dir_def)
  qed simp
  with assms(2) r show ?thesis by simp
qed

lemma mkdirs_there: "\<forall>p \<in> set ps. is_dir p w \<Longrightarrow> mkdirs ps w = (w, Inr ())"
  by (induction ps) auto

lemma mkdir_parents_free:
  assumes "free_in m (x # D) w" and "x \<notin> set D"
  shows "\<exists>w'. mkdir_parents (m @ [x]) w = (w', Inr ()) \<and> free_in m D w' \<and> only_files m x w' \<and> free_in (m @ [x]) E w'"
proof -
  have w: "fs_wf w" "\<And>k. \<not> fs_fails w k" "is_dir m w" "fs_map w (m @ [x]) = None" "\<forall>d \<in> set D. fs_map w (m @ [d]) = None"
    using assms(1) by (auto simp: free_in_def quiet_def)
  have "is_dir (take k (m @ [x])) w" if "k < length (m @ [x])" for k
  proof (cases "k = length m")
    case False
    then have "strict_prefix (take k m) m" using that by (auto simp: strict_prefix_def take_is_prefix)
    then show ?thesis using dirs_above [OF w(1), of m "take k m"] w(3) that by (simp add: is_dir_def)
  qed (use w(3) in simp)
  then have "mkdirs (map (\<lambda>k. take k (m @ [x])) [0..<length (m @ [x])]) w = (w, Inr ())"
    by (intro mkdirs_there ballI) (auto simp del: take_append upt_Suc)
  then have r: "mkdir_parents (m @ [x]) w = (w\<lparr>fs_calls := fs_calls w + 1, fs_map := (fs_map w)(m @ [x] \<mapsto> Dir)\<rparr>, Inr ())"
    using w by (simp add: mkdir_parents_def io_bind_def mkdir_def sys_call_def Let_def)
  have "fs_wf (w\<lparr>fs_calls := fs_calls w + 1, fs_map := (fs_map w)(m @ [x] \<mapsto> Dir)\<rparr>)"
    by (rule fs_wf_update [OF w(1)]) (use w in auto)
  moreover have "fs_map w (m @ [x, f]) = None" for f using fs_wf_below [OF w(1,4), of "m @ [x, f]"] by simp
  ultimately show ?thesis using r w assms(2) by (auto simp: free_in_def quiet_def only_files_def is_dir_def)
qed

lemma create_file_free:
  assumes "quiet w" and "is_dir (butlast p) w" and "fs_map w p \<noteq> Some Dir" and "fields_in (map fst kwargs) (template t)"
  shows "\<exists>s k. create_file p t kwargs w = (w\<lparr>fs_calls := k, fs_map := (fs_map w)(p \<mapsto> File s)\<rparr>, Inr ())"
proof -
  obtain s where "py_format (template t) kwargs = Inr s" using py_format_total [OF assms(4)] by blast
  then have "create_file p t kwargs w = (w\<lparr>fs_calls := Suc (Suc (fs_calls w)), fs_map := (fs_map w)(p \<mapsto> File s)\<rparr>, Inr ())"
    using assms(1-3) by (auto simp: create_file_def io_bind_def io_lift_def open_wt_def write_text_def sys_call_def Let_def quiet_def)
  then show ?thesis by blast
qed

lemma create_in_dir:
  assumes "free_in m D w" and "only_files m x w" and "x \<notin> set D" and "fields_in (map fst kwargs) (template t)"
  shows "\<exists>w'. create_file (m @ [x, f]) t kwargs w = (w', Inr ()) \<and> free_in m D w' \<and> only_files m x w'"
proof -
  have d: "is_dir (butlast (m @ [x, f])) w" "fs_map w (m @ [x, f]) \<noteq> Some Dir"
    using assms(2) by (auto simp: only_files_def butlast_append)
  have q: "quiet w" using assms(1) by (simp add: free_in_def)
  from create_file_free [OF q d assms(4)] obtain s k where
    r: "create_file (m @ [x, f]) t kwargs w = (w\<lparr>fs_calls := k, fs_map := (fs_map w)(m @ [x, f] \<mapsto> File s)\<rparr>, Inr ())" by blast
  have "fs_wf (w\<lparr>fs_calls := k, fs_map := (fs_map w)(m @ [x, f] \<mapsto> File s)\<rparr>)"
    using q d by (intro fs_wf_update) (auto simp: quiet_def)
  then show ?thesis using r assms q by (auto simp: free_in_def only_files_def quiet_def is_dir_def)
qed

text \<open>An action that runs through from one condition to another.\<close>

definition runs :: "(fs_state \<Rightarrow> bool) \<Rightarrow> 'a io \<Rightarrow> 'a \<Rightarrow> (fs_state \<Rightarrow> bool) \<Rightarrow> bool" where
  "runs P f x Q \<longleftrightarrow> (\<forall>w. P w \<longrightarrow> (\<exists>w'. f w = (w', Inr x) \<and> Q w'))"

lemma runs_bind: "runs P f x R \<Longrightarrow> runs R (g x) y Q \<Longrightarrow> runs P (io_bind f g) y Q"
  unfolding runs_def io_bind_def by (metis (no_types, lifting) case_prod_conv sum.case(2))

lemma runs_return: "(\<And>w. P w \<Longrightarrow> Q w) \<Longrightarrow> runs P (io_return x) x Q"
  by (simp add: runs_def io_return_def)

lemma runs_mkdir:
  "x \<notin> set D \<Longrightarrow> runs (free_in m (x # D)) (mkdir_parents (m @ [x])) () (\<lambda>w. free_in m D w \<and> only_files m x w)"
  using mkdir_parents_free [where m = m and x = x and D = D and E = "[]"] by (fastforce simp: runs_def)

lemma runs_create:
  assumes "x \<notin> set D" and "fields_in (map fst kwargs) (template t)"
  shows "runs (\<lambda>w. free_in m D w \<and> only_files m x w) (create_file (m @ [x, f]) t kwargs) () (\<lambda>w. free_in m D w \<and> only_files m x w)"
  using assms create_in_dir by (simp add: runs_def)

lemma runs_wscript:
  assumes "''wscript'' \<notin> set D"
  shows "runs (free_in m (''wscript'' # D)) (make_wscript m n) True (free_in m D)"
  unfolding runs_def
proof (intro allI impI)
  fix w assume w: "free_in m (''wscript'' # D) w"
  then have q: "quiet w" and d: "is_dir (butlast (m @ [''wscript''])) w" "fs_map w (m @ [''wscript'']) \<noteq> Some Dir"
    by (auto simp: free_in_def)
  from create_file_free [OF q d, of "[(''MODULE'', n)]" WSCRIPT_TEMPLATE] wscript_fields obtain s k where
    r: "create_file (m @ [''wscript'']) WSCRIPT_TEMPLATE [(''MODULE'', n)] w
      = (w\<lparr>fs_calls := k, fs_map := (fs_map w)(m @ [''wscript''] \<mapsto> File s)\<rparr>, Inr ())" by auto
  have "fs_wf (w\<lparr>fs_calls := k, fs_map := (fs_map w)(m @ [''wscript''] \<mapsto> File s)\<rparr>)"
    using q d by (intro fs_wf_update) (auto simp: quiet_def)
  then show "\<exists>w'. make_wscript m n w = (w', Inr True) \<and> free_in m D w'"
    using r w assms q by (auto simp: make_wscript_def io_bind_def io_return_def free_in_def quiet_def is_dir_def)
qed

lemma runs_make:
  "''model'' \<notin> set D \<Longrightarrow> runs (free_in m (''model'' # D)) (make_model m n) True (free_in m D)"
  "''test'' \<notin> set D \<Longrightarrow> runs (free_in m (''test'' # D)) (make_test m n) True (free_in m D)"
  "''helper'' \<notin> set D \<Longrightarrow> runs (free_in m (''helper'' # D)) (make_helper m n) True (free_in m D)"
  "''examples'' \<notin> set D \<Longrightarrow> runs (free_in m (''examples'' # D)) (make_examples m n) True (free_in m D)"
  unfolding make_model_def make_test_def make_helper_def make_examples_def Let_def append_assoc append.simps
  by (intro runs_bind [OF runs_mkdir] runs_bind [OF runs_create] runs_return; simp add: template_fields)+

lemma runs_doc:
  assumes "''doc'' \<notin> set D"
  shows "runs (free_in m (''doc'' # D)) (make_doc m n) True (free_in m D)"
proof -
  have "runs (free_in m (''doc'' # D)) (io_bind (mkdir_parents (m @ [''doc''])) (\<lambda>_. io_bind (create_file (m @ [''doc'', n @ ''.rst'']) DOC_RST_TEMPLATE
        [(''MODULE'', n), (''MODULE_DIR'', rel)]) (\<lambda>_. io_return True))) True (free_in m D)" for rel
    by (intro runs_bind [OF runs_mkdir] runs_bind [OF runs_create] runs_return) (simp_all add: assms template_fields)
  then show ?thesis by (simp add: runs_def make_doc_def Let_def)
qed

lemma runs_all: "runs P f True R \<Longrightarrow> runs R (all_succeed fs) True Q \<Longrightarrow> runs P (all_succeed (f # fs)) True Q"
  unfolding all_succeed.simps by (erule runs_bind) simp

lemma runs_functions:
  "runs (free_in m [''wscript'', ''model'', ''test'', ''helper'', ''examples'', ''doc''])
     (all_succeed (map (\<lambda>f. f m n) make_functions)) True (free_in m [])"
  unfolding make_functions_def list.map
  by (intro runs_all [OF runs_wscript] runs_all [OF runs_make(1)] runs_all [OF runs_make(2)] runs_all [OF runs_make(3)]
      runs_all [OF runs_make(4)] runs_all [OF runs_doc]; simp add: runs_return)

lemma runs_generate: "runs (free_in p [n]) (generate (p @ [n]) n) () (free_in (p @ [n]) [])"
proof -
  have "runs (free_in p [n]) (mkdir_parents (p @ [n])) () (free_in (p @ [n]) [''wscript'', ''model'', ''test'', ''helper'', ''examples'', ''doc''])"
    using mkdir_parents_free [of p n "[]"] by (fastforce simp: runs_def)
  then show ?thesis
    unfolding generate_def by (rule runs_bind) (rule runs_bind [OF runs_functions], simp add: runs_return)
qed

lemma make_module_succeeds:
  assumes "quiet w" and "is_dir modpath w" and "fs_map w (modpath @ [modname]) = None"
  shows "\<exists>w'. make_module modpath modname w = (w', Inr True)"
proof -
  let ?w = "w\<lparr>fs_messages := fs_messages w @ [Out (''Creating module '' @ path_text (modpath @ [modname]))]\<rparr>"
  have "free_in modpath [modname] ?w"
    using assms by (simp add: free_in_def quiet_def fs_wf_def is_dir_def)
  then obtain w' where "generate (modpath @ [modname]) modname ?w = (w', Inr ())"
    using runs_generate [of modpath modname] unfolding runs_def by blast
  then show ?thesis
    using assms(3) by (simp add: make_module_def path_exists_def io_bind_def print_message_def Let_def)
qed

text \<open>A source tree with nothing but its two directories.\<close>

definition bare_tree :: fs_state where
  "bare_tree = \<lparr>fs_map = (\<lambda>p. if p = [] \<or> p = [''ns3''] \<or> p = [''ns3'', ''src''] \<or> p = [''ns3'', ''contrib''] then Some Dir else None),
     fs_calls = 0, fs_fails = (\<lambda>_. False), fs_messages = [], fs_cwd = [''ns3'']\<rparr>"

lemma bare_tree_quiet: "quiet bare_tree"
  by (auto simp: quiet_def fs_wf_def bare_tree_def)

lemma bare_tree_module:
  "is_dir [''ns3'', ''contrib''] bare_tree" "fs_map bare_tree ([''ns3'', ''contrib''] @ [''m'']) = None" "fs_wf bare_tree"
  using bare_tree_quiet by (simp_all add: bare_tree_def is_dir_def quiet_def)


section \<open>Where the program writes\<close>

lemma safe_print: "safe_io m (print_message x)"
  by (simp add: safe_io_def print_message_def grows_def fs_wf_def)

lemma safe_rmtree: "safe_io m (rmtree m)"
proof -
  have "prefix m q" if "prefix m (butlast q)" for q using that prefix_order.trans [of m "butlast q" q] by (simp add: prefixeq_butlast)
  then show ?thesis by (auto simp: safe_io_def rmtree_def sys_call_def Let_def grows_def fs_wf_def)
qed

lemma safe_make_module: "safe_io (p @ [n]) (make_module p n)"
proof -
  let ?m = "p @ [n]"
  have g: "safe_io ?m (give_up ?m n e)" for e
  proof -
    have "safe_io ?m (io_bind (rmtree ?m) (\<lambda>_. io_bind (print_message x) (\<lambda>_. io_return False)))"
      "safe_io ?m (io_bind (io_return ()) (\<lambda>_. io_bind (print_message x) (\<lambda>_. io_return False)))" for x
      by (intro safe_bind safe_rmtree safe_print safe_return)+
    then show ?thesis by (auto simp: safe_io_def give_up_def)
  qed
  have "safe_io ?m (\<lambda>w. case generate ?m n w of (w', Inl e) \<Rightarrow> give_up ?m n e w' | (w', Inr _) \<Rightarrow> (w', Inr True))"
    unfolding safe_io_def
  proof (intro allI)
    fix w
    obtain v s where v: "generate ?m n w = (v, s)" by (cases "generate ?m n w")
    then have "grows ?m w v" "fs_wf w \<longrightarrow> fs_wf v" using safe_generate [of ?m n] unfolding safe_io_def by (metis fst_conv)+
    moreover have "grows ?m v (fst (give_up ?m n e v))" "fs_wf v \<longrightarrow> fs_wf (fst (give_up ?m n e v))" for e
      using g by (simp_all add: safe_io_def)
    ultimately show "grows ?m w (fst (case generate ?m n w of (w', Inl e) \<Rightarrow> give_up ?m n e w' | (w', Inr _) \<Rightarrow> (w', Inr True)))
      \<and> (fs_wf w \<longrightarrow> fs_wf (fst (case generate ?m n w of (w', Inl e) \<Rightarrow> give_up ?m n e w' | (w', Inr _) \<Rightarrow> (w', Inr True))))"
      by (cases s) (auto simp: v intro: grows_trans)
  qed
  then have "safe_io ?m (io_bind (print_message x) (\<lambda>_ w. case generate ?m n w of (w', Inl e) \<Rightarrow> give_up ?m n e w' | (w', Inr _) \<Rightarrow> (w', Inr True)))"
    "safe_io ?m (io_bind (print_message x) (\<lambda>_. io_return False))" for x
    by (intro safe_bind safe_print safe_return; simp)+
  then show ?thesis by (auto simp: safe_io_def make_module_def Let_def)
qed

text \<open>The directory of a module: below \<open>src\<close> or \<open>contrib\<close>, with allowed names only.\<close>

definition module_place :: "path \<Rightarrow> path \<Rightarrow> bool" where
  "module_place base m \<longleftrightarrow> (\<exists>d comps. d \<in> {''src'', ''contrib''} \<and> comps \<noteq> [] \<and> list_all allowed comps \<and> m = base @ d # comps)"

text \<open>A path that may change: in a module or on the way to one.\<close>

definition may_change :: "path \<Rightarrow> path \<Rightarrow> bool" where
  "may_change base q \<longleftrightarrow> (\<exists>d comps. d \<in> {''src'', ''contrib''} \<and> comps \<noteq> [] \<and> list_all allowed comps
     \<and> strict_prefix (base @ [d]) q \<and> (prefix q (base @ d # comps) \<or> prefix (base @ d # comps) q))"

definition tree_ok :: "path \<Rightarrow> fs_state \<Rightarrow> bool" where
  "tree_ok base w \<longleftrightarrow> fs_wf w \<and> is_dir (base @ [''src'']) w \<and> is_dir (base @ [''contrib'']) w"

definition confined :: "path \<Rightarrow> fs_state \<Rightarrow> fs_state \<Rightarrow> bool" where
  "confined base w w' \<longleftrightarrow> (\<forall>q. fs_map w' q \<noteq> fs_map w q \<longrightarrow> may_change base q)"

lemma confined_refl [simp]: "confined base w w"
  by (simp add: confined_def)

lemma confined_trans: "confined base w w' \<Longrightarrow> confined base w' w'' \<Longrightarrow> confined base w w''"
  unfolding confined_def by metis

lemma grows_confined:
  assumes "tree_ok base w" and "module_place base m" and "grows m w w'"
  shows "confined base w w'"
  unfolding confined_def
proof (intro allI impI)
  fix q assume q: "fs_map w' q \<noteq> fs_map w q"
  obtain d comps where m: "m = base @ d # comps" "d \<in> {''src'', ''contrib''}" "comps \<noteq> []" "list_all allowed comps"
    using assms(2) by (auto simp: module_place_def)
  have d: "is_dir (base @ [d]) w" "fs_wf w" using assms(1) m(2) by (auto simp: tree_ok_def)
  have "prefix m q \<or> strict_prefix q m \<and> fs_map w q = None" using assms(3) q by (auto simp: grows_def)
  moreover have "strict_prefix (base @ [d]) q" if "strict_prefix q m" "fs_map w q = None"
  proof -
    have "prefix (base @ [d]) m" using m(1) by simp
    moreover have "\<not> prefix q (base @ [d])"
    proof
      assume "prefix q (base @ [d])"
      then have "is_dir q w" using d dirs_above [of w "base @ [d]" q] by (cases "q = base @ [d]") (auto simp: is_dir_def strict_prefix_def)
      with that(2) show False by (simp add: is_dir_def)
    qed
    ultimately show ?thesis
      using that(1) prefix_same_cases [of q m "base @ [d]"] by (auto simp: strict_prefix_def)
  qed
  moreover have "strict_prefix (base @ [d]) q" if "prefix m q"
    using that m(1,3) by (auto simp: strict_prefix_def prefix_def)
  ultimately show "may_change base q"
    unfolding may_change_def using m by (intro exI [of _ d] exI [of _ comps]) (auto simp: strict_prefix_def)
qed

lemma may_change_root: "\<not> may_change base (base @ [x])"
  by (auto simp: may_change_def strict_prefix_def)

lemma confined_tree_ok: "tree_ok base w \<Longrightarrow> confined base w w' \<Longrightarrow> fs_wf w' \<Longrightarrow> tree_ok base w'"
  unfolding tree_ok_def confined_def is_dir_def using may_change_root by metis

lemma make_modules_confined:
  assumes "tree_ok base w" and "\<forall>(p, n) \<in> set ms. module_place base (p @ [n])"
  shows "confined base w (fst (all_succeed (map (\<lambda>(p, n). make_module p n) ms) w))"
  using assms
proof (induction ms arbitrary: w)
  case (Cons x ms)
  obtain p n where x: "x = (p, n)" by (cases x)
  obtain w' r where m: "make_module p n w = (w', r)" by (cases "make_module p n w")
  have w': "grows (p @ [n]) w w'" "fs_wf w'"
    using safe_make_module [of p n] m Cons.prems(1) unfolding safe_io_def tree_ok_def by (metis fst_conv)+
  then have c: "confined base w w'" using grows_confined Cons.prems x by auto
  with w'(2) Cons.prems(1) have "tree_ok base w'" using c confined_tree_ok by blast
  then have "confined base w' (fst (all_succeed (map (\<lambda>(p, n). make_module p n) ms) w'))" using Cons by simp
  note c' = confined_trans [OF c this]
  show ?case
  proof (cases r)
    case (Inr b)
    then show ?thesis using c c' by (simp add: x m io_bind_def io_return_def)
  qed (use c in \<open>simp add: x m io_bind_def\<close>)
qed (simp add: io_return_def)

text \<open>Reading the names changes nothing but the messages, and gives places for modules.\<close>

definition chooses :: "('a \<Rightarrow> bool) \<Rightarrow> 'a io \<Rightarrow> bool" where
  "chooses P f \<longleftrightarrow> (\<forall>w. fs_map (fst (f w)) = fs_map w \<and> (case snd (f w) of Inr x \<Rightarrow> P x | Inl _ \<Rightarrow> True))"

lemma chooses_bind:
  assumes "chooses P f" and "\<And>x. P x \<Longrightarrow> chooses Q (g x)"
  shows "chooses Q (io_bind f g)"
  unfolding chooses_def
proof (intro allI)
  fix w
  obtain w' r where f: "f w = (w', r)" by (cases "f w")
  then have "fs_map w' = fs_map w" "\<And>x. r = Inr x \<Longrightarrow> P x" using assms(1) by (auto simp: chooses_def dest: spec [of _ w])
  then show "fs_map (fst (io_bind f g w)) = fs_map w \<and> (case snd (io_bind f g w) of Inr x \<Rightarrow> Q x | Inl _ \<Rightarrow> True)"
    using assms(2) by (cases r) (auto simp: io_bind_def f chooses_def)
qed

lemma chooses_lift: "(\<And>x. chooses Q (g x)) \<Longrightarrow> chooses Q (io_bind (io_lift r) g)"
  by (rule chooses_bind [where P = always]) (auto simp: chooses_def io_lift_def split: sum.splits)

lemma chooses_print: "chooses Q (g ()) \<Longrightarrow> chooses Q (io_bind (print_message m) g)"
  by (rule chooses_bind [where P = always]) (auto simp: chooses_def print_message_def)

lemma chooses_if: "(b \<Longrightarrow> chooses P f) \<Longrightarrow> (\<not> b \<Longrightarrow> chooses P g) \<Longrightarrow> chooses P (if b then f else g)"
  by simp

lemma chooses_return: "P x \<Longrightarrow> chooses P (io_return x)"
  and chooses_raise: "chooses P (io_raise e)"
  and chooses_parser_error: "chooses P (parser_error t)"
  by (simp_all add: chooses_def io_return_def io_raise_def parser_error_def io_bind_def print_message_def)

lemmas chooses_basic = chooses_return chooses_raise chooses_parser_error

definition place_of :: "path \<Rightarrow> path \<times> string \<Rightarrow> bool" where
  "place_of base m \<longleftrightarrow> module_place base (fst m @ [snd m])"

lemma chooses_module:
  assumes "\<And>p. pp = Some p \<Longrightarrow> list_all allowed p"
  shows "chooses (pred_option (place_of base)) (choose_module base project pp name)"
proof -
  have place: "place_of base (case pp of None \<Rightarrow> base @ [d] | Some p \<Rightarrow> base @ [''contrib''] @ p, n)"
    if "d \<in> {''src'', ''contrib''}" "allowed n" for d n
    using assms that by (auto simp: place_of_def module_place_def split: option.splits)
  let ?Q = "\<lambda>(modpath, parts). modpath = base @ [''src''] \<or> modpath = base @ [''contrib'']"
  show ?thesis
    unfolding choose_module_def Let_def
    by (intro chooses_if chooses_lift chooses_print chooses_bind [where P = ?Q] chooses_basic)
      (auto intro!: chooses_if chooses_lift chooses_print chooses_basic place)
qed

lemma chooses_modules:
  assumes "\<And>p. pp = Some p \<Longrightarrow> list_all allowed p"
  shows "chooses (list_all (place_of base)) (choose_modules base project pp names)"
proof (induction names)
  case (Cons n ns)
  have "chooses (pred_option (place_of base)) (choose_module base project pp n)" by (rule chooses_module) (rule assms)
  then show ?case
    unfolding choose_modules.simps
    by (rule chooses_bind) (rule chooses_bind [OF Cons], auto intro!: chooses_basic split: option.splits)
qed (simp add: chooses_basic)

lemma chooses_project: "chooses (list_all allowed) (project_parts project)"
  unfolding project_parts_def by (intro chooses_if chooses_basic)

lemma chooses_check: "chooses always (check_directories ps)"
proof (induction ps)
  case (Cons p ps)
  then show ?case using chooses_parser_error [of always "missing_directory p"] by (auto simp: chooses_def)
qed (simp add: chooses_def)

lemma chooses_setup:
  "chooses (list_all (place_of base)) (io_bind (check_directories ps) (\<lambda>_.
     io_bind (if project \<noteq> [] then io_bind (project_parts project) (\<lambda>p. io_return (Some p)) else io_return None) (\<lambda>project_path.
     choose_modules base (project \<noteq> []) project_path modnames)))"
  by (intro chooses_bind [OF chooses_check] chooses_bind [where P = "pred_option (list_all allowed)"] chooses_if
      chooses_bind [OF chooses_project] chooses_basic chooses_modules) auto

lemma check_directories_ok: "check_directories ps w = (w', Inr u) \<Longrightarrow> \<forall>p \<in> set ps. is_dir p w"
  by (induction ps arbitrary: w) (auto simp: parser_error_def io_bind_def print_message_def io_raise_def split: if_splits)

lemma io_bind_assoc: "io_bind (io_bind f g) h = io_bind f (\<lambda>x. io_bind (g x) h)"
  by (rule ext) (simp add: io_bind_def split: prod.splits sum.splits)

lemma io_bind_Inr: "f w = (w', Inr x) \<Longrightarrow> io_bind f g w = g x w'"
  and io_bind_Inl: "f w = (w', Inl e) \<Longrightarrow> io_bind f g w = (w', Inl e)"
  by (simp_all add: io_bind_def)

lemma io_bind_return: "io_bind (io_return x) g = g x"
  by (rule ext) (simp add: io_bind_def io_return_def)

lemma chooses_report: "chooses always (io_bind (report_modules b) (\<lambda>_. io_return x))"
  by (auto simp: chooses_def io_bind_def report_modules_def print_message_def io_return_def)

lemma bind_confined:
  assumes "fs_map v = fs_map w" and "confined base v (fst (f v))" and "\<And>b. chooses always (g b)"
  shows "confined base w (fst (io_bind f g v))"
proof -
  obtain u r where f: "f v = (u, r)" by (cases "f v")
  have "fs_map (fst (g b u)) = fs_map u" for b using assms(3) by (simp add: chooses_def)
  then show ?thesis using assms(1,2) by (cases r) (simp_all add: f io_bind_def confined_def)
qed

lemma create_main_confined:
  assumes "fs_wf w" and "create_main project modnames w = (w', r)"
  shows "confined (fs_cwd w) w w'"
proof -
  let ?base = "fs_cwd w"
  let ?dirs = "[?base @ [''src''], ?base @ [''contrib'']]"
  let ?prep = "io_bind (check_directories ?dirs) (\<lambda>_.
     io_bind (if project \<noteq> [] then io_bind (project_parts project) (\<lambda>p. io_return (Some p)) else io_return None) (\<lambda>project_path.
     choose_modules ?base (project \<noteq> []) project_path modnames))"
  have main: "create_main project modnames w = io_bind ?prep (\<lambda>ms. io_bind (all_succeed (map (\<lambda>(p, n). make_module p n) ms))
      (\<lambda>b. io_bind (report_modules b) (\<lambda>_. io_return 0))) w"
    by (simp only: create_main_def Let_def io_bind_assoc)
  obtain v s where v: "?prep w = (v, s)" by (cases "?prep w")
  have map: "fs_map v = fs_map w" and ms: "\<And>ms. s = Inr ms \<Longrightarrow> list_all (place_of ?base) ms"
    using chooses_setup [of ?base ?dirs project modnames] v unfolding chooses_def by (auto dest!: spec [of _ w])
  show ?thesis
  proof (cases s)
    case (Inr modules)
    have step: "io_bind ?prep h w = h modules v" for h :: "_ \<Rightarrow> int io" by (rule io_bind_Inr) (simp only: v Inr)
    obtain u where "check_directories ?dirs w = (u, Inr ())"
      using v Inr by (auto simp: io_bind_def split: prod.splits sum.splits)
    then have "tree_ok ?base w" using assms(1) check_directories_ok by (fastforce simp: tree_ok_def)
    then have "tree_ok ?base v" using map by (simp add: tree_ok_def is_dir_def fs_wf_def)
    then have "confined ?base v (fst (all_succeed (map (\<lambda>(p, n). make_module p n) modules) v))"
      by (rule make_modules_confined) (use ms Inr in \<open>auto simp: list_all_iff place_of_def\<close>)
    from bind_confined [where f = "all_succeed (map (\<lambda>(p, n). make_module p n) modules)"
        and g = "\<lambda>b. io_bind (report_modules b) (\<lambda>_. io_return (0::int))", OF map this chooses_report] show ?thesis
      using assms(2) by (simp only: main step fst_conv)
  next
    case (Inl e)
    have step: "io_bind ?prep h w = (v, Inl e)" for h :: "_ \<Rightarrow> int io" by (rule io_bind_Inl) (simp only: v Inl)
    then have "(w', r) = (v, Inl e)" using assms(2) by (simp only: main step)
    then show ?thesis using map by (simp add: confined_def)
  qed
qed

lemma status_cases: "create_status project modnames w = (w', n) \<Longrightarrow> (\<exists>w'' r. create_main project modnames w = (w'', r) \<and> fs_map w' = fs_map w'')"
  by (cases "create_main project modnames w") (auto simp: create_status_def split: sum.splits py_error.splits)

lemma make_module_files:
  assumes "fs_map w (p @ [n]) = None" and "make_module p n w = (w', Inr True)"
  shows "files_ok (module_files (relative_to (fs_cwd w) (p @ [n])) (p @ [n]) n) w'"
proof -
  let ?w = "w\<lparr>fs_messages := fs_messages w @ [Out (''Creating module '' @ path_text (p @ [n]))]\<rparr>"
  have "generate (p @ [n]) n ?w = (w', Inr ())"
    using assms by (auto simp: make_module_def path_exists_def io_bind_def print_message_def Let_def give_up_def io_return_def
        split: prod.splits sum.splits)
  from generate_files [OF this] show ?thesis by simp
qed

text \<open>
  C30: Whatever names and project path are given and whatever calls fail, \<^verbatim>\<open>create-module.py\<close> changes
  nothing outside the directories \<open>src\<close> and \<open>contrib\<close> of the current directory: each path that changes
  is below one of them, and in a new module or on the way to it, whose directories below
  \<open>src\<close> or \<open>contrib\<close> have names of letters, digits, underscores and hyphens only.
\<close>
theorem create_status_confined:
  assumes "fs_wf w" and "create_status project modnames w = (w', n)" and "fs_map w' q \<noteq> fs_map w q"
  shows "\<exists>d comps. d \<in> {''src'', ''contrib''} \<and> comps \<noteq> [] \<and> list_all allowed comps
    \<and> strict_prefix (fs_cwd w @ [d]) q \<and> (prefix q (fs_cwd w @ d # comps) \<or> prefix (fs_cwd w @ d # comps) q)"
proof -
  obtain w'' r where m: "create_main project modnames w = (w'', r)" "fs_map w' = fs_map w''" using status_cases [OF assms(2)] by blast
  then have "may_change (fs_cwd w) q" using create_main_confined [OF assms(1) m(1)] assms(3) by (simp add: confined_def)
  then show ?thesis by (simp add: may_change_def)
qed


text \<open>The program on a bare tree.\<close>

lemma bare_setup:
  "fs_cwd bare_tree = [''ns3'']" "check_directories [[''ns3'', ''src''], [''ns3'', ''contrib'']] bare_tree = (bare_tree, Inr ())"
  by (simp_all add: bare_tree_def is_dir_def)

lemma name_m: "strip_slashes ''m'' = ''m''" "path_parts ''m'' = [''m'']" "allowed ''m''" "py_index [''m''] 0 = Inr ''m''"
  by code_simp+

lemma choose_m: "choose_modules [''ns3''] False None [''m''] w = (w, Inr [([''ns3'', ''contrib''], ''m'')])"
  by (simp add: choose_module_def io_bind_def io_return_def io_lift_def name_m Let_def)

lemma create_status_m:
  assumes "make_module [''ns3'', ''contrib''] ''m'' bare_tree = (w', Inr True)"
  shows "\<exists>w''. create_status [] [''m''] bare_tree = (w'', 0) \<and> fs_map w'' = fs_map w'"
proof -
  have step: "io_bind (make_module [''ns3'', ''contrib''] ''m'') h bare_tree = h True w'" for h :: "_ \<Rightarrow> int io"
    by (rule io_bind_Inr) (rule assms)
  have "create_main [] [''m''] bare_tree = io_bind (report_modules True) (\<lambda>_. io_return 0) w'"
    unfolding create_main_def Let_def bare_setup(1)
    using bare_setup(2) choose_m [of bare_tree]
    by (simp add: step io_bind_Inr [where f = "check_directories [[''ns3'', ''src''], [''ns3'', ''contrib'']]" and w = bare_tree]
        io_bind_Inr [where f = "choose_modules [''ns3''] False None [''m'']" and w = bare_tree] io_bind_return io_bind_assoc
        del: check_directories.simps choose_modules.simps)
  moreover obtain w'' where "io_bind (report_modules True) (\<lambda>_. io_return (0::int)) w' = (w'', Inr 0)" "fs_map w'' = fs_map w'"
    by (simp add: report_modules_def io_bind_def print_message_def io_return_def)
  ultimately show ?thesis by (simp add: create_status_def)
qed

theorem create_status_confined_witness:
  "\<exists>d comps. d \<in> {''src'', ''contrib''} \<and> comps \<noteq> [] \<and> list_all allowed comps
    \<and> strict_prefix ([''ns3''] @ [d]) [''ns3'', ''contrib'', ''m'', ''wscript'']
    \<and> (prefix [''ns3'', ''contrib'', ''m'', ''wscript''] ([''ns3''] @ d # comps) \<or> prefix ([''ns3''] @ d # comps) [''ns3'', ''contrib'', ''m'', ''wscript''])"
proof -
  obtain w' where m: "make_module [''ns3'', ''contrib''] ''m'' bare_tree = (w', Inr True)"
    using make_module_succeeds [OF bare_tree_quiet bare_tree_module(1,2)] by blast
  obtain w'' where w: "create_status [] [''m''] bare_tree = (w'', 0)" "fs_map w'' = fs_map w'" using create_status_m [OF m] by blast
  have "fs_map w' [''ns3'', ''contrib'', ''m'', ''wscript''] \<noteq> None"
    using make_module_files [OF bare_tree_module(2) m] by (auto simp: files_ok_def module_files_def wscript_files_def)
  then have "fs_map w'' [''ns3'', ''contrib'', ''m'', ''wscript''] \<noteq> fs_map bare_tree [''ns3'', ''contrib'', ''m'', ''wscript'']"
    by (simp add: w(2)) (simp add: bare_tree_def)
  from create_status_confined [OF bare_tree_module(3) w(1) this] show ?thesis unfolding bare_setup .
qed

section \<open>Names with a surprise\<close>

text \<open>The name \<open>src\<close> alone has no part after the directory: \<open>name_path.parts[0]\<close> raises, and so the whole run fails.\<close>

lemma choose_src: "choose_module base False pp ''src'' w = (w, Inl IndexError)"
proof -
  have "strip_slashes ''src'' = ''src''" "path_parts ''src'' = [''src'']" "py_index [''src''] 0 = Inr ''src''" "py_index ([] :: string list) 0 = Inl IndexError"
    by code_simp+
  then show ?thesis by (simp add: choose_module_def io_bind_def io_return_def io_lift_def Let_def)
qed

text \<open>A name of two parts that does not begin with \<open>src\<close> or \<open>contrib\<close> stands for its first part.\<close>

lemma choose_two_parts: "choose_module base False None ''foo/bar'' w = (w, Inr (Some (base @ [''contrib''], ''foo'')))"
proof -
  have "strip_slashes ''foo/bar'' = ''foo/bar''" "path_parts ''foo/bar'' = [''foo'', ''bar'']" "py_index [''foo'', ''bar''] 0 = Inr ''foo''" "allowed ''foo''"
    by code_simp+
  then show ?thesis by (simp add: choose_module_def io_bind_def io_return_def io_lift_def Let_def)
qed

lemma allowed_line_end: "allowed [CHR ''m'', NL]" "\<not> allowed [NL, CHR ''m'']"
  by (code_simp)+

lemma status_existing:
  assumes "is_dir (fs_cwd w @ [''src'']) w" and "is_dir (fs_cwd w @ [''contrib'']) w" and "path_exists (fs_cwd w @ [''contrib'', ''m'']) w"
  shows "snd (create_status [] [''m''] w) = 0 \<and> fs_map (fst (create_status [] [''m''] w)) = fs_map w"
proof -
  have "choose_modules (fs_cwd w) False None [''m''] w = (w, Inr [(fs_cwd w @ [''contrib''], ''m'')])"
    by (simp add: choose_module_def io_bind_def io_return_def io_lift_def name_m Let_def)
  then show ?thesis
    using assms by (simp add: create_status_def create_main_def io_bind_def io_return_def make_module_def print_message_def
        report_modules_def Let_def del: choose_modules.simps)
qed

end
