(* ===== verification/Viz_Base.thy ===== *)
theory Viz_Base
  imports Py_Num
begin

text \<open>
  The base of the visualizer, \<^verbatim>\<open>src/visualizer/visualizer/base.py\<close>: scales, traits of devices, loading of plugins;
  and the scaled picture of \<^verbatim>\<open>svgitem.py\<close>.  Coordinates are exact rationals.  What importing a plugin gives is
  an argument.
\<close>

section \<open>Scales\<close>

type_synonym point = "rat \<times> rat"

definition PIXELS_PER_METER :: rat where
  "PIXELS_PER_METER = 3"

definition transform_distance_simulation_to_canvas :: "rat \<Rightarrow> rat" where
  "transform_distance_simulation_to_canvas d = d * PIXELS_PER_METER"

definition transform_point_simulation_to_canvas :: "point \<Rightarrow> point" where
  "transform_point_simulation_to_canvas = (\<lambda>(x, y). (x * PIXELS_PER_METER, y * PIXELS_PER_METER))"

definition transform_distance_canvas_to_simulation :: "rat \<Rightarrow> rat" where
  "transform_distance_canvas_to_simulation d = d / PIXELS_PER_METER"

definition transform_point_canvas_to_simulation :: "point \<Rightarrow> point" where
  "transform_point_canvas_to_simulation = (\<lambda>(x, y). (x / PIXELS_PER_METER, y / PIXELS_PER_METER))"

lemmas transform_defs = transform_distance_simulation_to_canvas_def transform_point_simulation_to_canvas_def
  transform_distance_canvas_to_simulation_def transform_point_canvas_to_simulation_def PIXELS_PER_METER_def

lemma transform_inverse:
  "transform_point_canvas_to_simulation (transform_point_simulation_to_canvas p) = p"
  "transform_point_simulation_to_canvas (transform_point_canvas_to_simulation p) = p"
  "transform_distance_canvas_to_simulation (transform_distance_simulation_to_canvas d) = d"
  by (simp_all add: transform_defs case_prod_beta)

section \<open>Traits of devices\<close>

record net_device_traits =
  is_wireless :: "bool option"
  is_virtual :: bool

definition make_traits :: "bool option \<Rightarrow> bool \<Rightarrow> net_device_traits res" where
  "make_traits w v = (if v \<or> w \<noteq> None then Inr \<lparr>is_wireless = w, is_virtual = v\<rparr> else Inl AssertionError)"

text \<open>A class is named by its module and its own name.\<close>

definition netdevice_traits :: "(string, net_device_traits) dict" where
  "netdevice_traits =
     [(''ns.point_to_point.PointToPointNetDevice'', \<lparr>is_wireless = Some False, is_virtual = False\<rparr>),
      (''ns.csma.CsmaNetDevice'', \<lparr>is_wireless = Some False, is_virtual = False\<rparr>),
      (''ns.wifi.WifiNetDevice'', \<lparr>is_wireless = Some True, is_virtual = False\<rparr>),
      (''ns.bridge.BridgeNetDevice'', \<lparr>is_wireless = None, is_virtual = True\<rparr>),
      (''ns.internet.LoopbackNetDevice'', \<lparr>is_wireless = Some False, is_virtual = True\<rparr>),
      (''ns.mesh.MeshPointDevice'', \<lparr>is_wireless = None, is_virtual = True\<rparr>),
      (''ns.wimax.SubscriberStationNetDevice'', \<lparr>is_wireless = Some True, is_virtual = False\<rparr>),
      (''ns.wimax.BaseStationNetDevice'', \<lparr>is_wireless = Some True, is_virtual = False\<rparr>),
      (''ns.lte.LteUeNetDevice'', \<lparr>is_wireless = Some True, is_virtual = False\<rparr>),
      (''ns.lte.LteEnbNetDevice'', \<lparr>is_wireless = Some True, is_virtual = False\<rparr>)]"

text \<open>The table afterwards, the traits, and whether a warning is written; an unknown class is entered, so it warns once.\<close>

definition lookup_netdevice_traits ::
    "(string, net_device_traits) dict \<Rightarrow> string \<Rightarrow> (string, net_device_traits) dict \<times> net_device_traits \<times> bool" where
  "lookup_netdevice_traits table cls = (case dict_get table cls of
     Inr t \<Rightarrow> (table, t, False)
   | Inl _ \<Rightarrow> (let t = \<lparr>is_wireless = Some True, is_virtual = False\<rparr> in (AList.update cls t table, t, True)))"

lemma lookup_twice:
  assumes "lookup_netdevice_traits table cls = (table', t, w)"
  shows "lookup_netdevice_traits table' cls = (table', t, False)"
  using assms by (auto simp: lookup_netdevice_traits_def dict_get_def Let_def split: sum.splits option.splits)

text \<open>Every class in the table could have been built by \<open>NetDeviceTraits\<close>.\<close>

lemma table_asserted: "list_all (\<lambda>(c, t). make_traits (is_wireless t) (is_virtual t) = Inr t) netdevice_traits"
  by (simp add: netdevice_traits_def make_traits_def ex_bool_eq all_bool_eq)

section \<open>Plugins\<close>

text \<open>What importing a module gives: \<open>ImportError\<close>, another exception, a module without or with a \<open>register\<close> function.\<close>

datatype 'f imported = ImportFails | ImportRaises py_error | NoRegister | Registers 'f

record 'f plugin_state =
  plugins :: "'f list"
  plugin_modules :: "string list"
  plugins_loaded :: bool
  plugin_sys_path :: "string list"
  plugin_messages :: "(string \<times> string) list"

definition file_splitext :: "string \<Rightarrow> string \<times> string" where
  "file_splitext s =
     (let ext = takeWhile (\<lambda>c. c \<noteq> CHR ''.'') (rev s); root = drop (length ext + 1) (rev s)
      in if CHR ''.'' \<in> set s \<and> list_ex (\<lambda>c. c \<noteq> CHR ''.'') root then (rev root, CHR ''.'' # rev ext) else (s, []))"

definition register_plugin :: "'f \<Rightarrow> string \<Rightarrow> 'f plugin_state \<Rightarrow> 'f plugin_state" where
  "register_plugin f name s = s\<lparr>plugins := plugins s @ [f], plugin_modules := List.insert name (plugin_modules s)\<rparr>"

text \<open>One file of the directory; the result beside the state is the exception that leaves the loop.\<close>

definition load_file :: "(string \<Rightarrow> 'f imported) \<Rightarrow> string \<Rightarrow> 'f plugin_state \<Rightarrow> 'f plugin_state \<times> unit res" where
  "load_file imp filename s =
     (let (name, ext) = file_splitext filename
      in if ext \<noteq> ''.py'' then (s, Inr ())
         else case imp name of
             ImportFails \<Rightarrow> (s\<lparr>plugin_messages := plugin_messages s @ [(''Could not load plugin'', filename)]\<rparr>, Inr ())
           | ImportRaises e \<Rightarrow> (s, Inl e)
           | NoRegister \<Rightarrow> (s\<lparr>plugin_messages := plugin_messages s @ [(''Plugin has no 'register' function'', name)]\<rparr>, Inr ())
           | Registers f \<Rightarrow> (register_plugin f name s, Inr ()))"

fun load_files :: "(string \<Rightarrow> 'f imported) \<Rightarrow> string list \<Rightarrow> 'f plugin_state \<Rightarrow> 'f plugin_state \<times> unit res" where
  "load_files imp [] s = (s, Inr ())"
| "load_files imp (n # ns) s = (case load_file imp n s of (s', Inl e) \<Rightarrow> (s', Inl e) | (s', Inr _) \<Rightarrow> load_files imp ns s')"

definition load_plugins :: "(string \<Rightarrow> 'f imported) \<Rightarrow> string \<Rightarrow> string list \<Rightarrow> 'f plugin_state \<Rightarrow> 'f plugin_state \<times> unit res" where
  "load_plugins imp plugins_dir files s =
     (if plugins_loaded s then (s, Inr ())
      else let old_path = plugin_sys_path s
           in case load_files imp files (s\<lparr>plugins_loaded := True, plugin_sys_path := plugins_dir # old_path\<rparr>) of
                (s', Inl e) \<Rightarrow> (s', Inl e)
              | (s', Inr _) \<Rightarrow> (s'\<lparr>plugin_sys_path := old_path\<rparr>, Inr ()))"

text \<open>The files that are plugins, with what they register.\<close>

definition plugin_of :: "(string \<Rightarrow> 'f imported) \<Rightarrow> string \<Rightarrow> 'f list" where
  "plugin_of imp filename =
     (if snd (file_splitext filename) = ''.py'' then case imp (fst (file_splitext filename)) of Registers f \<Rightarrow> [f] | _ \<Rightarrow> [] else [])"

definition raises_import :: "(string \<Rightarrow> 'f imported) \<Rightarrow> string \<Rightarrow> bool" where
  "raises_import imp filename \<longleftrightarrow> snd (file_splitext filename) = ''.py'' \<and> (\<exists>e. imp (fst (file_splitext filename)) = ImportRaises e)"

lemma load_file_plugins:
  "\<not> raises_import imp n \<Longrightarrow> \<exists>s'. load_file imp n s = (s', Inr ()) \<and> plugins s' = plugins s @ plugin_of imp n
     \<and> plugins_loaded s' = plugins_loaded s \<and> plugin_sys_path s' = plugin_sys_path s"
  by (auto simp: load_file_def plugin_of_def raises_import_def register_plugin_def split: prod.splits imported.splits)

lemma load_files_plugins:
  assumes "\<forall>n \<in> set ns. \<not> raises_import imp n"
  shows "\<exists>s'. load_files imp ns s = (s', Inr ()) \<and> plugins s' = plugins s @ concat (map (plugin_of imp) ns)
     \<and> plugins_loaded s' = plugins_loaded s \<and> plugin_sys_path s' = plugin_sys_path s"
  using assms
proof (induction ns arbitrary: s)
  case (Cons n ns)
  obtain s1 where "load_file imp n s = (s1, Inr ())" "plugins s1 = plugins s @ plugin_of imp n"
    "plugins_loaded s1 = plugins_loaded s" "plugin_sys_path s1 = plugin_sys_path s"
    using load_file_plugins [of imp n s] Cons.prems by auto
  with Cons.IH [of s1] Cons.prems show ?case by auto
qed simp

text \<open>
  Loading registers the plugins that can be imported, in the order of the directory, once, and leaves
  the search path as it was; a plugin that cannot be imported or has no \<open>register\<close> does no harm.
\<close>

lemma load_plugins_once:
  assumes "\<forall>n \<in> set files. \<not> raises_import imp n" and "\<not> plugins_loaded s"
  shows "\<exists>s'. load_plugins imp d files s = (s', Inr ()) \<and> plugins s' = plugins s @ concat (map (plugin_of imp) files)
    \<and> plugin_sys_path s' = plugin_sys_path s \<and> load_plugins imp d files s' = (s', Inr ())"
proof -
  let ?s = "s\<lparr>plugins_loaded := True, plugin_sys_path := d # plugin_sys_path s\<rparr>"
  obtain s1 where "load_files imp files ?s = (s1, Inr ())" "plugins s1 = plugins s @ concat (map (plugin_of imp) files)" "plugins_loaded s1"
    using load_files_plugins [OF assms(1), of ?s] by auto
  then show ?thesis using assms(2) by (simp add: load_plugins_def Let_def)
qed

text \<open>An exception other than \<open>ImportError\<close> leaves the changed search path, and the other plugins are never loaded.\<close>

lemma load_plugins_raises:
  assumes "raises_import imp n" and "\<not> plugins_loaded s"
  shows "\<exists>s' e. load_plugins imp d (n # ns) s = (s', Inl e) \<and> plugin_sys_path s' = d # plugin_sys_path s
    \<and> plugins s' = plugins s \<and> load_plugins imp d (n # ns) s' = (s', Inr ())"
proof -
  let ?s = "s\<lparr>plugins_loaded := True, plugin_sys_path := d # plugin_sys_path s\<rparr>"
  obtain name e where "file_splitext n = (name, ''.py'')" "imp name = ImportRaises e"
    using assms(1) by (cases "file_splitext n") (auto simp: raises_import_def)
  then have "load_file imp n ?s = (?s, Inl e)" by (simp add: load_file_def)
  then have "load_plugins imp d (n # ns) s = (?s, Inl e)" using assms(2) by (simp add: load_plugins_def)
  moreover have "load_plugins imp d (n # ns) ?s = (?s, Inr ())" by (simp add: load_plugins_def)
  ultimately show ?thesis by (intro exI [of _ ?s] exI [of _ e]) simp
qed

section \<open>Scaled pictures\<close>

record svg_item =
  svg_x :: rat
  svg_y :: rat
  svg_sx :: rat
  svg_sy :: rat
  svg_width :: rat
  svg_height :: rat
  svg_custom_width :: "rat option"
  svg_custom_height :: "rat option"
  svg_natural :: "rat \<times> rat"

definition new_svg_item :: "point \<Rightarrow> rat \<times> rat \<Rightarrow> svg_item" where
  "new_svg_item p nat_size = \<lparr>svg_x = fst p, svg_y = snd p, svg_sx = 1, svg_sy = 1, svg_width = fst nat_size, svg_height = snd nat_size,
     svg_custom_width = None, svg_custom_height = None, svg_natural = nat_size\<rparr>"

definition size_changed :: "svg_item \<Rightarrow> svg_item" where
  "size_changed s = (let (w, h) = svg_natural s in case (svg_custom_width s, svg_custom_height s) of
     (None, None) \<Rightarrow> s\<lparr>svg_width := w, svg_height := h, svg_sx := 1, svg_sy := 1\<rparr>
   | (Some cw, None) \<Rightarrow> s\<lparr>svg_width := cw, svg_sx := cw / w, svg_sy := cw / w, svg_height := h * (cw / w)\<rparr>
   | (None, Some ch) \<Rightarrow> s\<lparr>svg_height := ch, svg_sy := ch / h, svg_sx := ch / h, svg_width := w * (ch / h)\<rparr>
   | (Some cw, Some ch) \<Rightarrow> s\<lparr>svg_width := cw, svg_height := ch, svg_sx := cw / w, svg_sy := ch / h\<rparr>)"

definition svg_set_property :: "string \<Rightarrow> rat \<Rightarrow> svg_item \<Rightarrow> svg_item res" where
  "svg_set_property p v s =
     (if p = ''x'' then Inr (s\<lparr>svg_x := v\<rparr>)
      else if p = ''y'' then Inr (s\<lparr>svg_y := v\<rparr>)
      else if p = ''width'' then Inr (size_changed (s\<lparr>svg_custom_width := Some v\<rparr>))
      else if p = ''height'' then Inr (size_changed (s\<lparr>svg_custom_height := Some v\<rparr>))
      else Inl AttributeError)"

definition svg_get_property :: "string \<Rightarrow> svg_item \<Rightarrow> svg_item \<times> rat res" where
  "svg_get_property p s =
     (if p = ''x'' then (s, Inr (svg_x s))
      else if p = ''y'' then (s, Inr (svg_y s))
      else if p = ''width''
      then (let s = s\<lparr>svg_width := fst (svg_natural s), svg_height := snd (svg_natural s)\<rparr> in (s, Inr (svg_width s)))
      else if p = ''height'' then (s, Inr (svg_height s))
      else (s, Inl AttributeError))"

definition svg_is_item_at :: "rat \<Rightarrow> rat \<Rightarrow> svg_item \<Rightarrow> bool" where
  "svg_is_item_at x y s \<longleftrightarrow> \<not> ((x < svg_x s \<or> x > svg_x s + svg_width s) \<or> (y < svg_y s \<or> y > svg_y s + svg_height s))"

text \<open>The drawn size is the natural size times the scale: what is painted fills the box of the item.\<close>

definition svg_ok :: "svg_item \<Rightarrow> bool" where
  "svg_ok s \<longleftrightarrow> 0 < fst (svg_natural s) \<and> 0 < snd (svg_natural s)
     \<and> svg_width s = fst (svg_natural s) * svg_sx s \<and> svg_height s = snd (svg_natural s) * svg_sy s"

lemma size_changed_ok: "0 < fst (svg_natural s) \<Longrightarrow> 0 < snd (svg_natural s) \<Longrightarrow> svg_ok (size_changed s)"
  by (auto simp: svg_ok_def size_changed_def Let_def split: prod.splits option.splits)

lemma svg_natural_size_changed [simp]: "svg_natural (size_changed s) = svg_natural s"
  by (auto simp: size_changed_def Let_def split: prod.splits option.splits)

lemma svg_set_property_ok: "svg_ok s \<Longrightarrow> svg_set_property p v s = Inr s' \<Longrightarrow> svg_ok s' \<and> svg_natural s' = svg_natural s"
  using size_changed_ok by (auto simp: svg_set_property_def svg_ok_def split: if_splits)

text \<open>With one size given the proportions of the picture are kept.\<close>

lemma svg_proportions:
  assumes "svg_ok s" and "svg_custom_height s = None" and "svg_set_property ''width'' v s = Inr s'"
  shows "svg_width s' = v \<and> svg_height s' * fst (svg_natural s) = v * snd (svg_natural s)"
  using assms by (auto simp: svg_set_property_def size_changed_def svg_ok_def split: prod.splits)

text \<open>Reading the width puts back the natural size but not the scale, after which the box no longer fits the picture.\<close>

lemma svg_get_breaks:
  assumes "svg_ok s" and "svg_get_property ''width'' s = (s', r)"
  shows "svg_ok s' \<longleftrightarrow> svg_sx s = 1 \<and> svg_sy s = 1"
  using assms by (auto simp: svg_get_property_def svg_ok_def Let_def)

end
