(* ===== verification/Viz_Scene.thy ===== *)
theory Viz_Scene
  imports Viz_Base
begin

unbundle bit_operations_syntax

text \<open>
  What the visualizer draws, \<^verbatim>\<open>src/visualizer/visualizer/core.py\<close>: nodes, channels and wired links with the
  properties of their canvas items, the bounds of the canvas, selection, dragging.  A node refers to its
  links by their place in the list of all links, as the program refers to the objects.  The simulated
  network is an argument.
\<close>

section \<open>Nodes, channels and links\<close>

text \<open>The end of a link: a node by its index or a channel by its identity.\<close>

datatype vobj = NodeObj int | ChannelObj int

record viz_node =
  nd_links :: "nat list"
  nd_has_mobility :: "bool option"
  nd_selected :: bool
  nd_highlighted :: bool
  nd_color :: int
  nd_size :: rat
  nd_svg :: "(svg_item \<times> rat \<times> rat) option"
  nd_label :: "string option"
  nd_label_item :: "(string \<times> point) option"
  nd_center :: point
  nd_radius :: rat
  nd_fill :: int
  nd_line_width :: rat
  nd_stroke :: string

record viz_channel =
  ch_center :: point
  ch_links :: "nat list"

text \<open>The path of a link is a line between two points, none before \<open>update_points\<close> is first called.\<close>

record wired_link =
  wl_node1 :: int
  wl_node2 :: vobj
  wl_data :: "(point \<times> point) option"

datatype show_mode = ShowAll | ShowNone | ShowSelected

text \<open>Where a drag of a node began, on the canvas and in the simulation.\<close>

record drag_state =
  dr_canvas0 :: point
  dr_sim0 :: point

text \<open>
  The canvas: its bounds, whether \<open>get_bounds\<close> of the installed library returns four numbers (where it
  does not, unpacking raises \<open>TypeError\<close>), and the bounds that \<open>set_bounds\<close> has registered before the start,
  in the coordinates of the simulation.
\<close>

record canvas =
  cv_bounds :: "point \<times> point"
  cv_returned :: bool
  cv_hooks :: "(point \<times> point) list"

record scene =
  sc_nodes :: "(int, viz_node) dict"
  sc_channels :: "(int, viz_channel) dict"
  sc_links :: "wired_link list"
  sc_canvas :: canvas
  sc_selected :: "int option"
  sc_mode :: show_mode
  sc_interest :: "int list"
  sc_drag :: "drag_state option"

definition DEFAULT_NODE_SIZE :: rat where
  "DEFAULT_NODE_SIZE = 1"

section \<open>Appearance and positions\<close>

text \<open>The first part of \<open>_update_appearance\<close>, which sets the properties of the ellipse.\<close>

definition appearance :: "viz_node \<Rightarrow> viz_node" where
  "appearance n =
     (let size = transform_distance_simulation_to_canvas (nd_size n);
          alpha = (if nd_svg n \<noteq> None then 0x80 else 0xff)
      in n\<lparr>nd_radius := size, nd_fill := (nd_color n AND 0xffffff00) OR alpha,
           nd_line_width := (if nd_selected n then size * (3 / 10) else size * (15 / 100)),
           nd_stroke := (if nd_highlighted n then ''yellow'' else ''black'')\<rparr>)"

definition new_node :: viz_node where
  "new_node = appearance
     \<lparr>nd_links = [], nd_has_mobility = None, nd_selected = False, nd_highlighted = False, nd_color = 0x808080ff,
      nd_size = DEFAULT_NODE_SIZE, nd_svg = None, nd_label = None, nd_label_item = None, nd_center = (0, 0),
      nd_radius = 0, nd_fill = 0, nd_line_width = 0, nd_stroke = []\<rparr>"

definition map_node :: "int \<Rightarrow> (viz_node \<Rightarrow> viz_node) \<Rightarrow> scene \<Rightarrow> scene" where
  "map_node i f sc = sc\<lparr>sc_nodes := AList.map_entry i f (sc_nodes sc)\<rparr>"

definition map_channel :: "int \<Rightarrow> (viz_channel \<Rightarrow> viz_channel) \<Rightarrow> scene \<Rightarrow> scene" where
  "map_channel c f sc = sc\<lparr>sc_channels := AList.map_entry c f (sc_channels sc)\<rparr>"

fun position_of :: "scene \<Rightarrow> vobj \<Rightarrow> point" where
  "position_of sc (NodeObj i) = (case map_of (sc_nodes sc) i of Some n \<Rightarrow> nd_center n | None \<Rightarrow> (0, 0))"
| "position_of sc (ChannelObj c) = (case map_of (sc_channels sc) c of Some ch \<Rightarrow> ch_center ch | None \<Rightarrow> (0, 0))"

definition update_points :: "nat \<Rightarrow> scene \<Rightarrow> scene" where
  "update_points k sc =
     (let l = sc_links sc ! k
      in sc\<lparr>sc_links := (sc_links sc)[k := l\<lparr>wl_data := Some (position_of sc (NodeObj (wl_node1 l)), position_of sc (wl_node2 l))\<rparr>]\<rparr>)"

fun links_of :: "scene \<Rightarrow> vobj \<Rightarrow> nat list" where
  "links_of sc (NodeObj i) = (case map_of (sc_nodes sc) i of Some n \<Rightarrow> nd_links n | None \<Rightarrow> [])"
| "links_of sc (ChannelObj c) = (case map_of (sc_channels sc) c of Some ch \<Rightarrow> ch_links ch | None \<Rightarrow> [])"

definition update_svg_position :: "point \<Rightarrow> viz_node \<Rightarrow> viz_node" where
  "update_svg_position p n = (case nd_svg n of None \<Rightarrow> n
     | Some (svg, ax, ay) \<Rightarrow>
         n\<lparr>nd_svg := Some (svg\<lparr>svg_x := fst p - (1 - ax) * svg_width svg, svg_y := snd p - (1 - ay) * svg_height svg\<rparr>, ax, ay)\<rparr>)"

text \<open>The end of \<open>set_position\<close>; the handler of \<open>TypeError\<close> does nothing.\<close>

definition grow_bounds :: "point \<Rightarrow> scene \<Rightarrow> scene" where
  "grow_bounds p sc =
     (if cv_returned (sc_canvas sc) then
        (let ((min_x, min_y), (max_x, max_y)) = cv_bounds (sc_canvas sc)
         in sc\<lparr>sc_canvas := (sc_canvas sc)\<lparr>cv_bounds :=
              ((min (fst p) min_x, min (snd p) min_y), (max (fst p) max_x, max (snd p) max_y))\<rparr>\<rparr>)
      else sc)"

text \<open>\<open>set_bounds\<close> of the module registers a hook, which an idle handler runs after the start.\<close>

definition viz_set_bounds :: "point \<Rightarrow> point \<Rightarrow> (point \<times> point) list \<Rightarrow> (point \<times> point) list res" where
  "viz_set_bounds p1 p2 hooks =
     (if fst p2 > fst p1 then if snd p2 > snd p1 then Inr (hooks @ [(p1, p2)]) else Inl AssertionError
      else Inl AssertionError)"

definition bounds_hook :: "point \<times> point \<Rightarrow> scene \<Rightarrow> scene" where
  "bounds_hook h sc = sc\<lparr>sc_canvas := (sc_canvas sc)\<lparr>cv_bounds :=
     (transform_point_simulation_to_canvas (fst h), transform_point_simulation_to_canvas (snd h))\<rparr>\<rparr>"

definition move_label :: "point \<Rightarrow> viz_node \<Rightarrow> viz_node" where
  "move_label p n = (case nd_label_item n of None \<Rightarrow> n
     | Some (t, _) \<Rightarrow> n\<lparr>nd_label_item := Some (t, (fst p, snd p + nd_size n * 3))\<rparr>)"

definition set_node_position :: "int \<Rightarrow> point \<Rightarrow> scene \<Rightarrow> scene" where
  "set_node_position i p sc =
     (let sc = map_node i (\<lambda>n. update_svg_position p (n\<lparr>nd_center := p\<rparr>)) sc;
          sc = fold update_points (links_of sc (NodeObj i)) sc;
          sc = map_node i (move_label p) sc
      in grow_bounds p sc)"

definition set_channel_position :: "int \<Rightarrow> point \<Rightarrow> scene \<Rightarrow> scene" where
  "set_channel_position c p sc =
     (let sc = map_channel c (\<lambda>ch. ch\<lparr>ch_center := p\<rparr>) sc
      in fold update_points (links_of sc (ChannelObj c)) sc)"

text \<open>The second part of \<open>_update_appearance\<close>: the text of the label, and its position through \<open>set_position\<close>.\<close>

definition label_text :: "viz_node \<Rightarrow> viz_node" where
  "label_text n = (case nd_label n of None \<Rightarrow> n
     | Some t \<Rightarrow> n\<lparr>nd_label_item := Some (t, case nd_label_item n of Some (_, p) \<Rightarrow> p | None \<Rightarrow> (0, 0))\<rparr>)"

definition update_appearance :: "int \<Rightarrow> scene \<Rightarrow> scene" where
  "update_appearance i sc =
     (let sc = map_node i (\<lambda>n. label_text (appearance n)) sc
      in case map_of (sc_nodes sc) i of
           Some n \<Rightarrow> if nd_label n \<noteq> None then set_node_position i (nd_center n) sc else sc
         | None \<Rightarrow> sc)"

definition change_node :: "int \<Rightarrow> (viz_node \<Rightarrow> viz_node) \<Rightarrow> scene \<Rightarrow> scene" where
  "change_node i f sc = update_appearance i (map_node i f sc)"

definition set_selected :: "int \<Rightarrow> bool \<Rightarrow> scene \<Rightarrow> scene" where
  "set_selected i b = change_node i (\<lambda>n. n\<lparr>nd_selected := b\<rparr>)"

definition set_highlighted :: "int \<Rightarrow> bool \<Rightarrow> scene \<Rightarrow> scene" where
  "set_highlighted i b = change_node i (\<lambda>n. n\<lparr>nd_highlighted := b\<rparr>)"

definition set_size :: "int \<Rightarrow> rat \<Rightarrow> scene \<Rightarrow> scene" where
  "set_size i s = change_node i (\<lambda>n. n\<lparr>nd_size := s\<rparr>)"

text \<open>The name \<open>basestring\<close> does not exist in Python 3.\<close>

definition set_label :: "bool \<Rightarrow> int \<Rightarrow> string \<Rightarrow> scene \<Rightarrow> scene res" where
  "set_label python3 i t sc = (if python3 then Inl NameError else Inr (change_node i (\<lambda>n. n\<lparr>nd_label := Some t\<rparr>) sc))"

text \<open>A colour is a number or a name, whose parts of sixteen bits are looked up.\<close>

datatype colour = Rgba int | Named string

definition colour_value :: "(string \<Rightarrow> int \<times> int \<times> int) \<Rightarrow> colour \<Rightarrow> int" where
  "colour_value color_parse c = (case c of Rgba v \<Rightarrow> v
     | Named s \<Rightarrow> (let (r, g, b) = color_parse s
        in push_bit 24 (drop_bit 8 r) OR push_bit 16 (drop_bit 8 g) OR push_bit 8 (drop_bit 8 b) OR 0xff))"

definition set_color :: "(string \<Rightarrow> int \<times> int \<times> int) \<Rightarrow> int \<Rightarrow> colour \<Rightarrow> scene \<Rightarrow> scene" where
  "set_color color_parse i c = change_node i (\<lambda>n. n\<lparr>nd_color := colour_value color_parse c\<rparr>)"

text \<open>\<open>set_svg_icon\<close>, with the natural size of the picture.\<close>

definition set_svg_icon :: "int \<Rightarrow> rat \<times> rat \<Rightarrow> rat option \<Rightarrow> rat option \<Rightarrow> rat \<Rightarrow> rat \<Rightarrow> scene \<Rightarrow> scene res" where
  "set_svg_icon i natural width height ax ay sc =
     (if width = None \<and> height = None then Inl (ValueError ''either width or height must be given'')
      else let p = position_of sc (NodeObj i);
               set = (\<lambda>name v s. case v of None \<Rightarrow> Inr s | Some d \<Rightarrow> svg_set_property name (transform_distance_simulation_to_canvas d) s)
           in res_bind (set ''width'' width (new_svg_item p natural)) (\<lambda>s.
              res_bind (set ''height'' height s) (\<lambda>s.
              Inr (change_node i (\<lambda>n. update_svg_position p (n\<lparr>nd_svg := Some (s, ax, ay)\<rparr>)) sc))))"

section \<open>Objects of the visualizer\<close>

definition get_node :: "int \<Rightarrow> scene \<Rightarrow> scene" where
  "get_node i sc = (if has_key (sc_nodes sc) i then sc else sc\<lparr>sc_nodes := AList.update i new_node (sc_nodes sc)\<rparr>)"

definition get_channel :: "int \<Rightarrow> scene \<Rightarrow> scene" where
  "get_channel c sc = (if has_key (sc_channels sc) c then sc
     else sc\<lparr>sc_channels := AList.update c \<lparr>ch_center = (0, 0), ch_links = []\<rparr> (sc_channels sc)\<rparr>)"

fun add_to_object :: "nat \<Rightarrow> vobj \<Rightarrow> scene \<Rightarrow> scene" where
  "add_to_object k (NodeObj i) sc = map_node i (\<lambda>n. n\<lparr>nd_links := nd_links n @ [k]\<rparr>) sc"
| "add_to_object k (ChannelObj c) sc = map_channel c (\<lambda>ch. ch\<lparr>ch_links := ch_links ch @ [k]\<rparr>) sc"

definition create_link :: "int \<Rightarrow> vobj \<Rightarrow> scene \<Rightarrow> scene" where
  "create_link i obj sc =
     (let k = length (sc_links sc)
      in add_to_object k obj (add_to_object k (NodeObj i)
           (sc\<lparr>sc_links := sc_links sc @ [\<lparr>wl_node1 = i, wl_node2 = obj, wl_data = None\<rparr>]\<rparr>)))"

section \<open>The simulated network\<close>

record net_device =
  dv_class :: string
  dv_channel :: "int option"

record network =
  nw_count :: nat
  nw_mobility :: "int \<Rightarrow> point option"
  nw_devices :: "int \<Rightarrow> net_device list"
  nw_channel_nodes :: "int \<Rightarrow> int list"

definition has_mobility :: "network \<Rightarrow> int \<Rightarrow> scene \<Rightarrow> scene \<times> bool" where
  "has_mobility net i sc = (case map_of (sc_nodes sc) i of
     Some n \<Rightarrow> (case nd_has_mobility n of
        Some b \<Rightarrow> (sc, b)
      | None \<Rightarrow> (let b = (nw_mobility net i \<noteq> None) in (map_node i (\<lambda>n. n\<lparr>nd_has_mobility := Some b\<rparr>) sc, b)))
   | None \<Rightarrow> (sc, nw_mobility net i \<noteq> None))"

definition update_one_position :: "network \<Rightarrow> int \<Rightarrow> scene \<Rightarrow> scene" where
  "update_one_position net i sc =
     (let (sc, b) = has_mobility net i sc
      in if b then case nw_mobility net i of
             Some pos \<Rightarrow> set_node_position i (transform_point_simulation_to_canvas pos) sc
           | None \<Rightarrow> sc
         else sc)"

definition update_node_positions :: "network \<Rightarrow> scene \<Rightarrow> scene" where
  "update_node_positions net sc = fold (update_one_position net) (map fst (sc_nodes sc)) sc"

section \<open>Selection and dragging\<close>

text \<open>What \<open>select_node\<close> may be given.\<close>

datatype node_ref = Ns3Node int | NodeIndex int | VizNode int | NoNode | OtherRef

definition resolve_node :: "node_ref \<Rightarrow> scene \<Rightarrow> (int option) res" where
  "resolve_node r sc = (case r of
     Ns3Node i \<Rightarrow> if has_key (sc_nodes sc) i then Inr (Some i) else Inl KeyError
   | NodeIndex i \<Rightarrow> if has_key (sc_nodes sc) i then Inr (Some i) else Inl KeyError
   | VizNode i \<Rightarrow> Inr (Some i)
   | NoNode \<Rightarrow> Inr None
   | OtherRef \<Rightarrow> Inl TypeError)"

definition selected_interest :: "scene \<Rightarrow> scene" where
  "selected_interest sc = sc\<lparr>sc_interest := (case sc_selected sc of None \<Rightarrow> [] | Some i \<Rightarrow> [i])\<rparr>"

definition set_show_transmissions_mode :: "nat \<Rightarrow> show_mode \<Rightarrow> scene \<Rightarrow> scene" where
  "set_show_transmissions_mode n_nodes m sc =
     (let sc = sc\<lparr>sc_mode := m\<rparr>
      in case m of ShowAll \<Rightarrow> sc\<lparr>sc_interest := map int [0..<n_nodes]\<rparr>
                 | ShowNone \<Rightarrow> sc\<lparr>sc_interest := []\<rparr>
                 | ShowSelected \<Rightarrow> selected_interest sc)"

definition deselect :: "scene \<Rightarrow> scene" where
  "deselect sc = (case sc_selected sc of None \<Rightarrow> sc | Some i \<Rightarrow> set_selected i False sc)"

definition select_resolved :: "int option \<Rightarrow> scene \<Rightarrow> scene" where
  "select_resolved node sc =
     (if node = sc_selected sc then sc
      else let sc = (deselect sc)\<lparr>sc_selected := node\<rparr>;
               sc = (case node of None \<Rightarrow> sc | Some i \<Rightarrow> set_selected i True sc)
           in if sc_mode sc = ShowSelected then selected_interest sc else sc)"

definition select_node :: "node_ref \<Rightarrow> scene \<Rightarrow> scene res" where
  "select_node r sc = res_bind (resolve_node r sc) (\<lambda>node. Inr (select_resolved node sc))"

definition begin_node_drag :: "network \<Rightarrow> int \<Rightarrow> point \<Rightarrow> scene \<Rightarrow> scene" where
  "begin_node_drag net i pointer sc = (case nw_mobility net i of
     None \<Rightarrow> sc
   | Some pos \<Rightarrow> if sc_drag sc \<noteq> None then sc else sc\<lparr>sc_drag := Some \<lparr>dr_canvas0 = pointer, dr_sim0 = pos\<rparr>\<rparr>)"

definition node_drag_motion :: "int \<Rightarrow> point \<Rightarrow> network \<times> scene \<Rightarrow> network \<times> scene" where
  "node_drag_motion i pointer = (\<lambda>(net, sc). case (nw_mobility net i, sc_drag sc) of
     (Some _, Some d) \<Rightarrow>
       (let dx = fst pointer - fst (dr_canvas0 d); dy = snd pointer - snd (dr_canvas0 d);
            pos = (fst (dr_sim0 d) + transform_distance_canvas_to_simulation dx, snd (dr_sim0 d) + transform_distance_canvas_to_simulation dy)
        in (net\<lparr>nw_mobility := (nw_mobility net)(i \<mapsto> pos)\<rparr>, set_node_position i (transform_point_simulation_to_canvas pos) sc))
   | _ \<Rightarrow> (net, sc))"

definition end_node_drag :: "scene \<Rightarrow> scene" where
  "end_node_drag sc = (case sc_drag sc of None \<Rightarrow> sc | Some _ \<Rightarrow> sc\<lparr>sc_drag := None\<rparr>)"

section \<open>Consistency of the scene\<close>

lemma map_of_entry [simp]: "map_of (AList.map_entry k f d) = (map_of d)(k := map_option f (map_of d k))"
  by (induction d) auto

lemma keys_map_entry [simp]: "map fst (AList.map_entry k f d) = map fst d"
  by (induction d) (auto)

lemma dict_wf_map_entry [simp]: "dict_wf (AList.map_entry k f d) = dict_wf d"
  by (simp add: dict_wf_def)

lemma has_key_map_entry [simp]: "has_key (AList.map_entry k f d) x = has_key d x"
  by (auto simp: has_key_def)

lemma map_node_fields [simp]:
  "sc_nodes (map_node i f sc) = AList.map_entry i f (sc_nodes sc)" "sc_channels (map_node i f sc) = sc_channels sc"
  "sc_links (map_node i f sc) = sc_links sc" "sc_canvas (map_node i f sc) = sc_canvas sc" "sc_selected (map_node i f sc) = sc_selected sc"
  "sc_mode (map_node i f sc) = sc_mode sc" "sc_interest (map_node i f sc) = sc_interest sc" "sc_drag (map_node i f sc) = sc_drag sc"
  by (simp_all add: map_node_def)

lemma map_channel_fields [simp]:
  "sc_channels (map_channel i f sc) = AList.map_entry i f (sc_channels sc)" "sc_nodes (map_channel i f sc) = sc_nodes sc"
  "sc_links (map_channel i f sc) = sc_links sc" "sc_canvas (map_channel i f sc) = sc_canvas sc" "sc_selected (map_channel i f sc) = sc_selected sc"
  "sc_mode (map_channel i f sc) = sc_mode sc" "sc_interest (map_channel i f sc) = sc_interest sc" "sc_drag (map_channel i f sc) = sc_drag sc"
  by (simp_all add: map_channel_def)

lemma update_points_fields [simp]:
  "sc_nodes (update_points k sc) = sc_nodes sc" "sc_channels (update_points k sc) = sc_channels sc" "sc_canvas (update_points k sc) = sc_canvas sc"
  "sc_selected (update_points k sc) = sc_selected sc" "sc_mode (update_points k sc) = sc_mode sc" "sc_interest (update_points k sc) = sc_interest sc"
  "sc_drag (update_points k sc) = sc_drag sc" "length (sc_links (update_points k sc)) = length (sc_links sc)"
  by (simp_all add: update_points_def Let_def)

lemma fold_points_fields [simp]:
  "sc_nodes (fold update_points ks sc) = sc_nodes sc" "sc_channels (fold update_points ks sc) = sc_channels sc"
  "sc_canvas (fold update_points ks sc) = sc_canvas sc" "sc_selected (fold update_points ks sc) = sc_selected sc"
  "sc_mode (fold update_points ks sc) = sc_mode sc" "sc_interest (fold update_points ks sc) = sc_interest sc"
  "sc_drag (fold update_points ks sc) = sc_drag sc" "length (sc_links (fold update_points ks sc)) = length (sc_links sc)"
  by (induction ks arbitrary: sc) simp_all

lemma position_cong: "sc_nodes sc = sc_nodes sc' \<Longrightarrow> sc_channels sc = sc_channels sc' \<Longrightarrow> position_of sc obj = position_of sc' obj"
  by (cases obj) simp_all

text \<open>A link with its path drawn through the present positions of its ends.\<close>

definition redrawn :: "scene \<Rightarrow> wired_link \<Rightarrow> wired_link" where
  "redrawn sc l = l\<lparr>wl_data := Some (position_of sc (NodeObj (wl_node1 l)), position_of sc (wl_node2 l))\<rparr>"

lemma redrawn_ends [simp]: "wl_node1 (redrawn sc l) = wl_node1 l" "wl_node2 (redrawn sc l) = wl_node2 l" "redrawn sc (redrawn sc l) = redrawn sc l"
  by (simp_all add: redrawn_def)

lemma redrawn_cong: "sc_nodes sc = sc_nodes sc' \<Longrightarrow> sc_channels sc = sc_channels sc' \<Longrightarrow> redrawn sc = redrawn sc'"
  by (intro ext) (simp add: redrawn_def position_cong [of sc sc'])

lemma fold_update_points:
  assumes "k < length (sc_links sc)"
  shows "sc_links (fold update_points ks sc) ! k = (if k \<in> set ks then redrawn sc (sc_links sc ! k) else sc_links sc ! k)"
  using assms
proof (induction ks arbitrary: sc)
  case (Cons j ks)
  have "redrawn (update_points j sc) = redrawn sc" by (rule redrawn_cong) simp_all
  moreover have "sc_links (update_points j sc) ! k = (if k = j then redrawn sc (sc_links sc ! k) else sc_links sc ! k)"
    using Cons.prems by (simp add: update_points_def redrawn_def Let_def)
  ultimately show ?case using Cons by (cases "k = j") auto
qed simp

section \<open>The invariant\<close>

definition ends_of :: "wired_link \<Rightarrow> vobj set" where
  "ends_of l = {NodeObj (wl_node1 l), wl_node2 l}"

fun exists_in :: "scene \<Rightarrow> vobj \<Rightarrow> bool" where
  "exists_in sc (NodeObj i) = has_key (sc_nodes sc) i"
| "exists_in sc (ChannelObj c) = has_key (sc_channels sc) c"

text \<open>Each link is registered at both ends, and drawn, if at all, between their positions.\<close>

definition link_ok :: "scene \<Rightarrow> nat \<Rightarrow> bool" where
  "link_ok sc k \<longleftrightarrow> (\<forall>obj \<in> ends_of (sc_links sc ! k). exists_in sc obj \<and> k \<in> set (links_of sc obj))
     \<and> (wl_data (sc_links sc ! k) = None \<or> sc_links sc ! k = redrawn sc (sc_links sc ! k))"

definition links_ok :: "scene \<Rightarrow> bool" where
  "links_ok sc \<longleftrightarrow> (\<forall>k < length (sc_links sc). link_ok sc k) \<and> (\<forall>obj. \<forall>k \<in> set (links_of sc obj). k < length (sc_links sc))"

text \<open>The canvas items of a node agree with its state.\<close>

definition label_ok :: "viz_node \<Rightarrow> bool" where
  "label_ok n \<longleftrightarrow> nd_label_item n = map_option (\<lambda>t. (t, (fst (nd_center n), snd (nd_center n) + nd_size n * 3))) (nd_label n)"

definition node_ok :: "viz_node \<Rightarrow> bool" where
  "node_ok n \<longleftrightarrow> appearance n = n \<and> label_ok n \<and> update_svg_position (nd_center n) n = n"

fun in_bounds :: "point \<times> point \<Rightarrow> point \<Rightarrow> bool" where
  "in_bounds ((a, b), (c, d)) p \<longleftrightarrow> a \<le> fst p \<and> fst p \<le> c \<and> b \<le> snd p \<and> snd p \<le> d"

text \<open>A position within the bounds, where the program can grow them and no hook replaces them.\<close>

definition inside :: "canvas \<Rightarrow> point \<Rightarrow> bool" where
  "inside cv p \<longleftrightarrow> (cv_returned cv \<and> cv_hooks cv = [] \<longrightarrow> in_bounds (cv_bounds cv) p)"

definition scene_inv :: "scene \<Rightarrow> bool" where
  "scene_inv sc \<longleftrightarrow> dict_wf (sc_nodes sc) \<and> dict_wf (sc_channels sc) \<and> links_ok sc \<and> inside (sc_canvas sc) (0, 0)
     \<and> (\<forall>i n. map_of (sc_nodes sc) i = Some n \<longrightarrow>
          node_ok n \<and> inside (sc_canvas sc) (nd_center n) \<and> (nd_selected n \<longleftrightarrow> sc_selected sc = Some i))"

text \<open>The invariant while one node is being changed, and with a given set of selected nodes.\<close>

definition inv_but :: "(viz_node \<Rightarrow> bool) \<Rightarrow> int \<Rightarrow> int set \<Rightarrow> scene \<Rightarrow> bool" where
  "inv_but Q j S sc \<longleftrightarrow> dict_wf (sc_nodes sc) \<and> dict_wf (sc_channels sc) \<and> links_ok sc \<and> inside (sc_canvas sc) (0, 0)
     \<and> (\<forall>i n. map_of (sc_nodes sc) i = Some n \<longrightarrow>
          (if i = j then Q n else node_ok n) \<and> inside (sc_canvas sc) (nd_center n) \<and> (nd_selected n \<longleftrightarrow> i \<in> S))"

lemma scene_inv_but: "scene_inv sc \<longleftrightarrow> inv_but node_ok j (set_option (sc_selected sc)) sc"
  by (auto simp: scene_inv_def inv_but_def)

lemma links_of_cong: "sc_nodes sc = sc_nodes sc' \<Longrightarrow> sc_channels sc = sc_channels sc' \<Longrightarrow> links_of sc obj = links_of sc' obj"
  by (cases obj) simp_all

lemma exists_cong: "sc_nodes sc = sc_nodes sc' \<Longrightarrow> sc_channels sc = sc_channels sc' \<Longrightarrow> exists_in sc obj = exists_in sc' obj"
  by (cases obj) simp_all

lemma links_ok_cong:
  assumes "sc_links sc' = sc_links sc" and "\<And>obj. exists_in sc' obj = exists_in sc obj" and "\<And>obj. links_of sc' obj = links_of sc obj"
    and "\<And>obj. position_of sc' obj = position_of sc obj"
  shows "links_ok sc' = links_ok sc"
proof -
  have "redrawn sc' = redrawn sc" by (rule ext) (simp add: redrawn_def assms(4) del: position_of.simps)
  then show ?thesis using assms by (simp add: links_ok_def link_ok_def)
qed

text \<open>A change of one node that keeps its links and its centre.\<close>

lemma map_node_objects:
  assumes "\<And>n. map_of (sc_nodes sc) i = Some n \<Longrightarrow> nd_links (f n) = nd_links n \<and> nd_center (f n) = nd_center n"
  shows "exists_in (map_node i f sc) obj = exists_in sc obj" "links_of (map_node i f sc) obj = links_of sc obj"
    "position_of (map_node i f sc) obj = position_of sc obj"
  using assms by (cases obj; auto split: option.splits)+

lemma map_node_inv:
  assumes "inv_but Q i S sc"
    and "\<And>n. map_of (sc_nodes sc) i = Some n \<Longrightarrow> Q n \<Longrightarrow> nd_links (f n) = nd_links n \<and> nd_center (f n) = nd_center n \<and> R (f n)"
    and "\<And>n. Q n \<Longrightarrow> (nd_selected n \<longleftrightarrow> i \<in> S) \<Longrightarrow> (nd_selected (f n) \<longleftrightarrow> i \<in> S')" and "S' - {i} = S - {i}"
  shows "inv_but R i S' (map_node i f sc)"
proof -
  have "links_ok (map_node i f sc) = links_ok sc"
    by (intro links_ok_cong map_node_objects) (use assms(1,2) in \<open>auto simp: inv_but_def\<close>)
  moreover have "j \<in> S' \<longleftrightarrow> j \<in> S" if "j \<noteq> i" for j using assms(4) that by blast
  ultimately show ?thesis using assms(1,2,3) by (auto simp: inv_but_def split: if_splits)
qed

definition named_label :: "viz_node \<Rightarrow> bool" where
  "named_label n \<longleftrightarrow> appearance n = n \<and> map_option fst (nd_label_item n) = nd_label n \<and> update_svg_position (nd_center n) n = n"

lemma node_ok_named: "node_ok n \<Longrightarrow> named_label n"
  by (auto simp: node_ok_def named_label_def label_ok_def option.map_comp comp_def option.map_ident)

lemma appearance_iff:
  "appearance n = n \<longleftrightarrow> nd_radius n = transform_distance_simulation_to_canvas (nd_size n)
     \<and> nd_fill n = (nd_color n AND 0xffffff00) OR (if nd_svg n \<noteq> None then 0x80 else 0xff)
     \<and> nd_line_width n = transform_distance_simulation_to_canvas (nd_size n) * (if nd_selected n then 3 / 10 else 15 / 100)
     \<and> nd_stroke n = (if nd_highlighted n then ''yellow'' else ''black'')"
  (is "_ \<longleftrightarrow> ?r")
proof
  assume a: "appearance n = n"
  show ?r
    using arg_cong [OF a, of nd_radius] arg_cong [OF a, of nd_fill] arg_cong [OF a, of nd_line_width] arg_cong [OF a, of nd_stroke]
    unfolding appearance_def Let_def by (simp split: if_splits)
next
  assume ?r
  then show "appearance n = n" by (intro viz_node.equality) (simp_all add: appearance_def Let_def)
qed

lemma moved_ok:
  assumes "named_label n"
  shows "node_ok (move_label p (update_svg_position p (n\<lparr>nd_center := p\<rparr>)))"
    "nd_links (move_label p (update_svg_position p (n\<lparr>nd_center := p\<rparr>))) = nd_links n"
    "nd_selected (move_label p (update_svg_position p (n\<lparr>nd_center := p\<rparr>))) = nd_selected n"
    "nd_center (move_label p (update_svg_position p (n\<lparr>nd_center := p\<rparr>))) = p"
proof -
  let ?n = "move_label p (update_svg_position p (n\<lparr>nd_center := p\<rparr>))"
  have "appearance ?n = ?n"
    using assms by (auto simp: named_label_def appearance_iff move_label_def update_svg_position_def split: option.splits)
  moreover have "label_ok ?n"
    using assms by (cases "nd_label n"; cases "nd_svg n")
      (auto simp: named_label_def label_ok_def move_label_def update_svg_position_def split: prod.splits)
  moreover have "nd_center ?n = p" "update_svg_position p ?n = ?n"
    by (auto simp: move_label_def update_svg_position_def split: option.splits)
  ultimately show "node_ok ?n" "nd_center ?n = p" by (simp_all add: node_ok_def)
  show "nd_links ?n = nd_links n" "nd_selected ?n = nd_selected n"
    by (auto simp: move_label_def update_svg_position_def split: option.splits)
qed

lemma inside_grow:
  "inside (sc_canvas sc) q \<Longrightarrow> inside (sc_canvas (grow_bounds p sc)) q" "inside (sc_canvas (grow_bounds p sc)) p"
  by (auto simp: grow_bounds_def inside_def split: prod.splits)

lemma grow_bounds_fields [simp]:
  "sc_nodes (grow_bounds p sc) = sc_nodes sc" "sc_channels (grow_bounds p sc) = sc_channels sc" "sc_links (grow_bounds p sc) = sc_links sc"
  "sc_selected (grow_bounds p sc) = sc_selected sc" "sc_mode (grow_bounds p sc) = sc_mode sc" "sc_interest (grow_bounds p sc) = sc_interest sc"
  "sc_drag (grow_bounds p sc) = sc_drag sc"
  by (auto simp: grow_bounds_def split: prod.splits)

text \<open>What \<open>set_position\<close> of a node does.\<close>

definition moved :: "point \<Rightarrow> viz_node \<Rightarrow> viz_node" where
  "moved p n = move_label p (update_svg_position p (n\<lparr>nd_center := p\<rparr>))"

lemma entry_twice: "AList.map_entry k f (AList.map_entry k g d) = AList.map_entry k (\<lambda>x. f (g x)) d"
  by (induction d) auto

lemma svg_links [simp]: "nd_links (update_svg_position p n) = nd_links n" "nd_center (update_svg_position p n) = nd_center n"
  by (auto simp: update_svg_position_def split: option.splits)

lemma set_node_position_fields:
  "sc_nodes (set_node_position i p sc) = AList.map_entry i (moved p) (sc_nodes sc)"
  "sc_channels (set_node_position i p sc) = sc_channels sc" "sc_selected (set_node_position i p sc) = sc_selected sc"
  "sc_mode (set_node_position i p sc) = sc_mode sc" "sc_interest (set_node_position i p sc) = sc_interest sc"
  "sc_drag (set_node_position i p sc) = sc_drag sc" "length (sc_links (set_node_position i p sc)) = length (sc_links sc)"
  "sc_canvas (set_node_position i p sc) = sc_canvas (grow_bounds p sc)"
  by (simp_all add: set_node_position_def Let_def entry_twice moved_def [abs_def] grow_bounds_def split: prod.splits)

lemma moved_simps [simp]: "nd_links (moved p n) = nd_links n" "nd_center (moved p n) = p" "nd_selected (moved p n) = nd_selected n"
  by (auto simp: moved_def move_label_def update_svg_position_def split: option.splits)

lemma set_node_position_objects:
  "exists_in (set_node_position i p sc) obj = exists_in sc obj" "links_of (set_node_position i p sc) obj = links_of sc obj"
  "position_of (set_node_position i p sc) obj = (if obj = NodeObj i \<and> has_key (sc_nodes sc) i then p else position_of sc obj)"
  by (cases obj; auto simp: set_node_position_fields has_key_def split: option.splits)+

lemma set_node_position_links:
  assumes "k < length (sc_links sc)"
  shows "sc_links (set_node_position i p sc) ! k
    = (if k \<in> set (links_of sc (NodeObj i)) then redrawn (set_node_position i p sc) (sc_links sc ! k) else sc_links sc ! k)"
proof -
  let ?sc = "map_node i (\<lambda>n. update_svg_position p (n\<lparr>nd_center := p\<rparr>)) sc"
  have pos: "position_of ?sc obj = position_of (set_node_position i p sc) obj" for obj
    by (cases obj) (auto simp: set_node_position_fields split: option.splits)
  have "links_of ?sc (NodeObj i) = links_of sc (NodeObj i)" by (auto split: option.splits)
  moreover have "redrawn ?sc = redrawn (set_node_position i p sc)" by (rule ext) (simp only: redrawn_def pos)
  moreover have "sc_links (set_node_position i p sc) = sc_links (fold update_points (links_of ?sc (NodeObj i)) ?sc)"
    by (simp only: set_node_position_def Let_def grow_bounds_fields map_node_fields)
  ultimately show ?thesis using fold_update_points [of k ?sc "links_of sc (NodeObj i)"] assms
    by (simp del: links_of.simps)
qed

lemma set_node_position_links_ok:
  assumes "links_ok sc"
  shows "links_ok (set_node_position i p sc)"
  unfolding links_ok_def set_node_position_fields set_node_position_objects
proof (intro conjI allI impI)
  show "\<forall>k\<in>set (links_of sc obj). k < length (sc_links sc)" for obj using assms by (simp add: links_ok_def)
  fix k assume k: "k < length (sc_links sc)"
  let ?l = "sc_links sc ! k"
  have ok: "link_ok sc k" using assms k by (simp add: links_ok_def)
  have l: "sc_links (set_node_position i p sc) ! k
    = (if k \<in> set (links_of sc (NodeObj i)) then redrawn (set_node_position i p sc) ?l else ?l)"
    by (rule set_node_position_links [OF k])
  have "ends_of (sc_links (set_node_position i p sc) ! k) = ends_of ?l" by (simp add: l ends_of_def del: links_of.simps)
  moreover have "wl_data ?l = None \<or> ?l = redrawn (set_node_position i p sc) ?l" if "k \<notin> set (links_of sc (NodeObj i))"
  proof -
    have "NodeObj i \<notin> ends_of ?l" using ok that by (auto simp: link_ok_def simp del: links_of.simps)
    then have "redrawn (set_node_position i p sc) ?l = redrawn sc ?l"
      by (simp only: redrawn_def set_node_position_objects) (auto simp: ends_of_def)
    then show ?thesis using ok by (simp add: link_ok_def)
  qed
  ultimately show "link_ok (set_node_position i p sc) k"
    using ok l by (simp add: link_ok_def set_node_position_objects del: links_of.simps)
qed

lemma set_node_position_inv:
  assumes "inv_but named_label i S sc"
  shows "inv_but node_ok j S (set_node_position i p sc)"
  using assms set_node_position_links_ok [of sc i p] moved_ok(1) [of _ p, folded moved_def]
    inside_grow(1) [where sc = sc and p = p] inside_grow(2) [of p sc]
  by (simp add: inv_but_def set_node_position_fields) fastforce

text \<open>A node before its appearance is updated.\<close>

definition changed_node :: "viz_node \<Rightarrow> bool" where
  "changed_node n \<longleftrightarrow> (nd_label n = None \<longrightarrow> nd_label_item n = None) \<and> update_svg_position (nd_center n) n = n"

lemma svg_fixed_iff:
  "update_svg_position p n = n \<longleftrightarrow> (case nd_svg n of None \<Rightarrow> True
     | Some (svg, ax, ay) \<Rightarrow> svg_x svg = fst p - (1 - ax) * svg_width svg \<and> svg_y svg = snd p - (1 - ay) * svg_height svg)"
  (is "_ \<longleftrightarrow> ?r")
proof (cases "nd_svg n")
  case (Some x)
  obtain svg ax ay where x: "nd_svg n = Some (svg, ax, ay)" using Some by (cases x) auto
  let ?s = "svg\<lparr>svg_x := fst p - (1 - ax) * svg_width svg, svg_y := snd p - (1 - ay) * svg_height svg\<rparr>"
  have "update_svg_position p n = n \<longleftrightarrow> ?s = svg"
  proof
    assume "update_svg_position p n = n"
    from arg_cong [OF this, of nd_svg] show "?s = svg" by (simp add: update_svg_position_def x)
  next
    assume "?s = svg"
    then show "update_svg_position p n = n" by (intro viz_node.equality) (simp_all add: update_svg_position_def x)
  qed
  also have "\<dots> \<longleftrightarrow> ?r"
  proof
    assume "?s = svg"
    from arg_cong [OF this, of svg_x] arg_cong [OF this, of svg_y] show ?r by (simp add: x)
  next
    assume ?r
    then show "?s = svg" by (intro svg_item.equality) (simp_all add: x)
  qed
  finally show ?thesis .
qed (simp add: update_svg_position_def)

lemma labelled_ok:
  assumes "changed_node n"
  shows "named_label (label_text (appearance n))" "nd_links (label_text (appearance n)) = nd_links n"
    "nd_center (label_text (appearance n)) = nd_center n" "nd_selected (label_text (appearance n)) = nd_selected n"
    "nd_label (label_text (appearance n)) = nd_label n"
proof -
  let ?n = "label_text (appearance n)"
  show k: "nd_links ?n = nd_links n" "nd_center ?n = nd_center n" "nd_selected ?n = nd_selected n" "nd_label ?n = nd_label n"
    by (simp_all add: label_text_def appearance_def Let_def split: option.splits)
  have "appearance ?n = ?n"
    by (auto simp: appearance_iff label_text_def split: option.splits) (simp_all add: appearance_def Let_def)
  moreover have "map_option fst (nd_label_item ?n) = nd_label ?n"
    using assms by (auto simp: changed_node_def label_text_def appearance_def Let_def split: option.splits)
  moreover have "update_svg_position (nd_center n) ?n = ?n"
    using assms unfolding svg_fixed_iff changed_node_def by (auto simp: label_text_def appearance_def Let_def split: option.splits)
  ultimately show "named_label ?n" by (simp add: named_label_def k)
qed

lemma named_unlabelled: "named_label n \<Longrightarrow> nd_label n = None \<Longrightarrow> node_ok n"
  by (simp add: named_label_def node_ok_def label_ok_def)

lemma update_appearance_inv:
  assumes "inv_but changed_node i S sc"
  shows "inv_but node_ok j S (update_appearance i sc)"
proof -
  let ?sc = "map_node i (\<lambda>n. label_text (appearance n)) sc"
  have m: "inv_but named_label i S ?sc" by (rule map_node_inv [OF assms]) (simp_all add: labelled_ok)
  show ?thesis
  proof (cases "map_of (sc_nodes ?sc) i")
    case None
    then have "inv_but node_ok j S ?sc" using m by (auto simp: inv_but_def split: if_splits)
    then show ?thesis using None by (simp add: update_appearance_def)
  next
    case (Some n)
    show ?thesis
    proof (cases "nd_label n = None")
      case True
      then have "inv_but node_ok j S ?sc" using m Some named_unlabelled by (fastforce simp: inv_but_def split: if_splits)
      then show ?thesis using Some True by (auto simp: update_appearance_def Let_def)
    next
      case False
      then show ?thesis using set_node_position_inv [OF m, where p = "nd_center n"] Some by (auto simp: update_appearance_def Let_def)
    qed
  qed
qed

lemma change_node_inv:
  assumes "inv_but node_ok i S sc"
    and "\<And>n. map_of (sc_nodes sc) i = Some n \<Longrightarrow> node_ok n \<Longrightarrow>
      nd_links (f n) = nd_links n \<and> nd_center (f n) = nd_center n \<and> changed_node (f n)"
    and "\<And>n. node_ok n \<Longrightarrow> (nd_selected n \<longleftrightarrow> i \<in> S) \<Longrightarrow> (nd_selected (f n) \<longleftrightarrow> i \<in> S')" and "S' - {i} = S - {i}"
  shows "inv_but node_ok j S' (change_node i f sc)"
  unfolding change_node_def using assms by (intro update_appearance_inv map_node_inv)

lemma node_ok_changed: "node_ok n \<Longrightarrow> changed_node n"
  by (simp add: node_ok_def changed_node_def label_ok_def)

lemma update_appearance_kept [simp]:
  "sc_selected (update_appearance i sc) = sc_selected sc" "sc_mode (update_appearance i sc) = sc_mode sc"
  "sc_interest (update_appearance i sc) = sc_interest sc" "sc_drag (update_appearance i sc) = sc_drag sc"
  "sc_channels (update_appearance i sc) = sc_channels sc" "length (sc_links (update_appearance i sc)) = length (sc_links sc)"
  by (auto simp: update_appearance_def Let_def set_node_position_fields split: option.splits)

lemma change_node_kept [simp]:
  "sc_selected (change_node i f sc) = sc_selected sc" "sc_mode (change_node i f sc) = sc_mode sc"
  "sc_interest (change_node i f sc) = sc_interest sc" "sc_drag (change_node i f sc) = sc_drag sc"
  "sc_channels (change_node i f sc) = sc_channels sc" "length (sc_links (change_node i f sc)) = length (sc_links sc)"
  by (simp_all add: change_node_def)

text \<open>A change that does not touch links, centre, label, selection or picture.\<close>

definition plain_change :: "(viz_node \<Rightarrow> viz_node) \<Rightarrow> bool" where
  "plain_change f \<longleftrightarrow> (\<forall>n. nd_links (f n) = nd_links n \<and> nd_center (f n) = nd_center n \<and> nd_selected (f n) = nd_selected n
     \<and> (node_ok n \<longrightarrow> changed_node (f n)))"

lemma plain_change_inv: "scene_inv sc \<Longrightarrow> plain_change f \<Longrightarrow> scene_inv (change_node i f sc)"
  unfolding scene_inv_but [where j = i] change_node_kept by (rule change_node_inv) (auto simp: plain_change_def)

lemma plain_changes:
  "plain_change (\<lambda>n. n\<lparr>nd_highlighted := b\<rparr>)" "plain_change (\<lambda>n. n\<lparr>nd_size := s\<rparr>)" "plain_change (\<lambda>n. n\<lparr>nd_color := c\<rparr>)"
  "plain_change (\<lambda>n. n\<lparr>nd_label := Some t\<rparr>)"
  by (auto simp: plain_change_def changed_node_def node_ok_def svg_fixed_iff label_ok_def split: option.splits)

section \<open>Every operation keeps the invariant\<close>

lemma set_node_position_scene_inv: "scene_inv sc \<Longrightarrow> scene_inv (set_node_position i p sc)"
  unfolding scene_inv_but [where j = i] set_node_position_fields
  by (rule set_node_position_inv) (auto simp: inv_but_def intro: node_ok_named)

lemma map_channel_objects:
  assumes "\<And>n. ch_links (f n) = ch_links n"
  shows "exists_in (map_channel i f sc) obj = exists_in sc obj" "links_of (map_channel i f sc) obj = links_of sc obj"
  using assms by (cases obj; auto split: option.splits)+

lemma set_channel_position_inv:
  assumes "scene_inv sc"
  shows "scene_inv (set_channel_position c p sc)"
proof -
  let ?m = "map_channel c (\<lambda>ch. ch\<lparr>ch_center := p\<rparr>) sc"
  let ?t = "fold update_points (links_of sc (ChannelObj c)) ?m"
  have t: "set_channel_position c p sc = ?t"
    using map_channel_objects [of "\<lambda>ch. ch\<lparr>ch_center := p\<rparr>" c sc "ChannelObj c"] by (simp add: set_channel_position_def Let_def)
  have red: "redrawn ?t = redrawn ?m" by (rule redrawn_cong) simp_all
  have ol: "exists_in ?t obj = exists_in sc obj" "links_of ?t obj = links_of sc obj" for obj
    by (cases obj; auto split: option.splits)+
  have "link_ok ?t k" if k: "k < length (sc_links sc)" for k
  proof -
    let ?l = "sc_links sc ! k"
    have ok: "link_ok sc k" using assms k by (simp add: scene_inv_def links_ok_def)
    have l: "sc_links ?t ! k = (if k \<in> set (links_of sc (ChannelObj c)) then redrawn ?m ?l else ?l)"
      using fold_update_points [of k ?m "links_of sc (ChannelObj c)"] k by (simp del: links_of.simps)
    have "?l = redrawn ?m ?l \<or> wl_data ?l = None" if "k \<notin> set (links_of sc (ChannelObj c))"
    proof -
      have "ChannelObj c \<notin> ends_of ?l" using ok that by (auto simp: link_ok_def simp del: links_of.simps)
      then have "redrawn ?m ?l = redrawn sc ?l"
        by (cases "wl_node2 ?l") (auto simp: redrawn_def ends_of_def)
      then show ?thesis using ok by (auto simp: link_ok_def)
    qed
    then show ?thesis using ok by (auto simp: link_ok_def l ol red ends_of_def simp del: links_of.simps)
  qed
  then have "links_ok ?t" using assms by (simp add: links_ok_def ol scene_inv_def del: links_of.simps)
  then show ?thesis using assms by (simp add: t scene_inv_def)
qed

lemma new_node_ok: "node_ok new_node" "nd_links new_node = []" "nd_center new_node = (0, 0)" "\<not> nd_selected new_node"
  by (simp_all add: new_node_def node_ok_def label_ok_def appearance_iff svg_fixed_iff) (simp_all add: appearance_def Let_def)

lemma fresh_object_links_ok:
  assumes "links_ok sc" and "sc_links sc' = sc_links sc" and "\<And>obj. exists_in sc obj \<Longrightarrow> exists_in sc' obj"
    and "\<And>obj. links_of sc' obj = links_of sc obj" and "\<And>obj. position_of sc' obj = position_of sc obj"
  shows "links_ok sc'"
proof -
  have "redrawn sc' = redrawn sc" by (rule ext) (simp only: redrawn_def assms(5))
  then show ?thesis using assms(1-4) by (auto simp: links_ok_def link_ok_def simp del: links_of.simps)
qed

text \<open>The selected node is one of the nodes: a new node is not selected.\<close>

definition selection_known :: "scene \<Rightarrow> bool" where
  "selection_known sc \<longleftrightarrow> (\<forall>i. sc_selected sc = Some i \<longrightarrow> has_key (sc_nodes sc) i)"

lemma get_node_inv:
  assumes "scene_inv sc" and "selection_known sc"
  shows "scene_inv (get_node i sc) \<and> selection_known (get_node i sc)"
proof (cases "has_key (sc_nodes sc) i")
  case False
  let ?t = "sc\<lparr>sc_nodes := AList.update i new_node (sc_nodes sc)\<rparr>"
  have n: "map_of (sc_nodes sc) i = None" using False by (simp add: has_key_def)
  have "links_ok ?t"
  proof (rule fresh_object_links_ok)
    show "links_ok sc" using assms by (simp add: scene_inv_def)
    show "exists_in sc obj \<Longrightarrow> exists_in ?t obj" for obj by (cases obj) simp_all
    show "links_of ?t obj = links_of sc obj" "position_of ?t obj = position_of sc obj" for obj
      by (cases obj; simp add: n new_node_ok)+
  qed simp
  then show ?thesis using assms False by (auto simp: get_node_def scene_inv_def selection_known_def new_node_ok)
qed (use assms in \<open>simp add: get_node_def\<close>)

lemma get_channel_inv: "scene_inv sc \<Longrightarrow> scene_inv (get_channel c sc)"
proof (cases "has_key (sc_channels sc) c")
  case False
  assume a: "scene_inv sc"
  let ?t = "sc\<lparr>sc_channels := AList.update c \<lparr>ch_center = (0, 0), ch_links = []\<rparr> (sc_channels sc)\<rparr>"
  have n: "map_of (sc_channels sc) c = None" using False by (simp add: has_key_def)
  have "links_ok ?t"
  proof (rule fresh_object_links_ok)
    show "links_ok sc" using a by (simp add: scene_inv_def)
    show "exists_in sc obj \<Longrightarrow> exists_in ?t obj" for obj by (cases obj) simp_all
    show "links_of ?t obj = links_of sc obj" "position_of ?t obj = position_of sc obj" for obj
      by (cases obj; simp add: n)+
  qed simp
  then show ?thesis using a False by (simp add: get_channel_def scene_inv_def)
qed (simp add: get_channel_def)

lemma node_ok_links [simp]: "node_ok (n\<lparr>nd_links := ks\<rparr>) = node_ok n"
  by (simp add: node_ok_def appearance_iff label_ok_def svg_fixed_iff)

lemma node_ok_mobility [simp]: "node_ok (n\<lparr>nd_has_mobility := b\<rparr>) = node_ok n"
  by (simp add: node_ok_def appearance_iff label_ok_def svg_fixed_iff)

lemma add_to_object_objects:
  "exists_in (add_to_object k a sc) obj = exists_in sc obj" "position_of (add_to_object k a sc) obj = position_of sc obj"
  "links_of (add_to_object k a sc) obj = links_of sc obj @ (if obj = a \<and> exists_in sc a then [k] else [])"
  "sc_links (add_to_object k a sc) = sc_links sc" "sc_selected (add_to_object k a sc) = sc_selected sc"
  "sc_mode (add_to_object k a sc) = sc_mode sc" "sc_interest (add_to_object k a sc) = sc_interest sc"
  by (cases a; cases obj; auto simp: has_key_def split: option.splits)+

lemma add_to_object_nodes:
  assumes "\<And>i n. map_of (sc_nodes sc) i = Some n \<Longrightarrow> P i n" and "\<And>i n ks. P i n \<Longrightarrow> P i (n\<lparr>nd_links := ks\<rparr>)"
    and "map_of (sc_nodes (add_to_object k a sc)) i = Some n"
  shows "P i n"
  using assms by (cases a) (auto split: if_splits)

lemma add_to_object_wf [simp]:
  "dict_wf (sc_nodes (add_to_object k a sc)) = dict_wf (sc_nodes sc)" "dict_wf (sc_channels (add_to_object k a sc)) = dict_wf (sc_channels sc)"
  "sc_canvas (add_to_object k a sc) = sc_canvas sc" "has_key (sc_nodes (add_to_object k a sc)) i = has_key (sc_nodes sc) i"
  "sc_drag (add_to_object k a sc) = sc_drag sc"
  by (cases a; simp)+

lemma create_link_objects:
  "exists_in (create_link i a sc) obj = exists_in sc obj" "position_of (create_link i a sc) obj = position_of sc obj"
  "sc_links (create_link i a sc) = sc_links sc @ [\<lparr>wl_node1 = i, wl_node2 = a, wl_data = None\<rparr>]"
  "sc_selected (create_link i a sc) = sc_selected sc"
  "links_of (create_link i a sc) obj = links_of sc obj
     @ (if obj = NodeObj i \<and> has_key (sc_nodes sc) i then [length (sc_links sc)] else [])
     @ (if obj = a \<and> exists_in sc a then [length (sc_links sc)] else [])"
  by (cases a; cases obj; auto simp: create_link_def Let_def has_key_def split: option.splits)+

lemma create_link_inv:
  assumes "scene_inv sc" and "has_key (sc_nodes sc) i" and "exists_in sc a"
  shows "scene_inv (create_link i a sc)"
proof -
  let ?t = "create_link i a sc"
  have ok: "links_ok sc" using assms(1) by (simp add: scene_inv_def)
  have red: "redrawn ?t = redrawn sc" by (rule ext) (simp only: redrawn_def create_link_objects)
  have "link_ok ?t k" if "k < length (sc_links sc)" for k
  proof -
    have "sc_links ?t ! k = sc_links sc ! k" using that by (simp add: create_link_objects nth_append)
    moreover have "link_ok sc k" using ok that by (simp add: links_ok_def)
    ultimately show ?thesis by (simp add: link_ok_def red create_link_objects del: links_of.simps)
  qed
  moreover have "link_ok ?t (length (sc_links sc))"
    using assms(2,3) by (auto simp: link_ok_def create_link_objects ends_of_def simp del: links_of.simps)
  moreover have "k < length (sc_links sc)" if "k \<in> set (links_of sc obj)" for obj k
    using ok that by (simp add: links_ok_def del: links_of.simps)
  ultimately have "links_ok ?t"
    by (auto simp: links_ok_def create_link_objects less_Suc_eq less_SucI simp del: links_of.simps)
  moreover have "node_ok n \<and> inside (sc_canvas sc) (nd_center n) \<and> (nd_selected n \<longleftrightarrow> sc_selected sc = Some j)"
    if "map_of (sc_nodes ?t) j = Some n" for j n
    using that unfolding create_link_def Let_def
    by (rule add_to_object_nodes [rotated 2], elim add_to_object_nodes [rotated 2])
      (use assms(1) in \<open>auto simp: scene_inv_def\<close>)
  ultimately show ?thesis using assms(1) by (simp add: scene_inv_def create_link_objects) (simp add: create_link_def Let_def)
qed

lemma map_node_scene_inv:
  assumes "scene_inv sc" and "\<And>n. node_ok n \<Longrightarrow> nd_links (f n) = nd_links n \<and> nd_center (f n) = nd_center n \<and> nd_selected (f n) = nd_selected n \<and> node_ok (f n)"
  shows "scene_inv (map_node i f sc)"
  using assms unfolding scene_inv_but [where j = i] by (auto intro!: map_node_inv)

lemma has_mobility_inv: "scene_inv sc \<Longrightarrow> scene_inv (fst (has_mobility net i sc))"
  by (auto simp: has_mobility_def Let_def split: option.splits intro: map_node_scene_inv)

lemma has_mobility_fields [simp]:
  "sc_selected (fst (has_mobility net i sc)) = sc_selected sc" "has_key (sc_nodes (fst (has_mobility net i sc))) = has_key (sc_nodes sc)"
  "map fst (sc_nodes (fst (has_mobility net i sc))) = map fst (sc_nodes sc)" "sc_channels (fst (has_mobility net i sc)) = sc_channels sc"
  "sc_links (fst (has_mobility net i sc)) = sc_links sc"
  by (auto simp: has_mobility_def Let_def split: option.splits)

lemma has_key_position [simp]: "has_key (sc_nodes (set_node_position i p sc)) = has_key (sc_nodes sc)"
  by (rule ext) (simp add: set_node_position_fields)

lemma update_one_position_inv: "scene_inv sc \<Longrightarrow> scene_inv (update_one_position net i sc)"
  using has_mobility_inv [of sc net i]
  by (auto simp: update_one_position_def split: prod.splits option.splits intro: set_node_position_scene_inv)

lemma update_one_position_fields [simp]:
  "sc_selected (update_one_position net i sc) = sc_selected sc" "has_key (sc_nodes (update_one_position net i sc)) = has_key (sc_nodes sc)"
  by (simp_all add: update_one_position_def case_prod_beta set_node_position_fields(3) split: option.splits)

lemma update_node_positions_inv:
  "scene_inv sc \<Longrightarrow> scene_inv (update_node_positions net sc)"
  "sc_selected (update_node_positions net sc) = sc_selected sc" "has_key (sc_nodes (update_node_positions net sc)) = has_key (sc_nodes sc)"
proof -
  have "scene_inv sc \<longrightarrow> scene_inv (fold (update_one_position net) is sc)" 
    "sc_selected (fold (update_one_position net) is sc) = sc_selected sc"
    "has_key (sc_nodes (fold (update_one_position net) is sc)) = has_key (sc_nodes sc)" for "is"
    by (induction "is" arbitrary: sc) (simp_all add: update_one_position_inv)
  then show "scene_inv sc \<Longrightarrow> scene_inv (update_node_positions net sc)"
    "sc_selected (update_node_positions net sc) = sc_selected sc" "has_key (sc_nodes (update_node_positions net sc)) = has_key (sc_nodes sc)"
    by (simp_all add: update_node_positions_def)
qed

lemma inv_but_sel [simp]:
  "inv_but Q j S (sc\<lparr>sc_selected := x\<rparr>) = inv_but Q j S sc" "inv_but Q j S (sc\<lparr>sc_interest := y\<rparr>) = inv_but Q j S sc"
  "inv_but Q j S (sc\<lparr>sc_mode := m\<rparr>) = inv_but Q j S sc" "inv_but Q j S (sc\<lparr>sc_drag := d\<rparr>) = inv_but Q j S sc"
proof -
  have "links_ok (sc\<lparr>sc_selected := x\<rparr>) = links_ok sc" "links_ok (sc\<lparr>sc_interest := y\<rparr>) = links_ok sc"
    "links_ok (sc\<lparr>sc_mode := m\<rparr>) = links_ok sc" "links_ok (sc\<lparr>sc_drag := d\<rparr>) = links_ok sc"
    by (rule links_ok_cong; (rule exists_cong links_of_cong position_cong)?; simp)+
  then show "inv_but Q j S (sc\<lparr>sc_selected := x\<rparr>) = inv_but Q j S sc" "inv_but Q j S (sc\<lparr>sc_interest := y\<rparr>) = inv_but Q j S sc"
    "inv_but Q j S (sc\<lparr>sc_mode := m\<rparr>) = inv_but Q j S sc" "inv_but Q j S (sc\<lparr>sc_drag := d\<rparr>) = inv_but Q j S sc"
    by (simp_all add: inv_but_def)
qed

lemma set_selected_inv: "inv_but node_ok i S sc \<Longrightarrow> inv_but node_ok j (if b then insert i S else S - {i}) (set_selected i b sc)"
  unfolding set_selected_def
  by (rule change_node_inv [where S = S]) (auto simp: changed_node_def node_ok_def label_ok_def svg_fixed_iff)

lemma inv_but_node_ok: "inv_but node_ok j S sc = inv_but node_ok i S sc"
  by (auto simp: inv_but_def)

lemma deselect_inv:
  assumes "scene_inv sc"
  shows "inv_but node_ok j {} (deselect sc)"
proof (cases "sc_selected sc")
  case (Some i)
  have "inv_but node_ok i {i} sc" using assms Some scene_inv_but [of sc i] by simp
  from set_selected_inv [OF this, of j False] show ?thesis by (simp add: deselect_def Some)
qed (use assms scene_inv_but [of sc j] in \<open>simp add: deselect_def\<close>)

lemma selected_interest_fields [simp]: "sc_selected (selected_interest sc) = sc_selected sc" "sc_nodes (selected_interest sc) = sc_nodes sc"
  "inv_but Q j S (selected_interest sc) = inv_but Q j S sc" "sc_mode (selected_interest sc) = sc_mode sc"
  by (simp_all add: selected_interest_def)

lemma select_resolved_inv:
  assumes "scene_inv sc"
  shows "scene_inv (select_resolved node sc) \<and> sc_selected (select_resolved node sc) = node"
proof (cases "node = sc_selected sc")
  case False
  let ?d = "(deselect sc)\<lparr>sc_selected := node\<rparr>"
  let ?t = "case node of None \<Rightarrow> ?d | Some i \<Rightarrow> set_selected i True ?d"
  have d: "inv_but node_ok j {} ?d" for j using deselect_inv [OF assms] by simp
  have "inv_but node_ok 0 (set_option node) ?t \<and> sc_selected ?t = node"
  proof (cases node)
    case (Some i)
    then show ?thesis using set_selected_inv [OF d, where j = 0 and i = i and b = True] by (simp add: set_selected_def)
  qed (use d in simp)
  then have "scene_inv ?t" "sc_selected ?t = node" using scene_inv_but [of ?t 0] by simp_all
  moreover have "scene_inv (selected_interest ?t)" using calculation scene_inv_but [of "selected_interest ?t" 0] scene_inv_but [of ?t 0] by simp
  ultimately show ?thesis using False by (simp add: select_resolved_def Let_def)
qed (use assms in \<open>simp add: select_resolved_def\<close>)

lemma has_key_change [simp]: "has_key (sc_nodes (change_node i f sc)) = has_key (sc_nodes sc)"
  by (rule ext) (auto simp: change_node_def update_appearance_def Let_def set_node_position_fields split: option.splits)

lemma has_key_select [simp]: "has_key (sc_nodes (select_resolved node sc)) = has_key (sc_nodes sc)"
  by (auto simp: select_resolved_def deselect_def set_selected_def Let_def split: option.splits)

lemma set_svg_icon_inv:
  assumes "scene_inv sc" and "set_svg_icon i natural w h ax ay sc = Inr sc'"
  shows "scene_inv sc' \<and> sc_selected sc' = sc_selected sc \<and> has_key (sc_nodes sc') = has_key (sc_nodes sc)"
proof -
  let ?p = "position_of sc (NodeObj i)"
  obtain s where s: "sc' = change_node i (\<lambda>n. update_svg_position ?p (n\<lparr>nd_svg := Some (s, ax, ay)\<rparr>)) sc"
    using assms(2) by (auto simp: set_svg_icon_def Let_def res_bind_eq_Inr split: if_splits)
  have "inv_but node_ok i (set_option (sc_selected sc)) sc'"
    unfolding s
  proof (rule change_node_inv)
    show "inv_but node_ok i (set_option (sc_selected sc)) sc" using assms(1) scene_inv_but by blast
    fix n assume n: "map_of (sc_nodes sc) i = Some n" "node_ok n"
    let ?n = "update_svg_position ?p (n\<lparr>nd_svg := Some (s, ax, ay)\<rparr>)"
    have "nd_center ?n = ?p" "nd_label ?n = nd_label n" "nd_label_item ?n = nd_label_item n" "update_svg_position ?p ?n = ?n"
      using n(1) by (simp_all add: update_svg_position_def)
    then show "nd_links ?n = nd_links n \<and> nd_center ?n = nd_center n \<and> changed_node ?n"
      using n by (simp add: changed_node_def node_ok_def label_ok_def)
  qed (auto simp: update_svg_position_def)
  then show ?thesis using scene_inv_but [of sc' i] by (simp add: s)
qed

section \<open>What the user and the simulation can do\<close>

text \<open>The handler of the node size control.\<close>

definition node_size_changed :: "rat \<Rightarrow> scene \<Rightarrow> scene" where
  "node_size_changed v sc = fold (\<lambda>i. set_size i v) (map fst (sc_nodes sc)) sc"

inductive scene_step :: "scene \<Rightarrow> scene \<Rightarrow> bool" where
  select: "select_node r sc = Inr sc' \<Longrightarrow> (\<And>i. r = VizNode i \<Longrightarrow> has_key (sc_nodes sc) i) \<Longrightarrow> scene_step sc sc'"
| highlight: "scene_step sc (set_highlighted i b sc)"
| resize: "scene_step sc (node_size_changed v sc)"
| colour: "scene_step sc (set_color color_parse i c sc)"
| label: "set_label python3 i t sc = Inr sc' \<Longrightarrow> scene_step sc sc'"
| icon: "set_svg_icon i natural w h ax ay sc = Inr sc' \<Longrightarrow> scene_step sc sc'"
| mode: "scene_step sc (set_show_transmissions_mode n m sc)"
| update: "scene_step sc (update_node_positions net sc)"
| drag_begin: "scene_step sc (begin_node_drag net i p sc)"
| drag_motion: "scene_step sc (snd (node_drag_motion i p (net, sc)))"
| drag_end: "scene_step sc (end_node_drag sc)"
| node: "scene_step sc (get_node i sc)"
| channel: "scene_step sc (get_channel c sc)"
| link: "has_key (sc_nodes sc) i \<Longrightarrow> exists_in sc a \<Longrightarrow> scene_step sc (create_link i a sc)"
| place_node: "scene_step sc (set_node_position i p sc)"
| place_channel: "scene_step sc (set_channel_position c p sc)"
| hook: "h \<in> set (cv_hooks (sc_canvas sc)) \<Longrightarrow> scene_step sc (bounds_hook h sc)"

text \<open>The scene at the start; the bounds of the canvas are those of \<open>create_gui\<close>.\<close>

definition new_scene :: "bool \<Rightarrow> (point \<times> point) list \<Rightarrow> nat \<Rightarrow> scene" where
  "new_scene returned hooks n_nodes = \<lparr>sc_nodes = [], sc_channels = [], sc_links = [],
     sc_canvas = \<lparr>cv_bounds = ((-10000, -10000), (10000, 10000)), cv_returned = returned, cv_hooks = hooks\<rparr>,
     sc_selected = None, sc_mode = ShowAll, sc_interest = map int [0..<n_nodes], sc_drag = None\<rparr>"

lemma scene_inv_sel [simp]:
  "scene_inv (sc\<lparr>sc_interest := y\<rparr>) = scene_inv sc" "scene_inv (sc\<lparr>sc_mode := m\<rparr>) = scene_inv sc" "scene_inv (sc\<lparr>sc_drag := d\<rparr>) = scene_inv sc"
  by (simp_all add: scene_inv_but [where j = 0])

definition scene_good :: "scene \<Rightarrow> bool" where
  "scene_good sc \<longleftrightarrow> scene_inv sc \<and> selection_known sc"

lemma scene_goodI: "scene_inv sc' \<Longrightarrow> sc_selected sc' = sc_selected sc \<Longrightarrow> has_key (sc_nodes sc') = has_key (sc_nodes sc) \<Longrightarrow> scene_good sc \<Longrightarrow> scene_good sc'"
  by (simp add: scene_good_def selection_known_def)

lemma plain_good: "scene_good sc \<Longrightarrow> plain_change f \<Longrightarrow> scene_good (change_node i f sc)"
  by (rule scene_goodI [of _ sc]) (simp_all add: plain_change_inv scene_good_def)

lemma node_size_good: "scene_good sc \<Longrightarrow> scene_good (node_size_changed v sc)"
proof -
  have "scene_good (fold (\<lambda>i. set_size i v) ks sc)" if "scene_good sc" for ks
    using that by (induction ks arbitrary: sc) (simp_all add: set_size_def plain_good plain_changes)
  then show "scene_good sc \<Longrightarrow> scene_good (node_size_changed v sc)" by (simp add: node_size_changed_def)
qed

lemma select_good:
  assumes "scene_good sc" and "select_node r sc = Inr sc'" and "\<And>i. r = VizNode i \<Longrightarrow> has_key (sc_nodes sc) i"
  shows "scene_good sc'"
proof -
  obtain node where n: "resolve_node r sc = Inr node" "sc' = select_resolved node sc"
    using assms(2) by (auto simp: select_node_def res_bind_eq_Inr)
  have "has_key (sc_nodes sc) i" if "node = Some i" for i
    using n(1) assms(3) that by (auto simp: resolve_node_def split: node_ref.splits if_splits)
  then show ?thesis using select_resolved_inv [of sc node] assms(1) n(2) by (auto simp: scene_good_def selection_known_def)
qed

lemma position_good: "scene_good sc \<Longrightarrow> scene_good (set_node_position i p sc)"
  by (rule scene_goodI [of _ sc]) (simp_all add: set_node_position_scene_inv set_node_position_fields(3) scene_good_def)

lemma channel_position_good: "scene_good sc \<Longrightarrow> scene_good (set_channel_position c p sc)"
  by (rule scene_goodI [of _ sc]) (simp_all add: set_channel_position_inv scene_good_def, simp_all add: set_channel_position_def Let_def)

lemma create_link_good: "scene_good sc \<Longrightarrow> has_key (sc_nodes sc) i \<Longrightarrow> exists_in sc a \<Longrightarrow> scene_good (create_link i a sc)"
  by (rule scene_goodI [of _ sc]) (simp_all add: create_link_inv create_link_objects scene_good_def, rule ext, simp add: create_link_def Let_def)

lemma get_channel_good: "scene_good sc \<Longrightarrow> scene_good (get_channel c sc)"
  by (rule scene_goodI [of _ sc]) (simp_all add: get_channel_inv scene_good_def, simp_all add: get_channel_def)

lemma mode_good: "scene_good sc \<Longrightarrow> scene_good (set_show_transmissions_mode n m sc)"
  by (cases m) (auto simp: set_show_transmissions_mode_def scene_good_def selection_known_def selected_interest_def Let_def)

lemma icon_good: "scene_good sc \<Longrightarrow> set_svg_icon i natural w h ax ay sc = Inr sc' \<Longrightarrow> scene_good sc'"
  using set_svg_icon_inv [of sc i natural w h ax ay sc'] by (auto simp: scene_good_def selection_known_def)

lemma label_good: "scene_good sc \<Longrightarrow> set_label python3 i t sc = Inr sc' \<Longrightarrow> scene_good sc'"
  by (auto simp: set_label_def plain_good plain_changes split: if_splits)

lemma update_good: "scene_good sc \<Longrightarrow> scene_good (update_node_positions net sc)"
  by (rule scene_goodI [of _ sc]) (simp_all add: update_node_positions_inv scene_good_def)

lemma drag_good:
  "scene_good sc \<Longrightarrow> scene_good (begin_node_drag net i p sc)" "scene_good sc \<Longrightarrow> scene_good (end_node_drag sc)"
  "scene_good sc \<Longrightarrow> scene_good (snd (node_drag_motion i p (net, sc)))"
proof -
  show "scene_good sc \<Longrightarrow> scene_good (snd (node_drag_motion i p (net, sc)))"
    by (simp add: node_drag_motion_def position_good Let_def split: option.splits)
qed (simp_all add: begin_node_drag_def end_node_drag_def scene_good_def selection_known_def split: option.splits)

lemma get_node_good: "scene_good sc \<Longrightarrow> scene_good (get_node i sc)"
  using get_node_inv [of sc i] by (simp add: scene_good_def)

lemma hook_good:
  assumes "scene_good sc" and "h \<in> set (cv_hooks (sc_canvas sc))"
  shows "scene_good (bounds_hook h sc)"
proof -
  have "links_ok (bounds_hook h sc) = links_ok sc"
    by (rule links_ok_cong; (rule exists_cong links_of_cong position_cong)?; simp add: bounds_hook_def)
  moreover have "cv_hooks (sc_canvas sc) \<noteq> []" using assms(2) by auto
  ultimately show ?thesis using assms(1)
    by (simp add: scene_good_def scene_inv_def selection_known_def inside_def) (simp add: bounds_hook_def)
qed

lemma scene_good_step: "scene_step sc sc' \<Longrightarrow> scene_good sc \<Longrightarrow> scene_good sc'"
proof (induction rule: scene_step.induct)
  case (select r sc sc')
  then show ?case by (blast intro: select_good)
next
  case (label python3 i t sc sc')
  then show ?case by (blast intro: label_good)
next
  case (icon i natural w h ax ay sc sc')
  then show ?case by (blast intro: icon_good)
qed (simp_all add: set_highlighted_def set_color_def plain_good plain_changes node_size_good mode_good update_good drag_good get_node_good
    get_channel_good create_link_good position_good channel_position_good hook_good)

text \<open>No step changes what \<open>get_bounds\<close> does or which hooks there are.\<close>

definition canvas_env :: "scene \<Rightarrow> bool \<times> (point \<times> point) list" where
  "canvas_env sc = (cv_returned (sc_canvas sc), cv_hooks (sc_canvas sc))"

lemma canvas_env_basic [simp]:
  "canvas_env (map_node i f sc) = canvas_env sc" "canvas_env (grow_bounds p sc) = canvas_env sc"
  "canvas_env (set_node_position i p sc) = canvas_env sc" "canvas_env (set_channel_position c p sc) = canvas_env sc"
  "canvas_env (sc\<lparr>sc_selected := x\<rparr>) = canvas_env sc" "canvas_env (sc\<lparr>sc_interest := y\<rparr>) = canvas_env sc"
  "canvas_env (sc\<lparr>sc_mode := m\<rparr>) = canvas_env sc" "canvas_env (sc\<lparr>sc_drag := d\<rparr>) = canvas_env sc"
  "canvas_env (create_link i a sc) = canvas_env sc" "canvas_env (get_node i sc) = canvas_env sc"
  "canvas_env (get_channel c sc) = canvas_env sc" "canvas_env (bounds_hook h sc) = canvas_env sc"
  by (simp_all add: canvas_env_def grow_bounds_def set_node_position_fields set_channel_position_def create_link_def
      get_node_def get_channel_def bounds_hook_def Let_def split: prod.splits)

lemma canvas_env_change [simp]: "canvas_env (change_node i f sc) = canvas_env sc"
  by (simp add: change_node_def update_appearance_def Let_def split: option.splits)

lemma canvas_env_fold: "(\<And>x sc. canvas_env (f x sc) = canvas_env sc) \<Longrightarrow> canvas_env (fold f xs sc) = canvas_env sc"
  by (induction xs arbitrary: sc) simp_all

lemma canvas_env_update_one [simp]: "canvas_env (update_one_position net i sc) = canvas_env sc"
  by (simp add: update_one_position_def has_mobility_def Let_def split: option.splits)

lemma canvas_env_select [simp]: "canvas_env (select_resolved node sc) = canvas_env sc"
  by (auto simp: select_resolved_def deselect_def selected_interest_def set_selected_def Let_def split: option.splits)

lemma canvas_env_step: "scene_step sc sc' \<Longrightarrow> canvas_env sc' = canvas_env sc"
proof (induction rule: scene_step.induct)
  case (mode sc n m)
  then show ?case by (cases m) (simp_all add: set_show_transmissions_mode_def selected_interest_def Let_def)
qed (auto simp: select_node_def set_highlighted_def set_color_def set_label_def set_svg_icon_def node_size_changed_def set_size_def
    update_node_positions_def canvas_env_fold begin_node_drag_def node_drag_motion_def end_node_drag_def Let_def res_bind_eq_Inr
    split: if_splits option.splits)

lemma new_scene_good: "scene_good (new_scene returned hooks n)"
  by (simp add: scene_good_def new_scene_def scene_inv_def selection_known_def links_ok_def inside_def)
    (metis empty_iff links_of.elims list.set(1) map_of.simps(1) option.case(1) scene.select_convs(1,2))

interpretation viz_scene: transition_system "\<lambda>sc. \<exists>returned hooks n. sc = new_scene returned hooks n" scene_step scene_good
  by unfold_locales (auto simp: new_scene_good intro: scene_good_step)

interpretation viz_canvas: transition_system "\<lambda>sc. canvas_env sc = env" scene_step "\<lambda>sc. canvas_env sc = env" for env
  by unfold_locales (simp_all add: canvas_env_step)

text \<open>
  After the positions have been read from the simulation, every node it moves is at its position there
  and within the bounds, also when a hook has replaced them.
\<close>

definition tracked :: "network \<Rightarrow> scene \<Rightarrow> int \<Rightarrow> bool" where
  "tracked net sc i \<longleftrightarrow> (\<forall>n pos. map_of (sc_nodes sc) i = Some n \<longrightarrow> nd_has_mobility n = Some True \<longrightarrow> nw_mobility net i = Some pos
     \<longrightarrow> nd_center n = transform_point_simulation_to_canvas pos \<and> in_bounds (cv_bounds (sc_canvas sc)) (nd_center n))"

lemma moved_mobility [simp]: "nd_has_mobility (moved p n) = nd_has_mobility n"
  by (auto simp: moved_def move_label_def update_svg_position_def split: option.splits)

lemma tracked_position:
  assumes "cv_returned (sc_canvas sc)"
  shows "nw_mobility net i = Some pos \<Longrightarrow> tracked net (set_node_position i (transform_point_simulation_to_canvas pos) sc) i"
    and "j \<noteq> i \<Longrightarrow> tracked net sc j \<Longrightarrow> tracked net (set_node_position i p sc) j"
  using assms by (auto simp: tracked_def set_node_position_fields grow_bounds_def split: prod.splits)

lemma tracked_mobility: "j \<noteq> i \<Longrightarrow> tracked net sc j \<Longrightarrow> tracked net (fst (has_mobility net i sc)) j"
  by (auto simp: tracked_def has_mobility_def Let_def split: option.splits)

lemma tracked_one:
  assumes "cv_returned (sc_canvas sc)"
  shows "tracked net (update_one_position net i sc) i" and "j \<noteq> i \<Longrightarrow> tracked net sc j \<Longrightarrow> tracked net (update_one_position net i sc) j"
proof -
  let ?m = "fst (has_mobility net i sc)"
  have m: "cv_returned (sc_canvas ?m)" using assms by (simp add: has_mobility_def Let_def split: option.splits)
  have b: "nd_has_mobility n \<noteq> Some True" if "\<not> snd (has_mobility net i sc)" "map_of (sc_nodes ?m) i = Some n" for n
    using that by (auto simp: has_mobility_def Let_def split: option.splits if_splits)
  show "tracked net (update_one_position net i sc) i"
  proof (cases "snd (has_mobility net i sc)")
    case True
    with tracked_position(1) [OF m, of net i] show ?thesis
      by (cases "nw_mobility net i") (simp_all add: update_one_position_def case_prod_beta, simp add: tracked_def)
  next
    case False
    then show ?thesis using b by (auto simp: update_one_position_def case_prod_beta tracked_def)
  qed
  show "tracked net (update_one_position net i sc) j" if "j \<noteq> i" "tracked net sc j"
    using tracked_position(2) [OF m that(1)] tracked_mobility [OF that]
    by (simp add: update_one_position_def case_prod_beta split: option.splits)
qed

lemma tracked_fold:
  assumes "cv_returned (sc_canvas sc)" and "i \<in> set is \<or> tracked net sc i"
  shows "tracked net (fold (update_one_position net) is sc) i"
  using assms
proof (induction "is" arbitrary: sc)
  case (Cons k ks)
  have "cv_returned (sc_canvas (update_one_position net k sc))"
    using Cons.prems(1) canvas_env_update_one [of net k sc] by (simp add: canvas_env_def)
  then show ?case using Cons tracked_one [OF Cons.prems(1)] by (cases "i = k") auto
qed simp

lemma update_tracks:
  assumes "cv_returned (sc_canvas sc)"
  shows "tracked net (update_node_positions net sc) i"
proof (cases "i \<in> set (map fst (sc_nodes sc))")
  case False
  then have "\<not> has_key (sc_nodes (update_node_positions net sc)) i"
    by (simp add: update_node_positions_inv(3) has_key_def map_of_eq_None_iff)
  then show ?thesis by (simp add: tracked_def has_key_def)
qed (use tracked_fold [OF assms] in \<open>simp add: update_node_positions_def\<close>)

text \<open>
  C23: The picture agrees with its objects.  After any sequence of what \<open>scene_step\<close> lists (selecting,
  highlighting, dragging, labelling and recolouring nodes, the controls, new nodes, channels and links,
  positions read from the simulation, the hooks of \<open>set_bounds\<close>): a wired link that is drawn at all is
  drawn between the present positions of its two ends; size, colour, border and label of each node are
  those of its state; and exactly the selected node is marked.  Where \<open>get_bounds\<close> returns the bounds,
  all nodes lie within the canvas unless \<open>set_bounds\<close> was used; also if it was, reading the positions
  from the simulation puts every node with mobility at its position there, within the canvas.
\<close>
theorem scene_consistent:
  assumes "scene_step\<^sup>*\<^sup>* (new_scene returned hooks n_nodes) sc"
  shows "(\<forall>l \<in> set (sc_links sc). \<forall>p q. wl_data l = Some (p, q) \<longrightarrow> p = position_of sc (NodeObj (wl_node1 l)) \<and> q = position_of sc (wl_node2 l))
    \<and> (\<forall>i n. map_of (sc_nodes sc) i = Some n \<longrightarrow>
         nd_radius n = nd_size n * 3 \<and> nd_fill n = (nd_color n AND 0xffffff00) OR (if nd_svg n = None then 0xff else 0x80)
       \<and> nd_line_width n = nd_radius n * (if sc_selected sc = Some i then 3 / 10 else 15 / 100)
       \<and> nd_label_item n = map_option (\<lambda>t. (t, (fst (nd_center n), snd (nd_center n) + nd_size n * 3))) (nd_label n)
       \<and> (returned \<and> hooks = [] \<longrightarrow> in_bounds (cv_bounds (sc_canvas sc)) (nd_center n)))
    \<and> (returned \<longrightarrow> (\<forall>net i n pos. map_of (sc_nodes (update_node_positions net sc)) i = Some n \<longrightarrow>
         nd_has_mobility n = Some True \<longrightarrow> nw_mobility net i = Some pos \<longrightarrow>
         nd_center n = transform_point_simulation_to_canvas pos
       \<and> in_bounds (cv_bounds (sc_canvas (update_node_positions net sc))) (nd_center n)))"
proof -
  have "scene_good sc" by (rule viz_scene.reach_inv [OF _ assms]) blast
  then have good: "scene_inv sc" by (simp add: scene_good_def)
  have "canvas_env sc = canvas_env (new_scene returned hooks n_nodes)" by (rule viz_canvas.reach_inv [OF refl assms])
  then have env: "cv_returned (sc_canvas sc) = returned" "cv_hooks (sc_canvas sc) = hooks"
    by (simp_all add: canvas_env_def new_scene_def)
  have "p = position_of sc (NodeObj (wl_node1 l)) \<and> q = position_of sc (wl_node2 l)"
    if "l \<in> set (sc_links sc)" "wl_data l = Some (p, q)" for l p q
  proof -
    from that(1) obtain k where k: "k < length (sc_links sc)" "sc_links sc ! k = l" unfolding in_set_conv_nth by blast
    then have "l = redrawn sc l" using good that(2) by (auto simp: scene_inv_def links_ok_def link_ok_def)
    from arg_cong [OF this, of wl_data] show ?thesis using that(2) by (simp add: redrawn_def)
  qed
  moreover have "nd_radius n = nd_size n * 3 \<and> nd_fill n = (nd_color n AND 0xffffff00) OR (if nd_svg n = None then 0xff else 0x80)
       \<and> nd_line_width n = nd_radius n * (if sc_selected sc = Some i then 3 / 10 else 15 / 100)
       \<and> nd_label_item n = map_option (\<lambda>t. (t, (fst (nd_center n), snd (nd_center n) + nd_size n * 3))) (nd_label n)
       \<and> (returned \<and> hooks = [] \<longrightarrow> in_bounds (cv_bounds (sc_canvas sc)) (nd_center n))" if "map_of (sc_nodes sc) i = Some n" for i n
  proof -
    have n: "node_ok n" "inside (sc_canvas sc) (nd_center n)" "nd_selected n \<longleftrightarrow> sc_selected sc = Some i"
      using good that by (auto simp: scene_inv_def)
    then show ?thesis by (auto simp: node_ok_def appearance_iff label_ok_def transform_defs inside_def env)
  qed
  moreover have "returned \<longrightarrow> (\<forall>net i. tracked net (update_node_positions net sc) i)" using update_tracks env(1) by blast
  ultimately show ?thesis unfolding tracked_def by blast
qed

text \<open>A hook may leave a node outside the canvas, and a node without mobility stays there.\<close>

lemma hook_excludes_node:
  assumes "viz_set_bounds (1, 1) (2, 2) [] = Inr hooks"
  shows "\<exists>sc n. scene_step\<^sup>*\<^sup>* (new_scene True hooks 1) sc \<and> map_of (sc_nodes sc) 0 = Some n
    \<and> \<not> in_bounds (cv_bounds (sc_canvas sc)) (nd_center n)"
proof -
  let ?s = "get_node 0 (new_scene True hooks 1)"
  have h: "hooks = [((1, 1), (2, 2))]" using assms by (simp add: viz_set_bounds_def)
  have "scene_step (new_scene True hooks 1) ?s" by (rule scene_step.node)
  moreover have "scene_step ?s (bounds_hook ((1, 1), (2, 2)) ?s)"
    by (rule scene_step.hook) (simp add: h get_node_def new_scene_def)
  ultimately have "scene_step\<^sup>*\<^sup>* (new_scene True hooks 1) (bounds_hook ((1, 1), (2, 2)) ?s)"
    by (blast intro: converse_rtranclp_into_rtranclp)
  moreover have "map_of (sc_nodes (bounds_hook ((1, 1), (2, 2)) ?s)) 0 = Some new_node"
    by (simp add: bounds_hook_def get_node_def new_scene_def has_key_def)
  moreover have "\<not> in_bounds (cv_bounds (sc_canvas (bounds_hook ((1, 1), (2, 2)) ?s))) (nd_center new_node)"
    by (simp add: bounds_hook_def new_node_ok transform_defs)
  ultimately show ?thesis by blast
qed

text \<open>A dragged node follows the pointer, on the canvas and in the simulation.\<close>

lemma drag_follows_pointer:
  assumes "nw_mobility net i = Some (x0, y0)" and "sc_drag sc = None" and "has_key (sc_nodes sc) i"
    and "node_drag_motion i (cx, cy) (net, begin_node_drag net i (cx0, cy0) sc) = (net', sc')"
  shows "position_of sc' (NodeObj i) = (x0 * 3 + (cx - cx0), y0 * 3 + (cy - cy0))
    \<and> nw_mobility net' i = Some (x0 + (cx - cx0) / 3, y0 + (cy - cy0) / 3)"
proof -
  have "sc' = set_node_position i (x0 * 3 + (cx - cx0), y0 * 3 + (cy - cy0)) (begin_node_drag net i (cx0, cy0) sc)"
    "net' = net\<lparr>nw_mobility := (nw_mobility net)(i \<mapsto> (x0 + (cx - cx0) / 3, y0 + (cy - cy0) / 3))\<rparr>"
    using assms(1,2,4) by (auto simp: node_drag_motion_def begin_node_drag_def transform_defs Let_def ring_distribs)
  moreover have "has_key (sc_nodes (begin_node_drag net i (cx0, cy0) sc)) i" using assms(3) by (simp add: begin_node_drag_def split: option.splits)
  ultimately show ?thesis by (simp add: set_node_position_objects del: position_of.simps)
qed

lemma set_label_python3: "set_label True i t sc = Inl NameError"
  by (simp add: set_label_def)

section \<open>A sample\<close>

definition sample_scene :: scene where
  "sample_scene = set_node_position 0 (5, 6) (create_link 0 (NodeObj 1) (get_node 1 (get_node 0 (new_scene True [((1, 1), (20, 20))] 2))))"

lemma sample_scene_reached: "scene_step\<^sup>*\<^sup>* (new_scene True [((1, 1), (20, 20))] 2) sample_scene"
proof -
  let ?s = "get_node 1 (get_node 0 (new_scene True [((1, 1), (20, 20))] 2))"
  have "has_key (sc_nodes ?s) 0" "exists_in ?s (NodeObj 1)" by (simp_all add: get_node_def new_scene_def has_key_def)
  then have "scene_step ?s (create_link 0 (NodeObj 1) ?s)" by (rule scene_step.link)
  moreover have "scene_step (new_scene True [((1, 1), (20, 20))] 2) (get_node 0 (new_scene True [((1, 1), (20, 20))] 2))" "scene_step (get_node 0 (new_scene True [((1, 1), (20, 20))] 2)) ?s" by (rule scene_step.node)+
  moreover have "scene_step (create_link 0 (NodeObj 1) ?s) sample_scene" unfolding sample_scene_def by (rule scene_step.place_node)
  ultimately show ?thesis by (blast intro: converse_rtranclp_into_rtranclp)
qed

theorem scene_consistent_witness:
  "\<exists>l \<in> set (sc_links sample_scene). wl_data l = Some ((5, 6), (0, 0)) \<and> (5, 6) = position_of sample_scene (NodeObj (wl_node1 l))
     \<and> (0, 0) = position_of sample_scene (wl_node2 l)"
proof -
  have "\<exists>l \<in> set (sc_links sample_scene). wl_data l = Some ((5, 6), (0, 0))" by code_simp
  then obtain l where l: "l \<in> set (sc_links sample_scene)" "wl_data l = Some ((5, 6), (0, 0))" by blast
  with scene_consistent [OF sample_scene_reached] show ?thesis by blast
qed

end
