(* ===== verification/Viz_Scan.thy ===== *)
theory Viz_Scan
  imports Viz_Scene
begin

text \<open>
  The scan of the topology, \<open>scan_topology\<close> of \<^verbatim>\<open>src/visualizer/visualizer/core.py\<close>: it makes the nodes, channels and
  links of the scene from the devices of the simulated network and places them.  The layout that graphviz
  computes is an argument.
\<close>

section \<open>Scan of the topology\<close>

text \<open>The nodes of the graph for graphviz are named by texts with a word and a number; here by constructors.\<close>

record scan_state =
  sn_scene :: scene
  sn_traits :: "(string, net_device_traits) dict"
  sn_graph :: "vobj list"
  sn_edges :: "(vobj \<times> vobj) list"

definition add_edge :: "vobj \<Rightarrow> vobj \<Rightarrow> scan_state \<Rightarrow> scan_state" where
  "add_edge a b st = st\<lparr>sn_graph := (let g = sn_graph st; g = (if a \<in> set g then g else g @ [a]) in if b \<in> set g then g else g @ [b]),
     sn_edges := sn_edges st @ [(a, b)]\<rparr>"

definition add_graph_node :: "vobj \<Rightarrow> scan_state \<Rightarrow> scan_state" where
  "add_graph_node a st = (if a \<in> set (sn_graph st) then st else st\<lparr>sn_graph := sn_graph st @ [a]\<rparr>)"

definition link_other :: "network \<Rightarrow> int \<Rightarrow> int \<Rightarrow> scan_state \<Rightarrow> scan_state" where
  "link_other net i j st =
     (let st = st\<lparr>sn_scene := get_node j (sn_scene st)\<rparr>
      in if j = i then st
         else let st = (if nw_mobility net i = None
                        then let (sc, b) = has_mobility net j (sn_scene st); st = st\<lparr>sn_scene := sc\<rparr>
                             in if b then st else add_edge (NodeObj i) (NodeObj j) st
                        else st)
              in st\<lparr>sn_scene := create_link i (NodeObj j) (get_node i (sn_scene st))\<rparr>)"

definition link_channel :: "network \<Rightarrow> int \<Rightarrow> int \<Rightarrow> scan_state \<Rightarrow> scan_state" where
  "link_channel net i c st =
     (let st = (if nw_mobility net i = None then add_edge (NodeObj i) (ChannelObj c) st else st)
      in st\<lparr>sn_scene := create_link i (ChannelObj c) (get_channel c (get_node i (get_channel c (sn_scene st))))\<rparr>)"

definition scan_device :: "network \<Rightarrow> int \<Rightarrow> scan_state \<Rightarrow> net_device \<Rightarrow> scan_state res" where
  "scan_device net i st dev =
     (let (table, traits, _) = lookup_netdevice_traits (sn_traits st) (dv_class dev); st = st\<lparr>sn_traits := table\<rparr>
      in if is_wireless traits = Some True \<or> is_virtual traits then Inr st
         else case dv_channel dev of
             None \<Rightarrow> Inl AttributeError
           | Some c \<Rightarrow> Inr (if length (nw_channel_nodes net c) > 2 then link_channel net i c st
                             else fold (link_other net i) (nw_channel_nodes net c) st))"

definition scan_node :: "(string \<Rightarrow> int \<times> int \<times> int) \<Rightarrow> network \<Rightarrow> scan_state \<Rightarrow> int \<Rightarrow> scan_state res" where
  "scan_node color_parse net st i =
     (let st = st\<lparr>sn_scene := get_node i (sn_scene st)\<rparr>;
          st = (case nw_mobility net i of
                  Some pos \<Rightarrow> st\<lparr>sn_scene := set_node_position i (transform_point_simulation_to_canvas pos)
                                  (set_color color_parse i (Named ''red'') (sn_scene st))\<rparr>
                | None \<Rightarrow> add_graph_node (NodeObj i) st)
      in res_fold (scan_device net i) (nw_devices net i) st)"

fun place_object :: "(vobj \<Rightarrow> point) \<Rightarrow> scene \<Rightarrow> vobj \<Rightarrow> scene res" where
  "place_object pos sc (NodeObj i) = (if has_key (sc_nodes sc) i then Inr (set_node_position i (pos (NodeObj i)) sc) else Inl KeyError)"
| "place_object pos sc (ChannelObj c) =
     (if has_key (sc_channels sc) c then Inr (set_channel_position c (pos (ChannelObj c)) sc) else Inl KeyError)"

type_synonym layout = "vobj list \<Rightarrow> (vobj \<times> vobj) list \<Rightarrow> vobj \<Rightarrow> point"

definition scan_topology :: "(string \<Rightarrow> int \<times> int \<times> int) \<Rightarrow> layout \<Rightarrow> network \<Rightarrow> scene \<Rightarrow> scene res" where
  "scan_topology color_parse layout net sc =
     res_bind (res_fold (scan_node color_parse net) (map int [0..<nw_count net])
                 \<lparr>sn_scene = sc, sn_traits = netdevice_traits, sn_graph = [], sn_edges = []\<rparr>) (\<lambda>st.
     res_fold (place_object (layout (sn_graph st) (sn_edges st))) (sn_graph st) (sn_scene st))"

section \<open>The scan\<close>

definition wired_in :: "(string, net_device_traits) dict \<Rightarrow> string \<Rightarrow> bool" where
  "wired_in table c = (case map_of table c of None \<Rightarrow> False | Some t \<Rightarrow> \<not> (is_wireless t = Some True \<or> is_virtual t))"

lemma lookup_wired:
  assumes "lookup_netdevice_traits table c = (table', t, w)"
  shows "wired_in table' = wired_in table \<and> (is_wireless t = Some True \<or> is_virtual t \<longleftrightarrow> \<not> wired_in table c)"
  using assms by (auto simp: lookup_netdevice_traits_def dict_get_def wired_in_def Let_def fun_eq_iff split: option.splits if_splits)

text \<open>The ends of the links that a device gives rise to.\<close>

definition device_links :: "network \<Rightarrow> int \<Rightarrow> net_device \<Rightarrow> (int \<times> vobj) list" where
  "device_links net i dev =
     (if wired_in netdevice_traits (dv_class dev)
      then let ns = nw_channel_nodes net (the (dv_channel dev))
           in if length ns > 2 then [(i, ChannelObj (the (dv_channel dev)))] else map (\<lambda>j. (i, NodeObj j)) (filter (\<lambda>j. j \<noteq> i) ns)
      else [])"

definition network_links :: "network \<Rightarrow> (int \<times> vobj) list" where
  "network_links net = concat (map (\<lambda>i. concat (map (device_links net i) (nw_devices net i))) (map int [0..<nw_count net]))"

definition link_ends :: "scene \<Rightarrow> (int \<times> vobj) list" where
  "link_ends sc = map (\<lambda>l. (wl_node1 l, wl_node2 l)) (sc_links sc)"

text \<open>What the steps of the scan keep: the positions of all objects, the objects that are there, and the graph without mobile nodes.\<close>

definition cache_ok :: "network \<Rightarrow> scene \<Rightarrow> bool" where
  "cache_ok net sc \<longleftrightarrow> (\<forall>i n b. map_of (sc_nodes sc) i = Some n \<and> nd_has_mobility n = Some b \<longrightarrow> b = (nw_mobility net i \<noteq> None))"

definition scan_ok :: "network \<Rightarrow> scan_state \<Rightarrow> bool" where
  "scan_ok net st \<longleftrightarrow> scene_good (sn_scene st) \<and> cache_ok net (sn_scene st) \<and> wired_in (sn_traits st) = wired_in netdevice_traits
     \<and> (\<forall>obj \<in> set (sn_graph st). exists_in (sn_scene st) obj \<and> (\<forall>i. obj = NodeObj i \<longrightarrow> nw_mobility net i = None))"

definition scan_extends :: "scan_state \<Rightarrow> scan_state \<Rightarrow> bool" where
  "scan_extends st st' \<longleftrightarrow> (\<forall>obj. exists_in (sn_scene st) obj \<longrightarrow> exists_in (sn_scene st') obj)
     \<and> position_of (sn_scene st') = position_of (sn_scene st) \<and> set (sn_graph st) \<subseteq> set (sn_graph st')"

lemma extends_refl [simp]: "scan_extends st st"
  by (simp add: scan_extends_def)

lemma extends_trans: "scan_extends a b \<Longrightarrow> scan_extends b c \<Longrightarrow> scan_extends a c"
  by (auto simp: scan_extends_def)

lemma get_node_facts:
  "exists_in sc obj \<Longrightarrow> exists_in (get_node i sc) obj" "position_of (get_node i sc) = position_of sc" "has_key (sc_nodes (get_node i sc)) i"
  "link_ends (get_node i sc) = link_ends sc"
proof -
  show "position_of (get_node i sc) = position_of sc"
    by (rule ext, case_tac x) (auto simp: get_node_def has_key_def new_node_ok split: option.splits)
qed (cases obj; auto simp: get_node_def link_ends_def)+

lemma get_channel_facts:
  "exists_in sc obj \<Longrightarrow> exists_in (get_channel c sc) obj" "position_of (get_channel c sc) = position_of sc" "has_key (sc_channels (get_channel c sc)) c"
  "link_ends (get_channel c sc) = link_ends sc"
proof -
  show "position_of (get_channel c sc) = position_of sc"
    by (rule ext, case_tac x) (auto simp: get_channel_def has_key_def split: option.splits)
qed (cases obj; auto simp: get_channel_def link_ends_def)+

lemma has_mobility_facts:
  "exists_in (fst (has_mobility net i sc)) obj = exists_in sc obj" "position_of (fst (has_mobility net i sc)) = position_of sc"
  "link_ends (fst (has_mobility net i sc)) = link_ends sc"
proof -
  show "position_of (fst (has_mobility net i sc)) = position_of sc"
    by (rule ext, case_tac x) (auto simp: has_mobility_def Let_def split: option.splits)
qed (cases obj; simp add: link_ends_def)+

lemma create_link_facts:
  "exists_in (create_link i a sc) obj = exists_in sc obj" "position_of (create_link i a sc) = position_of sc"
  "link_ends (create_link i a sc) = link_ends sc @ [(i, a)]"
  by (simp_all add: create_link_objects link_ends_def ext del: position_of.simps exists_in.simps)

lemma has_mobility_good: "scene_good sc \<Longrightarrow> scene_good (fst (has_mobility net i sc))"
  by (rule scene_goodI [of _ sc]) (simp_all add: has_mobility_inv scene_good_def)

lemma has_mobility_value: "cache_ok net sc \<Longrightarrow> snd (has_mobility net i sc) = (nw_mobility net i \<noteq> None)"
  by (auto simp: has_mobility_def cache_ok_def Let_def simp del: not_None_eq split: option.splits)

lemma cache_has_mobility: "cache_ok net sc \<Longrightarrow> cache_ok net (fst (has_mobility net i sc))"
  by (auto simp: has_mobility_def cache_ok_def Let_def simp del: not_None_eq split: option.splits)

lemma cache_get: "cache_ok net sc \<Longrightarrow> cache_ok net (get_node i sc)" "cache_ok net (get_channel c sc) = cache_ok net sc"
  by (auto simp: cache_ok_def get_node_def get_channel_def new_node_def appearance_def Let_def simp del: not_None_eq)

lemma cache_create_link:
  assumes "cache_ok net sc"
  shows "cache_ok net (create_link i a sc)"
proof -
  have "\<forall>b. nd_has_mobility n = Some b \<longrightarrow> b = (nw_mobility net j \<noteq> None)" if "map_of (sc_nodes (create_link i a sc)) j = Some n" for j n
    using that unfolding create_link_def Let_def
    by (rule add_to_object_nodes [rotated 2], elim add_to_object_nodes [rotated 2]) (use assms in \<open>auto simp: cache_ok_def simp del: not_None_eq\<close>)
  then show ?thesis by (simp add: cache_ok_def del: not_None_eq)
qed

lemma link_channel_step:
  assumes "scan_ok net st" and "exists_in (sn_scene st) (NodeObj i)"
  shows "scan_ok net (link_channel net i c st) \<and> scan_extends st (link_channel net i c st)
    \<and> link_ends (sn_scene (link_channel net i c st)) = link_ends (sn_scene st) @ [(i, ChannelObj c)]"
proof -
  let ?sc = "get_channel c (get_node i (get_channel c (sn_scene st)))"
  let ?t = "create_link i (ChannelObj c) ?sc"
  have good: "scene_good (sn_scene st)" "cache_ok net (sn_scene st)" using assms(1) by (auto simp: scan_ok_def)
  have sc: "scene_good ?sc" "cache_ok net ?sc" using good by (simp_all add: get_channel_good get_node_good cache_get)
  have ex: "exists_in (sn_scene st) obj \<Longrightarrow> exists_in ?sc obj" for obj using get_node_facts(1) get_channel_facts(1) by blast
  have "has_key (sc_nodes ?sc) i" using ex [of "NodeObj i"] assms(2) by simp
  then have t: "scene_good ?t" "cache_ok net ?t"
    using sc create_link_good [of ?sc i "ChannelObj c"] get_channel_facts(3) [of c] cache_create_link by simp_all
  have tx: "exists_in ?t obj = exists_in ?sc obj" "position_of ?t = position_of (sn_scene st)" for obj
    by (simp_all only: create_link_facts get_node_facts get_channel_facts)
  have "exists_in ?t (ChannelObj c)" unfolding tx(1) by (simp add: get_channel_facts(3))
  moreover have "exists_in ?t (NodeObj i)" using tx(1) ex assms(2) by blast
  moreover have "link_ends ?t = link_ends (sn_scene st) @ [(i, ChannelObj c)]"
    by (simp only: create_link_facts get_node_facts get_channel_facts)
  ultimately show ?thesis
    using assms(1) t tx ex unfolding link_channel_def Let_def scan_ok_def scan_extends_def
    by (auto simp: add_edge_def Let_def simp del: exists_in.simps position_of.simps)
qed

lemma link_other_step:
  assumes "scan_ok net st" and "exists_in (sn_scene st) (NodeObj i)"
  shows "scan_ok net (link_other net i j st) \<and> scan_extends st (link_other net i j st)
    \<and> link_ends (sn_scene (link_other net i j st)) = link_ends (sn_scene st) @ (if j = i then [] else [(i, NodeObj j)])"
proof -
  let ?g = "get_node j (sn_scene st)" let ?h = "fst (has_mobility net j ?g)"
  let ?m = "if nw_mobility net i = None then ?h else ?g"
  let ?t = "create_link i (NodeObj j) (get_node i ?m)"
  have g: "scene_good ?g" "cache_ok net ?g" "exists_in ?g (NodeObj j)" "exists_in (sn_scene st) obj \<Longrightarrow> exists_in ?g obj"
    "position_of ?g = position_of (sn_scene st)" "link_ends ?g = link_ends (sn_scene st)" for obj
    using assms(1) get_node_facts [where sc = "sn_scene st"] by (auto simp: scan_ok_def get_node_good cache_get simp del: position_of.simps)
  have m: "scene_good ?m" "cache_ok net ?m" "exists_in ?m obj = exists_in ?g obj" "position_of ?m = position_of (sn_scene st)"
    "link_ends ?m = link_ends (sn_scene st)" for obj
    using g by (simp_all add: has_mobility_good cache_has_mobility has_mobility_facts del: position_of.simps exists_in.simps)
  have n: "exists_in ?g obj \<Longrightarrow> exists_in (get_node i ?m) obj" for obj using m(3) get_node_facts(1) by blast
  have "scene_good (get_node i ?m)" "cache_ok net (get_node i ?m)" using m by (simp_all add: get_node_good cache_get)
  then have t: "scene_good ?t" "cache_ok net ?t"
    using create_link_good [of "get_node i ?m" i "NodeObj j"] n [OF g(3)] get_node_facts(3) cache_create_link by simp_all
  have tx: "exists_in (sn_scene st) obj \<Longrightarrow> exists_in ?t obj" "exists_in ?t (NodeObj j)" "position_of ?t = position_of (sn_scene st)"
    "link_ends ?t = link_ends (sn_scene st) @ [(i, NodeObj j)]" for obj
    using n g(3,4) m(4,5) by (simp_all only: create_link_facts get_node_facts)
  have v: "snd (has_mobility net j ?g) = (nw_mobility net j \<noteq> None)" by (rule has_mobility_value [OF g(2)])
  show ?thesis
  proof (cases "j = i")
    case True
    then show ?thesis using g assms(1) unfolding link_other_def Let_def scan_ok_def scan_extends_def
      by (auto simp del: exists_in.simps position_of.simps)
  next
    case False
    have "exists_in ?t (NodeObj i)" using tx(1) assms(2) by blast
    then show ?thesis
      using False assms(1) t tx v unfolding link_other_def Let_def scan_ok_def scan_extends_def
      by (auto simp: add_edge_def Let_def case_prod_beta simp del: exists_in.simps position_of.simps)
  qed
qed

lemma link_others_step:
  assumes "scan_ok net st" and "exists_in (sn_scene st) (NodeObj i)"
  shows "scan_ok net (fold (link_other net i) js st) \<and> scan_extends st (fold (link_other net i) js st)
    \<and> link_ends (sn_scene (fold (link_other net i) js st)) = link_ends (sn_scene st) @ map (\<lambda>j. (i, NodeObj j)) (filter (\<lambda>j. j \<noteq> i) js)"
  using assms
proof (induction js arbitrary: st)
  case (Cons j js)
  let ?t = "link_other net i j st"
  have t: "scan_ok net ?t" "scan_extends st ?t" "link_ends (sn_scene ?t) = link_ends (sn_scene st) @ (if j = i then [] else [(i, NodeObj j)])"
    using link_other_step [OF Cons.prems] by blast+
  moreover have "exists_in (sn_scene ?t) (NodeObj i)" using t(2) Cons.prems(2) by (simp only: scan_extends_def)
  ultimately show ?case using Cons.IH [of ?t] extends_trans [of st ?t] by (simp del: exists_in.simps)
qed simp

definition attached :: "net_device \<Rightarrow> bool" where
  "attached dev \<longleftrightarrow> (wired_in netdevice_traits (dv_class dev) \<longrightarrow> dv_channel dev \<noteq> None)"

lemma scan_device_step:
  assumes "scan_ok net st" and "exists_in (sn_scene st) (NodeObj i)" and "attached dev"
  shows "\<exists>st'. scan_device net i st dev = Inr st' \<and> scan_ok net st' \<and> scan_extends st st'
    \<and> link_ends (sn_scene st') = link_ends (sn_scene st) @ device_links net i dev"
proof -
  obtain table t w where l: "lookup_netdevice_traits (sn_traits st) (dv_class dev) = (table, t, w)" by (metis prod_cases3)
  let ?s = "st\<lparr>sn_traits := table\<rparr>"
  have w: "wired_in table = wired_in netdevice_traits" "is_wireless t = Some True \<or> is_virtual t \<longleftrightarrow> \<not> wired_in netdevice_traits (dv_class dev)"
    using lookup_wired [OF l] assms(1) by (auto simp: scan_ok_def)
  have s: "scan_ok net ?s" "exists_in (sn_scene ?s) (NodeObj i)" "scan_extends st ?s"
    using assms w by (simp_all add: scan_ok_def scan_extends_def del: exists_in.simps)
  show ?thesis
  proof (cases "wired_in netdevice_traits (dv_class dev)")
    case False
    then have "scan_device net i st dev = Inr ?s" using w(2) by (auto simp: scan_device_def l)
    then show ?thesis using s False by (simp add: device_links_def)
  next
    case True
    then obtain c where c: "dv_channel dev = Some c" using assms(3) by (auto simp: attached_def)
    let ?ns = "nw_channel_nodes net c"
    let ?t = "if length ?ns > 2 then link_channel net i c ?s else fold (link_other net i) ?ns ?s"
    have d: "scan_device net i st dev = Inr ?t" using True w(2) c by (simp add: scan_device_def l)
    have "scan_ok net ?t \<and> scan_extends ?s ?t \<and> link_ends (sn_scene ?t) = link_ends (sn_scene ?s) @ device_links net i dev"
      using link_channel_step [OF s(1,2), of c] link_others_step [OF s(1,2), of ?ns] True c by (simp add: device_links_def)
    then show ?thesis using d s(3) extends_trans by (intro exI [of _ ?t]) auto
  qed
qed

lemma scan_devices_step:
  assumes "scan_ok net st" and "exists_in (sn_scene st) (NodeObj i)" and "list_all attached devs"
  shows "\<exists>st'. res_fold (scan_device net i) devs st = Inr st' \<and> scan_ok net st' \<and> scan_extends st st'
    \<and> link_ends (sn_scene st') = link_ends (sn_scene st) @ concat (map (device_links net i) devs)"
  using assms
proof (induction devs arbitrary: st)
  case (Cons dev devs)
  obtain t where t: "scan_device net i st dev = Inr t" "scan_ok net t" "scan_extends st t"
    "link_ends (sn_scene t) = link_ends (sn_scene st) @ device_links net i dev"
    using scan_device_step [OF Cons.prems(1,2)] Cons.prems(3) by auto
  then have "exists_in (sn_scene t) (NodeObj i)" using Cons.prems(2) by (simp only: scan_extends_def)
  then obtain u where "res_fold (scan_device net i) devs t = Inr u" "scan_ok net u" "scan_extends t u"
    "link_ends (sn_scene u) = link_ends (sn_scene t) @ concat (map (device_links net i) devs)"
    using Cons.IH [OF t(2)] Cons.prems(3) by auto
  with t extends_trans [of st t u] show ?case by simp
qed simp

text \<open>Colour and position of a node leave the other objects alone.\<close>

lemma link_ends_position [simp]: "link_ends (set_node_position i p sc) = link_ends sc"
proof (rule nth_equalityI)
  show "link_ends (set_node_position i p sc) ! k = link_ends sc ! k" if "k < length (link_ends (set_node_position i p sc))" for k
    using that set_node_position_links [of k sc i p] by (simp add: link_ends_def set_node_position_fields(7) del: links_of.simps)
qed (simp add: link_ends_def set_node_position_fields)

lemma cache_map_node: "(\<And>n. nd_has_mobility (f n) = nd_has_mobility n) \<Longrightarrow> cache_ok net (map_node i f sc) = cache_ok net sc"
proof -
  assume f: "\<And>n. nd_has_mobility (f n) = nd_has_mobility n"
  have c: "cache_ok net sc \<longleftrightarrow> (\<forall>j. case map_option nd_has_mobility (map_of (sc_nodes sc) j) of Some (Some b) \<Rightarrow> b = (nw_mobility net j \<noteq> None) | _ \<Rightarrow> True)"
    for sc by (simp add: cache_ok_def del: not_None_eq split: option.splits) blast
  have "map_option nd_has_mobility (map_of (sc_nodes (map_node i f sc)) j) = map_option nd_has_mobility (map_of (sc_nodes sc) j)" for j
    by (cases "map_of (sc_nodes sc) j") (auto simp: f)
  then show ?thesis unfolding c by simp
qed

lemma cache_position [simp]: "cache_ok net (set_node_position i p sc) = cache_ok net sc"
proof -
  have "cache_ok net (set_node_position i p sc) = cache_ok net (map_node i (moved p) sc)"
    by (simp add: cache_ok_def set_node_position_fields)
  then show ?thesis by (simp add: cache_map_node)
qed

lemma label_text_fields [simp]:
  "nd_has_mobility (label_text (appearance n)) = nd_has_mobility n" "nd_center (label_text (appearance n)) = nd_center n"
  "nd_links (label_text (appearance n)) = nd_links n"
  by (auto simp: label_text_def appearance_def Let_def split: option.splits)

lemma change_node_facts:
  assumes "\<And>n. nd_has_mobility (f n) = nd_has_mobility n \<and> nd_center (f n) = nd_center n \<and> nd_links (f n) = nd_links n"
  shows "cache_ok net (change_node i f sc) = cache_ok net sc" "position_of (change_node i f sc) = position_of sc"
    "exists_in (change_node i f sc) obj = exists_in sc obj" "link_ends (change_node i f sc) = link_ends sc"
proof -
  let ?m = "map_node i (\<lambda>n. label_text (appearance n)) (map_node i f sc)"
  have pos: "position_of ?m = position_of sc" by (rule ext, case_tac x) (auto simp: assms split: option.splits)
  have m: "cache_ok net ?m = cache_ok net sc" "link_ends ?m = link_ends sc" using assms by (simp_all add: cache_map_node link_ends_def)
  have c: "change_node i f sc = ?m \<or> (\<exists>n. map_of (sc_nodes ?m) i = Some n \<and> change_node i f sc = set_node_position i (nd_center n) ?m)"
    by (auto simp: change_node_def update_appearance_def Let_def split: option.splits)
  have "position_of (set_node_position i (nd_center n) ?m) = position_of ?m" if "map_of (sc_nodes ?m) i = Some n" for n
    using that by (intro ext) (simp add: set_node_position_objects del: map_node_fields)
  then show "position_of (change_node i f sc) = position_of sc" using c pos by auto
  show "cache_ok net (change_node i f sc) = cache_ok net sc" "link_ends (change_node i f sc) = link_ends sc" using c m by auto
  show "exists_in (change_node i f sc) obj = exists_in sc obj" by (cases obj) (simp_all add: change_node_kept)
qed

lemma scan_node_step:
  assumes "scan_ok net st" and "list_all attached (nw_devices net i)"
  shows "\<exists>st'. scan_node color_parse net st i = Inr st' \<and> scan_ok net st' \<and> set (sn_graph st) \<subseteq> set (sn_graph st')
    \<and> (\<forall>obj. exists_in (sn_scene st) obj \<longrightarrow> exists_in (sn_scene st') obj) \<and> exists_in (sn_scene st') (NodeObj i)
    \<and> (\<forall>obj. obj \<noteq> NodeObj i \<longrightarrow> position_of (sn_scene st') obj = position_of (sn_scene st) obj)
    \<and> (case nw_mobility net i of Some pos \<Rightarrow> position_of (sn_scene st') (NodeObj i) = transform_point_simulation_to_canvas pos
        | None \<Rightarrow> NodeObj i \<in> set (sn_graph st'))
    \<and> link_ends (sn_scene st') = link_ends (sn_scene st) @ concat (map (device_links net i) (nw_devices net i))"
proof -
  let ?g = "st\<lparr>sn_scene := get_node i (sn_scene st)\<rparr>"
  have g: "scan_ok net ?g" "exists_in (sn_scene ?g) (NodeObj i)" "position_of (sn_scene ?g) = position_of (sn_scene st)"
    "link_ends (sn_scene ?g) = link_ends (sn_scene st)" "exists_in (sn_scene st) obj \<Longrightarrow> exists_in (sn_scene ?g) obj" for obj
    using assms(1) get_node_facts [where sc = "sn_scene st"]
    by (auto simp: scan_ok_def get_node_good cache_get simp del: position_of.simps)
  let ?t = "case nw_mobility net i of
      Some pos \<Rightarrow> ?g\<lparr>sn_scene := set_node_position i (transform_point_simulation_to_canvas pos) (set_color color_parse i (Named ''red'') (sn_scene ?g))\<rparr>
    | None \<Rightarrow> add_graph_node (NodeObj i) ?g"
  have t: "scan_ok net ?t \<and> (\<forall>obj. exists_in (sn_scene ?g) obj \<longrightarrow> exists_in (sn_scene ?t) obj)
    \<and> (\<forall>obj. obj \<noteq> NodeObj i \<longrightarrow> position_of (sn_scene ?t) obj = position_of (sn_scene st) obj)
    \<and> (case nw_mobility net i of Some pos \<Rightarrow> position_of (sn_scene ?t) (NodeObj i) = transform_point_simulation_to_canvas pos
        | None \<Rightarrow> NodeObj i \<in> set (sn_graph ?t))
    \<and> link_ends (sn_scene ?t) = link_ends (sn_scene st) \<and> set (sn_graph st) \<subseteq> set (sn_graph ?t)"
  proof (cases "nw_mobility net i")
    case None
    then show ?thesis using g by (auto simp: add_graph_node_def scan_ok_def simp del: exists_in.simps position_of.simps)
  next
    case (Some pos)
    let ?c = "set_color color_parse i (Named ''red'') (sn_scene ?g)"
    have c: "scene_good ?c" "cache_ok net ?c" "position_of ?c = position_of (sn_scene ?g)" "exists_in ?c obj = exists_in (sn_scene ?g) obj"
      "link_ends ?c = link_ends (sn_scene ?g)" for obj
      using g(1) change_node_facts [of "\<lambda>n. n\<lparr>nd_color := colour_value color_parse (Named ''red'')\<rparr>"]
      by (simp_all add: set_color_def scan_ok_def plain_good plain_changes del: position_of.simps exists_in.simps)
    have "has_key (sc_nodes ?c) i" using c(4) [of "NodeObj i"] g(2) by simp
    then show ?thesis
      using g c Some by (auto simp: scan_ok_def position_good set_node_position_objects simp del: exists_in.simps position_of.simps)
  qed
  then have "exists_in (sn_scene ?t) (NodeObj i)" using g(2) by blast
  with t obtain u where u: "res_fold (scan_device net i) (nw_devices net i) ?t = Inr u" "scan_ok net u" "scan_extends ?t u"
    "link_ends (sn_scene u) = link_ends (sn_scene ?t) @ concat (map (device_links net i) (nw_devices net i))"
    using scan_devices_step [of net ?t i, OF _ _ assms(2)] by blast
  have n: "scan_node color_parse net st i = Inr u" using u(1) by (simp add: scan_node_def Let_def)
  have pu: "position_of (sn_scene u) = position_of (sn_scene ?t)" "\<And>obj. exists_in (sn_scene ?t) obj \<Longrightarrow> exists_in (sn_scene u) obj"
    "set (sn_graph ?t) \<subseteq> set (sn_graph u)" using u(3) by (auto simp: scan_extends_def simp del: exists_in.simps)
  show ?thesis
    using n u(2,4) pu t g(2,5) by (intro exI [of _ u]) (auto simp del: exists_in.simps position_of.simps split: option.splits)
qed

lemma scan_nodes_step:
  assumes "scan_ok net st" and "\<forall>i \<in> set is. list_all attached (nw_devices net i)" and "distinct is"
  shows "\<exists>st'. res_fold (scan_node color_parse net) is st = Inr st' \<and> scan_ok net st' \<and> set (sn_graph st) \<subseteq> set (sn_graph st')
    \<and> (\<forall>obj. exists_in (sn_scene st) obj \<longrightarrow> exists_in (sn_scene st') obj)
    \<and> (\<forall>obj. obj \<notin> NodeObj ` set is \<longrightarrow> position_of (sn_scene st') obj = position_of (sn_scene st) obj)
    \<and> (\<forall>i \<in> set is. exists_in (sn_scene st') (NodeObj i) \<and> (case nw_mobility net i of
          Some pos \<Rightarrow> position_of (sn_scene st') (NodeObj i) = transform_point_simulation_to_canvas pos
        | None \<Rightarrow> NodeObj i \<in> set (sn_graph st')))
    \<and> link_ends (sn_scene st') = link_ends (sn_scene st) @ concat (map (\<lambda>i. concat (map (device_links net i) (nw_devices net i))) is)"
  using assms
proof (induction "is" arbitrary: st)
  case (Cons i "is")
  let ?P = "\<lambda>st i. case nw_mobility net i of
      Some pos \<Rightarrow> position_of (sn_scene st) (NodeObj i) = transform_point_simulation_to_canvas pos
    | None \<Rightarrow> NodeObj i \<in> set (sn_graph st)"
  have "list_all attached (nw_devices net i)" using Cons.prems(2) by simp
  from scan_node_step [OF Cons.prems(1) this, of color_parse] obtain t where t: "scan_node color_parse net st i = Inr t" "scan_ok net t"
    "set (sn_graph st) \<subseteq> set (sn_graph t)" "\<And>obj. exists_in (sn_scene st) obj \<Longrightarrow> exists_in (sn_scene t) obj" "exists_in (sn_scene t) (NodeObj i)"
    "\<And>obj. obj \<noteq> NodeObj i \<Longrightarrow> position_of (sn_scene t) obj = position_of (sn_scene st) obj" "?P t i"
    "link_ends (sn_scene t) = link_ends (sn_scene st) @ concat (map (device_links net i) (nw_devices net i))"
    by blast
  have "\<forall>i \<in> set is. list_all attached (nw_devices net i)" "distinct is" "i \<notin> set is" using Cons.prems(2,3) by simp_all
  with Cons.IH [OF t(2)] obtain u where u: "res_fold (scan_node color_parse net) is t = Inr u" "scan_ok net u"
    "set (sn_graph t) \<subseteq> set (sn_graph u)" "\<And>obj. exists_in (sn_scene t) obj \<Longrightarrow> exists_in (sn_scene u) obj"
    "\<And>obj. obj \<notin> NodeObj ` set is \<Longrightarrow> position_of (sn_scene u) obj = position_of (sn_scene t) obj"
    "\<And>j. j \<in> set is \<Longrightarrow> exists_in (sn_scene u) (NodeObj j) \<and> ?P u j"
    "link_ends (sn_scene u) = link_ends (sn_scene t) @ concat (map (\<lambda>i. concat (map (device_links net i) (nw_devices net i))) is)"
    by blast
  have "position_of (sn_scene u) (NodeObj i) = position_of (sn_scene t) (NodeObj i)" using u(5) \<open>i \<notin> set is\<close> by blast
  then have "?P u i" using t(7) u(3) by (auto split: option.splits simp del: position_of.simps)
  moreover have "exists_in (sn_scene u) (NodeObj i)" using u(4) t(5) by blast
  ultimately have all: "\<forall>j \<in> set (i # is). exists_in (sn_scene u) (NodeObj j) \<and> ?P u j" using u(6) by (simp del: position_of.simps exists_in.simps)
  have rest: "position_of (sn_scene u) obj = position_of (sn_scene st) obj" if "obj \<notin> NodeObj ` set (i # is)" for obj
  proof -
    have "obj \<notin> NodeObj ` set is" "obj \<noteq> NodeObj i" using that by auto
    then show ?thesis using u(5) t(6) by metis
  qed
  have rest': "\<forall>obj. obj \<notin> NodeObj ` set (i # is) \<longrightarrow> position_of (sn_scene u) obj = position_of (sn_scene st) obj" using rest by blast
  have ex: "\<forall>obj. exists_in (sn_scene st) obj \<longrightarrow> exists_in (sn_scene u) obj" using t(4) u(4) by blast
  have gr: "set (sn_graph st) \<subseteq> set (sn_graph u)" using t(3) u(3) by blast
  have r: "res_fold (scan_node color_parse net) (i # is) st = Inr u" using t(1) u(1) by simp
  have le: "link_ends (sn_scene u) = link_ends (sn_scene st) @ concat (map (\<lambda>i. concat (map (device_links net i) (nw_devices net i))) (i # is))"
    using t(8) u(7) by simp
  show ?case by (rule exI [of _ u], intro conjI) (rule r u(2) gr ex rest' all le)+
qed simp

lemma link_ends_channel [simp]: "link_ends (set_channel_position c p sc) = link_ends sc"
proof (rule nth_equalityI)
  let ?m = "map_channel c (\<lambda>ch. ch\<lparr>ch_center := p\<rparr>) sc"
  show "link_ends (set_channel_position c p sc) ! k = link_ends sc ! k" if "k < length (link_ends (set_channel_position c p sc))" for k
    using that fold_update_points [of k ?m "links_of ?m (ChannelObj c)"]
    by (simp add: link_ends_def set_channel_position_def Let_def del: links_of.simps)
qed (simp add: link_ends_def set_channel_position_def Let_def)

lemma place_object_step:
  assumes "scene_good sc" and "exists_in sc a"
  shows "\<exists>sc'. place_object pos sc a = Inr sc' \<and> scene_good sc' \<and> link_ends sc' = link_ends sc \<and> exists_in sc' = exists_in sc
    \<and> position_of sc' = (position_of sc)(a := pos a)"
proof (cases a)
  case (NodeObj i)
  have "position_of (set_node_position i (pos a) sc) = (position_of sc)(a := pos a)" "exists_in (set_node_position i (pos a) sc) = exists_in sc"
    using assms(2) by (auto simp: NodeObj set_node_position_objects fun_eq_iff simp del: position_of.simps)
  then show ?thesis using assms NodeObj by (simp add: position_good del: position_of.simps)
next
  case (ChannelObj c)
  have "position_of (set_channel_position c (pos a) sc) obj = ((position_of sc)(a := pos a)) obj"
    "exists_in (set_channel_position c (pos a) sc) obj = exists_in sc obj" for obj
    using assms(2) by (cases obj; auto simp: ChannelObj set_channel_position_def Let_def has_key_def)+
  then have "position_of (set_channel_position c (pos a) sc) = (position_of sc)(a := pos a)"
    "exists_in (set_channel_position c (pos a) sc) = exists_in sc" by (intro ext; blast)+
  then show ?thesis using assms ChannelObj by (simp add: channel_position_good del: position_of.simps)
qed

lemma place_objects_step:
  assumes "scene_good sc" and "\<forall>a \<in> set as. exists_in sc a"
  shows "\<exists>sc'. res_fold (place_object pos) as sc = Inr sc' \<and> scene_good sc' \<and> link_ends sc' = link_ends sc \<and> exists_in sc' = exists_in sc
    \<and> (\<forall>obj. position_of sc' obj = (if obj \<in> set as then pos obj else position_of sc obj))"
  using assms
proof (induction as arbitrary: sc)
  case (Cons a as)
  obtain t where t: "place_object pos sc a = Inr t" "scene_good t" "link_ends t = link_ends sc" "exists_in t = exists_in sc"
    "position_of t = (position_of sc)(a := pos a)"
    using place_object_step [of sc a pos] Cons.prems by auto
  then show ?case using Cons.IH [of t] Cons.prems by (auto simp del: place_object.simps position_of.simps exists_in.simps)
qed simp

text \<open>
  C24: The scan of the topology.  If every wired device is attached to a channel, scanning a new scene succeeds
  and leaves it consistent.  There is a node for each node of the network; one with a mobility model is at its
  position in the simulation, every other one where graphviz puts it.  The links are, in order, those of the
  wired devices: to the channel where it has more than two devices, else to the other end.
\<close>
theorem scan_topology_result:
  assumes "\<forall>i \<in> set (map int [0..<nw_count net]). list_all attached (nw_devices net i)"
  shows "\<exists>sc graph edges. scan_topology color_parse layout net (new_scene returned hooks (nw_count net)) = Inr sc \<and> scene_good sc
    \<and> map (\<lambda>l. (wl_node1 l, wl_node2 l)) (sc_links sc) = network_links net
    \<and> (\<forall>i \<in> set (map int [0..<nw_count net]). has_key (sc_nodes sc) i \<and> position_of sc (NodeObj i) =
         (case nw_mobility net i of Some pos \<Rightarrow> transform_point_simulation_to_canvas pos | None \<Rightarrow> layout graph edges (NodeObj i)))"
proof -
  let ?s = "\<lparr>sn_scene = new_scene returned hooks (nw_count net), sn_traits = netdevice_traits, sn_graph = [], sn_edges = []\<rparr>"
  have s: "scan_ok net ?s" by (simp add: scan_ok_def new_scene_good cache_ok_def) (simp add: new_scene_def)
  obtain st where st: "res_fold (scan_node color_parse net) (map int [0..<nw_count net]) ?s = Inr st" "scan_ok net st"
    "\<And>i. i \<in> set (map int [0..<nw_count net]) \<Longrightarrow> exists_in (sn_scene st) (NodeObj i) \<and> (case nw_mobility net i of
          Some pos \<Rightarrow> position_of (sn_scene st) (NodeObj i) = transform_point_simulation_to_canvas pos
        | None \<Rightarrow> NodeObj i \<in> set (sn_graph st))"
    "link_ends (sn_scene st) = link_ends (sn_scene ?s) @ network_links net"
    using scan_nodes_step [OF s assms, of color_parse] unfolding network_links_def by (auto simp: distinct_map)
  let ?pos = "layout (sn_graph st) (sn_edges st)"
  obtain sc where sc: "res_fold (place_object ?pos) (sn_graph st) (sn_scene st) = Inr sc" "scene_good sc" "link_ends sc = link_ends (sn_scene st)"
    "exists_in sc = exists_in (sn_scene st)" "\<And>obj. position_of sc obj = (if obj \<in> set (sn_graph st) then ?pos obj else position_of (sn_scene st) obj)"
    using place_objects_step [of "sn_scene st" "sn_graph st" ?pos] st(2) unfolding scan_ok_def by blast
  have "has_key (sc_nodes sc) i \<and> position_of sc (NodeObj i) =
      (case nw_mobility net i of Some pos \<Rightarrow> transform_point_simulation_to_canvas pos | None \<Rightarrow> ?pos (NodeObj i))"
    if i: "i \<in> set (map int [0..<nw_count net])" for i
  proof -
    have "exists_in sc (NodeObj i)" using st(3) [OF i] sc(4) by metis
    moreover have "NodeObj i \<notin> set (sn_graph st)" if "nw_mobility net i = Some pos" for pos
      using st(2) that by (auto simp: scan_ok_def simp del: exists_in.simps)
    ultimately show ?thesis using st(3) [OF i] sc(5) [of "NodeObj i"] by (auto split: option.splits simp del: position_of.simps)
  qed
  moreover have "scan_topology color_parse layout net (new_scene returned hooks (nw_count net)) = Inr sc" using st(1) sc(1) by (simp add: scan_topology_def)
  moreover have "map (\<lambda>l. (wl_node1 l, wl_node2 l)) (sc_links sc) = network_links net"
    using sc(3) st(4) by (simp add: link_ends_def new_scene_def)
  ultimately show ?thesis using sc(2) by blast
qed

section \<open>Samples\<close>

definition sample_net :: network where
  "sample_net = \<lparr>nw_count = 2, nw_mobility = (\<lambda>i. if i = 1 then Some (1, 2) else None),
     nw_devices = (\<lambda>i. [\<lparr>dv_class = ''ns.point_to_point.PointToPointNetDevice'', dv_channel = Some 5\<rparr>]),
     nw_channel_nodes = (\<lambda>c. [0, 1])\<rparr>"

lemma p2p_wired: "wired_in netdevice_traits ''ns.point_to_point.PointToPointNetDevice''" "wired_in netdevice_traits ''ns.csma.CsmaNetDevice''"
  by code_simp+

text \<open>A link with two ends is found from either end and so drawn twice.\<close>

lemma link_drawn_twice: "network_links sample_net = [(0, NodeObj 1), (1, NodeObj 0)]"
  by (simp add: network_links_def device_links_def sample_net_def p2p_wired numeral_2_eq_2)

theorem scan_topology_result_witness:
  "\<exists>sc. scan_topology (\<lambda>_. (65535, 0, 0)) (\<lambda>_ _ _. (7, 8)) sample_net (new_scene True [] 2) = Inr sc
    \<and> map (\<lambda>l. (wl_node1 l, wl_node2 l)) (sc_links sc) = [(0, NodeObj 1), (1, NodeObj 0)]
    \<and> position_of sc (NodeObj 0) = (7, 8) \<and> position_of sc (NodeObj 1) = (3, 6)"
proof -
  have n: "nw_count sample_net = 2" "nw_mobility sample_net 0 = None" "nw_mobility sample_net 1 = Some (1, 2)" by (simp_all add: sample_net_def)
  have a: "\<forall>i \<in> set (map int [0..<nw_count sample_net]). list_all attached (nw_devices sample_net i)"
    by (simp add: sample_net_def attached_def)
  have "(0::int) \<in> set (map int [0..<2])" "(1::int) \<in> set (map int [0..<2])" by simp_all
  note i = this
  from scan_topology_result [OF a, of "\<lambda>_. (65535, 0, 0)" "\<lambda>_ _ _. (7, 8)" True "[]"] obtain sc where
    sc: "scan_topology (\<lambda>_. (65535, 0, 0)) (\<lambda>_ _ _. (7, 8)) sample_net (new_scene True [] 2) = Inr sc"
      "map (\<lambda>l. (wl_node1 l, wl_node2 l)) (sc_links sc) = [(0, NodeObj 1), (1, NodeObj 0)]"
      "\<forall>i \<in> set (map int [0..<2]). has_key (sc_nodes sc) i \<and> position_of sc (NodeObj i) =
         (case nw_mobility sample_net i of Some pos \<Rightarrow> transform_point_simulation_to_canvas pos | None \<Rightarrow> (7, 8))"
    unfolding n(1) link_drawn_twice by (elim exE conjE) (rule that)
  show ?thesis using sc(1,2) bspec [OF sc(3) i(1)] bspec [OF sc(3) i(2)] n(2,3)
    by (intro exI [of _ sc]) (simp add: transform_defs del: position_of.simps)
qed

text \<open>A channel whose nodes all move is not laid out: its drawing stays at the origin.\<close>

definition mobile_net :: network where
  "mobile_net = \<lparr>nw_count = 3, nw_mobility = (\<lambda>i. Some (10, 10)), nw_devices = (\<lambda>i. [\<lparr>dv_class = ''ns.csma.CsmaNetDevice'', dv_channel = Some 5\<rparr>]),
     nw_channel_nodes = (\<lambda>c. [0, 1, 2])\<rparr>"

lemma mobile_channel_at_origin:
  "\<exists>sc. scan_topology (\<lambda>_. (65535, 0, 0)) (\<lambda>_ _ _. (7, 8)) mobile_net (new_scene True [] 3) = Inr sc
    \<and> has_key (sc_channels sc) 5 \<and> position_of sc (ChannelObj 5) = (0, 0)"
proof -
  have "(case scan_topology (\<lambda>_. (65535, 0, 0)) (\<lambda>_ _ _. (7, 8)) mobile_net (new_scene True [] 3) of
      Inr sc \<Rightarrow> has_key (sc_channels sc) 5 \<and> position_of sc (ChannelObj 5) = (0, 0) | Inl _ \<Rightarrow> False)" by code_simp
  then show ?thesis by (auto split: sum.splits)
qed

end
