(* ===== verification/Viz_Threads.thy ===== *)
theory Viz_Threads
  imports Py_Num
begin

text \<open>
  The two threads of the visualizer, \<^verbatim>\<open>src/visualizer/visualizer/core.py\<close>: the thread that runs the simulation
  (\<open>SimulationThread\<close>) and the main thread with the event loop of GTK (\<open>Visualizer\<close>).  They share a lock, an
  event, a flag and the messages of the simulation.  The handlers of the main thread are frames of a stack,
  because the timeout handler runs the event loop again while it waits for the lock.  Which event is
  dispatched next, how far a run of the simulation comes, which messages it leaves, and whether updating
  the view raises, are left open.
\<close>

section \<open>State\<close>

datatype thread = Sim | Main

text \<open>Where \<open>SimulationThread.run\<close> stands; the messages of the last run are in \<open>sim_helper\<close>.\<close>

datatype sim_pc = SCheck | SWait | SClear | STest | SAcquire | SRun | SCollect "string list" | SNotify | SRelease | SEnd

text \<open>
  The handlers: \<open>update_view_timeout\<close> of a timer (waiting for the lock, with the lock, with the view updated
  and the messages taken, without the lock, at the end), \<open>update_model\<close>, any handler that only takes the
  lock for a while (\<open>set_nodes_of_interest\<close>, \<open>tooltip_query\<close>, \<open>begin_node_drag\<close>, \<open>node_drag_motion\<close>,
  \<open>add_information_window\<close>), \<open>_quit\<close>, and \<open>autoscale_view\<close>.
\<close>

datatype viz_frame =
    Busy nat | View nat | Viewed nat "string list" | Paused nat "string list" | Decide nat
  | ModelWait | ModelHold | LockWait | LockHold | QuitFlag | QuitGo | Join | Autoscale

record viz_state =
  vz_lock :: "thread option"
  vz_go :: bool
  vz_quit :: bool
  vz_target_time :: rat
  vz_pause_messages :: "string list"
  vz_sim :: sim_pc
  vz_frames :: "viz_frame list"
  vz_main_loop :: bool
  vz_timeout_id :: "nat option"
  vz_sources :: "nat list"
  vz_next_source :: nat
  vz_bad_removes :: nat
  vz_play :: bool
  vz_idle :: nat
  vz_autoscale :: bool
  vz_speed :: rat
  vz_sample_period :: rat
  vz_interval :: int
  vz_smooth :: nat
  vz_last_transmissions :: "nat list"
  vz_now :: rat
  vz_runs :: nat
  vz_seen :: rat
  vz_produced :: "string list"
  vz_shown :: "string list"
  vz_lost :: "string list"

text \<open>
  The fields after the interval are the smoothing factor, the numbers of the runs whose samples are in
  \<open>_last_transmissions\<close>, the time and the number of runs of the simulator, and what an observer notes: the
  time at the last update of the view, the messages given out by the simulator, shown in a dialog, and
  dropped by an exception.
\<close>

section \<open>The simulation thread\<close>

text \<open>
  \<open>SimulatorRunUntil\<close>: returns at once when the time has come, and else stops at it or, when the simulation
  ends or pauses, before.
\<close>

definition run_until :: "rat \<Rightarrow> rat \<Rightarrow> rat \<Rightarrow> bool" where
  "run_until now target now' \<longleftrightarrow> (if target \<le> now then now' = now else now \<le> now' \<and> now' \<le> target)"

fun sim_thread :: "rat \<Rightarrow> string list \<Rightarrow> viz_state \<Rightarrow> viz_state option" where
  "sim_thread now' ms s = (case vz_sim s of
     SCheck \<Rightarrow> Some (s\<lparr>vz_sim := if vz_quit s then SEnd else SWait\<rparr>)
   | SWait \<Rightarrow> if vz_go s then Some (s\<lparr>vz_sim := SClear\<rparr>) else None
   | SClear \<Rightarrow> Some (s\<lparr>vz_go := False, vz_sim := STest\<rparr>)
   | STest \<Rightarrow> Some (s\<lparr>vz_sim := if vz_quit s then SEnd else SAcquire\<rparr>)
   | SAcquire \<Rightarrow> if vz_lock s = None then Some (s\<lparr>vz_lock := Some Sim, vz_sim := SRun\<rparr>) else None
   | SRun \<Rightarrow> if run_until (vz_now s) (vz_target_time s) now'
       then Some (s\<lparr>vz_now := now', vz_runs := vz_runs s + 1, vz_sim := SCollect ms\<rparr>) else None
   | SCollect ms' \<Rightarrow> Some (s\<lparr>vz_pause_messages := vz_pause_messages s @ ms', vz_produced := vz_produced s @ ms', vz_sim := SNotify\<rparr>)
   | SNotify \<Rightarrow> Some (s\<lparr>vz_idle := vz_idle s + 1, vz_sim := SRelease\<rparr>)
   | SRelease \<Rightarrow> Some (s\<lparr>vz_lock := None, vz_sim := SCheck\<rparr>)
   | SEnd \<Rightarrow> None)"

section \<open>Timers and the play button\<close>

text \<open>Removing a source that is no longer there is reported by GLib as a critical error.\<close>

definition source_remove :: "nat \<Rightarrow> viz_state \<Rightarrow> viz_state" where
  "source_remove i s =
     (if i \<in> set (vz_sources s) then s\<lparr>vz_sources := removeAll i (vz_sources s)\<rparr>
      else s\<lparr>vz_bad_removes := vz_bad_removes s + 1\<rparr>)"

definition SAMPLE_PERIOD :: rat where
  "SAMPLE_PERIOD = 1 / 10"

definition remove_timeout :: "viz_state \<Rightarrow> viz_state" where
  "remove_timeout s = (case vz_timeout_id s of None \<Rightarrow> s | Some i \<Rightarrow> source_remove i s)"

definition start_update_timer :: "viz_state \<Rightarrow> viz_state" where
  "start_update_timer s =
     (let s = remove_timeout s
      in s\<lparr>vz_timeout_id := Some (vz_next_source s), vz_sources := vz_next_source s # vz_sources s,
           vz_next_source := vz_next_source s + 1, vz_interval := \<lfloor>SAMPLE_PERIOD / min (vz_speed s) 1 * 1000\<rfloor>\<rparr>)"

definition speed_changed :: "rat \<Rightarrow> viz_state \<Rightarrow> viz_state" where
  "speed_changed v s = start_update_timer (s\<lparr>vz_speed := v, vz_sample_period := SAMPLE_PERIOD * v\<rparr>)"

definition on_play_button_toggled :: "viz_state \<Rightarrow> viz_state" where
  "on_play_button_toggled s = (if vz_play s then start_update_timer s else remove_timeout s)"

text \<open>\<open>set_active\<close> emits the signal only when the state of the button changes.\<close>

definition set_play :: "bool \<Rightarrow> viz_state \<Rightarrow> viz_state" where
  "set_play b s = (if vz_play s = b then s else on_play_button_toggled (s\<lparr>vz_play := b\<rparr>))"

section \<open>Handlers of the main thread\<close>

text \<open>\<open>while len(l) > k: l.pop(0)\<close>.\<close>

fun pop_excess :: "nat \<Rightarrow> 'a list \<Rightarrow> 'a list" where
  "pop_excess k [] = []"
| "pop_excess k (x # xs) = (if length (x # xs) > k then pop_excess k xs else x # xs)"

definition do_simulation_periodic_update :: "viz_state \<Rightarrow> viz_state" where
  "do_simulation_periodic_update s =
     s\<lparr>vz_last_transmissions := pop_excess (vz_smooth s) (vz_last_transmissions s @ [vz_runs s])\<rparr>"

text \<open>One step of \<open>update_view_timeout\<close>; \<open>fails\<close> says whether \<open>update_view\<close> raises, which removes the timer.\<close>

definition view_update :: "bool \<Rightarrow> nat \<Rightarrow> viz_frame list \<Rightarrow> viz_state \<Rightarrow> viz_state" where
  "view_update fails i fs s =
     (let ms = vz_pause_messages s; s = s\<lparr>vz_pause_messages := []\<rparr>
      in if fails then s\<lparr>vz_lock := None, vz_frames := fs, vz_sources := removeAll i (vz_sources s), vz_lost := vz_lost s @ ms\<rparr>
         else s\<lparr>vz_target_time := vz_now s + vz_sample_period s, vz_seen := vz_now s, vz_frames := Viewed i ms # fs\<rparr>)"

definition view_pause :: "nat \<Rightarrow> string list \<Rightarrow> viz_frame list \<Rightarrow> viz_state \<Rightarrow> viz_state" where
  "view_pause i ms fs s =
     (let s = s\<lparr>vz_frames := Decide i # fs\<rparr>
      in if ms = [] then s else set_play False (s\<lparr>vz_shown := vz_shown s @ ms\<rparr>))"

definition view_decide :: "nat \<Rightarrow> viz_frame list \<Rightarrow> viz_state \<Rightarrow> viz_state" where
  "view_decide i fs s =
     (if \<not> vz_play s then s\<lparr>vz_timeout_id := None, vz_sources := removeAll i (vz_sources s), vz_frames := fs\<rparr>
      else s\<lparr>vz_go := True, vz_frames := fs\<rparr>)"

definition quit_flag :: "viz_frame list \<Rightarrow> viz_state \<Rightarrow> viz_state" where
  "quit_flag fs s = (remove_timeout s)\<lparr>vz_timeout_id := None, vz_quit := True, vz_frames := QuitGo # fs\<rparr>"

definition acquire :: "viz_frame list \<Rightarrow> viz_state \<Rightarrow> viz_state option" where
  "acquire fs s = (if vz_lock s = None then Some (s\<lparr>vz_lock := Some Main, vz_frames := fs\<rparr>) else None)"

fun main_thread :: "bool \<Rightarrow> viz_state \<Rightarrow> viz_state option" where
  "main_thread fails s = (case vz_frames s of
     [] \<Rightarrow> None
   | Busy i # fs \<Rightarrow> acquire (View i # fs) s
   | View i # fs \<Rightarrow> Some (view_update fails i fs s)
   | Viewed i ms # fs \<Rightarrow> Some (s\<lparr>vz_lock := None, vz_frames := Paused i ms # fs\<rparr>)
   | Paused i ms # fs \<Rightarrow> Some (view_pause i ms fs s)
   | Decide i # fs \<Rightarrow> Some (view_decide i fs s)
   | ModelWait # fs \<Rightarrow> acquire (ModelHold # fs) s
   | ModelHold # fs \<Rightarrow> Some ((do_simulation_periodic_update s)\<lparr>vz_lock := None, vz_frames := fs\<rparr>)
   | LockWait # fs \<Rightarrow> acquire (LockHold # fs) s
   | LockHold # fs \<Rightarrow> Some (s\<lparr>vz_lock := None, vz_frames := fs\<rparr>)
   | QuitFlag # fs \<Rightarrow> Some (quit_flag fs s)
   | QuitGo # fs \<Rightarrow> Some (s\<lparr>vz_go := True, vz_frames := Join # fs\<rparr>)
   | Join # fs \<Rightarrow> if vz_sim s = SEnd then Some (s\<lparr>vz_main_loop := False, vz_frames := fs\<rparr>) else None
   | Autoscale # fs \<Rightarrow> Some (s\<lparr>vz_frames := fs\<rparr>))"

section \<open>Events\<close>

datatype viz_event = Timeout nat | IdleModel | TogglePlay | SpeedChanged rat | LockedHandler | DeleteEvent | AutoscaleTimeout

text \<open>The event loop runs when no handler does, until it is left, and inside the loop of a busy timeout handler.\<close>

definition in_event_loop :: "viz_state \<Rightarrow> bool" where
  "in_event_loop s = (case vz_frames s of [] \<Rightarrow> vz_main_loop s | Busy _ # _ \<Rightarrow> True | _ \<Rightarrow> False)"

text \<open>A source whose handler is running is not dispatched again; the speed is limited by the adjustment.\<close>

definition push :: "viz_frame \<Rightarrow> viz_state \<Rightarrow> viz_state" where
  "push f s = s\<lparr>vz_frames := f # vz_frames s\<rparr>"

fun dispatch :: "viz_event \<Rightarrow> viz_state \<Rightarrow> viz_state option" where
  "dispatch (Timeout i) s =
     (if in_event_loop s \<and> i \<in> set (vz_sources s) \<and> Busy i \<notin> set (vz_frames s) then Some (push (Busy i) s) else None)"
| "dispatch IdleModel s =
     (if in_event_loop s \<and> vz_idle s > 0 then Some (push ModelWait (s\<lparr>vz_idle := vz_idle s - 1\<rparr>)) else None)"
| "dispatch TogglePlay s = (if in_event_loop s then Some (set_play (\<not> vz_play s) s) else None)"
| "dispatch (SpeedChanged v) s = (if in_event_loop s \<and> 1 / 100 \<le> v \<and> v \<le> 10 then Some (speed_changed v s) else None)"
| "dispatch LockedHandler s = (if in_event_loop s then Some (push LockWait s) else None)"
| "dispatch DeleteEvent s = (if in_event_loop s \<and> \<not> vz_quit s then Some (push QuitFlag s) else None)"
| "dispatch AutoscaleTimeout s =
     (if in_event_loop s \<and> vz_autoscale s then Some (push Autoscale (s\<lparr>vz_autoscale := False\<rparr>)) else None)"

text \<open>
  When \<open>start\<close> enters the event loop: building the window has called \<open>_speed_changed\<close>, so a timer runs
  although the play button is not pressed.
\<close>

definition viz_start :: "nat \<Rightarrow> viz_state" where
  "viz_start smooth =
     speed_changed 1
       \<lparr>vz_lock = None, vz_go = False, vz_quit = False, vz_target_time = 0, vz_pause_messages = [], vz_sim = SCheck,
        vz_frames = [], vz_main_loop = True, vz_timeout_id = None, vz_sources = [], vz_next_source = 1,
        vz_bad_removes = 0, vz_play = False, vz_idle = 0, vz_autoscale = True, vz_speed = 1, vz_sample_period = SAMPLE_PERIOD,
        vz_interval = 0, vz_smooth = smooth, vz_last_transmissions = [], vz_now = 0, vz_runs = 0, vz_seen = 0,
        vz_produced = [], vz_shown = [], vz_lost = []\<rparr>"

inductive viz_step :: "viz_state \<Rightarrow> viz_state \<Rightarrow> bool" where
  simulation: "sim_thread now' ms s = Some s' \<Longrightarrow> viz_step s s'"
| handler: "main_thread fails s = Some s' \<Longrightarrow> viz_step s s'"
| event: "dispatch e s = Some s' \<Longrightarrow> viz_step s s'"

section \<open>Who holds the lock\<close>

declare sim_thread.simps [simp del] main_thread.simps [simp del]

inductive_cases viz_stepE: "viz_step s t"

fun sim_holds :: "sim_pc \<Rightarrow> bool" where
  "sim_holds SRun = True"
| "sim_holds (SCollect _) = True"
| "sim_holds SNotify = True"
| "sim_holds SRelease = True"
| "sim_holds _ = False"

fun frame_holds :: "viz_frame \<Rightarrow> bool" where
  "frame_holds (View _) = True"
| "frame_holds (Viewed _ _) = True"
| "frame_holds ModelHold = True"
| "frame_holds LockHold = True"
| "frame_holds _ = False"

fun is_busy :: "viz_frame \<Rightarrow> bool" where
  "is_busy (Busy _) = True"
| "is_busy _ = False"

definition main_holds :: "viz_state \<Rightarrow> bool" where
  "main_holds s = (case vz_frames s of [] \<Rightarrow> False | f # _ \<Rightarrow> frame_holds f)"

text \<open>Timers and the play button touch neither the threads nor the simulation.\<close>

lemma remove_timeout_kept [simp]:
  "vz_lock (remove_timeout s) = vz_lock s" "vz_go (remove_timeout s) = vz_go s" "vz_quit (remove_timeout s) = vz_quit s"
  "vz_target_time (remove_timeout s) = vz_target_time s" "vz_pause_messages (remove_timeout s) = vz_pause_messages s"
  "vz_sim (remove_timeout s) = vz_sim s" "vz_frames (remove_timeout s) = vz_frames s" "vz_main_loop (remove_timeout s) = vz_main_loop s"
  "vz_now (remove_timeout s) = vz_now s" "vz_seen (remove_timeout s) = vz_seen s" "vz_produced (remove_timeout s) = vz_produced s"
  "vz_shown (remove_timeout s) = vz_shown s" "vz_lost (remove_timeout s) = vz_lost s" "vz_speed (remove_timeout s) = vz_speed s"
  "vz_sample_period (remove_timeout s) = vz_sample_period s"
  by (simp_all add: remove_timeout_def source_remove_def split: option.splits)

lemma timer_kept [simp]:
  "vz_lock (start_update_timer s) = vz_lock s" "vz_go (start_update_timer s) = vz_go s" "vz_quit (start_update_timer s) = vz_quit s"
  "vz_target_time (start_update_timer s) = vz_target_time s" "vz_pause_messages (start_update_timer s) = vz_pause_messages s"
  "vz_sim (start_update_timer s) = vz_sim s" "vz_frames (start_update_timer s) = vz_frames s" "vz_main_loop (start_update_timer s) = vz_main_loop s"
  "vz_now (start_update_timer s) = vz_now s" "vz_seen (start_update_timer s) = vz_seen s" "vz_produced (start_update_timer s) = vz_produced s"
  "vz_shown (start_update_timer s) = vz_shown s" "vz_lost (start_update_timer s) = vz_lost s" "vz_speed (start_update_timer s) = vz_speed s"
  "vz_sample_period (start_update_timer s) = vz_sample_period s"
  by (simp_all add: start_update_timer_def Let_def)

lemma play_kept [simp]:
  "vz_lock (set_play b s) = vz_lock s" "vz_go (set_play b s) = vz_go s" "vz_quit (set_play b s) = vz_quit s"
  "vz_target_time (set_play b s) = vz_target_time s" "vz_pause_messages (set_play b s) = vz_pause_messages s"
  "vz_sim (set_play b s) = vz_sim s" "vz_frames (set_play b s) = vz_frames s" "vz_main_loop (set_play b s) = vz_main_loop s"
  "vz_now (set_play b s) = vz_now s" "vz_seen (set_play b s) = vz_seen s" "vz_produced (set_play b s) = vz_produced s"
  "vz_shown (set_play b s) = vz_shown s" "vz_lost (set_play b s) = vz_lost s" "vz_speed (set_play b s) = vz_speed s"
  "vz_sample_period (set_play b s) = vz_sample_period s"
  by (simp_all add: set_play_def on_play_button_toggled_def)

lemmas handler_defs = view_update_def view_pause_def view_decide_def quit_flag_def acquire_def do_simulation_periodic_update_def
  speed_changed_def push_def Let_def

definition lock_inv :: "viz_state \<Rightarrow> bool" where
  "lock_inv s \<longleftrightarrow> vz_lock s = (if sim_holds (vz_sim s) then Some Sim else if main_holds s then Some Main else None)
     \<and> \<not> (sim_holds (vz_sim s) \<and> main_holds s) \<and> list_all is_busy (tl (vz_frames s))"

lemma sim_lock_inv: "lock_inv s \<Longrightarrow> sim_thread now' ms s = Some s' \<Longrightarrow> lock_inv s'"
  by (auto simp: lock_inv_def main_holds_def sim_thread.simps split: sim_pc.splits if_splits list.splits)

lemma busy_not_held: "list_all is_busy fs \<Longrightarrow> \<not> (case fs of [] \<Rightarrow> False | f # _ \<Rightarrow> frame_holds f)"
  by (cases fs; cases "hd fs") auto

lemma busy_tl: "list_all is_busy fs \<Longrightarrow> list_all is_busy (tl fs)"
  by (cases fs) auto

text \<open>What a step of a handler does with the lock: it takes it, keeps it, gives it back, or ends without it.\<close>

definition handler_shape :: "viz_frame \<Rightarrow> viz_frame list \<Rightarrow> viz_state \<Rightarrow> viz_state \<Rightarrow> bool" where
  "handler_shape f fs s s' \<longleftrightarrow> vz_sim s' = vz_sim s \<and>
     (vz_lock s = None \<and> vz_lock s' = Some Main \<and> (\<exists>g. vz_frames s' = g # fs \<and> frame_holds g)
      \<or> vz_lock s' = vz_lock s \<and> (\<exists>g. vz_frames s' = g # fs \<and> frame_holds g = frame_holds f)
      \<or> vz_lock s' = None \<and> frame_holds f \<and> (vz_frames s' = fs \<or> (\<exists>g. vz_frames s' = g # fs \<and> \<not> frame_holds g))
      \<or> vz_lock s' = vz_lock s \<and> \<not> frame_holds f \<and> vz_frames s' = fs)"

lemma main_thread_shape:
  assumes "main_thread fails s = Some s'"
  obtains f fs where "vz_frames s = f # fs" and "handler_shape f fs s s'"
proof (cases "vz_frames s")
  case (Cons f fs)
  with assms have "handler_shape f fs s s'"
    by (cases f) (auto simp: handler_shape_def handler_defs main_thread.simps split: if_splits)
  with Cons show ?thesis by (rule that)
qed (use assms in \<open>simp add: main_thread.simps\<close>)

lemma main_lock_inv:
  assumes "lock_inv s" and "main_thread fails s = Some s'"
  shows "lock_inv s'"
  using assms(2)
proof (rule main_thread_shape)
  fix f fs assume f: "vz_frames s = f # fs" and sh: "handler_shape f fs s s'"
  have "list_all is_busy fs" using assms(1) f by (simp add: lock_inv_def)
  then have b: "list_all is_busy fs" "list_all is_busy (tl fs)" "\<not> (case fs of [] \<Rightarrow> False | f # _ \<Rightarrow> frame_holds f)"
    by (simp_all add: busy_not_held busy_tl)
  show ?thesis using assms(1) f sh b unfolding lock_inv_def main_holds_def handler_shape_def by (elim conjE disjE exE) (simp_all split: if_splits)
qed

text \<open>An event pushes a handler that does not hold the lock yet, or no handler at all.\<close>

lemma dispatch_shape:
  assumes "dispatch e s = Some s'"
  shows "in_event_loop s \<and> vz_sim s' = vz_sim s \<and> vz_lock s' = vz_lock s
    \<and> (vz_frames s' = vz_frames s \<or> (\<exists>f. vz_frames s' = f # vz_frames s \<and> \<not> frame_holds f))"
  using assms by (cases e) (auto simp: handler_defs split: if_splits)

lemma dispatch_lock_inv:
  assumes "lock_inv s" and "dispatch e s = Some s'"
  shows "lock_inv s'"
proof -
  note d = dispatch_shape [OF assms(2)]
  have "list_all is_busy (vz_frames s)" "\<not> main_holds s"
    using assms(1) conjunct1 [OF d] by (auto simp: lock_inv_def main_holds_def in_event_loop_def split: list.splits viz_frame.splits)
  then show ?thesis using assms(1) d by (auto simp: lock_inv_def main_holds_def)
qed

lemma lock_inv_step: "lock_inv s \<Longrightarrow> viz_step s t \<Longrightarrow> lock_inv t"
  by (elim viz_stepE) (erule (1) sim_lock_inv main_lock_inv dispatch_lock_inv)+

lemma start_fields [simp]:
  "vz_lock (viz_start k) = None" "vz_sim (viz_start k) = SCheck" "vz_frames (viz_start k) = []" "vz_quit (viz_start k) = False"
  "vz_now (viz_start k) = 0" "vz_target_time (viz_start k) = 0" "vz_seen (viz_start k) = 0" "vz_sample_period (viz_start k) = SAMPLE_PERIOD"
  "vz_pause_messages (viz_start k) = []" "vz_produced (viz_start k) = []" "vz_shown (viz_start k) = []" "vz_lost (viz_start k) = []"
  "vz_speed (viz_start k) = 1" "vz_go (viz_start k) = False"
  by (simp_all add: viz_start_def speed_changed_def)

interpretation locking: transition_system "\<lambda>s. \<exists>k. s = viz_start k" viz_step lock_inv
proof unfold_locales
  show "lock_inv s" if "\<exists>k. s = viz_start k" for s using that by (auto simp: lock_inv_def main_holds_def)
qed (rule lock_inv_step)

text \<open>
  C19: The two threads of the visualizer exclude one another: in every state they can reach, whatever the
  user does, the simulation does not run while a handler of the main thread reads or changes it under the
  lock; and a handler that holds the lock is never interrupted by another one.
\<close>
theorem viz_mutual_exclusion:
  assumes "viz_step\<^sup>*\<^sup>* (viz_start smooth) s" and "f \<in> set (vz_frames s)" and "frame_holds f"
  shows "\<not> sim_holds (vz_sim s) \<and> vz_lock s = Some Main \<and> f = hd (vz_frames s) \<and> filter frame_holds (vz_frames s) = [f]"
proof -
  have inv: "lock_inv s" using locking.reach_inv assms(1) by blast
  obtain g fs where g: "vz_frames s = g # fs" using assms(2) by (cases "vz_frames s") auto
  have b: "\<not> frame_holds h" if "h \<in> set fs" for h
    using inv g that by (cases h) (auto simp: lock_inv_def list_all_iff)
  with assms(2,3) g have "f = g" by auto
  moreover have "filter frame_holds fs = []" using b by (simp add: filter_empty_conv)
  ultimately show ?thesis using inv g assms(3) by (simp add: lock_inv_def main_holds_def split: if_splits)
qed

section \<open>The main thread does not wait for ever\<close>

definition quit_inv :: "viz_state \<Rightarrow> bool" where
  "quit_inv s \<longleftrightarrow> (case vz_frames s of
     QuitGo # _ \<Rightarrow> vz_quit s
   | Join # _ \<Rightarrow> vz_quit s \<and> (vz_sim s = SWait \<longrightarrow> vz_go s)
   | _ \<Rightarrow> True)"

lemma quit_inv_busy: "list_all is_busy (vz_frames s) \<Longrightarrow> quit_inv s"
  by (cases "vz_frames s"; cases "hd (vz_frames s)") (auto simp: quit_inv_def)

lemma sim_quit_inv: "quit_inv s \<Longrightarrow> sim_thread now' ms s = Some s' \<Longrightarrow> quit_inv s'"
  by (cases "vz_frames s"; cases "hd (vz_frames s)"; cases "vz_sim s") (auto simp: quit_inv_def sim_thread.simps split: if_splits)

lemma main_quit_inv:
  assumes "lock_inv s" and "quit_inv s" and "main_thread fails s = Some s'"
  shows "quit_inv s'"
proof (cases "vz_frames s")
  case (Cons f fs)
  then have b: "list_all is_busy fs" using assms(1) by (simp add: lock_inv_def)
  have "vz_frames s' = fs \<or> quit_inv s'"
    using assms(2,3) Cons by (cases f) (auto simp: quit_inv_def main_thread.simps handler_defs split: if_splits)
  then show ?thesis using b quit_inv_busy by auto
qed (use assms in \<open>simp add: main_thread.simps\<close>)

lemma dispatch_quit_inv:
  assumes "lock_inv s" and "dispatch e s = Some s'"
  shows "quit_inv s'"
proof -
  have "list_all is_busy (vz_frames s)"
    using assms dispatch_shape [OF assms(2)]
    by (auto simp: lock_inv_def main_holds_def in_event_loop_def split: list.splits viz_frame.splits)
  then show ?thesis
    using assms(2) quit_inv_busy [of s] quit_inv_busy [of s']
    by (cases e) (auto simp: quit_inv_def handler_defs split: if_splits)
qed

definition viz_inv :: "viz_state \<Rightarrow> bool" where
  "viz_inv s \<longleftrightarrow> lock_inv s \<and> quit_inv s"

lemma viz_inv_step: "viz_inv s \<Longrightarrow> viz_step s t \<Longrightarrow> viz_inv t"
  unfolding viz_inv_def using lock_inv_step [of s t] sim_quit_inv main_quit_inv dispatch_quit_inv
  by (metis viz_step.cases)

lemma viz_inv_start: "viz_inv (viz_start k)"
  by (simp add: viz_inv_def lock_inv_def main_holds_def quit_inv_def)

text \<open>A handler that waits for the lock or for the end of the other thread.\<close>

definition blocked :: "viz_state \<Rightarrow> bool" where
  "blocked s \<longleftrightarrow> (case vz_frames s of [] \<Rightarrow> False | f # _ \<Rightarrow> f \<in> {ModelWait, LockWait, Join})"

text \<open>How long the simulation thread can go on before it waits for the event, which a blocked main thread does not set.\<close>

fun sim_rank :: "sim_pc \<Rightarrow> nat" where
  "sim_rank SClear = 8"
| "sim_rank STest = 7"
| "sim_rank SAcquire = 6"
| "sim_rank SRun = 5"
| "sim_rank (SCollect _) = 4"
| "sim_rank SNotify = 3"
| "sim_rank SRelease = 2"
| "sim_rank SCheck = 1"
| "sim_rank SWait = 0"
| "sim_rank SEnd = 0"

definition wait_weight :: "viz_state \<Rightarrow> nat" where
  "wait_weight s = (if blocked s then sim_rank (vz_sim s) + (if vz_go s \<and> vz_sim s \<noteq> SClear then 9 else 0) + 1 else 0)"

definition wait_step :: "viz_state \<Rightarrow> viz_state \<Rightarrow> bool" where
  "wait_step s t \<longleftrightarrow> blocked s \<and> viz_step s t"

lemma wait_weight_bound: "wait_weight s \<le> 17"
  by (cases "vz_sim s") (auto simp: wait_weight_def)

lemma wait_sim_weight:
  assumes "blocked s" and "sim_thread now' ms s = Some t"
  shows "wait_weight t < wait_weight s"
proof -
  have "vz_frames t = vz_frames s" using assms(2) by (auto simp: sim_thread.simps split: sim_pc.splits if_splits)
  then have "blocked t" using assms(1) by (simp add: blocked_def)
  with assms show ?thesis by (cases "vz_sim s") (auto simp: wait_weight_def sim_thread.simps split: if_splits)
qed

lemma wait_main_weight:
  assumes "lock_inv s" and "blocked s" and "main_thread fails s = Some t"
  shows "\<not> blocked t"
proof -
  obtain f fs where f: "vz_frames s = f # fs" "f \<in> {ModelWait, LockWait, Join}"
    using assms(2) by (auto simp: blocked_def split: list.splits)
  then have "list_all is_busy fs" using assms(1) by (simp add: lock_inv_def)
  then have "\<not> (case fs of [] \<Rightarrow> False | g # _ \<Rightarrow> g \<in> {ModelWait, LockWait, Join})" by (cases fs; cases "hd fs") auto
  then show ?thesis using f assms(3) by (auto simp: blocked_def main_thread.simps acquire_def split: if_splits list.splits)
qed

lemma wait_no_event: "blocked s \<Longrightarrow> dispatch e s = Some t \<Longrightarrow> False"
  by (drule dispatch_shape) (auto simp: blocked_def in_event_loop_def split: list.splits viz_frame.splits)

lemma wait_step_weight:
  assumes "viz_inv s" and "wait_step s t"
  shows "wait_weight t < wait_weight s"
proof -
  have b: "blocked s" "viz_step s t" using assms(2) by (auto simp: wait_step_def)
  have pos: "0 < wait_weight s" using b(1) by (simp add: wait_weight_def)
  from b(2) show ?thesis
  proof (cases rule: viz_step.cases)
    case (handler fails)
    then have "wait_weight t = 0" using wait_main_weight [OF _ b(1)] assms(1) by (simp add: viz_inv_def wait_weight_def)
    with pos show ?thesis by simp
  qed (use wait_sim_weight [OF b(1)] wait_no_event [OF b(1)] in blast)+
qed

lemma wait_progress:
  assumes "viz_inv s" and "blocked s"
  shows "\<exists>t. wait_step s t"
proof -
  have m: "\<not> main_holds s" using assms(2) by (auto simp: blocked_def main_holds_def split: list.splits)
  have lock: "vz_lock s = None" if "\<not> sim_holds (vz_sim s)" using assms(1) m that by (simp add: viz_inv_def lock_inv_def)
  have "\<exists>t. viz_step s t"
  proof (cases "\<exists>t. sim_thread (vz_now s) [] s = Some t")
    case False
    then have stuck: "vz_sim s = SEnd \<or> vz_sim s = SWait \<and> \<not> vz_go s"
      using lock by (cases "vz_sim s") (auto simp: sim_thread.simps run_until_def split: if_splits)
    then have "\<exists>t. main_thread False s = Some t"
      using assms lock by (auto simp: blocked_def viz_inv_def quit_inv_def main_thread.simps acquire_def split: list.splits)
    then show ?thesis by (blast intro: handler)
  qed (blast intro: simulation)
  with assms(2) show ?thesis by (auto simp: wait_step_def)
qed

interpretation waiting: terminating_system viz_inv wait_step viz_inv wait_weight "\<lambda>s. \<not> blocked s"
proof unfold_locales
  show "viz_inv t" if "viz_inv s" "wait_step s t" for s t using viz_inv_step that by (auto simp: wait_step_def)
qed (use wait_step_weight wait_progress in auto)

interpretation viz: transition_system "\<lambda>s. \<exists>k. s = viz_start k" viz_step viz_inv
proof unfold_locales
  show "viz_inv s" if "\<exists>k. s = viz_start k" for s using that viz_inv_start by auto
qed (rule viz_inv_step)

text \<open>
  C20: The main thread is never blocked for ever.  Whenever a handler waits for the lock, or \<open>_quit\<close> for the end
  of the simulation thread, every schedule of the two threads lets it go on within seventeen steps of the
  simulation thread, and no schedule gets stuck before; in particular closing the window ends both
  threads, provided that each run of the simulator returns.
\<close>
theorem viz_main_unblocks:
  assumes "viz_step\<^sup>*\<^sup>* (viz_start smooth) s" and "blocked s"
  shows "(\<forall>n t. (wait_step ^^ n) s t \<longrightarrow> n \<le> 17) \<and> (\<forall>t. wait_step\<^sup>*\<^sup>* s t \<and> blocked t \<longrightarrow> (\<exists>u. wait_step t u))
    \<and> (\<exists>t. wait_step\<^sup>*\<^sup>* s t \<and> \<not> blocked t)"
proof -
  have inv: "viz_inv s" using viz.reach_inv assms(1) by blast
  have "n \<le> 17" if "(wait_step ^^ n) s t" for n t
    using waiting.run_length [OF inv that] wait_weight_bound [of s] by linarith
  moreover have "\<exists>u. wait_step t u" if "wait_step\<^sup>*\<^sup>* s t" "blocked t" for t
    using waiting.reach_inv [OF inv that(1)] waiting.progress that(2) by blast
  ultimately show ?thesis using waiting.reaches_final [OF inv] by blast
qed

section \<open>Messages and time\<close>

fun taken :: "viz_frame \<Rightarrow> string list" where
  "taken (Viewed _ ms) = ms"
| "taken (Paused _ ms) = ms"
| "taken _ = []"

definition in_hand :: "viz_state \<Rightarrow> string list" where
  "in_hand s = concat (map taken (vz_frames s))"

definition message_inv :: "viz_state \<Rightarrow> bool" where
  "message_inv s \<longleftrightarrow> mset (vz_produced s) = mset (vz_shown s @ vz_lost s @ in_hand s @ vz_pause_messages s)
     \<and> (vz_lost s = [] \<longrightarrow> vz_produced s = vz_shown s @ in_hand s @ vz_pause_messages s)"

lemma taken_busy: "list_all is_busy fs \<Longrightarrow> concat (map taken fs) = []"
proof (induction fs)
  case (Cons f fs)
  then show ?case by (cases f) auto
qed simp

lemma sim_message_inv: "message_inv s \<Longrightarrow> sim_thread now' ms s = Some t \<Longrightarrow> message_inv t"
  by (auto simp: message_inv_def in_hand_def sim_thread.simps split: sim_pc.splits if_splits)

lemma main_message_inv:
  assumes "lock_inv s" and "message_inv s" and "main_thread fails s = Some t"
  shows "message_inv t"
proof (cases "vz_frames s")
  case (Cons f fs)
  then have c: "concat (map taken fs) = []" using assms(1) by (intro taken_busy) (simp add: lock_inv_def)
  show ?thesis
    using assms(2,3) Cons by (cases f) (auto simp: c message_inv_def in_hand_def main_thread.simps handler_defs split: if_splits)
qed (use assms in \<open>simp add: main_thread.simps\<close>)

lemma dispatch_message_inv: "message_inv s \<Longrightarrow> dispatch e s = Some t \<Longrightarrow> message_inv t"
  by (cases e) (auto simp: message_inv_def in_hand_def handler_defs split: if_splits)

definition time_inv :: "viz_state \<Rightarrow> bool" where
  "time_inv s \<longleftrightarrow> vz_seen s \<le> vz_now s \<and> vz_now s \<le> vz_target_time s \<and> vz_target_time s \<le> vz_seen s + SAMPLE_PERIOD * 10
     \<and> 0 < vz_speed s \<and> vz_speed s \<le> 10 \<and> vz_sample_period s = SAMPLE_PERIOD * vz_speed s"

lemma sim_time_inv: "time_inv s \<Longrightarrow> sim_thread now' ms s = Some t \<Longrightarrow> time_inv t"
  by (auto simp: time_inv_def sim_thread.simps run_until_def split: sim_pc.splits if_splits)

lemma main_time_inv: "time_inv s \<Longrightarrow> main_thread fails s = Some t \<Longrightarrow> time_inv t"
  by (auto simp: time_inv_def main_thread.simps handler_defs SAMPLE_PERIOD_def split: list.splits viz_frame.splits if_splits)

lemma dispatch_time_inv: "time_inv s \<Longrightarrow> dispatch e s = Some t \<Longrightarrow> time_inv t"
  by (cases e) (auto simp: time_inv_def handler_defs split: if_splits)

interpretation messages: transition_system "\<lambda>s. \<exists>k. s = viz_start k" viz_step "\<lambda>s. lock_inv s \<and> message_inv s \<and> time_inv s"
proof unfold_locales
  show "lock_inv s \<and> message_inv s \<and> time_inv s" if "\<exists>k. s = viz_start k" for s
    using that by (auto simp: lock_inv_def main_holds_def message_inv_def in_hand_def time_inv_def SAMPLE_PERIOD_def)
  show "lock_inv t \<and> message_inv t \<and> time_inv t" if "lock_inv s \<and> message_inv s \<and> time_inv s" "viz_step s t" for s t
  proof -
    have "lock_inv t" using lock_inv_step that by blast
    moreover from that(2) have "message_inv t \<and> time_inv t"
      by (cases rule: viz_step.cases)
        (use that(1) in \<open>blast intro: sim_message_inv main_message_inv dispatch_message_inv sim_time_inv main_time_inv dispatch_time_inv\<close>)+
    ultimately show ?thesis by blast
  qed
qed

text \<open>
  C21: No pause message is lost between the threads.  Every message that the simulator has given out is, once
  each, shown in a dialog, in the hands of the handler that is about to show it, or waiting for the
  next update of the view, in this order; only an exception while the view is updated drops messages.
\<close>
theorem viz_messages_kept:
  assumes "viz_step\<^sup>*\<^sup>* (viz_start smooth) s"
  shows "mset (vz_produced s) = mset (vz_shown s @ vz_lost s @ in_hand s @ vz_pause_messages s)
    \<and> (vz_lost s = [] \<longrightarrow> vz_produced s = vz_shown s @ in_hand s @ vz_pause_messages s)"
  using messages.reach_inv [of _ s] assms unfolding message_inv_def by blast

text \<open>
  C22: The simulation never runs ahead of the view by more than the sample period at the highest speed: what is
  on the screen is at most one second of simulated time old.
\<close>
theorem viz_view_lag:
  assumes "viz_step\<^sup>*\<^sup>* (viz_start smooth) s"
  shows "vz_seen s \<le> vz_now s \<and> vz_now s \<le> vz_target_time s \<and> vz_target_time s \<le> vz_seen s + 1"
  using messages.reach_inv [of _ s] assms unfolding time_inv_def SAMPLE_PERIOD_def by fastforce

section \<open>Schedules\<close>

datatype viz_action = DoSim rat "string list" | DoMain bool | DoEvent viz_event

fun viz_act :: "viz_action \<Rightarrow> viz_state \<Rightarrow> viz_state option" where
  "viz_act (DoSim now' ms) s = sim_thread now' ms s"
| "viz_act (DoMain fails) s = main_thread fails s"
| "viz_act (DoEvent e) s = dispatch e s"

fun viz_run :: "viz_action list \<Rightarrow> viz_state \<Rightarrow> viz_state option" where
  "viz_run [] s = Some s"
| "viz_run (a # as) s = (case viz_act a s of None \<Rightarrow> None | Some t \<Rightarrow> viz_run as t)"

lemma viz_run_steps: "viz_run as s = Some t \<Longrightarrow> viz_step\<^sup>*\<^sup>* s t"
proof (induction as arbitrary: s)
  case (Cons a as)
  then obtain u where u: "viz_act a s = Some u" "viz_run as u = Some t" by (auto split: option.splits)
  have "viz_step s u" using u(1) by (cases a) (auto intro: viz_step.intros)
  from converse_rtranclp_into_rtranclp [OF this Cons.IH [OF u(2)]] show ?case .
qed simp

lemma viz_run_append: "viz_run (as @ bs) s = (case viz_run as s of None \<Rightarrow> None | Some t \<Rightarrow> viz_run bs t)"
  by (induction as arbitrary: s) (auto split: option.splits)

text \<open>The user presses the play button and the timer fires; the simulation thread begins its first run.\<close>

definition first_run :: "viz_action list" where
  "first_run = [DoSim 0 [], DoEvent TogglePlay, DoEvent (Timeout 2)] @ replicate 5 (DoMain False) @ replicate 4 (DoSim 0 [])"

definition to_release :: "viz_action list" where
  "to_release = replicate 4 (DoSim 0 [])"

text \<open>The timer fires again during the run, and its handler takes the lock before the event loop calls \<open>update_model\<close>.\<close>

definition overtaking :: "viz_action list" where
  "overtaking = first_run @ [DoEvent (Timeout 2)] @ to_release @ replicate 5 (DoMain False) @ replicate 5 (DoSim 0 [])
     @ [DoEvent IdleModel] @ to_release @ replicate 2 (DoMain False) @ [DoEvent IdleModel] @ replicate 2 (DoMain False)"

lemma overtaking_run: "map_option vz_last_transmissions (viz_run overtaking (viz_start 5)) = Some [2, 2]"
  by code_simp

lemma map_option_run:
  assumes "map_option f (viz_run as s) = Some x"
  shows "\<exists>t. viz_step\<^sup>*\<^sup>* s t \<and> f t = x"
proof -
  obtain t where "viz_run as s = Some t" "f t = x" using assms by (cases "viz_run as s") auto
  then show ?thesis using viz_run_steps by blast
qed

text \<open>
  The samples of a run can be lost: they are overwritten by the next run before \<open>update_model\<close> reads them, which then
  reads those of the next run twice.
\<close>

lemma samples_overtaken: "\<exists>s. viz_step\<^sup>*\<^sup>* (viz_start 5) s \<and> vz_runs s = 2 \<and> vz_last_transmissions s = [2, 2]"
proof -
  have "map_option (\<lambda>s. (vz_runs s, vz_last_transmissions s)) (viz_run overtaking (viz_start 5)) = Some (2, [2, 2])"
    by code_simp
  from map_option_run [OF this] show ?thesis by auto
qed

text \<open>\<open>autoscale_view\<close> reads the positions of the nodes without the lock, also while the simulation runs.\<close>

lemma autoscale_unlocked: "\<exists>s. viz_step\<^sup>*\<^sup>* (viz_start 5) s \<and> vz_frames s = [Autoscale] \<and> vz_sim s = SRun"
proof -
  have "map_option (\<lambda>s. (vz_frames s, vz_sim s)) (viz_run (first_run @ [DoEvent AutoscaleTimeout]) (viz_start 5)) = Some ([Autoscale], SRun)"
    by code_simp
  from map_option_run [OF this] show ?thesis by auto
qed

text \<open>The identifier of the timer stays when the play button is released, so the timer is removed twice.\<close>

lemma timer_removed_twice: "\<exists>s. viz_step\<^sup>*\<^sup>* (viz_start 5) s \<and> vz_bad_removes s = 1"
proof -
  have "map_option vz_bad_removes (viz_run (replicate 3 (DoEvent TogglePlay)) (viz_start 5)) = Some 1" by code_simp
  from map_option_run [OF this] show ?thesis .
qed

text \<open>
  Below the normal speed both the period of a sample and the rate of the samples are scaled, so the
  simulation runs at the square of the speed chosen: simulated seconds in a second of real time.
\<close>

lemma speed_squared:
  assumes "0 < n" and "s' = speed_changed (1 / of_nat n) s"
  shows "vz_sample_period s' * 1000 / of_int (vz_interval s') = (1 / of_nat n)\<^sup>2"
proof -
  have "min (1 / of_nat n) (1 :: rat) = 1 / of_nat n" using assms(1) by (simp add: min_def)
  then have "vz_interval s' = \<lfloor>of_nat (100 * n) :: rat\<rfloor>" "vz_sample_period s' = 1 / 10 * (1 / of_nat n)"
    by (simp_all add: assms(2) speed_changed_def start_update_timer_def Let_def SAMPLE_PERIOD_def)
  then show ?thesis using assms(1) by (simp add: field_simps power2_eq_square)
qed

lemma speed_normal: "1 \<le> v \<Longrightarrow> s' = speed_changed v s \<Longrightarrow> vz_sample_period s' * 1000 / of_int (vz_interval s') = v"
  by (simp add: speed_changed_def start_update_timer_def Let_def SAMPLE_PERIOD_def min_def split: if_splits)

section \<open>Witnesses\<close>

theorem viz_mutual_exclusion_witness:
  "\<exists>s. viz_step\<^sup>*\<^sup>* (viz_start 5) s \<and> vz_frames s = [LockHold, Busy 2] \<and> \<not> sim_holds (vz_sim s) \<and> vz_lock s = Some Main"
proof -
  have "map_option vz_frames (viz_run (first_run @ [DoEvent (Timeout 2), DoEvent LockedHandler] @ to_release @ [DoMain False]) (viz_start 5))
      = Some [LockHold, Busy 2]" by code_simp
  from map_option_run [OF this] obtain s where s: "viz_step\<^sup>*\<^sup>* (viz_start 5) s" "vz_frames s = [LockHold, Busy 2]" by blast
  with viz_mutual_exclusion [OF s(1), of LockHold] show ?thesis by auto
qed

text \<open>The window is closed while the simulation runs.\<close>

definition closing :: "viz_action list" where
  "closing = first_run @ [DoEvent DeleteEvent, DoMain False, DoMain False]"

theorem viz_main_unblocks_witness:
  "\<exists>s. viz_step\<^sup>*\<^sup>* (viz_start 5) s \<and> vz_frames s = [Join] \<and> vz_sim s = SRun \<and> (\<exists>t. wait_step\<^sup>*\<^sup>* s t \<and> \<not> blocked t)"
proof -
  have "map_option (\<lambda>s. (vz_frames s, vz_sim s)) (viz_run closing (viz_start 5)) = Some ([Join], SRun)" by code_simp
  from map_option_run [OF this] obtain s where s: "viz_step\<^sup>*\<^sup>* (viz_start 5) s" "vz_frames s = [Join]" "vz_sim s = SRun" by auto
  then have "blocked s" by (simp add: blocked_def)
  with viz_main_unblocks [OF s(1)] s show ?thesis by blast
qed

text \<open>A run that leaves a message, which the next update of the view shows.\<close>

definition pausing :: "viz_action list" where
  "pausing = first_run @ [DoSim 0 [''m'']] @ replicate 3 (DoSim 0 []) @ [DoEvent (Timeout 2)] @ replicate 2 (DoMain False)"

lemma pausing_run:
  "map_option (\<lambda>s. (vz_shown s, vz_lost s, in_hand s, vz_pause_messages s)) (viz_run pausing (viz_start 5)) = Some ([], [], [''m''], [])"
  by code_simp

theorem viz_messages_kept_witness:
  "\<exists>s. viz_step\<^sup>*\<^sup>* (viz_start 5) s \<and> in_hand s = [''m''] \<and> vz_produced s = [''m'']"
proof -
  obtain s where s: "viz_step\<^sup>*\<^sup>* (viz_start 5) s" "vz_shown s = []" "vz_lost s = []" "in_hand s = [''m'']" "vz_pause_messages s = []"
    using map_option_run [OF pausing_run] by auto
  with viz_messages_kept [OF s(1)] show ?thesis by auto
qed

theorem viz_view_lag_witness:
  "\<exists>s. viz_step\<^sup>*\<^sup>* (viz_start 5) s \<and> in_hand s = [''m''] \<and> vz_now s \<le> vz_seen s + 1"
proof -
  obtain s where s: "viz_step\<^sup>*\<^sup>* (viz_start 5) s" "in_hand s = [''m'']"
    using map_option_run [OF pausing_run] by auto
  with viz_view_lag [OF s(1)] show ?thesis by (intro exI [of _ s]) simp
qed

end
