(* ===== verification/Viz_Traffic.thy ===== *)
theory Viz_Traffic
  imports Viz_Scan Viz_Threads Py_Float
begin

text \<open>
  The arrows of the visualizer, \<^verbatim>\<open>src/visualizer/visualizer/core.py\<close>: averages of the transmissions and drops in
  the last samples, one arrow with a label for each, drawn with the arrows of the last time as far as
  there are some.  Line widths and angles are real numbers.
\<close>

section \<open>Averages\<close>

record transmission =
  tr_transmitter :: int
  tr_receiver :: int
  tr_bytes :: int

record packet_drop =
  dp_transmitter :: int
  dp_bytes :: int

text \<open>The body of the two loops that add up bytes and count samples under a key.\<close>

definition add_sample :: "('x \<Rightarrow> 'k) \<Rightarrow> ('x \<Rightarrow> int) \<Rightarrow> ('k, int \<times> int) dict \<Rightarrow> 'x \<Rightarrow> ('k, int \<times> int) dict" where
  "add_sample key bytes d x =
     (let (b, c) = (case map_of d (key x) of Some v \<Rightarrow> v | None \<Rightarrow> (0, 0))
      in AList.update (key x) (b + bytes x, c + 1) d)"

definition sample_average :: "('x \<Rightarrow> 'k) \<Rightarrow> ('x \<Rightarrow> int) \<Rightarrow> 'x list list \<Rightarrow> ('k, int \<times> int) dict" where
  "sample_average key bytes sets = foldl (foldl (add_sample key bytes)) [] sets"

definition transmissions_average :: "transmission list list \<Rightarrow> (int \<times> int, int \<times> int) dict" where
  "transmissions_average = sample_average (\<lambda>t. (tr_transmitter t, tr_receiver t)) tr_bytes"

definition drops_average :: "packet_drop list list \<Rightarrow> (int, int \<times> int) dict" where
  "drops_average = sample_average dp_transmitter dp_bytes"

section \<open>Arrows\<close>

datatype anchor = AnchorS | AnchorN | AnchorUnset

record arrow =
  ar_visible :: bool
  ar_line_width :: real
  ar_points :: "point \<times> point"
  ar_text :: string
  ar_font :: int
  ar_anchor :: anchor
  ar_label_at :: point
  ar_label_dy :: real
  ar_angle :: real

definition fresh_arrow :: arrow where
  "fresh_arrow = \<lparr>ar_visible = True, ar_line_width = 2, ar_points = ((0, 0), (0, 0)), ar_text = [], ar_font = 0, ar_anchor = AnchorUnset,
     ar_label_at = (0, 0), ar_label_dy = 0, ar_angle = 0\<rparr>"

definition hide :: "arrow \<Rightarrow> arrow" where
  "hide a = a\<lparr>ar_visible := False\<rparr>"

text \<open>\<open>math.atan2(y, x)\<close>.\<close>

definition py_atan2 :: "rat \<Rightarrow> rat \<Rightarrow> real" where
  "py_atan2 y x =
     (if 0 < x then arctan (of_rat (y / x))
      else if x < 0 then arctan (of_rat (y / x)) + (if 0 \<le> y then pi else - pi)
      else if 0 < y then pi / 2 else if y < 0 then - (pi / 2) else 0)"

text \<open>\<open>math.log\<close> raises for zero.\<close>

definition log_width :: "int \<Rightarrow> int \<Rightarrow> rat \<Rightarrow> rat \<Rightarrow> real res" where
  "log_width bytes cnt period k =
     (let r = of_int bytes / of_int cnt / period
      in if r \<le> 0 then Inl (ValueError ''math domain error'') else Inr (max (1 / 10) (ln (of_rat r) * of_rat k)))"

definition kbps :: "int \<Rightarrow> int \<Rightarrow> rat \<Rightarrow> rat" where
  "kbps bytes cnt period = of_int (bytes * 8) / 1000 / of_int cnt / period"

definition BITRATE_FONT_SIZE :: rat where
  "BITRATE_FONT_SIZE = 10"

definition RIGHT_ARROW :: string where
  "RIGHT_ARROW = [CHR 0xE2, CHR 0x86, CHR 0x92]"

definition LEFT_ARROW :: string where
  "LEFT_ARROW = [CHR 0xE2, CHR 0x86, CHR 0x90]"

text \<open>The middle of the visible part of a line; \<open>clip\<close> is \<open>PyViz.LineClipping\<close>.\<close>

definition get_label_over_line_position :: "(point \<Rightarrow> point \<Rightarrow> point \<Rightarrow> point \<Rightarrow> point \<times> point) \<Rightarrow> point \<times> point \<Rightarrow> point \<Rightarrow> point \<Rightarrow> point" where
  "get_label_over_line_position clip window p1 p2 =
     (let (q1, q2) = clip (fst window) (snd window) p1 p2 in ((fst q1 + fst q2) / 2, (snd q1 + snd q2) / 2))"

text \<open>What the view needs: the size of nodes, the period of a sample, the corners of the window on the canvas.\<close>

record view_parameters =
  vw_node_size :: rat
  vw_sample_period :: rat
  vw_window :: "point \<times> point"
  vw_clip :: "point \<Rightarrow> point \<Rightarrow> point \<Rightarrow> point \<Rightarrow> point \<times> point"

definition draw_transmission :: "view_parameters \<Rightarrow> (int \<times> int) \<times> (int \<times> int) \<Rightarrow> scene \<Rightarrow> arrow \<Rightarrow> scene \<times> arrow res" where
  "draw_transmission vw = (\<lambda>((transmitter, receiver), (bytes, cnt)) sc a.
     (let sc = get_node receiver (get_node transmitter sc); k = vw_node_size vw / 5
      in (sc, res_bind (log_width bytes cnt (vw_sample_period vw) k) (\<lambda>line_width.
          let p1 = position_of sc (NodeObj transmitter); p2 = position_of sc (NodeObj receiver);
              rate = fmt_fixed 2 (kbps bytes cnt (vw_sample_period vw));
              angle = py_atan2 (snd p2 - snd p1) (fst p2 - fst p1);
              upright = (- (pi / 2) \<le> angle \<and> angle \<le> pi / 2)
          in Inr (a\<lparr>ar_visible := True, ar_line_width := line_width, ar_points := (p1, p2),
               ar_font := \<lfloor>1 + BITRATE_FONT_SIZE * k\<rfloor>,
               ar_text := (if upright then rate @ '' kbit/s '' @ RIGHT_ARROW else LEFT_ARROW @ '' '' @ rate @ '' kbit/s''),
               ar_anchor := (if upright then AnchorS else AnchorN),
               ar_label_dy := (if upright then - line_width / 2 else line_width / 2),
               ar_label_at := get_label_over_line_position (vw_clip vw) (vw_window vw) p1 p2, ar_angle := angle\<rparr>)))))"

definition draw_drop :: "view_parameters \<Rightarrow> int \<times> (int \<times> int) \<Rightarrow> scene \<Rightarrow> arrow \<Rightarrow> scene \<times> arrow res" where
  "draw_drop vw = (\<lambda>(transmitter, (bytes, cnt)) sc a.
     (let sc = get_node transmitter sc; k = vw_node_size vw / 5; edge_y = snd (snd (vw_window vw))
      in (sc, res_bind (log_width bytes cnt (vw_sample_period vw) k) (\<lambda>line_width.
          let p1 = position_of sc (NodeObj transmitter); p2 = (fst p1, edge_y)
          in Inr (a\<lparr>ar_visible := True, ar_line_width := line_width, ar_points := (p1, p2),
               ar_font := \<lfloor>1 + BITRATE_FONT_SIZE * k\<rfloor>,
               ar_text := fmt_fixed 2 (kbps bytes cnt (vw_sample_period vw)) @ '' kbit/s'',
               ar_label_at := ((fst p1 + fst p2) / 2, (snd p1 + snd p2) / 2)\<rparr>)))))"

text \<open>
  The loop over the averages: the last of the old arrows is taken away, or an arrow made.  The result has the arrows
  that no list of the program holds any more, which are those drawn so far when drawing raises, and the list of
  arrows kept.
\<close>

fun arrow_loop :: "('x \<Rightarrow> scene \<Rightarrow> arrow \<Rightarrow> scene \<times> arrow res) \<Rightarrow> 'x list \<Rightarrow> scene \<Rightarrow> arrow list \<Rightarrow> arrow list
    \<Rightarrow> scene \<times> arrow list \<times> arrow list \<times> unit res" where
  "arrow_loop draw [] sc new_arrows old_arrows = (sc, [], new_arrows @ old_arrows, Inr ())"
| "arrow_loop draw (x # xs) sc new_arrows old_arrows =
     (let (a, rest) = (if old_arrows = [] then (fresh_arrow, []) else (last old_arrows, butlast old_arrows))
      in case draw x sc a of
           (sc', Inl e) \<Rightarrow> (sc', new_arrows @ [a\<lparr>ar_visible := True\<rparr>], rest, Inl e)
         | (sc', Inr a') \<Rightarrow> arrow_loop draw xs sc' (new_arrows @ [a']) rest)"

definition update_transmissions_view :: "view_parameters \<Rightarrow> transmission list list \<Rightarrow> scene \<Rightarrow> arrow list \<Rightarrow> scene \<times> arrow list \<times> arrow list \<times> unit res" where
  "update_transmissions_view vw samples sc old_arrows =
     arrow_loop (draw_transmission vw) (transmissions_average samples) sc [] (map hide old_arrows)"

definition update_drops_view :: "view_parameters \<Rightarrow> packet_drop list list \<Rightarrow> scene \<Rightarrow> arrow list \<Rightarrow> scene \<times> arrow list \<times> arrow list \<times> unit res" where
  "update_drops_view vw samples sc old_arrows =
     arrow_loop (draw_drop vw) (drops_average samples) sc [] (map hide old_arrows)"

section \<open>What the averages are\<close>

definition totals :: "('x \<Rightarrow> 'k) \<Rightarrow> ('x \<Rightarrow> int) \<Rightarrow> 'x list \<Rightarrow> 'k \<Rightarrow> (int \<times> int) option" where
  "totals key bytes xs k =
     (let ys = filter (\<lambda>x. key x = k) xs in if ys = [] then None else Some (sum_list (map bytes ys), int (length ys)))"

text \<open>The keys in the order of their first occurrence.\<close>

definition first_keys :: "('x \<Rightarrow> 'k) \<Rightarrow> 'x list \<Rightarrow> 'k list" where
  "first_keys key xs = rev (remdups (rev (map key xs)))"

lemma foldl_foldl: "foldl (foldl f) d xss = foldl f d (concat xss)"
  by (induction xss arbitrary: d) simp_all

lemma remdups_snoc_keys: "rev (remdups (rev (ks @ [k]))) = (if k \<in> set ks then rev (remdups (rev ks)) else rev (remdups (rev ks)) @ [k])"
  by simp

lemma keys_of_update: "map fst (AList.update k v d) = (if k \<in> fst ` set d then map fst d else map fst d @ [k])"
  by (induction d) auto

lemma sample_fold:
  "map_of (foldl (add_sample key bytes) [] xs) = totals key bytes xs \<and> map fst (foldl (add_sample key bytes) [] xs) = first_keys key xs"
proof (induction xs rule: rev_induct)
  case (snoc x xs)
  let ?d = "foldl (add_sample key bytes) [] xs"
  have m: "map_of ?d = totals key bytes xs" "map fst ?d = first_keys key xs" using snoc by auto
  have "(key x \<in> fst ` set ?d) = (key x \<in> key ` set xs)" using m(2) by (metis first_keys_def set_map set_rev set_remdups)
  then have "map fst (add_sample key bytes ?d x) = first_keys key (xs @ [x])"
    using m(2) by (auto simp: add_sample_def first_keys_def keys_of_update split: option.splits prod.splits)
  moreover have "map_of (add_sample key bytes ?d x) = totals key bytes (xs @ [x])"
    by (rule ext) (auto simp: add_sample_def m(1) totals_def Let_def split: prod.splits)
  ultimately show ?case by simp
qed (simp add: totals_def first_keys_def fun_eq_iff)

lemma sample_average_result:
  "map_of (sample_average key bytes sets) = totals key bytes (concat sets)" "map fst (sample_average key bytes sets) = first_keys key (concat sets)"
  using sample_fold [of key bytes "concat sets"] by (simp_all add: sample_average_def foldl_foldl)

lemma sample_average_distinct: "distinct (map fst (sample_average key bytes sets))"
  by (simp add: sample_average_result(2) first_keys_def)

lemma sample_average_entry:
  assumes "(k, (b, c)) \<in> set (sample_average key bytes sets)"
  shows "b = sum_list (map bytes (filter (\<lambda>x. key x = k) (concat sets))) \<and> c = int (length (filter (\<lambda>x. key x = k) (concat sets))) \<and> 0 < c"
proof -
  have "map_of (sample_average key bytes sets) k = Some (b, c)" using assms sample_average_distinct by (metis map_of_is_SomeI)
  then have "filter (\<lambda>x. key x = k) (concat sets) \<noteq> []" and bc: "b = sum_list (map bytes (filter (\<lambda>x. key x = k) (concat sets)))"
      "c = int (length (filter (\<lambda>x. key x = k) (concat sets)))"
    by (simp_all add: sample_average_result(1) totals_def Let_def split: if_splits)
  then show ?thesis using length_greater_0_conv by (metis of_nat_0_less_iff)
qed

text \<open>Bytes and number of the samples under a key.\<close>

definition total_bytes :: "('x \<Rightarrow> 'k) \<Rightarrow> ('x \<Rightarrow> int) \<Rightarrow> 'x list list \<Rightarrow> 'k \<Rightarrow> int" where
  "total_bytes key bytes sets k = sum_list (map bytes (filter (\<lambda>x. key x = k) (concat sets)))"

definition number_of :: "('x \<Rightarrow> 'k) \<Rightarrow> 'x list list \<Rightarrow> 'k \<Rightarrow> int" where
  "number_of key sets k = int (length (filter (\<lambda>x. key x = k) (concat sets)))"

lemma sample_average_list:
  "sample_average key bytes sets = map (\<lambda>k. (k, (total_bytes key bytes sets k, number_of key sets k))) (first_keys key (concat sets))"
proof -
  have "x = (fst x, (total_bytes key bytes sets (fst x), number_of key sets (fst x)))" if "x \<in> set (sample_average key bytes sets)" for x
    using sample_average_entry [of "fst x" "fst (snd x)" "snd (snd x)" key bytes sets] that
    by (simp add: total_bytes_def number_of_def prod_eq_iff)
  then have "sample_average key bytes sets = map (\<lambda>x. (fst x, (total_bytes key bytes sets (fst x), number_of key sets (fst x)))) (sample_average key bytes sets)"
    by (simp add: map_idI)
  also have "\<dots> = map (\<lambda>k. (k, (total_bytes key bytes sets k, number_of key sets k))) (map fst (sample_average key bytes sets))" by simp
  finally show ?thesis by (simp only: sample_average_result(2))
qed

lemma number_positive: "k \<in> set (first_keys key (concat sets)) \<Longrightarrow> 0 < number_of key sets k"
  using sample_average_entry [of k _ "number_of key sets k" key bytes sets for bytes] by (fastforce simp: sample_average_list)

section \<open>Drawing with recycled arrows\<close>

text \<open>
  The interface between the loop and what is drawn: \<open>drawable\<close> says when drawing succeeds, and \<open>shown\<close> what
  is then seen, from the positions of the nodes alone.
\<close>

locale arrow_drawing =
  fixes draw :: "'x \<Rightarrow> scene \<Rightarrow> arrow \<Rightarrow> scene \<times> arrow res"
    and drawable :: "'x \<Rightarrow> bool"
    and shown :: "(vobj \<Rightarrow> point) \<Rightarrow> 'x \<Rightarrow> (point \<times> point) \<times> string"
    and failure :: py_error
  assumes keeps_positions: "position_of (fst (draw x sc a)) = position_of sc"
    and keeps_good: "scene_good sc \<Longrightarrow> scene_good (fst (draw x sc a))"
    and draws: "drawable x \<Longrightarrow> \<exists>a'. snd (draw x sc a) = Inr a' \<and> ar_visible a' \<and> (ar_points a', ar_text a') = shown (position_of sc) x"
    and fails: "\<not> drawable x \<Longrightarrow> snd (draw x sc a) = Inl failure"
begin

lemma loop_draws:
  assumes "list_all drawable xs"
  shows "\<exists>sc' drawn. arrow_loop draw xs sc new_arrows old_arrows
      = (sc', [], new_arrows @ drawn @ take (length old_arrows - length xs) old_arrows, Inr ())
    \<and> position_of sc' = position_of sc \<and> (scene_good sc \<longrightarrow> scene_good sc')
    \<and> list_all ar_visible drawn \<and> map (\<lambda>a. (ar_points a, ar_text a)) drawn = map (shown (position_of sc)) xs"
  using assms
proof (induction xs arbitrary: sc new_arrows old_arrows)
  case (Cons x xs)
  let ?a = "if old_arrows = [] then fresh_arrow else last old_arrows"
  obtain sc1 a' where d: "draw x sc ?a = (sc1, Inr a')" "ar_visible a'" "(ar_points a', ar_text a') = shown (position_of sc) x"
    using draws [of x sc ?a] Cons.prems by (cases "draw x sc ?a") auto
  have sc1: "position_of sc1 = position_of sc" "scene_good sc \<longrightarrow> scene_good sc1"
    using keeps_positions [of x sc ?a] keeps_good [of sc x ?a] d(1) by auto
  obtain sc' drawn where l: "arrow_loop draw xs sc1 (new_arrows @ [a']) (butlast old_arrows)
      = (sc', [], (new_arrows @ [a']) @ drawn @ take (length (butlast old_arrows) - length xs) (butlast old_arrows), Inr ())"
    "position_of sc' = position_of sc1" "scene_good sc1 \<longrightarrow> scene_good sc'" "list_all ar_visible drawn"
    "map (\<lambda>a. (ar_points a, ar_text a)) drawn = map (shown (position_of sc1)) xs"
    using Cons.IH [of sc1 "new_arrows @ [a']" "butlast old_arrows"] Cons.prems by auto
  have "arrow_loop draw (x # xs) sc new_arrows old_arrows = arrow_loop draw xs sc1 (new_arrows @ [a']) (butlast old_arrows)"
    using d(1) by (cases "old_arrows = []") (simp_all split: if_splits)
  moreover have "take (length (butlast old_arrows) - length xs) (butlast old_arrows) = take (length old_arrows - length (x # xs)) old_arrows"
    by (simp add: butlast_conv_take take_take min_def)
  ultimately show ?case using l d(2,3) sc1 by (intro exI [of _ sc'] exI [of _ "a' # drawn"]) simp
qed simp

lemma loop_fails:
  assumes "\<not> list_all drawable xs" and "list_all ar_visible new_arrows"
  shows "\<exists>sc' orphans rest. arrow_loop draw xs sc new_arrows old_arrows = (sc', orphans, rest, Inl failure)
    \<and> length orphans = length new_arrows + Suc (length (takeWhile drawable xs)) \<and> list_all ar_visible orphans"
  using assms
proof (induction xs arbitrary: sc new_arrows old_arrows)
  case (Cons x xs)
  let ?a = "if old_arrows = [] then fresh_arrow else last old_arrows"
  show ?case
  proof (cases "drawable x")
    case False
    then obtain sc1 where "draw x sc ?a = (sc1, Inl failure)" using fails [of x sc ?a] by (cases "draw x sc ?a") auto
    then show ?thesis using False Cons.prems(2) by (auto split: if_splits)
  next
    case True
    then obtain sc1 a' where d: "draw x sc ?a = (sc1, Inr a')" "ar_visible a'"
      using draws [of x sc ?a] by (cases "draw x sc ?a") auto
    have "arrow_loop draw (x # xs) sc new_arrows old_arrows = arrow_loop draw xs sc1 (new_arrows @ [a']) (butlast old_arrows)"
      using d(1) by (cases "old_arrows = []") (simp_all split: if_splits)
    then show ?thesis using Cons.IH [of "new_arrows @ [a']" sc1 "butlast old_arrows"] Cons.prems True d(2) by auto
  qed
qed simp

end

section \<open>The two views\<close>

definition rate_of :: "view_parameters \<Rightarrow> int \<times> int \<Rightarrow> rat" where
  "rate_of vw = (\<lambda>(bytes, cnt). of_int bytes / of_int cnt / vw_sample_period vw)"

definition transmission_shown :: "view_parameters \<Rightarrow> (vobj \<Rightarrow> point) \<Rightarrow> (int \<times> int) \<times> (int \<times> int) \<Rightarrow> (point \<times> point) \<times> string" where
  "transmission_shown vw pos = (\<lambda>((transmitter, receiver), (bytes, cnt)).
     let p1 = pos (NodeObj transmitter); p2 = pos (NodeObj receiver); rate = fmt_fixed 2 (kbps bytes cnt (vw_sample_period vw))
     in ((p1, p2), if fst p1 \<le> fst p2 then rate @ '' kbit/s '' @ RIGHT_ARROW else LEFT_ARROW @ '' '' @ rate @ '' kbit/s''))"

definition drop_shown :: "view_parameters \<Rightarrow> (vobj \<Rightarrow> point) \<Rightarrow> int \<times> (int \<times> int) \<Rightarrow> (point \<times> point) \<times> string" where
  "drop_shown vw pos = (\<lambda>(transmitter, (bytes, cnt)).
     let p1 = pos (NodeObj transmitter)
     in ((p1, (fst p1, snd (snd (vw_window vw)))), fmt_fixed 2 (kbps bytes cnt (vw_sample_period vw)) @ '' kbit/s''))"

text \<open>A label is upright unless its line runs to the left.\<close>

lemma upright_iff: "- (pi / 2) \<le> py_atan2 y x \<and> py_atan2 y x \<le> pi / 2 \<longleftrightarrow> 0 \<le> x"
proof (cases "x < 0")
  case True
  have b: "- (pi / 2) < arctan (of_rat (y / x))" "arctan (of_rat (y / x)) < pi / 2" by (rule arctan_lbound, rule arctan_ubound)
  show ?thesis
  proof (cases "0 \<le> y")
    case False
    then show ?thesis using True b by (simp add: py_atan2_def)
  qed (use True b in \<open>simp add: py_atan2_def\<close>)
next
  case False
  have b: "- (pi / 2) < arctan (of_rat (y / x))" "arctan (of_rat (y / x)) < pi / 2" by (rule arctan_lbound, rule arctan_ubound)
  show ?thesis using False b by (simp add: py_atan2_def)
qed

lemma log_width_cases:
  "0 < rate_of vw (bytes, cnt) \<Longrightarrow> \<exists>w. log_width bytes cnt (vw_sample_period vw) k = Inr w"
  "\<not> 0 < rate_of vw (bytes, cnt) \<Longrightarrow> log_width bytes cnt (vw_sample_period vw) k = Inl (ValueError ''math domain error'')"
  by (simp_all add: log_width_def rate_of_def)

interpretation tx: arrow_drawing "draw_transmission vw" "\<lambda>(pair, tot). 0 < rate_of vw tot" "transmission_shown vw" "ValueError ''math domain error''" for vw
proof (unfold_locales, goal_cases)
  case (1 x sc a)
  then show ?case by (simp add: draw_transmission_def get_node_facts Let_def split: prod.splits)
next
  case (2 sc x a)
  then show ?case by (simp add: draw_transmission_def get_node_good Let_def split: prod.splits)
next
  case (3 x sc a)
  obtain t r b c where x: "x = ((t, r), (b, c))" by (metis prod.exhaust)
  obtain w where "log_width b c (vw_sample_period vw) (vw_node_size vw / 5) = Inr w" using 3 log_width_cases(1) [of vw b c] x by auto
  then show ?case unfolding x draw_transmission_def Let_def prod.case upright_iff
    by (simp add: transmission_shown_def get_node_facts Let_def del: position_of.simps)
next
  case (4 x sc a)
  then show ?case by (auto simp: draw_transmission_def log_width_cases(2) Let_def split: prod.splits)
qed

interpretation dropped: arrow_drawing "draw_drop vw" "\<lambda>(t, tot). 0 < rate_of vw tot" "drop_shown vw" "ValueError ''math domain error''" for vw
proof (unfold_locales, goal_cases)
  case (1 x sc a)
  then show ?case by (simp add: draw_drop_def get_node_facts Let_def split: prod.splits)
next
  case (2 sc x a)
  then show ?case by (simp add: draw_drop_def get_node_good Let_def split: prod.splits)
next
  case (3 x sc a)
  obtain t b c where x: "x = (t, (b, c))" by (metis prod.exhaust)
  obtain w where "log_width b c (vw_sample_period vw) (vw_node_size vw / 5) = Inr w" using 3 log_width_cases(1) [of vw b c] x by auto
  then show ?case by (simp add: x draw_drop_def drop_shown_def get_node_facts Let_def del: position_of.simps)
next
  case (4 x sc a)
  then show ?case by (auto simp: draw_drop_def log_width_cases(2) Let_def split: prod.splits)
qed

lemma rates_positive:
  assumes "0 < vw_sample_period vw"
  shows "list_all (\<lambda>(k, tot). 0 < rate_of vw tot) (sample_average key bytes sets) \<longleftrightarrow> list_all (\<lambda>k. 0 < total_bytes key bytes sets k) (first_keys key (concat sets))"
proof -
  have "0 < rate_of vw (total_bytes key bytes sets k, number_of key sets k) \<longleftrightarrow> 0 < total_bytes key bytes sets k"
    if "k \<in> set (first_keys key (concat sets))" for k
  proof -
    have "0 < rat_of_int (number_of key sets k) * vw_sample_period vw" using number_positive [OF that] assms by simp
    then show ?thesis by (simp add: rate_of_def zero_less_divide_iff)
  qed
  then show ?thesis by (simp add: sample_average_list list_all_iff)
qed

definition pair_of :: "transmission \<Rightarrow> int \<times> int" where
  "pair_of t = (tr_transmitter t, tr_receiver t)"

lemma transmissions_average_list:
  "transmissions_average samples = map (\<lambda>k. (k, (total_bytes pair_of tr_bytes samples k, number_of pair_of samples k))) (first_keys pair_of (concat samples))"
proof -
  have "(\<lambda>t. (tr_transmitter t, tr_receiver t)) = pair_of" by (simp add: fun_eq_iff pair_of_def)
  then show ?thesis by (simp add: transmissions_average_def sample_average_list)
qed

lemma rates_transmissions:
  "0 < vw_sample_period vw \<Longrightarrow> list_all (\<lambda>(k, tot). 0 < rate_of vw tot) (transmissions_average samples)
     \<longleftrightarrow> list_all (\<lambda>k. 0 < total_bytes pair_of tr_bytes samples k) (first_keys pair_of (concat samples))"
  using rates_positive [of vw pair_of tr_bytes samples] by (simp add: transmissions_average_list sample_average_list)

text \<open>
  C25: \<open>_update_transmissions_view\<close>, for samples in which every pair of nodes has sent some bytes: exactly one
  arrow is visible for each pair, in the order in which the pairs first occur, from the place of the transmitter
  to that of the receiver, and captioned with the mean rate of the pair's samples, the little arrow of the caption
  pointing the way the line runs; the arrows of the last time are used again, those left over hidden, and no node moves.
\<close>

theorem transmissions_view_result:
  assumes "0 < vw_sample_period vw"
    and "list_all (\<lambda>k. 0 < total_bytes pair_of tr_bytes samples k) (first_keys pair_of (concat samples))"
  shows "\<exists>sc' drawn. update_transmissions_view vw samples sc arrows
        = (sc', [], drawn @ map hide (take (length arrows - length (first_keys pair_of (concat samples))) arrows), Inr ())
      \<and> position_of sc' = position_of sc \<and> (scene_good sc \<longrightarrow> scene_good sc') \<and> list_all ar_visible drawn
      \<and> map (\<lambda>a. (ar_points a, ar_text a)) drawn
          = map (\<lambda>(t, r). let p1 = position_of sc (NodeObj t); p2 = position_of sc (NodeObj r);
                  rate = fmt_fixed 2 (kbps (total_bytes pair_of tr_bytes samples (t, r)) (number_of pair_of samples (t, r)) (vw_sample_period vw))
                in ((p1, p2), if fst p1 \<le> fst p2 then rate @ '' kbit/s '' @ RIGHT_ARROW else LEFT_ARROW @ '' '' @ rate @ '' kbit/s''))
              (first_keys pair_of (concat samples))"
proof -
  let ?xs = "transmissions_average samples"
  have "list_all (\<lambda>(k, tot). 0 < rate_of vw tot) ?xs" using assms rates_transmissions by blast
  from tx.loop_draws [OF this, of sc "[]" "map hide arrows"] obtain sc' drawn where
    d: "update_transmissions_view vw samples sc arrows = (sc', [], drawn @ take (length arrows - length ?xs) (map hide arrows), Inr ())"
    "position_of sc' = position_of sc" "scene_good sc \<longrightarrow> scene_good sc'" "list_all ar_visible drawn"
    "map (\<lambda>a. (ar_points a, ar_text a)) drawn = map (transmission_shown vw (position_of sc)) ?xs"
    by (auto simp: update_transmissions_view_def)
  then show ?thesis
    by (intro exI [of _ sc'] exI [of _ drawn])
       (simp add: transmissions_average_list take_map transmission_shown_def split_def del: position_of.simps)
qed

definition sample_view :: view_parameters where
  "sample_view = \<lparr>vw_node_size = 5, vw_sample_period = 1 / 10, vw_window = ((0, 0), (100, 100)), vw_clip = (\<lambda>_ _ p q. (p, q))\<rparr>"

definition sample_transmissions :: "transmission list list" where
  "sample_transmissions = [[\<lparr>tr_transmitter = 0, tr_receiver = 1, tr_bytes = 1000\<rparr>], [\<lparr>tr_transmitter = 0, tr_receiver = 1, tr_bytes = 500\<rparr>]]"

lemma sample_totals:
  "first_keys pair_of (concat sample_transmissions) = [(0, 1)]" "total_bytes pair_of tr_bytes sample_transmissions (0, 1) = 1500"
  "number_of pair_of sample_transmissions (0, 1) = 2"
  by (simp_all add: sample_transmissions_def first_keys_def pair_of_def total_bytes_def number_of_def)

theorem transmissions_view_result_witness:
  "\<exists>sc' a. update_transmissions_view sample_view sample_transmissions sample_scene [] = (sc', [], [a], Inr ()) \<and> ar_visible a
    \<and> ar_points a = (position_of sample_scene (NodeObj 0), position_of sample_scene (NodeObj 1))"
  using transmissions_view_result [of sample_view sample_transmissions sample_scene "[]"]
  by (auto simp: sample_totals sample_view_def Let_def simp del: position_of.simps)

text \<open>
  A pair whose samples have no bytes makes \<open>math.log\<close> raise, and the arrows drawn so far are then in no list: they
  stay visible and are not used again.
\<close>

lemma transmissions_view_orphans:
  assumes "0 < vw_sample_period vw"
    and "\<not> list_all (\<lambda>k. 0 < total_bytes pair_of tr_bytes samples k) (first_keys pair_of (concat samples))"
  shows "\<exists>sc' orphans rest. update_transmissions_view vw samples sc arrows = (sc', orphans, rest, Inl (ValueError ''math domain error''))
    \<and> list_all ar_visible orphans \<and> orphans \<noteq> []"
proof -
  have "\<not> list_all (\<lambda>(k, tot). 0 < rate_of vw tot) (transmissions_average samples)" using assms rates_transmissions by blast
  from tx.loop_fails [OF this, of "[]" sc "map hide arrows"] show ?thesis by (force simp: update_transmissions_view_def)
qed

lemma drops_view_result:
  assumes "0 < vw_sample_period vw"
    and "list_all (\<lambda>k. 0 < total_bytes dp_transmitter dp_bytes samples k) (first_keys dp_transmitter (concat samples))"
  shows "\<exists>sc' drawn. update_drops_view vw samples sc arrows
        = (sc', [], drawn @ map hide (take (length arrows - length (first_keys dp_transmitter (concat samples))) arrows), Inr ())
      \<and> position_of sc' = position_of sc \<and> (scene_good sc \<longrightarrow> scene_good sc') \<and> list_all ar_visible drawn
      \<and> map (\<lambda>a. (ar_points a, ar_text a)) drawn
          = map (\<lambda>t. let p = position_of sc (NodeObj t)
                in ((p, (fst p, snd (snd (vw_window vw)))),
                    fmt_fixed 2 (kbps (total_bytes dp_transmitter dp_bytes samples t) (number_of dp_transmitter samples t) (vw_sample_period vw)) @ '' kbit/s''))
              (first_keys dp_transmitter (concat samples))"
proof -
  let ?xs = "drops_average samples"
  have "list_all (\<lambda>(t, tot). 0 < rate_of vw tot) ?xs" using assms rates_positive unfolding drops_average_def by blast
  from dropped.loop_draws [OF this, of sc "[]" "map hide arrows"] obtain sc' drawn where
    d: "update_drops_view vw samples sc arrows = (sc', [], drawn @ take (length arrows - length ?xs) (map hide arrows), Inr ())"
    "position_of sc' = position_of sc" "scene_good sc \<longrightarrow> scene_good sc'" "list_all ar_visible drawn"
    "map (\<lambda>a. (ar_points a, ar_text a)) drawn = map (drop_shown vw (position_of sc)) ?xs"
    by (auto simp: update_drops_view_def)
  then show ?thesis
    by (intro exI [of _ sc'] exI [of _ drawn])
       (simp add: drops_average_def sample_average_list take_map drop_shown_def split_def Let_def del: position_of.simps)
qed

lemma drops_view_orphans:
  assumes "0 < vw_sample_period vw"
    and "\<not> list_all (\<lambda>k. 0 < total_bytes dp_transmitter dp_bytes samples k) (first_keys dp_transmitter (concat samples))"
  shows "\<exists>sc' orphans rest. update_drops_view vw samples sc arrows = (sc', orphans, rest, Inl (ValueError ''math domain error''))
    \<and> list_all ar_visible orphans \<and> orphans \<noteq> []"
proof -
  have "\<not> list_all (\<lambda>(t, tot). 0 < rate_of vw tot) (drops_average samples)" using assms rates_positive unfolding drops_average_def by blast
  from dropped.loop_fails [OF this, of "[]" sc "map hide arrows"] show ?thesis by (force simp: update_drops_view_def)
qed

end
