(* ===== verification/Viz_Plugins.thy ===== *)
theory Viz_Plugins
  imports Viz_Traffic
begin

text \<open>
  The plugins of the visualizer, \<^verbatim>\<open>src/visualizer/visualizer/plugins\<close>: rates of the interfaces
  (\<^verbatim>\<open>interface_statistics.py\<close>) and links of Wi-Fi stations (\<^verbatim>\<open>wifi_intrastructure_link.py\<close>).
  What the simulated network answers is an argument.
\<close>

section \<open>Interface statistics\<close>

record interface_counters =
  ic_tx_packets :: int
  ic_tx_bytes :: int
  ic_rx_packets :: int
  ic_rx_bytes :: int

record NetDevStats =
  txPackets :: int
  txBytes :: int
  rxPackets :: int
  rxBytes :: int
  txPacketRate :: rat
  rxPacketRate :: rat
  txBitRate :: rat
  rxBitRate :: rat

definition NODE_STATISTICS_MEMORY :: nat where
  "NODE_STATISTICS_MEMORY = 10"

type_synonym node_statistics = "(int, interface_counters list list) dict"

definition add_statistics :: "node_statistics \<Rightarrow> int \<times> interface_counters list \<Rightarrow> node_statistics" where
  "add_statistics d = (\<lambda>(i, stats).
     let raw_stats_list = (case map_of d i of Some l \<Rightarrow> l | None \<Rightarrow> [])
     in AList.update i (pop_excess NODE_STATISTICS_MEMORY (raw_stats_list @ [stats])) d)"

definition statistics_periodic_update :: "(int \<times> interface_counters list) list \<Rightarrow> node_statistics \<Rightarrow> node_statistics" where
  "statistics_periodic_update nodes_statistics d = foldl add_statistics d nodes_statistics"

text \<open>The body of the loop over the interfaces: a list of the first sample is read at the index of an interface of the last.\<close>

definition interface_rates :: "rat \<Rightarrow> interface_counters list \<Rightarrow> nat \<times> interface_counters \<Rightarrow> NetDevStats res" where
  "interface_rates k old = (\<lambda>(iface, stats).
     if length old \<le> iface then Inl IndexError
     else if k = 0 then Inl ZeroDivisionError
     else Inr \<lparr>txPackets = ic_tx_packets stats, txBytes = ic_tx_bytes stats, rxPackets = ic_rx_packets stats, rxBytes = ic_rx_bytes stats,
            txPacketRate = of_int (ic_tx_packets stats - ic_tx_packets (old ! iface)) / k,
            rxPacketRate = of_int (ic_rx_packets stats - ic_rx_packets (old ! iface)) / k,
            txBitRate = of_int ((ic_tx_bytes stats - ic_tx_bytes (old ! iface)) * 8) / k,
            rxBitRate = of_int ((ic_rx_bytes stats - ic_rx_bytes (old ! iface)) * 8) / k\<rparr>)"

definition get_interface_statistics :: "rat \<Rightarrow> node_statistics \<Rightarrow> int \<Rightarrow> NetDevStats list res" where
  "get_interface_statistics sample_period d i = (case map_of d i of
     None \<Rightarrow> Inr []
   | Some raw_stats_list \<Rightarrow>
       if length raw_stats_list < NODE_STATISTICS_MEMORY then Inr []
       else if length raw_stats_list \<noteq> NODE_STATISTICS_MEMORY then Inl AssertionError
       else res_map (interface_rates (sample_period * (of_nat NODE_STATISTICS_MEMORY - 1)) (hd raw_stats_list))
              (enumerate 0 (last raw_stats_list)))"

section \<open>Links of Wi-Fi stations\<close>

text \<open>A link, after \<open>destroy\<close> without ends; whether its item is visible, and the line drawn.\<close>

record WifiLink =
  wf_node1 :: "int option"
  wf_node2 :: "int option"
  wf_visible :: bool
  wf_points :: "(point \<times> point) option"

text \<open>
  The links ever made, which are named by their index, the links in the lists of the nodes, and the two fields of
  the monitor.  A station is known by its node and the index of its device.
\<close>

record wifi_monitor =
  wm_links :: "WifiLink list"
  wm_node_links :: "int \<Rightarrow> nat list"
  wm_access_points :: "(string, int) dict"
  wm_stations :: "((int \<times> nat) \<times> nat) list"

datatype wifi_mac = StaWifiMac | ApWifiMac | OtherWifiMac

text \<open>A device of a node: none of Wi-Fi, or one with its MAC and address.\<close>

type_synonym wifi_device = "(wifi_mac \<times> string) option"

definition wifi_update_points :: "scene \<Rightarrow> nat \<Rightarrow> wifi_monitor \<Rightarrow> wifi_monitor res" where
  "wifi_update_points sc k m =
     (let l = wm_links m ! k
      in case wf_node2 l of
           None \<Rightarrow> Inr m
         | Some ap \<Rightarrow> (case wf_node1 l of
             None \<Rightarrow> Inl AttributeError
           | Some sta \<Rightarrow> Inr (m\<lparr>wm_links := (wm_links m)[k := l\<lparr>wf_points := Some (position_of sc (NodeObj sta), position_of sc (NodeObj ap))\<rparr>]\<rparr>)))"

definition wifi_remove_link :: "int \<Rightarrow> nat \<Rightarrow> wifi_monitor \<Rightarrow> wifi_monitor res" where
  "wifi_remove_link i k m =
     (if k \<in> set (wm_node_links m i) then Inr (m\<lparr>wm_node_links := (wm_node_links m)(i := remove1 k (wm_node_links m i))\<rparr>)
      else Inl (ValueError ''list.remove(x): x not in list''))"

definition wifi_add_link :: "int \<Rightarrow> nat \<Rightarrow> wifi_monitor \<Rightarrow> wifi_monitor" where
  "wifi_add_link i k m = m\<lparr>wm_node_links := (wm_node_links m)(i := wm_node_links m i @ [k])\<rparr>"

definition set_ap :: "scene \<Rightarrow> int option \<Rightarrow> nat \<Rightarrow> wifi_monitor \<Rightarrow> wifi_monitor res" where
  "set_ap sc ap k m =
     (if ap = wf_node2 (wm_links m ! k) then Inr m
      else res_bind (case wf_node2 (wm_links m ! k) of Some old \<Rightarrow> wifi_remove_link old k m | None \<Rightarrow> Inr m) (\<lambda>m.
        let m = m\<lparr>wm_links := (wm_links m)[k := (wm_links m ! k)\<lparr>wf_node2 := ap, wf_visible := (ap \<noteq> None)\<rparr>]\<rparr>;
            m = (case ap of Some a \<Rightarrow> wifi_add_link a k m | None \<Rightarrow> m)
        in wifi_update_points sc k m))"

definition wifi_destroy :: "nat \<Rightarrow> wifi_monitor \<Rightarrow> wifi_monitor" where
  "wifi_destroy k m = m\<lparr>wm_links := (wm_links m)[k := (wm_links m ! k)\<lparr>wf_node1 := None, wf_node2 := None, wf_visible := False\<rparr>]\<rparr>"

text \<open>A new link has no access point, so the call \<open>set_ap(None)\<close> of its constructor returns at once and leaves the item visible.\<close>

definition new_wifi_link :: "int \<Rightarrow> WifiLink" where
  "new_wifi_link sta = \<lparr>wf_node1 = Some sta, wf_node2 = None, wf_visible = True, wf_points = None\<rparr>"

definition scan_wifi_device :: "wifi_monitor \<Rightarrow> int \<times> nat \<times> wifi_device \<Rightarrow> wifi_monitor" where
  "scan_wifi_device m = (\<lambda>(i, devI, dev). case dev of
     None \<Rightarrow> m
   | Some (StaWifiMac, _) \<Rightarrow>
       m\<lparr>wm_links := wm_links m @ [new_wifi_link i], wm_stations := wm_stations m @ [((i, devI), length (wm_links m))]\<rparr>
   | Some (ApWifiMac, address) \<Rightarrow> m\<lparr>wm_access_points := AList.update address i (wm_access_points m)\<rparr>
   | Some (OtherWifiMac, _) \<Rightarrow> m)"

text \<open>The devices of the nodes of the visualizer, in the order of the scan.\<close>

definition all_devices :: "(int \<Rightarrow> wifi_device list) \<Rightarrow> scene \<Rightarrow> (int \<times> nat \<times> wifi_device) list" where
  "all_devices devices sc = concat (map (\<lambda>i. map (\<lambda>(devI, dev). (i, devI, dev)) (enumerate 0 (devices i))) (map fst (sc_nodes sc)))"

definition scan_nodes :: "(int \<Rightarrow> wifi_device list) \<Rightarrow> scene \<Rightarrow> wifi_monitor \<Rightarrow> wifi_monitor" where
  "scan_nodes devices sc m =
     (let m = fold (\<lambda>(_, k). wifi_destroy k) (wm_stations m) m;
          m = m\<lparr>wm_access_points := [], wm_stations := []\<rparr>
      in foldl scan_wifi_device m (all_devices devices sc))"

text \<open>What a station says: whether its link is up, and its BSSID.\<close>

definition station_ap :: "(int \<times> nat \<Rightarrow> bool \<times> string) \<Rightarrow> wifi_monitor \<Rightarrow> int \<times> nat \<Rightarrow> int option res" where
  "station_ap station m s =
     (let (up, bssid) = station s
      in if \<not> up \<or> bssid = ''00:00:00:00:00:00'' then Inr None
         else res_bind (dict_get (wm_access_points m) bssid) (\<lambda>ap. Inr (Some ap)))"

fun wifi_update_loop :: "scene \<Rightarrow> (int \<times> nat \<Rightarrow> bool \<times> string) \<Rightarrow> ((int \<times> nat) \<times> nat) list \<Rightarrow> wifi_monitor \<Rightarrow> wifi_monitor \<times> unit res" where
  "wifi_update_loop sc station [] m = (m, Inr ())"
| "wifi_update_loop sc station ((s, k) # xs) m =
     (case res_bind (station_ap station m s) (\<lambda>ap. set_ap sc ap k m) of
        Inl e \<Rightarrow> (m, Inl e)
      | Inr m' \<Rightarrow> wifi_update_loop sc station xs m')"

definition wifi_periodic_update :: "scene \<Rightarrow> (int \<times> nat \<Rightarrow> bool \<times> string) \<Rightarrow> wifi_monitor \<Rightarrow> wifi_monitor \<times> unit res" where
  "wifi_periodic_update sc station m = wifi_update_loop sc station (wm_stations m) m"

definition wifi_update_view :: "scene \<Rightarrow> wifi_monitor \<Rightarrow> wifi_monitor res" where
  "wifi_update_view sc m = res_fold (\<lambda>m (_, k). wifi_update_points sc k m) (wm_stations m) m"

text \<open>The links in the list of a node when \<open>set_position\<close> has moved it.\<close>

definition wifi_node_moved :: "scene \<Rightarrow> int \<Rightarrow> wifi_monitor \<Rightarrow> wifi_monitor res" where
  "wifi_node_moved sc i m = res_fold (\<lambda>m k. wifi_update_points sc k m) (wm_node_links m i) m"

definition new_wifi_monitor :: wifi_monitor where
  "new_wifi_monitor = \<lparr>wm_links = [], wm_node_links = (\<lambda>_. []), wm_access_points = [], wm_stations = []\<rparr>"

section \<open>What the collector computes\<close>

text \<open>What a node has reported so far, in order.\<close>

definition reported :: "(int \<times> interface_counters list) list list \<Rightarrow> int \<Rightarrow> interface_counters list list" where
  "reported updates i = map snd (filter (\<lambda>r. fst r = i) (concat updates))"

lemma pop_excess_drop: "pop_excess k xs = drop (length xs - k) xs"
proof (induction xs)
  case (Cons x xs)
  then show ?case by (cases "k \<le> length xs") (simp_all add: Suc_diff_le)
qed simp

lemma drop_drop_snoc: "drop (length (drop (length xs - k) xs @ [y]) - k) (drop (length xs - k) xs @ [y]) = drop (length (xs @ [y]) - k) (xs @ [y])"
  by (cases "length xs < k") (simp_all add: not_less Suc_diff_le)

lemma collected_fold:
  "map_of (foldl add_statistics [] rs) i
     = (let h = map snd (filter (\<lambda>r. fst r = i) rs) in if h = [] then None else Some (drop (length h - NODE_STATISTICS_MEMORY) h))"
proof (induction rs rule: rev_induct)
  case (snoc r rs)
  obtain j st where r: "r = (j, st)" by (cases r)
  let ?h = "map snd (filter (\<lambda>r. fst r = j) rs)"
  show ?case
  proof (cases "i = j")
    case True
    have "map_of (add_statistics (foldl add_statistics [] rs) r) j
        = Some (pop_excess NODE_STATISTICS_MEMORY (drop (length ?h - NODE_STATISTICS_MEMORY) ?h @ [st]))"
    proof -
      have step: "map_of (add_statistics d (j, st)) j = Some (pop_excess NODE_STATISTICS_MEMORY ((case map_of d j of Some l \<Rightarrow> l | None \<Rightarrow> []) @ [st]))" for d
        by (simp add: add_statistics_def Let_def)
      have "(case map_of (foldl add_statistics [] rs) j of Some l \<Rightarrow> l | None \<Rightarrow> []) = drop (length ?h - NODE_STATISTICS_MEMORY) ?h"
        using snoc [unfolded True] by (simp add: Let_def)
      then show ?thesis unfolding r step by simp
    qed
    then show ?thesis unfolding pop_excess_drop drop_drop_snoc by (simp add: True r Let_def)
  next
    case False
    then show ?thesis using snoc by (simp add: r add_statistics_def Let_def)
  qed
qed simp

lemma collected:
  "map_of (foldl (\<lambda>d u. statistics_periodic_update u d) [] updates) i
     = (let h = reported updates i in if h = [] then None else Some (drop (length h - NODE_STATISTICS_MEMORY) h))"
proof -
  have "foldl (\<lambda>d u. statistics_periodic_update u d) [] updates = foldl add_statistics [] (concat updates)"
    unfolding statistics_periodic_update_def using foldl_foldl [of add_statistics "[]" updates] by simp
  then show ?thesis by (simp add: collected_fold reported_def)
qed

lemma res_map_fails:
  assumes "list_all (\<lambda>x. f x = Inr (g x)) xs" and "f y = Inl e"
  shows "res_map f (xs @ y # ys) = Inl e"
  using assms by (induction xs) simp_all

text \<open>The rates between two samples that are nine sample periods apart.\<close>

definition rates_between :: "rat \<Rightarrow> interface_counters \<Rightarrow> interface_counters \<Rightarrow> NetDevStats" where
  "rates_between t old new = \<lparr>txPackets = ic_tx_packets new, txBytes = ic_tx_bytes new, rxPackets = ic_rx_packets new, rxBytes = ic_rx_bytes new,
     txPacketRate = of_int (ic_tx_packets new - ic_tx_packets old) / t, rxPacketRate = of_int (ic_rx_packets new - ic_rx_packets old) / t,
     txBitRate = of_int ((ic_tx_bytes new - ic_tx_bytes old) * 8) / t, rxBitRate = of_int ((ic_rx_bytes new - ic_rx_bytes old) * 8) / t\<rparr>"

lemma interface_rates_all:
  assumes "k \<noteq> 0"
  shows "res_map (interface_rates k old) (enumerate 0 new)
    = (if length new \<le> length old then Inr (map2 (rates_between k) old new) else Inl IndexError)"
proof (cases "length new \<le> length old")
  case True
  have "res_map (interface_rates k old) (enumerate 0 new) = Inr (map (\<lambda>(j, st). rates_between k (old ! j) st) (enumerate 0 new))"
    using True assms by (intro res_map_pure) (auto simp: interface_rates_def rates_between_def in_set_enumerate_eq)
  moreover have "map (\<lambda>(j, st). rates_between k (old ! j) st) (enumerate 0 new) = map2 (rates_between k) old new"
    using True by (intro nth_equalityI) (auto simp: nth_enumerate_eq)
  ultimately show ?thesis using True by simp
next
  case False
  let ?n = "length old"
  have e: "enumerate 0 new = take ?n (enumerate 0 new) @ (?n, new ! ?n) # drop (Suc ?n) (enumerate 0 new)"
    using False id_take_nth_drop [of ?n "enumerate 0 new"] by (simp add: nth_enumerate_eq)
  have "list_all (\<lambda>x. interface_rates k old x = Inr (case x of (j, st) \<Rightarrow> rates_between k (old ! j) st)) (take ?n (enumerate 0 new))"
    using False assms by (auto simp: list_all_length nth_enumerate_eq interface_rates_def rates_between_def)
  moreover have "interface_rates k old (?n, new ! ?n) = Inl IndexError" by (simp add: interface_rates_def)
  ultimately have "res_map (interface_rates k old) (enumerate 0 new) = Inl IndexError" by (subst e) (rule res_map_fails)
  then show ?thesis using False by simp
qed

text \<open>
  C27: \<open>get_interface_statistics\<close> after any sequence of periodic updates: nothing while a node has reported fewer than
  ten times, and then for each interface the last counters with the packets and bits per second since the tenth last
  report; the exception \<open>IndexError\<close> exactly when the node has more interfaces than in the tenth last report.
\<close>

theorem interface_statistics_result:
  assumes "sample_period \<noteq> 0"
  shows "get_interface_statistics sample_period (foldl (\<lambda>d u. statistics_periodic_update u d) [] updates) i
    = (let h = reported updates i; n = length h
       in if n < 10 then Inr []
          else if length (last h) \<le> length (h ! (n - 10)) then Inr (map2 (rates_between (9 * sample_period)) (h ! (n - 10)) (last h))
          else Inl IndexError)"
proof -
  let ?h = "reported updates i"
  let ?n = "length ?h"
  have k: "sample_period * (of_nat NODE_STATISTICS_MEMORY - 1) = 9 * sample_period" by (simp add: NODE_STATISTICS_MEMORY_def)
  show ?thesis
  proof (cases "?n < 10")
    case False
    then have "?h \<noteq> []" "hd (drop (?n - 10) ?h) = ?h ! (?n - 10)" "last (drop (?n - 10) ?h) = last ?h" by (auto simp: hd_drop_conv_nth)
    then show ?thesis using False assms
      by (simp add: get_interface_statistics_def collected NODE_STATISTICS_MEMORY_def k [unfolded NODE_STATISTICS_MEMORY_def] interface_rates_all Let_def mult.commute [of 9])
  qed (simp add: get_interface_statistics_def collected NODE_STATISTICS_MEMORY_def Let_def)
qed

definition sample_counters :: "int \<Rightarrow> interface_counters" where
  "sample_counters n = \<lparr>ic_tx_packets = n, ic_tx_bytes = 100 * n, ic_rx_packets = 0, ic_rx_bytes = 0\<rparr>"

theorem interface_statistics_result_witness:
  "get_interface_statistics (1 / 10) (foldl (\<lambda>d u. statistics_periodic_update u d) [] (map (\<lambda>n. [(7, [sample_counters (int n)])]) [0..<10])) 7
     = Inr [rates_between (9 / 10) (sample_counters 0) (sample_counters 9)]"
proof -
  have "reported (map (\<lambda>n. [(7, [sample_counters (int n)])]) [0..<10]) 7 = map (\<lambda>n. [sample_counters (int n)]) [0..<10]"
    by (simp add: reported_def upt_rec)
  then show ?thesis using interface_statistics_result [of "1 / 10" "map (\<lambda>n. [(7, [sample_counters (int n)])]) [0..<10]" 7]
    by (simp add: Let_def last_map)
qed

section \<open>The links agree with the lists of the nodes\<close>

text \<open>
  A link with an access point is in the list of that node once, visible, and its station is known; a list holds nothing
  else but links that were destroyed.  The links of the stations are all there and live.
\<close>

definition wifi_link_ok :: "wifi_monitor \<Rightarrow> nat \<Rightarrow> bool" where
  "wifi_link_ok m k \<longleftrightarrow>
     (let l = wm_links m ! k
      in (case wf_node2 l of
            None \<Rightarrow> True
          | Some ap \<Rightarrow> wf_node1 l \<noteq> None \<and> k \<in> set (wm_node_links m ap) \<and> wf_visible l \<and> ap \<in> snd ` set (wm_access_points m))
       \<and> (\<forall>i. k \<in> set (wm_node_links m i) \<longrightarrow> wf_node2 l = Some i \<or> wf_node1 l = None))"

definition wifi_inv :: "wifi_monitor \<Rightarrow> bool" where
  "wifi_inv m \<longleftrightarrow> (\<forall>k < length (wm_links m). wifi_link_ok m k)
     \<and> (\<forall>i. distinct (wm_node_links m i) \<and> (\<forall>k \<in> set (wm_node_links m i). k < length (wm_links m)))
     \<and> distinct (map snd (wm_stations m))
     \<and> (\<forall>(s, k) \<in> set (wm_stations m). k < length (wm_links m) \<and> wf_node1 (wm_links m ! k) = Some (fst s))
     \<and> (\<forall>k < length (wm_links m). wf_node1 (wm_links m ! k) \<noteq> None \<longrightarrow> k \<in> snd ` set (wm_stations m))"

text \<open>What two states of the monitor have in common when only lines are drawn anew.\<close>

definition same_links :: "wifi_monitor \<Rightarrow> wifi_monitor \<Rightarrow> bool" where
  "same_links m m' \<longleftrightarrow> map (\<lambda>l. (wf_node1 l, wf_node2 l, wf_visible l)) (wm_links m') = map (\<lambda>l. (wf_node1 l, wf_node2 l, wf_visible l)) (wm_links m)
     \<and> wm_node_links m' = wm_node_links m \<and> wm_access_points m' = wm_access_points m \<and> wm_stations m' = wm_stations m"

lemma same_links_refl: "same_links m m"
  by (simp add: same_links_def)

lemma same_links_trans: "same_links m m' \<Longrightarrow> same_links m' m'' \<Longrightarrow> same_links m m''"
  by (simp add: same_links_def)

lemma same_links_nth:
  assumes "same_links m m'"
  shows "length (wm_links m') = length (wm_links m)"
    and "k < length (wm_links m) \<Longrightarrow> wf_node1 (wm_links m' ! k) = wf_node1 (wm_links m ! k)"
    and "k < length (wm_links m) \<Longrightarrow> wf_node2 (wm_links m' ! k) = wf_node2 (wm_links m ! k)"
    and "k < length (wm_links m) \<Longrightarrow> wf_visible (wm_links m' ! k) = wf_visible (wm_links m ! k)"
proof -
  have e: "map (\<lambda>l. (wf_node1 l, wf_node2 l, wf_visible l)) (wm_links m') = map (\<lambda>l. (wf_node1 l, wf_node2 l, wf_visible l)) (wm_links m)"
    using assms by (simp add: same_links_def)
  from arg_cong [OF e, of length] show len: "length (wm_links m') = length (wm_links m)" by simp
  have "k < length (wm_links m) \<Longrightarrow> (wf_node1 (wm_links m' ! k), wf_node2 (wm_links m' ! k), wf_visible (wm_links m' ! k))
      = (wf_node1 (wm_links m ! k), wf_node2 (wm_links m ! k), wf_visible (wm_links m ! k))" for k
    using arg_cong [OF e, of "\<lambda>xs. xs ! k"] len by simp
  then show "k < length (wm_links m) \<Longrightarrow> wf_node1 (wm_links m' ! k) = wf_node1 (wm_links m ! k)"
    "k < length (wm_links m) \<Longrightarrow> wf_node2 (wm_links m' ! k) = wf_node2 (wm_links m ! k)"
    "k < length (wm_links m) \<Longrightarrow> wf_visible (wm_links m' ! k) = wf_visible (wm_links m ! k)" by simp_all
qed

lemma same_links_inv: "same_links m m' \<Longrightarrow> wifi_inv m \<Longrightarrow> wifi_inv m'"
proof -
  assume s: "same_links m m'" and i: "wifi_inv m"
  have "wifi_link_ok m' k = wifi_link_ok m k" if "k < length (wm_links m)" for k
    using s that same_links_nth [OF s] unfolding wifi_link_ok_def same_links_def by (simp add: Let_def split: option.split)
  moreover have "wm_node_links m' = wm_node_links m" "wm_stations m' = wm_stations m" using s by (auto simp: same_links_def)
  ultimately show ?thesis using i same_links_nth [OF s] unfolding wifi_inv_def by (auto simp: split_def)
qed

lemma map_update_same: "f l = f (xs ! k) \<Longrightarrow> map f (xs[k := l]) = map f xs"
  by (metis list_update_id map_update)

lemma update_points_succeeds:
  assumes "wifi_inv m" and "k < length (wm_links m)"
  shows "\<exists>m'. wifi_update_points sc k m = Inr m' \<and> same_links m m'
    \<and> (\<forall>j. j < length (wm_links m) \<longrightarrow> j \<noteq> k \<longrightarrow> wm_links m' ! j = wm_links m ! j)
    \<and> (\<forall>sta ap. wf_node1 (wm_links m ! k) = Some sta \<longrightarrow> wf_node2 (wm_links m ! k) = Some ap
         \<longrightarrow> wf_points (wm_links m' ! k) = Some (position_of sc (NodeObj sta), position_of sc (NodeObj ap)))"
proof (cases "wf_node2 (wm_links m ! k)")
  case None
  then show ?thesis by (simp add: wifi_update_points_def same_links_refl)
next
  case (Some ap)
  have "wifi_link_ok m k" using assms by (simp add: wifi_inv_def)
  then obtain sta where "wf_node1 (wm_links m ! k) = Some sta" using Some by (auto simp: wifi_link_ok_def Let_def)
  then show ?thesis using Some assms(2) by (simp add: wifi_update_points_def same_links_def map_update_same del: position_of.simps)
qed

text \<open>Whether the lines of the given links are where their ends are.\<close>

definition drawn_right :: "scene \<Rightarrow> wifi_monitor \<Rightarrow> nat \<Rightarrow> bool" where
  "drawn_right sc m k \<longleftrightarrow> (case (wf_node1 (wm_links m ! k), wf_node2 (wm_links m ! k)) of
     (Some sta, Some ap) \<Rightarrow> wf_points (wm_links m ! k) = Some (position_of sc (NodeObj sta), position_of sc (NodeObj ap)) | _ \<Rightarrow> True)"

lemma points_fold:
  assumes "wifi_inv m" and "\<And>x. x \<in> set xs \<Longrightarrow> f x < length (wm_links m)"
  shows "\<exists>m'. res_fold (\<lambda>m x. wifi_update_points sc (f x) m) xs m = Inr m' \<and> same_links m m'
    \<and> (\<forall>k. k < length (wm_links m) \<longrightarrow> k \<in> f ` set xs \<or> drawn_right sc m k \<longrightarrow> drawn_right sc m' k)
    \<and> (\<forall>k. k < length (wm_links m) \<longrightarrow> k \<notin> f ` set xs \<longrightarrow> wm_links m' ! k = wm_links m ! k)"
  using assms
proof (induction xs arbitrary: m)
  case (Cons x xs)
  have fx: "f x < length (wm_links m)" using Cons.prems(2) by simp
  obtain m1 where m1: "wifi_update_points sc (f x) m = Inr m1" "same_links m m1"
    and other: "\<And>j. j < length (wm_links m) \<Longrightarrow> j \<noteq> f x \<Longrightarrow> wm_links m1 ! j = wm_links m ! j"
    and right: "\<And>sta ap. wf_node1 (wm_links m ! f x) = Some sta \<Longrightarrow> wf_node2 (wm_links m ! f x) = Some ap
         \<Longrightarrow> wf_points (wm_links m1 ! f x) = Some (position_of sc (NodeObj sta), position_of sc (NodeObj ap))"
    using update_points_succeeds [OF Cons.prems(1) fx, of sc] by blast
  note same = same_links_nth [OF m1(2)]
  have x: "drawn_right sc m1 (f x)" using right same(2,3) [OF fx] by (auto simp: drawn_right_def split: option.splits simp del: position_of.simps)
  have keep: "drawn_right sc m1 k" if "k < length (wm_links m)" "drawn_right sc m k" for k
  proof (cases "k = f x")
    case False
    show ?thesis using that(2) unfolding drawn_right_def other [OF that(1) False] .
  qed (use x in simp)
  obtain m' where m': "res_fold (\<lambda>m x. wifi_update_points sc (f x) m) xs m1 = Inr m'" "same_links m1 m'"
      "\<forall>k. k < length (wm_links m1) \<longrightarrow> k \<in> f ` set xs \<or> drawn_right sc m1 k \<longrightarrow> drawn_right sc m' k"
      "\<forall>k. k < length (wm_links m1) \<longrightarrow> k \<notin> f ` set xs \<longrightarrow> wm_links m' ! k = wm_links m1 ! k"
    using Cons.IH [OF same_links_inv [OF m1(2) Cons.prems(1)]] Cons.prems(2) same(1) by auto
  then show ?case using m1 x keep other same(1) fx same_links_trans [OF m1(2) m'(2)] by (intro exI [of _ m']) (auto simp del: position_of.simps)
qed (simp add: same_links_refl)

text \<open>The state of \<open>set_ap\<close> before the line is drawn.\<close>

definition relinked :: "int option \<Rightarrow> nat \<Rightarrow> wifi_monitor \<Rightarrow> wifi_monitor" where
  "relinked ap k m = m\<lparr>wm_links := (wm_links m)[k := (wm_links m ! k)\<lparr>wf_node2 := ap, wf_visible := (ap \<noteq> None)\<rparr>],
     wm_node_links := (\<lambda>i. (if Some i = wf_node2 (wm_links m ! k) then remove1 k (wm_node_links m i) else wm_node_links m i) @ (if Some i = ap then [k] else []))\<rparr>"

lemma set_ap_relinked:
  assumes "wifi_inv m" and "k < length (wm_links m)" and "ap \<noteq> wf_node2 (wm_links m ! k)"
  shows "set_ap sc ap k m = wifi_update_points sc k (relinked ap k m)"
proof -
  have ok: "wifi_link_ok m k" using assms by (simp add: wifi_inv_def)
  obtain m1 where m1: "(case wf_node2 (wm_links m ! k) of Some old \<Rightarrow> wifi_remove_link old k m | None \<Rightarrow> Inr m) = Inr m1" "wm_links m1 = wm_links m"
      "(let m2 = m1\<lparr>wm_links := (wm_links m)[k := (wm_links m ! k)\<lparr>wf_node2 := ap, wf_visible := (ap \<noteq> None)\<rparr>]\<rparr>
         in (case ap of Some a \<Rightarrow> wifi_add_link a k m2 | None \<Rightarrow> m2)) = relinked ap k m"
    using ok assms(3) by (auto simp: wifi_link_ok_def Let_def wifi_remove_link_def wifi_add_link_def relinked_def fun_eq_iff split: option.splits)
  show ?thesis using assms(3) m1(3) unfolding set_ap_def m1(1) res_bind_Inr m1(2) Let_def by simp
qed

lemma live_link:
  assumes "wifi_inv m" and "k \<in> snd ` set (wm_stations m)"
  shows "k < length (wm_links m)" and "wf_node1 (wm_links m ! k) \<noteq> None"
  using assms by (auto simp: wifi_inv_def)

lemma relinked_member:
  assumes "wifi_inv m" and "k \<in> snd ` set (wm_stations m)"
  shows "j \<in> set (wm_node_links (relinked ap k m) i) \<longleftrightarrow> (if j = k then Some i = ap else j \<in> set (wm_node_links m i))"
proof -
  have "wifi_link_ok m k" "distinct (wm_node_links m i)" using assms(1) live_link [OF assms] by (simp_all add: wifi_inv_def)
  moreover from this have "k \<in> set (wm_node_links m i) \<Longrightarrow> Some i = wf_node2 (wm_links m ! k)"
    using live_link(2) [OF assms] by (auto simp: wifi_link_ok_def Let_def)
  ultimately show ?thesis by (auto simp: relinked_def)
qed

lemma relinked_inv:
  assumes "wifi_inv m" and "k \<in> snd ` set (wm_stations m)" and "ap \<noteq> None \<longrightarrow> the ap \<in> snd ` set (wm_access_points m)"
    and "ap \<noteq> wf_node2 (wm_links m ! k)"
  shows "wifi_inv (relinked ap k m)"
proof -
  let ?m = "relinked ap k m"
  note live = live_link [OF assms(1,2)]
  note member = relinked_member [OF assms(1,2), of _ ap]
  have fields: "wm_stations ?m = wm_stations m" "wm_access_points ?m = wm_access_points m" "length (wm_links ?m) = length (wm_links m)"
    "wm_links ?m ! k = (wm_links m ! k)\<lparr>wf_node2 := ap, wf_visible := (ap \<noteq> None)\<rparr>"
    "j \<noteq> k \<Longrightarrow> wm_links ?m ! j = wm_links m ! j" for j
    using live(1) by (simp_all add: relinked_def)
  have n1: "wf_node1 (wm_links ?m ! j) = wf_node1 (wm_links m ! j)" for j using fields(4,5) by (cases "j = k") simp_all
  have "wifi_link_ok ?m j" if "j < length (wm_links m)" for j
  proof (cases "j = k")
    case True
    have "k \<in> set (wm_node_links ?m i) \<longleftrightarrow> Some i = ap" for i using member by simp
    then show ?thesis using live(2) assms(3) fields(2,4) True by (cases ap) (simp_all add: wifi_link_ok_def Let_def)
  next
    case False
    have "wifi_link_ok m j" using assms(1) that by (simp add: wifi_inv_def)
    then show ?thesis using False fields member by (simp add: wifi_link_ok_def Let_def split: option.splits)
  qed
  moreover have "distinct (wm_node_links ?m i)" for i
  proof -
    have d: "distinct (wm_node_links m i)" and "wifi_link_ok m k" using assms(1) live by (auto simp: wifi_inv_def)
    then have "Some i = wf_node2 (wm_links m ! k) \<or> k \<notin> set (wm_node_links m i)" using live(2) by (auto simp: wifi_link_ok_def Let_def)
    then show ?thesis using d assms(4) by (auto simp: relinked_def)
  qed
  moreover have "\<forall>j \<in> set (wm_node_links ?m i). j < length (wm_links m)" for i
    using assms(1) live(1) member by (auto simp: wifi_inv_def split: if_splits)
  ultimately show ?thesis using assms(1) fields n1 unfolding wifi_inv_def by simp
qed

lemma set_ap_result:
  assumes "wifi_inv m" and "k \<in> snd ` set (wm_stations m)" and "ap \<noteq> None \<longrightarrow> the ap \<in> snd ` set (wm_access_points m)"
  shows "\<exists>m'. set_ap sc ap k m = Inr m' \<and> wifi_inv m' \<and> wm_stations m' = wm_stations m \<and> wm_access_points m' = wm_access_points m
    \<and> length (wm_links m') = length (wm_links m)
    \<and> (\<forall>j < length (wm_links m). wf_node2 (wm_links m' ! j) = (if j = k then ap else wf_node2 (wm_links m ! j)))"
proof (cases "ap = wf_node2 (wm_links m ! k)")
  case True
  then show ?thesis using assms(1) by (simp add: set_ap_def)
next
  case False
  note live = live_link [OF assms(1,2)]
  have inv: "wifi_inv (relinked ap k m)" by (rule relinked_inv [OF assms False])
  have len: "length (wm_links (relinked ap k m)) = length (wm_links m)" by (simp add: relinked_def)
  obtain m' where m': "wifi_update_points sc k (relinked ap k m) = Inr m'" "same_links (relinked ap k m) m'"
    using update_points_succeeds [OF inv, of k sc] live(1) len by auto
  have "wf_node2 (wm_links m' ! j) = (if j = k then ap else wf_node2 (wm_links m ! j))" if "j < length (wm_links m)" for j
    using same_links_nth(3) [OF m'(2), of j] that len by (simp add: relinked_def nth_list_update)
  then show ?thesis using set_ap_relinked [OF assms(1) live(1) False] m' same_links_inv [OF m'(2) inv] same_links_nth(1) [OF m'(2)] len
    by (auto simp: same_links_def relinked_def)
qed

section \<open>Updates and scans\<close>

text \<open>The access point of a station, if it has one that the last scan has seen.\<close>

definition known_station :: "(int \<times> nat \<Rightarrow> bool \<times> string) \<Rightarrow> wifi_monitor \<Rightarrow> int \<times> nat \<Rightarrow> bool" where
  "known_station station m s \<longleftrightarrow> (let (up, bssid) = station s in up \<and> bssid \<noteq> ''00:00:00:00:00:00'' \<longrightarrow> has_key (wm_access_points m) bssid)"

definition associated_ap :: "(int \<times> nat \<Rightarrow> bool \<times> string) \<Rightarrow> wifi_monitor \<Rightarrow> int \<times> nat \<Rightarrow> int option" where
  "associated_ap station m s = (let (up, bssid) = station s in if up \<and> bssid \<noteq> ''00:00:00:00:00:00'' then map_of (wm_access_points m) bssid else None)"

lemma station_ap_cases:
  "station_ap station m s = (if known_station station m s then Inr (associated_ap station m s) else Inl KeyError)"
  by (auto simp: station_ap_def known_station_def associated_ap_def dict_get_def has_key_def Let_def split: prod.splits option.splits)

lemma associated_ap_member: "associated_ap station m s \<noteq> None \<longrightarrow> the (associated_ap station m s) \<in> snd ` set (wm_access_points m)"
  by (auto simp: associated_ap_def split: prod.splits dest: map_of_SomeD intro!: image_eqI)

text \<open>Stations and access points are the same in two states.\<close>

definition same_scan :: "wifi_monitor \<Rightarrow> wifi_monitor \<Rightarrow> bool" where
  "same_scan m m' \<longleftrightarrow> wm_stations m' = wm_stations m \<and> wm_access_points m' = wm_access_points m \<and> length (wm_links m') = length (wm_links m)"

lemma same_scan_known: "same_scan m m' \<Longrightarrow> known_station station m' = known_station station m \<and> associated_ap station m' = associated_ap station m"
  by (auto simp: same_scan_def known_station_def associated_ap_def fun_eq_iff split: prod.splits)

lemma update_loop_result:
  assumes "wifi_inv m" and "set xs \<subseteq> set (wm_stations m)" and "distinct (map snd xs)"
  shows "\<exists>m'. wifi_update_loop sc station xs m = (m', if list_all (\<lambda>(s, _). known_station station m s) xs then Inr () else Inl KeyError)
    \<and> wifi_inv m' \<and> same_scan m m'
    \<and> (\<forall>j < length (wm_links m). j \<notin> snd ` set xs \<longrightarrow> wf_node2 (wm_links m' ! j) = wf_node2 (wm_links m ! j))
    \<and> (list_all (\<lambda>(s, _). known_station station m s) xs \<longrightarrow> list_all (\<lambda>(s, k). wf_node2 (wm_links m' ! k) = associated_ap station m s) xs)"
  using assms
proof (induction xs arbitrary: m)
  case (Cons x xs)
  obtain s k where x: "x = (s, k)" by (cases x)
  show ?case
  proof (cases "known_station station m s")
    case False
    then show ?thesis using Cons.prems(1) by (simp add: x station_ap_cases same_scan_def)
  next
    case True
    have k: "k \<in> snd ` set (wm_stations m)" using Cons.prems(2) x by force
    note live = live_link [OF Cons.prems(1) k]
    obtain m1 where m1: "set_ap sc (associated_ap station m s) k m = Inr m1" "wifi_inv m1" "same_scan m m1"
      and n2: "\<forall>j < length (wm_links m). wf_node2 (wm_links m1 ! j) = (if j = k then associated_ap station m s else wf_node2 (wm_links m ! j))"
      using set_ap_result [OF Cons.prems(1) k associated_ap_member, of sc station s] unfolding same_scan_def by blast
    note same = same_scan_known [OF m1(3), of station]
    have fields: "wm_stations m1 = wm_stations m" "length (wm_links m1) = length (wm_links m)" using m1(3) by (simp_all add: same_scan_def)
    obtain m' where m': "wifi_update_loop sc station xs m1 = (m', if list_all (\<lambda>(s, _). known_station station m s) xs then Inr () else Inl KeyError)"
        "wifi_inv m'" "same_scan m1 m'"
        "\<forall>j < length (wm_links m). j \<notin> snd ` set xs \<longrightarrow> wf_node2 (wm_links m' ! j) = wf_node2 (wm_links m1 ! j)"
        "list_all (\<lambda>(s, _). known_station station m s) xs \<longrightarrow> list_all (\<lambda>(s, k). wf_node2 (wm_links m' ! k) = associated_ap station m s) xs"
      using Cons.IH [OF m1(2)] Cons.prems(2,3) fields same by auto
    have "k \<notin> snd ` set xs" using Cons.prems(3) x by auto
    moreover have "same_scan m m'" using m1(3) m'(3) by (simp add: same_scan_def)
    ultimately show ?thesis using m1(1) m' n2 True live(1) by (auto simp: x station_ap_cases)
  qed
qed (simp add: same_scan_def)

lemma wifi_links_member:
  assumes "wifi_inv m" and "(s, k) \<in> set (wm_stations m)"
  shows "k \<in> set (wm_node_links m i) \<longleftrightarrow> wf_node2 (wm_links m ! k) = Some i"
proof -
  have "k < length (wm_links m)" "wf_node1 (wm_links m ! k) \<noteq> None" using live_link [OF assms(1), of k] assms(2) by force+
  moreover from this have "wifi_link_ok m k" using assms(1) by (simp add: wifi_inv_def)
  ultimately show ?thesis by (auto simp: wifi_link_ok_def Let_def)
qed

lemma destroy_fields:
  "wm_node_links (wifi_destroy k m) = wm_node_links m" "length (wm_links (wifi_destroy k m)) = length (wm_links m)" "wm_stations (wifi_destroy k m) = wm_stations m"
  by (simp_all add: wifi_destroy_def)

lemma destroy_all:
  "wm_node_links (fold (\<lambda>(_, k). wifi_destroy k) xs m) = wm_node_links m \<and> length (wm_links (fold (\<lambda>(_, k). wifi_destroy k) xs m)) = length (wm_links m)
   \<and> (\<forall>j < length (wm_links m). (j \<in> snd ` set xs \<or> wf_node1 (wm_links m ! j) = None \<and> wf_node2 (wm_links m ! j) = None)
        \<longrightarrow> wf_node1 (wm_links (fold (\<lambda>(_, k). wifi_destroy k) xs m) ! j) = None \<and> wf_node2 (wm_links (fold (\<lambda>(_, k). wifi_destroy k) xs m) ! j) = None)"
proof (induction xs arbitrary: m)
  case (Cons x xs)
  have n: "wf_node1 (wm_links (wifi_destroy k m) ! j) = (if j = k then None else wf_node1 (wm_links m ! j))"
    "wf_node2 (wm_links (wifi_destroy k m) ! j) = (if j = k then None else wf_node2 (wm_links m ! j))" if "j < length (wm_links m)" for j k
    using that by (simp_all add: wifi_destroy_def nth_list_update)
  show ?case using Cons [of "wifi_destroy (snd x) m"] n by (simp add: split_def destroy_fields)
qed simp

lemma destroyed_inv:
  assumes "wifi_inv m"
  defines "m' \<equiv> (fold (\<lambda>(_, k). wifi_destroy k) (wm_stations m) m)\<lparr>wm_access_points := [], wm_stations := []\<rparr>"
  shows "wifi_inv m'" and "\<forall>l \<in> set (wm_links m'). wf_node2 l = None"
proof -
  have "j \<in> snd ` set (wm_stations m) \<or> wf_node1 (wm_links m ! j) = None \<and> wf_node2 (wm_links m ! j) = None" if "j < length (wm_links m)" for j
  proof -
    have "wifi_link_ok m j" using assms(1) that by (simp add: wifi_inv_def)
    moreover have "wf_node1 (wm_links m ! j) \<noteq> None \<longrightarrow> j \<in> snd ` set (wm_stations m)" using assms(1) that by (simp add: wifi_inv_def)
    ultimately show ?thesis by (auto simp: wifi_link_ok_def Let_def split: option.splits)
  qed
  then have gone: "wf_node1 (wm_links m' ! j) = None" "wf_node2 (wm_links m' ! j) = None" if "j < length (wm_links m)" for j
    using destroy_all [of "wm_stations m" m] that by (auto simp: m'_def)
  have fields: "wm_node_links m' = wm_node_links m" "length (wm_links m') = length (wm_links m)" "wm_stations m' = []"
    using destroy_all [of "wm_stations m" m] by (simp_all add: m'_def)
  show "wifi_inv m'" using assms(1) gone fields by (simp add: wifi_inv_def wifi_link_ok_def Let_def)
  show "\<forall>l \<in> set (wm_links m'). wf_node2 l = None" using gone(2) fields(2) by (metis in_set_conv_nth)
qed

lemma scan_device_inv:
  assumes "wifi_inv m" and "\<forall>l \<in> set (wm_links m). wf_node2 l = None"
  shows "wifi_inv (scan_wifi_device m x) \<and> (\<forall>l \<in> set (wm_links (scan_wifi_device m x)). wf_node2 l = None)"
proof -
  obtain i n dev where x: "x = (i, n, dev)" by (metis prod.exhaust)
  have n2: "wf_node2 (wm_links m ! j) = None" if "j < length (wm_links m)" for j using assms(2) that by simp
  have out: "length (wm_links m) \<notin> set (wm_node_links m j)" for j using assms(1) by (auto simp: wifi_inv_def)
  have old: "k < length (wm_links m) \<and> wf_node1 (wm_links m ! k) = Some (fst s)" if "(s, k) \<in> set (wm_stations m)" for s k
    using assms(1) that by (auto simp: wifi_inv_def)
  show ?thesis
  proof (cases dev)
    case (Some d)
    obtain mac address where d: "d = (mac, address)" by (cases d)
    show ?thesis
    proof (cases mac)
      case StaWifiMac
      have "length (wm_links m) \<notin> snd ` set (wm_stations m)" using old by fastforce
      moreover have "k < length (wm_links m)" if "k \<in> set (wm_node_links m j)" for j k using assms(1) that by (auto simp: wifi_inv_def)
      ultimately show ?thesis using assms n2 out old
        by (auto simp: x Some d StaWifiMac scan_wifi_device_def wifi_inv_def wifi_link_ok_def Let_def nth_append new_wifi_link_def less_Suc_eq)
    next
      case ApWifiMac
      then show ?thesis using assms n2 by (auto simp: x Some d scan_wifi_device_def wifi_inv_def wifi_link_ok_def Let_def)
    qed (use assms in \<open>simp add: x Some d scan_wifi_device_def\<close>)
  qed (use assms in \<open>simp add: x scan_wifi_device_def\<close>)
qed

lemma scan_inv:
  assumes "wifi_inv m"
  shows "wifi_inv (scan_nodes devices sc m)"
proof -
  have "wifi_inv (foldl scan_wifi_device m' xs) \<and> (\<forall>l \<in> set (wm_links (foldl scan_wifi_device m' xs)). wf_node2 l = None)"
    if "wifi_inv m'" "\<forall>l \<in> set (wm_links m'). wf_node2 l = None" for m' xs
    using that
  proof (induction xs arbitrary: m')
    case (Cons x xs)
    show ?case using Cons.IH [of "scan_wifi_device m' x"] scan_device_inv [OF Cons.prems, of x] by simp
  qed simp
  then show ?thesis using destroyed_inv [OF assms] by (simp add: scan_nodes_def Let_def)
qed

text \<open>The stations and the access points among devices, in order.\<close>

definition station_devices :: "(int \<times> nat \<times> wifi_device) list \<Rightarrow> (int \<times> nat) list" where
  "station_devices xs = map (\<lambda>(i, n, _). (i, n)) (filter (\<lambda>(_, _, dev). \<exists>a. dev = Some (StaWifiMac, a)) xs)"

definition ap_devices :: "(int \<times> nat \<times> wifi_device) list \<Rightarrow> (string \<times> int) list" where
  "ap_devices xs = concat (map (\<lambda>(i, _, dev). case dev of Some (ApWifiMac, a) \<Rightarrow> [(a, i)] | _ \<Rightarrow> []) xs)"

lemma scan_devices_result:
  "map fst (wm_stations (foldl scan_wifi_device m xs)) = map fst (wm_stations m) @ station_devices xs
   \<and> map_of (wm_access_points (foldl scan_wifi_device m xs)) = map_of (wm_access_points m) ++ map_of (rev (ap_devices xs))"
proof (induction xs rule: rev_induct)
  case (snoc x xs)
  obtain i n dev where x: "x = (i, n, dev)" by (metis prod.exhaust)
  show ?case
  proof (cases dev)
    case (Some d)
    obtain mac a where d: "d = (mac, a)" by (cases d)
    show ?thesis using snoc by (cases mac) (auto simp: x Some d scan_wifi_device_def station_devices_def ap_devices_def update_conv' fun_eq_iff map_add_def)
  qed (use snoc in \<open>simp add: x scan_wifi_device_def station_devices_def ap_devices_def\<close>)
qed (simp add: station_devices_def ap_devices_def)

lemma scan_result:
  "map fst (wm_stations (scan_nodes devices sc m)) = station_devices (all_devices devices sc)"
  "map_of (wm_access_points (scan_nodes devices sc m)) = map_of (rev (ap_devices (all_devices devices sc)))"
  by (simp_all add: scan_nodes_def Let_def scan_devices_result)

text \<open>What can happen to the monitor: a scan, a periodic update that ends or raises, an update of the view, a node that is moved.\<close>

inductive wifi_step :: "wifi_monitor \<Rightarrow> wifi_monitor \<Rightarrow> bool" where
  scan: "wifi_step m (scan_nodes devices sc m)"
| periodic: "wifi_periodic_update sc station m = (m', r) \<Longrightarrow> wifi_step m m'"
| view: "wifi_update_view sc m = Inr m' \<Longrightarrow> wifi_step m m'"
| moved: "wifi_node_moved sc i m = Inr m' \<Longrightarrow> wifi_step m m'"

lemma update_view_result:
  assumes "wifi_inv m"
  shows "\<exists>m'. wifi_update_view sc m = Inr m' \<and> same_links m m' \<and> (\<forall>(s, k) \<in> set (wm_stations m). drawn_right sc m' k)"
proof -
  have b: "snd x < length (wm_links m)" if "x \<in> set (wm_stations m)" for x using live_link(1) [OF assms] that by simp
  obtain m' where "res_fold (\<lambda>m x. wifi_update_points sc (snd x) m) (wm_stations m) m = Inr m'" "same_links m m'"
      and r: "\<forall>k. k < length (wm_links m) \<longrightarrow> k \<in> snd ` set (wm_stations m) \<or> drawn_right sc m k \<longrightarrow> drawn_right sc m' k"
    using points_fold [OF assms, of "wm_stations m" snd sc] b by blast
  moreover have "drawn_right sc m' k" if "(s, k) \<in> set (wm_stations m)" for s k
    using r b [OF that] that by (metis image_eqI snd_conv)
  ultimately show ?thesis by (auto simp: wifi_update_view_def split_def)
qed

lemma node_moved_result:
  assumes "wifi_inv m"
  shows "\<exists>m'. wifi_node_moved sc i m = Inr m' \<and> same_links m m' \<and> (\<forall>k \<in> set (wm_node_links m i). drawn_right sc m' k)"
proof -
  have b: "k < length (wm_links m)" if "k \<in> set (wm_node_links m i)" for k using assms that by (auto simp: wifi_inv_def)
  from points_fold [OF assms, of "wm_node_links m i" "\<lambda>k. k" sc] b show ?thesis by (auto simp: wifi_node_moved_def)
qed

lemma periodic_result:
  assumes "wifi_inv m"
  shows "\<exists>m'. wifi_periodic_update sc station m = (m', if list_all (\<lambda>(s, _). known_station station m s) (wm_stations m) then Inr () else Inl KeyError)
    \<and> wifi_inv m' \<and> same_scan m m'
    \<and> (list_all (\<lambda>(s, _). known_station station m s) (wm_stations m) \<longrightarrow> list_all (\<lambda>(s, k). wf_node2 (wm_links m' ! k) = associated_ap station m s) (wm_stations m))"
proof -
  have "distinct (map snd (wm_stations m))" using assms by (simp add: wifi_inv_def)
  from update_loop_result [OF assms subset_refl this, of sc station] show ?thesis unfolding wifi_periodic_update_def by blast
qed

lemma wifi_reachable_inv:
  assumes "wifi_step\<^sup>*\<^sup>* new_wifi_monitor m"
  shows "wifi_inv m"
  using assms
proof (induction rule: rtranclp_induct)
  case base
  show ?case by (simp add: new_wifi_monitor_def wifi_inv_def)
next
  case (step m m')
  from step.hyps(2) show ?case
  proof cases
    case (periodic sc station r)
    then show ?thesis using periodic_result [OF step.IH, of sc station] by auto
  next
    case (view sc)
    then show ?thesis using update_view_result [OF step.IH, of sc] same_links_inv [OF _ step.IH] by auto
  next
    case (moved sc i)
    then show ?thesis using node_moved_result [OF step.IH, of sc i] same_links_inv [OF _ step.IH] by auto
  qed (simp add: scan_inv step.IH)
qed

text \<open>
  C26: The monitor of Wi-Fi links in every state it can reach.  A periodic update ends well exactly when every station
  that is up and associated is so with an access point of the last scan, and else raises \<open>KeyError\<close>; when it ends well, the link
  of each station goes to the access point of the station, if it has one, is then visible and is in the list of exactly that node.
  Updating the view never raises and draws every link of a station from the place of the station to that of the access point.
\<close>

theorem wifi_links_follow:
  assumes "wifi_step\<^sup>*\<^sup>* new_wifi_monitor m"
  shows "(\<exists>m'. wifi_periodic_update sc station m = (m', if list_all (\<lambda>(s, _). known_station station m s) (wm_stations m) then Inr () else Inl KeyError)
      \<and> wm_stations m' = wm_stations m \<and> wm_access_points m' = wm_access_points m
      \<and> (list_all (\<lambda>(s, _). known_station station m s) (wm_stations m) \<longrightarrow>
           list_all (\<lambda>(s, k). wf_node2 (wm_links m' ! k) = associated_ap station m s \<and> (associated_ap station m s \<noteq> None \<longrightarrow> wf_visible (wm_links m' ! k))
             \<and> (\<forall>i. k \<in> set (wm_node_links m' i) \<longleftrightarrow> associated_ap station m s = Some i)) (wm_stations m)))
    \<and> (\<exists>m'. wifi_update_view sc m = Inr m' \<and> wm_stations m' = wm_stations m
      \<and> list_all (\<lambda>(s, k). \<forall>ap. wf_node2 (wm_links m ! k) = Some ap \<longrightarrow>
           wf_node2 (wm_links m' ! k) = Some ap \<and> wf_points (wm_links m' ! k) = Some (position_of sc (NodeObj (fst s)), position_of sc (NodeObj ap))) (wm_stations m))"
    (is "?periodic \<and> ?view")
proof
  have inv: "wifi_inv m" by (rule wifi_reachable_inv [OF assms])
  obtain m' where m': "wifi_periodic_update sc station m = (m', if list_all (\<lambda>(s, _). known_station station m s) (wm_stations m) then Inr () else Inl KeyError)"
      "wifi_inv m'" "same_scan m m'"
      "list_all (\<lambda>(s, _). known_station station m s) (wm_stations m) \<longrightarrow> list_all (\<lambda>(s, k). wf_node2 (wm_links m' ! k) = associated_ap station m s) (wm_stations m)"
    using periodic_result [OF inv, of sc station] by blast
  have same: "wm_stations m' = wm_stations m" "wm_access_points m' = wm_access_points m" using m'(3) by (simp_all add: same_scan_def)
  have vis: "wf_node2 (wm_links m' ! k) \<noteq> None \<longrightarrow> wf_visible (wm_links m' ! k)" if "(s, k) \<in> set (wm_stations m)" for s k
  proof -
    have "k < length (wm_links m')" using live_link(1) [OF m'(2), of k] that same(1) by force
    then have "wifi_link_ok m' k" using m'(2) by (simp add: wifi_inv_def)
    then show ?thesis by (auto simp: wifi_link_ok_def Let_def)
  qed
  show ?periodic
    using m'(1,4) same vis wifi_links_member [OF m'(2)] by (intro exI [of _ m']) (auto simp: list_all_iff)
next
  have inv: "wifi_inv m" by (rule wifi_reachable_inv [OF assms])
  obtain m' where m': "wifi_update_view sc m = Inr m'" "same_links m m'" "\<forall>(s, k) \<in> set (wm_stations m). drawn_right sc m' k"
    using update_view_result [OF inv, of sc] by blast
  have "wf_node2 (wm_links m' ! k) = Some ap \<and> wf_points (wm_links m' ! k) = Some (position_of sc (NodeObj (fst s)), position_of sc (NodeObj ap))"
    if "(s, k) \<in> set (wm_stations m)" "wf_node2 (wm_links m ! k) = Some ap" for s k ap
  proof -
    have "k < length (wm_links m)" "wf_node1 (wm_links m ! k) = Some (fst s)" using inv that(1) by (auto simp: wifi_inv_def)
    then show ?thesis using same_links_nth(2,3) [OF m'(2), of k] m'(3) that by (auto simp: drawn_right_def simp del: position_of.simps)
  qed
  then show ?view using m'(1,2) by (intro exI [of _ m']) (auto simp: list_all_iff same_links_def simp del: position_of.simps)
qed

definition sample_wifi :: "int \<Rightarrow> wifi_device list" where
  "sample_wifi i = (if i = 0 then [None, Some (StaWifiMac, ''00:00:00:00:00:01'')] else [Some (ApWifiMac, ''00:00:00:00:00:02'')])"

lemma sample_scan:
  "wm_stations (scan_nodes sample_wifi sample_scene new_wifi_monitor) = [((0, 1), 0)]"
  "wm_access_points (scan_nodes sample_wifi sample_scene new_wifi_monitor) = [(''00:00:00:00:00:02'', 1)]"
proof -
  have "map fst (sc_nodes sample_scene) = [0, 1]" by code_simp
  then have "all_devices sample_wifi sample_scene = [(0, 0, None), (0, 1, Some (StaWifiMac, ''00:00:00:00:00:01'')), (1, 0, Some (ApWifiMac, ''00:00:00:00:00:02''))]"
    by (simp add: all_devices_def sample_wifi_def)
  then show "wm_stations (scan_nodes sample_wifi sample_scene new_wifi_monitor) = [((0, 1), 0)]"
    "wm_access_points (scan_nodes sample_wifi sample_scene new_wifi_monitor) = [(''00:00:00:00:00:02'', 1)]"
    by (simp_all add: scan_nodes_def new_wifi_monitor_def scan_wifi_device_def)
qed

theorem wifi_links_follow_witness:
  "\<exists>m'. wifi_periodic_update sample_scene (\<lambda>_. (True, ''00:00:00:00:00:02'')) (scan_nodes sample_wifi sample_scene new_wifi_monitor) = (m', Inr ())
     \<and> wf_node2 (wm_links m' ! 0) = Some 1 \<and> 0 \<in> set (wm_node_links m' 1)"
proof -
  let ?m = "scan_nodes sample_wifi sample_scene new_wifi_monitor"
  have "wifi_step\<^sup>*\<^sup>* new_wifi_monitor ?m" by (rule r_into_rtranclp) (rule wifi_step.scan)
  from wifi_links_follow [OF this, of sample_scene "\<lambda>_. (True, ''00:00:00:00:00:02'')"] show ?thesis
    by (auto simp: sample_scan known_station_def associated_ap_def has_key_def)
qed

text \<open>A periodic update stops at the first station with an unknown BSSID: the links of the stations after it keep what they had.\<close>

lemma unknown_bssid_stops:
  assumes "wifi_step\<^sup>*\<^sup>* new_wifi_monitor m" and "wm_stations m = xs @ (s, k) # ys" and "\<not> known_station station m s"
  shows "\<exists>m'. wifi_periodic_update sc station m = (m', Inl KeyError) \<and> (\<forall>(s', k') \<in> set ys. wf_node2 (wm_links m' ! k') = wf_node2 (wm_links m ! k'))"
proof -
  have inv: "wifi_inv m" by (rule wifi_reachable_inv [OF assms(1)])
  have d: "distinct (map snd (wm_stations m))" and len: "\<forall>(s, k) \<in> set (wm_stations m). k < length (wm_links m)"
    using inv by (auto simp: wifi_inv_def)
  have loop: "wifi_update_loop sc station (xs @ (s, k) # ys) m = wifi_update_loop sc station (xs @ [(s, k)]) m" if "\<not> known_station station m s" "wifi_inv m" "set xs \<subseteq> set (wm_stations m)" for m xs
    using that
  proof (induction xs arbitrary: m)
    case (Cons x xs)
    obtain s1 k1 where x: "x = (s1, k1)" by (cases x)
    show ?case
    proof (cases "known_station station m s1")
      case True
      have "k1 \<in> snd ` set (wm_stations m)" using Cons.prems(3) x by force
      from set_ap_result [OF Cons.prems(2) this associated_ap_member, of sc station s1] obtain m1
        where m1: "set_ap sc (associated_ap station m s1) k1 m = Inr m1" "wifi_inv m1" "same_scan m m1" unfolding same_scan_def by blast
      then have "wm_stations m1 = wm_stations m" by (simp add: same_scan_def)
      then show ?thesis using Cons.IH [of m1] Cons.prems m1 True same_scan_known [OF m1(3), of station] by (simp add: x station_ap_cases)
    qed (simp add: x station_ap_cases)
  qed (simp add: station_ap_cases)
  have sub: "set (xs @ [(s, k)]) \<subseteq> set (wm_stations m)" "distinct (map snd (xs @ [(s, k)]))" using assms(2) d by auto
  from update_loop_result [OF inv sub, of sc station] obtain m' where
    m': "wifi_update_loop sc station (xs @ [(s, k)]) m = (m', Inl KeyError)"
    "\<forall>j < length (wm_links m). j \<notin> snd ` set (xs @ [(s, k)]) \<longrightarrow> wf_node2 (wm_links m' ! j) = wf_node2 (wm_links m ! j)"
    using assms(3) by auto
  have "k' \<notin> snd ` set (xs @ [(s, k)])" "k' < length (wm_links m)" if "(s', k') \<in> set ys" for s' k'
  proof -
    have "k' \<in> snd ` set ys" using that by force
    then show "k' \<notin> snd ` set (xs @ [(s, k)])" "k' < length (wm_links m)" using d len that by (auto simp: assms(2))
  qed
  then show ?thesis using m' loop [OF assms(3) inv, of xs] assms(2) unfolding wifi_periodic_update_def by fastforce
qed

text \<open>The link of a station is not in the list of the station's node, so moving that node does not draw it again.\<close>

lemma station_moved_not_drawn:
  assumes "wifi_step\<^sup>*\<^sup>* new_wifi_monitor m" and "(s, k) \<in> set (wm_stations m)" and "wf_node2 (wm_links m ! k) \<noteq> Some (fst s)"
    and "wifi_node_moved sc (fst s) m = Inr m'"
  shows "wm_links m' ! k = wm_links m ! k"
proof -
  have inv: "wifi_inv m" by (rule wifi_reachable_inv [OF assms(1)])
  have b: "j < length (wm_links m)" if "j \<in> set (wm_node_links m (fst s))" for j using inv that by (auto simp: wifi_inv_def)
  have "k \<notin> set (wm_node_links m (fst s))" using wifi_links_member [OF inv assms(2)] assms(3) by simp
  moreover have "k < length (wm_links m)" using live_link(1) [OF inv, of k] assms(2) by force
  ultimately show ?thesis using points_fold [OF inv, of "wm_node_links m (fst s)" "\<lambda>k. k" sc] b assms(4) by (auto simp: wifi_node_moved_def)
qed

end
