(* ===== verification/Viz_Hud.thy ===== *)
theory Viz_Hud
  imports Viz_Base Complex_Main
begin

text \<open>
  The axes of the visualizer, \<^verbatim>\<open>src/visualizer/visualizer/hud.py\<close>: the choice of a division, the loops that draw the
  ticks and their labels, labels that are used again.  Floats are real numbers; paths are lists of
  lines and the text of a label is the number it shows.
\<close>

section \<open>Divisions\<close>

definition rint :: "real \<Rightarrow> int" where
  "rint x = \<lfloor>x + 1 / 2\<rfloor>"

definition py_trunc :: "real \<Rightarrow> int" where
  "py_trunc x = (if 0 \<le> x then \<lfloor>x\<rfloor> else \<lceil>x\<rceil>)"

text \<open>The body of the loop, with the variables \<open>x0\<close>, \<open>div\<close> and \<open>ndiv\<close> it sets.\<close>

definition division_step :: "real \<Rightarrow> real \<Rightarrow> real \<Rightarrow> real \<Rightarrow> nat \<Rightarrow> real \<times> real \<times> int \<Rightarrow> real \<times> real \<times> int" where
  "division_step dx_over_ndiv xi size_x text_width n = (\<lambda>(x0, d, ndiv).
     let tbe = log 10 dx_over_ndiv;
         d = power_int 10 (rint tbe);
         d = (if \<bar>d / 2 - dx_over_ndiv\<bar> < \<bar>d - dx_over_ndiv\<bar> then d / 2
              else if \<bar>d * 2 - dx_over_ndiv\<bar> < \<bar>d - dx_over_ndiv\<bar> then d * 2 else d);
         x0 = d * of_int \<lceil>xi / d\<rceil> - d
     in (x0, d, if n > 1 then rint (size_x / text_width) else ndiv))"

definition compute_divisions :: "real \<Rightarrow> real \<Rightarrow> (real \<times> real) res" where
  "compute_divisions xi xf =
     (if \<not> xf > xi then Inl AssertionError
      else let dx = xf - xi; ndiv = 5; text_width = dx / of_int ndiv / 2; dx_over_ndiv = dx / of_int ndiv;
               (x0, d, _) = fold (division_step dx_over_ndiv xi dx text_width) [0..<5] (0, 0, ndiv)
           in Inr (x0, d))"

section \<open>Drawing\<close>

record axis_label =
  al_visible :: bool
  al_font :: int
  al_value :: real
  al_at :: "real \<times> real"

type_synonym line = "(real \<times> real) \<times> (real \<times> real)"

record axes =
  ax_visible :: bool
  ax_lines_visible :: bool
  ax_labels :: "axis_label list"
  ax_hlines :: "line list"
  ax_vlines :: "line list"
  ax_line_width :: "real \<times> real"

definition fresh_label :: axis_label where
  "fresh_label = \<lparr>al_visible = True, al_font = 0, al_value = 0, al_at = (0, 0)\<rparr>"

definition hide_label :: "axis_label \<Rightarrow> axis_label" where
  "hide_label l = l\<lparr>al_visible := False\<rparr>"

definition set_visible :: "bool \<Rightarrow> axes \<Rightarrow> axes" where
  "set_visible v ax =
     (let ax = ax\<lparr>ax_visible := v, ax_lines_visible := v\<rparr>
      in if v then ax else ax\<lparr>ax_labels := map hide_label (ax_labels ax)\<rparr>)"

text \<open>The first unused label, or a new one.\<close>

definition get_label :: "axis_label list \<Rightarrow> axis_label \<times> axis_label list" where
  "get_label unused_labels = (case unused_labels of [] \<Rightarrow> (fresh_label, []) | l # ls \<Rightarrow> (l\<lparr>al_visible := True\<rparr>, ls))"

text \<open>The loop along one axis; \<open>place\<close> gives the line of a tick and the position of its label.\<close>

partial_function (option) axis_loop ::
  "(real \<Rightarrow> line \<times> (real \<times> real)) \<Rightarrow> int \<Rightarrow> real \<Rightarrow> real \<Rightarrow> real \<Rightarrow> axis_label list \<Rightarrow> axis_label list \<Rightarrow> line list
     \<Rightarrow> (axis_label list \<times> axis_label list \<times> line list) option" where
  "axis_loop place font x d limit labels unused_labels path =
     (if x < limit
      then let (label, rest) = get_label unused_labels; (tick, pos) = place x
           in axis_loop place font (x + d) d limit (labels @ [label\<lparr>al_font := font, al_value := x, al_at := pos\<rparr>]) rest (path @ [tick])
      else Some (labels, unused_labels, path))"

definition PIXELS :: real where
  "PIXELS = of_rat PIXELS_PER_METER"

definition draw_axis :: "(real \<Rightarrow> line \<times> (real \<times> real)) \<Rightarrow> int \<Rightarrow> real \<Rightarrow> real \<Rightarrow> line \<Rightarrow> axis_label list \<Rightarrow> axis_label list
    \<Rightarrow> (axis_label list \<times> axis_label list \<times> line list) res option" where
  "draw_axis place font c1 c2 base labels unused_labels = (case compute_divisions (c1 / PIXELS) (c2 / PIXELS) of
     Inl e \<Rightarrow> Some (Inl e)
   | Inr (x0, d) \<Rightarrow> map_option Inr (axis_loop place font x0 d (c2 / PIXELS) labels unused_labels [base]))"

text \<open>
  The whole update, given the zoom and two corners of the window on the canvas.  An exception leaves the field \<open>labels\<close>
  with the labels drawn so far; a loop that does not end is \<open>None\<close>.
\<close>

definition hud_update_view :: "real option \<Rightarrow> real \<times> real \<Rightarrow> real \<times> real \<Rightarrow> axes \<Rightarrow> (axes \<times> unit res) option" where
  "hud_update_view zoom p1 p2 ax = (case zoom of
     None \<Rightarrow> Some (ax, Inr ())
   | Some z \<Rightarrow>
       let unused_labels = map hide_label (ax_labels ax); ax = ax\<lparr>ax_labels := []\<rparr>
       in if z = 0 then Some (ax, Inl ZeroDivisionError)
       else let offset = 10 / z; line_width = 5 / z; font = py_trunc (12 / z); (x1, y1) = p1; (x2, y2) = p2;
                ax = ax\<lparr>ax_line_width := (line_width, snd (ax_line_width ax))\<rparr>;
                yc = y2 - line_width / 2; xc = x1 + line_width / 2
       in case draw_axis (\<lambda>x. (((PIXELS * x, yc - offset), (PIXELS * x, yc)), (PIXELS * x, yc - offset))) font x1 x2 ((x1, yc), (x2, yc)) [] unused_labels of
            None \<Rightarrow> None
          | Some (Inl e) \<Rightarrow> Some (ax, Inl e)
          | Some (Inr (labels, unused_labels, path)) \<Rightarrow>
              let ax = ax\<lparr>ax_labels := labels, ax_hlines := path, ax_line_width := (line_width, line_width)\<rparr>
              in case draw_axis (\<lambda>y. (((xc, PIXELS * y), (xc + offset, PIXELS * y)), (xc + offset, PIXELS * y))) font y1 y2 ((xc, y1), (xc, y2)) labels unused_labels of
                   None \<Rightarrow> None
                 | Some (Inl e) \<Rightarrow> Some (ax, Inl e)
                 | Some (Inr (labels, unused_labels, path)) \<Rightarrow>
                     Some (ax\<lparr>ax_labels := labels @ unused_labels, ax_vlines := path\<rparr>, Inr ()))"

text \<open>The handler of the four signals of the scroll bars.\<close>

definition hud_update :: "real option \<Rightarrow> real \<times> real \<Rightarrow> real \<times> real \<Rightarrow> axes \<Rightarrow> (axes \<times> unit res) option" where
  "hud_update zoom p1 p2 ax = (if ax_visible ax then hud_update_view zoom p1 p2 ax else Some (ax, Inr ()))"

section \<open>The chosen division\<close>

text \<open>Nothing the loop changes is read by it, so its five rounds are one.\<close>

lemma divisions_once:
  "fold (division_step s xi w t) [0..<5] (a, b, c) = division_step s xi w t 4 (a, b, c)"
  by (simp add: upt_rec division_step_def Let_def)

text \<open>The division closest to \<open>s\<close> among a half, one and two times the power of ten closest to \<open>s\<close>.\<close>

definition division :: "real \<Rightarrow> real" where
  "division s = (let d = power_int 10 (rint (log 10 s))
     in if \<bar>d / 2 - s\<bar> < \<bar>d - s\<bar> then d / 2 else if \<bar>d * 2 - s\<bar> < \<bar>d - s\<bar> then d * 2 else d)"

lemma compute_divisions_eq:
  "xi < xf \<Longrightarrow> compute_divisions xi xf = (let d = division ((xf - xi) / 5) in Inr (d * of_int \<lceil>xi / d\<rceil> - d, d))"
  unfolding compute_divisions_def divisions_once by (simp add: division_step_def division_def Let_def)

lemma power_near:
  assumes "0 < s"
  shows "0 < (power_int 10 (rint (log 10 s)) :: real)" and "(power_int 10 (rint (log 10 s)))\<^sup>2 \<le> 10 * s\<^sup>2" and "s\<^sup>2 < 10 * (power_int 10 (rint (log 10 s)))\<^sup>2"
proof -
  let ?n = "rint (log 10 s)"
  have p: "power_int 10 ?n = 10 powr (of_int ?n :: real)" by (simp add: powr_real_of_int')
  have n: "of_int ?n \<le> log 10 s + 1 / 2" "log 10 s < of_int ?n + 1 / 2" unfolding rint_def by linarith+
  have s2: "s\<^sup>2 = 10 powr (2 * log 10 s)" 
  proof -
    have "10 powr (2 * log 10 s) = 10 powr log 10 s * 10 powr log 10 s" by (simp flip: powr_add)
    then show ?thesis using assms by (simp add: power2_eq_square)
  qed
  have d2: "(power_int 10 ?n)\<^sup>2 = 10 powr (2 * of_int ?n :: real)" unfolding p power2_eq_square by (simp flip: powr_add)
  have ten: "10 * 10 powr x = 10 powr (x + 1)" for x :: real by (simp add: powr_add)
  show "0 < (power_int 10 ?n :: real)" by simp
  show "(power_int 10 ?n)\<^sup>2 \<le> 10 * s\<^sup>2" unfolding s2 d2 ten using n(1) by simp
  show "s\<^sup>2 < 10 * (power_int 10 ?n)\<^sup>2" unfolding s2 d2 ten using n(2) by simp
qed

lemma division_bounds:
  assumes "0 < s"
  shows "0 < division s" and "3 * division s < 5 * s" and "5 * s < 8 * division s"
proof -
  define d :: real where "d = power_int 10 (rint (log 10 s))"
  have d: "0 < d" "d\<^sup>2 \<le> 10 * s\<^sup>2" "s\<^sup>2 < 10 * d\<^sup>2" using power_near [OF assms] by (simp_all add: d_def)
  have lo: "3 * d < 10 * s"
  proof (rule power_less_imp_less_base [of _ 2])
    have "(3 * d)\<^sup>2 = 9 * d\<^sup>2" "(10 * s)\<^sup>2 = 100 * s\<^sup>2" by (simp_all add: power_mult_distrib)
    moreover have "9 * d\<^sup>2 < 10 * d\<^sup>2" using d(1) by simp
    ultimately show "(3 * d)\<^sup>2 < (10 * s)\<^sup>2" using d(2) by linarith
  qed (use assms in simp)
  have hi: "5 * s < 16 * d"
  proof (rule power_less_imp_less_base [of _ 2])
    have "(5 * s)\<^sup>2 = 25 * s\<^sup>2" "(16 * d)\<^sup>2 = 256 * d\<^sup>2" by (simp_all add: power_mult_distrib)
    moreover have "0 < d\<^sup>2" using d(1) by simp
    ultimately show "(5 * s)\<^sup>2 < (16 * d)\<^sup>2" using d(3) by linarith
  qed (use d(1) in simp)
  have c: "division s = (if \<bar>d / 2 - s\<bar> < \<bar>d - s\<bar> then d / 2 else if \<bar>d * 2 - s\<bar> < \<bar>d - s\<bar> then d * 2 else d)"
    by (simp add: division_def d_def Let_def)
  have half: "\<bar>d / 2 - s\<bar> < \<bar>d - s\<bar> \<longleftrightarrow> 4 * s < 3 * d" using d(1) by linarith
  have double: "\<bar>d * 2 - s\<bar> < \<bar>d - s\<bar> \<longleftrightarrow> 3 * d < 2 * s" using d(1) by linarith
  show "0 < division s" using d(1) by (simp add: c)
  show "3 * division s < 5 * s" unfolding c half double using lo d(1) by auto
  show "5 * s < 8 * division s" unfolding c half double using hi d(1) by auto
qed

text \<open>Where the ticks begin: at a multiple of the division, less than one division before the window.\<close>

lemma first_tick:
  fixes d xi :: real
  assumes "0 < d"
  defines "x0 \<equiv> d * of_int \<lceil>xi / d\<rceil> - d"
  shows "x0 < xi" and "xi \<le> x0 + d" and "\<exists>n. x0 = of_int n * d"
proof -
  define c :: real where "c = of_int \<lceil>xi / d\<rceil>"
  have "c < xi / d + 1" "xi / d \<le> c" unfolding c_def by linarith+
  then have "c * d < xi + d" "xi \<le> c * d" using assms(1) by (simp_all add: field_simps)
  then show "x0 < xi" "xi \<le> x0 + d" by (simp_all add: x0_def c_def mult.commute)
  have "x0 = of_int (\<lceil>xi / d\<rceil> - 1) * d" by (simp add: x0_def algebra_simps)
  then show "\<exists>n. x0 = of_int n * d" by blast
qed

section \<open>The loops end\<close>

text \<open>The ticks from \<open>x\<close> on.\<close>

definition tick_count :: "real \<Rightarrow> real \<Rightarrow> real \<Rightarrow> nat" where
  "tick_count x d limit = nat \<lceil>(limit - x) / d\<rceil>"

definition ticks_from :: "real \<Rightarrow> real \<Rightarrow> real \<Rightarrow> real list" where
  "ticks_from x d limit = map (\<lambda>k. x + of_nat k * d) [0..<tick_count x d limit]"

lemma tick_count_step:
  assumes "0 < d"
  shows "x < limit \<Longrightarrow> tick_count x d limit = Suc (tick_count (x + d) d limit)" and "\<not> x < limit \<Longrightarrow> tick_count x d limit = 0"
proof -
  have "(limit - (x + d)) / d = (limit - x) / d - 1" using assms by (simp add: field_simps)
  then have e: "\<lceil>(limit - (x + d)) / d\<rceil> = \<lceil>(limit - x) / d\<rceil> - 1" by simp
  { assume "x < limit"
    then have "0 < (limit - x) / d" using assms by simp
    moreover have "0 < k \<Longrightarrow> nat k = Suc (nat (k - 1))" for k by simp
    ultimately show "tick_count x d limit = Suc (tick_count (x + d) d limit)" unfolding tick_count_def e by (metis zero_less_ceiling) }
  assume "\<not> x < limit"
  then have "(limit - x) / d \<le> 0" using assms by (simp add: divide_le_0_iff)
  then show "tick_count x d limit = 0" by (simp add: tick_count_def)
qed

lemma ticks_from_step:
  assumes "0 < d"
  shows "x < limit \<Longrightarrow> ticks_from x d limit = x # ticks_from (x + d) d limit" and "\<not> x < limit \<Longrightarrow> ticks_from x d limit = []"
proof -
  assume "x < limit"
  then have "[0..<tick_count x d limit] = 0 # map Suc [0..<tick_count (x + d) d limit]"
    using tick_count_step(1) [OF assms] by (simp add: upt_conv_Cons map_Suc_upt del: upt_Suc)
  then show "ticks_from x d limit = x # ticks_from (x + d) d limit" by (simp add: ticks_from_def algebra_simps)
qed (simp add: ticks_from_def tick_count_step(2) [OF assms])

lemma axis_loop_result:
  assumes "0 < d"
  shows "\<exists>drawn. axis_loop place font x d limit labels unused path
      = Some (labels @ drawn, drop (length (ticks_from x d limit)) unused, path @ map (fst \<circ> place) (ticks_from x d limit))
    \<and> list_all al_visible drawn \<and> map al_value drawn = ticks_from x d limit \<and> map al_at drawn = map (snd \<circ> place) (ticks_from x d limit)"
proof (induction "tick_count x d limit" arbitrary: x labels unused path)
  case 0
  then have "\<not> x < limit" using tick_count_step(1) [OF assms, of x limit] by auto
  then show ?case using ticks_from_step(2) [OF assms] by (simp add: axis_loop.simps)
next
  case (Suc n)
  then have x: "x < limit" using tick_count_step(2) [OF assms, of x limit] by fastforce
  then have n: "n = tick_count (x + d) d limit" using Suc.hyps(2) tick_count_step(1) [OF assms] by simp
  obtain l rest where l: "get_label unused = (l, rest)" by fastforce
  have lr: "al_visible l" "rest = drop 1 unused" using l by (auto simp: get_label_def fresh_label_def split: list.splits)
  let ?l = "l\<lparr>al_font := font, al_value := x, al_at := snd (place x)\<rparr>"
  from Suc.hyps(1) [OF n, of "labels @ [?l]" rest "path @ [fst (place x)]"] obtain drawn where
    r: "axis_loop place font (x + d) d limit (labels @ [?l]) rest (path @ [fst (place x)])
      = Some ((labels @ [?l]) @ drawn, drop (length (ticks_from (x + d) d limit)) rest, (path @ [fst (place x)]) @ map (fst \<circ> place) (ticks_from (x + d) d limit))"
    "list_all al_visible drawn" "map al_value drawn = ticks_from (x + d) d limit" "map al_at drawn = map (snd \<circ> place) (ticks_from (x + d) d limit)"
    by blast
  have "axis_loop place font x d limit labels unused path = axis_loop place font (x + d) d limit (labels @ [?l]) rest (path @ [fst (place x)])"
    using x l by (subst axis_loop.simps) (simp add: split_def Let_def)
  then show ?case using r lr ticks_from_step(1) [OF assms x] by (intro exI [of _ "?l # drawn"]) simp
qed

text \<open>The first tick and the division for a window.\<close>

definition window_ticks :: "real \<Rightarrow> real \<Rightarrow> real list" where
  "window_ticks xi xf = (let d = division ((xf - xi) / 5) in ticks_from (d * of_int \<lceil>xi / d\<rceil> - d) d xf)"

lemma window_ticks_count:
  assumes "xi < xf"
  shows "4 \<le> length (window_ticks xi xf) \<and> length (window_ticks xi xf) \<le> 9"
proof -
  define d where "d = division ((xf - xi) / 5)"
  define x0 where "x0 = d * of_int \<lceil>xi / d\<rceil> - d"
  have d: "0 < d" "3 * d < xf - xi" "xf - xi < 8 * d" using division_bounds [of "(xf - xi) / 5"] assms by (simp_all add: d_def)
  have x0: "x0 < xi" "xi \<le> x0 + d" using first_tick(1,2) [OF d(1), of xi] by (simp_all add: x0_def)
  have "3 < (xf - x0) / d" "(xf - x0) / d < 9" using d x0 by (simp_all add: pos_less_divide_eq pos_divide_less_eq)
  then have "4 \<le> \<lceil>(xf - x0) / d\<rceil>" "\<lceil>(xf - x0) / d\<rceil> \<le> 9" by linarith+
  then have "4 \<le> nat \<lceil>(xf - x0) / d\<rceil>" "nat \<lceil>(xf - x0) / d\<rceil> \<le> 9" by linarith+
  moreover have "length (window_ticks xi xf) = nat \<lceil>(xf - x0) / d\<rceil>"
    by (simp add: window_ticks_def ticks_from_def tick_count_def d_def x0_def Let_def)
  ultimately show ?thesis by simp
qed

lemma ticks_from_member:
  assumes "0 < d"
  shows "y \<in> set (ticks_from x d limit) \<longleftrightarrow> (\<exists>k::nat. y = x + of_nat k * d \<and> y < limit)"
proof -
  have "k < tick_count x d limit \<longleftrightarrow> x + of_nat k * d < limit" for k
  proof -
    have "k < tick_count x d limit \<longleftrightarrow> of_int (int k) < (limit - x) / d" unfolding tick_count_def less_ceiling_iff [symmetric] by (rule zless_nat_eq_int_zless)
    also have "\<dots> \<longleftrightarrow> x + of_nat k * d < limit" using assms by (simp add: pos_less_divide_eq algebra_simps)
    finally show ?thesis .
  qed
  then have "y \<in> set (ticks_from x d limit) \<longleftrightarrow> (\<exists>k::nat. x + of_nat k * d < limit \<and> y = x + of_nat k * d)"
    unfolding ticks_from_def set_map set_upt image_iff Bex_def atLeastLessThan_iff by simp
  then show ?thesis by blast
qed

text \<open>The ticks are at the multiples of the division from one division before the window to its end.\<close>

lemma window_ticks_set:
  assumes "xi < xf"
  defines "d \<equiv> division ((xf - xi) / 5)"
  shows "y \<in> set (window_ticks xi xf) \<longleftrightarrow> (\<exists>n. y = of_int n * d) \<and> xi - d \<le> y \<and> y < xf"
proof -
  have d: "0 < d" using division_bounds(1) assms by simp
  define m where "m = \<lceil>xi / d\<rceil> - 1"
  have x0: "d * of_int \<lceil>xi / d\<rceil> - d = of_int m * d" by (simp add: m_def algebra_simps)
  have "m \<le> n \<longleftrightarrow> xi - d \<le> of_int n * d" for n
  proof -
    have "m \<le> n \<longleftrightarrow> xi / d \<le> of_int (n + 1)" unfolding m_def ceiling_le_iff [symmetric] by linarith
    also have "\<dots> \<longleftrightarrow> xi - d \<le> of_int n * d" using d by (simp add: pos_divide_le_eq algebra_simps)
    finally show ?thesis .
  qed
  moreover have "(\<exists>k::nat. y = of_int m * d + of_nat k * d) \<longleftrightarrow> (\<exists>n. y = of_int n * d \<and> m \<le> n)"
  proof
    assume "\<exists>k::nat. y = of_int m * d + of_nat k * d"
    then obtain k :: nat where "y = of_int (m + int k) * d" by (auto simp: algebra_simps)
    then show "\<exists>n. y = of_int n * d \<and> m \<le> n" by (intro exI [of _ "m + int k"]) simp
  next
    assume "\<exists>n. y = of_int n * d \<and> m \<le> n"
    then obtain n where "y = of_int n * d" "m \<le> n" by blast
    then show "\<exists>k::nat. y = of_int m * d + of_nat k * d" by (intro exI [of _ "nat (n - m)"]) (simp add: algebra_simps)
  qed
  ultimately show ?thesis unfolding window_ticks_def Let_def d_def [symmetric] x0 ticks_from_member [OF d] by auto
qed

lemma draw_axis_result:
  assumes "c1 < c2"
  shows "\<exists>drawn. draw_axis place font c1 c2 base labels unused
      = Some (Inr (labels @ drawn, drop (length drawn) unused, base # map (fst \<circ> place) (window_ticks (c1 / PIXELS) (c2 / PIXELS))))
    \<and> list_all al_visible drawn \<and> map al_value drawn = window_ticks (c1 / PIXELS) (c2 / PIXELS)
    \<and> map al_at drawn = map (snd \<circ> place) (window_ticks (c1 / PIXELS) (c2 / PIXELS))"
proof -
  let ?xi = "c1 / PIXELS" and ?xf = "c2 / PIXELS"
  have P: "0 < PIXELS" by (simp add: PIXELS_def PIXELS_PER_METER_def)
  have lt: "?xi < ?xf" using assms P by (simp add: divide_strict_right_mono)
  have d: "0 < division ((?xf - ?xi) / 5)" using division_bounds(1) lt by simp
  from axis_loop_result [OF d, of place font "division ((?xf - ?xi) / 5) * of_int \<lceil>?xi / division ((?xf - ?xi) / 5)\<rceil> - division ((?xf - ?xi) / 5)" ?xf labels unused "[base]"]
  obtain drawn where r: "axis_loop place font (division ((?xf - ?xi) / 5) * of_int \<lceil>?xi / division ((?xf - ?xi) / 5)\<rceil> - division ((?xf - ?xi) / 5)) (division ((?xf - ?xi) / 5)) ?xf labels unused [base]
      = Some (labels @ drawn, drop (length (window_ticks ?xi ?xf)) unused, [base] @ map (fst \<circ> place) (window_ticks ?xi ?xf))"
    "list_all al_visible drawn" "map al_value drawn = window_ticks ?xi ?xf" "map al_at drawn = map (snd \<circ> place) (window_ticks ?xi ?xf)"
    unfolding window_ticks_def Let_def by blast
  have "length (window_ticks ?xi ?xf) = length drawn" using arg_cong [OF r(3), of length] by simp
  then show ?thesis using r compute_divisions_eq [OF lt] by (auto simp: draw_axis_def Let_def)
qed


text \<open>
  C28: \<open>Axes.update_view\<close> on a window of some size: its loops end and nothing is raised.  Exactly one label is visible for
  each tick of the two axes, with the value and place of the tick; the ticks of an axis are at the multiples of its division from one
  division before the window to its end, and there are at least four and at most nine of them.  Labels of the last time are used
  again, and those left over are hidden and kept.
\<close>

theorem hud_update_view_result:
  assumes "z \<noteq> 0" and "x1 < x2" and "y1 < y2"
  shows "\<exists>ax' drawn. hud_update_view (Some z) (x1, y1) (x2, y2) ax = Some (ax', Inr ())
    \<and> ax_labels ax' = drawn @ map hide_label (drop (length drawn) (ax_labels ax)) \<and> list_all al_visible drawn
    \<and> map al_value drawn = window_ticks (x1 / PIXELS) (x2 / PIXELS) @ window_ticks (y1 / PIXELS) (y2 / PIXELS)
    \<and> map al_at drawn = map (\<lambda>x. (PIXELS * x, y2 - 5 / z / 2 - 10 / z)) (window_ticks (x1 / PIXELS) (x2 / PIXELS))
        @ map (\<lambda>y. (x1 + 5 / z / 2 + 10 / z, PIXELS * y)) (window_ticks (y1 / PIXELS) (y2 / PIXELS))
    \<and> (\<forall>c1 c2 v. c1 < c2 \<longrightarrow> 4 \<le> length (window_ticks c1 c2) \<and> length (window_ticks c1 c2) \<le> 9
        \<and> (v \<in> set (window_ticks c1 c2) \<longleftrightarrow> (\<exists>n. v = of_int n * division ((c2 - c1) / 5)) \<and> c1 - division ((c2 - c1) / 5) \<le> v \<and> v < c2))"
proof -
  let ?font = "py_trunc (12 / z)" and ?yc = "y2 - 5 / z / 2" and ?xc = "x1 + 5 / z / 2" and ?off = "10 / z"
  let ?h = "\<lambda>x. (((PIXELS * x, ?yc - ?off), (PIXELS * x, ?yc)), (PIXELS * x, ?yc - ?off))"
  let ?v = "\<lambda>y. (((?xc, PIXELS * y), (?xc + ?off, PIXELS * y)), (?xc + ?off, PIXELS * y))"
  let ?old = "map hide_label (ax_labels ax)"
  from draw_axis_result [OF assms(2), of ?h ?font "((x1, ?yc), (x2, ?yc))" "[]" ?old] obtain hd path where
    h: "draw_axis ?h ?font x1 x2 ((x1, ?yc), (x2, ?yc)) [] ?old = Some (Inr (hd, drop (length hd) ?old, path))" "list_all al_visible hd"
      "map al_value hd = window_ticks (x1 / PIXELS) (x2 / PIXELS)" "map al_at hd = map (snd \<circ> ?h) (window_ticks (x1 / PIXELS) (x2 / PIXELS))"
    by auto
  from draw_axis_result [OF assms(3), of ?v ?font "((?xc, y1), (?xc, y2))" hd "drop (length hd) ?old"] obtain vd path' where
    v: "draw_axis ?v ?font y1 y2 ((?xc, y1), (?xc, y2)) hd (drop (length hd) ?old) = Some (Inr (hd @ vd, drop (length vd) (drop (length hd) ?old), path'))"
      "list_all al_visible vd" "map al_value vd = window_ticks (y1 / PIXELS) (y2 / PIXELS)" "map al_at vd = map (snd \<circ> ?v) (window_ticks (y1 / PIXELS) (y2 / PIXELS))"
    by auto
  have "hud_update_view (Some z) (x1, y1) (x2, y2) ax = Some (ax\<lparr>ax_labels := (hd @ vd) @ drop (length vd) (drop (length hd) ?old),
      ax_hlines := path, ax_line_width := (5 / z, 5 / z), ax_vlines := path'\<rparr>, Inr ())"
    using assms(1) h(1) v(1) by (simp add: hud_update_view_def Let_def)
  moreover have "drop (length vd) (drop (length hd) ?old) = map hide_label (drop (length (hd @ vd)) (ax_labels ax))" by (simp add: drop_map add.commute)
  moreover have "list_all al_visible (hd @ vd)" using h(2) v(2) by simp
  ultimately show ?thesis using h(3,4) v(3,4) window_ticks_count window_ticks_set by (intro exI [of _ "hd @ vd"] exI) (auto simp: comp_def)
qed

definition new_axes :: axes where
  "new_axes = \<lparr>ax_visible = True, ax_lines_visible = True, ax_labels = [], ax_hlines = [], ax_vlines = [], ax_line_width = (2, 2)\<rparr>"

theorem hud_update_view_result_witness:
  "\<exists>ax'. hud_update_view (Some 1) (0, 0) (600, 450) new_axes = Some (ax', Inr ()) \<and> 8 \<le> length (ax_labels ax') \<and> length (ax_labels ax') \<le> 18"
proof -
  have P: "0 < PIXELS" by (simp add: PIXELS_def PIXELS_PER_METER_def)
  from hud_update_view_result [of 1 0 600 0 450 new_axes] obtain ax' drawn where
    r: "hud_update_view (Some 1) (0, 0) (600, 450) new_axes = Some (ax', Inr ())" "ax_labels ax' = drawn"
    "map al_value drawn = window_ticks (0 / PIXELS) (600 / PIXELS) @ window_ticks (0 / PIXELS) (450 / PIXELS)"
    "\<forall>c1 c2. c1 < c2 \<longrightarrow> 4 \<le> length (window_ticks c1 c2) \<and> length (window_ticks c1 c2) \<le> 9"
    by (auto simp: new_axes_def)
  have "length drawn = length (window_ticks (0 / PIXELS) (600 / PIXELS)) + length (window_ticks (0 / PIXELS) (450 / PIXELS))"
    using arg_cong [OF r(3), of length] by simp
  moreover have "0 / PIXELS < 600 / PIXELS" "0 / PIXELS < 450 / PIXELS" using P by simp_all
  ultimately have "8 \<le> length drawn \<and> length drawn \<le> 18" using r(4) by (metis (no_types, opaque_lifting) add_mono numeral_Bit0)
  then show ?thesis using r(1,2) by auto
qed

text \<open>Showing the axes again shows their lines but not their labels.\<close>

lemma labels_stay_hidden:
  "list_all (\<lambda>l. \<not> al_visible l) (ax_labels (set_visible True (set_visible False ax))) \<and> ax_lines_visible (set_visible True (set_visible False ax))"
  by (simp add: set_visible_def hide_label_def list_all_iff)

text \<open>A window without width raises, and the labels there were are lost.\<close>

lemma hud_update_empty_window:
  assumes "z \<noteq> 0" and "x2 \<le> x1"
  shows "\<exists>ax'. hud_update_view (Some z) (x1, y1) (x2, y2) ax = Some (ax', Inl AssertionError) \<and> ax_labels ax' = []"
proof -
  have P: "0 < PIXELS" by (simp add: PIXELS_def PIXELS_PER_METER_def)
  then have "\<not> x1 / PIXELS < x2 / PIXELS" using assms(2) by (simp add: divide_less_cancel)
  then show ?thesis using assms(1) by (simp add: hud_update_view_def draw_axis_def compute_divisions_def Let_def)
qed

end
