(* ===== verification/Build_Modules.thy ===== *)
theory Build_Modules
  imports Py_Path
begin

text \<open>
  Which modules, programs and scripts a build has, \<^verbatim>\<open>wscript\<close> and \<^verbatim>\<open>src/wscript\<close>: the modules enabled at configuration,
  the dependencies enabled with them, the task generators taken out of the build, the lists of what can be run.
  Of waf only its environment is used, a table of lists, and the groups of task generators.
\<close>

section \<open>State\<close>

record ns3_env =
  ns3_modules :: "string list"
  ns3_contributed_modules :: "string list"
  ns3_enabled_modules :: "string list"
  ns3_enabled_contributed_modules :: "string list"
  modules_not_built :: "string list"
  modules_with_test_libraries :: "(string \<times> string) list"
  enabled_module_test_libraries :: "string list"
  script_dependencies :: "(string \<times> string list) list"
  runnable_programs :: "string list"
  runnable_scripts :: "string list"
  enable_tests :: bool
  ns3_appname_version :: string
  ns3_build_suffix :: string

abbreviation ns3_prefix :: string where "ns3_prefix \<equiv> ''ns3-''"

section \<open>Configuration\<close>

text \<open>The chain of conditions for one name, in the two lists of enabled modules.\<close>

definition enable_module :: "ns3_env \<Rightarrow> string list \<times> string list \<Rightarrow> string \<Rightarrow> string list \<times> string list" where
  "enable_module env = (\<lambda>(mods, contrib) m.
     if m \<in> set (ns3_modules env) \<and> prefix ns3_prefix m then (mods @ [m], contrib)
     else if ns3_prefix @ m \<in> set (ns3_modules env) then (mods @ [ns3_prefix @ m], contrib)
     else if m \<in> set (ns3_contributed_modules env) \<and> prefix ns3_prefix m then (mods, contrib @ [m])
     else if ns3_prefix @ m \<in> set (ns3_contributed_modules env) then (mods, contrib @ [ns3_prefix @ m])
     else (mods, contrib))"

text \<open>
  The lists of enabled modules, and whether they are the very objects that hold all modules, so that
  removing from one removes from the other.
\<close>

definition set_enabled_modules :: "string option \<Rightarrow> string list \<Rightarrow> ns3_env \<Rightarrow> (ns3_env \<times> bool) res" where
  "set_enabled_modules option_enable_modules modules_enabled env =
     (let set_lists = (\<lambda>names. let (mods, contrib) = foldl (enable_module env) ([], []) names
          in (env\<lparr>ns3_enabled_modules := mods, ns3_enabled_contributed_modules := contrib\<rparr>, False))
      in case option_enable_modules of
           Some (c # s) \<Rightarrow> Inr (set_lists (py_split (CHR '','') (c # s)))
         | _ \<Rightarrow> res_bind (py_index modules_enabled 0) (\<lambda>m.
             Inr (if m = ''all_modules''
                  then (env\<lparr>ns3_enabled_modules := ns3_modules env, ns3_enabled_contributed_modules := ns3_contributed_modules env\<rparr>, True)
                  else set_lists modules_enabled)))"

definition drop_not_built :: "bool \<Rightarrow> ns3_env \<Rightarrow> string \<Rightarrow> ns3_env res" where
  "drop_not_built shared env not_built =
     (let name = ns3_prefix @ not_built
      in if name \<in> set (ns3_enabled_modules env) then
           (let mods = remove1 name (ns3_enabled_modules env);
                env = env\<lparr>ns3_enabled_modules := mods, ns3_modules := (if shared then mods else ns3_modules env)\<rparr>
            in if mods = [] then Inl (WafError (''Exiting because the '' @ not_built @ '' module can not be built and it was the only one enabled.''))
               else Inr env)
         else if name \<in> set (ns3_enabled_contributed_modules env) then
           (let mods = remove1 name (ns3_enabled_contributed_modules env)
            in Inr (env\<lparr>ns3_enabled_contributed_modules := mods, ns3_contributed_modules := (if shared then mods else ns3_contributed_modules env)\<rparr>))
         else Inr env)"

definition configure_modules :: "string option \<Rightarrow> string list \<Rightarrow> bool \<Rightarrow> ns3_env \<Rightarrow> ns3_env res" where
  "configure_modules option_enable_modules modules_enabled static_darwin env =
     res_bind (set_enabled_modules option_enable_modules modules_enabled env) (\<lambda>(env, shared).
       let env = (if static_darwin then env\<lparr>modules_not_built := modules_not_built env @ [''template'']\<rparr> else env)
       in res_fold (drop_not_built shared) (modules_not_built env) env)"

section \<open>Dependencies\<close>

text \<open>The loop over \<open>module_obj.use\<close>; the third component is \<open>changed\<close>.\<close>

fun add_dependencies :: "ns3_env \<Rightarrow> string list \<Rightarrow> string list \<times> string list \<times> bool \<Rightarrow> (string list \<times> string list \<times> bool) res" where
  "add_dependencies env [] st = Inr st"
| "add_dependencies env (dep # deps) (mods, contrib, changed) =
     (if \<not> prefix ns3_prefix dep then add_dependencies env deps (mods, contrib, changed)
      else if dep \<notin> set mods \<and> dep \<notin> set contrib then
        (if dep \<in> set (ns3_modules env) then add_dependencies env deps (mods @ [dep], contrib, True)
         else if dep \<in> set (ns3_contributed_modules env) then add_dependencies env deps (mods, contrib @ [dep], True)
         else Inl (SystemExit 1))
      else add_dependencies env deps (mods, contrib, changed))"

text \<open>
  One round of the outer loop.  \<open>use_of\<close> is \<open>get_tgen_by_name(module).use\<close>, which raises when there is no task generator
  of that name.
\<close>

fun scan_modules :: "(string \<Rightarrow> string list res) \<Rightarrow> ns3_env \<Rightarrow> string list \<Rightarrow> string list \<times> string list \<times> bool
    \<Rightarrow> (string list \<times> string list \<times> bool) res" where
  "scan_modules use_of env [] st = Inr st"
| "scan_modules use_of env (m # ms) st =
     res_bind (use_of m) (\<lambda>use. res_bind (add_dependencies env use st) (scan_modules use_of env ms))"

text \<open>What is not enabled yet.\<close>

definition missing_modules :: "ns3_env \<Rightarrow> string list \<Rightarrow> string list \<Rightarrow> string set" where
  "missing_modules env mods contrib = (set (ns3_modules env) \<union> set (ns3_contributed_modules env)) - (set mods \<union> set contrib)"

lemma add_dependencies_grows:
  "add_dependencies env deps (mods, contrib, changed) = Inr (mods', contrib', changed') \<Longrightarrow>
     \<exists>a b. mods' = mods @ a \<and> contrib' = contrib @ b \<and> set a \<subseteq> set (ns3_modules env) \<and> set b \<subseteq> set (ns3_contributed_modules env)
       \<and> distinct (a @ b) \<and> set (a @ b) \<inter> (set mods \<union> set contrib) = {} \<and> (changed' \<longleftrightarrow> changed \<or> a @ b \<noteq> [])"
proof (induction deps arbitrary: mods contrib changed)
  case (Cons dep deps)
  show ?case
  proof (cases "prefix ns3_prefix dep \<and> dep \<notin> set mods \<and> dep \<notin> set contrib")
    case True
    show ?thesis
    proof (cases "dep \<in> set (ns3_modules env)")
      case m: True
      then have "add_dependencies env deps (mods @ [dep], contrib, True) = Inr (mods', contrib', changed')" using Cons.prems True by simp
      from Cons.IH [OF this] obtain a b where "mods' = (mods @ [dep]) @ a" "contrib' = contrib @ b" "set a \<subseteq> set (ns3_modules env)"
        "set b \<subseteq> set (ns3_contributed_modules env)" "distinct (a @ b)" "set (a @ b) \<inter> (set (mods @ [dep]) \<union> set contrib) = {}" "changed'" by blast
      then show ?thesis using m True by (intro exI [of _ "dep # a"] exI [of _ b]) auto
    next
      case False
      then have m: "dep \<in> set (ns3_contributed_modules env)" using Cons.prems True by (auto split: if_splits)
      then have "add_dependencies env deps (mods, contrib @ [dep], True) = Inr (mods', contrib', changed')" using Cons.prems True False by simp
      from Cons.IH [OF this] obtain a b where "mods' = mods @ a" "contrib' = (contrib @ [dep]) @ b" "set a \<subseteq> set (ns3_modules env)"
        "set b \<subseteq> set (ns3_contributed_modules env)" "distinct (a @ b)" "set (a @ b) \<inter> (set mods \<union> set (contrib @ [dep])) = {}" "changed'" by blast
      then show ?thesis using m True by (intro exI [of _ a] exI [of _ "dep # b"]) auto
    qed
  next
    case False
    then have "add_dependencies env deps (mods, contrib, changed) = Inr (mods', contrib', changed')" using Cons.prems by (auto split: if_splits)
    from Cons.IH [OF this] show ?thesis .
  qed
qed simp

lemma extension_trans:
  assumes "mods1 = mods @ a" "contrib1 = contrib @ b" "set a \<subseteq> A" "set b \<subseteq> B" "distinct (a @ b)" "set (a @ b) \<inter> (set mods \<union> set contrib) = {}"
    and "mods2 = mods1 @ a'" "contrib2 = contrib1 @ b'" "set a' \<subseteq> A" "set b' \<subseteq> B" "distinct (a' @ b')" "set (a' @ b') \<inter> (set mods1 \<union> set contrib1) = {}"
  shows "mods2 = mods @ (a @ a') \<and> contrib2 = contrib @ (b @ b') \<and> set (a @ a') \<subseteq> A \<and> set (b @ b') \<subseteq> B
    \<and> distinct ((a @ a') @ (b @ b')) \<and> set ((a @ a') @ (b @ b')) \<inter> (set mods \<union> set contrib) = {}"
proof -
  have new: "set (a' @ b') \<inter> set (a @ b) = {}" "set (a' @ b') \<inter> (set mods \<union> set contrib) = {}" using assms(12) unfolding assms(1,2) by auto
  have "distinct ((a @ a') @ (b @ b'))" using assms(5,11) new(1) by (simp add: Int_Un_distrib Int_Un_distrib2) (simp add: Int_commute)
  moreover have "set ((a @ a') @ (b @ b')) \<inter> (set mods \<union> set contrib) = {}" using assms(6) new(2) by (simp add: Int_Un_distrib2)
  ultimately show ?thesis using assms(1-4,7-10) by simp
qed

lemma scan_modules_grows:
  "scan_modules use_of env ms (mods, contrib, changed) = Inr (mods', contrib', changed') \<Longrightarrow>
     \<exists>a b. mods' = mods @ a \<and> contrib' = contrib @ b \<and> set a \<subseteq> set (ns3_modules env) \<and> set b \<subseteq> set (ns3_contributed_modules env)
       \<and> distinct (a @ b) \<and> set (a @ b) \<inter> (set mods \<union> set contrib) = {} \<and> (changed' \<longleftrightarrow> changed \<or> a @ b \<noteq> [])"
proof (induction ms arbitrary: mods contrib changed)
  case (Cons m ms)
  obtain use mods1 contrib1 c1 where "use_of m = Inr use" and s: "add_dependencies env use (mods, contrib, changed) = Inr (mods1, contrib1, c1)"
    and r: "scan_modules use_of env ms (mods1, contrib1, c1) = Inr (mods', contrib', changed')"
    using Cons.prems by (auto simp: res_bind_eq_Inr)
  obtain a b where ab: "mods1 = mods @ a" "contrib1 = contrib @ b" "set a \<subseteq> set (ns3_modules env)" "set b \<subseteq> set (ns3_contributed_modules env)"
    "distinct (a @ b)" "set (a @ b) \<inter> (set mods \<union> set contrib) = {}" "c1 \<longleftrightarrow> changed \<or> a @ b \<noteq> []"
    using add_dependencies_grows [OF s] by blast
  from Cons.IH [OF r] obtain a' b' where ab': "mods' = mods1 @ a'" "contrib' = contrib1 @ b'" "set a' \<subseteq> set (ns3_modules env)" "set b' \<subseteq> set (ns3_contributed_modules env)"
    "distinct (a' @ b')" "set (a' @ b') \<inter> (set mods1 \<union> set contrib1) = {}" "changed' \<longleftrightarrow> c1 \<or> a' @ b' \<noteq> []" by blast
  have "changed' \<longleftrightarrow> changed \<or> (a @ a') @ (b @ b') \<noteq> []" using ab(7) ab'(7) by auto
  then show ?case using extension_trans [OF ab(1-6) ab'(1-6)] by blast
qed simp

function enable_dependencies :: "(string \<Rightarrow> string list res) \<Rightarrow> ns3_env \<Rightarrow> string list \<Rightarrow> string list \<Rightarrow> (string list \<times> string list) res" where
  "enable_dependencies use_of env mods contrib =
     (case scan_modules use_of env (mods @ contrib) (mods, contrib, False) of
        Inl e \<Rightarrow> Inl e
      | Inr (mods', contrib', changed) \<Rightarrow>
          if changed then enable_dependencies use_of env mods' contrib' else Inr (mods', contrib'))"
  by pat_completeness auto

termination
proof (relation "measure (\<lambda>(_, env, mods, contrib). card (missing_modules env mods contrib))", simp)
  fix use_of env mods contrib p mods' q contrib' changed
  assume s: "scan_modules use_of env (mods @ contrib) (mods, contrib, False) = Inr p" "(mods', q) = p" "(contrib', changed) = q" "changed"
  then have "scan_modules use_of env (mods @ contrib) (mods, contrib, False) = Inr (mods', contrib', True)" by simp
  from scan_modules_grows [OF this] obtain a b where "mods' = mods @ a" "contrib' = contrib @ b" "set a \<subseteq> set (ns3_modules env)"
    "set b \<subseteq> set (ns3_contributed_modules env)" "set (a @ b) \<inter> (set mods \<union> set contrib) = {}" "a @ b \<noteq> []" by blast
  then have "missing_modules env mods' contrib' \<subset> missing_modules env mods contrib" by (cases a; cases b) (auto simp: missing_modules_def)
  then show "((use_of, env, mods', contrib'), use_of, env, mods, contrib) \<in> measure (\<lambda>(_, env, mods, contrib). card (missing_modules env mods contrib))"
    by (simp add: psubset_card_mono missing_modules_def)
qed

declare enable_dependencies.simps [simp del]

section \<open>The dependencies are closed\<close>

text \<open>The modules that given ones need, themselves included.\<close>

inductive needed :: "(string \<Rightarrow> string list res) \<Rightarrow> string set \<Rightarrow> string \<Rightarrow> bool" for use_of S where
  enabled: "m \<in> S \<Longrightarrow> needed use_of S m"
| dependency: "needed use_of S m \<Longrightarrow> use_of m = Inr use \<Longrightarrow> d \<in> set use \<Longrightarrow> prefix ns3_prefix d \<Longrightarrow> needed use_of S d"

lemma needed_mono: "needed use_of S m \<Longrightarrow> S \<subseteq> T \<Longrightarrow> needed use_of T m"
  by (induction rule: needed.induct) (auto intro: needed.intros)

lemma needed_extend:
  assumes "\<And>x. x \<in> T \<Longrightarrow> needed use_of S x"
  shows "needed use_of (S \<union> T) = needed use_of S"
proof (rule ext, rule iffI)
  fix m
  show "needed use_of (S \<union> T) m \<Longrightarrow> needed use_of S m"
    by (induction rule: needed.induct) (auto intro: needed.intros assms)
qed (auto intro: needed_mono)

lemma add_dependencies_result:
  "add_dependencies env deps (mods, contrib, changed) = Inr (mods', contrib', changed') \<Longrightarrow>
     set mods' \<union> set contrib' = set mods \<union> set contrib \<union> {d \<in> set deps. prefix ns3_prefix d}"
proof (induction deps arbitrary: mods contrib changed)
  case (Cons dep deps)
  show ?case
  proof (cases "prefix ns3_prefix dep \<and> dep \<notin> set mods \<and> dep \<notin> set contrib")
    case True
    then show ?thesis using Cons by (auto split: if_splits)
  next
    case False
    then have "add_dependencies env deps (mods, contrib, changed) = Inr (mods', contrib', changed')" using Cons.prems by (auto split: if_splits)
    from Cons.IH [OF this] show ?thesis using False by auto
  qed
qed simp

lemma scan_modules_result:
  "scan_modules use_of env ms (mods, contrib, changed) = Inr (mods', contrib', changed') \<Longrightarrow>
     (\<forall>m \<in> set ms. \<exists>use. use_of m = Inr use)
     \<and> set mods' \<union> set contrib' = set mods \<union> set contrib \<union> {d. \<exists>m \<in> set ms. \<exists>use. use_of m = Inr use \<and> d \<in> set use \<and> prefix ns3_prefix d}"
proof (induction ms arbitrary: mods contrib changed)
  case (Cons m ms)
  obtain use mods1 contrib1 c1 where u: "use_of m = Inr use" and s: "add_dependencies env use (mods, contrib, changed) = Inr (mods1, contrib1, c1)"
    and r: "scan_modules use_of env ms (mods1, contrib1, c1) = Inr (mods', contrib', changed')"
    using Cons.prems by (auto simp: res_bind_eq_Inr)
  from Cons.IH [OF r] add_dependencies_result [OF s] u show ?case by auto
qed simp

lemma add_dependencies_fails:
  "add_dependencies env deps (mods, contrib, changed) = Inl e \<Longrightarrow>
     e = SystemExit 1 \<and> (\<exists>d \<in> set deps. prefix ns3_prefix d \<and> d \<notin> set mods \<union> set contrib \<union> set (ns3_modules env) \<union> set (ns3_contributed_modules env))"
proof (induction deps arbitrary: mods contrib changed)
  case (Cons dep deps)
  show ?case
  proof (cases "prefix ns3_prefix dep \<and> dep \<notin> set mods \<and> dep \<notin> set contrib")
    case True
    then show ?thesis using Cons.prems Cons.IH by (fastforce split: if_splits)
  next
    case False
    then have "add_dependencies env deps (mods, contrib, changed) = Inl e" using Cons.prems by (auto split: if_splits)
    from Cons.IH [OF this] show ?thesis by auto
  qed
qed simp

lemma scan_modules_fails:
  "scan_modules use_of env ms (mods, contrib, changed) = Inl e \<Longrightarrow>
     \<exists>m \<in> set ms. use_of m = Inl e
       \<or> (e = SystemExit 1 \<and> (\<exists>use. use_of m = Inr use \<and> (\<exists>d \<in> set use. prefix ns3_prefix d
            \<and> d \<notin> set mods \<union> set contrib \<union> set (ns3_modules env) \<union> set (ns3_contributed_modules env))))"
proof (induction ms arbitrary: mods contrib changed)
  case (Cons m ms)
  show ?case
  proof (cases "use_of m")
    case (Inr use)
    show ?thesis
    proof (cases "add_dependencies env use (mods, contrib, changed)")
      case Inl
      then show ?thesis using Cons.prems add_dependencies_fails [OF Inl] \<open>use_of m = Inr use\<close> by auto
    next
      case (Inr st)
      obtain mods1 contrib1 c1 where st: "st = (mods1, contrib1, c1)" by (metis prod.exhaust)
      have sub: "set mods \<subseteq> set mods1" "set contrib \<subseteq> set contrib1" using add_dependencies_grows [OF Inr [unfolded st]] by auto
      have "scan_modules use_of env ms (mods1, contrib1, c1) = Inl e" using Cons.prems Inr st \<open>use_of m = Inr use\<close> by simp
      from Cons.IH [OF this] show ?thesis using sub unfolding list.set by blast
    qed
  qed (use Cons.prems in auto)
qed simp

text \<open>All that is needed can be built.\<close>

definition complete_build :: "(string \<Rightarrow> string list res) \<Rightarrow> ns3_env \<Rightarrow> string set \<Rightarrow> bool" where
  "complete_build use_of env S \<longleftrightarrow> (\<forall>m. needed use_of S m \<longrightarrow>
     (\<exists>use. use_of m = Inr use) \<and> m \<in> S \<union> set (ns3_modules env) \<union> set (ns3_contributed_modules env))"

lemma closed_needed:
  assumes "\<And>m use d. m \<in> S \<Longrightarrow> use_of m = Inr use \<Longrightarrow> d \<in> set use \<Longrightarrow> prefix ns3_prefix d \<Longrightarrow> d \<in> S"
  shows "needed use_of S m \<longleftrightarrow> m \<in> S"
proof
  show "needed use_of S m \<Longrightarrow> m \<in> S" by (induction rule: needed.induct) (auto intro: assms)
qed (rule needed.enabled)

lemma scan_needed:
  assumes "scan_modules use_of env (mods @ contrib) (mods, contrib, False) = Inr (mods', contrib', changed)"
  shows "needed use_of (set mods' \<union> set contrib') = needed use_of (set mods \<union> set contrib)"
    and "complete_build use_of env (set mods' \<union> set contrib') \<longleftrightarrow> complete_build use_of env (set mods \<union> set contrib)"
proof -
  let ?S = "set mods \<union> set contrib" and ?S' = "set mods' \<union> set contrib'"
  have r: "?S' = ?S \<union> {d. \<exists>m \<in> set (mods @ contrib). \<exists>use. use_of m = Inr use \<and> d \<in> set use \<and> prefix ns3_prefix d}"
    using scan_modules_result [OF assms] by blast
  show n: "needed use_of ?S' = needed use_of ?S" unfolding r by (rule needed_extend) (auto intro: needed.intros)
  have "?S' \<union> set (ns3_modules env) \<union> set (ns3_contributed_modules env) = ?S \<union> set (ns3_modules env) \<union> set (ns3_contributed_modules env)"
    using scan_modules_grows [OF assms] by auto
  then show "complete_build use_of env ?S' \<longleftrightarrow> complete_build use_of env ?S" by (simp add: complete_build_def n)
qed

lemma enable_dependencies_fails:
  "enable_dependencies use_of env mods contrib = Inl e \<Longrightarrow>
     \<not> complete_build use_of env (set mods \<union> set contrib) \<and> (e = SystemExit 1 \<or> (\<exists>m. needed use_of (set mods \<union> set contrib) m \<and> use_of m = Inl e))"
proof (induction use_of env mods contrib rule: enable_dependencies.induct)
  case (1 use_of env mods contrib)
  show ?case
  proof (cases "scan_modules use_of env (mods @ contrib) (mods, contrib, False)")
    case (Inl e')
    then have e: "e' = e" using "1.prems" by (simp add: enable_dependencies.simps)
    obtain m where m: "m \<in> set mods \<union> set contrib" and c: "use_of m = Inl e \<or> (e = SystemExit 1 \<and> (\<exists>use. use_of m = Inr use \<and> (\<exists>d \<in> set use. prefix ns3_prefix d
            \<and> d \<notin> set mods \<union> set contrib \<union> set (ns3_modules env) \<union> set (ns3_contributed_modules env))))"
      using scan_modules_fails [OF Inl] e by auto
    have n: "needed use_of (set mods \<union> set contrib) m" using m by (rule needed.enabled)
    from c show ?thesis
    proof
      assume "use_of m = Inl e"
      then show ?thesis using n by (auto simp: complete_build_def)
    next
      assume "e = SystemExit 1 \<and> (\<exists>use. use_of m = Inr use \<and> (\<exists>d \<in> set use. prefix ns3_prefix d
            \<and> d \<notin> set mods \<union> set contrib \<union> set (ns3_modules env) \<union> set (ns3_contributed_modules env)))"
      then show ?thesis using needed.dependency [OF n] unfolding complete_build_def by blast
    qed
  next
    case (Inr p)
    obtain mods' contrib' changed where p: "p = (mods', contrib', changed)" by (metis prod.exhaust)
    have step: "changed \<and> enable_dependencies use_of env mods' contrib' = Inl e"
      using "1.prems" Inr p by (simp add: enable_dependencies.simps [of use_of env mods contrib] split: if_splits)
    from step show ?thesis using "1.IH" [OF Inr p [symmetric] refl] scan_needed [OF Inr [unfolded p]] p by simp
  qed
qed

lemma enable_dependencies_succeeds:
  "enable_dependencies use_of env mods contrib = Inr (mods', contrib') \<Longrightarrow>
     complete_build use_of env (set mods \<union> set contrib) \<and> set mods' \<union> set contrib' = Collect (needed use_of (set mods \<union> set contrib))
     \<and> (\<exists>a b. mods' = mods @ a \<and> contrib' = contrib @ b \<and> set a \<subseteq> set (ns3_modules env) \<and> set b \<subseteq> set (ns3_contributed_modules env)
       \<and> distinct (a @ b) \<and> set (a @ b) \<inter> (set mods \<union> set contrib) = {})"
proof (induction use_of env mods contrib rule: enable_dependencies.induct)
  case (1 use_of env mods contrib)
  let ?S = "set mods \<union> set contrib"
  obtain mods1 contrib1 changed where s: "scan_modules use_of env (mods @ contrib) (mods, contrib, False) = Inr (mods1, contrib1, changed)"
    using "1.prems" by (auto simp: enable_dependencies.simps [of use_of env mods contrib] split: sum.splits)
  obtain a b where ab: "mods1 = mods @ a" "contrib1 = contrib @ b" "set a \<subseteq> set (ns3_modules env)" "set b \<subseteq> set (ns3_contributed_modules env)"
    "distinct (a @ b)" "set (a @ b) \<inter> ?S = {}" "changed \<longleftrightarrow> a @ b \<noteq> []"
    using scan_modules_grows [OF s] by blast
  show ?case
  proof (cases changed)
    case True
    then have "enable_dependencies use_of env mods1 contrib1 = Inr (mods', contrib')"
      using "1.prems" s by (simp add: enable_dependencies.simps [of use_of env mods contrib])
    from "1.IH" [OF s refl refl True this] obtain a' b' where
      c: "complete_build use_of env (set mods1 \<union> set contrib1)" "set mods' \<union> set contrib' = Collect (needed use_of (set mods1 \<union> set contrib1))"
      and ab': "mods' = mods1 @ a'" "contrib' = contrib1 @ b'" "set a' \<subseteq> set (ns3_modules env)" "set b' \<subseteq> set (ns3_contributed_modules env)"
      "distinct (a' @ b')" "set (a' @ b') \<inter> (set mods1 \<union> set contrib1) = {}" by blast
    show ?thesis using extension_trans [OF ab(1-6) ab'] c unfolding scan_needed [OF s] by blast
  next
    case False
    then have "mods' = mods" "contrib' = contrib" using "1.prems" s ab by (simp_all add: enable_dependencies.simps [of use_of env mods contrib])
    moreover have r: "\<forall>m \<in> ?S. \<exists>use. use_of m = Inr use" "{d. \<exists>m \<in> ?S. \<exists>use. use_of m = Inr use \<and> d \<in> set use \<and> prefix ns3_prefix d} \<subseteq> ?S"
      using scan_modules_result [OF s] False ab by auto
    then have n: "needed use_of ?S m \<longleftrightarrow> m \<in> ?S" for m by (intro closed_needed) blast
    ultimately show ?thesis using r(1) by (auto simp: complete_build_def n)
  qed
qed

text \<open>
  C17: Enabling the dependencies of the enabled modules ends.  It succeeds exactly when every module that is needed, directly or not, has a
  task generator and is an enabled, ns-3 or contributed one; then the enabled modules are exactly those that are needed, the ones enabled before
  come first, and each is added once and to the list of its kind.  Otherwise it exits with status one, or with what waf raises for a needed module.
\<close>

theorem enable_dependencies_closure:
  "(if complete_build use_of env (set mods \<union> set contrib)
    then \<exists>a b. enable_dependencies use_of env mods contrib = Inr (mods @ a, contrib @ b)
        \<and> set (mods @ a) \<union> set (contrib @ b) = {m. needed use_of (set mods \<union> set contrib) m}
        \<and> set a \<subseteq> set (ns3_modules env) \<and> set b \<subseteq> set (ns3_contributed_modules env)
        \<and> distinct (a @ b) \<and> set (a @ b) \<inter> (set mods \<union> set contrib) = {}
    else \<exists>e. enable_dependencies use_of env mods contrib = Inl e
        \<and> (e = SystemExit 1 \<or> (\<exists>m. needed use_of (set mods \<union> set contrib) m \<and> use_of m = Inl e)))"
proof (cases "enable_dependencies use_of env mods contrib")
  case (Inl e)
  then show ?thesis using enable_dependencies_fails [OF Inl] by auto
next
  case (Inr r)
  obtain mods' contrib' where r: "r = (mods', contrib')" by (cases r)
  show ?thesis using enable_dependencies_succeeds [OF Inr [unfolded r]] Inr r by auto
qed

end
