(* ===== verification/Build_Select.thy ===== *)
theory Build_Select
  imports Build_Modules
begin

text \<open>
  The second half of \<open>build\<close> in \<^verbatim>\<open>wscript\<close>: the test libraries of the enabled modules, the task generators that are taken out because they
  depend on disabled modules, the programs and scripts that can be run, and the file \<^verbatim>\<open>build-status.py\<close>
  that \<^verbatim>\<open>test.py\<close> reads.
\<close>

section \<open>Task generators\<close>

text \<open>The attributes that the code asks for; an attribute that may be missing is optional.\<close>

record ns3_taskgen =
  gen_name :: string
  gen_features :: string
  gen_module :: "string option"
  gen_is_module :: bool
  gen_library_of :: "string option"
  gen_dependencies :: "string list option"
  gen_use :: "string list"
  gen_bld_abspath :: string
  gen_remove :: bool

text \<open>The task generators, named by their index, in the groups of waf.\<close>

record build_state =
  bd_gens :: "ns3_taskgen list"
  bd_groups :: "nat list list"
  bd_env :: ns3_env

definition all_task_gen :: "build_state \<Rightarrow> nat list" where
  "all_task_gen bld = concat (bd_groups bld)"

fun exclude_taskgen :: "nat \<Rightarrow> nat list list \<Rightarrow> nat list list" where
  "exclude_taskgen k [] = []"
| "exclude_taskgen k (g # gs) = (if k \<in> set g then remove1 k g # gs else g # exclude_taskgen k gs)"

definition exclude_gen :: "nat \<Rightarrow> build_state \<Rightarrow> build_state" where
  "exclude_gen k bld = bld\<lparr>bd_groups := exclude_taskgen k (bd_groups bld)\<rparr>"

definition remove_headers :: "nat \<Rightarrow> build_state \<Rightarrow> build_state" where
  "remove_headers k bld = bld\<lparr>bd_gens := (bd_gens bld)[k := (bd_gens bld ! k)\<lparr>gen_remove := True\<rparr>]\<rparr>"

definition module_enabled :: "ns3_env \<Rightarrow> string \<Rightarrow> bool" where
  "module_enabled env m \<longleftrightarrow> m \<in> set (ns3_enabled_modules env) \<or> m \<in> set (ns3_enabled_contributed_modules env)"

text \<open>\<open>"ns3-%s" % obj.module\<close> among the enabled modules.\<close>

definition owner_enabled :: "ns3_env \<Rightarrow> ns3_taskgen \<Rightarrow> bool res" where
  "owner_enabled env obj = (case gen_module obj of None \<Rightarrow> Inl AttributeError | Some m \<Rightarrow> Inr (module_enabled env (ns3_prefix @ m)))"

definition when_disabled :: "bool \<Rightarrow> bool res \<Rightarrow> (build_state \<Rightarrow> build_state) \<Rightarrow> build_state \<Rightarrow> build_state res" where
  "when_disabled applies enabled act bld = (if applies then res_bind enabled (\<lambda>e. Inr (if e then bld else act bld)) else Inr bld)"

text \<open>Where a program is, seen from the directory waf was started in.\<close>

definition program_path :: "string \<Rightarrow> string \<Rightarrow> ns3_env \<Rightarrow> ns3_taskgen \<Rightarrow> string" where
  "program_path cwd launch_dir env obj =
     path_join (path_relpath cwd (gen_bld_abspath obj) (path_abspath cwd launch_dir))
       (ns3_appname_version env @ ''-'' @ gen_name obj @ ns3_build_suffix env)"

section \<open>Making task generators\<close>

text \<open>Modules with their file for pkg-config, test libraries, programs and scripts, as far as the build reads them.\<close>

definition create_ns3_module :: "bool \<Rightarrow> string \<Rightarrow> string \<Rightarrow> string list \<Rightarrow> ns3_taskgen \<times> ns3_taskgen" where
  "create_ns3_module static bld_abspath name dependencies =
     (\<lparr>gen_name = ns3_prefix @ name, gen_features = (if static then ''cxx cxxstlib ns3module'' else ''cxx cxxshlib ns3module''), gen_module = None, gen_is_module = True, gen_library_of = None,
       gen_dependencies = None, gen_use = map ((@) ns3_prefix) dependencies, gen_bld_abspath = bld_abspath, gen_remove = False\<rparr>,
      \<lparr>gen_name = [], gen_features = ''ns3pcfile'', gen_module = Some (ns3_prefix @ name), gen_is_module = False, gen_library_of = None,
       gen_dependencies = None, gen_use = [], gen_bld_abspath = bld_abspath, gen_remove = False\<rparr>)"

definition create_ns3_module_test_library :: "bool \<Rightarrow> string \<Rightarrow> string \<Rightarrow> ns3_env \<Rightarrow> (ns3_taskgen \<times> ns3_taskgen) \<times> ns3_env" where
  "create_ns3_module_test_library static bld_abspath name env =
     (let library_name = name @ ''-test''; (library, pcfilegen) = create_ns3_module static bld_abspath library_name [name]
      in ((library\<lparr>gen_features := gen_features library @ '' ns3testlib'', gen_is_module := False, gen_library_of := Some (ns3_prefix @ name)\<rparr>, pcfilegen),
          env\<lparr>modules_with_test_libraries := modules_with_test_libraries env @ [(ns3_prefix @ name, gen_name library)]\<rparr>))"

definition create_ns3_program :: "string \<Rightarrow> string \<Rightarrow> string list \<Rightarrow> ns3_taskgen" where
  "create_ns3_program bld_abspath name dependencies =
     \<lparr>gen_name = name, gen_features = ''cxx cxxprogram'', gen_module = None, gen_is_module = False, gen_library_of = None,
      gen_dependencies = Some (map ((@) ns3_prefix) dependencies), gen_use = map ((@) ns3_prefix) dependencies, gen_bld_abspath = bld_abspath, gen_remove = False\<rparr>"

definition register_ns3_script :: "string \<Rightarrow> string list \<Rightarrow> ns3_env \<Rightarrow> ns3_env" where
  "register_ns3_script name dependencies env = env\<lparr>script_dependencies := script_dependencies env @ [(name, map ((@) ns3_prefix) dependencies)]\<rparr>"

text \<open>The programs of the directory \<^verbatim>\<open>scratch\<close>, whose entries are given with whether they are directories; no such directory gives none.\<close>

definition scratch_program :: "string \<Rightarrow> ns3_env \<Rightarrow> string \<times> bool \<Rightarrow> ns3_taskgen list" where
  "scratch_program bld_abspath env = (\<lambda>(filename, is_dir).
     let all_modules = map (drop (length ns3_prefix)) (ns3_enabled_modules env @ ns3_enabled_contributed_modules env)
     in if prefix ''.'' filename \<or> filename = ''CVS'' then []
        else if is_dir then [create_ns3_program (bld_abspath @ ''/scratch/'' @ filename) filename all_modules]
        else if suffix ''.cc'' filename then [create_ns3_program (bld_abspath @ ''/scratch'') (take (length filename - 3) filename) all_modules]
        else [])"

definition scratch_programs :: "string \<Rightarrow> ns3_env \<Rightarrow> (string \<times> bool) list option \<Rightarrow> ns3_taskgen list" where
  "scratch_programs bld_abspath env listing = (case listing of None \<Rightarrow> [] | Some entries \<Rightarrow> concat (map (scratch_program bld_abspath env) entries))"

section \<open>The build\<close>

text \<open>Lines 1171 to 1212: dependencies and test libraries.\<close>

definition build_enable :: "(string \<Rightarrow> string list res) \<Rightarrow> ns3_env \<Rightarrow> ns3_env res" where
  "build_enable use_of env =
     (if ns3_enabled_modules env = [] \<and> ns3_enabled_contributed_modules env = [] then Inr env
      else res_bind (enable_dependencies use_of env (ns3_enabled_modules env) (ns3_enabled_contributed_modules env)) (\<lambda>(mods, contrib).
        let env = env\<lparr>ns3_enabled_modules := mods, ns3_enabled_contributed_modules := contrib\<rparr>
        in Inr (if enable_tests env
                then env\<lparr>enabled_module_test_libraries := enabled_module_test_libraries env
                       @ map snd (filter (\<lambda>(m, testlib). module_enabled env m) (modules_with_test_libraries env))\<rparr>
                else env)))"

text \<open>The body of the loop over the task generators.\<close>

definition select_taskgen :: "string \<Rightarrow> string \<Rightarrow> build_state \<Rightarrow> nat \<Rightarrow> build_state res" where
  "select_taskgen cwd launch_dir bld k =
     (let obj = bd_gens bld ! k; env = bd_env bld; feature = (\<lambda>f. sublist f (gen_features obj))
      in res_bind (when_disabled (feature ''ns3moduleheader'') (owner_enabled env obj) (remove_headers k) bld) (\<lambda>bld.
         let bld = (case gen_dependencies obj of
               None \<Rightarrow> bld
             | Some deps \<Rightarrow> if list_all (module_enabled env) deps
                 then bld\<lparr>bd_env := (bd_env bld)\<lparr>runnable_programs := runnable_programs (bd_env bld) @ [program_path cwd launch_dir env obj]\<rparr>\<rparr>
                 else exclude_gen k bld);
             bld = (if gen_is_module obj \<and> \<not> module_enabled env (gen_name obj) then exclude_gen k bld else bld);
             bld = (case gen_library_of obj of
               None \<Rightarrow> bld
             | Some m \<Rightarrow> if \<not> enable_tests env \<or> \<not> module_enabled env m then exclude_gen k bld else bld)
         in res_bind (when_disabled (feature ''ns3header'') (owner_enabled env obj) (remove_headers k) bld) (\<lambda>bld.
            res_bind (when_disabled (feature ''ns3privateheader'') (owner_enabled env obj) (remove_headers k) bld) (\<lambda>bld.
            res_bind (when_disabled (feature ''ns3pcfile'')
                (case gen_module obj of None \<Rightarrow> Inl AttributeError | Some m \<Rightarrow> Inr (module_enabled env m)) (exclude_gen k) bld) (\<lambda>bld.
            res_bind (when_disabled (sublist ''pybindgen'' (gen_name obj)) (owner_enabled env obj) (exclude_gen k) bld) (\<lambda>bld.
            when_disabled (feature ''pyext'') (owner_enabled env obj) (exclude_gen k) bld))))))"

text \<open>The scripts; with no module enabled at all the variables \<open>modules\<close> and \<open>contribModules\<close> are not bound.\<close>

definition script_runnable :: "ns3_env \<Rightarrow> ns3_env \<Rightarrow> string \<times> string list \<Rightarrow> ns3_env res" where
  "script_runnable env0 env = (\<lambda>(script, dependencies).
     if dependencies \<noteq> [] \<and> ns3_enabled_modules env0 = [] \<and> ns3_enabled_contributed_modules env0 = [] then Inl UnboundLocalError
     else Inr (if list_all (module_enabled env0) dependencies then env\<lparr>runnable_scripts := runnable_scripts env @ [script]\<rparr> else env))"

definition build_select :: "string \<Rightarrow> string \<Rightarrow> build_state \<Rightarrow> build_state res" where
  "build_select cwd launch_dir bld =
     res_bind (if ns3_enabled_modules (bd_env bld) = [] \<and> ns3_enabled_contributed_modules (bd_env bld) = [] then Inr bld
               else res_fold (select_taskgen cwd launch_dir) (all_task_gen bld) bld) (\<lambda>bld.
     res_bind (res_fold (script_runnable (bd_env bld)) (script_dependencies (bd_env bld)) (bd_env bld)) (\<lambda>env.
     Inr (bld\<lparr>bd_env := env\<rparr>)))"

text \<open>
  Both halves, after the early exits of \<open>build\<close>.  \<open>add_programs\<close> stands for \<open>add_examples_programs\<close> and \<open>add_scratch_programs\<close>: they
  let waf run the build files below the directories of the examples, which register further programs.
\<close>

definition build_modules :: "(string \<Rightarrow> string list res) \<Rightarrow> (build_state \<Rightarrow> build_state) \<Rightarrow> string \<Rightarrow> string \<Rightarrow> build_state \<Rightarrow> build_state res" where
  "build_modules use_of add_programs cwd launch_dir bld =
     (let env = (bd_env bld)\<lparr>runnable_programs := [], runnable_scripts := [], enabled_module_test_libraries := []\<rparr>
      in res_bind (build_enable use_of env) (\<lambda>env. build_select cwd launch_dir (add_programs (bld\<lparr>bd_env := env\<rparr>))))"

text \<open>The file of \<open>shutdown\<close>, as its lines.\<close>

definition build_status_lines :: "ns3_env \<Rightarrow> string list" where
  "build_status_lines env =
     map (\<lambda>l. l @ [NL])
       [''#! /usr/bin/env python3'', [], ''# Programs that are runnable.'', ''ns3_runnable_programs = '' @ py_repr_list (runnable_programs env), [],
        ''# Scripts that are runnable.'', ''ns3_runnable_scripts = '' @ py_repr_list (runnable_scripts env), []]"

section \<open>What stays in the build\<close>

text \<open>Whether a task generator has the attribute \<open>module\<close> when it is asked for.\<close>

definition gen_ok :: "ns3_taskgen \<Rightarrow> bool" where
  "gen_ok g \<longleftrightarrow> gen_module g \<noteq> None \<or> \<not> (sublist ''ns3moduleheader'' (gen_features g) \<or> sublist ''ns3header'' (gen_features g)
     \<or> sublist ''ns3privateheader'' (gen_features g) \<or> sublist ''ns3pcfile'' (gen_features g) \<or> sublist ''pybindgen'' (gen_name g) \<or> sublist ''pyext'' (gen_features g))"

definition owner :: "ns3_taskgen \<Rightarrow> string" where
  "owner g = ns3_prefix @ the (gen_module g)"

definition gen_kept :: "ns3_env \<Rightarrow> ns3_taskgen \<Rightarrow> bool" where
  "gen_kept env g \<longleftrightarrow> (case gen_dependencies g of None \<Rightarrow> True | Some deps \<Rightarrow> list_all (module_enabled env) deps)
     \<and> (gen_is_module g \<longrightarrow> module_enabled env (gen_name g))
     \<and> (case gen_library_of g of None \<Rightarrow> True | Some m \<Rightarrow> enable_tests env \<and> module_enabled env m)
     \<and> (sublist ''ns3pcfile'' (gen_features g) \<longrightarrow> module_enabled env (the (gen_module g)))
     \<and> (sublist ''pybindgen'' (gen_name g) \<or> sublist ''pyext'' (gen_features g) \<longrightarrow> module_enabled env (owner g))"

definition headers_stale :: "ns3_env \<Rightarrow> ns3_taskgen \<Rightarrow> bool" where
  "headers_stale env g \<longleftrightarrow> (sublist ''ns3moduleheader'' (gen_features g) \<or> sublist ''ns3header'' (gen_features g) \<or> sublist ''ns3privateheader'' (gen_features g))
     \<and> \<not> module_enabled env (owner g)"

definition runnable :: "ns3_env \<Rightarrow> ns3_taskgen \<Rightarrow> bool" where
  "runnable env g \<longleftrightarrow> (case gen_dependencies g of None \<Rightarrow> False | Some deps \<Rightarrow> list_all (module_enabled env) deps)"

lemma concat_exclude: "concat (exclude_taskgen k gs) = remove1 k (concat gs)"
  by (induction gs) (auto simp: remove1_append remove1_idem)

lemma exclude_absent: "k \<notin> set (concat gs) \<Longrightarrow> exclude_taskgen k gs = gs"
  by (induction gs) auto

lemma exclude_twice: "distinct (concat gs) \<Longrightarrow> exclude_taskgen k (exclude_taskgen k gs) = exclude_taskgen k gs"
  by (intro exclude_absent) (simp add: concat_exclude del: set_concat)

text \<open>The three changes under a condition; the first two may be repeated, and all commute.\<close>

definition removing :: "bool \<Rightarrow> nat \<Rightarrow> build_state \<Rightarrow> build_state" where
  "removing c k b = (if c then remove_headers k b else b)"

definition excluding :: "bool \<Rightarrow> nat \<Rightarrow> build_state \<Rightarrow> build_state" where
  "excluding c k b = (if c then exclude_gen k b else b)"

definition recording :: "bool \<Rightarrow> string \<Rightarrow> build_state \<Rightarrow> build_state" where
  "recording c p b = (if c then b\<lparr>bd_env := (bd_env b)\<lparr>runnable_programs := runnable_programs (bd_env b) @ [p]\<rparr>\<rparr> else b)"

lemma removing_twice: "removing c k (removing c' k b) = removing (c \<or> c') k b"
  by (cases "k < length (bd_gens b)") (simp_all add: removing_def remove_headers_def list_update_beyond)

lemma removing_excluding: "removing c k (excluding c' k b) = excluding c' k (removing c k b)"
  by (simp add: removing_def excluding_def exclude_gen_def remove_headers_def)

lemma removing_recording: "removing c k (recording c' p b) = recording c' p (removing c k b)"
  by (simp add: removing_def recording_def remove_headers_def)

lemma keeps_task_gen: "all_task_gen (removing c k b) = all_task_gen b" "all_task_gen (recording c p b) = all_task_gen b"
  by (simp_all add: removing_def recording_def all_task_gen_def remove_headers_def)

lemma excluding_twice: "distinct (all_task_gen b) \<Longrightarrow> excluding c k (excluding c' k b) = excluding (c \<or> c') k b"
  by (simp add: excluding_def exclude_gen_def all_task_gen_def exclude_twice)

text \<open>The state after one task generator.\<close>

definition selected :: "string \<Rightarrow> string \<Rightarrow> build_state \<Rightarrow> nat \<Rightarrow> build_state" where
  "selected cwd launch_dir bld k =
     (let g = bd_gens bld ! k; env = bd_env bld
      in bld\<lparr>bd_gens := (if headers_stale env g then (bd_gens bld)[k := g\<lparr>gen_remove := True\<rparr>] else bd_gens bld),
             bd_groups := (if gen_kept env g then bd_groups bld else exclude_taskgen k (bd_groups bld)),
             bd_env := (if runnable env g then env\<lparr>runnable_programs := runnable_programs env @ [program_path cwd launch_dir env g]\<rparr> else env)\<rparr>)"

lemma when_disabled_module:
  "\<not> applies \<or> gen_module g \<noteq> None \<Longrightarrow> when_disabled applies (owner_enabled env g) act bld = Inr (if applies \<and> \<not> module_enabled env (owner g) then act bld else bld)"
  "\<not> applies \<or> gen_module g \<noteq> None \<Longrightarrow> when_disabled applies (case gen_module g of None \<Rightarrow> Inl AttributeError | Some m \<Rightarrow> Inr (module_enabled env m)) act bld
     = Inr (if applies \<and> \<not> module_enabled env (the (gen_module g)) then act bld else bld)"
  by (auto simp: when_disabled_def owner_enabled_def owner_def)

lemma when_disabled_states:
  "(if a then remove_headers k b else b) = removing a k b" "(if a then exclude_gen k b else b) = excluding a k b"
  by (simp_all add: removing_def excluding_def)

lemma dependencies_state:
  "(case gen_dependencies g of None \<Rightarrow> b | Some deps \<Rightarrow> if list_all (module_enabled env) deps
      then b\<lparr>bd_env := (bd_env b)\<lparr>runnable_programs := runnable_programs (bd_env b) @ [p]\<rparr>\<rparr> else exclude_gen k b)
   = excluding (gen_dependencies g \<noteq> None \<and> \<not> runnable env g) k (recording (runnable env g) p b)"
  by (simp add: runnable_def excluding_def recording_def split: option.split)

lemma library_state:
  "(case gen_library_of g of None \<Rightarrow> b | Some m \<Rightarrow> excluding (\<not> enable_tests env \<or> \<not> module_enabled env m) k b)
   = excluding (case gen_library_of g of None \<Rightarrow> False | Some m \<Rightarrow> \<not> enable_tests env \<or> \<not> module_enabled env m) k b"
  by (simp add: excluding_def split: option.split)

lemma selected_states:
  "k < length (bd_gens bld) \<Longrightarrow> selected cwd launch_dir bld k
     = excluding (\<not> gen_kept (bd_env bld) (bd_gens bld ! k)) k (recording (runnable (bd_env bld) (bd_gens bld ! k)) (program_path cwd launch_dir (bd_env bld) (bd_gens bld ! k))
         (removing (headers_stale (bd_env bld) (bd_gens bld ! k)) k bld))"
  by (simp add: selected_def excluding_def recording_def removing_def exclude_gen_def remove_headers_def Let_def)

lemma select_steps:
  assumes "distinct (all_task_gen bld)"
  shows "excluding y2 k (excluding y1 k (excluding p k (removing h3 k (removing h2 k (excluding l k (excluding m k (excluding d k (recording r pa (removing h1 k bld)))))))))
    = excluding (y2 \<or> y1 \<or> p \<or> l \<or> m \<or> d) k (recording r pa (removing (h3 \<or> h2 \<or> h1) k bld))"
proof -
  have ex: "excluding a k (excluding b k (recording c p (removing d k bld))) = excluding (a \<or> b) k (recording c p (removing d k bld))" for a b c d p
    by (rule excluding_twice) (simp add: keeps_task_gen assms)
  show ?thesis by (simp add: removing_twice removing_excluding removing_recording ex disj_assoc)
qed

lemma select_taskgen_result:
  assumes "gen_ok (bd_gens bld ! k)" and "distinct (all_task_gen bld)" and "k < length (bd_gens bld)"
  shows "select_taskgen cwd launch_dir bld k = Inr (selected cwd launch_dir bld k)"
proof -
  let ?g = "bd_gens bld ! k" and ?env = "bd_env bld"
  let ?f = "\<lambda>f. sublist f (gen_features ?g)"
  let ?e = "module_enabled ?env (owner ?g)"
  have ok: "\<not> ?f ''ns3moduleheader'' \<or> gen_module ?g \<noteq> None" "\<not> ?f ''ns3header'' \<or> gen_module ?g \<noteq> None" "\<not> ?f ''ns3privateheader'' \<or> gen_module ?g \<noteq> None"
    "\<not> ?f ''ns3pcfile'' \<or> gen_module ?g \<noteq> None" "\<not> sublist ''pybindgen'' (gen_name ?g) \<or> gen_module ?g \<noteq> None" "\<not> ?f ''pyext'' \<or> gen_module ?g \<noteq> None"
    using assms(1) unfolding gen_ok_def by blast+
  have s: "select_taskgen cwd launch_dir bld k = Inr (excluding (?f ''pyext'' \<and> \<not> ?e \<or> sublist ''pybindgen'' (gen_name ?g) \<and> \<not> ?e
       \<or> ?f ''ns3pcfile'' \<and> \<not> module_enabled ?env (the (gen_module ?g))
       \<or> (case gen_library_of ?g of None \<Rightarrow> False | Some m \<Rightarrow> \<not> enable_tests ?env \<or> \<not> module_enabled ?env m)
       \<or> gen_is_module ?g \<and> \<not> module_enabled ?env (gen_name ?g) \<or> gen_dependencies ?g \<noteq> None \<and> \<not> runnable ?env ?g) k
     (recording (runnable ?env ?g) (program_path cwd launch_dir ?env ?g)
       (removing (?f ''ns3privateheader'' \<and> \<not> ?e \<or> ?f ''ns3header'' \<and> \<not> ?e \<or> ?f ''ns3moduleheader'' \<and> \<not> ?e) k bld)))"
    unfolding select_taskgen_def Let_def when_disabled_module(1) [OF ok(1)] when_disabled_module(1) [OF ok(2)] when_disabled_module(1) [OF ok(3)]
      when_disabled_module(2) [OF ok(4)] when_disabled_module(1) [OF ok(5)] when_disabled_module(1) [OF ok(6)]
      res_bind_Inr when_disabled_states dependencies_state library_state
    by (simp only: select_steps [OF assms(2)])
  have "(?f ''pyext'' \<and> \<not> ?e \<or> sublist ''pybindgen'' (gen_name ?g) \<and> \<not> ?e
       \<or> ?f ''ns3pcfile'' \<and> \<not> module_enabled ?env (the (gen_module ?g))
       \<or> (case gen_library_of ?g of None \<Rightarrow> False | Some m \<Rightarrow> \<not> enable_tests ?env \<or> \<not> module_enabled ?env m)
       \<or> gen_is_module ?g \<and> \<not> module_enabled ?env (gen_name ?g) \<or> gen_dependencies ?g \<noteq> None \<and> \<not> runnable ?env ?g) \<longleftrightarrow> \<not> gen_kept ?env ?g"
    by (auto simp: gen_kept_def runnable_def split: option.splits)
  moreover have "(?f ''ns3privateheader'' \<and> \<not> ?e \<or> ?f ''ns3header'' \<and> \<not> ?e \<or> ?f ''ns3moduleheader'' \<and> \<not> ?e) \<longleftrightarrow> headers_stale ?env ?g"
    by (auto simp: headers_stale_def)
  ultimately show ?thesis unfolding s selected_states [OF assms(3)] by simp
qed

definition same_enabled :: "ns3_env \<Rightarrow> ns3_env \<Rightarrow> bool" where
  "same_enabled env env' \<longleftrightarrow> ns3_enabled_modules env' = ns3_enabled_modules env \<and> ns3_enabled_contributed_modules env' = ns3_enabled_contributed_modules env
     \<and> enable_tests env' = enable_tests env \<and> ns3_appname_version env' = ns3_appname_version env \<and> ns3_build_suffix env' = ns3_build_suffix env"

lemma same_enabled_facts:
  assumes "same_enabled env env'"
  shows "gen_kept env' = gen_kept env" "headers_stale env' = headers_stale env" "runnable env' = runnable env" "program_path cwd l env' = program_path cwd l env"
proof -
  have m: "module_enabled env' = module_enabled env" using assms by (simp add: same_enabled_def module_enabled_def fun_eq_iff)
  have t: "enable_tests env' = enable_tests env" using assms by (simp add: same_enabled_def)
  show "gen_kept env' = gen_kept env" "headers_stale env' = headers_stale env" "runnable env' = runnable env"
    unfolding fun_eq_iff gen_kept_def headers_stale_def runnable_def m t by simp_all
  show "program_path cwd l env' = program_path cwd l env" using assms by (simp add: same_enabled_def program_path_def fun_eq_iff)
qed

lemma selected_fields:
  fixes cwd launch_dir :: string
  assumes "k < length (bd_gens bld)" and "distinct (all_task_gen bld)"
  defines "bld' \<equiv> selected cwd launch_dir bld k"
  shows "all_task_gen bld' = filter (\<lambda>j. j = k \<longrightarrow> gen_kept (bd_env bld) (bd_gens bld ! j)) (all_task_gen bld)"
    and "length (bd_gens bld') = length (bd_gens bld)"
    and "bd_gens bld' ! j = (if j = k \<and> headers_stale (bd_env bld) (bd_gens bld ! j) then (bd_gens bld ! j)\<lparr>gen_remove := True\<rparr> else bd_gens bld ! j)"
    and "bd_env bld' = (bd_env bld)\<lparr>runnable_programs := runnable_programs (bd_env bld)
           @ map (program_path cwd launch_dir (bd_env bld)) (filter (runnable (bd_env bld)) [bd_gens bld ! k])\<rparr>"
    and "same_enabled (bd_env bld) (bd_env bld')"
proof -
  have "remove1 k xs = filter (\<lambda>j. j \<noteq> k) xs" if "distinct xs" for xs using that by (simp add: distinct_remove1_removeAll removeAll_filter_not_eq eq_commute)
  then show "all_task_gen bld' = filter (\<lambda>j. j = k \<longrightarrow> gen_kept (bd_env bld) (bd_gens bld ! j)) (all_task_gen bld)"
    using assms(2) by (cases "gen_kept (bd_env bld) (bd_gens bld ! k)")
      (auto simp: bld'_def selected_def Let_def all_task_gen_def concat_exclude filter_id_conv cong: filter_cong)
qed (use assms(1) in \<open>auto simp: bld'_def selected_def Let_def same_enabled_def\<close>)

lemma select_loop:
  assumes "distinct (all_task_gen bld)" and "distinct ks" and "\<forall>k \<in> set ks. k < length (bd_gens bld) \<and> gen_ok (bd_gens bld ! k)"
  shows "\<exists>bld'. res_fold (select_taskgen cwd launch_dir) ks bld = Inr bld' \<and> length (bd_gens bld') = length (bd_gens bld)
    \<and> all_task_gen bld' = filter (\<lambda>j. j \<in> set ks \<longrightarrow> gen_kept (bd_env bld) (bd_gens bld ! j)) (all_task_gen bld)
    \<and> (\<forall>j. bd_gens bld' ! j = (if j \<in> set ks \<and> headers_stale (bd_env bld) (bd_gens bld ! j) then (bd_gens bld ! j)\<lparr>gen_remove := True\<rparr> else bd_gens bld ! j))
    \<and> bd_env bld' = (bd_env bld)\<lparr>runnable_programs := runnable_programs (bd_env bld)
         @ map (program_path cwd launch_dir (bd_env bld)) (filter (runnable (bd_env bld)) (map ((!) (bd_gens bld)) ks))\<rparr>"
  using assms
proof (induction ks arbitrary: bld)
  case (Cons k ks)
  let ?b = "selected cwd launch_dir bld k"
  have k: "k < length (bd_gens bld)" "gen_ok (bd_gens bld ! k)" "k \<notin> set ks" "distinct ks" using Cons.prems by auto
  note f = selected_fields [OF k(1) Cons.prems(1), of cwd launch_dir]
  note e = same_enabled_facts [OF f(5)]
  have same: "bd_gens ?b ! j = bd_gens bld ! j" if "j \<in> set ks" for j using f(3) [of j] that k(3) by auto
  have d: "distinct (all_task_gen ?b)" using Cons.prems(1) by (simp add: f(1))
  have ok: "\<forall>j \<in> set ks. j < length (bd_gens ?b) \<and> gen_ok (bd_gens ?b ! j)" using Cons.prems(3) same f(2) by simp
  obtain bld' where b: "res_fold (select_taskgen cwd launch_dir) ks ?b = Inr bld'" "length (bd_gens bld') = length (bd_gens ?b)"
    "all_task_gen bld' = filter (\<lambda>j. j \<in> set ks \<longrightarrow> gen_kept (bd_env bld) (bd_gens ?b ! j)) (all_task_gen ?b)"
    "\<forall>j. bd_gens bld' ! j = (if j \<in> set ks \<and> headers_stale (bd_env bld) (bd_gens ?b ! j) then (bd_gens ?b ! j)\<lparr>gen_remove := True\<rparr> else bd_gens ?b ! j)"
    "bd_env bld' = (bd_env ?b)\<lparr>runnable_programs := runnable_programs (bd_env ?b)
         @ map (program_path cwd launch_dir (bd_env bld)) (filter (runnable (bd_env bld)) (map ((!) (bd_gens ?b)) ks))\<rparr>"
    using Cons.IH [OF d k(4) ok] unfolding e by blast
  have m: "map ((!) (bd_gens ?b)) ks = map ((!) (bd_gens bld)) ks" using same by simp
  have "all_task_gen bld' = filter (\<lambda>j. j \<in> set (k # ks) \<longrightarrow> gen_kept (bd_env bld) (bd_gens bld ! j)) (all_task_gen bld)"
    unfolding b(3) f(1) filter_filter using same k(3) by (intro filter_cong refl) auto
  moreover have "bd_gens bld' ! j = (if j \<in> set (k # ks) \<and> headers_stale (bd_env bld) (bd_gens bld ! j) then (bd_gens bld ! j)\<lparr>gen_remove := True\<rparr> else bd_gens bld ! j)" for j
    using b(4) f(3) [of j] same [of j] k(3) by (cases "j = k") auto
  moreover have "bd_env bld' = (bd_env bld)\<lparr>runnable_programs := runnable_programs (bd_env bld)
         @ map (program_path cwd launch_dir (bd_env bld)) (filter (runnable (bd_env bld)) (map ((!) (bd_gens bld)) (k # ks)))\<rparr>"
    unfolding b(5) m f(4) by simp
  ultimately show ?case using b(1,2) f(2) select_taskgen_result [OF k(2) Cons.prems(1) k(1), of cwd launch_dir] by (intro exI [of _ bld']) simp
qed simp

lemma script_loop:
  assumes "ns3_enabled_modules env0 \<noteq> [] \<or> ns3_enabled_contributed_modules env0 \<noteq> []"
  shows "res_fold (script_runnable env0) xs env
    = Inr (env\<lparr>runnable_scripts := runnable_scripts env @ map fst (filter (\<lambda>(_, deps). list_all (module_enabled env0) deps) xs)\<rparr>)"
proof (induction xs arbitrary: env)
  case (Cons x xs)
  have "script_runnable env0 env x = Inr (if list_all (module_enabled env0) (snd x) then env\<lparr>runnable_scripts := runnable_scripts env @ [fst x]\<rparr> else env)"
    using assms by (auto simp: script_runnable_def split: prod.split)
  then show ?case using Cons by (simp add: split_def)
qed simp

section \<open>The whole build\<close>

definition gens_ok :: "build_state \<Rightarrow> bool" where
  "gens_ok bld \<longleftrightarrow> distinct (all_task_gen bld) \<and> (\<forall>k \<in> set (all_task_gen bld). k < length (bd_gens bld) \<and> gen_ok (bd_gens bld ! k))"

text \<open>What is relied on of the build files of the examples: they add task generators and scripts, and leave the lists of modules alone.\<close>

definition adds_programs :: "(build_state \<Rightarrow> build_state) \<Rightarrow> bool" where
  "adds_programs add \<longleftrightarrow> (\<forall>bld. same_enabled (bd_env bld) (bd_env (add bld)) \<and> runnable_programs (bd_env (add bld)) = runnable_programs (bd_env bld)
     \<and> runnable_scripts (bd_env (add bld)) = runnable_scripts (bd_env bld) \<and> (gens_ok bld \<longrightarrow> gens_ok (add bld)))"

lemma module_enabled_same: "same_enabled env env' \<Longrightarrow> module_enabled env' = module_enabled env"
  by (simp add: same_enabled_def module_enabled_def fun_eq_iff)

lemma build_enable_result:
  assumes "ns3_enabled_modules env \<noteq> [] \<or> ns3_enabled_contributed_modules env \<noteq> []"
    and "complete_build use_of env (set (ns3_enabled_modules env) \<union> set (ns3_enabled_contributed_modules env))"
  shows "\<exists>env'. build_enable use_of env = Inr env' \<and> runnable_programs env' = runnable_programs env \<and> runnable_scripts env' = runnable_scripts env
    \<and> (ns3_enabled_modules env' \<noteq> [] \<or> ns3_enabled_contributed_modules env' \<noteq> [])
    \<and> (\<forall>m. module_enabled env' m \<longleftrightarrow> needed use_of (set (ns3_enabled_modules env) \<union> set (ns3_enabled_contributed_modules env)) m)
    \<and> enabled_module_test_libraries env' = enabled_module_test_libraries env
        @ (if enable_tests env then map snd (filter (\<lambda>(m, testlib). module_enabled env' m) (modules_with_test_libraries env)) else [])"
proof -
  let ?m = "ns3_enabled_modules env" and ?c = "ns3_enabled_contributed_modules env"
  obtain r where "enable_dependencies use_of env ?m ?c = Inr r" using enable_dependencies_fails assms(2) by (cases "enable_dependencies use_of env ?m ?c") blast+
  moreover obtain mods contrib where r: "r = (mods, contrib)" by (cases r)
  ultimately have d: "enable_dependencies use_of env ?m ?c = Inr (mods, contrib)" by simp
  have s: "set mods \<union> set contrib = Collect (needed use_of (set ?m \<union> set ?c))" "\<exists>a b. mods = ?m @ a \<and> contrib = ?c @ b"
    using enable_dependencies_succeeds [OF d] by blast+
  have e: "module_enabled (env\<lparr>ns3_enabled_modules := mods, ns3_enabled_contributed_modules := contrib, enabled_module_test_libraries := l\<rparr>) m \<longleftrightarrow> needed use_of (set ?m \<union> set ?c) m"
    "module_enabled (env\<lparr>ns3_enabled_modules := mods, ns3_enabled_contributed_modules := contrib\<rparr>) m \<longleftrightarrow> needed use_of (set ?m \<union> set ?c) m" for l m
    using s(1) by (auto simp: module_enabled_def)
  show ?thesis using assms(1) d s(2) by (auto simp: build_enable_def Let_def e)
qed

text \<open>
  C16: \<open>build\<close>, when some module is enabled and every needed one can be built: afterwards the enabled modules are exactly those that the enabled ones need,
  so a module that stays in the build has all its dependencies there; a task generator stays exactly when the modules it belongs to or depends on are
  enabled, and a test library only if tests are built; the runnable programs and scripts are, in order, those all of whose modules are enabled.
\<close>

theorem build_modules_result:
  assumes "ns3_enabled_modules (bd_env bld) \<noteq> [] \<or> ns3_enabled_contributed_modules (bd_env bld) \<noteq> []"
    and "complete_build use_of (bd_env bld) (set (ns3_enabled_modules (bd_env bld)) \<union> set (ns3_enabled_contributed_modules (bd_env bld)))"
    and "adds_programs add_programs" and "gens_ok bld"
  shows "\<exists>bld' env1 a. build_modules use_of add_programs cwd launch_dir bld = Inr bld'
    \<and> build_enable use_of ((bd_env bld)\<lparr>runnable_programs := [], runnable_scripts := [], enabled_module_test_libraries := []\<rparr>) = Inr env1
    \<and> a = add_programs (bld\<lparr>bd_env := env1\<rparr>)
    \<and> (\<forall>m. module_enabled (bd_env bld') m \<longleftrightarrow> needed use_of (set (ns3_enabled_modules (bd_env bld)) \<union> set (ns3_enabled_contributed_modules (bd_env bld))) m)
    \<and> (\<forall>m use d. module_enabled (bd_env bld') m \<and> use_of m = Inr use \<and> d \<in> set use \<and> prefix ns3_prefix d \<longrightarrow> module_enabled (bd_env bld') d)
    \<and> all_task_gen bld' = filter (\<lambda>k. gen_kept (bd_env bld') (bd_gens a ! k)) (all_task_gen a)
    \<and> runnable_programs (bd_env bld') = map (program_path cwd launch_dir (bd_env bld')) (filter (runnable (bd_env bld')) (map ((!) (bd_gens a)) (all_task_gen a)))
    \<and> runnable_scripts (bd_env bld') = map fst (filter (\<lambda>(script, deps). list_all (module_enabled (bd_env bld')) deps) (script_dependencies (bd_env a)))"
proof -
  define env0 where "env0 = (bd_env bld)\<lparr>runnable_programs := [], runnable_scripts := [], enabled_module_test_libraries := []\<rparr>"
  let ?S = "set (ns3_enabled_modules (bd_env bld)) \<union> set (ns3_enabled_contributed_modules (bd_env bld))"
  have c: "complete_build use_of env0 ?S" using assms(2) by (simp add: complete_build_def env0_def)
  obtain env1 where e1: "build_enable use_of env0 = Inr env1" "runnable_programs env1 = []" "runnable_scripts env1 = []"
      "ns3_enabled_modules env1 \<noteq> [] \<or> ns3_enabled_contributed_modules env1 \<noteq> []" "\<forall>m. module_enabled env1 m \<longleftrightarrow> needed use_of ?S m"
    using build_enable_result [of env0 use_of] c assms(1) by (auto simp: env0_def)
  define a where "a = add_programs (bld\<lparr>bd_env := env1\<rparr>)"
  have same: "same_enabled env1 (bd_env a)" "runnable_programs (bd_env a) = []" "runnable_scripts (bd_env a) = []"
    using assms(3) e1(2,3) unfolding adds_programs_def a_def by (metis build_state.select_convs(3) build_state.surjective build_state.update_convs(3))+
  have "gens_ok (bld\<lparr>bd_env := env1\<rparr>)" using assms(4) by (simp add: gens_ok_def all_task_gen_def)
  then have ok: "gens_ok a" using assms(3) unfolding adds_programs_def a_def by blast
  have ne: "ns3_enabled_modules (bd_env a) \<noteq> [] \<or> ns3_enabled_contributed_modules (bd_env a) \<noteq> []" using same(1) e1(4) by (simp add: same_enabled_def)
  obtain b where b: "res_fold (select_taskgen cwd launch_dir) (all_task_gen a) a = Inr b"
      "all_task_gen b = filter (\<lambda>j. j \<in> set (all_task_gen a) \<longrightarrow> gen_kept (bd_env a) (bd_gens a ! j)) (all_task_gen a)"
      "bd_env b = (bd_env a)\<lparr>runnable_programs := map (program_path cwd launch_dir (bd_env a)) (filter (runnable (bd_env a)) (map ((!) (bd_gens a)) (all_task_gen a)))\<rparr>"
    using select_loop [of a "all_task_gen a" cwd launch_dir] ok same(2) by (auto simp: gens_ok_def)
  define env2 where "env2 = (bd_env b)\<lparr>runnable_scripts := map fst (filter (\<lambda>(_, deps). list_all (module_enabled (bd_env b)) deps) (script_dependencies (bd_env b)))\<rparr>"
  have neb: "ns3_enabled_modules (bd_env b) \<noteq> [] \<or> ns3_enabled_contributed_modules (bd_env b) \<noteq> []" "runnable_scripts (bd_env b) = []" using b(3) ne same(3) by simp_all
  have s: "build_select cwd launch_dir a = Inr (b\<lparr>bd_env := env2\<rparr>)"
    using ne neb(2) b(1) script_loop [OF neb(1)] by (auto simp: build_select_def env2_def)
  have "build_modules use_of add_programs cwd launch_dir bld = Inr (b\<lparr>bd_env := env2\<rparr>)"
    using e1(1) s by (simp add: build_modules_def Let_def env0_def a_def)
  moreover have e2: "same_enabled (bd_env a) env2" by (simp add: env2_def b(3) same_enabled_def)
  moreover have n: "module_enabled env2 m \<longleftrightarrow> needed use_of ?S m" for m
    using e1(5) module_enabled_same [OF same(1)] module_enabled_same [OF e2] by simp
  moreover have "all_task_gen (b\<lparr>bd_env := env2\<rparr>) = filter (\<lambda>k. gen_kept env2 (bd_gens a ! k)) (all_task_gen a)"
  proof -
    have "all_task_gen (b\<lparr>bd_env := env2\<rparr>) = all_task_gen b" by (simp add: all_task_gen_def)
    then show ?thesis unfolding b(2) same_enabled_facts(1) [OF e2] by (auto intro: filter_cong)
  qed
  moreover have "runnable_programs env2 = map (program_path cwd launch_dir env2) (filter (runnable env2) (map ((!) (bd_gens a)) (all_task_gen a)))"
    using same_enabled_facts(3,4) [OF e2] by (simp add: env2_def b(3))
  moreover have "runnable_scripts env2 = map fst (filter (\<lambda>(script, deps). list_all (module_enabled env2) deps) (script_dependencies (bd_env a)))"
  proof -
    have "module_enabled (bd_env b) = module_enabled env2" by (simp add: env2_def module_enabled_def fun_eq_iff)
    then show ?thesis by (simp add: env2_def b(3))
  qed
  moreover have "module_enabled env2 d" if "module_enabled env2 m" "use_of m = Inr use" "d \<in> set use" "prefix ns3_prefix d" for m use d
    using that n needed.dependency by metis
  ultimately show ?thesis using a_def e1(1) unfolding env0_def by (intro exI [of _ "b\<lparr>bd_env := env2\<rparr>"] exI [of _ env1] exI [of _ a]) auto
qed


definition sample_use :: "string \<Rightarrow> string list res" where
  "sample_use m = (if m = ''ns3-internet'' then Inr [''ns3-core'', ''BOOST''] else if m = ''ns3-core'' then Inr [] else Inl (WafError m))"

definition sample_build :: build_state where
  "sample_build = \<lparr>bd_gens = [create_ns3_program ''/b'' ''first'' [''core''], create_ns3_program ''/b'' ''third'' [''core'', ''wifi'']], bd_groups = [[0, 1]],
     bd_env = \<lparr>ns3_modules = [''ns3-core'', ''ns3-internet'', ''ns3-wifi''], ns3_contributed_modules = [], ns3_enabled_modules = [''ns3-internet''],
       ns3_enabled_contributed_modules = [], modules_not_built = [], modules_with_test_libraries = [], enabled_module_test_libraries = [],
       script_dependencies = [(''s.py'', [''ns3-core'']), (''w.py'', [''ns3-wifi''])], runnable_programs = [], runnable_scripts = [], enable_tests = False,
       ns3_appname_version = ''ns3'', ns3_build_suffix = ''-debug''\<rparr>\<rparr>"

lemma sample_needed: "needed sample_use {''ns3-internet''} m \<longleftrightarrow> m = ''ns3-internet'' \<or> m = ''ns3-core''"
proof
  show "needed sample_use {''ns3-internet''} m \<Longrightarrow> m = ''ns3-internet'' \<or> m = ''ns3-core''"
    by (induction rule: needed.induct) (auto simp: sample_use_def split: if_splits)
  have i: "needed sample_use {''ns3-internet''} ''ns3-internet''" by (rule needed.enabled) simp
  moreover have "needed sample_use {''ns3-internet''} ''ns3-core''" by (rule needed.dependency [OF i, where use = "[''ns3-core'', ''BOOST'']"]) (simp_all add: sample_use_def)
  ultimately show "m = ''ns3-internet'' \<or> m = ''ns3-core'' \<Longrightarrow> needed sample_use {''ns3-internet''} m" by auto
qed

theorem build_modules_result_witness:
  "\<exists>bld'. build_modules sample_use (\<lambda>b. b) ''/w'' ''/w'' sample_build = Inr bld' \<and> module_enabled (bd_env bld') ''ns3-core''
     \<and> \<not> module_enabled (bd_env bld') ''ns3-wifi'' \<and> all_task_gen bld' = [0] \<and> length (runnable_programs (bd_env bld')) = 1"
proof -
  have "complete_build sample_use (bd_env sample_build) {''ns3-internet''}" by (auto simp: complete_build_def sample_needed sample_build_def sample_use_def)
  moreover have "adds_programs (\<lambda>b. b)" by (simp add: adds_programs_def same_enabled_def)
  moreover have "gens_ok sample_build" by (simp add: gens_ok_def sample_build_def all_task_gen_def gen_ok_def create_ns3_program_def sublist_code)
  ultimately obtain bld' env1 a where r: "build_modules sample_use (\<lambda>b. b) ''/w'' ''/w'' sample_build = Inr bld'" "a = sample_build\<lparr>bd_env := env1\<rparr>"
      "\<forall>m. module_enabled (bd_env bld') m \<longleftrightarrow> needed sample_use {''ns3-internet''} m"
      "all_task_gen bld' = filter (\<lambda>k. gen_kept (bd_env bld') (bd_gens a ! k)) (all_task_gen a)"
      "runnable_programs (bd_env bld') = map (program_path ''/w'' ''/w'' (bd_env bld')) (filter (runnable (bd_env bld')) (map ((!) (bd_gens a)) (all_task_gen a)))"
    using build_modules_result [of sample_build sample_use "\<lambda>b. b" "''/w''" "''/w''"] by (auto simp: sample_build_def)
  then show ?thesis
    by (simp add: sample_needed sample_build_def all_task_gen_def gen_kept_def runnable_def create_ns3_program_def sublist_code)
qed

section \<open>Configuration\<close>

text \<open>
  With all modules enabled the list of enabled modules is the list of all modules itself, so a module that is not built vanishes from both.
\<close>

lemma drop_shared:
  assumes "distinct (ns3_enabled_modules env)" and "distinct (ns3_enabled_contributed_modules env)"
    and "ns3_modules env = ns3_enabled_modules env" and "ns3_contributed_modules env = ns3_enabled_contributed_modules env"
    and "set (ns3_enabled_modules env) \<inter> set (ns3_enabled_contributed_modules env) = {}"
    and "res_fold (drop_not_built True) xs env = Inr env'"
  shows "ns3_enabled_modules env' = filter (\<lambda>m. m \<notin> (@) ns3_prefix ` set xs) (ns3_enabled_modules env)
    \<and> ns3_enabled_contributed_modules env' = filter (\<lambda>m. m \<notin> (@) ns3_prefix ` set xs) (ns3_enabled_contributed_modules env)
    \<and> ns3_modules env' = ns3_enabled_modules env' \<and> ns3_contributed_modules env' = ns3_enabled_contributed_modules env'"
  using assms
proof (induction xs arbitrary: env)
  case (Cons x xs)
  let ?n = "ns3_prefix @ x"
  obtain env1 where s: "drop_not_built True env x = Inr env1" and r: "res_fold (drop_not_built True) xs env1 = Inr env'"
    using Cons.prems(6) by (auto simp: res_bind_eq_Inr)
  have f: "remove1 n ys = filter (\<lambda>m. m \<noteq> n) ys" if "distinct ys" for n :: string and ys
    using that by (simp add: distinct_remove1_removeAll removeAll_filter_not_eq eq_commute)
  have id: "filter (\<lambda>m. m \<noteq> n) ys = ys" if "n \<notin> set ys" for n :: string and ys using that by (auto simp: filter_id_conv)
  have e: "ns3_enabled_modules env1 = filter (\<lambda>m. m \<noteq> ?n) (ns3_enabled_modules env)"
    "ns3_enabled_contributed_modules env1 = filter (\<lambda>m. m \<noteq> ?n) (ns3_enabled_contributed_modules env)"
    "ns3_modules env1 = ns3_enabled_modules env1" "ns3_contributed_modules env1 = ns3_enabled_contributed_modules env1"
  proof -
    consider (m) "?n \<in> set (ns3_enabled_modules env)" "?n \<notin> set (ns3_enabled_contributed_modules env)"
      | (c) "?n \<notin> set (ns3_enabled_modules env)" "?n \<in> set (ns3_enabled_contributed_modules env)"
      | (n) "?n \<notin> set (ns3_enabled_modules env)" "?n \<notin> set (ns3_enabled_contributed_modules env)" using Cons.prems(5) by blast
    note cases = this
    show "ns3_enabled_modules env1 = filter (\<lambda>m. m \<noteq> ?n) (ns3_enabled_modules env)"
      by (cases rule: cases) (use s Cons.prems(1,2) in \<open>auto simp: drop_not_built_def Let_def f id split: if_splits\<close>)
    show "ns3_enabled_contributed_modules env1 = filter (\<lambda>m. m \<noteq> ?n) (ns3_enabled_contributed_modules env)"
      by (cases rule: cases) (use s Cons.prems(1,2) in \<open>auto simp: drop_not_built_def Let_def f id split: if_splits\<close>)
    show "ns3_modules env1 = ns3_enabled_modules env1" "ns3_contributed_modules env1 = ns3_enabled_contributed_modules env1"
      using s Cons.prems(3,4) by (auto simp: drop_not_built_def Let_def split: if_splits)
  qed
  have "(\<lambda>m. m \<notin> (@) ns3_prefix ` set (x # xs)) = (\<lambda>m. m \<noteq> ?n \<and> m \<notin> (@) ns3_prefix ` set xs)" by auto
  then show ?case using Cons.IH [OF _ _ e(3,4) _ r] Cons.prems(1,2,5) e(1,2) by auto
qed simp

text \<open>A module left out this way can not be found when another one needs it.\<close>

lemma configure_all_modules:
  assumes "configure_modules None (''all_modules'' # ms) static_darwin env = Inr env'"
    and "distinct (ns3_modules env)" and "distinct (ns3_contributed_modules env)" and "set (ns3_modules env) \<inter> set (ns3_contributed_modules env) = {}"
    and "b \<in> set (modules_not_built env)"
  shows "ns3_prefix @ b \<notin> set (ns3_modules env') \<union> set (ns3_enabled_modules env') \<union> set (ns3_contributed_modules env') \<union> set (ns3_enabled_contributed_modules env')"
proof -
  let ?e = "env\<lparr>ns3_enabled_modules := ns3_modules env, ns3_enabled_contributed_modules := ns3_contributed_modules env\<rparr>"
  define e where "e = (if static_darwin then ?e\<lparr>modules_not_built := modules_not_built env @ [''template'']\<rparr> else ?e)"
  have r: "res_fold (drop_not_built True) (modules_not_built e) e = Inr env'"
    using assms(1) by (simp add: configure_modules_def set_enabled_modules_def py_index_def e_def Let_def split: if_splits)
  have "ns3_enabled_modules e = ns3_modules env" "ns3_enabled_contributed_modules e = ns3_contributed_modules env" "ns3_modules e = ns3_modules env"
    "ns3_contributed_modules e = ns3_contributed_modules env" "b \<in> set (modules_not_built e)"
    using assms(5) by (simp_all add: e_def)
  then show ?thesis using drop_shared [OF _ _ _ _ _ r] assms(2-4) by auto
qed

lemma not_built_dependency_lost:
  assumes "configure_modules None (''all_modules'' # ms) static_darwin env = Inr env'"
    and "distinct (ns3_modules env)" and "distinct (ns3_contributed_modules env)" and "set (ns3_modules env) \<inter> set (ns3_contributed_modules env) = {}"
    and "b \<in> set (modules_not_built env)" and "m \<in> set (ns3_enabled_modules env')" and "use_of m = Inr use" and "ns3_prefix @ b \<in> set use"
  shows "\<exists>e. enable_dependencies use_of env' (ns3_enabled_modules env') (ns3_enabled_contributed_modules env') = Inl e"
proof -
  let ?S = "set (ns3_enabled_modules env') \<union> set (ns3_enabled_contributed_modules env')"
  have "needed use_of ?S (ns3_prefix @ b)" 
  proof (rule needed.dependency [where m = m and use = use])
    show "needed use_of ?S m" by (rule needed.enabled) (use assms(6) in simp)
  qed (use assms(7,8) in simp_all)
  then have "\<not> complete_build use_of env' ?S" using configure_all_modules [OF assms(1-5)] by (auto simp: complete_build_def)
  then show ?thesis using enable_dependencies_succeeds by (cases "enable_dependencies use_of env' (ns3_enabled_modules env') (ns3_enabled_contributed_modules env')") force+
qed

text \<open>An explicit list does not share, so a module that is not built can be enabled again as a dependency; it has no task generator.\<close>

lemma not_built_dependency_enabled_again:
  assumes "set (ns3_modules env) = {''ns3-a'', ''ns3-b''}" and "modules_not_built env = [''b'']"
    and "configure_modules (Some ''a'') ms False env = Inr env'"
  shows "ns3_enabled_modules env' = [''ns3-a''] \<and> ''ns3-b'' \<in> set (ns3_modules env')"
proof -
  let ?e = "env\<lparr>ns3_enabled_modules := [''ns3-a''], ns3_enabled_contributed_modules := []\<rparr>"
  have "set_enabled_modules (Some ''a'') ms env = Inr (?e, False)" using assms(1) by (simp add: set_enabled_modules_def enable_module_def)
  then have "env' = ?e" using assms(2,3) by (simp add: configure_modules_def drop_not_built_def)
  then show ?thesis using assms(1) by simp
qed

text \<open>With no module enabled the first script with a dependency reads an unbound variable.\<close>

lemma scripts_unbound:
  assumes "ns3_enabled_modules (bd_env bld) = []" and "ns3_enabled_contributed_modules (bd_env bld) = []"
    and "\<exists>(s, deps) \<in> set (script_dependencies (bd_env bld)). deps \<noteq> []"
  shows "build_select cwd launch_dir bld = Inl UnboundLocalError"
proof -
  have "res_fold (script_runnable (bd_env bld)) xs env = Inl UnboundLocalError" if "\<exists>(s, deps) \<in> set xs. deps \<noteq> []" for xs env
    using that
  proof (induction xs arbitrary: env)
    case (Cons x xs)
    show ?case
    proof (cases "snd x = []")
      case True
      then show ?thesis using Cons by (auto simp: script_runnable_def split: prod.splits)
    qed (use assms(1,2) in \<open>simp add: script_runnable_def split_def\<close>)
  qed simp
  then show ?thesis using assms by (simp add: build_select_def)
qed

end
