(* ===== verification/Spec2Isabelle.thy ===== *)
theory Spec2Isabelle
  imports Topsort Test_Summary Style_Status Waf_Command Wutils Versioning Cflags Flowmon Grid_View Create_Module Viz_Plugins Viz_Hud Build_Select
begin

text \<open>
  \<^bold>\<open>The Python tools of ns-3.\<close>

  The repository is the network simulator ns-3.  The simulator is written in C++; the programs that
  build, run, test, check and inspect it are written in Python, and these are the subject here: the test
  driver \<^verbatim>\<open>test.py\<close>, the configuration reader \<^verbatim>\<open>utils.py\<close>, the graph algorithms of the binding generator
  (\<^verbatim>\<open>bindings/python/topsort.py\<close>, \<^verbatim>\<open>rad_util.py\<close>), the style checker \<^verbatim>\<open>utils/check-style.py\<close>, the viewer of
  time lines \<^verbatim>\<open>utils/grid.py\<close>, the parts of the build that run programs (\<^verbatim>\<open>wutils.py\<close>,
  \<^verbatim>\<open>waf-tools/shellcmd.py\<close>, \<^verbatim>\<open>waf-tools/command.py\<close>) or choose versions and flags
  (\<^verbatim>\<open>waf-tools/versioning.py\<close>, \<^verbatim>\<open>waf-tools/cflags.py\<close>), the reader of the flow monitor's results
  (\<^verbatim>\<open>src/flow-monitor/examples/flowmon-parse-results.py\<close>), the generator of new modules
  (\<^verbatim>\<open>utils/create-module.py\<close>), the graphical visualizer (\<^verbatim>\<open>src/visualizer/visualizer\<close>), and the part of the
  build files (\<^verbatim>\<open>wscript\<close>, \<^verbatim>\<open>src/wscript\<close>) that decides which modules, programs and scripts there are.

  The parts meet in files and in shared state.  The build writes \<^verbatim>\<open>build-status.py\<close>, which \<^verbatim>\<open>test.py\<close> reads with the
  functions of \<^verbatim>\<open>utils.py\<close>; the last theorem below joins the two.  \<^verbatim>\<open>test.py\<close> and the build run programs
  through the shell of the build.  The visualizer shares a lock, an event and messages with the thread of the simulation.

  \<^bold>\<open>Theories and sources.\<close>

  \<^item> \<open>Py_Prelude\<close>, \<open>Py_Path\<close>, \<open>Py_Num\<close>, \<open>Py_Float\<close>, \<open>Py_Shlex\<close>: what the programs use of Python and its library:
    exceptions as the left summand of a result, strings, slices, dictionaries in insertion order,
    \<open>list.sort\<close> with a comparison function, \<open>os.path\<close>, \<open>fnmatch\<close>, numbers of Python 2, reading and writing
    floats, \<open>shlex.split\<close>.
    The locales \<open>key_comparator\<close> (a comparison that orders by a key makes the sort a stable sort),
    \<open>transition_system\<close> (an invariant of all reachable states) and \<open>terminating_system\<close> (a weight that
    every step lowers, no stuck state but the final ones) are declared here.
  \<^item> \<open>Test_Config\<close>, \<open>Test_Jobs\<close>, \<open>Test_Pool\<close>, \<open>Test_Summary\<close>, \<open>Test_Report\<close>: \<^verbatim>\<open>test.py\<close>.  The options, the
    globals written by the build, \<open>read_waf_config\<close>, \<open>make_paths\<close>, \<open>parse_examples_to_run_file\<close> and
    \<open>run_job_synchronously\<close>; the first half of \<open>run_tests\<close> up to the list of jobs; the queues and
    threads as the step relation \<open>pool_step\<close>; the second half, which counts, prints and exits; and the
    text and HTML reports.  \<open>Test_Pool\<close> interprets the locales on the step relation; the theorems say that
    no job is lost or duplicated, that the pool ends under every schedule, and what the main thread holds
    then.  The theorem below joins the parts: the exit code against the commands alone.
  \<^item> \<open>Ns3_Config\<close>: \<^verbatim>\<open>utils.py\<close>, the scanner of the configuration file against the text it should evaluate.
  \<^item> \<open>Rad_Util\<close>, \<open>Topsort\<close>: the helpers and the topological sort, its levels, and the enumeration of cycles.
    The locale \<open>rotation_test\<close> states what the enumeration of cycles asks of \<open>is_rotated\<close>.
  \<^item> \<open>Check_Style\<close>, \<open>Style_Status\<close>: parsing and writing unified diffs, the filter that restores trailing blanks, and the
    driver; parsing inverts writing, and for diffs that replace lines by as many others the exit status says whether
    a line changes by more than one trailing blank.  What is asked of \<open>unified_diff\<close> and \<open>patch\<close> is \<open>diff_ok\<close> and \<open>patch_ok\<close>.
  \<^item> \<open>Grid_Timelines\<close>, \<open>Grid_Render\<close>, \<open>Grid_View\<close>: \<^verbatim>\<open>utils/grid.py\<close>.  The data model, its binary searches and
    the reader of traces; the legend, the rows and the scales as lists of drawing calls; the widget as a
    state with one handler per event.  The locale \<open>named_entries\<close> is the search-or-append that the data
    model repeats three times.  \<open>view_step\<close> is any event in any state, exceptions included, and the
    invariant on the selected range is an interpretation of \<open>transition_system\<close>.
  \<^item> \<open>Shellcmd\<close>, \<open>Waf_Command\<close>, \<open>Wutils\<close>: the small shell of the build, its substitution of variables, and
    running programs.  The parser is a state machine with a typing invariant; a written line is parsed
    back; running refines an abstract evaluation of the connectives (\<open>shell_eval\<close>); files are closed.  The variable
    \<open>retval\<close> of a run is \<open>rn_retval\<close>, without a value until the end of a line, which is why verbose runs raise.
    A command line that is quoted as a shell does starts a program with exactly its arguments.
  \<^item> \<open>Versioning\<close>, \<open>Cflags\<close>: the version task, which stores and merges well-formed fields only, leaves the environment alone when
    it fails, and takes what git prints apart exactly (the cache file is part of the state, and writing it may fail half-way); the flags of a profile.  The abstract class of compilers is the
    locale \<open>compiler_traits\<close>, interpreted on the three families.
  \<^item> \<open>Flowmon\<close>: the results of the flow monitor.  The dictionary of flows holds references into the list of
    flows, which the model keeps as indices, so that repeated identifiers behave as in the program.
  \<^item> \<open>Module_Templates\<close>, \<open>Create_Module\<close>: \<^verbatim>\<open>utils/create-module.py\<close>, its templates with \<open>str.format\<close>, and the
    creation of a module on a file system whose every call may fail.  A module is created completely or
    not at all (\<open>produces\<close> collects the files, \<open>safe_io\<close> what may change, \<open>runs\<close> that it succeeds when no call
    fails), and the program writes below \<open>src\<close> and \<open>contrib\<close> only.
  \<^item> \<open>Viz_Threads\<close>: \<^verbatim>\<open>core.py\<close> of the visualizer, the simulation thread and the handlers of the main thread as one step
    relation \<open>viz_step\<close>: mutual exclusion, no deadlock when the window is closed, no message lost, the view at most a second behind.
  \<^item> \<open>Viz_Base\<close>, \<open>Viz_Scene\<close>, \<open>Viz_Scan\<close>: scales, traits of devices and pictures (\<^verbatim>\<open>base.py\<close>, \<^verbatim>\<open>svgitem.py\<close>); nodes, channels, links,
    selection and dragging as operations on a record \<open>scene\<close>, with the invariant \<open>scene_inv\<close> of all that is drawn; the scan of the network.
    The canvas knows its bounds, whether the library returns them, and the hooks of \<open>set_bounds\<close>.
  \<^item> \<open>Viz_Traffic\<close>: averages of transmissions and drops, and the arrows drawn for them.  The locale \<open>arrow_drawing\<close> is the
    contract between the loop that uses arrows again and what is drawn; it is interpreted on transmissions and on drops.
  \<^item> \<open>Viz_Plugins\<close>, \<open>Viz_Hud\<close>: rates of interfaces and links of Wi-Fi stations, whose objects are named by their index in a list of all
    ever made, since nodes and the monitor share them; the axes, with the division chosen for a window and the number of its ticks.
  \<^item> \<open>Build_Modules\<close>, \<open>Build_Select\<close>: the modules enabled by \<open>configure\<close> and their dependencies, against the inductive predicate \<open>needed\<close>;
    the task generators that stay in a build, the runnable programs and scripts, and \<^verbatim>\<open>build-status.py\<close>.

  \<^bold>\<open>Conventions.\<close>  A class is a record, an enumeration a datatype; a function that may raise returns
  \<open>'a res\<close>, the left summand being the exception; a loop that may raise is \<open>res_fold\<close>; a program that goes
  on after an exception (the handlers of the viewer, a run of the shell) returns its state beside the
  result.  An attribute or a variable that may be unassigned is an option, and reading it raises what
  Python raises.

  \<^bold>\<open>Arguments that stand for other code.\<close>  \<open>eval\<close> and \<open>exec\<close> on texts; starting a process; the parser of
  XML; \<open>difflib.unified_diff\<close>, \<open>uncrustify\<close> and \<open>patch\<close>; the order in which a dictionary lists its keys in
  \<^verbatim>\<open>topsort.py\<close>; the extents of a text on the screen; the world of files and processes of the shell; the
  build context of waf with its tasks, environment and directories; git, and the cache file of the version;
  which calls on files fail; the layout of graphviz, the simulated network, where a run of the simulator stops, and the clipping of lines;
  the lookup of task generators by name, and the build files of the examples.

  \<^bold>\<open>Abstractions.\<close>  Finite floating-point numbers are exact rationals.  Trace output (\<open>--verbose\<close> of \<^verbatim>\<open>test.py\<close>,
  \<open>debug\<close> of the shell) is left out.  Comparing files is comparing their contents.  A process that is
  started ends: a test that hangs is not described, and what the theorems say of the end of the pool holds for commands that return.  The viewer and
  \<^verbatim>\<open>rad_util.py\<close> are read as Python 2, which they need; the values of ranges in the legend are listed in
  the order of their first occurrence.  \<^verbatim>\<open>wutils.py\<close> is read on POSIX.  A drawing that raises leaves the
  colours as they were.  Widths of lines, angles and the axes of the visualizer are real numbers, since logarithms and
  arcs occur in them.  The table of waf gives back the lists stored in it, so two names may share one.

  \<^bold>\<open>Termination.\<close>  Every function is total without fuel: loops over lists are structural, the searches, the
  levels, the enumeration of paths, the steps of a scale and the substitution have measures.  A loop of
  \<^verbatim>\<open>float_range\<close> that may not end is a partial function, proved to end for a positive step and not to end
  otherwise, and so is the loop over the ticks of an axis, proved to end with at most nine of them.  Enabling
  dependencies ends because each round but the last enables a module.  The thread pool ends because \<open>pool_weight\<close> falls with every step.

  \<^bold>\<open>Not modelled.\<close>  The C++ simulator; PyBindGen and its generated bindings; the widgets of the visualizer and of the viewer,
  the tables of the visualizer's plugins and its IPython shell; painting with cairo; the checks of compilers, libraries and programs
  in the build files and the documentation targets, which are calls of waf; of \<open>build\<close> in \<^verbatim>\<open>wscript\<close> the early exits (\<open>--check-config\<close>,
  \<open>--check-profile\<close>, \<open>--enable-modules\<close>) and \<open>create_suid_program\<close>; what code typed into the shell of the visualizer does to the scene; \<open>timestamp\<close>, \<open>nice_units\<close> and \<open>getmodule\<close> of \<^verbatim>\<open>rad_util.py\<close>.
\<close>


lemma worker_process_skip: "worker_process popen cfg opts x j = Inr j' \<Longrightarrow> is_skip j' = is_skip j"
  by (auto simp: worker_process_def Let_def res_bind_eq_Inr split: if_splits)

lemma collected_outcomes:
  assumes "mset (map ident js) = mset jobs"
    and "\<forall>j \<in> set js. worker_process popen cfg opts False (ident j) = Inr j"
    and "\<forall>j \<in> set jobs. \<not> is_break j"
  shows "(\<forall>j \<in> set js. \<not> is_break j \<and> (is_skip j \<or> returncode j = 0))
    \<longleftrightarrow> (\<forall>j \<in> set jobs. is_skip j \<or> (\<exists>j'. worker_process popen cfg opts False j = Inr j' \<and> returncode j' = 0))"
proof -
  have s: "set jobs = ident ` set js" using arg_cong [OF assms(1), of set_mset] by simp
  have "\<not> is_break j \<and> (is_skip j \<or> returncode j = 0)
      \<longleftrightarrow> is_skip (ident j) \<or> (\<exists>j'. worker_process popen cfg opts False (ident j) = Inr j' \<and> returncode j' = 0)"
    if j: "j \<in> set js" for j
  proof -
    have w: "worker_process popen cfg opts False (ident j) = Inr j" using assms(2) j by blast
    have "\<not> is_break (ident j)" using assms(3) s j by blast
    then show ?thesis using w worker_process_break [OF w] worker_process_skip [OF w] by auto
  qed
  then show ?thesis unfolding s by blast
qed

text \<open>
  C1: end to end, with processes whose outcome does not depend on when they are started: whatever the
  schedule of the worker threads, if the run is not interrupted the exit code of \<^verbatim>\<open>test.py\<close> is 0
  exactly when each dispatched job is skipped or, run on its own, returns 0.
\<close>
theorem test_run_exit_code:
  assumes "run_tests_prepare env opts = Inr (Dispatched jobs n dir cfg environ)"
    and "0 < n" and "PYTHON cfg \<noteq> []"
    and "(pool_step (\<lambda>_. env_popen env))\<^sup>*\<^sup>* (start_pool cfg opts jobs n) s" and "joined s" and "\<not> thread_exit s"
    and "collect_jobs tmp c opts (length jobs) (collected s) = Inr sm"
    and "run_tests_finish et_parse cfg opts (length jobs) sm = Inr r"
  shows "exit_code r =
    (if \<forall>j \<in> set jobs. is_skip j
         \<or> (\<exists>j'. worker_process (env_popen env) cfg opts False j = Inr j' \<and> returncode j' = 0)
     then 0 else 1)"
proof -
  have ok: "\<forall>j \<in> set jobs. dispatch_ok opts j"
    using assms(1) by (auto simp: prepare_dispatch_ok)
  then have fr: "\<forall>j \<in> set jobs. \<not> is_break j \<and> returncode j = 0 \<and> elapsed_time j = 0"
    by (simp add: dispatch_ok_def)
  obtain k where k: "n = int k" "0 < k" using assms(2) zero_less_imp_eq_int by blast
  note res = pool_joined [OF fr assms(3) k(2) assms(4) [unfolded k(1)] assms(5)]
  have len: "length (collected s) = length jobs" using res(1) by (metis length_map size_mset)
  have "exit_code r = (if passed_tests sm + skipped_tests sm = int (length (collected s)) then 0 else 1)"
    using finish_exit_code [OF assms(8)] len by simp
  moreover have "\<forall>j \<in> set (collected s). worker_process (env_popen env) cfg opts False (ident j) = Inr j"
    using res(3) assms(6) by (simp add: ex_bool_eq)
  ultimately show ?thesis
    using exit_iff [OF assms(7)] collected_outcomes [OF res(1)] fr by simp
qed


text \<open>A run over the sample environment: two suites, four workers, every process returns 0.\<close>

definition quick :: test_options where
  "quick = default_options\<lparr>opt_nowaf := True\<rparr>"

definition prepared_view :: "prepared res \<Rightarrow> (nat \<times> int \<times> string list) option" where
  "prepared_view r = (case r of Inr (Dispatched jobs n _ cfg _) \<Rightarrow> Some (length jobs, n, PYTHON cfg) | _ \<Rightarrow> None)"

lemma sample_prepared:
  "\<exists>jobs dir cfg environ. run_tests_prepare sample_env quick = Inr (Dispatched jobs 4 dir cfg environ)
    \<and> length jobs = 2 \<and> PYTHON cfg = [''python3'']"
proof -
  have "prepared_view (run_tests_prepare sample_env quick) = Some (2, 4, [''python3''])" by code_simp
  then show ?thesis by (auto simp: prepared_view_def split: sum.splits prepared.splits)
qed

lemma sample_process_passes:
  assumes "PYTHON cfg \<noteq> []" and "\<not> is_skip j"
  shows "\<exists>j'. worker_process (env_popen sample_env) cfg opts False j = Inr j' \<and> returncode j' = 0"
proof -
  have "\<exists>out err et. run_job_synchronously (env_popen sample_env) cfg c d v p b = Inr (0, out, err, et)" for c d v p b
    using assms(1) by (auto simp: run_job_synchronously_def job_command_def Let_def py_index_def sample_env_def
        sample_popen_def is_bytes_def)
  note run = this
  show ?thesis
  proof (cases "is_example j \<or> is_pyexample j")
    case True
    obtain out err et where "run_job_synchronously (env_popen sample_env) cfg (shell_command j) (cwd j)
        (opt_valgrind opts) (is_pyexample j) (build_path j) = Inr (0, out, err, et)" using run by blast
    with True assms(2) show ?thesis by (simp add: worker_process_def)
  next
    case False
    then show ?thesis
      using assms(2) run [of "shell_command j @ '' --xml --tempdir='' @ tempdir j @ '' --out='' @ tmp_file_name j
                    @ '' '' @ (if opt_update_data opts then ''--update-data'' else [])" "cwd j" "opt_valgrind opts" False "[]"]
      by (auto simp: worker_process_def Let_def simp del: append.assoc append_Cons append_assoc)
  qed
qed

lemma collect_with_files: "\<exists>s. collect_jobs some_file c opts n js = Inr s"
  unfolding collect_jobs_def collect_fold_success
  by (simp add: writable_def result_entry_def some_file_def isl_def)

theorem test_run_exit_code_witness:
  "\<exists>jobs n dir cfg environ s sm r.
     run_tests_prepare sample_env quick = Inr (Dispatched jobs n dir cfg environ) \<and> jobs \<noteq> []
     \<and> (pool_step (\<lambda>_. env_popen sample_env))\<^sup>*\<^sup>* (start_pool cfg quick jobs n) s \<and> joined s
     \<and> collect_jobs some_file False quick (length jobs) (collected s) = Inr sm
     \<and> run_tests_finish (\<lambda>_. Inl KeyError) cfg quick (length jobs) sm = Inr r \<and> exit_code r = 0"
proof -
  obtain jobs dir cfg environ where p: "run_tests_prepare sample_env quick = Inr (Dispatched jobs 4 dir cfg environ)"
    and l: "length jobs = 2" and py: "PYTHON cfg \<noteq> []" using sample_prepared by auto
  have "\<forall>j \<in> set jobs. \<not> is_break j"
    using prepare_dispatch_ok [OF p] by (auto simp: dispatch_ok_def)
  from quiet_run_joins [OF this py, of 4 "\<lambda>_. env_popen sample_env" quick] obtain s where
    s: "(pool_step (\<lambda>_. env_popen sample_env))\<^sup>*\<^sup>* (start_pool cfg quick jobs 4) s" "joined s" "\<not> thread_exit s"
    by auto
  obtain sm where sm: "collect_jobs some_file False quick (length jobs) (collected s) = Inr sm"
    using collect_with_files by blast
  obtain r where r: "run_tests_finish (\<lambda>_. Inl KeyError) cfg quick (length jobs) sm = Inr r"
    by (simp add: run_tests_finish_def write_report_def quick_def default_options_def Let_def)
  have all: "\<forall>j \<in> set jobs. is_skip j
         \<or> (\<exists>j'. worker_process (env_popen sample_env) cfg quick False j = Inr j' \<and> returncode j' = 0)"
    using sample_process_passes [OF py] by blast
  have "exit_code r = 0"
    unfolding test_run_exit_code [OF p _ py s(1,2,3) sm r, simplified] using all by (rule if_P)
  with p l s(1,2) sm r show ?thesis by (metis length_0_conv zero_neq_numeral)
qed

section \<open>The status of the build\<close>

lemma hex_digit_range: "hex_digit n \<in> set ''0123456789abcdef''"
proof -
  have "n mod 16 < length ''0123456789abcdef''" by simp
  then show ?thesis unfolding hex_digit_def by (rule nth_mem)
qed

lemma hex_digit_no_hash: "hex_digit n \<noteq> CHR ''#''"
  using hex_digit_range [of n] by (auto simp del: set_simps) (simp add: hex_digit_range)

lemma repr_no_hash:
  assumes "CHR ''#'' \<notin> set s"
  shows "CHR ''#'' \<notin> set (py_repr s)"
proof -
  have "CHR ''#'' \<notin> set (repr_char q c)" if "c \<noteq> CHR ''#''" for q c
  proof -
    define n :: nat where "n = of_char c"
    have "set (repr_char q c) \<subseteq> {BACKSLASH, c, CHR ''n'', CHR ''t'', CHR ''r'', CHR ''x'', hex_digit (n div 16), hex_digit n}"
      unfolding repr_char_def Let_def n_def [symmetric] by simp
    then show ?thesis using that hex_digit_no_hash [of "n div 16"] hex_digit_no_hash [of n] by fastforce
  qed
  then have "CHR ''#'' \<notin> set (concat (map (repr_char q) s))" for q using assms by (induction s) auto
  then show ?thesis by (simp add: py_repr_def Let_def)
qed

lemma join_no_hash: "CHR ''#'' \<notin> set sep \<Longrightarrow> \<forall>x \<in> set xs. CHR ''#'' \<notin> set x \<Longrightarrow> CHR ''#'' \<notin> set (py_join sep xs)"
  by (induction sep xs rule: py_join.induct) auto

lemma repr_list_no_hash: "\<forall>x \<in> set xs. CHR ''#'' \<notin> set x \<Longrightarrow> CHR ''#'' \<notin> set (py_repr_list xs)"
  using join_no_hash [of "'', ''" "map py_repr xs"] repr_no_hash by (simp add: py_repr_list_def)

lemma no_comment: "CHR ''#'' \<notin> set l \<Longrightarrow> strip_comment l = l"
  by (simp add: strip_comment_def)

lemma strip_repr_list: "py_strip ('' '' @ py_repr_list xs @ [NL]) = py_repr_list xs"
proof -
  have "py_repr_list xs = CHR ''['' # py_join '', '' (map py_repr xs) @ [CHR '']'']" by (simp add: py_repr_list_def)
  moreover have "py_strip ('' '' @ (CHR ''['' # t @ [CHR '']'']) @ [NL]) = CHR ''['' # t @ [CHR '']'']" for t
    by (simp add: py_strip_def is_space_def)
  ultimately show ?thesis by metis
qed

lemma assigned_list: "CHR ''='' \<notin> set name \<Longrightarrow> assigned_text (name @ ''= '' @ py_repr_list xs @ [NL]) = Inr (py_repr_list xs)"
proof -
  assume n: "CHR ''='' \<notin> set name"
  have "dropWhile (\<lambda>x. x \<noteq> CHR ''='') (name @ CHR ''='' # t) = CHR ''='' # t" for t using n by (induction name) auto
  then show ?thesis using strip_repr_list [of xs] by (simp add: assigned_text_def py_split1_def py_index_def)
qed

text \<open>
  C18: The lists of runnable programs and scripts that waf writes into \<^verbatim>\<open>build-status.py\<close> at the end of a build are what \<^verbatim>\<open>test.py\<close>
  reads from it, provided that no name has a hash sign, that the text of the programs does not contain the name of the second list,
  and that \<open>eval\<close> gives back a list from its text.
\<close>

theorem build_status_roundtrip:
  assumes "env_fs tenv (path_join (NS3_BUILDDIR cfg) ''build-status.py'') = Some (build_status_lines env)"
    and "\<forall>p \<in> set (runnable_programs env) \<union> set (runnable_scripts env). CHR ''#'' \<notin> set p"
    and "\<not> sublist ''ns3_runnable_scripts'' (''ns3_runnable_programs = '' @ py_repr_list (runnable_programs env) @ [NL])"
    and "env_eval_strings tenv (py_repr_list (runnable_programs env)) = Inr (runnable_programs env)"
    and "env_eval_strings tenv (py_repr_list (runnable_scripts env)) = Inr (runnable_scripts env)"
  shows "build_status tenv cfg = Inr (runnable_programs env, runnable_scripts env)"
proof -
  let ?p = "''ns3_runnable_programs = '' @ py_repr_list (runnable_programs env) @ [NL]"
  let ?s = "''ns3_runnable_scripts = '' @ py_repr_list (runnable_scripts env) @ [NL]"
  have h: "strip_comment ?p = ?p" "strip_comment ?s = ?s" using assms(2) by (auto intro!: no_comment repr_list_no_hash simp: repr_list_no_hash)
  have b: "CHR '']'' \<in> set ?p" "CHR '']'' \<in> set ?s" by (simp_all add: py_repr_list_def)
  have sub: "sublist ''ns3_runnable_programs'' ?p" "sublist ''ns3_runnable_scripts'' ?s"
    by (rule prefix_imp_sublist, simp add: prefix_def)+
  have lines: "build_status_lines env = [''#! /usr/bin/env python3'' @ [NL], [NL], ''# Programs that are runnable.'' @ [NL], ?p, [NL], ''# Scripts that are runnable.'' @ [NL], ?s, [NL]]"
    by (simp add: build_status_lines_def)
  have empty: "strip_comment (''#! /usr/bin/env python3'' @ [NL]) = []" "strip_comment (''# Programs that are runnable.'' @ [NL]) = []"
    "strip_comment (''# Scripts that are runnable.'' @ [NL]) = []" "strip_comment [NL] = [NL]"
    by (simp_all add: strip_comment_eq)
  have no: "\<not> sublist ''ns3_runnable_programs'' []" "\<not> sublist ''ns3_runnable_programs'' [NL]" "\<not> sublist ''ns3_runnable_scripts'' []" "\<not> sublist ''ns3_runnable_scripts'' [NL]"
    by (simp_all add: sublist_code)
  have "scan_list ''ns3_runnable_programs'' (build_status_lines env) [] False = Some ?p"
    unfolding lines scan_list.simps Let_def empty h using no sub b by simp
  moreover have "scan_list ''ns3_runnable_scripts'' (build_status_lines env) [] False = Some ?s"
    unfolding lines scan_list.simps Let_def empty h using no sub b assms(3) by simp
  moreover have "assigned_text ?p = Inr (py_repr_list (runnable_programs env))" "assigned_text ?s = Inr (py_repr_list (runnable_scripts env))"
    using assigned_list [of "''ns3_runnable_programs ''" "runnable_programs env"] assigned_list [of "''ns3_runnable_scripts ''" "runnable_scripts env"] by simp_all
  ultimately show ?thesis using assms(1,4,5) by (simp add: build_status_def get_list_from_file_def Let_def)
qed


definition built_env :: ns3_env where
  "built_env = (bd_env sample_build)\<lparr>runnable_programs := [''b/ns3-first''], runnable_scripts := [''s.py'']\<rparr>"

definition built_test_env :: test_env where
  "built_test_env = sample_env\<lparr>env_fs := (\<lambda>p. Some (build_status_lines built_env)),
     env_eval_strings := (\<lambda>t. Inr (if t = py_repr_list [''s.py''] then [''s.py''] else [''b/ns3-first'']))\<rparr>"

theorem build_status_roundtrip_witness:
  "build_status built_test_env initial_config = Inr ([''b/ns3-first''], [''s.py''])"
proof -
  have "\<not> sublist ''ns3_runnable_scripts'' (''ns3_runnable_programs = '' @ py_repr_list [''b/ns3-first''] @ [NL])" by code_simp
  moreover have "py_repr_list [''b/ns3-first''] \<noteq> py_repr_list [''s.py'']" by code_simp
  ultimately show ?thesis
    using build_status_roundtrip [of built_test_env initial_config built_env] by (simp add: built_test_env_def built_env_def)
qed

end
